(* ===== verification/Prelude.thy ===== *)
theory Prelude
  imports Main "HOL-Library.Sublist" "HOL-Library.AList"
begin

section \<open>Shared vocabulary of the development\<close>

text \<open>
  What every component uses: the exceptions of the Engine as one datatype, the
  result type \<open>'a res\<close> of code that may raise, sequencing of such code, the
  conventions for Python strings and dictionaries, and generic list lemmas.

  A Python \<open>str\<close> is represented by its UTF-8 code units (\<open>string\<close>, one \<open>char\<close>
  per byte).  Concatenation, equality, prefix tests and the code point order are then the
  list operations on the code units; only where the code counts or inspects
  characters does \<open>py_chars\<close> group the units into code points.
\<close>

subsection \<open>Exceptions and results\<close>

text \<open>
  The constructors are the exception classes the modelled code raises; the string is
  the stable error code, or the message where the class has no code.
\<close>

datatype error =
    ImportError string
  | PageError string
  | ProtocolError string
  | RequestError string
  | PlanError "string list"
  | AnalysisInvalid "string list"
  | ValueError string
  | RuntimeError string
  | KeyError string
  | TypeError string
  | IndexError
  | GatewayError string
  | StorageError string
  | AssertionError

type_synonym 'a res = "error + 'a"

named_theorems res_simps \<open>rewrite rules for results and their sequencing\<close>

definition res_bind :: "'a res \<Rightarrow> ('a \<Rightarrow> 'b res) \<Rightarrow> 'b res" where
  "res_bind m f = (case m of Inl e \<Rightarrow> Inl e | Inr x \<Rightarrow> f x)"

text \<open>\<open>require b e\<close> is \<open>if not b: raise e\<close>.\<close>

definition require :: "bool \<Rightarrow> error \<Rightarrow> unit res" where
  "require b e = (if b then Inr () else Inl e)"

fun res_map :: "('a \<Rightarrow> 'b res) \<Rightarrow> 'a list \<Rightarrow> 'b list res" where
  "res_map f [] = Inr []"
| "res_map f (x # xs) =
     res_bind (f x) (\<lambda>y. res_bind (res_map f xs) (\<lambda>ys. Inr (y # ys)))"

lemma res_bind_simps [simp, res_simps]:
  "res_bind (Inl e) f = Inl e"
  "res_bind (Inr x) f = f x"
  by (simp_all add: res_bind_def)

lemma res_bind_Inr_iff [res_simps]:
  "res_bind m f = Inr y \<longleftrightarrow> (\<exists>x. m = Inr x \<and> f x = Inr y)"
  by (cases m) auto

lemma res_bind_Inl_iff [res_simps]:
  "res_bind m f = Inl e \<longleftrightarrow> m = Inl e \<or> (\<exists>x. m = Inr x \<and> f x = Inl e)"
  by (cases m) auto

lemma require_simps [simp, res_simps]:
  "require True e = Inr ()"
  "require False e = Inl e"
  by (simp_all add: require_def)

lemma require_Inr_iff [res_simps]: "require b e = Inr u \<longleftrightarrow> b"
  by (simp add: require_def)

lemma require_Inl_iff [res_simps]: "require b e = Inl e' \<longleftrightarrow> \<not> b \<and> e' = e"
  by (auto simp add: require_def)

lemma res_map_Inr_iff:
  "res_map f xs = Inr ys \<longleftrightarrow> list_all2 (\<lambda>x y. f x = Inr y) xs ys"
proof (induction xs arbitrary: ys)
  case Nil
  then show ?case by auto
next
  case (Cons x xs)
  then show ?case by (cases ys) (auto simp: res_simps)
qed

lemma res_map_Inr_length: "res_map f xs = Inr ys \<Longrightarrow> length ys = length xs"
  by (auto simp: res_map_Inr_iff dest: list_all2_lengthD)

lemma res_map_pure [simp]: "res_map (\<lambda>x. Inr (g x)) xs = Inr (map g xs)"
  by (induction xs) auto

lemma res_map_all_Inr:
  "(\<And>x. x \<in> set xs \<Longrightarrow> f x = Inr (g x)) \<Longrightarrow> res_map f xs = Inr (map g xs)"
  by (induction xs) auto

subsection \<open>Python strings\<close>

definition utf8_continuation :: "char \<Rightarrow> bool" where
  "utf8_continuation c \<longleftrightarrow> 128 \<le> (of_char c :: nat) \<and> (of_char c :: nat) < 192"

text \<open>The code points of a string, each as its code units.\<close>

fun py_chars :: "string \<Rightarrow> string list" where
  "py_chars [] = []"
| "py_chars (c # cs) =
     (case py_chars cs of
        [] \<Rightarrow> [[c]]
      | u # us \<Rightarrow> if utf8_continuation (hd u) then (c # u) # us else [c] # u # us)"

definition py_len :: "string \<Rightarrow> nat" where
  "py_len s = length (py_chars s)"

lemma concat_py_chars [simp]: "concat (py_chars s) = s"
  by (induction s) (auto split: list.splits)

lemma py_len_le: "py_len s \<le> length s"
  by (induction s) (auto simp: py_len_def split: list.splits)

text \<open>
  \<open>str.isspace\<close> of one character, by its code units: the ASCII controls
  \<open>0x09-0x0d\<close> and \<open>0x1c-0x1f\<close>, the space, \<open>U+0085\<close>, \<open>U+00A0\<close>, \<open>U+1680\<close>,
  \<open>U+2000-U+200A\<close>, \<open>U+2028\<close>, \<open>U+2029\<close>, \<open>U+202F\<close>, \<open>U+205F\<close> and \<open>U+3000\<close>.
\<close>

definition py_isspace :: "string \<Rightarrow> bool" where
  "py_isspace u =
     (case map (of_char :: char \<Rightarrow> nat) u of
        [a] \<Rightarrow> (9 \<le> a \<and> a \<le> 13) \<or> (28 \<le> a \<and> a \<le> 32)
      | [a, b] \<Rightarrow> a = 194 \<and> (b = 133 \<or> b = 160)
      | [a, b, c] \<Rightarrow>
          (a = 225 \<and> b = 154 \<and> c = 128) \<or>
          (a = 226 \<and> b = 128 \<and> (128 \<le> c \<and> c \<le> 138 \<or> c = 168 \<or> c = 169 \<or> c = 175)) \<or>
          (a = 226 \<and> b = 129 \<and> c = 159) \<or>
          (a = 227 \<and> b = 128 \<and> c = 128)
      | _ \<Rightarrow> False)"

text \<open>\<open>str.strip()\<close>.\<close>

definition py_strip :: "string \<Rightarrow> string" where
  "py_strip s =
     concat (rev (dropWhile py_isspace (rev (dropWhile py_isspace (py_chars s)))))"

text \<open>\<open>str.split()\<close>, and \<open>sep.join(parts)\<close>.\<close>

fun split_chars :: "string list \<Rightarrow> string list \<Rightarrow> string list" where
  "split_chars cur [] = (if cur = [] then [] else [concat (rev cur)])"
| "split_chars cur (u # us) =
     (if py_isspace u
      then (if cur = [] then split_chars [] us else concat (rev cur) # split_chars [] us)
      else split_chars (u # cur) us)"

definition py_split :: "string \<Rightarrow> string list" where
  "py_split s = split_chars [] (py_chars s)"

fun py_join :: "string \<Rightarrow> string list \<Rightarrow> string" where
  "py_join sep [] = []"
| "py_join sep [x] = x"
| "py_join sep (x # y # ys) = x @ sep @ py_join sep (y # ys)"

text \<open>\<open>str(n)\<close> of an integer.\<close>

fun nat_digits :: "nat \<Rightarrow> string" where
  "nat_digits n =
     (if n < 10 then [char_of (48 + n)] else nat_digits (n div 10) @ [char_of (48 + n mod 10)])"

declare nat_digits.simps [simp del]

definition int_digits :: "int \<Rightarrow> string" where
  "int_digits i = (if i < 0 then CHR ''-'' # nat_digits (nat (- i)) else nat_digits (nat i))"

subsection \<open>First occurrences: \<open>dict.fromkeys\<close>\<close>

text \<open>\<open>tuple(dict.fromkeys(xs))\<close> keeps the first occurrence of each element.\<close>

fun uniq :: "'a list \<Rightarrow> 'a list" where
  "uniq [] = []"
| "uniq (x # xs) = x # filter (\<lambda>y. y \<noteq> x) (uniq xs)"

lemma set_uniq [simp]: "set (uniq xs) = set xs"
  by (induction xs) auto

lemma distinct_uniq [simp]: "distinct (uniq xs)"
  by (induction xs) auto

lemma uniq_distinct: "distinct xs \<Longrightarrow> uniq xs = xs"
  by (induction xs) (auto intro!: filter_True)

lemma length_uniq_le: "length (uniq xs) \<le> length xs"
proof (induction xs)
  case (Cons x xs)
  have "length (filter (\<lambda>y. y \<noteq> x) (uniq xs)) \<le> length (uniq xs)"
    by (rule length_filter_le)
  also note Cons
  finally show ?case by simp
qed simp

subsection \<open>Appending what is new\<close>

text \<open>
  \<open>if x not in selected: selected.append(x)\<close>, the idiom of the ranking code, and the
  loop that does it for every element.
\<close>

definition append_new :: "'a list \<Rightarrow> 'a \<Rightarrow> 'a list" where
  "append_new sel x = (if x \<in> set sel then sel else sel @ [x])"

definition extend_new :: "'a list \<Rightarrow> 'a list \<Rightarrow> 'a list" where
  "extend_new sel xs = foldl append_new sel xs"

lemma set_append_new [simp]: "set (append_new sel x) = insert x (set sel)"
  by (auto simp: append_new_def)

lemma distinct_append_new [simp]: "distinct sel \<Longrightarrow> distinct (append_new sel x)"
  by (auto simp: append_new_def)

lemma extend_new_simps [simp]:
  "extend_new sel [] = sel"
  "extend_new sel (x # xs) = extend_new (append_new sel x) xs"
  by (simp_all add: extend_new_def)

lemma set_extend_new [simp]: "set (extend_new sel xs) = set sel \<union> set xs"
  by (induction xs arbitrary: sel) auto

lemma distinct_extend_new [simp]: "distinct sel \<Longrightarrow> distinct (extend_new sel xs)"
  by (induction xs arbitrary: sel) auto

lemma prefix_extend_new: "prefix sel (extend_new sel xs)"
proof (induction xs arbitrary: sel)
  case (Cons x xs)
  have "prefix sel (append_new sel x)" by (simp add: append_new_def)
  then show ?case using Cons [of "append_new sel x"] by (simp add: prefix_order.trans)
qed simp

text \<open>The same loop with \<open>if len(selected) == limit: break\<close> at its head.\<close>

fun extend_until :: "nat \<Rightarrow> 'a list \<Rightarrow> 'a list \<Rightarrow> 'a list" where
  "extend_until limit sel [] = sel"
| "extend_until limit sel (x # xs) =
     (if length sel = limit then sel else extend_until limit (append_new sel x) xs)"

lemma length_append_new: "length (append_new sel x) \<le> Suc (length sel)"
  by (simp add: append_new_def)

lemma extend_until_length:
  "length sel \<le> limit \<Longrightarrow> length (extend_until limit sel xs) \<le> limit"
proof (induction xs arbitrary: sel)
  case (Cons x xs)
  then show ?case using length_append_new [of sel x] by auto
qed simp

lemma extend_until_distinct: "distinct sel \<Longrightarrow> distinct (extend_until limit sel xs)"
  by (induction xs arbitrary: sel) auto

lemma extend_until_subset: "set (extend_until limit sel xs) \<subseteq> set sel \<union> set xs"
proof (induction xs arbitrary: sel)
  case (Cons x xs)
  from Cons [of "append_new sel x"] show ?case by auto
qed simp

lemma extend_until_prefix: "prefix sel (extend_until limit sel xs)"
proof (induction xs arbitrary: sel)
  case (Cons x xs)
  have "prefix sel (append_new sel x)" by (simp add: append_new_def)
  then show ?case using Cons [of "append_new sel x"] by (simp add: prefix_order.trans)
qed simp

lemma extend_until_stop:
  "length (extend_until limit sel xs) = limit \<or> set xs \<subseteq> set (extend_until limit sel xs)"
  if "length sel \<le> limit"
  using that
proof (induction xs arbitrary: sel)
  case (Cons x xs)
  show ?case
  proof (cases "length sel = limit")
    case False
    with Cons.prems have le: "length (append_new sel x) \<le> limit"
      using length_append_new [of sel x] by simp
    have "x \<in> set (extend_until limit (append_new sel x) xs)"
      using set_mono_prefix [OF extend_until_prefix [of "append_new sel x" limit xs]] by auto
    with Cons.IH [OF le] False show ?thesis by auto
  qed simp
qed simp

subsection \<open>Tables as association lists\<close>

text \<open>
  A SQLite table with a primary key is the list of its rows under their keys, in the order
  of insertion: \<open>INSERT .. ON CONFLICT DO UPDATE\<close> is \<open>AList.update\<close>, \<open>UPDATE\<close> maps the
  rows, \<open>DELETE\<close> and \<open>SELECT\<close> filter them.
\<close>

lemma map_of_filter_key:
  "map_of (filter (\<lambda>kv. P (fst kv)) al) k = (if P k then map_of al k else None)"
  by (induction al) auto

lemma map_of_map_row:
  "map_of (map (\<lambda>kv. (fst kv, f (fst kv) (snd kv))) al) k = map_option (f k) (map_of al k)"
  by (induction al) auto

lemma map_of_append_new:
  "map_of al k = None \<Longrightarrow> map_of (al @ [(k, v)]) = (map_of al)(k \<mapsto> v)"
  by (auto simp: map_add_def split: option.splits)

lemma distinct_keys_filter [simp]:
  "distinct (map fst al) \<Longrightarrow> distinct (map fst (filter P al))"
  by (induction al) auto

lemma distinct_keys_map_row [simp]:
  "map fst (map (\<lambda>kv. (fst kv, f (fst kv) (snd kv))) al) = map fst al"
  by (induction al) auto

text \<open>\<open>UPDATE .. SET f WHERE P\<close> over the rows; the keys stay.\<close>

definition update_where :: "('k \<Rightarrow> 'r \<Rightarrow> bool) \<Rightarrow> ('r \<Rightarrow> 'r) \<Rightarrow> ('k \<times> 'r) list \<Rightarrow> ('k \<times> 'r) list" where
  "update_where P f t = map (\<lambda>kv. (fst kv, if P (fst kv) (snd kv) then f (snd kv) else snd kv)) t"

lemma update_where_keys [simp]: "map fst (update_where P f t) = map fst t"
  by (simp add: update_where_def)

lemma map_of_update_where [simp]:
  "map_of (update_where P f t) k = map_option (\<lambda>r. if P k r then f r else r) (map_of t k)"
  unfolding update_where_def by (induction t) auto

lemma set_update_where:
  "kv \<in> set (update_where P f t) \<longleftrightarrow>
     (\<exists>r. (fst kv, r) \<in> set t \<and> snd kv = (if P (fst kv) r then f r else r))"
  by (cases kv) (force simp: update_where_def)

text \<open>A table with a unique key.\<close>

abbreviation table_ok :: "('k \<times> 'r) list \<Rightarrow> bool" where
  "table_ok t \<equiv> distinct (map fst t)"

lemma table_row: "table_ok t \<Longrightarrow> (k, r) \<in> set t \<longleftrightarrow> map_of t k = Some r"
  by (simp add: map_of_eq_Some_iff)

text \<open>
  \<open>INSERT\<close> of a row; \<open>admitted\<close> holds the checks other than that of the primary key.
\<close>

definition insert_row :: "bool \<Rightarrow> 'k \<Rightarrow> 'r \<Rightarrow> ('k \<times> 'r) list \<Rightarrow> ('k \<times> 'r) list res" where
  "insert_row admitted k r t =
     (if admitted \<and> k \<notin> fst ` set t then Inr (t @ [(k, r)]) else Inl (StorageError ''IntegrityError''))"

lemma insert_row_Inr:
  "insert_row a k r t = Inr t' \<longleftrightarrow> a \<and> k \<notin> fst ` set t \<and> t' = t @ [(k, r)]"
  by (auto simp: insert_row_def)

subsection \<open>Sorting by a key\<close>

lemma sort_key_map: "sort_key f (map g xs) = map g (sort_key (f \<circ> g) xs)"
proof (induction xs)
  case (Cons x xs)
  have "insort_key f (g x) (map g ys) = map g (insort_key (f \<circ> g) x ys)" for ys
    by (induction ys) auto
  with Cons show ?case by (simp add: comp_def)
qed simp

end
