(* ===== verification/Locks.thy ===== *)
theory Locks
  imports Prelude
begin

section \<open>Filesystem locks (\<open>openkb/locks.py\<close>)\<close>

text \<open>
  Two groups of definitions, in the order of the source.  The in-process reader/writer lock
  \<open>_LocalRwLock\<close> is a state of three counters with one operation per critical section of its
  condition variable; the threads that use it, those asleep in \<open>wait\<close> included, are a step
  relation.  The re-entrant named lock is the table of depths a thread holds, with the
  \<open>with\<close> statement as a scope that enters, runs its body and exits on every path, and the
  errors of the operating system as an argument of the scope.
\<close>

subsection \<open>The in-process reader/writer lock\<close>

record rw_lock =
  rw_readers :: int
  rw_writer :: bool
  rw_writers_waiting :: int

definition rw_new :: rw_lock where
  "rw_new = \<lparr>rw_readers = 0, rw_writer = False, rw_writers_waiting = 0\<rparr>"

text \<open>
  The test of a waiting loop and what follows it: \<open>None\<close> is \<open>self._condition.wait()\<close>.  An
  operation that ends a section also says whether it calls \<open>notify_all\<close>.
\<close>

definition rw_read_enter :: "rw_lock \<Rightarrow> rw_lock option" where
  "rw_read_enter l =
     (if rw_writer l \<or> rw_writers_waiting l \<noteq> 0 then None
      else Some (l\<lparr>rw_readers := rw_readers l + 1\<rparr>))"

definition rw_read_exit :: "rw_lock \<Rightarrow> rw_lock \<times> bool" where
  "rw_read_exit l = (l\<lparr>rw_readers := rw_readers l - 1\<rparr>, rw_readers l - 1 = 0)"

definition rw_write_announce :: "rw_lock \<Rightarrow> rw_lock" where
  "rw_write_announce l = l\<lparr>rw_writers_waiting := rw_writers_waiting l + 1\<rparr>"

definition rw_write_acquire :: "rw_lock \<Rightarrow> rw_lock option" where
  "rw_write_acquire l =
     (if rw_writer l \<or> rw_readers l \<noteq> 0 then None
      else Some (l\<lparr>rw_writer := True, rw_writers_waiting := rw_writers_waiting l - 1\<rparr>))"

definition rw_write_exit :: "rw_lock \<Rightarrow> rw_lock \<times> bool" where
  "rw_write_exit l = (l\<lparr>rw_writer := False\<rparr>, True)"

text \<open>\<open>try_write\<close> leaves its loop at the deadline without the writer slot.\<close>

definition rw_try_write_timeout :: "rw_lock \<Rightarrow> rw_lock \<times> bool" where
  "rw_try_write_timeout l = (l\<lparr>rw_writers_waiting := rw_writers_waiting l - 1\<rparr>, True)"

text \<open>
  Where a thread is.  \<open>WriteWait bounded\<close> is a thread inside the waiting loop of \<open>write\<close>
  (\<open>False\<close>) or of \<open>try_write\<close> (\<open>True\<close>).  The last flag of a waiting thread says that it is
  asleep in \<open>wait\<close>: only \<open>notify_all\<close>, or the timeout of a bounded wait, makes it test its
  condition again.
\<close>

datatype rw_pc = Outside | ReadWait bool | Reading | WriteWait bool bool | Writing

fun wake :: "rw_pc \<Rightarrow> rw_pc" where
  "wake (ReadWait asleep) = ReadWait False"
| "wake (WriteWait bounded asleep) = WriteWait bounded False"
| "wake p = p"

definition notify_all :: "bool \<Rightarrow> (nat \<Rightarrow> rw_pc) \<Rightarrow> nat \<Rightarrow> rw_pc" where
  "notify_all n f = (if n then wake \<circ> f else f)"

record rw_sys =
  rw_state :: rw_lock
  rw_pcs :: "nat \<Rightarrow> rw_pc"

definition rw_sys_init :: rw_sys where
  "rw_sys_init = \<lparr>rw_state = rw_new, rw_pcs = (\<lambda>_. Outside)\<rparr>"

text \<open>
  A step is what one thread does while it holds the mutex of the condition: the arrival and a
  woken thread run to the end of the section or to the \<open>wait\<close> that gives the mutex up.
\<close>

definition rw_move :: "rw_sys \<Rightarrow> nat \<Rightarrow> rw_pc \<Rightarrow> rw_lock \<times> bool \<Rightarrow> rw_sys" where
  "rw_move s t p r = s\<lparr>rw_state := fst r, rw_pcs := notify_all (snd r) ((rw_pcs s)(t := p))\<rparr>"

inductive rw_step :: "rw_sys \<Rightarrow> rw_sys \<Rightarrow> bool" where
  enter_read: "rw_pcs s t \<in> {Outside, ReadWait False} \<Longrightarrow> rw_read_enter (rw_state s) = Some l \<Longrightarrow>
    rw_step s (rw_move s t Reading (l, False))"
| wait_read: "rw_pcs s t \<in> {Outside, ReadWait False} \<Longrightarrow> rw_read_enter (rw_state s) = None \<Longrightarrow>
    rw_step s (rw_move s t (ReadWait True) (rw_state s, False))"
| exit_read: "rw_pcs s t = Reading \<Longrightarrow> rw_step s (rw_move s t Outside (rw_read_exit (rw_state s)))"
| call_write: "rw_pcs s t = Outside \<Longrightarrow> rw_write_acquire (rw_write_announce (rw_state s)) = Some l \<Longrightarrow>
    rw_step s (rw_move s t Writing (l, False))"
| call_write_waits: "rw_pcs s t = Outside \<Longrightarrow> rw_write_acquire (rw_write_announce (rw_state s)) = None \<Longrightarrow>
    rw_step s (rw_move s t (WriteWait bounded True) (rw_write_announce (rw_state s), False))"
| call_write_late: "rw_pcs s t = Outside \<Longrightarrow> rw_write_acquire (rw_write_announce (rw_state s)) = None \<Longrightarrow>
    rw_step s (rw_move s t Outside (rw_try_write_timeout (rw_write_announce (rw_state s))))"
| enter_write: "rw_pcs s t = WriteWait bounded False \<Longrightarrow> rw_write_acquire (rw_state s) = Some l \<Longrightarrow>
    rw_step s (rw_move s t Writing (l, False))"
| wait_write: "rw_pcs s t = WriteWait bounded False \<Longrightarrow> rw_write_acquire (rw_state s) = None \<Longrightarrow>
    rw_step s (rw_move s t (WriteWait bounded True) (rw_state s, False))"
| wait_times_out: "rw_pcs s t = WriteWait True True \<Longrightarrow>
    rw_step s (rw_move s t (WriteWait True False) (rw_state s, False))"
| give_up: "rw_pcs s t = WriteWait True False \<Longrightarrow> rw_write_acquire (rw_state s) = None \<Longrightarrow>
    rw_step s (rw_move s t Outside (rw_try_write_timeout (rw_state s)))"
| exit_write: "rw_pcs s t = Writing \<Longrightarrow> rw_step s (rw_move s t Outside (rw_write_exit (rw_state s)))"

inductive rw_reachable :: "rw_sys \<Rightarrow> bool" where
  rw_start: "rw_reachable rw_sys_init"
| rw_next: "rw_reachable s \<Longrightarrow> rw_step s s' \<Longrightarrow> rw_reachable s'"

definition is_write_wait :: "rw_pc \<Rightarrow> bool" where
  "is_write_wait p \<longleftrightarrow> (\<exists>b asleep. p = WriteWait b asleep)"

lemma is_write_wait_simps [simp]:
  "\<not> is_write_wait Outside" "\<not> is_write_wait (ReadWait asleep)" "\<not> is_write_wait Reading"
  "is_write_wait (WriteWait b asleep)" "\<not> is_write_wait Writing"
  by (auto simp: is_write_wait_def)

lemma wake_simps [simp]:
  "wake p = Outside \<longleftrightarrow> p = Outside" "wake p = Reading \<longleftrightarrow> p = Reading" "wake p = Writing \<longleftrightarrow> p = Writing"
  "wake p \<noteq> ReadWait True" "wake p \<noteq> WriteWait b True" "is_write_wait (wake p) = is_write_wait p"
  by (cases p; simp)+

text \<open>How many threads are at a place that satisfies \<open>P\<close>.\<close>

definition thread_count :: "(rw_pc \<Rightarrow> bool) \<Rightarrow> (nat \<Rightarrow> rw_pc) \<Rightarrow> int" where
  "thread_count P f = int (card {t. P (f t)})"

lemma thread_count_upd:
  assumes "finite {t. f t \<noteq> Outside}" and "\<not> P Outside"
  shows "thread_count P (f(t := p)) =
    thread_count P f + (if P p then 1 else 0) - (if P (f t) then 1 else 0)"
proof -
  let ?A = "{u. P (f u)}"
  have fin: "finite ?A" by (rule finite_subset [OF _ assms(1)]) (use assms(2) in auto)
  have out: "P (f t) \<Longrightarrow> int (card (?A - {t})) = int (card ?A) - 1"
    using card_Suc_Diff1 [OF fin, of t] by simp
  have "{u. P ((f(t := p)) u)} = (if P p then insert t ?A else ?A - {t})" by auto
  then show ?thesis
    using fin out by (simp add: thread_count_def card_insert_if)
qed

lemma thread_count_zero:
  assumes "finite {t. f t \<noteq> Outside}" and "\<not> P Outside" and "thread_count P f = 0"
  shows "\<not> P (f t)"
proof -
  have "finite {u. P (f u)}" by (rule finite_subset [OF _ assms(1)]) (use assms(2) in auto)
  then show ?thesis using assms(3) by (auto simp: thread_count_def)
qed

text \<open>The counters count the threads, and the writer flag is the one writer.\<close>

definition rw_inv :: "rw_sys \<Rightarrow> bool" where
  "rw_inv s \<longleftrightarrow>
     finite {t. rw_pcs s t \<noteq> Outside} \<and>
     rw_readers (rw_state s) = thread_count (\<lambda>p. p = Reading) (rw_pcs s) \<and>
     rw_writers_waiting (rw_state s) = thread_count is_write_wait (rw_pcs s) \<and>
     rw_writer (rw_state s) = (\<exists>t. rw_pcs s t = Writing) \<and>
     (\<forall>t u. rw_pcs s t = Writing \<longrightarrow> rw_pcs s u = Writing \<longrightarrow> t = u) \<and>
     (\<forall>t u. rw_pcs s t = Writing \<longrightarrow> rw_pcs s u \<noteq> Reading)"

lemma finite_pcs_upd:
  "finite {t. f t \<noteq> Outside} \<Longrightarrow> finite {t. (f(i := x)) t \<noteq> Outside}"
  by (rule finite_subset [where B = "insert i {t. f t \<noteq> Outside}"]) auto

lemmas rw_op_defs =
  rw_read_enter_def rw_read_exit_def rw_write_announce_def rw_write_acquire_def
  rw_write_exit_def rw_try_write_timeout_def

lemma rw_inv_init: "rw_inv rw_sys_init"
  by (simp add: rw_inv_def rw_sys_init_def rw_new_def thread_count_def)

lemma rw_inv_notified: "rw_inv (s\<lparr>rw_pcs := notify_all n (rw_pcs s)\<rparr>) \<longleftrightarrow> rw_inv s"
  by (simp add: rw_inv_def notify_all_def thread_count_def)

text \<open>
  What a lock operation does to the counters and what the thread's move does to the
  sets they count, in one lemma: each step is then an instance.
\<close>

lemma rw_inv_move:
  assumes inv: "rw_inv s"
    and readers: "rw_readers (fst r) = rw_readers (rw_state s)
      + (if p = Reading then 1 else 0) - (if rw_pcs s t = Reading then 1 else 0)"
    and waiting: "rw_writers_waiting (fst r) = rw_writers_waiting (rw_state s)
      + (if is_write_wait p then 1 else 0) - (if is_write_wait (rw_pcs s t) then 1 else 0)"
    and writer: "rw_writer (fst r) = (if p = Writing then True
      else if rw_pcs s t = Writing then False else rw_writer (rw_state s))"
    and excl: "p = Writing \<Longrightarrow> \<not> rw_writer (rw_state s) \<and> rw_readers (rw_state s) = 0"
      "p = Reading \<Longrightarrow> \<not> rw_writer (rw_state s)"
  shows "rw_inv (rw_move s t p r)"
proof -
  let ?f = "rw_pcs s"
  from inv have fin: "finite {t. ?f t \<noteq> Outside}"
    and r: "rw_readers (rw_state s) = thread_count (\<lambda>p. p = Reading) ?f"
    and w: "rw_writers_waiting (rw_state s) = thread_count is_write_wait ?f"
    and wr: "rw_writer (rw_state s) = (\<exists>t. ?f t = Writing)"
    and one: "\<And>t u. ?f t = Writing \<Longrightarrow> ?f u = Writing \<Longrightarrow> t = u"
    and no: "\<And>t u. ?f t = Writing \<Longrightarrow> ?f u \<noteq> Reading"
    by (auto simp: rw_inv_def)
  have noread: "?f u \<noteq> Reading" if "p = Writing" for u
    using thread_count_zero [OF fin, of "\<lambda>p. p = Reading" u] excl(1) [OF that] r by auto
  have "(\<exists>u. (?f(t := p)) u = Writing) \<longleftrightarrow> p = Writing \<or> (\<exists>u. u \<noteq> t \<and> ?f u = Writing)"
    by auto
  then have "rw_writer (fst r) = (\<exists>u. (?f(t := p)) u = Writing)"
    using writer wr one by metis
  then have "rw_inv (s\<lparr>rw_state := fst r, rw_pcs := ?f(t := p)\<rparr>)"
    using finite_pcs_upd [OF fin, of t p] readers waiting r w wr one no excl noread
      thread_count_upd [OF fin, of "\<lambda>p. p = Reading" t p]
      thread_count_upd [OF fin, of is_write_wait t p]
    by (auto simp: rw_inv_def)
  with rw_inv_notified [where s = "s\<lparr>rw_state := fst r, rw_pcs := ?f(t := p)\<rparr>" and n = "snd r"]
  show ?thesis by (simp add: rw_move_def)
qed

lemma rw_step_inv: "rw_step s s' \<Longrightarrow> rw_inv s \<Longrightarrow> rw_inv s'"
  by (induction rule: rw_step.induct; rule rw_inv_move) (auto simp: rw_op_defs split: if_splits)

lemma rw_reachable_inv: "rw_reachable s \<Longrightarrow> rw_inv s"
  by (induction rule: rw_reachable.induct) (auto intro: rw_inv_init rw_step_inv)

text \<open>No thread sleeps on a condition that holds: every change that makes one true notifies.\<close>

definition rw_no_lost_wakeup :: "rw_sys \<Rightarrow> bool" where
  "rw_no_lost_wakeup s \<longleftrightarrow>
     (\<forall>t. rw_pcs s t = ReadWait True \<longrightarrow> rw_read_enter (rw_state s) = None) \<and>
     (\<forall>t b. rw_pcs s t = WriteWait b True \<longrightarrow> rw_write_acquire (rw_state s) = None)"

lemma rw_inv_counters: "rw_inv s \<Longrightarrow> 0 \<le> rw_readers (rw_state s) \<and> 0 \<le> rw_writers_waiting (rw_state s)"
  by (simp add: rw_inv_def thread_count_def)

lemma notified_no_lost_wakeup: "snd r \<Longrightarrow> rw_no_lost_wakeup (rw_move s t p r)"
  by (simp add: rw_no_lost_wakeup_def rw_move_def notify_all_def)

lemma silent_no_lost_wakeup:
  assumes "rw_no_lost_wakeup s"
    "p = ReadWait True \<Longrightarrow> rw_read_enter l = None" "\<And>b. p = WriteWait b True \<Longrightarrow> rw_write_acquire l = None"
    "rw_read_enter (rw_state s) = None \<Longrightarrow> rw_read_enter l = None"
    "rw_write_acquire (rw_state s) = None \<Longrightarrow> rw_write_acquire l = None"
  shows "rw_no_lost_wakeup (rw_move s t p (l, False))"
  unfolding rw_no_lost_wakeup_def
proof (intro conjI allI impI)
  have state: "rw_state (rw_move s t p (l, False)) = l" and pcs: "rw_pcs (rw_move s t p (l, False)) = (rw_pcs s)(t := p)"
    by (simp_all add: rw_move_def notify_all_def)
  have old: "\<And>u. rw_pcs s u = ReadWait True \<Longrightarrow> rw_read_enter (rw_state s) = None"
    "\<And>u b. rw_pcs s u = WriteWait b True \<Longrightarrow> rw_write_acquire (rw_state s) = None"
    using assms(1) unfolding rw_no_lost_wakeup_def by blast+
  show "rw_read_enter (rw_state (rw_move s t p (l, False))) = None" if "rw_pcs (rw_move s t p (l, False)) u = ReadWait True" for u
    using that old(1) [of u] assms(2,4) unfolding state pcs fun_upd_apply by (cases "u = t") (simp_all only: refl if_True if_False)
  show "rw_write_acquire (rw_state (rw_move s t p (l, False))) = None" if "rw_pcs (rw_move s t p (l, False)) u = WriteWait b True" for u b
    using that old(2) [of u b] assms(3) [of b] assms(5) unfolding state pcs fun_upd_apply by (cases "u = t") (simp_all only: refl if_True if_False)
qed

lemma rw_step_no_lost_wakeup:
  assumes "rw_step s s'" "rw_inv s" "rw_no_lost_wakeup s"
  shows "rw_no_lost_wakeup s'"
  using assms(1)
proof cases
  case (enter_read t l)
  show ?thesis unfolding enter_read(1)
    by (rule silent_no_lost_wakeup [OF assms(3)])
      (use enter_read rw_inv_counters [OF assms(2)] in \<open>auto simp: rw_op_defs split: if_splits\<close>)
next
  case (wait_read t)
  show ?thesis unfolding wait_read(1) by (rule silent_no_lost_wakeup [OF assms(3)]) (use wait_read in auto)
next
  case (exit_read t)
  show ?thesis
  proof (cases "snd (rw_read_exit (rw_state s))")
    case True
    then show ?thesis using exit_read notified_no_lost_wakeup by simp
  next
    case False
    then have exit: "rw_read_exit (rw_state s) = ((rw_state s)\<lparr>rw_readers := rw_readers (rw_state s) - 1\<rparr>, False)"
      and more: "rw_readers (rw_state s) \<noteq> 1" by (auto simp: rw_read_exit_def)
    show ?thesis unfolding exit_read(1) exit
      by (rule silent_no_lost_wakeup [OF assms(3)]) (use more in \<open>auto simp: rw_op_defs split: if_splits\<close>)
  qed
next
  case (call_write t l)
  show ?thesis unfolding call_write(1)
    by (rule silent_no_lost_wakeup [OF assms(3)]) (use call_write in \<open>auto simp: rw_op_defs split: if_splits\<close>)
next
  case (call_write_waits t bounded)
  show ?thesis unfolding call_write_waits(1)
    by (rule silent_no_lost_wakeup [OF assms(3)])
      (use call_write_waits rw_inv_counters [OF assms(2)] in \<open>auto simp: rw_op_defs split: if_splits\<close>)
next
  case (enter_write t bounded l)
  show ?thesis unfolding enter_write(1)
    by (rule silent_no_lost_wakeup [OF assms(3)]) (use enter_write in \<open>auto simp: rw_op_defs split: if_splits\<close>)
next
  case (wait_write t bounded)
  show ?thesis unfolding wait_write(1) by (rule silent_no_lost_wakeup [OF assms(3)]) (use wait_write in auto)
next
  case (wait_times_out t)
  show ?thesis unfolding wait_times_out(1) by (rule silent_no_lost_wakeup [OF assms(3)]) (use wait_times_out in auto)
qed (auto intro!: notified_no_lost_wakeup simp: rw_try_write_timeout_def rw_write_exit_def)

lemma rw_reachable_no_lost_wakeup: "rw_reachable s \<Longrightarrow> rw_no_lost_wakeup s"
proof (induction rule: rw_reachable.induct)
  case rw_start
  show ?case by (simp add: rw_no_lost_wakeup_def rw_sys_init_def)
next
  case (rw_next s s')
  then show ?case using rw_step_no_lost_wakeup rw_reachable_inv by blast
qed

subsection \<open>The re-entrant named lock\<close>

text \<open>
  \<open>_HELD_LOCKS\<close> of one thread: per resolved lock path, the exclusive and the shared
  depth.  A path that is not held has no entry.
\<close>

type_synonym held_locks = "string \<rightharpoonup> int \<times> int"

definition held_depths :: "held_locks \<Rightarrow> string \<Rightarrow> int \<times> int" where
  "held_depths h p = (case h p of None \<Rightarrow> (0, 0) | Some c \<Rightarrow> c)"

datatype lock_entry = Nested | Outermost

definition upgrade_error :: error where
  "upgrade_error = RuntimeError ''Cannot upgrade an existing KB read lock to a write lock''"

text \<open>
  What the calls to the operating system raise while one scope enters and leaves: the
  creation of the directory, the opening of the lock file, its locking (for
  \<open>try_kb_ingest_lock\<close> anything but the \<open>LockException\<close> of a busy lock) and its unlocking.
\<close>

record lock_os =
  lo_mkdir :: "error option"
  lo_open :: "error option"
  lo_flock :: "error option"
  lo_unlock :: "error option"

definition lock_os_fine :: lock_os where
  "lock_os_fine = \<lparr>lo_mkdir = None, lo_open = None, lo_flock = None, lo_unlock = None\<rparr>"

definition acquire_error :: "lock_os \<Rightarrow> error option" where
  "acquire_error os = (case lo_open os of Some e \<Rightarrow> Some e | None \<Rightarrow> lo_flock os)"

text \<open>
  The entry half of \<open>_kb_named_lock\<close>.  \<open>Outermost\<close> is the branch that takes the
  in-process lock and the file lock before it records the depth.
\<close>

definition kb_lock_enter :: "lock_os \<Rightarrow> held_locks \<Rightarrow> string \<Rightarrow> bool \<Rightarrow> (held_locks \<times> lock_entry) res" where
  "kb_lock_enter os h p exclusive =
     (case lo_mkdir os of
        Some e \<Rightarrow> Inl e
      | None \<Rightarrow>
          (case held_depths h p of (e, s) \<Rightarrow>
           if e \<noteq> 0 \<or> s \<noteq> 0 then
             (if exclusive \<and> e = 0 then Inl upgrade_error
              else Inr (h(p \<mapsto> (e + (if exclusive then 1 else 0), s + (if exclusive then 0 else 1))),
                        Nested))
           else
             (case acquire_error os of
                Some err \<Rightarrow> Inl err
              | None \<Rightarrow> Inr (h(p \<mapsto> (if exclusive then (1, 0) else (0, 1))), Outermost))))"

text \<open>The two \<open>finally\<close> blocks of \<open>_kb_named_lock\<close>, and what the unlocking raises after them.\<close>

definition kb_lock_exit :: "held_locks \<Rightarrow> string \<Rightarrow> bool \<Rightarrow> lock_entry \<Rightarrow> held_locks res" where
  "kb_lock_exit h p exclusive k =
     (case k of
        Outermost \<Rightarrow> Inr (h(p := None))
      | Nested \<Rightarrow>
          (case h p of
             None \<Rightarrow> Inl (KeyError p)
           | Some (e, s) \<Rightarrow>
               let n = (e - (if exclusive then 1 else 0), s - (if exclusive then 0 else 1))
               in Inr (if n = (0, 0) then h(p := None) else h(p \<mapsto> n))))"

definition exit_error :: "lock_os \<Rightarrow> lock_entry \<Rightarrow> error option \<Rightarrow> error option" where
  "exit_error os k err =
     (case k of Nested \<Rightarrow> err | Outermost \<Rightarrow> (case lo_unlock os of Some e \<Rightarrow> Some e | None \<Rightarrow> err))"

text \<open>
  \<open>try_kb_ingest_lock\<close>: \<open>outcome\<close> says which of the in-process writer slot and the file lock
  were free before the deadline, \<open>valid\<close> that the timeout is finite and not negative.
  \<open>Refused\<close> is \<open>yield False\<close>; \<open>Refused_Holding\<close> is the one that yields \<open>False\<close> when the file
  lock is busy, while the thread still has the in-process writer slot.
\<close>

datatype try_outcome = Granted | Local_Busy | File_Busy

datatype try_entry = Refused | Refused_Holding | Entered held_locks lock_entry

definition timeout_error :: error where
  "timeout_error = ValueError ''timeout_seconds must be a finite non-negative number''"

definition try_lock_enter ::
  "lock_os \<Rightarrow> bool \<Rightarrow> try_outcome \<Rightarrow> held_locks \<Rightarrow> string \<Rightarrow> try_entry res" where
  "try_lock_enter os valid outcome h p =
     (if \<not> valid then Inl timeout_error
      else case lo_mkdir os of
        Some e \<Rightarrow> Inl e
      | None \<Rightarrow>
          (case held_depths h p of (e, s) \<Rightarrow>
           if s \<noteq> 0 \<and> e = 0 then Inr Refused
           else if e \<noteq> 0 then Inr (Entered (h(p \<mapsto> (e + 1, s))) Nested)
           else if outcome = Local_Busy then Inr Refused
           else case acquire_error os of
             Some err \<Rightarrow> Inl err
           | None \<Rightarrow>
               if outcome = File_Busy then Inr Refused_Holding
               else Inr (Entered (h(p \<mapsto> (1, 0))) Outermost)))"

definition try_lock_exit :: "held_locks \<Rightarrow> string \<Rightarrow> lock_entry \<Rightarrow> held_locks res" where
  "try_lock_exit h p k =
     (case k of
        Outermost \<Rightarrow> Inr (h(p := None))
      | Nested \<Rightarrow> (case h p of
                     None \<Rightarrow> Inl (KeyError p)
                   | Some (e, s) \<Rightarrow> Inr (h(p \<mapsto> (e - 1, s)))))"

definition kb_ingest_lock_held :: "held_locks \<Rightarrow> string \<Rightarrow> bool" where
  "kb_ingest_lock_held h p \<longleftrightarrow> fst (held_depths h p) > 0"

text \<open>The table holds no entry of depth zero and no negative depth.\<close>

definition depths_ok :: "int \<times> int \<Rightarrow> bool" where
  "depths_ok c \<longleftrightarrow> 0 \<le> fst c \<and> 0 \<le> snd c \<and> c \<noteq> (0, 0)"

definition held_ok :: "held_locks \<Rightarrow> bool" where
  "held_ok h \<longleftrightarrow> (\<forall>p c. h p = Some c \<longrightarrow> depths_ok c)"

lemma held_okD: "held_ok h \<Longrightarrow> h p = Some c \<Longrightarrow> depths_ok c"
  by (cases c) (simp add: held_ok_def)

lemma held_ok_upd [intro]: "held_ok h \<Longrightarrow> depths_ok c \<Longrightarrow> held_ok (h(p \<mapsto> c))"
  by (cases c) (simp add: held_ok_def)

lemma held_ok_empty [simp]: "held_ok Map.empty"
  by (simp add: held_ok_def)

text \<open>
  A scope is one \<open>with\<close> statement of a thread: of \<open>_kb_named_lock\<close> (the path, exclusive
  or shared, what the operating system raises, and the body), or of \<open>try_kb_ingest_lock\<close> (the
  path, whether the timeout is valid, the outcome, what the operating system raises, the body
  when the lock was granted and the body when it was not); \<open>Raise\<close> is a body that raises.
\<close>

datatype scope =
    With string bool lock_os "scope list"
  | With_Try string bool try_outcome lock_os "scope list" "scope list"
  | Raise error

text \<open>
  The lock calls of a scope, on the in-process lock and on the lock file.  Closing the file
  releases its lock also when the unlocking raises.
\<close>

datatype lock_layer = Local_Lock | File_Lock

datatype lock_event = Acquire lock_layer string bool | Release lock_layer string bool

definition holding :: "lock_layer \<Rightarrow> string \<Rightarrow> bool \<Rightarrow> lock_event list \<Rightarrow> lock_event list" where
  "holding y p ex evs = Acquire y p ex # evs @ [Release y p ex]"

definition bracket :: "lock_entry \<Rightarrow> string \<Rightarrow> bool \<Rightarrow> lock_event list \<Rightarrow> lock_event list" where
  "bracket k p ex evs =
     (case k of Outermost \<Rightarrow> holding Local_Lock p ex (holding File_Lock p ex evs) | Nested \<Rightarrow> evs)"

definition refused_events :: "lock_os \<Rightarrow> held_locks \<Rightarrow> string \<Rightarrow> bool \<Rightarrow> lock_event list" where
  "refused_events os h p ex =
     (if lo_mkdir os \<noteq> None \<or> held_depths h p \<noteq> (0, 0) then [] else holding Local_Lock p ex [])"

definition try_refused_events :: "lock_os \<Rightarrow> bool \<Rightarrow> held_locks \<Rightarrow> string \<Rightarrow> lock_event list" where
  "try_refused_events os valid h p = (if valid then refused_events os h p True else [])"

text \<open>
  An exit that fails replaces the exception of the body, as an exception raised in a
  \<open>finally\<close> block does.
\<close>

fun run_scope :: "scope \<Rightarrow> held_locks \<Rightarrow> held_locks \<times> lock_event list \<times> error option"
and run_scopes :: "scope list \<Rightarrow> held_locks \<Rightarrow> held_locks \<times> lock_event list \<times> error option" where
  "run_scope (Raise e) h = (h, [], Some e)"
| "run_scope (With p ex os body) h =
     (case kb_lock_enter os h p ex of
        Inl e \<Rightarrow> (h, refused_events os h p ex, Some e)
      | Inr (h1, k) \<Rightarrow>
          (case run_scopes body h1 of
             (h2, evs, err) \<Rightarrow>
               (case kb_lock_exit h2 p ex k of
                  Inl e \<Rightarrow> (h2, bracket k p ex evs, Some e)
                | Inr h3 \<Rightarrow> (h3, bracket k p ex evs, exit_error os k err))))"
| "run_scope (With_Try p valid outcome os body otherwise) h =
     (case try_lock_enter os valid outcome h p of
        Inl e \<Rightarrow> (h, try_refused_events os valid h p, Some e)
      | Inr Refused \<Rightarrow> run_scopes otherwise h
      | Inr Refused_Holding \<Rightarrow>
          (case run_scopes otherwise h of (h1, evs, err) \<Rightarrow> (h1, holding Local_Lock p True evs, err))
      | Inr (Entered h1 k) \<Rightarrow>
          (case run_scopes body h1 of
             (h2, evs, err) \<Rightarrow>
               (case try_lock_exit h2 p k of
                  Inl e \<Rightarrow> (h2, bracket k p True evs, Some e)
                | Inr h3 \<Rightarrow> (h3, bracket k p True evs, exit_error os k err))))"
| "run_scopes [] h = (h, [], None)"
| "run_scopes (s # ss) h =
     (case run_scope s h of
        (h1, evs, Some e) \<Rightarrow> (h1, evs, Some e)
      | (h1, evs, None) \<Rightarrow>
          (case run_scopes ss h1 of (h2, evs2, err) \<Rightarrow> (h2, evs @ evs2, err)))"

text \<open>
  A lock of path \<open>p\<close> as the events see it: \<open>None\<close> is free, a second acquisition while the
  thread has it, or a release of the wrong kind, is an error.
\<close>

fun lock_state :: "lock_layer \<Rightarrow> string \<Rightarrow> lock_event list \<Rightarrow> bool option \<Rightarrow> bool option option" where
  "lock_state y p [] st = Some st"
| "lock_state y p (Acquire z q ex # evs) st =
     (if q \<noteq> p \<or> z \<noteq> y then lock_state y p evs st
      else if st = None then lock_state y p evs (Some ex) else None)"
| "lock_state y p (Release z q ex # evs) st =
     (if q \<noteq> p \<or> z \<noteq> y then lock_state y p evs st
      else if st = Some ex then lock_state y p evs None else None)"

lemma lock_state_append:
  "lock_state y p (xs @ ys) st = (case lock_state y p xs st of None \<Rightarrow> None | Some st' \<Rightarrow> lock_state y p ys st')"
  by (induction y p xs st rule: lock_state.induct) auto

text \<open>
  The paths a body locks, and the bodies that are safe when the file lock is busy: they run
  with the in-process writer slot of the refused path, so they may not lock it themselves.
\<close>

fun scope_paths :: "scope \<Rightarrow> string set" and scopes_paths :: "scope list \<Rightarrow> string set" where
  "scope_paths (Raise e) = {}"
| "scope_paths (With p ex os body) = insert p (scopes_paths body)"
| "scope_paths (With_Try p valid outcome os body otherwise) = insert p (scopes_paths body \<union> scopes_paths otherwise)"
| "scopes_paths [] = {}"
| "scopes_paths (s # ss) = scope_paths s \<union> scopes_paths ss"

fun scope_refusal_safe :: "scope \<Rightarrow> bool" and refusal_safe :: "scope list \<Rightarrow> bool" where
  "scope_refusal_safe (Raise e) = True"
| "scope_refusal_safe (With p ex os body) = refusal_safe body"
| "scope_refusal_safe (With_Try p valid outcome os body otherwise) =
     (refusal_safe body \<and> refusal_safe otherwise \<and> (outcome = File_Busy \<longrightarrow> p \<notin> scopes_paths otherwise))"
| "refusal_safe [] = True"
| "refusal_safe (s # ss) = (scope_refusal_safe s \<and> refusal_safe ss)"

text \<open>What an entry leaves for the matching exit.\<close>

definition entered :: "held_locks \<Rightarrow> string \<Rightarrow> lock_entry \<Rightarrow> held_locks \<Rightarrow> bool" where
  "entered h p k h1 \<longleftrightarrow>
     held_ok h1 \<and> h1 p \<noteq> None \<and> (\<forall>q. q \<noteq> p \<longrightarrow> h1 q = h q) \<and> (h p = None \<longleftrightarrow> k = Outermost)"

lemma kb_lock_enter_entered:
  assumes "held_ok h" and "kb_lock_enter os h p ex = Inr (h1, k)"
  shows "entered h p k h1 \<and> kb_lock_exit h1 p ex k = Inr h"
proof (cases "h p")
  case None
  with assms show ?thesis
    by (auto simp: kb_lock_enter_def kb_lock_exit_def held_depths_def entered_def depths_ok_def
        fun_upd_idem split: option.splits if_splits)
next
  case (Some c)
  obtain e s where c: "c = (e, s)" by (cases c)
  from held_okD [OF assms(1) Some] have ok: "0 \<le> e" "0 \<le> s" "e \<noteq> 0 \<or> s \<noteq> 0"
    by (auto simp: c depths_ok_def)
  with assms Some c show ?thesis
    by (auto simp: kb_lock_enter_def kb_lock_exit_def held_depths_def entered_def depths_ok_def
        fun_upd_idem split: if_splits option.splits)
qed

lemma try_lock_enter_entered:
  assumes "held_ok h" and "try_lock_enter os valid outcome h p = Inr (Entered h1 k)"
  shows "entered h p k h1 \<and> try_lock_exit h1 p k = Inr h"
proof (cases "h p")
  case None
  with assms show ?thesis
    by (auto simp: try_lock_enter_def try_lock_exit_def held_depths_def entered_def depths_ok_def
        fun_upd_idem split: if_splits option.splits)
next
  case (Some c)
  obtain e s where c: "c = (e, s)" by (cases c)
  from held_okD [OF assms(1) Some] have ok: "0 \<le> e" "0 \<le> s" "e \<noteq> 0 \<or> s \<noteq> 0"
    by (auto simp: c depths_ok_def)
  with assms Some c show ?thesis
    by (auto simp: try_lock_enter_def try_lock_exit_def held_depths_def entered_def depths_ok_def
        fun_upd_idem split: if_splits option.splits)
qed

lemma try_lock_enter_holding:
  "held_ok h \<Longrightarrow> try_lock_enter os valid outcome h p = Inr Refused_Holding \<Longrightarrow> h p = None \<and> outcome = File_Busy"
  by (cases "h p") (auto simp: try_lock_enter_def held_depths_def depths_ok_def dest: held_okD split: if_splits option.splits)

definition os_errors :: "lock_os \<Rightarrow> error set" where
  "os_errors os = set_option (lo_mkdir os) \<union> set_option (lo_open os) \<union> set_option (lo_flock os) \<union> set_option (lo_unlock os)"

lemma kb_lock_enter_Inl: "kb_lock_enter os h p ex = Inl e \<Longrightarrow> e = upgrade_error \<or> e \<in> os_errors os"
  by (auto simp: kb_lock_enter_def acquire_error_def os_errors_def split: prod.splits if_splits option.splits)

lemma try_lock_enter_Inl:
  "try_lock_enter os valid outcome h p = Inl e \<Longrightarrow> (\<not> valid \<and> e = timeout_error) \<or> e \<in> os_errors os"
  by (auto simp: try_lock_enter_def acquire_error_def os_errors_def split: prod.splits if_splits option.splits)

lemma exit_error_cases: "exit_error os k err = Some e \<Longrightarrow> err = Some e \<or> e \<in> os_errors os"
  by (auto simp: exit_error_def os_errors_def split: lock_entry.splits option.splits)

text \<open>
  Every run of a scope gives back the table it found, and what it does to a lock of each path
  is well bracketed: nothing on a path the thread already holds, a sequence of matched pairs
  on the others.
\<close>

definition run_restores :: "lock_layer \<Rightarrow> held_locks \<Rightarrow> held_locks \<times> lock_event list \<times> error option \<Rightarrow> bool" where
  "run_restores y h r \<longleftrightarrow>
     (case r of (h', evs, err) \<Rightarrow>
        h' = h \<and>
        (\<forall>q. h q = None \<longrightarrow> lock_state y q evs None = Some None) \<and>
        (\<forall>q st. h q \<noteq> None \<longrightarrow> lock_state y q evs st = Some st))"

lemma run_restores_error: "run_restores y h (h', evs, err) \<longleftrightarrow> run_restores y h (h', evs, err')"
  by (simp add: run_restores_def)

lemma entered_Nested: "entered h p Nested h1 \<Longrightarrow> (h1 q = None) = (h q = None)"
  by (cases "q = p") (auto simp: entered_def)

lemma bracket_restores:
  assumes ent: "entered h p k h1" and run: "run_restores y h1 (h1, evs, err)"
  shows "run_restores y h (h, bracket k p ex evs, err')"
proof (cases k)
  case Nested
  with ent have "\<And>q. (h1 q = None) = (h q = None)" by (auto dest: entered_Nested)
  then show ?thesis using run Nested by (simp add: run_restores_def bracket_def del: not_None_eq)
next
  case Outermost
  with ent have p: "h p = None" "h1 p \<noteq> None" and other: "\<And>q. q \<noteq> p \<Longrightarrow> h1 q = h q"
    by (auto simp: entered_def)
  have "lock_state y q (bracket k p ex evs) st = (if q = p then (if st = None then Some None else None)
      else lock_state y q evs st)" for q st
    using run p Outermost by (cases y) (auto simp: run_restores_def bracket_def holding_def lock_state_append
        split: option.splits)
  then show ?thesis using run p other by (auto simp: run_restores_def)
qed

lemma holding_restores:
  assumes run: "run_restores y h (h, evs, err)" and p: "h p = None" "y = z \<Longrightarrow> lock_state y p evs (Some ex) = Some (Some ex)"
  shows "run_restores y h (h, holding z p ex evs, err')"
proof -
  have "lock_state y q (holding z p ex evs) st = (if q = p \<and> y = z then (if st = None then Some None else None)
      else lock_state y q evs st)" for q st
    using p(2) by (auto simp: holding_def lock_state_append split: option.splits)
  then show ?thesis using run p by (auto simp: run_restores_def)
qed

lemma refused_restores: "held_ok h \<Longrightarrow> run_restores y h (h, refused_events os h p ex, err)"
  by (cases "h p") (auto simp: refused_events_def held_depths_def run_restores_def holding_def depths_ok_def dest: held_okD)

lemma lock_state_other:
  "p \<notin> scope_paths s \<Longrightarrow> run_scope s h = (h', evs, err) \<Longrightarrow> lock_state y p evs st = Some st"
  "p \<notin> scopes_paths ss \<Longrightarrow> run_scopes ss h = (h', evs, err) \<Longrightarrow> lock_state y p evs st = Some st"
proof (induction s h and ss h arbitrary: h' evs err st and h' evs err st rule: run_scope_run_scopes.induct)
  case (2 q ex os body h)
  then show ?case
    by (auto simp: refused_events_def bracket_def holding_def lock_state_append
        split: sum.splits prod.splits lock_entry.splits if_splits)
next
  case (3 q valid outcome os body otherwise h)
  then show ?case
    by (auto simp: try_refused_events_def refused_events_def bracket_def holding_def lock_state_append
        split: sum.splits prod.splits try_entry.splits lock_entry.splits if_splits)
next
  case (5 s ss h)
  then show ?case by (auto simp: lock_state_append split: prod.splits option.splits)
qed auto

lemma run_scope_restores:
  "held_ok h \<Longrightarrow> y = File_Lock \<or> scope_refusal_safe s \<Longrightarrow> run_restores y h (run_scope s h)"
  "held_ok h \<Longrightarrow> y = File_Lock \<or> refusal_safe ss \<Longrightarrow> run_restores y h (run_scopes ss h)"
proof (induction s h and ss h rule: run_scope_run_scopes.induct)
  case (2 p ex os body h)
  show ?case
  proof (cases "kb_lock_enter os h p ex")
    case (Inl e)
    then show ?thesis using refused_restores [OF "2.prems"(1)] by simp
  next
    case (Inr b)
    then obtain h1 k where enter: "kb_lock_enter os h p ex = Inr (h1, k)" by (cases b) auto
    from kb_lock_enter_entered [OF "2.prems"(1) enter]
    have ent: "entered h p k h1" and exit: "kb_lock_exit h1 p ex k = Inr h" by auto
    have body: "run_restores y h1 (run_scopes body h1)"
      using "2.IH" [OF Inr] enter Inr ent "2.prems"(2) by (auto simp: entered_def)
    then obtain evs err where "run_scopes body h1 = (h1, evs, err)"
      by (cases "run_scopes body h1") (auto simp: run_restores_def)
    with body enter exit bracket_restores [OF ent] show ?thesis by simp
  qed
next
  case (3 p valid outcome os body otherwise h)
  show ?case
  proof (cases "try_lock_enter os valid outcome h p")
    case (Inl e)
    have "run_restores y h (h, try_refused_events os valid h p, Some e)"
      using refused_restores [OF "3.prems"(1)] by (auto simp: try_refused_events_def run_restores_def)
    with Inl show ?thesis by simp
  next
    case (Inr entry)
    show ?thesis
    proof (cases entry)
      case Refused
      with Inr "3.IH"(1) "3.prems" show ?thesis by auto
    next
      case Refused_Holding
      with Inr have refused: "try_lock_enter os valid outcome h p = Inr Refused_Holding" by simp
      from try_lock_enter_holding [OF "3.prems"(1) this] have p: "h p = None" "outcome = File_Busy" by simp_all
      have "run_restores y h (run_scopes otherwise h)"
        using "3.IH"(2) [OF Inr Refused_Holding "3.prems"(1)] "3.prems"(2) by auto
      then obtain evs err where run: "run_scopes otherwise h = (h, evs, err)" "run_restores y h (h, evs, err)"
        by (cases "run_scopes otherwise h") (auto simp: run_restores_def)
      have "run_restores y h (h, holding Local_Lock p True evs, err)"
      proof (rule holding_restores [OF run(2) p(1)])
        assume "y = Local_Lock"
        with "3.prems"(2) p(2) have "p \<notin> scopes_paths otherwise" by auto
        from lock_state_other(2) [OF this run(1)] show "lock_state y p evs (Some True) = Some (Some True)" .
      qed
      with refused run(1) show ?thesis by simp
    next
      case (Entered h1 k)
      with Inr have enter: "try_lock_enter os valid outcome h p = Inr (Entered h1 k)" by simp
      from try_lock_enter_entered [OF "3.prems"(1) enter]
      have ent: "entered h p k h1" and exit: "try_lock_exit h1 p k = Inr h" by auto
      have body: "run_restores y h1 (run_scopes body h1)"
        using "3.IH"(3) [OF Inr Entered] ent "3.prems"(2) by (auto simp: entered_def)
      then obtain evs err where "run_scopes body h1 = (h1, evs, err)"
        by (cases "run_scopes body h1") (auto simp: run_restores_def)
      with body enter exit bracket_restores [OF ent] show ?thesis by simp
    qed
  qed
next
  case (5 s ss h)
  have "run_restores y h (run_scope s h)" using "5.IH"(1) "5.prems" by auto
  then obtain evs err where run: "run_scope s h = (h, evs, err)" and ok: "run_restores y h (h, evs, err)"
    by (cases "run_scope s h") (auto simp: run_restores_def)
  show ?case
  proof (cases err)
    case None
    have "run_restores y h (run_scopes ss h)"
      using "5.IH"(2) run None "5.prems" by auto
    with run ok None show ?thesis
      by (cases "run_scopes ss h") (auto simp: run_restores_def lock_state_append)
  next
    case (Some e)
    with run ok show ?thesis by simp
  qed
qed (auto simp: run_restores_def)

text \<open>The exceptions of a body: those it raises and those the operating system raises in it.\<close>

fun scope_raises :: "scope \<Rightarrow> error set" and scopes_raise :: "scope list \<Rightarrow> error set" where
  "scope_raises (Raise e) = {e}"
| "scope_raises (With p ex os body) = os_errors os \<union> scopes_raise body"
| "scope_raises (With_Try p valid outcome os body otherwise) =
     (if valid then {} else {timeout_error}) \<union> os_errors os \<union> scopes_raise body \<union> scopes_raise otherwise"
| "scopes_raise [] = {}"
| "scopes_raise (s # ss) = scope_raises s \<union> scopes_raise ss"

lemma run_scope_table: "held_ok h \<Longrightarrow> fst (run_scope s h) = h" "held_ok h \<Longrightarrow> fst (run_scopes ss h) = h"
  using run_scope_restores(1) [of h File_Lock s] run_scope_restores(2) [of h File_Lock ss]
  by (auto simp: run_restores_def split: prod.splits)

lemma run_scope_errors:
  "held_ok h \<Longrightarrow> run_scope s h = (h', evs, Some e) \<Longrightarrow> e = upgrade_error \<or> e \<in> scope_raises s"
  "held_ok h \<Longrightarrow> run_scopes ss h = (h', evs, Some e) \<Longrightarrow> e = upgrade_error \<or> e \<in> scopes_raise ss"
proof (induction s h and ss h arbitrary: h' evs e and h' evs e rule: run_scope_run_scopes.induct)
  case (2 p ex os body h)
  show ?case
  proof (cases "kb_lock_enter os h p ex")
    case (Inl e')
    with "2.prems" kb_lock_enter_Inl [OF Inl] show ?thesis by auto
  next
    case (Inr b)
    then obtain h1 k where enter: "kb_lock_enter os h p ex = Inr (h1, k)" by (cases b) auto
    from kb_lock_enter_entered [OF "2.prems"(1) enter]
    have ok: "held_ok h1" and exit: "kb_lock_exit h1 p ex k = Inr h" by (auto simp: entered_def)
    obtain evs1 err where body: "run_scopes body h1 = (h1, evs1, err)"
      using run_scope_table(2) [OF ok, of body] by (cases "run_scopes body h1") auto
    with "2.prems" enter exit have "exit_error os k err = Some e" by simp
    from exit_error_cases [OF this] "2.IH" [OF Inr] enter Inr ok body show ?thesis by auto
  qed
next
  case (3 p valid outcome os body otherwise h)
  show ?case
  proof (cases "try_lock_enter os valid outcome h p")
    case (Inl e')
    with "3.prems" try_lock_enter_Inl [OF Inl] show ?thesis by auto
  next
    case (Inr entry)
    show ?thesis
    proof (cases entry)
      case Refused
      with Inr "3.IH"(1) [OF Inr Refused "3.prems"(1)] "3.prems"(2) show ?thesis by auto
    next
      case Refused_Holding
      with Inr "3.prems"(2) obtain evs' where "run_scopes otherwise h = (h', evs', Some e)" by (auto split: prod.splits)
      with "3.IH"(2) [OF Inr Refused_Holding "3.prems"(1)] show ?thesis by auto
    next
      case (Entered h1 k)
      with Inr have enter: "try_lock_enter os valid outcome h p = Inr (Entered h1 k)" by simp
      from try_lock_enter_entered [OF "3.prems"(1) enter]
      have ok: "held_ok h1" and exit: "try_lock_exit h1 p k = Inr h" by (auto simp: entered_def)
      obtain evs1 err where body: "run_scopes body h1 = (h1, evs1, err)"
        using run_scope_table(2) [OF ok, of body] by (cases "run_scopes body h1") auto
      with "3.prems" enter exit have "exit_error os k err = Some e" by simp
      from exit_error_cases [OF this] "3.IH"(3) [OF Inr Entered] ok body show ?thesis by auto
    qed
  qed
next
  case (5 s ss h)
  obtain evs1 err where run: "run_scope s h = (h, evs1, err)"
    using run_scope_table(1) [OF "5.prems"(1), of s] by (cases "run_scope s h") auto
  show ?case
  proof (cases err)
    case None
    with run "5.prems" obtain evs2 where "run_scopes ss h = (h', evs2, Some e)"
      by (auto split: prod.splits)
    with "5.IH"(2) run None "5.prems" show ?thesis by auto
  next
    case (Some e')
    with run "5.prems" "5.IH"(1) show ?thesis by auto
  qed
qed auto

text \<open>A body that runs because the file lock is busy deadlocks on the lock it was refused.\<close>

lemma refused_body_blocks_itself:
  "run_scopes [With_Try p True File_Busy lock_os_fine [] [With p True lock_os_fine []]] Map.empty =
     (Map.empty, holding Local_Lock p True (holding Local_Lock p True (holding File_Lock p True [])), None) \<and>
   lock_state Local_Lock p (holding Local_Lock p True (holding Local_Lock p True (holding File_Lock p True []))) None = None"
  by (simp add: try_lock_enter_def kb_lock_enter_def kb_lock_exit_def exit_error_def held_depths_def lock_os_fine_def
      acquire_error_def bracket_def holding_def)

text \<open>
  C1 The in-process lock excludes: in every reachable state at most one thread is in
  the write section, and none is in the read section beside it.
\<close>

theorem rw_mutual_exclusion:
  assumes "rw_reachable s" and "rw_pcs s t = Writing"
  shows "rw_pcs s u \<noteq> Reading \<and> (rw_pcs s u = Writing \<longrightarrow> u = t)"
  using rw_reachable_inv [OF assms(1)] assms(2) by (auto simp: rw_inv_def)

definition rw_example :: rw_sys where
  "rw_example = \<lparr>rw_state = \<lparr>rw_readers = 0, rw_writer = True, rw_writers_waiting = 0\<rparr>,
     rw_pcs = (\<lambda>_. Outside)(1 := Writing)\<rparr>"

lemma rw_example_reachable: "rw_reachable rw_example"
proof -
  have "rw_step rw_sys_init (rw_move rw_sys_init 1 Writing (rw_state rw_example, False))"
    by (rule call_write) (simp_all add: rw_op_defs rw_sys_init_def rw_new_def rw_example_def)
  also have "rw_move rw_sys_init 1 Writing (rw_state rw_example, False) = rw_example"
    by (simp add: rw_move_def notify_all_def rw_example_def rw_sys_init_def)
  finally show ?thesis by (rule rw_next [OF rw_start])
qed

theorem rw_mutual_exclusion_witness:
  "rw_pcs rw_example 1 = Writing \<and> rw_pcs rw_example 2 \<noteq> Reading"
proof -
  have w: "rw_pcs rw_example 1 = Writing" by (simp add: rw_example_def)
  with rw_mutual_exclusion [OF rw_example_reachable w, of 2] show ?thesis by simp
qed

text \<open>
  C26 Writers are preferred and no wake-up is lost.  In every reachable state a reader is
  admitted only when no thread waits for the write section or is in it; a thread asleep in
  \<open>wait\<close> sleeps on a condition that does not hold, so every section that makes one hold has
  notified it; and when nobody holds the lock, every waiting writer is awake and its next
  test enters, and without waiting writers every waiting reader is awake and enters.
\<close>

theorem rw_preference_and_progress:
  assumes "rw_reachable s"
  shows "(rw_read_enter (rw_state s) \<noteq> None \<longleftrightarrow>
            (\<forall>u. \<not> is_write_wait (rw_pcs s u) \<and> rw_pcs s u \<noteq> Writing)) \<and>
         rw_no_lost_wakeup s \<and>
         ((\<forall>u. rw_pcs s u \<notin> {Reading, Writing}) \<longrightarrow>
            (\<forall>t b asleep. rw_pcs s t = WriteWait b asleep \<longrightarrow>
               \<not> asleep \<and> (\<exists>l. rw_write_acquire (rw_state s) = Some l \<and> rw_step s (rw_move s t Writing (l, False)))) \<and>
            ((\<forall>u. \<not> is_write_wait (rw_pcs s u)) \<longrightarrow> (\<forall>t asleep. rw_pcs s t = ReadWait asleep \<longrightarrow>
               \<not> asleep \<and> (\<exists>l. rw_read_enter (rw_state s) = Some l \<and> rw_step s (rw_move s t Reading (l, False))))))"
proof -
  from rw_reachable_inv [OF assms] have inv: "rw_inv s" .
  then have fin: "finite {t. rw_pcs s t \<noteq> Outside}" by (simp add: rw_inv_def)
  have zero: "thread_count P (rw_pcs s) = 0 \<longleftrightarrow> (\<forall>u. \<not> P (rw_pcs s u))" if "\<not> P Outside" for P
  proof
    assume "thread_count P (rw_pcs s) = 0"
    then show "\<forall>u. \<not> P (rw_pcs s u)" using thread_count_zero [where P = P, OF fin that] by blast
  qed (simp add: thread_count_def)
  from inv have counts: "rw_readers (rw_state s) = thread_count (\<lambda>p. p = Reading) (rw_pcs s)"
    "rw_writers_waiting (rw_state s) = thread_count is_write_wait (rw_pcs s)"
    "rw_writer (rw_state s) = (\<exists>t. rw_pcs s t = Writing)"
    by (auto simp: rw_inv_def)
  have readers: "rw_read_enter (rw_state s) \<noteq> None \<longleftrightarrow> (\<forall>u. \<not> is_write_wait (rw_pcs s u) \<and> rw_pcs s u \<noteq> Writing)"
    using counts zero [of is_write_wait] by (auto simp: rw_read_enter_def)
  have writers: "rw_write_acquire (rw_state s) \<noteq> None" if "\<forall>u. rw_pcs s u \<notin> {Reading, Writing}"
    using that counts zero [of "\<lambda>p. p = Reading"] by (auto simp: rw_write_acquire_def)
  have awake: "rw_no_lost_wakeup s" by (rule rw_reachable_no_lost_wakeup [OF assms])
  have "\<not> asleep \<and> (\<exists>l. rw_write_acquire (rw_state s) = Some l \<and> rw_step s (rw_move s t Writing (l, False)))"
    if "\<forall>u. rw_pcs s u \<notin> {Reading, Writing}" "rw_pcs s t = WriteWait b asleep" for t b asleep
  proof -
    from writers [OF that(1)] obtain l where l: "rw_write_acquire (rw_state s) = Some l" by blast
    with awake that(2) have "\<not> asleep" by (cases asleep) (auto simp: rw_no_lost_wakeup_def)
    with l that(2) show ?thesis using enter_write [of s t b l] by simp
  qed
  moreover have "\<not> asleep \<and> (\<exists>l. rw_read_enter (rw_state s) = Some l \<and> rw_step s (rw_move s t Reading (l, False)))"
    if "\<forall>u. rw_pcs s u \<notin> {Reading, Writing}" "\<forall>u. \<not> is_write_wait (rw_pcs s u)" "rw_pcs s t = ReadWait asleep" for t asleep
  proof -
    from readers that(1,2) obtain l where l: "rw_read_enter (rw_state s) = Some l" by fastforce
    with awake that(3) have "\<not> asleep" by (cases asleep) (auto simp: rw_no_lost_wakeup_def)
    with l that(3) show ?thesis using enter_read [of s t l] by simp
  qed
  ultimately show ?thesis using readers awake by blast
qed

text \<open>A reader that arrives while another thread writes sleeps, and the end of the write wakes it.\<close>

definition rw_example_blocked :: rw_sys where
  "rw_example_blocked = rw_move rw_example 2 (ReadWait True) (rw_state rw_example, False)"

definition rw_example_released :: rw_sys where
  "rw_example_released = rw_move rw_example_blocked 1 Outside (rw_write_exit (rw_state rw_example))"

lemma rw_example_released_reachable: "rw_reachable rw_example_released"
proof -
  have "rw_step rw_example rw_example_blocked" unfolding rw_example_blocked_def
    by (rule wait_read) (simp_all add: rw_example_def rw_read_enter_def)
  then have blocked: "rw_reachable rw_example_blocked" by (rule rw_next [OF rw_example_reachable])
  have "rw_state rw_example_blocked = rw_state rw_example" "rw_pcs rw_example_blocked 1 = Writing"
    by (simp_all add: rw_example_blocked_def rw_move_def notify_all_def rw_example_def)
  then have "rw_step rw_example_blocked rw_example_released"
    unfolding rw_example_released_def using exit_write [of rw_example_blocked 1] by simp
  then show ?thesis by (rule rw_next [OF blocked])
qed

theorem rw_preference_and_progress_witness:
  "rw_pcs rw_example_blocked 2 = ReadWait True \<and> rw_pcs rw_example_released 2 = ReadWait False \<and>
   (\<exists>l. rw_step rw_example_released (rw_move rw_example_released 2 Reading (l, False)))"
proof -
  have pcs: "rw_pcs rw_example_blocked = ((\<lambda>_. Outside)(1 := Writing))(2 := ReadWait True)"
    "rw_pcs rw_example_released = (\<lambda>_. Outside)(2 := ReadWait False)"
    by (auto simp: rw_example_released_def rw_example_blocked_def rw_move_def notify_all_def rw_example_def rw_write_exit_def fun_eq_iff)
  then have idle: "\<forall>u. rw_pcs rw_example_released u \<notin> {Reading, Writing}" "\<forall>u. \<not> is_write_wait (rw_pcs rw_example_released u)"
    and waits: "rw_pcs rw_example_released 2 = ReadWait False" by simp_all
  from rw_preference_and_progress [OF rw_example_released_reachable] idle waits
  have "\<exists>l. rw_step rw_example_released (rw_move rw_example_released 2 Reading (l, False))" by blast
  with pcs show ?thesis by simp
qed

text \<open>
  C25 The re-entrant lock is restored on every path: whatever a nest of lock scopes does,
  exceptions of the bodies and of the operating system included (no directory, no lock file,
  no lock, no unlock), it leaves the thread's table of held locks as it found it.  The only
  exceptions it adds are refused upgrades, invalid timeouts and those of the operating system,
  never a missing entry.  On the lock file it makes no call for a path already held and
  matched pairs for the others, and so on the in-process lock, provided no body that runs
  because the file lock of a path is busy locks that path.
\<close>

theorem kb_lock_scopes_restore:
  assumes "held_ok h" and "run_scopes ss h = (h', evs, err)"
  shows "h' = h \<and>
         (\<forall>y q. y = File_Lock \<or> refusal_safe ss \<longrightarrow>
            (h q = None \<longrightarrow> lock_state y q evs None = Some None) \<and>
            (\<forall>st. h q \<noteq> None \<longrightarrow> lock_state y q evs st = Some st)) \<and>
         (\<forall>e. err = Some e \<longrightarrow> e = upgrade_error \<or> e \<in> scopes_raise ss)"
  using run_scope_restores(2) [OF assms(1), of _ ss] run_scope_table(2) [OF assms(1), of ss] assms(2)
    run_scope_errors(2) [OF assms(1), of ss]
  by (auto simp: run_restores_def)

theorem kb_lock_scopes_restore_witness:
  "run_scopes [With ''a'' True lock_os_fine [With ''a'' False lock_os_fine [], With ''b'' True (lock_os_fine\<lparr>lo_flock := Some (RuntimeError ''busy'')\<rparr>) []]]
     Map.empty =
     (Map.empty, holding Local_Lock ''a'' True (holding File_Lock ''a'' True (holding Local_Lock ''b'' True [])), Some (RuntimeError ''busy''))
   \<and> lock_state Local_Lock ''a'' (holding Local_Lock ''a'' True (holding File_Lock ''a'' True (holding Local_Lock ''b'' True []))) None = Some None"
proof -
  have run: "run_scopes [With ''a'' True lock_os_fine [With ''a'' False lock_os_fine [], With ''b'' True (lock_os_fine\<lparr>lo_flock := Some (RuntimeError ''busy'')\<rparr>) []]]
     Map.empty =
     (Map.empty, holding Local_Lock ''a'' True (holding File_Lock ''a'' True (holding Local_Lock ''b'' True [])), Some (RuntimeError ''busy''))"
    by (simp add: kb_lock_enter_def kb_lock_exit_def held_depths_def bracket_def refused_events_def lock_os_fine_def
        acquire_error_def exit_error_def)
  with kb_lock_scopes_restore [OF held_ok_empty run] show ?thesis by simp
qed

end
