(* ===== verification/AtomicWrite.thy ===== *)
theory AtomicWrite
  imports Prelude
begin

section \<open>Atomic replacement of a file (\<open>atomic_write_bytes\<close> of \<open>openkb/locks.py\<close>)\<close>

text \<open>
  The write is the list of file system calls it makes, on a disk that tells apart what a
  process sees and what is on stable storage.  A crash is a prefix of that list followed by
  any choice of the unflushed names and contents.
\<close>

unbundle bit_operations_syntax

subsection \<open>The disk\<close>

text \<open>
  A file is its content and its permission bits.  The disk keeps names apart from the files
  they lead to (inode numbers), and both apart from what a crash leaves: a file of
  \<open>dk_dirty\<close> has writes that are not on stable storage, and \<open>dk_pending\<close> are the bindings a
  name has had since its directory was flushed, each of which may be the one on storage.
\<close>

type_synonym file_data = "string \<times> int"

record disk =
  dk_names :: "string \<rightharpoonup> nat"
  dk_files :: "nat \<rightharpoonup> file_data"
  dk_dirty :: "nat set"
  dk_pending :: "string \<Rightarrow> nat option set"

definition file_at :: "disk \<Rightarrow> string \<Rightarrow> file_data option" where
  "file_at d q = Option.bind (dk_names d q) (dk_files d)"

text \<open>
  The calls of \<open>atomic_write_bytes\<close>; an open file is its inode.  A rename changes two names,
  and unlinking one; neither is durable before the directory is flushed.
\<close>

datatype fs_call =
    Mkstemp string nat
  | Fchmod nat int
  | Write_Chunk nat string
  | Fsync nat
  | Os_Replace string string
  | Fsync_Dir
  | Unlink string

definition bind_name :: "string \<Rightarrow> nat option \<Rightarrow> disk \<Rightarrow> disk" where
  "bind_name q b d =
     d\<lparr>dk_names := (dk_names d)(q := b), dk_pending := (dk_pending d)(q := insert b (dk_pending d q))\<rparr>"

definition change_file :: "nat \<Rightarrow> (file_data \<Rightarrow> file_data) \<Rightarrow> disk \<Rightarrow> disk" where
  "change_file i f d = d\<lparr>dk_files := (dk_files d)(i := map_option f (dk_files d i)), dk_dirty := insert i (dk_dirty d)\<rparr>"

fun fs_apply :: "disk \<Rightarrow> fs_call \<Rightarrow> disk" where
  "fs_apply d (Mkstemp t i) =
     bind_name t (Some i) (d\<lparr>dk_files := (dk_files d)(i \<mapsto> ([], 384)), dk_dirty := insert i (dk_dirty d)\<rparr>)"
| "fs_apply d (Fchmod i m) = change_file i (\<lambda>(c, _). (c, m)) d"
| "fs_apply d (Write_Chunk i w) = change_file i (\<lambda>(c, m). (c @ w, m)) d"
| "fs_apply d (Fsync i) = d\<lparr>dk_dirty := dk_dirty d - {i}\<rparr>"
| "fs_apply d (Os_Replace t p) =
     (case dk_names d t of None \<Rightarrow> d | Some i \<Rightarrow> bind_name t None (bind_name p (Some i) d))"
| "fs_apply d Fsync_Dir = d\<lparr>dk_pending := (\<lambda>q. {dk_names d q})\<rparr>"
| "fs_apply d (Unlink t) = bind_name t None d"

definition fs_run :: "disk \<Rightarrow> fs_call list \<Rightarrow> disk" where
  "fs_run d ops = foldl fs_apply d ops"


text \<open>A disk at rest: nothing is dirty and every name is durable.\<close>

definition disk_at_rest :: "disk \<Rightarrow> bool" where
  "disk_at_rest d \<longleftrightarrow> dk_dirty d = {} \<and> (\<forall>q. dk_pending d q = {dk_names d q})"

text \<open>\<open>0o666 & ~umask\<close>, and the mode of an existing target.\<close>

definition default_file_mode :: "int \<Rightarrow> int" where
  "default_file_mode umask = 438 AND NOT umask"

definition target_mode :: "disk \<Rightarrow> int \<Rightarrow> string \<Rightarrow> int" where
  "target_mode d umask p =
     (case file_at d p of None \<Rightarrow> default_file_mode umask | Some (_, m) \<Rightarrow> m AND 511)"

text \<open>\<open>_fsync_directory\<close>: nothing on Windows.\<close>

definition fsync_directory :: "bool \<Rightarrow> fs_call list" where
  "fsync_directory is_nt = (if is_nt then [] else [Fsync_Dir])"

text \<open>
  \<open>atomic_write_bytes\<close>: \<open>tmp\<close> is the fresh name \<open>mkstemp\<close> chose and \<open>i\<close> its inode,
  \<open>has_fchmod\<close> and \<open>is_nt\<close> are the two platform tests, and \<open>chunks\<close> is how the operating
  system splits the one \<open>write\<close>.  \<open>fails\<close> is the number of calls of the \<open>try\<close> body after
  which an exception strikes, if one does: the \<open>finally\<close> block still removes the temporary
  file.
\<close>

definition atomic_write_body ::
  "bool \<Rightarrow> bool \<Rightarrow> disk \<Rightarrow> int \<Rightarrow> string \<Rightarrow> nat \<Rightarrow> string \<Rightarrow> string list \<Rightarrow> fs_call list" where
  "atomic_write_body has_fchmod is_nt d umask tmp i p chunks =
     (if has_fchmod then [Fchmod i (target_mode d umask p)] else []) @
     map (Write_Chunk i) chunks @ [Fsync i] @
     Os_Replace tmp p # fsync_directory is_nt"

definition atomic_write_bytes ::
  "nat option \<Rightarrow> bool \<Rightarrow> bool \<Rightarrow> disk \<Rightarrow> int \<Rightarrow> string \<Rightarrow> nat \<Rightarrow> string \<Rightarrow> string list \<Rightarrow> fs_call list" where
  "atomic_write_bytes fails has_fchmod is_nt d umask tmp i p chunks =
     (let body = atomic_write_body has_fchmod is_nt d umask tmp i p chunks in
      Mkstemp tmp i # (case fails of None \<Rightarrow> body | Some n \<Rightarrow> take n body) @ [Unlink tmp])"

definition written_file :: "bool \<Rightarrow> disk \<Rightarrow> int \<Rightarrow> string \<Rightarrow> string list \<Rightarrow> file_data" where
  "written_file has_fchmod d umask p chunks =
     (concat chunks, if has_fchmod then target_mode d umask p else 384)"

lemma fs_run_simps [simp]:
  "fs_run d [] = d"
  "fs_run d (op # ops) = fs_run (fs_apply d op) ops"
  "fs_run d (ops @ ops') = fs_run (fs_run d ops) ops'"
  by (simp_all add: fs_run_def)








text \<open>The calls before the \<open>os.replace\<close>, from the new empty file on.\<close>

definition atomic_write_prepare ::
  "bool \<Rightarrow> disk \<Rightarrow> int \<Rightarrow> nat \<Rightarrow> string \<Rightarrow> string list \<Rightarrow> fs_call list" where
  "atomic_write_prepare has_fchmod d umask i p chunks =
     (if has_fchmod then [Fchmod i (target_mode d umask p)] else []) @ map (Write_Chunk i) chunks @ [Fsync i]"

lemma body_split:
  "atomic_write_body hf nt d um tmp i p chunks =
     atomic_write_prepare hf d um i p chunks @ Os_Replace tmp p # fsync_directory nt"
  by (simp add: atomic_write_body_def atomic_write_prepare_def)


lemma chunks_run:
  "dk_files x i = Some (c, m) \<Longrightarrow> i \<in> dk_dirty x \<Longrightarrow>
     fs_run x (map (Write_Chunk i) ws) = x\<lparr>dk_files := (dk_files x)(i \<mapsto> (c @ concat ws, m))\<rparr>"
  by (induction ws arbitrary: x c) (simp_all add: change_file_def insert_absorb fun_upd_idem)

lemma prepare_runs:
  assumes "dk_files x i = Some ([], 384)" "i \<in> dk_dirty x"
  shows "fs_run x (atomic_write_prepare hf d um i p chunks) =
    x\<lparr>dk_files := (dk_files x)(i \<mapsto> written_file hf d um p chunks), dk_dirty := dk_dirty x - {i}\<rparr>"
  using assms by (simp add: atomic_write_prepare_def written_file_def chunks_run change_file_def insert_absorb)


definition fresh_file :: "disk \<Rightarrow> string \<Rightarrow> nat \<Rightarrow> bool" where
  "fresh_file d tmp i \<longleftrightarrow> dk_names d tmp = None \<and> dk_files d i = None \<and> (\<forall>q. dk_names d q \<noteq> Some i)"








lemma atomic_write_run:
  "fs_run d (atomic_write_bytes None hf nt d um tmp i p chunks) =
    fs_run (fs_apply (bind_name tmp (Some i) (d\<lparr>dk_files := (dk_files d)(i \<mapsto> written_file hf d um p chunks), dk_dirty := dk_dirty d - {i}\<rparr>))
      (Os_Replace tmp p)) (fsync_directory nt @ [Unlink tmp])"
proof -
  let ?x = "fs_apply d (Mkstemp tmp i)"
  have "fs_run ?x (atomic_write_prepare hf d um i p chunks) =
      ?x\<lparr>dk_files := (dk_files ?x)(i \<mapsto> written_file hf d um p chunks), dk_dirty := dk_dirty ?x - {i}\<rparr>"
    by (rule prepare_runs) (simp_all add: bind_name_def)
  then have run: "fs_run ?x (atomic_write_prepare hf d um i p chunks) =
      bind_name tmp (Some i) (d\<lparr>dk_files := (dk_files d)(i \<mapsto> written_file hf d um p chunks), dk_dirty := dk_dirty d - {i}\<rparr>)"
    by (simp add: bind_name_def)
  show ?thesis
    by (simp only: atomic_write_bytes_def Let_def option.case body_split append_assoc append_Cons fs_run_simps(2,3) run)
qed


definition sample_disk :: disk where
  "sample_disk = \<lparr>dk_names = [''f'' \<mapsto> 1], dk_files = [1 \<mapsto> (''old'', 420)], dk_dirty = {}, dk_pending = (\<lambda>q. {[''f'' \<mapsto> 1] q})\<rparr>"

lemma sample_disk_fresh: "disk_at_rest sample_disk" "fresh_file sample_disk ''t'' 2" "file_at sample_disk ''f'' = Some (''old'', 420)"
  by (auto simp: sample_disk_def disk_at_rest_def fresh_file_def file_at_def)


text \<open>
  The write completes and cleans up: without an exception the target is the new file
  with the mode the code computes and every other name is unchanged; and whenever the
  exception strikes, the temporary name is gone at the end.
\<close>

theorem atomic_write_completes:
  assumes "disk_at_rest d" "fresh_file d tmp i" "tmp \<noteq> p"
  shows "file_at (fs_run d (atomic_write_bytes None hf nt d um tmp i p chunks)) =
           (file_at d)(p \<mapsto> written_file hf d um p chunks) \<and>
         dk_names (fs_run d (atomic_write_bytes (Some n) hf nt d um tmp i p chunks)) tmp = None"
proof
  have "dk_names (fs_run d (atomic_write_bytes None hf nt d um tmp i p chunks)) = (dk_names d)(p \<mapsto> i)"
    and "dk_files (fs_run d (atomic_write_bytes None hf nt d um tmp i p chunks)) = (dk_files d)(i \<mapsto> written_file hf d um p chunks)"
    using assms(2,3) by (auto simp: atomic_write_run fsync_directory_def bind_name_def fresh_file_def fun_eq_iff)
  then show "file_at (fs_run d (atomic_write_bytes None hf nt d um tmp i p chunks)) = (file_at d)(p \<mapsto> written_file hf d um p chunks)"
    using assms(2) by (auto simp: file_at_def fresh_file_def fun_eq_iff split: bind_splits)
qed (simp add: atomic_write_bytes_def bind_name_def)

theorem atomic_write_completes_witness:
  "file_at (fs_run sample_disk (atomic_write_bytes None False True sample_disk 18 ''t'' 2 ''f'' [''x''])) ''f'' = Some (''x'', 384)"
  using atomic_write_completes [OF sample_disk_fresh(1,2), of "''f''" False True 18 "[''x'']"]
  by (simp add: written_file_def)

end
