(* ===== verification/Json.thy ===== *)
theory Json
  imports Prelude "HOL-Library.Char_ord" "HOL-Library.List_Lexorder"
begin

section \<open>JSON values and the standard library's codec\<close>

text \<open>
  The values \<open>json.loads\<close> produces and the code inspects with \<open>isinstance\<close>, the
  compact serialisation \<open>json.dumps(v, ensure_ascii=False, separators=(",", ":"))\<close>,
  \<open>openkb/shared/canonical_json.py\<close> with its sorted keys, and the parser.  A float is
  kept as its lexeme: the code never computes with the floats it stores.  The codec's
  law, that parsing a serialisation gives back the value, is the interface
  \<open>json_codec\<close> on which the frame protocol and the checkpoints rest.
\<close>

subsection \<open>Values\<close>

datatype json =
    JNull
  | JBool bool
  | JInt int
  | JFloat string
  | JStr string
  | JList "json list"
  | JObj "(string \<times> json) list"

type_synonym dict = "(string \<times> json) list"

text \<open>\<open>d.get(k)\<close> with \<open>None\<close> for a missing key, and \<open>d.get(k, default)\<close>.\<close>

definition dict_get :: "dict \<Rightarrow> string \<Rightarrow> json" where
  "dict_get d k = (case map_of d k of None \<Rightarrow> JNull | Some v \<Rightarrow> v)"

definition dict_get_or :: "dict \<Rightarrow> string \<Rightarrow> json \<Rightarrow> json" where
  "dict_get_or d k v0 = (case map_of d k of None \<Rightarrow> v0 | Some v \<Rightarrow> v)"

text \<open>\<open>d[k] = v\<close>: a new key goes last, an old one keeps its place.\<close>

fun dict_put :: "dict \<Rightarrow> string \<Rightarrow> json \<Rightarrow> dict" where
  "dict_put [] k v = [(k, v)]"
| "dict_put ((k', v') # d) k v = (if k' = k then (k, v) # d else (k', v') # dict_put d k v)"

definition dict_of_pairs :: "dict \<Rightarrow> dict" where
  "dict_of_pairs ps = foldl (\<lambda>d (k, v). dict_put d k v) [] ps"

text \<open>A \<open>str | None\<close> in a payload.\<close>

definition json_opt_str :: "string option \<Rightarrow> json" where
  "json_opt_str v = (case v of None \<Rightarrow> JNull | Some s \<Rightarrow> JStr s)"

definition is_object :: "json \<Rightarrow> bool" where
  "is_object v = (case v of JObj _ \<Rightarrow> True | _ \<Rightarrow> False)"

text \<open>\<open>isinstance(v, str) and v\<close>.\<close>

definition nonempty_str :: "json \<Rightarrow> bool" where
  "nonempty_str v = (case v of JStr s \<Rightarrow> s \<noteq> [] | _ \<Rightarrow> False)"

text \<open>\<open>type(v) is int and v >= 0\<close> (a \<open>bool\<close> is not one).\<close>

definition nonneg_int :: "json \<Rightarrow> bool" where
  "nonneg_int v = (case v of JInt i \<Rightarrow> 0 \<le> i | _ \<Rightarrow> False)"

lemma map_of_dict_put: "map_of (dict_put d k v) = (map_of d)(k \<mapsto> v)"
  by (induction d) auto

lemma dict_put_new: "k \<notin> fst ` set d \<Longrightarrow> dict_put d k v = d @ [(k, v)]"
  by (induction d) auto

lemma dict_of_pairs_distinct:
  "distinct (map fst ps) \<Longrightarrow> dict_of_pairs ps = ps"
proof -
  have "distinct (map fst (d @ ps)) \<Longrightarrow>
      foldl (\<lambda>d (k, v). dict_put d k v) d ps = d @ ps" for d
    by (induction ps arbitrary: d) (auto simp: dict_put_new)
  from this [of "[]"] show "distinct (map fst ps) \<Longrightarrow> dict_of_pairs ps = ps"
    by (simp add: dict_of_pairs_def)
qed

subsection \<open>Serialisation\<close>

definition hex_digit :: "nat \<Rightarrow> char" where
  "hex_digit n = (if n < 10 then char_of (48 + n) else char_of (87 + n))"

definition escape_char :: "char \<Rightarrow> string" where
  "escape_char c =
     (if c = CHR 0x22 then [CHR 0x5C, CHR 0x22]
      else if c = CHR 0x5C then [CHR 0x5C, CHR 0x5C]
      else if c = CHR 0x08 then [CHR 0x5C, CHR ''b'']
      else if c = CHR 0x0C then [CHR 0x5C, CHR ''f'']
      else if c = CHR 0x0A then [CHR 0x5C, CHR ''n'']
      else if c = CHR 0x0D then [CHR 0x5C, CHR ''r'']
      else if c = CHR 0x09 then [CHR 0x5C, CHR ''t'']
      else if (of_char c :: nat) < 32
      then [CHR 0x5C, CHR ''u'', CHR ''0'', CHR ''0'',
            hex_digit (of_char c div 16), hex_digit (of_char c mod 16)]
      else [c])"

definition dump_str :: "string \<Rightarrow> string" where
  "dump_str s = CHR 0x22 # concat (map escape_char s) @ [CHR 0x22]"

fun json_dumps :: "json \<Rightarrow> string" and dump_items :: "json list \<Rightarrow> string"
and dump_members :: "(string \<times> json) list \<Rightarrow> string" where
  "json_dumps JNull = ''null''"
| "json_dumps (JBool b) = (if b then ''true'' else ''false'')"
| "json_dumps (JInt i) = int_digits i"
| "json_dumps (JFloat s) = s"
| "json_dumps (JStr s) = dump_str s"
| "json_dumps (JList vs) = CHR ''['' # dump_items vs @ '']''"
| "json_dumps (JObj kvs) = CHR ''{'' # dump_members kvs @ ''}''"
| "dump_items [] = []"
| "dump_items (v # vs) = json_dumps v @ (if vs = [] then [] else CHR '','' # dump_items vs)"
| "dump_members [] = []"
| "dump_members ((k, v) # kvs) =
     dump_str k @ CHR '':'' # json_dumps v @ (if kvs = [] then [] else CHR '','' # dump_members kvs)"

text \<open>\<open>sort_keys=True\<close> at every level.\<close>

fun sort_keys :: "json \<Rightarrow> json" where
  "sort_keys (JList vs) = JList (map sort_keys vs)"
| "sort_keys (JObj kvs) = JObj (sort_key fst (map (\<lambda>kv. (fst kv, sort_keys (snd kv))) kvs))"
| "sort_keys v = v"

definition canonical_json :: "json \<Rightarrow> string" where
  "canonical_json v = json_dumps (sort_keys v)"

text \<open>The hash is the standard library's SHA-256 (hexadecimal), a parameter.\<close>

definition canonical_json_digest :: "(string \<Rightarrow> string) \<Rightarrow> json \<Rightarrow> string" where
  "canonical_json_digest sha256 v = sha256 (canonical_json v)"

subsection \<open>Parsing\<close>

text \<open>\<open>None\<close> is \<open>json.JSONDecodeError\<close>.\<close>

definition json_ws :: "char \<Rightarrow> bool" where
  "json_ws c \<longleftrightarrow> c = CHR '' '' \<or> c = CHR 0x09 \<or> c = CHR 0x0A \<or> c = CHR 0x0D"

definition skip_ws :: "string \<Rightarrow> string" where
  "skip_ws s = dropWhile json_ws s"

definition expect :: "char \<Rightarrow> string \<Rightarrow> string option" where
  "expect k s = (case s of [] \<Rightarrow> None | c # cs \<Rightarrow> if c = k then Some cs else None)"

definition is_digit :: "char \<Rightarrow> bool" where
  "is_digit c \<longleftrightarrow> 48 \<le> (of_char c :: nat) \<and> (of_char c :: nat) \<le> 57"

definition digits_value :: "string \<Rightarrow> nat" where
  "digits_value ds = foldl (\<lambda>a c. a * 10 + (of_char c - 48)) 0 ds"

definition hex_value :: "char \<Rightarrow> nat option" where
  "hex_value c =
     (let n = of_char c in
      if 48 \<le> n \<and> n \<le> 57 then Some (n - 48)
      else if 97 \<le> n \<and> n \<le> 102 then Some (n - 87)
      else if 65 \<le> n \<and> n \<le> 70 then Some (n - 55)
      else None)"

definition hex4 :: "string \<Rightarrow> (nat \<times> string) option" where
  "hex4 s =
     (case s of
        a # b # c # d # r \<Rightarrow>
          (case (hex_value a, hex_value b, hex_value c, hex_value d) of
             (Some x, Some y, Some z, Some w) \<Rightarrow> Some (((x * 16 + y) * 16 + z) * 16 + w, r)
           | _ \<Rightarrow> None)
      | _ \<Rightarrow> None)"

definition utf8_encode :: "nat \<Rightarrow> string" where
  "utf8_encode n =
     map char_of
       (if n < 128 then [n]
        else if n < 2048 then [192 + n div 64, 128 + n mod 64]
        else if n < 65536 then [224 + n div 4096, 128 + n div 64 mod 64, 128 + n mod 64]
        else [240 + n div 262144, 128 + n div 4096 mod 64, 128 + n div 64 mod 64, 128 + n mod 64])"

text \<open>What follows a backslash; a high surrogate joins the low one escaped after it.\<close>

definition json_escape :: "string \<Rightarrow> (string \<times> string) option" where
  "json_escape s =
     (case s of
        [] \<Rightarrow> None
      | e # r \<Rightarrow>
          if e = CHR 0x22 \<or> e = CHR 0x5C \<or> e = CHR ''/'' then Some ([e], r)
          else if e = CHR ''b'' then Some ([CHR 0x08], r)
          else if e = CHR ''f'' then Some ([CHR 0x0C], r)
          else if e = CHR ''n'' then Some ([CHR 0x0A], r)
          else if e = CHR ''r'' then Some ([CHR 0x0D], r)
          else if e = CHR ''t'' then Some ([CHR 0x09], r)
          else if e = CHR ''u'' then
            (case hex4 r of
               None \<Rightarrow> None
             | Some (n, r1) \<Rightarrow>
                 if 55296 \<le> n \<and> n < 56320 \<and> take 2 r1 = [CHR 0x5C, CHR ''u'']
                 then (case hex4 (drop 2 r1) of
                         None \<Rightarrow> None
                       | Some (m, r2) \<Rightarrow>
                           if 56320 \<le> m \<and> m < 57344
                           then Some (utf8_encode (65536 + (n - 55296) * 1024 + (m - 56320)), r2)
                           else Some (utf8_encode n, r1))
                 else Some (utf8_encode n, r1))
          else None)"

lemma hex4_length: "hex4 s = Some (n, r) \<Longrightarrow> length r < length s"
  by (auto simp: hex4_def split: list.splits option.splits)

lemma json_escape_length: "json_escape s = Some (u, r) \<Longrightarrow> length r < length s"
proof (cases s)
  case (Cons e t)
  assume "json_escape s = Some (u, r)"
  with Cons show ?thesis
    by (auto simp: json_escape_def dest!: hex4_length split: if_splits option.splits)
qed (simp add: json_escape_def)

function json_str :: "string \<Rightarrow> (string \<times> string) option" where
  "json_str [] = None"
| "json_str (c # cs) =
     (if c = CHR 0x22 then Some ([], cs)
      else if c = CHR 0x5C then
        (case json_escape cs of
           None \<Rightarrow> None
         | Some (u, r) \<Rightarrow> map_option (apfst ((@) u)) (json_str r))
      else if (of_char c :: nat) < 32 then None
      else map_option (apfst ((#) c)) (json_str cs))"
  by pat_completeness auto
termination
  by (relation "measure length") (auto dest: json_escape_length)

lemma json_str_length: "json_str s = Some (u, r) \<Longrightarrow> length r < length s"
  by (induction s arbitrary: u r rule: json_str.induct)
    (force split: if_splits option.splits dest: json_escape_length)+

text \<open>\<open>(-?(?:0|[1-9][0-9]*))(\.[0-9]+)?([eE][-+]?[0-9]+)?\<close>\<close>

definition json_int_part :: "string \<Rightarrow> string" where
  "json_int_part s = (let ds = takeWhile is_digit s in if take 1 ds = ''0'' then ''0'' else ds)"

definition json_frac_part :: "string \<Rightarrow> string" where
  "json_frac_part s =
     (let ds = takeWhile is_digit (drop 1 s)
      in if take 1 s = ''.'' \<and> ds \<noteq> [] then CHR ''.'' # ds else [])"

definition json_exp_part :: "string \<Rightarrow> string" where
  "json_exp_part s =
     (let sg = (if take 1 (drop 1 s) = ''-'' \<or> take 1 (drop 1 s) = ''+'' then take 1 (drop 1 s) else []);
          ds = takeWhile is_digit (drop (1 + length sg) s)
      in if (take 1 s = ''e'' \<or> take 1 s = ''E'') \<and> ds \<noteq> [] then take 1 s @ sg @ ds else [])"

definition json_unsigned :: "bool \<Rightarrow> string \<Rightarrow> (json \<times> string) option" where
  "json_unsigned neg s =
     (let ip = json_int_part s;
          fp = json_frac_part (drop (length ip) s);
          ep = json_exp_part (drop (length ip + length fp) s);
          r = drop (length ip + length fp + length ep) s
      in if ip = [] then None
         else if fp = [] \<and> ep = []
         then Some (JInt (if neg then - int (digits_value ip) else int (digits_value ip)), r)
         else Some (JFloat ((if neg then ''-'' else []) @ ip @ fp @ ep), r))"

definition json_number :: "string \<Rightarrow> (json \<times> string) option" where
  "json_number s =
     (case expect (CHR ''-'') s of Some r \<Rightarrow> json_unsigned True r | None \<Rightarrow> json_unsigned False s)"

text \<open>The constants, then the numbers, in the order the scanner tries them.\<close>

definition json_atom :: "string \<Rightarrow> (json \<times> string) option" where
  "json_atom s =
     (if prefix ''null'' s then Some (JNull, drop 4 s)
      else if prefix ''true'' s then Some (JBool True, drop 4 s)
      else if prefix ''false'' s then Some (JBool False, drop 5 s)
      else case json_number s of
             Some r \<Rightarrow> Some r
           | None \<Rightarrow>
               if prefix ''NaN'' s then Some (JFloat ''NaN'', drop 3 s)
               else if prefix ''Infinity'' s then Some (JFloat ''Infinity'', drop 8 s)
               else if prefix ''-Infinity'' s then Some (JFloat ''-Infinity'', drop 9 s)
               else None)"

fun json_value :: "nat \<Rightarrow> string \<Rightarrow> (json \<times> string) option"
and json_items :: "nat \<Rightarrow> string \<Rightarrow> (json list \<times> string) option"
and json_members :: "nat \<Rightarrow> string \<Rightarrow> ((string \<times> json) list \<times> string) option" where
  "json_value 0 s = None"
| "json_value (Suc n) s =
     (case s of
        [] \<Rightarrow> None
      | c # cs \<Rightarrow>
          if c = CHR 0x22 then map_option (apfst JStr) (json_str cs)
          else if c = CHR ''{'' then
            (case expect (CHR ''}'') (skip_ws cs) of
               Some r \<Rightarrow> Some (JObj [], r)
             | None \<Rightarrow> map_option (apfst (\<lambda>kvs. JObj (dict_of_pairs kvs))) (json_members n (skip_ws cs)))
          else if c = CHR ''['' then
            (case expect (CHR '']'') (skip_ws cs) of
               Some r \<Rightarrow> Some (JList [], r)
             | None \<Rightarrow> map_option (apfst JList) (json_items n (skip_ws cs)))
          else json_atom s)"
| "json_items 0 s = None"
| "json_items (Suc n) s =
     (case json_value n s of
        None \<Rightarrow> None
      | Some (v, r) \<Rightarrow>
          (case expect (CHR '','') (skip_ws r) of
             Some r' \<Rightarrow> map_option (apfst ((#) v)) (json_items n (skip_ws r'))
           | None \<Rightarrow> map_option (\<lambda>r'. ([v], r')) (expect (CHR '']'') (skip_ws r))))"
| "json_members 0 s = None"
| "json_members (Suc n) s =
     (case Option.bind (expect (CHR 0x22) s) json_str of
        None \<Rightarrow> None
      | Some (k, r) \<Rightarrow>
          (case Option.bind (expect (CHR '':'') (skip_ws r)) (\<lambda>r1. json_value n (skip_ws r1)) of
             None \<Rightarrow> None
           | Some (v, r2) \<Rightarrow>
               (case expect (CHR '','') (skip_ws r2) of
                  Some r3 \<Rightarrow> map_option (apfst ((#) (k, v))) (json_members n (skip_ws r3))
                | None \<Rightarrow> map_option (\<lambda>r3. ([(k, v)], r3)) (expect (CHR ''}'') (skip_ws r2)))))"

text \<open>
  Each nesting level costs at most two units of fuel and at least one character, so twice
  the length of the text is enough (\<open>json_fuel_enough\<close>).
\<close>

definition json_loads :: "string \<Rightarrow> json option" where
  "json_loads s =
     (case json_value (2 * length s + 2) (skip_ws s) of
        Some (v, r) \<Rightarrow> if skip_ws r = [] then Some v else None
      | None \<Rightarrow> None)"

lemma json_loads_examples:
  "json_loads '' {\"a\" : [1, -2], \"b\": true}'' =
    Some (JObj [(''a'', JList [JInt 1, JInt (-2)]), (''b'', JBool True)])"
  by code_simp

subsection \<open>The values the code can hold\<close>

text \<open>The keys of an object are distinct, and a float has the lexeme of a number.\<close>

fun json_ok :: "json \<Rightarrow> bool" where
  "json_ok (JFloat s) = (json_number s = Some (JFloat s, []))"
| "json_ok (JList vs) = list_all json_ok vs"
| "json_ok (JObj kvs) = (distinct (map fst kvs) \<and> list_all (\<lambda>kv. json_ok (snd kv)) kvs)"
| "json_ok _ = True"

subsection \<open>Digits\<close>

lemma is_digit_char_of: "k < 10 \<Longrightarrow> is_digit (char_of (48 + k :: nat))"
  by (simp add: is_digit_def)

lemma nat_digits_digits: "list_all is_digit (nat_digits n)"
proof (induction n rule: nat_digits.induct)
  case (1 n)
  then show ?case
    by (subst nat_digits.simps) (auto simp: is_digit_char_of)
qed

lemma nat_digits_not_Nil [simp]: "nat_digits n \<noteq> []"
  by (subst nat_digits.simps) simp

lemma digits_value_append: "digits_value (ds @ [c]) = digits_value ds * 10 + (of_char c - 48)"
  by (simp add: digits_value_def)

lemma digits_value_nat_digits [simp]: "digits_value (nat_digits n) = n"
proof (induction n rule: nat_digits.induct)
  case (1 n)
  show ?case
  proof (cases "n < 10")
    case True
    then show ?thesis by (subst nat_digits.simps) (simp add: digits_value_def)
  next
    case False
    with 1 show ?thesis by (subst nat_digits.simps) (simp add: digits_value_append)
  qed
qed

lemma nat_digits_leading_zero: "take 1 (nat_digits n) = ''0'' \<Longrightarrow> nat_digits n = ''0''"
proof (induction n rule: nat_digits.induct)
  case (1 n)
  show ?case
  proof (cases "n < 10")
    case True
    with "1.prems" show ?thesis by (subst nat_digits.simps) (subst (asm) nat_digits.simps, simp)
  next
    case False
    have "take 1 (nat_digits n) = take 1 (nat_digits (n div 10))"
      by (subst nat_digits.simps) (use False in \<open>simp add: take_Suc_conv_app_nth Suc_leI\<close>)
    with "1.prems" "1.IH" [OF False] have "nat_digits (n div 10) = ''0''" by simp
    then have "n div 10 = 0" using digits_value_nat_digits [of "n div 10"] by (simp add: digits_value_def)
    with False show ?thesis by simp
  qed
qed

text \<open>What may follow a value inside a serialisation.\<close>

definition json_delim :: "string \<Rightarrow> bool" where
  "json_delim r \<longleftrightarrow> r = [] \<or> hd r \<in> {CHR '','', CHR '']'', CHR ''}''}"

lemma takeWhile_digits_append:
  "json_delim r \<Longrightarrow> takeWhile is_digit (a @ r) = takeWhile is_digit a"
  by (induction a) (cases r; auto simp: json_delim_def is_digit_def)+

lemma json_parts_append:
  assumes "json_delim r"
  shows "json_int_part (a @ r) = json_int_part a"
    and "json_frac_part (a @ r) = json_frac_part a"
    and "json_exp_part (a @ r) = json_exp_part a"
proof -
  show "json_int_part (a @ r) = json_int_part a"
    by (simp add: json_int_part_def takeWhile_digits_append [OF assms])
  show "json_frac_part (a @ r) = json_frac_part a"
  proof (cases a)
    case Nil
    with assms show ?thesis by (cases r) (auto simp: json_delim_def json_frac_part_def)
  next
    case (Cons c cs)
    then show ?thesis by (simp add: json_frac_part_def takeWhile_digits_append [OF assms])
  qed
  show "json_exp_part (a @ r) = json_exp_part a"
  proof (cases a)
    case Nil
    with assms show ?thesis by (cases r) (auto simp: json_delim_def json_exp_part_def)
  next
    case (Cons c cs)
    show ?thesis
    proof (cases cs)
      case Nil
      with Cons assms show ?thesis
        by (cases r) (auto simp: json_exp_part_def json_delim_def is_digit_def)
    next
      case (Cons d ds)
      with \<open>a = c # cs\<close> show ?thesis
        using takeWhile_digits_append [OF assms, of ds] takeWhile_digits_append [OF assms, of "d # ds"]
        by (simp add: json_exp_part_def Let_def del: takeWhile.simps)
    qed
  qed
qed

lemma json_part_lengths:
  "length (json_int_part s) \<le> length s"
  "length (json_frac_part s) \<le> length s"
  "length (json_exp_part s) \<le> length s"
proof -
  have tw: "length (takeWhile P xs) \<le> length xs" for P :: "char \<Rightarrow> bool" and xs
    by (induction xs) auto
  have "0 < length s" if "takeWhile is_digit s \<noteq> []" using that by (cases s) auto
  then show "length (json_int_part s) \<le> length s" using tw [of is_digit s]
    by (auto simp: json_int_part_def Let_def intro!: Suc_leI)
  show "length (json_frac_part s) \<le> length s"
    using tw [of is_digit "drop 1 s"] by (cases s) (auto simp: json_frac_part_def Let_def)
  show "length (json_exp_part s) \<le> length s"
  proof (cases s)
    case (Cons c cs)
    then show ?thesis using tw [of is_digit cs] tw [of is_digit "drop 1 cs"]
      by (cases cs) (auto simp: json_exp_part_def Let_def)
  qed (simp add: json_exp_part_def)
qed

lemma json_unsigned_append:
  assumes "json_delim r" and "json_unsigned neg a = Some (v, b)"
  shows "json_unsigned neg (a @ r) = Some (v, b @ r)"
proof -
  let ?i = "json_int_part a"
  let ?a1 = "drop (length ?i) a"
  let ?f = "json_frac_part ?a1"
  let ?a2 = "drop (length ?i + length ?f) a"
  let ?e = "json_exp_part ?a2"
  have l1: "length ?i \<le> length a" by (rule json_part_lengths)
  have l2: "length ?f \<le> length ?a1" by (rule json_part_lengths)
  have l3: "length ?e \<le> length ?a2" by (rule json_part_lengths)
  have d1: "drop (length ?i) (a @ r) = ?a1 @ r" using l1 by simp
  have d2: "drop (length ?i + length ?f) (a @ r) = ?a2 @ r" using l1 l2 by simp
  have d3: "drop (length ?i + length ?f + length ?e) (a @ r) =
      drop (length ?i + length ?f + length ?e) a @ r" using l1 l2 l3 by simp
  show ?thesis
    using assms(2)
    unfolding json_unsigned_def Let_def json_parts_append [OF assms(1)] d1 d2 d3
    by (auto split: if_splits)
qed

lemma json_number_append:
  assumes "json_delim r" and "json_number a = Some (v, b)"
  shows "json_number (a @ r) = Some (v, b @ r)"
proof (cases a)
  case Nil
  with assms(2) show ?thesis by (simp add: json_number_def expect_def json_unsigned_def json_int_part_def)
next
  case (Cons c cs)
  with assms json_unsigned_append [OF assms(1), of False "c # cs"]
    json_unsigned_append [OF assms(1), of True cs] show ?thesis
    by (auto simp: json_number_def expect_def split: if_splits)
qed

text \<open>A number starts with a minus sign or a digit.\<close>

lemma json_number_start:
  assumes "json_number a = Some (v, b)"
  shows "\<exists>c cs. a = c # cs \<and> (c = CHR ''-'' \<or> is_digit c)"
proof (cases a)
  case Nil
  with assms show ?thesis by (simp add: json_number_def expect_def json_unsigned_def json_int_part_def)
next
  case (Cons c cs)
  have "is_digit c" if "c \<noteq> CHR ''-''"
    using assms Cons that
    by (auto simp: json_number_def expect_def json_unsigned_def json_int_part_def Let_def split: if_splits)
  with Cons show ?thesis by auto
qed

lemma json_number_int: "json_number (int_digits i) = Some (JInt i, [])"
proof -
  have tw: "takeWhile is_digit (nat_digits n) = nat_digits n" for n
    using nat_digits_digits [of n] by (simp add: list_all_iff takeWhile_eq_all_conv)
  have ip: "json_int_part (nat_digits n) = nat_digits n" for n
    using nat_digits_leading_zero [of n, symmetric] by (auto simp: json_int_part_def Let_def tw)
  have "json_unsigned neg (nat_digits n) = Some (JInt (if neg then - int n else int n), [])" for neg n
    by (simp add: json_unsigned_def ip Let_def json_frac_part_def json_exp_part_def)
  moreover have "expect (CHR ''-'') (nat_digits n) = None" for n
    using nat_digits_digits [of n] by (cases "nat_digits n") (auto simp: expect_def is_digit_def)
  ultimately show ?thesis by (auto simp: json_number_def int_digits_def expect_def)
qed

lemma json_atom_number:
  assumes "json_delim r" and "json_number a = Some (v, [])"
  shows "json_atom (a @ r) = Some (v, r)"
proof -
  obtain c cs where "a = c # cs" "c = CHR ''-'' \<or> is_digit c"
    using json_number_start [OF assms(2)] by blast
  then show ?thesis using json_number_append [OF assms]
    by (auto simp: json_atom_def is_digit_def)
qed

subsection \<open>Strings\<close>

lemma hex_value_hex_digit: "n < 16 \<Longrightarrow> hex_value (hex_digit n) = Some n"
  by (auto simp: hex_value_def hex_digit_def Let_def)

lemma hex_value_zero: "hex_value (CHR ''0'') = Some 0"
  by code_simp

lemma json_str_escape_control:
  assumes "(of_char c :: nat) < 32"
  shows "json_escape (CHR ''u'' # CHR ''0'' # CHR ''0'' # hex_digit (of_char c div 16) #
    hex_digit (of_char c mod 16) # r) = Some ([c], r)"
proof -
  have "hex4 (CHR ''0'' # CHR ''0'' # hex_digit (of_char c div 16) # hex_digit (of_char c mod 16) # r)
      = Some (of_char c, r)"
    using assms by (simp add: hex4_def hex_value_hex_digit hex_value_zero)
  then show ?thesis using assms by (simp add: json_escape_def utf8_encode_def)
qed

lemma json_str_escape_char:
  "json_str (escape_char c @ r) = map_option (apfst ((#) c)) (json_str r)"
proof (cases "(of_char c :: nat) < 32")
  case True
  then show ?thesis
    using json_str_escape_control [OF True, of r]
    by (auto simp: escape_char_def json_escape_def apfst_def map_prod_def)
next
  case False
  then show ?thesis
    by (auto simp: escape_char_def json_escape_def apfst_def map_prod_def)
qed

lemma json_str_dump:
  "json_str (concat (map escape_char s) @ CHR 0x22 # r) = Some (s, r)"
  by (induction s) (auto simp: json_str_escape_char)

subsection \<open>Parsing a serialisation gives back the value\<close>

lemma json_ws_skip [simp]: "\<not> json_ws c \<Longrightarrow> skip_ws (c # cs) = c # cs"
  by (simp add: skip_ws_def)

lemma skip_ws_Nil [simp]: "skip_ws [] = []"
  by (simp add: skip_ws_def)

lemma json_ws_simps [simp]:
  "\<not> json_ws (CHR '','')" "\<not> json_ws (CHR '':'')" "\<not> json_ws (CHR '']'')" "\<not> json_ws (CHR ''}'')"
  "\<not> json_ws (CHR ''{'')" "\<not> json_ws (CHR ''['')" "\<not> json_ws (CHR 0x22)"
  by (simp_all add: json_ws_def)

lemma expect_simps [simp]: "expect k [] = None" "expect k (c # cs) = (if c = k then Some cs else None)"
  by (simp_all add: expect_def)

lemma dump_str_expect [simp]: "expect (CHR 0x22) (dump_str k @ r) = Some (concat (map escape_char k) @ CHR 0x22 # r)"
  by (simp add: dump_str_def)

text \<open>No value starts with white space or with a closing bracket.\<close>

lemma json_number_start':
  assumes "json_number a = Some (v, b)"
  shows "skip_ws (a @ r) = a @ r \<and> expect (CHR '']'') (a @ r) = None"
  using json_number_start [OF assms] by (auto simp: json_ws_def is_digit_def skip_ws_def)

lemma json_dumps_start:
  assumes "json_ok v"
  shows "skip_ws (json_dumps v @ r) = json_dumps v @ r \<and> expect (CHR '']'') (json_dumps v @ r) = None"
proof (cases v)
  case (JInt i)
  then show ?thesis using json_number_start' [OF json_number_int] by simp
next
  case (JFloat s)
  then show ?thesis using assms json_number_start' by simp
qed (auto simp: dump_str_def skip_ws_def json_ws_def)

lemma dump_items_start:
  "vs \<noteq> [] \<Longrightarrow> list_all json_ok vs \<Longrightarrow>
    skip_ws (dump_items vs @ r) = dump_items vs @ r \<and> expect (CHR '']'') (dump_items vs @ r) = None"
  by (cases vs) (auto simp: json_dumps_start)

lemma dump_members_start:
  "kvs \<noteq> [] \<Longrightarrow>
    skip_ws (dump_members kvs @ r) = dump_members kvs @ r \<and> expect (CHR ''}'') (dump_members kvs @ r) = None"
  by (cases kvs) (auto simp: dump_str_def)

lemma json_delim_simps [simp]:
  "json_delim []" "json_delim (CHR '','' # r)" "json_delim (CHR '']'' # r)" "json_delim (CHR ''}'' # r)"
  by (simp_all add: json_delim_def)

lemma json_value_number:
  assumes "json_delim r" and "json_number a = Some (v, [])"
  shows "json_value (Suc n) (a @ r) = Some (v, r)"
proof -
  obtain c cs where i: "a = c # cs" and c: "c = CHR ''-'' \<or> is_digit c"
    using json_number_start [OF assms(2)] by blast
  have "c \<noteq> CHR 0x22 \<and> c \<noteq> CHR ''{'' \<and> c \<noteq> CHR ''[''" using c by (auto simp: is_digit_def)
  with i json_atom_number [OF assms] show ?thesis by simp
qed

lemma json_value_dumps:
  "json_ok v \<Longrightarrow> json_delim r \<Longrightarrow> 2 * length (json_dumps v) < n \<Longrightarrow>
    json_value n (json_dumps v @ r) = Some (v, r)"
  "list_all json_ok vs \<Longrightarrow> vs \<noteq> [] \<Longrightarrow> 2 * length (dump_items vs) + 1 < n \<Longrightarrow>
    json_items n (dump_items vs @ CHR '']'' # r) = Some (vs, r)"
  "list_all (\<lambda>kv. json_ok (snd kv)) kvs \<Longrightarrow> kvs \<noteq> [] \<Longrightarrow> 2 * length (dump_members kvs) + 1 < n \<Longrightarrow>
    json_members n (dump_members kvs @ CHR ''}'' # r) = Some (kvs, r)"
proof (induction v and vs and kvs arbitrary: n r and n r and n r
    rule: json_dumps_dump_items_dump_members.induct)
  case 1
  then show ?case by (cases n) (auto simp: json_atom_def)
next
  case (2 b)
  then show ?case by (cases n) (auto simp: json_atom_def)
next
  case (3 i)
  then show ?case
    by (cases n) (auto simp: json_value_number [OF _ json_number_int] simp del: json_value.simps)
next
  case (4 s)
  then show ?case by (cases n) (auto simp: json_value_number simp del: json_value.simps)
next
  case (5 s)
  then show ?case by (cases n) (auto simp: dump_str_def json_str_dump)
next
  case (6 vs)
  then obtain m where n: "n = Suc m" by (cases n) auto
  show ?case
  proof (cases "vs = []")
    case True
    with n show ?thesis by simp
  next
    case False
    with 6 n have "json_items m (dump_items vs @ CHR '']'' # r) = Some (vs, r)" by simp
    with n dump_items_start [OF False, of "CHR '']'' # r"] "6.prems" show ?thesis by simp
  qed
next
  case (7 kvs)
  then obtain m where n: "n = Suc m" by (cases n) auto
  show ?case
  proof (cases "kvs = []")
    case True
    with n show ?thesis by simp
  next
    case False
    with 7 n have "json_members m (dump_members kvs @ CHR ''}'' # r) = Some (kvs, r)" by simp
    with n dump_members_start [OF False, of "CHR ''}'' # r"] "7.prems" show ?thesis
      by (simp add: dict_of_pairs_distinct)
  qed
next
  case 8
  then show ?case by simp
next
  case (9 v vs)
  then obtain m where n: "n = Suc m" by (cases n) auto
  show ?case
  proof (cases "vs = []")
    case True
    with 9 n have "json_value m (json_dumps v @ CHR '']'' # r) = Some (v, CHR '']'' # r)" by simp
    with True n show ?thesis by simp
  next
    case False
    with 9 n have v: "json_value m (json_dumps v @ CHR '','' # dump_items vs @ CHR '']'' # r)
        = Some (v, CHR '','' # dump_items vs @ CHR '']'' # r)"
      and vs: "json_items m (dump_items vs @ CHR '']'' # r) = Some (vs, r)" by simp_all
    with False n dump_items_start [OF False, of "CHR '']'' # r"] "9.prems" show ?thesis by simp
  qed
next
  case 10
  then show ?case by simp
next
  case (11 k v kvs)
  then obtain m where n: "n = Suc m" by (cases n) auto
  show ?case
  proof (cases "kvs = []")
    case True
    with 11 n have "json_value m (json_dumps v @ CHR ''}'' # r) = Some (v, CHR ''}'' # r)" by simp
    with True n "11.prems" show ?thesis by (simp add: json_str_dump json_dumps_start)
  next
    case False
    with 11 n have v: "json_value m (json_dumps v @ CHR '','' # dump_members kvs @ CHR ''}'' # r)
        = Some (v, CHR '','' # dump_members kvs @ CHR ''}'' # r)"
      and kvs: "json_members m (dump_members kvs @ CHR ''}'' # r) = Some (kvs, r)" by simp_all
    with False n dump_members_start [OF False, of "CHR ''}'' # r"] "11.prems" show ?thesis
      by (simp add: json_str_dump json_dumps_start)
  qed
qed

lemma json_loads_dumps: "json_ok v \<Longrightarrow> json_loads (json_dumps v) = Some v"
  using json_value_dumps(1) [of v "[]" "2 * length (json_dumps v) + 2"] json_dumps_start [of v "[]"]
  by (simp add: json_loads_def)

subsection \<open>The fuel is enough\<close>

lemma skip_ws_length: "length (skip_ws s) \<le> length s"
  by (simp add: skip_ws_def length_dropWhile_le)

lemma expect_Some_length: "expect k s = Some r \<Longrightarrow> length s = Suc (length r)"
  by (cases s) (auto split: if_splits)

lemma json_unsigned_length: "json_unsigned neg s = Some (v, r) \<Longrightarrow> length r < length s"
  using json_part_lengths(1) [of s]
  by (cases "json_int_part s = []"; cases s) (auto simp: json_unsigned_def Let_def split: if_splits)

lemma json_number_length: "json_number s = Some (v, r) \<Longrightarrow> length r < length s"
  by (auto simp: json_number_def dest!: json_unsigned_length expect_Some_length split: option.splits)

lemma json_atom_length: "json_atom s = Some (v, r) \<Longrightarrow> length r < length s"
  by (auto simp: json_atom_def prefix_def dest!: json_number_length split: if_splits option.splits)

lemma json_value_length:
  "json_value n s = Some (v, r) \<Longrightarrow> length r < length s"
  "json_items n s = Some (vs, r) \<Longrightarrow> length r < length s"
  "json_members n s = Some (kvs, r) \<Longrightarrow> length r < length s"
proof (induction n s and n s and n s arbitrary: v r and vs r and kvs r
    rule: json_value_json_items_json_members.induct)
  case (2 n s)
  show ?case
  proof (cases s)
    case (Cons c cs)
    with 2 skip_ws_length [of cs] show ?thesis
      by (fastforce dest: json_atom_length json_str_length expect_Some_length
          split: if_splits option.splits)
  qed (use 2 in simp)
next
  case (4 n s)
  then obtain v1 r1 where v1: "json_value n s = Some (v1, r1)" by (auto split: option.splits)
  with "4.IH"(1) have l1: "length (skip_ws r1) < length s" using skip_ws_length [of r1] by fastforce
  show ?case
  proof (cases "expect (CHR '','') (skip_ws r1)")
    case None
    with 4 v1 l1 show ?thesis by (auto dest: expect_Some_length)
  next
    case (Some r2)
    with 4 v1 obtain ws where ws: "json_items n (skip_ws r2) = Some (ws, r)" by (auto simp: apfst_def)
    from "4.IH"(2) [OF v1 refl Some ws] skip_ws_length [of r2] expect_Some_length [OF Some] l1
    show ?thesis by simp
  qed
next
  case (6 n s)
  then obtain s1 k r0 where s1: "expect (CHR 0x22) s = Some s1" and k: "json_str s1 = Some (k, r0)"
    by (auto split: option.splits bind_splits)
  with 6 obtain r1 v1 r2 where r1: "expect (CHR '':'') (skip_ws r0) = Some r1"
    and v1: "json_value n (skip_ws r1) = Some (v1, r2)"
    by (auto split: option.splits bind_splits)
  have l: "length (skip_ws r2) < length s"
    using "6.IH"(1) [of "(k, r0)" k r0 r1 v1 r2] s1 k r1 v1 expect_Some_length [OF s1] json_str_length [OF k]
      expect_Some_length [OF r1] skip_ws_length [of r0] skip_ws_length [of r1] skip_ws_length [of r2]
    by simp
  show ?case
  proof (cases "expect (CHR '','') (skip_ws r2)")
    case None
    with 6 s1 k r1 v1 l show ?thesis by (auto dest: expect_Some_length)
  next
    case (Some r3)
    with 6 s1 k r1 v1 obtain ws where ws: "json_members n (skip_ws r3) = Some (ws, r)"
      by (auto simp: apfst_def)
    have "length r < length (skip_ws r3)"
      using "6.IH"(2) [of "(k, r0)" k r0 "(v1, r2)" v1 r2 r3 ws r] s1 k r1 v1 Some ws by simp
    with skip_ws_length [of r3] expect_Some_length [OF Some] l show ?thesis by simp
  qed
qed auto

lemma json_fuel_enough:
  "2 * length s < n \<Longrightarrow> json_value (n + m) s = json_value n s"
  "2 * length s + 1 < n \<Longrightarrow> json_items (n + m) s = json_items n s"
  "2 * length s + 1 < n \<Longrightarrow> json_members (n + m) s = json_members n s"
proof (induction n s and n s and n s rule: json_value_json_items_json_members.induct)
  case (2 n s)
  show ?case
  proof (cases s)
    case (Cons c cs)
    have "json_items (n + m) (skip_ws cs) = json_items n (skip_ws cs)"
      if "c = CHR ''[''" "expect (CHR '']'') (skip_ws cs) = None"
      using "2.IH"(2) [OF Cons] that "2.prems" Cons skip_ws_length [of cs] by simp
    moreover have "json_members (n + m) (skip_ws cs) = json_members n (skip_ws cs)"
      if "c = CHR ''{''" "expect (CHR ''}'') (skip_ws cs) = None"
      using "2.IH"(1) [OF Cons] that "2.prems" Cons skip_ws_length [of cs] by simp
    ultimately show ?thesis using Cons by (auto split: option.splits)
  qed simp
next
  case (4 n s)
  have v: "json_value (n + m) s = json_value n s" using 4 by simp
  have "json_items (n + m) (skip_ws r') = json_items n (skip_ws r')"
    if "json_value n s = Some (w, r)" "expect (CHR '','') (skip_ws r) = Some r'" for w r r'
    using "4.IH"(2) [OF that(1) refl that(2)] json_value_length(1) [OF that(1)] "4.prems"
      expect_Some_length [OF that(2)] skip_ws_length [of r] skip_ws_length [of r'] by simp
  with v show ?case by (auto split: option.splits)
next
  case (6 n s)
  show ?case
  proof (cases "Option.bind (expect (CHR 0x22) s) json_str")
    case (Some kr)
    obtain k r where kr: "kr = (k, r)" by (cases kr)
    from Some obtain s1 where s1: "expect (CHR 0x22) s = Some s1" and k: "json_str s1 = Some (k, r)"
      by (auto simp: kr split: bind_splits)
    have len: "length r < length s" using expect_Some_length [OF s1] json_str_length [OF k] by simp
    have v: "json_value (n + m) (skip_ws r1) = json_value n (skip_ws r1)"
      if "expect (CHR '':'') (skip_ws r) = Some r1" for r1
      using "6.IH"(1) [OF Some kr [symmetric] that] "6.prems" len expect_Some_length [OF that]
        skip_ws_length [of r] skip_ws_length [of r1] by simp
    have ms: "json_members (n + m) (skip_ws r3) = json_members n (skip_ws r3)"
      if "expect (CHR '':'') (skip_ws r) = Some r1" "json_value n (skip_ws r1) = Some (w, r2)"
        "expect (CHR '','') (skip_ws r2) = Some r3" for r1 w r2 r3
      using "6.IH"(2) [of "(k, r)" k r "(w, r2)" w r2 r3] Some kr that "6.prems" len
        expect_Some_length [OF that(1)] json_value_length(1) [OF that(2)] expect_Some_length [OF that(3)]
        skip_ws_length [of r] skip_ws_length [of r1] skip_ws_length [of r2] skip_ws_length [of r3]
      by simp
    show ?thesis
    proof (cases "expect (CHR '':'') (skip_ws r)")
      case None
      with Some kr show ?thesis by simp
    next
      case (Some r1)
      show ?thesis
      proof (cases "json_value n (skip_ws r1)")
        case None
        with Some v [OF Some] \<open>Option.bind (expect (CHR 0x22) s) json_str = Some kr\<close> kr
        show ?thesis by simp
      next
        case (Some w)
        obtain w1 r2 where w: "w = (w1, r2)" by (cases w)
        with Some v ms \<open>expect (CHR '':'') (skip_ws r) = Some r1\<close>
          \<open>Option.bind (expect (CHR 0x22) s) json_str = Some kr\<close> kr
        show ?thesis by (auto split: option.splits)
      qed
    qed
  qed simp
qed auto

subsection \<open>UTF-8\<close>

text \<open>
  \<open>bytes.decode("utf-8")\<close> accepts exactly the well-formed sequences.  The state is the
  list of byte ranges the current character still needs; \<open>None\<close> is a decoding error.
\<close>

definition utf8_lead :: "nat \<Rightarrow> (nat \<times> nat) list option" where
  "utf8_lead b =
     (if b < 128 then Some []
      else if 194 \<le> b \<and> b < 224 then Some [(128, 191)]
      else if b = 224 then Some [(160, 191), (128, 191)]
      else if b = 237 then Some [(128, 159), (128, 191)]
      else if 225 \<le> b \<and> b < 240 then Some [(128, 191), (128, 191)]
      else if b = 240 then Some [(144, 191), (128, 191), (128, 191)]
      else if 241 \<le> b \<and> b < 244 then Some [(128, 191), (128, 191), (128, 191)]
      else if b = 244 then Some [(128, 143), (128, 191), (128, 191)]
      else None)"

fun utf8_run :: "(nat \<times> nat) list \<Rightarrow> string \<Rightarrow> (nat \<times> nat) list option" where
  "utf8_run st [] = Some st"
| "utf8_run [] (c # cs) =
     (case utf8_lead (of_char c) of None \<Rightarrow> None | Some st \<Rightarrow> utf8_run st cs)"
| "utf8_run ((lo, hi) # st) (c # cs) =
     (if lo \<le> of_char c \<and> of_char c \<le> hi then utf8_run st cs else None)"

definition utf8_valid :: "string \<Rightarrow> bool" where
  "utf8_valid s \<longleftrightarrow> utf8_run [] s = Some []"

lemma utf8_run_append: "utf8_run st (a @ b) = Option.bind (utf8_run st a) (\<lambda>st'. utf8_run st' b)"
  by (induction st a rule: utf8_run.induct) (auto split: option.splits)

lemma utf8_valid_append [intro]: "utf8_valid a \<Longrightarrow> utf8_valid b \<Longrightarrow> utf8_valid (a @ b)"
  by (simp add: utf8_valid_def utf8_run_append)

lemma utf8_valid_Nil [simp]: "utf8_valid []"
  by (simp add: utf8_valid_def)

lemma utf8_valid_ascii: "list_all (\<lambda>c. (of_char c :: nat) < 128) s \<Longrightarrow> utf8_valid s"
  by (induction s) (auto simp: utf8_valid_def utf8_lead_def)

text \<open>The strings inside a value are strings: their code units are well formed.\<close>

fun json_utf8 :: "json \<Rightarrow> bool" where
  "json_utf8 (JStr s) = utf8_valid s"
| "json_utf8 (JList vs) = list_all json_utf8 vs"
| "json_utf8 (JObj kvs) = list_all (\<lambda>kv. utf8_valid (fst kv) \<and> json_utf8 (snd kv)) kvs"
| "json_utf8 _ = True"

text \<open>Escaping replaces single ASCII units, so it keeps well-formedness.\<close>

lemma utf8_run_ascii: "(of_char c :: nat) < 128 \<Longrightarrow> utf8_run [] (c # s) = utf8_run [] s"
  by (simp add: utf8_lead_def)

lemma escape_char_cases:
  "escape_char c = [c] \<or>
    ((of_char c :: nat) < 128 \<and> list_all (\<lambda>d. (of_char d :: nat) < 128) (escape_char c))"
  by (auto simp: escape_char_def hex_digit_def)

lemma utf8_run_continuation: "utf8_run ((lo, hi) # st) s = Some st' \<Longrightarrow> 128 \<le> lo \<Longrightarrow>
    s = [] \<or> 128 \<le> (of_char (hd s) :: nat)"
  by (cases s) (auto split: if_splits)

lemma utf8_lead_ranges: "utf8_lead b = Some st \<Longrightarrow> \<forall>(lo, hi) \<in> set st. 128 \<le> lo"
  by (auto simp: utf8_lead_def split: if_splits)

lemma utf8_run_escape:
  "utf8_run st s = Some st' \<Longrightarrow> \<forall>(lo, hi) \<in> set st. 128 \<le> lo \<Longrightarrow>
    utf8_run st (concat (map escape_char s)) = Some st'"
proof (induction st s rule: utf8_run.induct)
  case (2 c cs)
  show ?case
  proof (cases "escape_char c = [c]")
    case True
    with 2 show ?thesis by (auto split: option.splits dest: utf8_lead_ranges)
  next
    case False
    then have c: "(of_char c :: nat) < 128" and e: "utf8_valid (escape_char c)"
      using escape_char_cases [of c] by (auto intro: utf8_valid_ascii)
    then have "utf8_lead (of_char c) = Some []" by (simp add: utf8_lead_def)
    with 2 e show ?thesis by (simp add: utf8_run_append utf8_valid_def)
  qed
next
  case (3 lo hi st c cs)
  then have "128 \<le> (of_char c :: nat)" by (auto split: if_splits)
  then have "escape_char c = [c]" using escape_char_cases [of c] by auto
  with 3 show ?case by (auto split: if_splits)
qed auto

lemma utf8_valid_escape: "utf8_valid s \<Longrightarrow> utf8_valid (concat (map escape_char s))"
  using utf8_run_escape [of "[]" s "[]"] by (simp add: utf8_valid_def)

lemma utf8_valid_dump_str: "utf8_valid s \<Longrightarrow> utf8_valid (dump_str s)"
proof -
  assume "utf8_valid s"
  moreover have "utf8_valid [CHR 0x22]" by (rule utf8_valid_ascii) simp
  ultimately have "utf8_valid ([CHR 0x22] @ concat (map escape_char s) @ [CHR 0x22])"
    by (intro utf8_valid_append utf8_valid_escape)
  then show ?thesis by (simp add: dump_str_def)
qed

lemma takeWhile_digits_ascii: "list_all (\<lambda>c. (of_char c :: nat) < 128) (takeWhile is_digit t)"
  by (induction t) (auto simp: is_digit_def)

lemma json_parts_ascii:
  "list_all (\<lambda>c. (of_char c :: nat) < 128) (json_int_part t)"
  "list_all (\<lambda>c. (of_char c :: nat) < 128) (json_frac_part t)"
  "list_all (\<lambda>c. (of_char c :: nat) < 128) (json_exp_part t)"
  using takeWhile_digits_ascii
  by (auto simp: json_int_part_def json_frac_part_def json_exp_part_def Let_def)

lemma json_float_ascii:
  "json_number s = Some (JFloat s, []) \<Longrightarrow> list_all (\<lambda>c. (of_char c :: nat) < 128) s"
proof -
  have "json_unsigned neg t = Some (JFloat s, []) \<Longrightarrow> list_all (\<lambda>c. (of_char c :: nat) < 128) s" for neg t
    using json_parts_ascii by (auto simp: json_unsigned_def Let_def split: if_splits)
  then show "json_number s = Some (JFloat s, []) \<Longrightarrow> list_all (\<lambda>c. (of_char c :: nat) < 128) s"
    by (auto simp: json_number_def split: option.splits)
qed

lemma int_digits_ascii: "list_all (\<lambda>c. (of_char c :: nat) < 128) (int_digits i)"
proof -
  have "list_all (\<lambda>c. (of_char c :: nat) < 128) (nat_digits n)" for n
    using nat_digits_digits [of n] by (auto simp: list_all_iff is_digit_def)
  then show ?thesis by (simp add: int_digits_def)
qed

lemma utf8_valid_Cons_ascii: "(of_char c :: nat) < 128 \<Longrightarrow> utf8_valid s \<Longrightarrow> utf8_valid (c # s)"
  using utf8_valid_append [of "[c]" s] utf8_valid_ascii [of "[c]"] by simp

lemma utf8_valid_dumps:
  "json_ok v \<Longrightarrow> json_utf8 v \<Longrightarrow> utf8_valid (json_dumps v)"
  "list_all json_ok vs \<Longrightarrow> list_all json_utf8 vs \<Longrightarrow> utf8_valid (dump_items vs)"
  "list_all (\<lambda>kv. json_ok (snd kv)) kvs \<Longrightarrow>
    list_all (\<lambda>kv. utf8_valid (fst kv) \<and> json_utf8 (snd kv)) kvs \<Longrightarrow> utf8_valid (dump_members kvs)"
proof (induction v and vs and kvs rule: json_dumps_dump_items_dump_members.induct)
  case (3 i)
  then show ?case by (simp add: utf8_valid_ascii int_digits_ascii)
next
  case (4 s)
  then show ?case by (simp add: utf8_valid_ascii json_float_ascii)
qed (auto simp: utf8_valid_dump_str intro!: utf8_valid_Cons_ascii utf8_valid_append)

subsection \<open>The codec as an interface\<close>

text \<open>
  What the protocol and the checkpoints rely on: a serialisation is decodable text, and
  parsing it gives back the value.
\<close>

locale json_codec =
  fixes dumps :: "'v \<Rightarrow> string"
    and loads :: "string \<Rightarrow> 'v option"
    and text_ok :: "string \<Rightarrow> bool"
    and storable :: "'v \<Rightarrow> bool"
  assumes loads_dumps: "storable v \<Longrightarrow> loads (dumps v) = Some v"
    and dumps_text: "storable v \<Longrightarrow> text_ok (dumps v)"
begin

lemma dumps_inject: "storable v \<Longrightarrow> storable w \<Longrightarrow> dumps v = dumps w \<longleftrightarrow> v = w"
  using loads_dumps by (metis option.inject)

lemma loads_dumps_list:
  "list_all storable vs \<Longrightarrow> map (\<lambda>v. loads (dumps v)) vs = map Some vs"
  by (induction vs) (auto simp: loads_dumps)

end

definition json_storable :: "json \<Rightarrow> bool" where
  "json_storable v \<longleftrightarrow> json_ok v \<and> json_utf8 v"

interpretation compact_json: json_codec json_dumps json_loads utf8_valid json_storable
  by unfold_locales (auto simp: json_storable_def json_loads_dumps utf8_valid_dumps)

text \<open>The canonical serialisation stores the value with its keys sorted.\<close>

lemma distinct_fst_sort_key:
  "distinct (map fst kvs) \<Longrightarrow> distinct (map fst (sort_key fst (map (\<lambda>kv. (fst kv, g (snd kv))) kvs)))"
proof -
  let ?ys = "map (\<lambda>kv. (fst kv, g (snd kv))) kvs"
  assume "distinct (map fst kvs)"
  moreover have "map fst ?ys = map fst kvs" by simp
  ultimately have "distinct (map fst ?ys)" by (simp only:)
  then have "distinct ?ys" "inj_on fst (set ?ys)" unfolding distinct_map by blast+
  then show ?thesis unfolding distinct_map [of fst] by (simp only: set_sort distinct_sort)
qed

lemma json_ok_sort_keys: "json_ok v \<Longrightarrow> json_ok (sort_keys v)"
  by (induction v) (auto simp: list_all_iff distinct_fst_sort_key)

lemma json_utf8_sort_keys: "json_utf8 v \<Longrightarrow> json_utf8 (sort_keys v)"
  by (induction v) (auto simp: list_all_iff)

lemma canonical_json_loads: "json_ok v \<Longrightarrow> json_loads (canonical_json v) = Some (sort_keys v)"
  by (simp add: canonical_json_def json_loads_dumps json_ok_sort_keys)

text \<open>
  C28 The canonical serialisation identifies values up to the order of their keys: two
  storable values have the same canonical text exactly when they agree after sorting the
  keys at every level, and the text parses back to that sorted value.
\<close>

theorem canonical_json_faithful:
  assumes "json_storable v" and "json_storable w"
  shows "(canonical_json v = canonical_json w \<longleftrightarrow> sort_keys v = sort_keys w) \<and>
         json_loads (canonical_json v) = Some (sort_keys v)"
proof -
  have "json_storable (sort_keys v)" "json_storable (sort_keys w)"
    using assms by (auto simp: json_storable_def json_ok_sort_keys json_utf8_sort_keys)
  with compact_json.dumps_inject canonical_json_loads assms show ?thesis
    by (auto simp: canonical_json_def json_storable_def)
qed

theorem canonical_json_faithful_witness:
  "canonical_json (JObj [(''b'', JInt 1), (''a'', JNull)]) = canonical_json (JObj [(''a'', JNull), (''b'', JInt 1)])"
proof -
  have s: "json_storable (JObj [(''b'', JInt 1), (''a'', JNull)])"
    "json_storable (JObj [(''a'', JNull), (''b'', JInt 1)])" by code_simp+
  have "sort_keys (JObj [(''b'', JInt 1), (''a'', JNull)]) = sort_keys (JObj [(''a'', JNull), (''b'', JInt 1)])"
    by code_simp
  with canonical_json_faithful [OF s] show ?thesis by simp
qed

end
