(* ===== verification/Protocol.thy ===== *)
theory Protocol
  imports Json
begin

section \<open>The private Bridge protocol (\<open>openkb/engine/protocol.py\<close>)\<close>

text \<open>
  Framing: a big-endian 32-bit length and a JSON object.  The stream is an argument, its
  \<open>read\<close> an operation that returns at most what it is asked for; \<open>byte_stream\<close> states
  that contract, and a pipe that delivers its bytes in arbitrary pieces is the model that
  interprets it.  Then the validation of requests and of their parameters, every rejected
  shape included.
\<close>

subsection \<open>Frames\<close>

definition max_frame_bytes :: nat where
  "max_frame_bytes = 16 * 1024 * 1024"

text \<open>\<open>struct.pack(">I", n)\<close> and \<open>struct.unpack(">I", b)\<close>.\<close>

definition be32 :: "nat \<Rightarrow> string" where
  "be32 n = [char_of (n div 16777216), char_of (n div 65536 mod 256),
             char_of (n div 256 mod 256), char_of (n mod 256)]"

definition be32_value :: "string \<Rightarrow> nat" where
  "be32_value b = foldl (\<lambda>a c. a * 256 + of_char c) 0 b"

definition encode_frame :: "dict \<Rightarrow> string res" where
  "encode_frame payload =
     (let body = json_dumps (JObj payload) in
      if max_frame_bytes < length body then Inl (ProtocolError ''frame_too_large'')
      else Inr (be32 (length body) @ body))"

text \<open>\<open>FrameWriter.write_frame\<close> holds its lock from the encoding to the flush.\<close>

definition write_frame :: "string \<Rightarrow> dict \<Rightarrow> string res" where
  "write_frame out payload = res_bind (encode_frame payload) (\<lambda>frame. Inr (out @ frame))"

text \<open>\<open>FrameReader._read_exact\<close>: the loop stops because each chunk it appends is not empty.\<close>

function read_exact ::
  "('s \<Rightarrow> nat \<Rightarrow> string \<times> 's) \<Rightarrow> nat \<Rightarrow> bool \<Rightarrow> string \<Rightarrow> 's \<Rightarrow> string option res \<times> 's" where
  "read_exact read want allow_clean_eof buffer s =
     (if length buffer < want then
        (case read s (want - length buffer) of
           (chunk, s') \<Rightarrow>
             if chunk = [] then
               (if allow_clean_eof \<and> buffer = [] then (Inr None, s')
                else (Inl (ProtocolError ''truncated_frame''), s'))
             else read_exact read want allow_clean_eof (buffer @ chunk) s')
      else (Inr (Some buffer), s))"
  by pat_completeness auto
termination
  by (relation "measure (\<lambda>(read, want, a, buffer, s). want - length buffer)") (auto simp: neq_Nil_conv)

declare read_exact.simps [simp del]

definition decode_frame :: "string \<Rightarrow> dict res" where
  "decode_frame payload =
     (if \<not> utf8_valid payload then Inl (ProtocolError ''invalid_frame'')
      else case json_loads payload of
             None \<Rightarrow> Inl (ProtocolError ''invalid_frame'')
           | Some v \<Rightarrow> (case v of JObj d \<Rightarrow> Inr d | _ \<Rightarrow> Inl (ProtocolError ''invalid_frame'')))"

definition read_frame ::
  "('s \<Rightarrow> nat \<Rightarrow> string \<times> 's) \<Rightarrow> 's \<Rightarrow> dict option res \<times> 's" where
  "read_frame read s =
     (case read_exact read 4 True [] s of
        (Inl e, s1) \<Rightarrow> (Inl e, s1)
      | (Inr None, s1) \<Rightarrow> (Inr None, s1)
      | (Inr (Some pre), s1) \<Rightarrow>
          if max_frame_bytes < be32_value pre then (Inl (ProtocolError ''frame_too_large''), s1)
          else (case read_exact read (be32_value pre) False [] s1 of
                  (Inl e, s2) \<Rightarrow> (Inl e, s2)
                | (Inr None, s2) \<Rightarrow> (Inl AssertionError, s2)
                | (Inr (Some payload), s2) \<Rightarrow> (res_bind (decode_frame payload) (\<lambda>d. Inr (Some d)), s2)))"

text \<open>The caller's loop: at most \<open>n\<close> frames, up to the end of the stream or an error.\<close>

fun read_frames ::
  "nat \<Rightarrow> ('s \<Rightarrow> nat \<Rightarrow> string \<times> 's) \<Rightarrow> 's \<Rightarrow> dict list \<times> error option \<times> 's" where
  "read_frames 0 read s = ([], None, s)"
| "read_frames (Suc n) read s =
     (case read_frame read s of
        (Inl e, s1) \<Rightarrow> ([], Some e, s1)
      | (Inr None, s1) \<Rightarrow> ([], None, s1)
      | (Inr (Some d), s1) \<Rightarrow>
          (case read_frames n read s1 of (ds, err, s2) \<Rightarrow> (d # ds, err, s2)))"

subsection \<open>What a stream promises\<close>

text \<open>
  \<open>content s\<close> is what is left to read.  A read returns a prefix of it, no longer than
  asked, and returns nothing only when nothing is left.
\<close>

locale byte_stream =
  fixes read :: "'s \<Rightarrow> nat \<Rightarrow> string \<times> 's"
    and content :: "'s \<Rightarrow> string"
  assumes read_prefix: "read s n = (b, s') \<Longrightarrow> content s = b @ content s'"
    and read_bound: "read s n = (b, s') \<Longrightarrow> length b \<le> n"
    and read_eof: "read s n = ([], s') \<Longrightarrow> 0 < n \<Longrightarrow> content s = []"
begin

lemma read_chunk:
  assumes "read s n = (b, s')" and "0 < n" and "n \<le> length (content s)"
  shows "b \<noteq> [] \<and> take n (content s) = b @ take (n - length b) (content s') \<and>
    drop n (content s) = drop (n - length b) (content s') \<and>
    n - length b \<le> length (content s')"
proof -
  have c: "content s = b @ content s'" and l: "length b \<le> n"
    using read_prefix [OF assms(1)] read_bound [OF assms(1)] by auto
  have "b \<noteq> []" using read_eof [of s n s'] assms by auto
  with c l assms(3) show ?thesis by simp
qed

lemma read_exact_full:
  "length buf \<le> want \<Longrightarrow> want - length buf \<le> length (content s) \<Longrightarrow>
    \<exists>s'. read_exact read want a buf s = (Inr (Some (buf @ take (want - length buf) (content s))), s')
      \<and> content s' = drop (want - length buf) (content s)"
proof (induction "want - length buf" arbitrary: buf s rule: less_induct)
  case less
  show ?case
  proof (cases "length buf < want")
    case True
    obtain b s1 where b: "read s (want - length buf) = (b, s1)" by (cases "read s (want - length buf)")
    from read_chunk [OF b] True less.prems
    have ne: "b \<noteq> []"
      and tk: "take (want - length buf) (content s) = b @ take (want - length buf - length b) (content s1)"
      and dr: "drop (want - length buf) (content s) = drop (want - length buf - length b) (content s1)"
      and le: "want - length buf - length b \<le> length (content s1)" by auto
    have l: "length (buf @ b) \<le> want" using read_bound [OF b] less.prems by simp
    have smaller: "want - length (buf @ b) < want - length buf"
      using ne True by (cases b) auto
    have "want - length (buf @ b) \<le> length (content s1)" using le by simp
    from less.hyps [OF smaller l this] obtain s2 where "read_exact read want a (buf @ b) s1 =
        (Inr (Some ((buf @ b) @ take (want - length (buf @ b)) (content s1))), s2)"
      and "content s2 = drop (want - length (buf @ b)) (content s1)"
      by blast
    with b ne tk dr True show ?thesis by (subst read_exact.simps) simp
  qed (use less.prems in \<open>simp add: read_exact.simps\<close>)
qed

lemma read_exact_short:
  "length buf < want \<Longrightarrow> length (content s) < want - length buf \<Longrightarrow>
    \<exists>s'. read_exact read want a buf s =
      (if a \<and> buf = [] \<and> content s = [] then Inr None else Inl (ProtocolError ''truncated_frame''), s')"
proof (induction "want - length buf" arbitrary: buf s rule: less_induct)
  case less
  obtain b s1 where b: "read s (want - length buf) = (b, s1)" by (cases "read s (want - length buf)")
  have c: "content s = b @ content s1" by (rule read_prefix [OF b])
  show ?case
  proof (cases "b = []")
    case True
    with b read_eof less.prems have "content s = []" by auto
    with True b less.prems show ?thesis by (subst read_exact.simps) simp
  next
    case False
    then have smaller: "want - length (buf @ b) < want - length buf"
      using less.prems by (cases b) auto
    have l: "length (buf @ b) < want" "length (content s1) < want - length (buf @ b)"
      using c less.prems by simp_all
    from less.hyps [OF smaller l] False obtain s2 where "read_exact read want a (buf @ b) s1 =
        (Inl (ProtocolError ''truncated_frame''), s2)" by auto
    with False b c less.prems show ?thesis by (subst read_exact.simps) simp
  qed
qed

end

text \<open>A pipe: the pieces in which the bytes arrive, the empty ones skipped by a blocking read.\<close>

fun pipe_read :: "string list \<Rightarrow> nat \<Rightarrow> string \<times> string list" where
  "pipe_read [] n = ([], [])"
| "pipe_read (c # cs) n =
     (if c = [] then pipe_read cs n
      else if length c \<le> n then (c, cs)
      else (take n c, drop n c # cs))"

interpretation pipe: byte_stream pipe_read concat
proof
  show "pipe_read s n = (b, s') \<Longrightarrow> concat s = b @ concat s'" for s n b s'
    by (induction s n rule: pipe_read.induct) (auto split: if_splits)
  show "pipe_read s n = (b, s') \<Longrightarrow> length b \<le> n" for s n b s'
    by (induction s n rule: pipe_read.induct) (auto split: if_splits)
  show "pipe_read s n = ([], s') \<Longrightarrow> 0 < n \<Longrightarrow> concat s = []" for s n s'
    by (induction s n rule: pipe_read.induct) (auto split: if_splits)
qed

subsection \<open>Reading back what was written\<close>

lemma length_be32 [simp]: "length (be32 n) = 4"
  by (simp add: be32_def)

lemma be32_not_Nil [simp]: "be32 n \<noteq> []"
  by (simp add: be32_def)

lemma be32_value_be32: "n < 4294967296 \<Longrightarrow> be32_value (be32 n) = n"
proof -
  assume "n < 4294967296"
  then have "n div 16777216 < 256" by simp
  then have "be32_value (be32 n) =
      ((n div 16777216 * 256 + n div 65536 mod 256) * 256 + n div 256 mod 256) * 256 + n mod 256"
    by (simp add: be32_value_def be32_def)
  also have "n div 16777216 * 256 + n div 65536 mod 256 = n div 65536"
    using div_mult_mod_eq [of "n div 65536" 256] div_mult2_eq [of n 65536 256] by simp
  also have "n div 65536 * 256 + n div 256 mod 256 = n div 256"
    using div_mult_mod_eq [of "n div 256" 256] div_mult2_eq [of n 256 256] by simp
  also have "n div 256 * 256 + n mod 256 = n" by (rule div_mult_mod_eq)
  finally show ?thesis .
qed

text \<open>A payload the Engine can send: a JSON object it can hold, within the size limit.\<close>

definition sendable :: "dict \<Rightarrow> bool" where
  "sendable d \<longleftrightarrow> json_storable (JObj d) \<and> length (json_dumps (JObj d)) \<le> max_frame_bytes"

definition frame_bytes :: "dict \<Rightarrow> string" where
  "frame_bytes d = be32 (length (json_dumps (JObj d))) @ json_dumps (JObj d)"

lemma encode_frame_sendable: "sendable d \<Longrightarrow> encode_frame d = Inr (frame_bytes d)"
  by (simp add: encode_frame_def frame_bytes_def sendable_def Let_def)

lemma decode_frame_dumps: "sendable d \<Longrightarrow> decode_frame (json_dumps (JObj d)) = Inr d"
  using compact_json.loads_dumps [of "JObj d"] compact_json.dumps_text [of "JObj d"]
  by (simp add: decode_frame_def sendable_def)

context byte_stream
begin

lemma read_frame_bytes:
  assumes "sendable d" and "content s = frame_bytes d @ rest"
  shows "\<exists>s'. read_frame read s = (Inr (Some d), s') \<and> content s' = rest"
proof -
  let ?body = "json_dumps (JObj d)"
  have len: "be32_value (be32 (length ?body)) = length ?body"
    using assms(1) by (intro be32_value_be32) (simp add: sendable_def max_frame_bytes_def)
  obtain s1 where s1: "read_exact read 4 True [] s = (Inr (Some (be32 (length ?body))), s1)"
    "content s1 = ?body @ rest"
    using read_exact_full [of "[]" 4 s True] assms(2) by (auto simp: frame_bytes_def)
  obtain s2 where s2: "read_exact read (length ?body) False [] s1 = (Inr (Some ?body), s2)"
    "content s2 = rest"
    using read_exact_full [of "[]" "length ?body" s1 False] s1(2) by auto
  show ?thesis
    using s1 s2 len decode_frame_dumps [OF assms(1)] assms(1)
    by (simp add: read_frame_def sendable_def)
qed

lemma read_frame_end:
  assumes "content s = []"
  shows "\<exists>s'. read_frame read s = (Inr None, s')"
  using read_exact_short [of "[]" 4 s True] assms by (auto simp: read_frame_def)

lemma read_frames_bytes:
  "list_all sendable ds \<Longrightarrow> content s = concat (map frame_bytes ds) \<Longrightarrow> length ds < n \<Longrightarrow>
    \<exists>s'. read_frames n read s = (ds, None, s')"
proof (induction ds arbitrary: s n)
  case Nil
  with read_frame_end [of s] show ?case by (cases n) auto
next
  case (Cons d ds)
  then obtain m where n: "n = Suc m" by (cases n) auto
  from Cons.prems obtain s1 where s1: "read_frame read s = (Inr (Some d), s1)"
    "content s1 = concat (map frame_bytes ds)"
    using read_frame_bytes [of d s "concat (map frame_bytes ds)"] by auto
  with Cons.IH [of s1 m] Cons.prems n show ?case by auto
qed

lemma read_frame_truncated:
  assumes "sendable d" and "content s = take k (frame_bytes d)" and "0 < k" and "k < length (frame_bytes d)"
  shows "\<exists>s'. read_frame read s = (Inl (ProtocolError ''truncated_frame''), s')"
proof (cases "k < 4")
  case True
  with assms read_exact_short [of "[]" 4 s True] show ?thesis
    by (auto simp: read_frame_def frame_bytes_def)
next
  case False
  let ?body = "json_dumps (JObj d)"
  have len: "be32_value (be32 (length ?body)) = length ?body"
    using assms(1) by (intro be32_value_be32) (simp add: sendable_def max_frame_bytes_def)
  obtain s1 where s1: "read_exact read 4 True [] s = (Inr (Some (be32 (length ?body))), s1)"
    "content s1 = take (k - 4) ?body"
    using read_exact_full [of "[]" 4 s True] assms False by (auto simp: frame_bytes_def)
  have short: "length [] < length ?body" "length (content s1) < length ?body - length []"
    using s1(2) assms False by (auto simp: frame_bytes_def)
  obtain s2 where "read_exact read (length ?body) False [] s1 = (Inl (ProtocolError ''truncated_frame''), s2)"
    using read_exact_short [OF short, of False] by auto
  with s1 len assms(1) show ?thesis by (simp add: read_frame_def sendable_def)
qed

end

fun write_frames :: "string \<Rightarrow> dict list \<Rightarrow> string res" where
  "write_frames out [] = Inr out"
| "write_frames out (d # ds) = res_bind (write_frame out d) (\<lambda>out'. write_frames out' ds)"

lemma write_frames_sendable:
  "list_all sendable ds \<Longrightarrow> write_frames out ds = Inr (out @ concat (map frame_bytes ds))"
  by (induction ds arbitrary: out) (simp_all add: write_frame_def encode_frame_sendable)

text \<open>
  C0 Frames survive the pipe.  Whatever objects the Engine writes, in whatever pieces the
  operating system delivers the bytes (\<open>chunks\<close>, cut anywhere, inside a length prefix or
  a character too), the reader returns the same objects in the same order and then reports
  a clean end of the stream.
\<close>

theorem frames_roundtrip:
  assumes "list_all sendable ds" and "write_frames [] ds = Inr bytes"
    and "concat chunks = bytes" and "length ds < n"
  shows "\<exists>s'. read_frames n pipe_read chunks = (ds, None, s')"
  using assms by (intro pipe.read_frames_bytes) (auto simp: write_frames_sendable)

definition ping_payload :: dict where
  "ping_payload = [(''id'', JInt 7), (''ok'', JBool True)]"

lemma sendable_ping: "sendable ping_payload" "sendable []"
proof -
  have "json_storable (JObj ping_payload)" "json_storable (JObj [])" by code_simp+
  moreover have "json_dumps (JObj ping_payload) = ''{'' @ [CHR 0x22] @ ''id'' @ [CHR 0x22] @ '':7,'' @
      [CHR 0x22] @ ''ok'' @ [CHR 0x22] @ '':true}''" "json_dumps (JObj []) = ''{}''"
    by code_simp+
  ultimately show "sendable ping_payload" "sendable []"
    by (simp_all add: sendable_def max_frame_bytes_def)
qed

theorem frames_roundtrip_witness:
  "\<exists>s'. read_frames 3 pipe_read
      [take 2 (frame_bytes ping_payload), [], drop 2 (frame_bytes ping_payload) @ take 9 (frame_bytes []),
       drop 9 (frame_bytes [])] = ([ping_payload, []], None, s')"
proof -
  have "list_all sendable [ping_payload, []]" using sendable_ping by simp
  from frames_roundtrip [OF this write_frames_sendable [OF this, of "[]"],
      of "[take 2 (frame_bytes ping_payload), [], drop 2 (frame_bytes ping_payload) @ take 9 (frame_bytes []),
       drop 9 (frame_bytes [])]" 3]
  show ?thesis by simp
qed

text \<open>
  C0 A frame cut short is an error, never a shorter object: if the stream ends inside a
  frame, at any byte after its first, \<open>read_frame\<close> raises \<open>truncated_frame\<close>.
\<close>

theorem truncated_frame_rejected:
  assumes "sendable d" and "concat chunks = take k (frame_bytes d)"
    and "0 < k" and "k < length (frame_bytes d)"
  shows "\<exists>s'. read_frame pipe_read chunks = (Inl (ProtocolError ''truncated_frame''), s')"
  using assms by (rule pipe.read_frame_truncated)


theorem truncated_frame_rejected_witness:
  "\<exists>s'. read_frame pipe_read [take 2 (frame_bytes ping_payload), take 3 (drop 2 (frame_bytes ping_payload))] =
    (Inl (ProtocolError ''truncated_frame''), s')"
proof -
  have "json_dumps (JObj ping_payload) \<noteq> []" "length (json_dumps (JObj ping_payload)) \<noteq> Suc 0"
    by code_simp+
  then have l: "5 < length (frame_bytes ping_payload)"
    by (cases "json_dumps (JObj ping_payload)") (auto simp: frame_bytes_def)
  have "take 2 xs @ take 3 (drop 2 xs) = take 5 xs" for xs :: string
    using take_add [of 2 3 xs] by simp
  with truncated_frame_rejected [OF sendable_ping(1) _ _ l, of
      "[take 2 (frame_bytes ping_payload), take 3 (drop 2 (frame_bytes ping_payload))]"]
  show ?thesis by simp
qed

subsection \<open>Requests and their parameters\<close>

text \<open>\<open>DesktopRequest\<close>; its id is a JSON string or integer.\<close>

record desktop_request =
  request_id :: json
  request_method :: string
  request_params :: dict

definition parse_request :: "dict \<Rightarrow> desktop_request res" where
  "parse_request frame =
     (let request_id = dict_get frame ''id'';
          request_method = dict_get frame ''method'';
          params = dict_get_or frame ''params'' (JObj []) in
      if dict_get frame ''jsonrpc'' \<noteq> JStr ''2.0'' then Inl (RequestError ''invalid_request'')
      else if (case request_id of JStr _ \<Rightarrow> False | JInt _ \<Rightarrow> False | _ \<Rightarrow> True)
      then Inl (RequestError ''invalid_request'')
      else case request_method of
             JStr m \<Rightarrow>
               if m = [] then Inl (RequestError ''invalid_request'')
               else (case params of
                       JObj p \<Rightarrow> Inr \<lparr>request_id = request_id, request_method = m, request_params = p\<rparr>
                     | _ \<Rightarrow> Inl (RequestError ''invalid_params''))
           | _ \<Rightarrow> Inl (RequestError ''invalid_request''))"

definition str_of :: "json \<Rightarrow> string" where
  "str_of v = (case v of JStr s \<Rightarrow> s | _ \<Rightarrow> [])"

definition required_path_list_param :: "desktop_request \<Rightarrow> string \<Rightarrow> string list res" where
  "required_path_list_param req key =
     (case dict_get (request_params req) key of
        JList vs \<Rightarrow>
          if vs = [] \<or> \<not> list_all nonempty_str vs then Inl (RequestError ''invalid_params'')
          else Inr (map str_of vs)
      | _ \<Rightarrow> Inl (RequestError ''invalid_params''))"

definition required_string_param :: "desktop_request \<Rightarrow> string \<Rightarrow> string res" where
  "required_string_param req key =
     (let value = dict_get (request_params req) key in
      if \<not> nonempty_str value then Inl (RequestError ''invalid_params'') else Inr (str_of value))"

definition non_negative_int_param :: "desktop_request \<Rightarrow> string \<Rightarrow> int \<Rightarrow> int res" where
  "non_negative_int_param req key n0 =
     (case dict_get_or (request_params req) key (JInt n0) of
        JInt i \<Rightarrow> if i < 0 then Inl (RequestError ''invalid_params'') else Inr i
      | _ \<Rightarrow> Inl (RequestError ''invalid_params''))"

definition optional_object_param :: "desktop_request \<Rightarrow> string \<Rightarrow> dict option res" where
  "optional_object_param req key =
     (case dict_get (request_params req) key of
        JNull \<Rightarrow> Inr None
      | JObj d \<Rightarrow> if d = [] then Inl (RequestError ''invalid_params'') else Inr (Some d)
      | _ \<Rightarrow> Inl (RequestError ''invalid_params''))"

text \<open>
  \<open>x not in {...}\<close> on a set of strings: a list or a dict has no hash, so the test itself
  raises \<open>TypeError\<close>; any other value that is not one of the strings is not a member.
\<close>

definition in_string_set :: "json \<Rightarrow> string list \<Rightarrow> bool res" where
  "in_string_set v allowed =
     (case v of
        JList _ \<Rightarrow> Inl (TypeError ''unhashable type'')
      | JObj _ \<Rightarrow> Inl (TypeError ''unhashable type'')
      | JStr s \<Rightarrow> Inr (s \<in> set allowed)
      | _ \<Rightarrow> Inr False)"

text \<open>\<open>value is not None and value not in {...}\<close>, then the value as \<open>str | None\<close>.\<close>

definition optional_choice :: "json \<Rightarrow> string list \<Rightarrow> string option res" where
  "optional_choice v allowed =
     (if v = JNull then Inr None
      else res_bind (in_string_set v allowed) (\<lambda>b.
        if b then Inr (Some (str_of v)) else Inl (RequestError ''invalid_params'')))"

text \<open>\<open>DesktopRecoveryOverride\<close> (\<open>openkb/importing/types.py\<close>).\<close>

record recovery_override =
  ro_model :: "string option"
  ro_context_capacity :: "int option"
  ro_reasoning :: "string option"
  ro_legacy_recovery_choice :: "string option"
  ro_check_and_recover :: bool
  ro_parser_mode :: "string option"

abbreviation invalid_params :: "'a res" where
  "invalid_params \<equiv> Inl (RequestError ''invalid_params'')"

text \<open>The checks of \<open>recovery_override_param\<close>, field by field, in the order it makes them.\<close>

definition override_model :: "json \<Rightarrow> string option res" where
  "override_model v =
     (case v of
        JNull \<Rightarrow> Inr None
      | JStr m \<Rightarrow> if py_strip m = [] then invalid_params else Inr (Some (py_strip m))
      | _ \<Rightarrow> invalid_params)"

definition override_context :: "json \<Rightarrow> int option res" where
  "override_context v =
     (case v of
        JNull \<Rightarrow> Inr None
      | JInt n \<Rightarrow> if n < 4096 then invalid_params else Inr (Some n)
      | _ \<Rightarrow> invalid_params)"

definition override_check :: "json \<Rightarrow> bool res" where
  "override_check v = (case v of JBool b \<Rightarrow> Inr b | _ \<Rightarrow> invalid_params)"

definition override_parser_mode :: "json \<Rightarrow> string option res" where
  "override_parser_mode v =
     (case v of
        JNull \<Rightarrow> Inr None
      | JStr m \<Rightarrow> if m \<in> {''auto'', ''fast'', ''enhanced''} then Inr (Some m) else invalid_params
      | _ \<Rightarrow> invalid_params)"

definition override_of :: "dict \<Rightarrow> recovery_override res" where
  "override_of value =
     res_bind (override_model (dict_get value ''model'')) (\<lambda>model_value.
     res_bind (override_context
         (dict_get_or value ''context_capacity'' (dict_get value ''contextCapacity''))) (\<lambda>context_value.
     res_bind (optional_choice (dict_get value ''reasoning'')
         [''off'', ''low'', ''medium'', ''high'']) (\<lambda>reasoning_value.
     res_bind (optional_choice
         (dict_get_or value ''legacy_recovery_choice'' (dict_get value ''legacyRecoveryChoice''))
         [''continue_compatible'', ''restart_current_plan'']) (\<lambda>choice_value.
     res_bind (override_check
         (dict_get_or value ''check_and_recover''
            (dict_get_or value ''checkAndRecover'' (JBool False)))) (\<lambda>check_and_recover.
     res_bind (override_parser_mode
         (dict_get_or value ''parser_mode'' (dict_get value ''parserMode''))) (\<lambda>parser_mode.
     Inr \<lparr>ro_model = model_value, ro_context_capacity = context_value,
          ro_reasoning = reasoning_value, ro_legacy_recovery_choice = choice_value,
          ro_check_and_recover = check_and_recover, ro_parser_mode = parser_mode\<rparr>))))))"

definition recovery_override_param :: "desktop_request \<Rightarrow> recovery_override res" where
  "recovery_override_param req =
     (case dict_get_or (request_params req) ''recovery_override'' (JObj []) of
        JNull \<Rightarrow> override_of []
      | JObj value \<Rightarrow> override_of value
      | _ \<Rightarrow> invalid_params)"

lemma parse_request_Inr:
  "parse_request frame = Inr req \<longleftrightarrow>
     dict_get frame ''jsonrpc'' = JStr ''2.0'' \<and>
     dict_get frame ''id'' = request_id req \<and>
     (\<exists>s i. request_id req = JStr s \<or> request_id req = JInt i) \<and>
     dict_get frame ''method'' = JStr (request_method req) \<and> request_method req \<noteq> [] \<and>
     dict_get_or frame ''params'' (JObj []) = JObj (request_params req)"
  by (cases req) (auto simp: parse_request_def Let_def split: json.splits if_splits)

text \<open>
  Request validation.  A frame is accepted exactly when it is a JSON-RPC 2.0 object with
  a string or integer id (a boolean is no id), a non-empty string method and, if it has
  parameters, an object of them; what is accepted is what the frame said, and every other
  frame is answered with one of two error codes, never with an exception of another kind.
\<close>

theorem parse_request_correct:
  "(parse_request frame = Inr req \<longleftrightarrow>
     dict_get frame ''jsonrpc'' = JStr ''2.0'' \<and>
     dict_get frame ''id'' = request_id req \<and>
     (\<exists>s i. request_id req = JStr s \<or> request_id req = JInt i) \<and>
     dict_get frame ''method'' = JStr (request_method req) \<and> request_method req \<noteq> [] \<and>
     dict_get_or frame ''params'' (JObj []) = JObj (request_params req)) \<and>
   (\<exists>r. parse_request frame = Inr r \<or> parse_request frame = Inl (RequestError ''invalid_request'') \<or>
     parse_request frame = Inl (RequestError ''invalid_params''))"
proof
  show "\<exists>r. parse_request frame = Inr r \<or> parse_request frame = Inl (RequestError ''invalid_request'') \<or>
     parse_request frame = Inl (RequestError ''invalid_params'')"
    by (auto simp: parse_request_def Let_def split: json.splits)
qed (rule parse_request_Inr)

text \<open>What the settings of an accepted override satisfy.\<close>

definition override_ok :: "recovery_override \<Rightarrow> bool" where
  "override_ok ov \<longleftrightarrow>
     ro_model ov \<noteq> Some [] \<and>
     (case ro_context_capacity ov of None \<Rightarrow> True | Some n \<Rightarrow> 4096 \<le> n) \<and>
     (case ro_reasoning ov of None \<Rightarrow> True | Some r \<Rightarrow> r \<in> {''off'', ''low'', ''medium'', ''high''}) \<and>
     (case ro_legacy_recovery_choice ov of None \<Rightarrow> True
        | Some c \<Rightarrow> c \<in> {''continue_compatible'', ''restart_current_plan''}) \<and>
     (case ro_parser_mode ov of None \<Rightarrow> True | Some m \<Rightarrow> m \<in> {''auto'', ''fast'', ''enhanced''})"

lemma optional_choice_Inr:
  "optional_choice v allowed = Inr c \<longleftrightarrow>
     v = JNull \<and> c = None \<or> (\<exists>s. v = JStr s \<and> s \<in> set allowed \<and> c = Some s)"
  by (cases v) (auto simp: optional_choice_def in_string_set_def str_of_def)

lemma override_fields_Inr:
  "override_model v = Inr m \<longleftrightarrow>
     v = JNull \<and> m = None \<or> (\<exists>s. v = JStr s \<and> py_strip s \<noteq> [] \<and> m = Some (py_strip s))"
  "override_context v = Inr c \<longleftrightarrow>
     v = JNull \<and> c = None \<or> (\<exists>n. v = JInt n \<and> 4096 \<le> n \<and> c = Some n)"
  "override_check v = Inr b \<longleftrightarrow> v = JBool b"
  "override_parser_mode v = Inr p \<longleftrightarrow>
     v = JNull \<and> p = None \<or> (\<exists>s. v = JStr s \<and> s \<in> {''auto'', ''fast'', ''enhanced''} \<and> p = Some s)"
  by (auto simp: override_model_def override_context_def override_check_def
      override_parser_mode_def split: json.splits if_splits)

lemma override_fields_ok:
  "override_model v = Inr m \<Longrightarrow> m \<noteq> Some []"
  "override_context v = Inr c \<Longrightarrow> case c of None \<Rightarrow> True | Some n \<Rightarrow> 4096 \<le> n"
  "optional_choice v allowed = Inr r \<Longrightarrow> case r of None \<Rightarrow> True | Some x \<Rightarrow> x \<in> set allowed"
  "override_parser_mode v = Inr p \<Longrightarrow>
     case p of None \<Rightarrow> True | Some x \<Rightarrow> x \<in> {''auto'', ''fast'', ''enhanced''}"
  by (auto simp: override_fields_Inr optional_choice_Inr)

text \<open>The two errors a bad override ends in.\<close>

definition override_error :: "error \<Rightarrow> bool" where
  "override_error e \<longleftrightarrow> e = RequestError ''invalid_params'' \<or> e = TypeError ''unhashable type''"

lemma override_fields_Inl:
  "override_model v = Inl e \<Longrightarrow> override_error e"
  "override_context v = Inl e \<Longrightarrow> override_error e"
  "override_check v = Inl e \<Longrightarrow> override_error e"
  "optional_choice v allowed = Inl e \<Longrightarrow> override_error e"
  "override_parser_mode v = Inl e \<Longrightarrow> override_error e"
  by (auto simp: override_model_def override_context_def override_check_def override_error_def
      override_parser_mode_def optional_choice_def in_string_set_def split: json.splits if_splits)

lemma override_of_Inr:
  "override_of value = Inr ov \<longleftrightarrow>
     override_model (dict_get value ''model'') = Inr (ro_model ov) \<and>
     override_context (dict_get_or value ''context_capacity'' (dict_get value ''contextCapacity'')) =
       Inr (ro_context_capacity ov) \<and>
     optional_choice (dict_get value ''reasoning'') [''off'', ''low'', ''medium'', ''high''] =
       Inr (ro_reasoning ov) \<and>
     optional_choice
       (dict_get_or value ''legacy_recovery_choice'' (dict_get value ''legacyRecoveryChoice''))
       [''continue_compatible'', ''restart_current_plan''] = Inr (ro_legacy_recovery_choice ov) \<and>
     override_check (dict_get_or value ''check_and_recover''
       (dict_get_or value ''checkAndRecover'' (JBool False))) = Inr (ro_check_and_recover ov) \<and>
     override_parser_mode (dict_get_or value ''parser_mode'' (dict_get value ''parserMode'')) =
       Inr (ro_parser_mode ov)"
  by (cases ov) (auto simp: override_of_def res_bind_Inr_iff)

lemma override_of_ok: "override_of value = Inr ov \<Longrightarrow> override_ok ov"
  unfolding override_of_Inr override_ok_def
  by (elim conjE, (drule override_fields_ok)+) (simp only: list.set simp_thms)

lemma override_of_Inl: "override_of value = Inl e \<Longrightarrow> override_error e"
  unfolding override_of_def res_bind_Inl_iff using override_fields_Inl by blast

text \<open>
  C0 Recovery overrides.  What \<open>recovery_override_param\<close> lets through satisfies every bound
  the recovery relies on (a stripped non-empty model, a context of at least 4096 tokens, a
  known reasoning level, recovery path and parser mode); a missing or null override is the
  default one; and it raises nothing but \<open>invalid_params\<close>, except the \<open>TypeError\<close> that a
  list or an object as reasoning level or recovery path provokes.
\<close>

theorem recovery_override_checked:
  "(\<forall>ov. recovery_override_param req = Inr ov \<longrightarrow> override_ok ov) \<and>
   (\<forall>e. recovery_override_param req = Inl e \<longrightarrow> override_error e) \<and>
   (dict_get (request_params req) ''recovery_override'' = JNull \<longrightarrow>
      recovery_override_param req =
        Inr \<lparr>ro_model = None, ro_context_capacity = None, ro_reasoning = None,
             ro_legacy_recovery_choice = None, ro_check_and_recover = False, ro_parser_mode = None\<rparr>)"
proof (intro conjI allI impI)
  fix ov
  assume "recovery_override_param req = Inr ov"
  then show "override_ok ov"
    by (auto simp: recovery_override_param_def split: json.splits intro: override_of_ok)
next
  fix e
  assume "recovery_override_param req = Inl e"
  then show "override_error e"
    by (auto simp: recovery_override_param_def split: json.splits intro: override_of_Inl)
      (auto simp: override_error_def)
next
  have e: "override_of [] = Inr \<lparr>ro_model = None, ro_context_capacity = None, ro_reasoning = None,
      ro_legacy_recovery_choice = None, ro_check_and_recover = False, ro_parser_mode = None\<rparr>"
    by code_simp
  assume "dict_get (request_params req) ''recovery_override'' = JNull"
  then have "dict_get_or (request_params req) ''recovery_override'' (JObj []) \<in> {JNull, JObj []}"
    by (auto simp: dict_get_def dict_get_or_def split: option.splits)
  with e show "recovery_override_param req = Inr \<lparr>ro_model = None, ro_context_capacity = None,
      ro_reasoning = None, ro_legacy_recovery_choice = None, ro_check_and_recover = False,
      ro_parser_mode = None\<rparr>"
    by (auto simp: recovery_override_param_def)
qed

theorem recovery_override_checked_witness:
  "recovery_override_param \<lparr>request_id = JInt 1, request_method = ''m'', request_params =
     [(''recovery_override'', JObj [(''reasoning'', JList [])])]\<rparr> = Inl (TypeError ''unhashable type'') \<and>
   override_error (TypeError ''unhashable type'')"
proof -
  have r: "recovery_override_param \<lparr>request_id = JInt 1, request_method = ''m'', request_params =
     [(''recovery_override'', JObj [(''reasoning'', JList [])])]\<rparr> = Inl (TypeError ''unhashable type'')"
    by code_simp
  with recovery_override_checked [of "\<lparr>request_id = JInt 1, request_method = ''m'', request_params =
     [(''recovery_override'', JObj [(''reasoning'', JList [])])]\<rparr>"] show ?thesis by blast
qed

end
