(* ===== verification/OperationState.thy ===== *)
theory OperationState
  imports Prelude
begin

section \<open>Readiness of model operation contracts (\<open>openkb/models/operation_state.py\<close>)\<close>

text \<open>
  The store of the Knowledge Base that says which exact model operation contract may be
  dispatched.  Its three tables are a record of association lists; each method of
  \<open>DesktopModelOperationContractStore\<close> is one operation on it (they run one at a time
  under the ingest lock, in one transaction).  The abstract contract of the store, who may
  dispatch a suspended operation, is a small machine over sets; the refinement theorem
  says the tables implement it.
\<close>

subsection \<open>The tables\<close>

datatype contract_status = Unverified | Ready | Suspended

text \<open>\<open>_status\<close>, the reading of the stored text.\<close>

definition status_of_text :: "string \<Rightarrow> contract_status res" where
  "status_of_text t =
     (if t = ''unverified'' then Inr Unverified
      else if t = ''ready'' then Inr Ready
      else if t = ''suspended'' then Inr Suspended
      else Inl (ValueError ''Unknown Model Operation Contract status''))"

text \<open>Operation, capability identity and digest of the prompt contract: the primary key.\<close>

type_synonym contract = "string \<times> string \<times> string"

record contract_row =
  cr_status :: contract_status
  cr_failure_code :: "string option"
  cr_reason :: "string option"
  cr_failure_stage :: "string option"
  cr_failure_signature :: "string option"
  cr_created_at :: string
  cr_updated_at :: string
  cr_revision :: int

record contract_event =
  ev_contract :: contract
  ev_status :: contract_status
  ev_failure_code :: "string option"
  ev_failure_stage :: "string option"
  ev_failure_signature :: "string option"
  ev_created_at :: string

text \<open>A permit is keyed by its contract and scope and holds its \<open>suspension_revision\<close>.\<close>

record operation_db =
  op_states :: "(contract \<times> contract_row) list"
  op_permits :: "((contract \<times> string) \<times> int) list"
  op_events :: "contract_event list"

definition operation_db_empty :: operation_db where
  "operation_db_empty = \<lparr>op_states = [], op_permits = [], op_events = []\<rparr>"

subsection \<open>Admission\<close>

definition permit_current :: "operation_db \<Rightarrow> contract \<Rightarrow> string \<Rightarrow> int \<Rightarrow> bool" where
  "permit_current db c retry_scope revision \<longleftrightarrow>
     map_of (op_permits db) (c, retry_scope) = Some revision"

definition dispatch_admitted_in :: "operation_db \<Rightarrow> contract \<Rightarrow> string option \<Rightarrow> bool" where
  "dispatch_admitted_in db c retry_scope =
     (case map_of (op_states db) c of
        None \<Rightarrow> True
      | Some row \<Rightarrow>
          if cr_status row \<noteq> Suspended then True
          else (case retry_scope of
                  None \<Rightarrow> False
                | Some sc \<Rightarrow> permit_current db c sc (cr_revision row)))"

text \<open>Both callers apply the same rule; neither changes the tables.\<close>

definition dispatch_possible :: "operation_db \<Rightarrow> contract \<Rightarrow> string option \<Rightarrow> bool" where
  "dispatch_possible db c retry_scope = dispatch_admitted_in db c retry_scope"

definition claim_dispatch ::
  "operation_db \<Rightarrow> contract \<Rightarrow> string option \<Rightarrow> bool \<times> operation_db" where
  "claim_dispatch db c retry_scope = (dispatch_admitted_in db c retry_scope, db)"

definition contract_state :: "operation_db \<Rightarrow> contract \<Rightarrow>
    contract_status \<times> string option \<times> string option \<times> string option \<times> string option" where
  "contract_state db c =
     (case map_of (op_states db) c of
        None \<Rightarrow> (Unverified, None, None, None, None)
      | Some row \<Rightarrow> (cr_status row, cr_failure_code row, cr_reason row, cr_failure_stage row,
                    cr_failure_signature row))"

subsection \<open>Permits\<close>

definition authorize_retry_in ::
  "contract \<Rightarrow> string \<Rightarrow> operation_db \<Rightarrow> (bool \<times> operation_db) res" where
  "authorize_retry_in c retry_scope db =
     (if retry_scope = [] then Inl (ValueError ''Model operation retry scope must not be empty.'')
      else case map_of (op_states db) c of
             None \<Rightarrow> Inr (False, db)
           | Some row \<Rightarrow>
               if cr_status row \<noteq> Suspended then Inr (False, db)
               else let db' = (case map_of (op_permits db) (c, retry_scope) of
                                 Some _ \<Rightarrow> db
                               | None \<Rightarrow> db\<lparr>op_permits := op_permits db @ [((c, retry_scope), cr_revision row)]\<rparr>)
                    in Inr (permit_current db' c retry_scope (cr_revision row), db'))"

definition authorize_retry ::
  "contract \<Rightarrow> string \<Rightarrow> operation_db \<Rightarrow> (bool \<times> operation_db) res" where
  "authorize_retry c retry_scope db =
     (if retry_scope = [] then Inl (ValueError ''Model operation retry scope must not be empty.'')
      else authorize_retry_in c retry_scope db)"

fun authorize_contracts :: "contract list \<Rightarrow> string \<Rightarrow> operation_db \<Rightarrow> operation_db res" where
  "authorize_contracts [] retry_scope db = Inr db"
| "authorize_contracts (c # cs) retry_scope db =
     res_bind (authorize_retry_in c retry_scope db) (\<lambda>(_, db'). authorize_contracts cs retry_scope db')"

definition authorize_retry_group ::
  "string \<Rightarrow> contract list \<Rightarrow> operation_db \<Rightarrow> operation_db res" where
  "authorize_retry_group retry_scope contracts db =
     (if retry_scope = [] then Inl (ValueError ''Model operation retry scope must not be empty.'')
      else authorize_contracts contracts retry_scope db)"

definition revoke_retry_scope :: "string \<Rightarrow> operation_db \<Rightarrow> operation_db" where
  "revoke_retry_scope retry_scope db =
     db\<lparr>op_permits := filter (\<lambda>kv. snd (fst kv) \<noteq> retry_scope) (op_permits db)\<rparr>"

subsection \<open>Writing a state\<close>

text \<open>\<open>UPDATE .. SET failure_signature = NULL\<close> for the other digests of the operation.\<close>

definition clear_signature :: "contract \<Rightarrow> contract \<Rightarrow> contract_row \<Rightarrow> contract_row" where
  "clear_signature c k row =
     (if fst k = fst c \<and> fst (snd k) = fst (snd c) \<and> snd (snd k) \<noteq> snd (snd c)
      then row\<lparr>cr_failure_signature := None\<rparr> else row)"

definition upsert_row ::
  "string \<Rightarrow> contract \<Rightarrow> contract_status \<Rightarrow> string option \<Rightarrow> string option \<Rightarrow> string option \<Rightarrow>
    string option \<Rightarrow> (contract \<times> contract_row) list \<Rightarrow> (contract \<times> contract_row) list" where
  "upsert_row now c status failure_code reason stage signature rows =
     AList.update c
       (case map_of rows c of
          None \<Rightarrow> \<lparr>cr_status = status, cr_failure_code = failure_code, cr_reason = reason,
                   cr_failure_stage = stage, cr_failure_signature = signature,
                   cr_created_at = now, cr_updated_at = now, cr_revision = 1\<rparr>
        | Some row \<Rightarrow> row\<lparr>cr_status := status, cr_failure_code := failure_code, cr_reason := reason,
                   cr_failure_stage := stage, cr_failure_signature := signature,
                   cr_updated_at := now, cr_revision := cr_revision row + 1\<rparr>) rows"

text \<open>\<open>SELECT COUNT(DISTINCT operation)\<close> of the suspensions with one signature.\<close>

definition suspended_operations :: "string \<Rightarrow> string \<Rightarrow> (contract \<times> contract_row) list \<Rightarrow> string list" where
  "suspended_operations capability signature rows =
     uniq (map (fst \<circ> fst)
       (filter (\<lambda>kv. fst (snd (fst kv)) = capability \<and> cr_failure_signature (snd kv) = Some signature \<and>
          cr_status (snd kv) = Suspended) rows))"

text \<open>Whether \<open>_write\<close> returns \<open>-1\<close> before it touches a row.\<close>

definition write_refused :: "operation_db \<Rightarrow> contract \<Rightarrow> bool \<Rightarrow> string option \<Rightarrow> bool" where
  "write_refused db c preserve_suspension retry_scope =
     (if preserve_suspension \<or> retry_scope \<noteq> None
      then (case map_of (op_states db) c of
              None \<Rightarrow> False
            | Some row \<Rightarrow>
                cr_status row = Suspended \<and>
                (preserve_suspension \<or>
                 (case retry_scope of
                    None \<Rightarrow> True
                  | Some sc \<Rightarrow> \<not> permit_current db c sc (cr_revision row))))
      else False)"

definition write_apply ::
  "string \<Rightarrow> contract \<Rightarrow> contract_status \<Rightarrow> string option \<Rightarrow> string option \<Rightarrow> string option \<Rightarrow>
    string option \<Rightarrow> operation_db \<Rightarrow> operation_db" where
  "write_apply now c status failure_code reason stage signature db =
     \<lparr>op_states = upsert_row now c status failure_code reason stage signature
        (map (\<lambda>kv. (fst kv, clear_signature c (fst kv) (snd kv))) (op_states db)),
      op_permits = (if status \<noteq> Suspended
        then filter (\<lambda>kv. fst (fst kv) \<noteq> c) (op_permits db) else op_permits db),
      op_events = op_events db @
        [\<lparr>ev_contract = c, ev_status = status, ev_failure_code = failure_code,
          ev_failure_stage = stage, ev_failure_signature = signature, ev_created_at = now\<rparr>]\<rparr>"

definition op_write ::
  "string \<Rightarrow> contract \<Rightarrow> contract_status \<Rightarrow> string option \<Rightarrow> string option \<Rightarrow> string option \<Rightarrow>
    string option \<Rightarrow> bool \<Rightarrow> string option \<Rightarrow> operation_db \<Rightarrow> (int \<times> operation_db) res" where
  "op_write now c status failure_code reason stage signature preserve_suspension retry_scope db =
     (if preserve_suspension \<and> retry_scope \<noteq> None
      then Inl (ValueError ''Retry-scoped readiness cannot also preserve every suspension.'')
      else if write_refused db c preserve_suspension retry_scope then Inr (- 1, db)
      else let db' = write_apply now c status failure_code reason stage signature db in
           Inr (case signature of
                  None \<Rightarrow> 0
                | Some sg \<Rightarrow> int (length (suspended_operations (fst (snd c)) sg (op_states db'))), db'))"

definition op_suspend ::
  "string \<Rightarrow> contract \<Rightarrow> string \<Rightarrow> string \<Rightarrow> string \<Rightarrow> string option \<Rightarrow> operation_db \<Rightarrow>
    (int \<times> operation_db) res" where
  "op_suspend now c failure_code reason stage signature db =
     op_write now c Suspended (Some failure_code) (Some reason) (Some stage) signature False None db"

definition mark_ready :: "string \<Rightarrow> contract \<Rightarrow> operation_db \<Rightarrow> operation_db res" where
  "mark_ready now c db =
     res_bind (op_write now c Ready None None None None False None db) (\<lambda>(_, db'). Inr db')"

definition mark_ready_unless_suspended ::
  "string \<Rightarrow> contract \<Rightarrow> operation_db \<Rightarrow> (bool \<times> operation_db) res" where
  "mark_ready_unless_suspended now c db =
     res_bind (op_write now c Ready None None None None True None db) (\<lambda>(n, db'). Inr (0 \<le> n, db'))"

definition mark_ready_for_retry ::
  "string \<Rightarrow> contract \<Rightarrow> string \<Rightarrow> operation_db \<Rightarrow> (bool \<times> operation_db) res" where
  "mark_ready_for_retry now c retry_scope db =
     (if retry_scope = [] then Inl (ValueError ''Model operation retry scope must not be empty.'')
      else res_bind (op_write now c Ready None None None None False (Some retry_scope) db)
             (\<lambda>(n, db'). Inr (0 \<le> n, db')))"

definition mark_unverified :: "string \<Rightarrow> contract \<Rightarrow> operation_db \<Rightarrow> operation_db res" where
  "mark_unverified now c db =
     res_bind (op_write now c Unverified None None None None False None db) (\<lambda>(_, db'). Inr db')"

subsection \<open>The store as a sequence of actions\<close>

datatype op_command =
    Op_Suspend contract string string string "string option"
  | Op_Ready contract
  | Op_Ready_Unless contract
  | Op_Ready_Retry contract string
  | Op_Unverify contract
  | Op_Authorize contract string
  | Op_Group string "contract list"
  | Op_Revoke string

text \<open>The answer of a method that returns no boolean is \<open>True\<close>.\<close>

fun op_exec :: "string \<Rightarrow> op_command \<Rightarrow> operation_db \<Rightarrow> (bool \<times> operation_db) res" where
  "op_exec now (Op_Suspend c code reason stage sg) db =
     res_bind (op_suspend now c code reason stage sg db) (\<lambda>(_, db'). Inr (True, db'))"
| "op_exec now (Op_Ready c) db = res_bind (mark_ready now c db) (\<lambda>db'. Inr (True, db'))"
| "op_exec now (Op_Ready_Unless c) db = mark_ready_unless_suspended now c db"
| "op_exec now (Op_Ready_Retry c sc) db = mark_ready_for_retry now c sc db"
| "op_exec now (Op_Unverify c) db = res_bind (mark_unverified now c db) (\<lambda>db'. Inr (True, db'))"
| "op_exec now (Op_Authorize c sc) db = authorize_retry c sc db"
| "op_exec now (Op_Group sc cs) db =
     res_bind (authorize_retry_group sc cs db) (\<lambda>db'. Inr (True, db'))"
| "op_exec now (Op_Revoke sc) db = Inr (True, revoke_retry_scope sc db)"

text \<open>A command that raises leaves the tables as they were (its transaction rolls back).\<close>

definition op_next :: "string \<Rightarrow> op_command \<Rightarrow> operation_db \<Rightarrow> operation_db" where
  "op_next now cmd db = (case op_exec now cmd db of Inl _ \<Rightarrow> db | Inr (_, db') \<Rightarrow> db')"

definition op_run :: "(string \<times> op_command) list \<Rightarrow> operation_db \<Rightarrow> operation_db" where
  "op_run cmds db = fold (\<lambda>(now, cmd). op_next now cmd) cmds db"

subsection \<open>The abstract gate\<close>

text \<open>
  For every contract its status, the scopes that may retry its current suspension
  (\<open>g_live\<close>), and the scopes bound to an earlier one (\<open>g_stale\<close>), which cannot be bound
  again until they are revoked or the contract leaves its suspension.
\<close>

record gate =
  g_status :: "contract \<rightharpoonup> contract_status"
  g_live :: "(contract \<times> string) set"
  g_stale :: "(contract \<times> string) set"

definition gate_admits :: "gate \<Rightarrow> contract \<Rightarrow> string option \<Rightarrow> bool" where
  "gate_admits g c sc \<longleftrightarrow>
     g_status g c \<noteq> Some Suspended \<or> (case sc of None \<Rightarrow> False | Some s \<Rightarrow> (c, s) \<in> g_live g)"

definition gate_write :: "contract \<Rightarrow> contract_status \<Rightarrow> gate \<Rightarrow> gate" where
  "gate_write c st g =
     \<lparr>g_status = (g_status g)(c \<mapsto> st),
      g_live = {x \<in> g_live g. fst x \<noteq> c},
      g_stale = {x \<in> g_stale g. fst x \<noteq> c} \<union>
        (if st = Suspended then {x \<in> g_live g \<union> g_stale g. fst x = c} else {})\<rparr>"

definition gate_authorize :: "contract \<Rightarrow> string \<Rightarrow> gate \<Rightarrow> bool \<times> gate" where
  "gate_authorize c sc g =
     (if g_status g c \<noteq> Some Suspended \<or> (c, sc) \<in> g_stale g then (False, g)
      else (True, g\<lparr>g_live := insert (c, sc) (g_live g)\<rparr>))"

fun gate_exec :: "op_command \<Rightarrow> gate \<Rightarrow> (bool \<times> gate) res" where
  "gate_exec (Op_Suspend c code reason stage sg) g = Inr (True, gate_write c Suspended g)"
| "gate_exec (Op_Ready c) g = Inr (True, gate_write c Ready g)"
| "gate_exec (Op_Unverify c) g = Inr (True, gate_write c Unverified g)"
| "gate_exec (Op_Ready_Unless c) g =
     Inr (if gate_admits g c None then (True, gate_write c Ready g) else (False, g))"
| "gate_exec (Op_Ready_Retry c sc) g =
     (if sc = [] then Inl (ValueError ''Model operation retry scope must not be empty.'')
      else Inr (if gate_admits g c (Some sc) then (True, gate_write c Ready g) else (False, g)))"
| "gate_exec (Op_Authorize c sc) g =
     (if sc = [] then Inl (ValueError ''Model operation retry scope must not be empty.'')
      else Inr (gate_authorize c sc g))"
| "gate_exec (Op_Group sc cs) g =
     (if sc = [] then Inl (ValueError ''Model operation retry scope must not be empty.'')
      else Inr (True, fold (\<lambda>c g. snd (gate_authorize c sc g)) cs g))"
| "gate_exec (Op_Revoke sc) g =
     Inr (True, g\<lparr>g_live := {x \<in> g_live g. snd x \<noteq> sc}, g_stale := {x \<in> g_stale g. snd x \<noteq> sc}\<rparr>)"

text \<open>What the tables mean.\<close>

definition gate_of :: "operation_db \<Rightarrow> gate" where
  "gate_of db =
     \<lparr>g_status = (\<lambda>c. map_option cr_status (map_of (op_states db) c)),
      g_live = {x. \<exists>row. map_of (op_states db) (fst x) = Some row \<and>
                  map_of (op_permits db) x = Some (cr_revision row)},
      g_stale = {x. \<exists>row r. map_of (op_states db) (fst x) = Some row \<and>
                  map_of (op_permits db) x = Some r \<and> r \<noteq> cr_revision row}\<rparr>"

text \<open>
  The tables are well-formed: primary keys are unique, every permit belongs to a state and
  was bound to its present revision or an earlier one.
\<close>

definition op_ok :: "operation_db \<Rightarrow> bool" where
  "op_ok db \<longleftrightarrow>
     distinct (map fst (op_states db)) \<and> distinct (map fst (op_permits db)) \<and>
     (\<forall>x r. map_of (op_permits db) x = Some r \<longrightarrow>
        (\<exists>row. map_of (op_states db) (fst x) = Some row \<and> r \<le> cr_revision row))"

lemma op_ok_permit:
  "op_ok db \<Longrightarrow> map_of (op_permits db) x = Some r \<Longrightarrow>
    \<exists>row. map_of (op_states db) (fst x) = Some row \<and> r \<le> cr_revision row"
  unfolding op_ok_def by blast

lemma op_ok_empty: "op_ok operation_db_empty"
  by (simp add: op_ok_def operation_db_empty_def)

lemma gate_of_admits: "dispatch_admitted_in db c sc \<longleftrightarrow> gate_admits (gate_of db) c sc"
  by (auto simp: dispatch_admitted_in_def gate_admits_def gate_of_def permit_current_def
      split: option.splits)

lemma gate_of_refused:
  "write_refused db c True None \<longleftrightarrow> \<not> gate_admits (gate_of db) c None"
  "write_refused db c False (Some sc) \<longleftrightarrow> \<not> gate_admits (gate_of db) c (Some sc)"
  "\<not> write_refused db c False None"
  by (auto simp: write_refused_def gate_of_admits [symmetric] dispatch_admitted_in_def
      split: option.splits)

subsection \<open>Writing\<close>

lemma map_of_upsert_row:
  "map_of (upsert_row now c st code reason stage sg rows) k =
     (if k = c then Some
        (case map_of rows c of
          None \<Rightarrow> \<lparr>cr_status = st, cr_failure_code = code, cr_reason = reason,
                   cr_failure_stage = stage, cr_failure_signature = sg,
                   cr_created_at = now, cr_updated_at = now, cr_revision = 1\<rparr>
        | Some row \<Rightarrow> row\<lparr>cr_status := st, cr_failure_code := code, cr_reason := reason,
                   cr_failure_stage := stage, cr_failure_signature := sg,
                   cr_updated_at := now, cr_revision := cr_revision row + 1\<rparr>)
      else map_of rows k)"
  by (simp add: upsert_row_def update_conv')

lemma clear_signature_fields [simp]:
  "cr_status (clear_signature c k row) = cr_status row"
  "cr_revision (clear_signature c k row) = cr_revision row"
  by (simp_all add: clear_signature_def)

lemma write_apply_row:
  "map_of (op_states (write_apply now c st code reason stage sg db)) k =
     (if k = c then Some
        (case map_of (op_states db) c of
          None \<Rightarrow> \<lparr>cr_status = st, cr_failure_code = code, cr_reason = reason,
                   cr_failure_stage = stage, cr_failure_signature = sg,
                   cr_created_at = now, cr_updated_at = now, cr_revision = 1\<rparr>
        | Some row \<Rightarrow> row\<lparr>cr_status := st, cr_failure_code := code, cr_reason := reason,
                   cr_failure_stage := stage, cr_failure_signature := sg,
                   cr_updated_at := now, cr_revision := cr_revision row + 1\<rparr>)
      else map_option (clear_signature c k) (map_of (op_states db) k))"
  unfolding write_apply_def operation_db.simps map_of_upsert_row map_of_map_row
  by (cases "map_of (op_states db) c") (simp_all add: clear_signature_def)

lemma write_apply_states:
  "map_option cr_status (map_of (op_states (write_apply now c st code reason stage sg db)) k) =
     (if k = c then Some st else map_option cr_status (map_of (op_states db) k))"
  "map_option cr_revision (map_of (op_states (write_apply now c st code reason stage sg db)) k) =
     (if k = c then Some (case map_of (op_states db) c of None \<Rightarrow> 1 | Some row \<Rightarrow> cr_revision row + 1)
      else map_option cr_revision (map_of (op_states db) k))"
  unfolding write_apply_row
  by (cases "map_of (op_states db) c"; cases "map_of (op_states db) k"; simp)+

lemma write_apply_permits:
  "map_of (op_permits (write_apply now c st code reason stage sg db)) x =
     (if st \<noteq> Suspended \<and> fst x = c then None else map_of (op_permits db) x)"
  using map_of_filter_key [of "\<lambda>k. fst k \<noteq> c" "op_permits db" x] by (auto simp: write_apply_def)

text \<open>The gate of a database, over the two columns it reads.\<close>

lemma gate_of_columns:
  "gate_of db =
     \<lparr>g_status = (\<lambda>c. map_option cr_status (map_of (op_states db) c)),
      g_live = {x. \<exists>n. map_option cr_revision (map_of (op_states db) (fst x)) = Some n \<and>
                  map_of (op_permits db) x = Some n},
      g_stale = {x. \<exists>n r. map_option cr_revision (map_of (op_states db) (fst x)) = Some n \<and>
                  map_of (op_permits db) x = Some r \<and> r \<noteq> n}\<rparr>"
  by (auto simp: gate_of_def)

lemma op_ok_columns:
  "op_ok db \<longleftrightarrow>
     distinct (map fst (op_states db)) \<and> distinct (map fst (op_permits db)) \<and>
     (\<forall>x r. map_of (op_permits db) x = Some r \<longrightarrow>
        (\<exists>n. map_option cr_revision (map_of (op_states db) (fst x)) = Some n \<and> r \<le> n))"
proof -
  have eq: "(\<exists>row. v = Some row \<and> r \<le> cr_revision row) \<longleftrightarrow> (\<exists>n. map_option cr_revision v = Some n \<and> r \<le> n)"
    for v :: "contract_row option" and r :: int
    by (cases v) auto
  show ?thesis unfolding op_ok_def eq ..
qed

lemma write_apply_ok:
  assumes "op_ok db"
  shows "op_ok (write_apply now c st code reason stage sg db)" (is "op_ok ?db'")
proof -
  have d: "distinct (map fst (op_states ?db'))" "distinct (map fst (op_permits ?db'))"
    using assms by (simp_all add: op_ok_def write_apply_def upsert_row_def distinct_update del: map_map)
  have "\<exists>n. map_option cr_revision (map_of (op_states ?db') (fst x)) = Some n \<and> r \<le> n"
    if "map_of (op_permits ?db') x = Some r" for x r
  proof -
    from that have "map_of (op_permits db) x = Some r"
      by (simp add: write_apply_permits split: if_splits)
    from op_ok_permit [OF assms this] show ?thesis
      by (cases "fst x = c") (auto simp: write_apply_states)
  qed
  with d show ?thesis unfolding op_ok_columns by blast
qed

lemma gate_eqI:
  "(\<And>c. g_status g c = g_status h c) \<Longrightarrow> (\<And>x. x \<in> g_live g \<longleftrightarrow> x \<in> g_live h) \<Longrightarrow>
    (\<And>x. x \<in> g_stale g \<longleftrightarrow> x \<in> g_stale h) \<Longrightarrow> g = (h :: gate)"
  by (rule gate.equality) (blast | rule ext | simp)+

lemma write_apply_gate:
  assumes "op_ok db"
  shows "gate_of (write_apply now c st code reason stage sg db) = gate_write c st (gate_of db)"
proof (rule gate_eqI)
  fix x
  note gate = gate_of_columns gate_write_def write_apply_states write_apply_permits gate.simps mem_Collect_eq
  have known: "\<exists>n. map_option cr_revision (map_of (op_states db) (fst x)) = Some n \<and> r \<le> n"
    if "map_of (op_permits db) x = Some r" for r
    using op_ok_permit [OF assms that] by auto
  show "x \<in> g_live (gate_of (write_apply now c st code reason stage sg db)) \<longleftrightarrow>
      x \<in> g_live (gate_write c st (gate_of db))"
    unfolding gate using known by (cases "fst x = c") (auto split: if_splits option.splits)
  show "x \<in> g_stale (gate_of (write_apply now c st code reason stage sg db)) \<longleftrightarrow>
      x \<in> g_stale (gate_write c st (gate_of db))"
    unfolding gate using known by (cases "fst x = c") (auto split: if_splits option.splits)
qed (simp add: gate_of_columns gate_write_def write_apply_states del: split_paired_Ex)

subsection \<open>The tables implement the gate\<close>

text \<open>The simulation of one command: same answer or error, corresponding result.\<close>

definition implements :: "(bool \<times> operation_db) res \<Rightarrow> (bool \<times> gate) res \<Rightarrow> bool" where
  "implements r q \<longleftrightarrow>
     (case r of Inl e \<Rightarrow> q = Inl e | Inr (b, db) \<Rightarrow> op_ok db \<and> q = Inr (b, gate_of db))"

lemma implements_simps [simp]:
  "implements (Inl e) q \<longleftrightarrow> q = Inl e"
  "implements (Inr (b, db)) q \<longleftrightarrow> op_ok db \<and> q = Inr (b, gate_of db)"
  by (simp_all add: implements_def)

lemma op_write_plain:
  "op_write now c st code reason stage sg False None db =
     Inr (case sg of None \<Rightarrow> 0
          | Some s \<Rightarrow> int (length (suspended_operations (fst (snd c)) s
              (op_states (write_apply now c st code reason stage sg db)))),
       write_apply now c st code reason stage sg db)"
  by (simp add: op_write_def gate_of_refused Let_def)

lemma op_write_guarded:
  "op_write now c Ready None None None None True None db =
     (if gate_admits (gate_of db) c None
      then Inr (0, write_apply now c Ready None None None None db) else Inr (- 1, db))"
  "op_write now c Ready None None None None False (Some sc) db =
     (if gate_admits (gate_of db) c (Some sc)
      then Inr (0, write_apply now c Ready None None None None db) else Inr (- 1, db))"
  by (simp_all add: op_write_def gate_of_refused Let_def)

text \<open>The row a permit is bound to, and the permit that is added.\<close>

lemma add_permit_ok:
  assumes "op_ok db" and "map_of (op_states db) c = Some row" and "map_of (op_permits db) (c, sc) = None"
  shows "op_ok (db\<lparr>op_permits := op_permits db @ [((c, sc), cr_revision row)]\<rparr>)" (is "op_ok ?db'")
proof -
  have m: "map_of (op_permits ?db') = (map_of (op_permits db))((c, sc) \<mapsto> cr_revision row)"
    using map_of_append_new [OF assms(3)] by (simp del: map_of_append)
  have "(c, sc) \<notin> set (map fst (op_permits db))"
    using assms(3) by (simp only: set_map map_of_eq_None_iff not_False_eq_True)
  then have "distinct (map fst (op_permits ?db'))" using assms(1) by (simp add: op_ok_def)
  moreover have "\<exists>row. map_of (op_states db) (fst x) = Some row \<and> r \<le> cr_revision row"
    if "map_of (op_permits ?db') x = Some r" for x r
    using op_ok_permit [OF assms(1), of x r] assms(2) that unfolding m
    by (cases "x = (c, sc)") auto
  ultimately show ?thesis using assms(1) unfolding op_ok_def by simp
qed

lemma add_permit_gate:
  assumes "map_of (op_states db) c = Some row" and "map_of (op_permits db) (c, sc) = None"
  shows "gate_of (db\<lparr>op_permits := op_permits db @ [((c, sc), cr_revision row)]\<rparr>) =
    (gate_of db)\<lparr>g_live := insert (c, sc) (g_live (gate_of db))\<rparr>" (is "gate_of ?db' = _")
proof -
  have m: "map_of (op_permits ?db') = (map_of (op_permits db))((c, sc) \<mapsto> cr_revision row)"
    using map_of_append_new [OF assms(2)] by (simp del: map_of_append)
  show ?thesis
  proof (rule gate_eqI)
    fix x
    show "x \<in> g_live (gate_of ?db') \<longleftrightarrow>
        x \<in> g_live ((gate_of db)\<lparr>g_live := insert (c, sc) (g_live (gate_of db))\<rparr>)"
      unfolding gate_of_def gate.simps m using assms by (cases "x = (c, sc)") auto
    show "x \<in> g_stale (gate_of ?db') \<longleftrightarrow>
        x \<in> g_stale ((gate_of db)\<lparr>g_live := insert (c, sc) (g_live (gate_of db))\<rparr>)"
      unfolding gate_of_def gate.simps m using assms by (cases "x = (c, sc)") auto
  qed (simp add: gate_of_def)
qed

lemma authorize_retry_in_implements:
  assumes "op_ok db" and "sc \<noteq> []"
  shows "implements (authorize_retry_in c sc db) (Inr (gate_authorize c sc (gate_of db)))"
proof (cases "map_of (op_states db) c")
  case None
  with assms show ?thesis
    by (simp add: authorize_retry_in_def gate_authorize_def gate_of_def)
next
  case (Some row)
  show ?thesis
  proof (cases "cr_status row = Suspended")
    case False
    with Some assms show ?thesis
      by (simp add: authorize_retry_in_def gate_authorize_def gate_of_def)
  next
    case True
    show ?thesis
    proof (cases "map_of (op_permits db) (c, sc)")
      case None
      then have p: "permit_current (db\<lparr>op_permits := op_permits db @ [((c, sc), cr_revision row)]\<rparr>) c sc
          (cr_revision row)"
        using map_of_append_new [OF None, of "cr_revision row"] by (simp add: permit_current_def del: map_of_append)
      have "(c, sc) \<notin> g_stale (gate_of db)" using None by (simp add: gate_of_def)
      with add_permit_ok [OF assms(1) Some None] add_permit_gate [OF Some None] p None Some True assms
      show ?thesis by (simp add: authorize_retry_in_def gate_authorize_def gate_of_def Let_def)
    next
      case (Some r)
      note row = \<open>map_of (op_states db) c = Some row\<close>
      have "gate_of db\<lparr>g_live := insert (c, sc) (g_live (gate_of db))\<rparr> = gate_of db"
        if "r = cr_revision row"
        using that row Some by (auto simp: gate_of_def)
      with Some row True assms show ?thesis
        by (auto simp: authorize_retry_in_def gate_authorize_def gate_of_def Let_def permit_current_def)
    qed
  qed
qed

lemma authorize_contracts_implements:
  "op_ok db \<Longrightarrow> sc \<noteq> [] \<Longrightarrow> \<exists>db'. authorize_contracts cs sc db = Inr db' \<and> op_ok db' \<and>
    gate_of db' = fold (\<lambda>c g. snd (gate_authorize c sc g)) cs (gate_of db)"
proof (induction cs arbitrary: db)
  case (Cons c cs)
  from authorize_retry_in_implements [OF Cons.prems, of c]
  obtain b db1 where 1: "authorize_retry_in c sc db = Inr (b, db1)" "op_ok db1"
    "gate_authorize c sc (gate_of db) = (b, gate_of db1)"
    by (auto simp: implements_def split: sum.splits)
  from Cons.IH [OF 1(2) Cons.prems(2)] 1 show ?case by auto
qed simp

lemma revoke_implements:
  assumes "op_ok db"
  shows "op_ok (revoke_retry_scope sc db)" and "gate_of (revoke_retry_scope sc db) =
    (gate_of db)\<lparr>g_live := {x \<in> g_live (gate_of db). snd x \<noteq> sc},
      g_stale := {x \<in> g_stale (gate_of db). snd x \<noteq> sc}\<rparr>"
proof -
  have m: "map_of (op_permits (revoke_retry_scope sc db)) x =
      (if snd x \<noteq> sc then map_of (op_permits db) x else None)" for x
    using map_of_filter_key [of "\<lambda>k. snd k \<noteq> sc" "op_permits db" x]
    by (simp add: revoke_retry_scope_def)
  have s: "op_states (revoke_retry_scope sc db) = op_states db"
    by (simp add: revoke_retry_scope_def)
  have "distinct (map fst (op_permits (revoke_retry_scope sc db)))"
    using assms by (simp add: op_ok_def revoke_retry_scope_def)
  moreover have "\<exists>row. map_of (op_states db) (fst x) = Some row \<and> r \<le> cr_revision row"
    if "map_of (op_permits (revoke_retry_scope sc db)) x = Some r" for x r
    using op_ok_permit [OF assms] that by (simp add: m split: if_splits)
  ultimately show "op_ok (revoke_retry_scope sc db)" using assms unfolding op_ok_def s by blast
  show "gate_of (revoke_retry_scope sc db) =
    (gate_of db)\<lparr>g_live := {x \<in> g_live (gate_of db). snd x \<noteq> sc},
      g_stale := {x \<in> g_stale (gate_of db). snd x \<noteq> sc}\<rparr>"
    by (rule gate_eqI) (simp_all add: gate_of_def m s conj_ac del: split_paired_Ex)
qed

lemmas op_methods = op_suspend_def mark_ready_def mark_ready_unless_suspended_def
  mark_ready_for_retry_def mark_unverified_def op_write_plain op_write_guarded

lemma op_exec_implements:
  assumes "op_ok db"
  shows "implements (op_exec now cmd db) (gate_exec cmd (gate_of db))"
proof (cases cmd)
  case (Op_Authorize c sc)
  with authorize_retry_in_implements [OF assms, of sc c] show ?thesis
    by (simp add: authorize_retry_def)
next
  case (Op_Group sc cs)
  with authorize_contracts_implements [OF assms, of sc cs] show ?thesis
    by (auto simp: authorize_retry_group_def)
qed (use assms in \<open>simp_all add: op_methods write_apply_ok write_apply_gate revoke_implements\<close>)

lemma op_next_ok: "op_ok db \<Longrightarrow> op_ok (op_next now cmd db)"
  using op_exec_implements [of db now cmd]
  by (auto simp: op_next_def implements_def split: sum.splits)

lemma op_run_ok: "op_ok db \<Longrightarrow> op_ok (op_run cmds db)"
  by (induction cmds arbitrary: db) (auto simp: op_run_def op_next_ok)

text \<open>
  C0 The tables implement the abstract gate.  From a well-formed store every method of
  \<open>DesktopModelOperationContractStore\<close> gives the answer (or raises the error) the abstract
  gate gives, and leaves a well-formed store that means the gate's next state; and the
  admission test of the tables is the gate's.  In particular re-suspending a contract
  turns all its permits stale although no permit row is deleted.
\<close>

theorem operation_store_refines_gate:
  assumes "op_ok db"
  shows "(case op_exec now cmd db of
            Inl e \<Rightarrow> gate_exec cmd (gate_of db) = Inl e
          | Inr (b, db') \<Rightarrow> op_ok db' \<and> gate_exec cmd (gate_of db) = Inr (b, gate_of db')) \<and>
         (dispatch_possible db c sc \<longleftrightarrow> gate_admits (gate_of db) c sc)"
  using op_exec_implements [OF assms, of now cmd]
  by (simp add: implements_def dispatch_possible_def gate_of_admits)

theorem operation_store_refines_gate_witness:
  "dispatch_possible operation_db_empty (''op'', ''cap'', ''d'') None"
  using operation_store_refines_gate [OF op_ok_empty, of _ _ "(''op'', ''cap'', ''d'')" None]
  by (simp add: gate_admits_def gate_of_def operation_db_empty_def)

subsection \<open>A permit is an authorisation since the last suspension\<close>

text \<open>
  The contract of a store that gates retries, for any store that keeps it: suspending
  kills the permits of a contract, and only authorising makes one.
\<close>

locale retry_gate =
  fixes do_step :: "'a \<Rightarrow> 's \<Rightarrow> 's"
    and ok :: "'s \<Rightarrow> bool"
    and live :: "'s \<Rightarrow> 'c \<Rightarrow> 'p \<Rightarrow> bool"
    and suspends :: "'a \<Rightarrow> 'c \<Rightarrow> bool"
    and authorises :: "'a \<Rightarrow> 'c \<Rightarrow> 'p \<Rightarrow> bool"
  assumes step_ok: "ok s \<Longrightarrow> ok (do_step a s)"
    and suspend_kills: "ok s \<Longrightarrow> suspends a c \<Longrightarrow> \<not> live (do_step a s) c p"
    and only_authorised: "ok s \<Longrightarrow> live (do_step a s) c p \<Longrightarrow> live s c p \<or> authorises a c p"
begin

lemma fold_ok: "ok s \<Longrightarrow> ok (fold do_step as s)"
  by (induction as arbitrary: s) (auto simp: step_ok)

lemma live_authorised:
  "ok s \<Longrightarrow> live (fold do_step as s) c p \<Longrightarrow> live s c p \<or> (\<exists>a\<in>set as. authorises a c p)"
proof (induction as arbitrary: s)
  case (Cons a as)
  from Cons.IH [OF step_ok [OF Cons.prems(1)]] Cons.prems(2)
  have "live (do_step a s) c p \<or> (\<exists>a\<in>set as. authorises a c p)" by simp
  with only_authorised [OF Cons.prems(1)] show ?case by auto
qed simp

lemma authorised_since_suspension:
  assumes "ok s" and "suspends a c" and "live (fold do_step (xs @ a # ys) s) c p"
  shows "\<exists>b\<in>set ys. authorises b c p"
  using live_authorised [of "do_step a (fold do_step xs s)" ys c p]
    suspend_kills [OF fold_ok [OF assms(1)] assms(2)] step_ok [OF fold_ok [OF assms(1)]] assms(3)
  by auto

end

fun op_suspends :: "op_command \<Rightarrow> contract \<Rightarrow> bool" where
  "op_suspends (Op_Suspend c' code reason stage sg) c \<longleftrightarrow> c' = c"
| "op_suspends cmd c \<longleftrightarrow> False"

fun op_authorises :: "op_command \<Rightarrow> contract \<Rightarrow> string \<Rightarrow> bool" where
  "op_authorises (Op_Authorize c' sc') c sc \<longleftrightarrow> c' = c \<and> sc' = sc"
| "op_authorises (Op_Group sc' cs) c sc \<longleftrightarrow> c \<in> set cs \<and> sc' = sc"
| "op_authorises cmd c sc \<longleftrightarrow> False"

definition op_live :: "operation_db \<Rightarrow> contract \<Rightarrow> string \<Rightarrow> bool" where
  "op_live db c sc \<longleftrightarrow> (c, sc) \<in> g_live (gate_of db)"

lemma gate_authorize_live:
  "x \<in> g_live (snd (gate_authorize c' sc' g)) \<Longrightarrow> x \<in> g_live g \<or> x = (c', sc')"
  by (auto simp: gate_authorize_def split: if_splits)

lemma gate_authorize_live':
  "gate_authorize c' sc' g = (b, g') \<Longrightarrow> x \<in> g_live g' \<Longrightarrow> x \<in> g_live g \<or> x = (c', sc')"
  using gate_authorize_live [of x c' sc' g] by simp

lemma gate_group_live:
  "(c, sc) \<in> g_live (fold (\<lambda>c g. snd (gate_authorize c sc' g)) cs g) \<Longrightarrow>
    (c, sc) \<in> g_live g \<or> c \<in> set cs \<and> sc' = sc"
  by (induction cs arbitrary: g) (auto dest: gate_authorize_live)

lemma gate_exec_live:
  "gate_exec cmd g = Inr (b, g') \<Longrightarrow> (c, sc) \<in> g_live g' \<Longrightarrow>
    (c, sc) \<in> g_live g \<or> op_authorises cmd c sc"
proof (cases cmd)
  case (Op_Authorize c' sc')
  assume "gate_exec cmd g = Inr (b, g')" "(c, sc) \<in> g_live g'"
  with Op_Authorize gate_authorize_live' [of c' sc' g b g' "(c, sc)"] show ?thesis
    by (auto split: if_splits)
qed (auto simp: gate_write_def split: if_splits dest: gate_group_live)

lemma op_next_gate:
  assumes "op_ok db"
  shows "op_next now cmd db = db \<or> (\<exists>b. gate_exec cmd (gate_of db) = Inr (b, gate_of (op_next now cmd db)))"
  using op_exec_implements [OF assms, of now cmd]
  by (auto simp: op_next_def implements_def split: sum.splits)

lemma op_next_suspended:
  assumes "op_ok db" and "op_suspends cmd c"
  shows "\<not> op_live (op_next now cmd db) c p"
proof -
  from assms(2) obtain code reason stage sg where "cmd = Op_Suspend c code reason stage sg"
    by (cases cmd) auto
  then obtain b where "gate_exec cmd (gate_of db) = Inr (b, gate_of (op_next now cmd db))"
    and "gate_exec cmd (gate_of db) = Inr (True, gate_write c Suspended (gate_of db))"
    using op_exec_implements [OF assms(1), of now cmd]
    by (auto simp: op_next_def op_suspend_def op_write_plain)
  then have "gate_of (op_next now cmd db) = gate_write c Suspended (gate_of db)" by simp
  then show ?thesis by (simp add: op_live_def gate_write_def)
qed

interpretation operation_gate: retry_gate "\<lambda>(now, cmd). op_next now cmd" op_ok op_live
  "\<lambda>(now, cmd). op_suspends cmd" "\<lambda>(now, cmd). op_authorises cmd"
proof (unfold_locales, goal_cases)
  case (1 s a)
  then show ?case by (cases a) (simp add: op_next_ok)
next
  case (2 s a c p)
  then show ?case by (cases a) (simp add: op_next_suspended)
next
  case (3 s a c p)
  obtain now cmd where a: "a = (now, cmd)" by (cases a)
  with 3 op_next_gate [OF 3(1), of now cmd] show ?case
    by (auto simp: op_live_def dest: gate_exec_live)
qed

text \<open>
  C2 No stale authority.  Take any history of the store in which a contract is suspended
  at some point and whatever follows.  If the contract is still suspended at the end and a
  dispatch under a retry scope is admitted, then that very scope was authorised for that
  very contract after that suspension: a permit issued for an earlier failure never lets
  work through, and without a scope nothing is admitted.
\<close>

theorem retry_needs_fresh_authorisation:
  assumes "op_suspends cmd c"
    and "db = op_run (xs @ (now, cmd) # ys) operation_db_empty"
    and "fst (contract_state db c) = Suspended"
    and "dispatch_possible db c scope"
  shows "\<exists>sc now' cmd'. scope = Some sc \<and> (now', cmd') \<in> set ys \<and> op_authorises cmd' c sc"
proof -
  have "op_live db c (the scope) \<and> scope \<noteq> None"
    using assms(3,4) by (auto simp: dispatch_possible_def gate_of_admits gate_admits_def op_live_def
        contract_state_def gate_of_def split: option.splits)
  then have l: "op_live (fold (\<lambda>(now, cmd). op_next now cmd) (xs @ (now, cmd) # ys) operation_db_empty) c (the scope)"
    and sc: "scope = Some (the scope)"
    using assms(2) by (simp_all add: op_run_def)
  have "(case (now, cmd) of (now, cmd) \<Rightarrow> op_suspends cmd) c" using assms(1) by simp
  from operation_gate.authorised_since_suspension [OF op_ok_empty this l]
  obtain now' cmd' where "(now', cmd') \<in> set ys" "op_authorises cmd' c (the scope)" by auto
  with sc show ?thesis by blast
qed

theorem retry_needs_fresh_authorisation_witness:
  "\<exists>sc now' cmd'. Some ''scope'' = Some sc \<and>
     (now', cmd') \<in> set [(''t3'', Op_Authorize (''op'', ''cap'', ''d'') ''scope'')] \<and>
     op_authorises cmd' (''op'', ''cap'', ''d'') sc"
proof (rule retry_needs_fresh_authorisation)
  let ?c = "(''op'', ''cap'', ''d'')"
  let ?cmds = "[(''t1'', Op_Suspend ?c ''x'' ''r'' ''st'' None)] @
     (''t2'', Op_Suspend ?c ''x'' ''r'' ''st'' None) # [(''t3'', Op_Authorize ?c ''scope'')]"
  show "op_suspends (Op_Suspend ?c ''x'' ''r'' ''st'' None) ?c" by simp
  show "op_run ?cmds operation_db_empty = op_run ?cmds operation_db_empty" ..
  show "fst (contract_state (op_run ?cmds operation_db_empty) ?c) = Suspended" by code_simp
  show "dispatch_possible (op_run ?cmds operation_db_empty) ?c (Some ''scope'')" by code_simp
qed

subsection \<open>What a suspension reports, and readiness\<close>

lemma suspended_operations_set:
  "set (suspended_operations cap sg rows) =
     {x. \<exists>d row. ((x, cap, d), row) \<in> set rows \<and> cr_failure_signature row = Some sg \<and>
        cr_status row = Suspended}"
  by (force simp: suspended_operations_def)

text \<open>
  The number a suspension reports is the number of distinct operations of the same
  capability that are suspended with the same failure signature, the new one included:
  several digests of one operation count once.
\<close>

theorem suspend_counts_operations:
  "\<exists>n db'. op_suspend now c code reason stage (Some sg) db = Inr (n, db') \<and>
     n = int (card {x. \<exists>d row. ((x, fst (snd c), d), row) \<in> set (op_states db') \<and>
       cr_failure_signature row = Some sg \<and> cr_status row = Suspended}) \<and> 1 \<le> n"
proof -
  let ?db' = "write_apply now c Suspended (Some code) (Some reason) (Some stage) (Some sg) db"
  let ?ops = "suspended_operations (fst (snd c)) sg (op_states ?db')"
  obtain row where "map_of (op_states ?db') c = Some row" "cr_status row = Suspended"
    "cr_failure_signature row = Some sg"
    unfolding write_apply_row by (cases "map_of (op_states db) c") auto
  then have "fst c \<in> set ?ops"
    unfolding suspended_operations_set using map_of_SomeD [of "op_states ?db'" c]
    by (cases c) auto
  then have "1 \<le> length ?ops" by (cases ?ops) auto
  moreover have "length ?ops = card (set ?ops)"
    by (simp add: suspended_operations_def distinct_card [symmetric] del: set_uniq set_map)
  ultimately show ?thesis
    by (simp add: op_suspend_def op_write_plain suspended_operations_set)
qed

end
