(* ===== verification/PagePlanning.thy ===== *)
theory PagePlanning
  imports Json "HOL-Library.Multiset"
begin

section \<open>Knowledge Page Plans (\<open>openkb/knowledge/pages/planning.py\<close>)\<close>

text \<open>
  A page plan is a model's proposal, as JSON, of how the claims of one identity are laid
  out in a lead, sections and subsections.  The parser validates it completely, places
  claims and relations in two running lists, checks the placement against the snapshot and
  derives the identifiers of the plan's parts.  Normalisation Form C and the comparison of
  a JSON float with an integer are arguments (\<open>nfc\<close>, \<open>float_eq\<close>).
\<close>

subsection \<open>Limits and labels (\<open>models/semantic_structure_contracts.py\<close>)\<close>

definition max_page_depth :: nat where "max_page_depth = 2"
definition max_sections :: nat where "max_sections = 32"
definition max_claims_per_identity :: nat where "max_claims_per_identity = 64"
definition max_label_characters :: nat where "max_label_characters = 80"

definition semantic_presentations :: "string list" where
  "semantic_presentations = [''ordered_list'', ''paragraph'', ''unordered_list'']"

text \<open>Category \<open>Cc\<close>: \<open>U+0000-U+001F\<close> and \<open>U+007F-U+009F\<close>.\<close>

definition control_char :: "string \<Rightarrow> bool" where
  "control_char u =
     (case map (of_char :: char \<Rightarrow> nat) u of
        [a] \<Rightarrow> a < 32 \<or> a = 127
      | [a, b] \<Rightarrow> a = 194 \<and> 128 \<le> b \<and> b < 160
      | _ \<Rightarrow> False)"

definition normalize_dynamic_semantic_text ::
  "(string \<Rightarrow> string) \<Rightarrow> json \<Rightarrow> string \<Rightarrow> nat \<Rightarrow> string res" where
  "normalize_dynamic_semantic_text nfc value field maximum =
     (case value of
        JStr s \<Rightarrow>
          let normalized = py_strip (nfc s) in
          if normalized = [] then Inl (ValueError (field @ '' must not be empty.''))
          else if maximum < py_len normalized
          then Inl (ValueError (field @ '' exceeds '' @ nat_digits maximum @ '' characters.''))
          else if list_ex control_char (py_chars normalized)
          then Inl (ValueError (field @ '' must be safe single-line text.''))
          else Inr normalized
      | _ \<Rightarrow> Inl (ValueError (field @ '' must be text.'')))"

subsection \<open>Plans\<close>

record raw_unit =
  ru_presentation :: string
  ru_claims :: "string list"
  ru_relations :: "string list"

datatype raw_section = RawSection (rs_title: string) (rs_units: "raw_unit list") (rs_sections: "raw_section list")

record page_unit =
  pu_id :: string
  pu_presentation :: string
  pu_claims :: "string list"
  pu_relations :: "string list"

datatype page_section =
  PageSection (ps_id: string) (ps_title: string) (ps_units: "page_unit list") (ps_sections: "page_section list")

record page_plan =
  pp_generation :: int
  pp_identity :: string
  pp_snapshot_digest :: string
  pp_lead :: "page_unit option"
  pp_sections :: "page_section list"
  pp_digest :: string

fun section_claim_ids :: "page_section \<Rightarrow> string list" where
  "section_claim_ids (PageSection i t us ss) =
     concat (map pu_claims us) @ concat (map section_claim_ids ss)"

definition placed_claim_ids :: "page_plan \<Rightarrow> string list" where
  "placed_claim_ids p =
     (case pp_lead p of None \<Rightarrow> [] | Some u \<Rightarrow> pu_claims u) @ concat (map section_claim_ids (pp_sections p))"

subsection \<open>Units\<close>

text \<open>The running lists, and the counter of sections.\<close>

record placement =
  pl_claims :: "string list"
  pl_relations :: "string list"
  pl_sections :: nat

definition identifier_list :: "json \<Rightarrow> string \<Rightarrow> string list res" where
  "identifier_list value field =
     (case value of
        JList vs \<Rightarrow>
          if max_claims_per_identity < length vs \<or> \<not> list_all nonempty_str vs
          then Inl (PlanError [''invalid_identifiers:'' @ field])
          else Inr (map (\<lambda>v. case v of JStr s \<Rightarrow> s | _ \<Rightarrow> []) vs)
      | _ \<Rightarrow> Inl (PlanError [''invalid_identifiers:'' @ field]))"

definition unit_keys :: "string set" where
  "unit_keys = {''presentation'', ''claim_ids'', ''relation_assertion_ids''}"

definition parse_unit ::
  "string list \<Rightarrow> string list \<Rightarrow> string \<Rightarrow> json \<Rightarrow> placement \<Rightarrow> (raw_unit \<times> placement) res" where
  "parse_unit claims relations path value st =
     (case value of
        JObj d \<Rightarrow>
          if fst ` set d \<noteq> unit_keys
          then Inl (PlanError [''invalid_unit_shape:'' @ path])
          else (case dict_get d ''presentation'' of
                  JStr presentation \<Rightarrow>
                    if presentation \<notin> set semantic_presentations
                    then Inl (PlanError [''invalid_presentation:'' @ path])
                    else res_bind (identifier_list (dict_get d ''claim_ids'') (path @ ''.claim_ids'')) (\<lambda>cs.
                      res_bind (identifier_list (dict_get d ''relation_assertion_ids'')
                          (path @ ''.relation_assertion_ids'')) (\<lambda>rs.
                      if cs = [] \<and> rs = [] then Inl (PlanError [''empty_unit:'' @ path])
                      else if \<not> set cs \<subseteq> set claims
                      then Inl (PlanError (map (\<lambda>c. ''unknown_claim:'' @ c) (filter (\<lambda>c. c \<notin> set claims) cs)))
                      else if \<not> set rs \<subseteq> set relations
                      then Inl (PlanError (map (\<lambda>r. ''unknown_relation:'' @ r) (filter (\<lambda>r. r \<notin> set relations) rs)))
                      else Inr (\<lparr>ru_presentation = presentation, ru_claims = cs, ru_relations = rs\<rparr>,
                                st\<lparr>pl_claims := pl_claims st @ cs, pl_relations := pl_relations st @ rs\<rparr>)))
                | _ \<Rightarrow> Inl (PlanError [''invalid_presentation:'' @ path]))
      | _ \<Rightarrow> Inl (PlanError [''invalid_unit_shape:'' @ path]))"

text \<open>\<open>enumerate\<close> of a list of units, their paths \<open>base[index]\<close>.\<close>

fun parse_units ::
  "string list \<Rightarrow> string list \<Rightarrow> string \<Rightarrow> nat \<Rightarrow> json list \<Rightarrow> placement \<Rightarrow>
    (raw_unit list \<times> placement) res" where
  "parse_units claims relations base i [] st = Inr ([], st)"
| "parse_units claims relations base i (v # vs) st =
     res_bind (parse_unit claims relations (base @ ''['' @ nat_digits i @ '']'') v st) (\<lambda>(u, st1).
     res_bind (parse_units claims relations base (Suc i) vs st1) (\<lambda>(us, st2). Inr (u # us, st2)))"

subsection \<open>Sections\<close>

definition section_keys :: "nat \<Rightarrow> string set" where
  "section_keys depth =
     (if depth = max_page_depth then {''title'', ''units''} else {''title'', ''units'', ''sections''})"

text \<open>What is read of a section before its subsections: title, units and the new counter.\<close>

definition parse_section_head ::
  "(string \<Rightarrow> string) \<Rightarrow> string list \<Rightarrow> string list \<Rightarrow> string \<Rightarrow> nat \<Rightarrow> json \<Rightarrow> placement \<Rightarrow>
    (dict \<times> string \<times> raw_unit list \<times> placement) res" where
  "parse_section_head nfc claims relations path depth value st0 =
     (if max_page_depth < depth then Inl (PlanError [''section_depth_exceeded:'' @ path])
      else let st = st0\<lparr>pl_sections := Suc (pl_sections st0)\<rparr> in
        if max_sections < pl_sections st then Inl (PlanError [''section_limit_exceeded''])
        else case value of
          JObj d \<Rightarrow>
            if fst ` set d \<noteq> section_keys depth then Inl (PlanError [''invalid_section_shape:'' @ path])
            else res_bind (normalize_dynamic_semantic_text nfc (dict_get d ''title'') (path @ ''.title'')
                max_label_characters) (\<lambda>title.
              case dict_get d ''units'' of
                JList us \<Rightarrow>
                  if max_claims_per_identity < length us
                  then Inl (PlanError [''invalid_section_units:'' @ path])
                  else res_bind (parse_units claims relations (path @ ''.units'') 0 us st)
                         (\<lambda>(units, st'). Inr (d, title, units, st'))
              | _ \<Rightarrow> Inl (PlanError [''invalid_section_units:'' @ path]))
        | _ \<Rightarrow> Inl (PlanError [''invalid_section_shape:'' @ path]))"

definition finish_section ::
  "string \<Rightarrow> string \<Rightarrow> raw_unit list \<Rightarrow> raw_section list \<times> placement \<Rightarrow> (raw_section \<times> placement) res" where
  "finish_section path title units r =
     (case r of (sections, st) \<Rightarrow>
        if units = [] \<and> sections = [] then Inl (PlanError [''empty_section:'' @ path])
        else Inr (RawSection title units sections, st))"

function parse_section ::
  "(string \<Rightarrow> string) \<Rightarrow> string list \<Rightarrow> string list \<Rightarrow> string \<Rightarrow> nat \<Rightarrow> json \<Rightarrow> placement \<Rightarrow>
    (raw_section \<times> placement) res"
and parse_sections ::
  "(string \<Rightarrow> string) \<Rightarrow> string list \<Rightarrow> string list \<Rightarrow> string \<Rightarrow> nat \<Rightarrow> nat \<Rightarrow> json list \<Rightarrow> placement \<Rightarrow>
    (raw_section list \<times> placement) res" where
  "parse_section nfc claims relations path depth value st0 =
     res_bind (parse_section_head nfc claims relations path depth value st0) (\<lambda>(d, title, units, st).
       if max_page_depth \<le> depth then finish_section path title units ([], st)
       else case dict_get d ''sections'' of
              JList cs \<Rightarrow>
                res_bind (parse_sections nfc claims relations (path @ ''.sections'') (Suc depth) 0 cs st)
                  (finish_section path title units)
            | _ \<Rightarrow> Inl (PlanError [''invalid_child_sections:'' @ path]))"
| "parse_sections nfc claims relations base depth i [] st = Inr ([], st)"
| "parse_sections nfc claims relations base depth i (v # vs) st =
     res_bind (parse_section nfc claims relations (base @ ''['' @ nat_digits i @ '']'') depth v st) (\<lambda>(s, st1).
     res_bind (parse_sections nfc claims relations base depth (Suc i) vs st1) (\<lambda>(ss, st2).
       Inr (s # ss, st2)))"
  by pat_completeness auto
termination
  by (relation "measures
      [\<lambda>x. case x of Inl (nfc, c, r, p, depth, v, st) \<Rightarrow> Suc max_page_depth - depth
                   | Inr (nfc, c, r, p, depth, i, vs, st) \<Rightarrow> Suc max_page_depth - depth,
       \<lambda>x. case x of Inl _ \<Rightarrow> 0 | Inr (nfc, c, r, p, depth, i, vs, st) \<Rightarrow> Suc (length vs)]") auto

subsection \<open>The placement and the plan\<close>

definition placement_issues :: "string list \<Rightarrow> placement \<Rightarrow> string list" where
  "placement_issues eligible st =
     map (\<lambda>c. ''duplicate_claim_placement:'' @ c)
       (filter (\<lambda>c. 1 < count_list (pl_claims st) c) (uniq (pl_claims st))) @
     map (\<lambda>c. ''unplaced_claim:'' @ c) (filter (\<lambda>c. count_list (pl_claims st) c = 0) eligible) @
     map (\<lambda>r. ''duplicate_relation_placement:'' @ r)
       (filter (\<lambda>r. 1 < count_list (pl_relations st) r) (uniq (pl_relations st)))"

definition raw_unit_payload :: "raw_unit \<Rightarrow> json" where
  "raw_unit_payload u = JObj
     [(''presentation'', JStr (ru_presentation u)), (''claim_ids'', JList (map JStr (ru_claims u))),
      (''relation_assertion_ids'', JList (map JStr (ru_relations u)))]"

fun raw_section_payload :: "raw_section \<Rightarrow> json" where
  "raw_section_payload (RawSection t us ss) = JObj
     [(''title'', JStr t), (''units'', JList (map raw_unit_payload us)),
      (''sections'', JList (map raw_section_payload ss))]"

text \<open>The separator \<open>\x1f\<close> of the hashed paths.\<close>

definition materialize_unit :: "(string \<Rightarrow> string) \<Rightarrow> string \<Rightarrow> string \<Rightarrow> raw_unit \<Rightarrow> page_unit" where
  "materialize_unit sha256 digest path u =
     \<lparr>pu_id = ''unit-'' @ sha256 (digest @ [CHR 0x1F] @ path), pu_presentation = ru_presentation u,
      pu_claims = ru_claims u, pu_relations = ru_relations u\<rparr>"

text \<open>\<open>enumerate\<close>, and the section's path \<open>".".join(str(index) for index in path)\<close>.\<close>

definition enumerate0 :: "'a list \<Rightarrow> (nat \<times> 'a) list" where
  "enumerate0 xs = zip [0..<length xs] xs"

function materialize_section :: "(string \<Rightarrow> string) \<Rightarrow> string \<Rightarrow> nat list \<Rightarrow> raw_section \<Rightarrow> page_section" where
  "materialize_section sha256 digest path (RawSection t us ss) =
     (let path_text = py_join ''.'' (map nat_digits path) in
      PageSection (''section-'' @ sha256 (digest @ [CHR 0x1F] @ path_text)) t
        (map (\<lambda>(i, u). materialize_unit sha256 digest (path_text @ ''.unit.'' @ nat_digits i) u) (enumerate0 us))
        (map (\<lambda>(i, s). materialize_section sha256 digest (path @ [i]) s) (enumerate0 ss)))"
  by pat_completeness auto
termination
  by (relation "measure (\<lambda>(sha, d, p, s). size s)")
    (auto simp: enumerate0_def less_Suc_eq_le dest!: set_zip_rightD intro: size_list_estimation')

text \<open>\<open>value != expected\<close> for an integer: a JSON \<open>true\<close> equals 1, a float its value.\<close>

definition json_equals_int :: "(string \<Rightarrow> int \<Rightarrow> bool) \<Rightarrow> json \<Rightarrow> int \<Rightarrow> bool" where
  "json_equals_int float_eq v n =
     (case v of JInt i \<Rightarrow> i = n | JBool b \<Rightarrow> (if b then 1 else 0) = n | JFloat s \<Rightarrow> float_eq s n | _ \<Rightarrow> False)"

definition plan_of_raw ::
  "(string \<Rightarrow> string) \<Rightarrow> int \<Rightarrow> string \<Rightarrow> string \<Rightarrow> raw_unit option \<Rightarrow> raw_section list \<Rightarrow> page_plan" where
  "plan_of_raw sha256 generation identity snapshot lead sections =
     (let digest = canonical_json_digest sha256 (JObj
            [(''generation_id'', JInt generation), (''identity_id'', JStr identity),
             (''claim_snapshot_digest'', JStr snapshot),
             (''lead'', (case lead of None \<Rightarrow> JNull | Some u \<Rightarrow> raw_unit_payload u)),
             (''sections'', JList (map raw_section_payload sections))]) in
      \<lparr>pp_generation = generation, pp_identity = identity, pp_snapshot_digest = snapshot,
       pp_lead = map_option (materialize_unit sha256 digest ''lead'') lead,
       pp_sections = map (\<lambda>(i, s). materialize_section sha256 digest [i] s) (enumerate0 sections),
       pp_digest = digest\<rparr>)"

definition parse_lead ::
  "string list \<Rightarrow> string list \<Rightarrow> json \<Rightarrow> placement \<Rightarrow> (raw_unit option \<times> placement) res" where
  "parse_lead claims relations v st0 =
     (if v = JNull then Inr (None, st0)
      else res_bind (parse_unit claims relations ''lead'' v st0) (\<lambda>(u, st). Inr (Some u, st)))"

definition parse_plan_body ::
  "(string \<Rightarrow> string) \<Rightarrow> string list \<Rightarrow> string list \<Rightarrow> dict \<Rightarrow>
    (raw_unit option \<times> raw_section list \<times> placement) res" where
  "parse_plan_body nfc claims relations d =
     (let st0 = \<lparr>pl_claims = [], pl_relations = [], pl_sections = 0\<rparr> in
      res_bind (parse_lead claims relations (dict_get d ''lead'') st0) (\<lambda>(lead, st1).
        case dict_get d ''sections'' of
          JList ss \<Rightarrow>
            res_bind (parse_sections nfc claims relations ''sections'' 1 0 ss st1)
              (\<lambda>(sections, st2). Inr (lead, sections, st2))
        | _ \<Rightarrow> Inl (PlanError [''invalid_sections''])))"

definition parse_knowledge_page_plan ::
  "(string \<Rightarrow> string) \<Rightarrow> (string \<Rightarrow> string) \<Rightarrow> (string \<Rightarrow> int \<Rightarrow> bool) \<Rightarrow> string \<Rightarrow> int \<Rightarrow> string \<Rightarrow> string \<Rightarrow>
    string list \<Rightarrow> string list \<Rightarrow> page_plan res" where
  "parse_knowledge_page_plan sha256 nfc float_eq content generation identity snapshot eligible relations =
     (if \<not> (1 \<le> length eligible \<and> length eligible \<le> max_claims_per_identity)
      then Inl (PlanError [''invalid_claim_snapshot_size''])
      else if \<not> distinct eligible then Inl (PlanError [''duplicate_snapshot_claim''])
      else case json_loads content of
        None \<Rightarrow> Inl (PlanError [''invalid_json''])
      | Some (JObj d) \<Rightarrow>
          if fst ` set d \<noteq> {''generation_id'', ''identity_id'', ''lead'', ''sections''}
          then Inl (PlanError [''invalid_plan_shape''])
          else if \<not> json_equals_int float_eq (dict_get d ''generation_id'') generation
          then Inl (PlanError [''generation_mismatch''])
          else if dict_get d ''identity_id'' \<noteq> JStr identity then Inl (PlanError [''identity_mismatch''])
          else res_bind (parse_plan_body nfc eligible relations d) (\<lambda>(lead, sections, st).
            if placement_issues eligible st \<noteq> [] then Inl (PlanError (placement_issues eligible st))
            else Inr (plan_of_raw sha256 generation identity snapshot lead sections))
      | Some _ \<Rightarrow> Inl (PlanError [''invalid_plan_shape'']))"

subsection \<open>What an accepted plan satisfies\<close>

definition unit_ok :: "string list \<Rightarrow> string list \<Rightarrow> raw_unit \<Rightarrow> bool" where
  "unit_ok claims relations u \<longleftrightarrow>
     ru_presentation u \<in> set semantic_presentations \<and>
     set (ru_claims u) \<subseteq> set claims \<and> set (ru_relations u) \<subseteq> set relations \<and>
     (ru_claims u \<noteq> [] \<or> ru_relations u \<noteq> [])"

definition label_ok :: "string \<Rightarrow> bool" where
  "label_ok t \<longleftrightarrow> t \<noteq> [] \<and> py_len t \<le> max_label_characters \<and> \<not> list_ex control_char (py_chars t)"

text \<open>A section with at most \<open>n\<close> levels, itself included.\<close>

fun section_ok :: "string list \<Rightarrow> string list \<Rightarrow> nat \<Rightarrow> raw_section \<Rightarrow> bool" where
  "section_ok claims relations 0 s \<longleftrightarrow> False"
| "section_ok claims relations (Suc n) (RawSection t us ss) \<longleftrightarrow>
     label_ok t \<and> list_all (unit_ok claims relations) us \<and> (us \<noteq> [] \<or> ss \<noteq> []) \<and>
     list_all (section_ok claims relations n) ss"

fun raw_claims :: "raw_section \<Rightarrow> string list" where
  "raw_claims (RawSection t us ss) = concat (map ru_claims us) @ concat (map raw_claims ss)"

fun raw_relations :: "raw_section \<Rightarrow> string list" where
  "raw_relations (RawSection t us ss) = concat (map ru_relations us) @ concat (map raw_relations ss)"

fun raw_count :: "raw_section \<Rightarrow> nat" where
  "raw_count (RawSection t us ss) = Suc (sum_list (map raw_count ss))"

text \<open>How the running lists grow.\<close>

definition placed :: "placement \<Rightarrow> string list \<Rightarrow> string list \<Rightarrow> nat \<Rightarrow> placement" where
  "placed st cs rs n = st\<lparr>pl_claims := pl_claims st @ cs, pl_relations := pl_relations st @ rs,
     pl_sections := pl_sections st + n\<rparr>"

lemma placed_placed [simp]:
  "placed (placed st cs rs n) cs' rs' n' = placed st (cs @ cs') (rs @ rs') (n + n')"
  by (simp add: placed_def)

lemma placed_nothing [simp]: "placed st [] [] 0 = st"
  by (simp add: placed_def)

lemma placed_fields [simp]:
  "pl_claims (placed st cs rs n) = pl_claims st @ cs"
  "pl_relations (placed st cs rs n) = pl_relations st @ rs"
  "pl_sections (placed st cs rs n) = pl_sections st + n"
  by (simp_all add: placed_def)

lemma parse_unit_Inr:
  assumes "parse_unit claims relations path value st = Inr (u, st')"
  shows "unit_ok claims relations u \<and> st' = placed st (ru_claims u) (ru_relations u) 0"
proof (cases "value")
  case (JObj d)
  show ?thesis
  proof (cases "dict_get d ''presentation''")
    case (JStr p)
    with assms JObj show ?thesis
      by (auto simp: parse_unit_def res_bind_Inr_iff unit_ok_def placed_def split: if_splits)
  qed (use assms JObj in \<open>simp_all add: parse_unit_def split: if_splits\<close>)
qed (use assms in \<open>simp_all add: parse_unit_def\<close>)

lemma parse_units_Inr:
  "parse_units claims relations base i vs st = Inr (us, st') \<Longrightarrow>
    list_all (unit_ok claims relations) us \<and>
    st' = placed st (concat (map ru_claims us)) (concat (map ru_relations us)) 0"
proof (induction vs arbitrary: i st us)
  case (Cons v vs)
  then obtain u st1 us' where u: "parse_unit claims relations (base @ ''['' @ nat_digits i @ '']'') v st = Inr (u, st1)"
    and us: "parse_units claims relations base (Suc i) vs st1 = Inr (us', st')" "us = u # us'"
    by (auto simp: res_bind_Inr_iff)
  from parse_unit_Inr [OF u] Cons.IH [OF us(1)] us(2) show ?case by simp
qed simp

lemma normalize_Inr:
  "normalize_dynamic_semantic_text nfc v field max_label_characters = Inr t \<Longrightarrow> label_ok t"
  by (auto simp: normalize_dynamic_semantic_text_def label_ok_def Let_def split: json.splits if_splits)

lemma parse_section_head_Inr:
  assumes "parse_section_head nfc claims relations path depth value st = Inr (d, title, units, st')"
  shows "depth \<le> max_page_depth \<and> label_ok title \<and> list_all (unit_ok claims relations) units \<and>
    Suc (pl_sections st) \<le> max_sections \<and>
    st' = placed st (concat (map ru_claims units)) (concat (map ru_relations units)) 1"
proof (cases "value")
  case (JObj d')
  show ?thesis
  proof (cases "dict_get d' ''units''")
    case (JList us)
    with assms JObj have lim: "depth \<le> max_page_depth" "Suc (pl_sections st) \<le> max_sections"
      and t: "normalize_dynamic_semantic_text nfc (dict_get d' ''title'') (path @ ''.title'') max_label_characters = Inr title"
      and u: "parse_units claims relations (path @ ''.units'') 0 us (st\<lparr>pl_sections := Suc (pl_sections st)\<rparr>) = Inr (units, st')"
      by (auto simp: parse_section_head_def res_bind_Inr_iff Let_def split: if_splits)
    have "placed (st\<lparr>pl_sections := Suc (pl_sections st)\<rparr>) cs rs 0 = placed st cs rs 1" for cs rs
      by (simp add: placed_def)
    with lim normalize_Inr [OF t] parse_units_Inr [OF u] show ?thesis by simp
  qed (use assms JObj in \<open>auto simp: parse_section_head_def res_bind_Inr_iff Let_def split: if_splits\<close>)
qed (use assms in \<open>auto simp: parse_section_head_def Let_def split: if_splits\<close>)

lemma finish_section_Inr:
  "finish_section path title units (ss, st) = Inr (s, st') \<longleftrightarrow>
     (units \<noteq> [] \<or> ss \<noteq> []) \<and> s = RawSection title units ss \<and> st' = st"
  by (auto simp: finish_section_def)

lemma parse_section_sections_Inr:
  shows "parse_section nfc claims relations path depth value st = Inr (s, st') \<Longrightarrow>
      section_ok claims relations (Suc max_page_depth - depth) s \<and>
      st' = placed st (raw_claims s) (raw_relations s) (raw_count s) \<and> pl_sections st' \<le> max_sections"
    and "parse_sections nfc claims relations base depth i vs st = Inr (ss, st') \<Longrightarrow>
      list_all (section_ok claims relations (Suc max_page_depth - depth)) ss \<and>
      st' = placed st (concat (map raw_claims ss)) (concat (map raw_relations ss)) (sum_list (map raw_count ss)) \<and>
      (ss \<noteq> [] \<longrightarrow> pl_sections st' \<le> max_sections)"
proof (induction nfc claims relations path depth "value" st and nfc claims relations base depth i vs st
    arbitrary: s st' and ss st' rule: parse_section_parse_sections.induct)
  case (1 nfc claims relations path depth "value" st0)
  then obtain d title units st where h:
    "parse_section_head nfc claims relations path depth value st0 = Inr (d, title, units, st)"
    by (auto simp: res_bind_Inr_iff)
  note head = parse_section_head_Inr [OF h]
  show ?case
  proof (cases "max_page_depth \<le> depth")
    case True
    with 1(2) h head show ?thesis
      by (auto simp: finish_section_Inr Suc_diff_le)
  next
    case False
    with 1(2) h obtain cs ss st1 where cs: "dict_get d ''sections'' = JList cs"
      "parse_sections nfc claims relations (path @ ''.sections'') (Suc depth) 0 cs st = Inr (ss, st1)"
      and f: "finish_section path title units (ss, st1) = Inr (s, st')"
      by (auto simp: res_bind_Inr_iff split: json.splits)
    from False have lv: "Suc max_page_depth - depth = Suc (Suc max_page_depth - Suc depth)" by simp
    from "1.IH" [OF False cs(1) cs(2)] f head show ?thesis
      unfolding lv by (cases "ss = []") (auto simp: finish_section_Inr)
  qed
next
  case (3 nfc claims relations base depth i v vs st)
  then obtain s st1 ss' where s: "parse_section nfc claims relations (base @ ''['' @ nat_digits i @ '']'') depth v st = Inr (s, st1)"
    and ss: "parse_sections nfc claims relations base depth (Suc i) vs st1 = Inr (ss', st')" "ss = s # ss'"
    by (auto simp: res_bind_Inr_iff)
  from "3.IH"(1) [OF s] "3.IH"(2) [OF ss(1)] ss(2) show ?case
    by (cases "ss' = []") auto
qed simp_all

text \<open>The identifiers are added without touching what is placed where.\<close>

lemma map_enumerate0_cong:
  assumes "\<And>i x. x \<in> set xs \<Longrightarrow> f i x = g x"
  shows "map (\<lambda>p. f (fst p) (snd p)) (enumerate0 xs) = map g xs"
proof -
  have "map (\<lambda>p. f (fst p) (snd p)) (enumerate0 xs) = map (\<lambda>p. g (snd p)) (enumerate0 xs)"
    by (rule map_cong [OF refl]) (auto simp: enumerate0_def assms dest: set_zip_rightD)
  also have "\<dots> = map g (map snd (enumerate0 xs))" by simp
  finally show ?thesis by (simp add: enumerate0_def)
qed

lemma materialize_section_claims:
  "section_claim_ids (materialize_section sha256 digest path s) = raw_claims s"
proof (induction s arbitrary: path)
  case (RawSection t us ss)
  have "map (\<lambda>p. section_claim_ids (materialize_section sha256 digest (path @ [fst p]) (snd p))) (enumerate0 ss) =
      map raw_claims ss"
    by (rule map_enumerate0_cong) (rule RawSection)
  moreover have "map (\<lambda>p. ru_claims (snd p)) (enumerate0 us) = map ru_claims us"
    by (rule map_enumerate0_cong) simp
  ultimately show ?case by (simp add: Let_def comp_def case_prod_beta materialize_unit_def)
qed

lemma plan_of_raw_claims:
  "placed_claim_ids (plan_of_raw sha256 g i sn lead sections) =
     (case lead of None \<Rightarrow> [] | Some u \<Rightarrow> ru_claims u) @ concat (map raw_claims sections)"
proof -
  have "map (\<lambda>p. raw_claims (snd p)) (enumerate0 sections) = map raw_claims sections"
    by (rule map_enumerate0_cong) simp
  then show ?thesis
    by (cases lead) (simp_all add: placed_claim_ids_def plan_of_raw_def Let_def materialize_unit_def
        comp_def case_prod_beta materialize_section_claims)
qed

lemma parse_plan_body_Inr:
  assumes "parse_plan_body nfc claims relations d = Inr (lead, sections, st)"
  shows "list_all (section_ok claims relations max_page_depth) sections \<and>
    (case lead of None \<Rightarrow> True | Some u \<Rightarrow> unit_ok claims relations u) \<and>
    pl_claims st = (case lead of None \<Rightarrow> [] | Some u \<Rightarrow> ru_claims u) @ concat (map raw_claims sections) \<and>
    pl_relations st = (case lead of None \<Rightarrow> [] | Some u \<Rightarrow> ru_relations u) @ concat (map raw_relations sections) \<and>
    sum_list (map raw_count sections) \<le> max_sections"
proof -
  let ?st0 = "\<lparr>pl_claims = [], pl_relations = [], pl_sections = 0\<rparr>"
  obtain ss st1 where lead: "parse_lead claims relations (dict_get d ''lead'') ?st0 = Inr (lead, st1)"
    and s: "parse_sections nfc claims relations ''sections'' 1 0 ss st1 = Inr (sections, st)"
    using assms by (cases "dict_get d ''sections''") (auto simp: parse_plan_body_def res_bind_Inr_iff)
  have l: "(case lead of None \<Rightarrow> st1 = ?st0
      | Some u \<Rightarrow> unit_ok claims relations u \<and> st1 = placed ?st0 (ru_claims u) (ru_relations u) 0)"
    using lead by (auto simp: parse_lead_def res_bind_Inr_iff split: if_splits dest!: parse_unit_Inr)
  note sec = parse_section_sections_Inr(2) [OF s]
  have "Suc max_page_depth - 1 = max_page_depth" by simp
  with sec l show ?thesis
    by (cases lead; cases "sections = []") (auto simp: max_sections_def)
qed

lemma count_list_distinct: "(\<forall>x\<in>set xs. \<not> 1 < count_list xs x) \<longleftrightarrow> distinct xs"
  by (induction xs) (auto simp: count_list_0_iff split: if_splits)

lemma placement_issues_Nil:
  "placement_issues eligible st = [] \<longleftrightarrow>
     distinct (pl_claims st) \<and> set eligible \<subseteq> set (pl_claims st) \<and> distinct (pl_relations st)"
  by (auto simp: placement_issues_def filter_empty_conv count_list_distinct [unfolded One_nat_def] count_list_0_iff)

lemma raw_claims_subset:
  "section_ok claims relations n s \<Longrightarrow> set (raw_claims s) \<subseteq> set claims \<and> set (raw_relations s) \<subseteq> set relations"
proof (induction claims relations n s rule: section_ok.induct)
  case (2 claims relations n t us ss)
  then show ?case by (fastforce simp: list_all_iff unit_ok_def)
qed simp

lemma parse_plan_Inr:
  assumes "parse_knowledge_page_plan sha256 nfc feq content g i sn eligible relations = Inr plan"
  shows "\<exists>d lead sections st. parse_plan_body nfc eligible relations d = Inr (lead, sections, st) \<and>
    placement_issues eligible st = [] \<and> plan = plan_of_raw sha256 g i sn lead sections \<and> distinct eligible"
  using assms unfolding parse_knowledge_page_plan_def
  by (auto simp: res_bind_Inr_iff split: if_splits option.splits json.splits)

text \<open>
  C3 Every claim exactly once.  If a page plan is accepted, the claims it places, read in
  the order of the page, are a rearrangement of the eligible claims: none is missing, none
  is placed twice, none is invented, whatever the model wrote.
\<close>

theorem plan_places_every_claim_once:
  assumes "parse_knowledge_page_plan sha256 nfc float_eq content generation identity snapshot eligible
    relations = Inr plan"
  shows "mset (placed_claim_ids plan) = mset eligible"
proof -
  from parse_plan_Inr [OF assms] obtain d lead sections st where
    b: "parse_plan_body nfc eligible relations d = Inr (lead, sections, st)"
    and p: "placement_issues eligible st = []" "plan = plan_of_raw sha256 generation identity snapshot lead sections"
      "distinct eligible" by blast
  note body = parse_plan_body_Inr [OF b]
  have "set (concat (map raw_claims sections)) \<subseteq> set eligible"
    using body raw_claims_subset by (auto simp: list_all_iff) blast
  moreover have "(case lead of None \<Rightarrow> True | Some u \<Rightarrow> set (ru_claims u) \<subseteq> set eligible)"
    using body by (auto simp: unit_ok_def split: option.splits)
  ultimately have "set (pl_claims st) \<subseteq> set eligible" using body by (auto split: option.splits)
  with p(1) have "set (pl_claims st) = set eligible" "distinct (pl_claims st)"
    by (auto simp: placement_issues_Nil)
  with p(3) have "mset (pl_claims st) = mset eligible" by (simp add: set_eq_iff_mset_eq_distinct)
  moreover have "placed_claim_ids plan = pl_claims st" using body by (simp add: p(2) plan_of_raw_claims)
  ultimately show ?thesis by simp
qed

definition sample_plan_text :: string where
  "sample_plan_text = json_dumps (JObj [(''generation_id'', JInt 1), (''identity_id'', JStr ''i''),
     (''lead'', JObj [(''presentation'', JStr ''paragraph''), (''claim_ids'', JList [JStr ''c2'']),
        (''relation_assertion_ids'', JList [])]),
     (''sections'', JList [JObj [(''title'', JStr ''T''), (''units'', JList
        [JObj [(''presentation'', JStr ''paragraph''), (''claim_ids'', JList [JStr ''c1'']),
          (''relation_assertion_ids'', JList [])]]), (''sections'', JList [])]])])"

theorem plan_places_every_claim_once_witness:
  "\<exists>plan. parse_knowledge_page_plan (\<lambda>s. s) (\<lambda>s. s) (\<lambda>_ _. False) sample_plan_text 1 ''i'' ''d'' [''c1'', ''c2''] [] =
     Inr plan \<and> mset (placed_claim_ids plan) = {#''c1'', ''c2''#}"
proof -
  have "case parse_knowledge_page_plan (\<lambda>s. s) (\<lambda>s. s) (\<lambda>_ _. False) sample_plan_text 1 ''i'' ''d'' [''c1'', ''c2''] [] of
      Inl _ \<Rightarrow> False | Inr _ \<Rightarrow> True" by code_simp
  then obtain plan where p: "parse_knowledge_page_plan (\<lambda>s. s) (\<lambda>s. s) (\<lambda>_ _. False) sample_plan_text 1 ''i'' ''d''
      [''c1'', ''c2''] [] = Inr plan" by (auto split: sum.splits)
  from plan_places_every_claim_once [OF p] p show ?thesis by auto
qed

text \<open>
  The limits hold.  An accepted plan comes from sections at most two levels deep and at
  most 32 in number, each with a safe, non-empty label of at most 80 characters and at
  least one unit or subsection; every unit is non-empty and cites only known claims and
  available relations, no relation twice.
\<close>

theorem plan_respects_limits:
  assumes "parse_knowledge_page_plan sha256 nfc float_eq content generation identity snapshot eligible
    relations = Inr plan"
  shows "\<exists>lead sections. plan = plan_of_raw sha256 generation identity snapshot lead sections \<and>
    list_all (section_ok eligible relations max_page_depth) sections \<and>
    (case lead of None \<Rightarrow> True | Some u \<Rightarrow> unit_ok eligible relations u) \<and>
    sum_list (map raw_count sections) \<le> max_sections \<and>
    distinct ((case lead of None \<Rightarrow> [] | Some u \<Rightarrow> ru_relations u) @ concat (map raw_relations sections))"
proof -
  from parse_plan_Inr [OF assms] obtain d lead sections st where
    b: "parse_plan_body nfc eligible relations d = Inr (lead, sections, st)"
    and p: "placement_issues eligible st = []" "plan = plan_of_raw sha256 generation identity snapshot lead sections"
    by blast
  from p(1) have "distinct (pl_relations st)" by (simp add: placement_issues_Nil)
  with parse_plan_body_Inr [OF b] p(2) show ?thesis
    by (intro exI [of _ lead] exI [of _ sections]) simp
qed

theorem plan_respects_limits_witness:
  "\<exists>plan lead sections. parse_knowledge_page_plan (\<lambda>s. s) (\<lambda>s. s) (\<lambda>_ _. False) sample_plan_text 1 ''i'' ''d''
      [''c1'', ''c2''] [] = Inr plan \<and>
     plan = plan_of_raw (\<lambda>s. s) 1 ''i'' ''d'' lead sections \<and>
     sum_list (map raw_count sections) \<le> max_sections"
proof -
  have "case parse_knowledge_page_plan (\<lambda>s. s) (\<lambda>s. s) (\<lambda>_ _. False) sample_plan_text 1 ''i'' ''d'' [''c1'', ''c2''] [] of
      Inl _ \<Rightarrow> False | Inr _ \<Rightarrow> True" by code_simp
  then obtain plan where p: "parse_knowledge_page_plan (\<lambda>s. s) (\<lambda>s. s) (\<lambda>_ _. False) sample_plan_text 1 ''i'' ''d''
      [''c1'', ''c2''] [] = Inr plan" by (auto split: sum.splits)
  from plan_respects_limits [OF p] p show ?thesis by blast
qed

end
