(* ===== verification/DocumentIR.thy ===== *)
theory DocumentIR
  imports Json
begin

section \<open>Import artifacts (\<open>openkb/importing/artifacts.py\<close>)\<close>

text \<open>
  The Document IR every later stage works on: its blocks and source images, the decoding
  of a text source and its parsing into blocks, and the checkpoints from which a resumed
  import restores blocks, images and Evidence.  Fresh identifiers (\<open>uuid.uuid4().hex\<close>)
  are an argument: \<open>ids i\<close> is the \<open>i\<close>-th one drawn.
\<close>

subsection \<open>Data\<close>

record ir_block =
  block_id :: string
  block_ordinal :: int
  block_kind :: string
  block_text :: string
  heading_path :: "string list"
  line_start :: int
  line_end :: int
  block_locator :: "dict option"

record source_image =
  image_id :: string
  image_ordinal :: int
  image_sha256 :: string
  byte_size :: int
  media_type :: string
  filename :: string
  extension :: string
  alt_text :: "string option"
  image_locator :: dict
  image_content :: string

text \<open>The format tables, as the association lists of the source.\<close>

definition source_formats :: "(string \<times> string) list" where
  "source_formats =
     [(''.txt'', ''txt''), (''.md'', ''markdown''), (''.markdown'', ''markdown''), (''.doc'', ''doc''),
      (''.docx'', ''docx''), (''.xls'', ''xls''), (''.xlsx'', ''xlsx''), (''.ppt'', ''ppt''),
      (''.pptx'', ''pptx''), (''.pdf'', ''pdf'')]"

definition source_media_types :: "(string \<times> string) list" where
  "source_media_types =
     [(''txt'', ''text/plain''), (''markdown'', ''text/markdown''), (''doc'', ''application/msword''),
      (''docx'', ''application/vnd.openxmlformats-officedocument.wordprocessingml.document''),
      (''xls'', ''application/vnd.ms-excel''),
      (''xlsx'', ''application/vnd.openxmlformats-officedocument.spreadsheetml.sheet''),
      (''ppt'', ''application/vnd.ms-powerpoint''),
      (''pptx'', ''application/vnd.openxmlformats-officedocument.presentationml.presentation''),
      (''pdf'', ''application/pdf'')]"

definition source_suffixes :: "(string \<times> string list) list" where
  "source_suffixes =
     [(''txt'', [''.txt'']), (''markdown'', [''.md'', ''.markdown'']), (''doc'', [''.doc'']),
      (''docx'', [''.docx'']), (''xls'', [''.xls'']), (''xlsx'', [''.xlsx'']), (''ppt'', [''.ppt'']),
      (''pptx'', [''.pptx'']), (''pdf'', [''.pdf''])]"

text \<open>The argument is the lower-cased suffix of the path.\<close>

definition source_format_for_path :: "string \<Rightarrow> string res" where
  "source_format_for_path sfx =
     (case map_of source_formats sfx of
        None \<Rightarrow> Inl (ImportError ''unsupported_import_format'') | Some f \<Rightarrow> Inr f)"

definition source_media_type :: "string \<Rightarrow> string res" where
  "source_media_type f =
     (case map_of source_media_types f of
        None \<Rightarrow> Inl (ImportError ''unsupported_import_format'') | Some m \<Rightarrow> Inr m)"

definition source_suffixes_for_format :: "string \<Rightarrow> string list res" where
  "source_suffixes_for_format f =
     (case map_of source_suffixes f of
        None \<Rightarrow> Inl (ImportError ''unsupported_import_format'') | Some ss \<Rightarrow> Inr ss)"

definition source_format_is_textual :: "string \<Rightarrow> bool" where
  "source_format_is_textual f \<longleftrightarrow> f \<in> {''txt'', ''markdown''}"

definition source_format_uses_structured_ir :: "string \<Rightarrow> bool" where
  "source_format_uses_structured_ir f \<longleftrightarrow> map_of source_suffixes f \<noteq> None \<and> f \<noteq> ''txt''"

subsection \<open>Decoding a text source\<close>

text \<open>\<open>content.decode("utf-8-sig")\<close> drops one byte order mark.\<close>

definition decode_utf8_sig :: "string \<Rightarrow> string option" where
  "decode_utf8_sig content =
     (if \<not> utf8_valid content then None
      else if take 3 content = [CHR 0xEF, CHR 0xBB, CHR 0xBF] then Some (drop 3 content)
      else Some content)"

fun replace_crlf :: "string \<Rightarrow> string" where
  "replace_crlf [] = []"
| "replace_crlf [c] = [c]"
| "replace_crlf (c # d # s) =
     (if c = CHR 0x0D \<and> d = CHR 0x0A then CHR 0x0A # replace_crlf s else c # replace_crlf (d # s))"

definition replace_cr :: "string \<Rightarrow> string" where
  "replace_cr s = map (\<lambda>c. if c = CHR 0x0D then CHR 0x0A else c) s"

definition decode_text :: "string \<Rightarrow> string res" where
  "decode_text content =
     (case decode_utf8_sig content of
        None \<Rightarrow> Inl (ImportError ''invalid_text_document'')
      | Some text0 \<Rightarrow>
          let text1 = replace_cr (replace_crlf text0) in
          if py_strip text1 = [] then Inl (ImportError ''empty_text_document'') else Inr text1)"

subsection \<open>Parsing headings and paragraphs\<close>

text \<open>\<open>text.split("\n")\<close>.\<close>

fun split_lines :: "string \<Rightarrow> string list" where
  "split_lines [] = [[]]"
| "split_lines (c # s) =
     (if c = CHR 0x0A then [] # split_lines s
      else (case split_lines s of [] \<Rightarrow> [[c]] | l # ls \<Rightarrow> (c # l) # ls))"

definition is_blank_char :: "char \<Rightarrow> bool" where
  "is_blank_char c \<longleftrightarrow> c = CHR '' '' \<or> c = CHR 0x09"

definition py_rstrip :: "string \<Rightarrow> string" where
  "py_rstrip s = concat (rev (dropWhile py_isspace (rev (py_chars s))))"

text \<open>
  \<open>_HEADING_PATTERN.match\<close>.  The blanks are matched greedily; the title is the shortest
  non-empty text that leaves only white space, so it is the rest without trailing white
  space or, when the rest is white space, its first character.  When nothing follows two
  or more blanks the last blank is given back and becomes the title.
\<close>

definition heading_title :: "string \<Rightarrow> string" where
  "heading_title rest =
     (let t = py_rstrip rest in if t = [] then hd (py_chars rest) else t)"

definition heading_match :: "string \<Rightarrow> (nat \<times> string) option" where
  "heading_match line =
     (let level = length (takeWhile (\<lambda>c. c = CHR 0x23) line);
          tail = dropWhile (\<lambda>c. c = CHR 0x23) line;
          blanks = takeWhile is_blank_char tail;
          rest = dropWhile is_blank_char tail in
      if level = 0 \<or> 6 < level \<or> blanks = [] then None
      else if rest \<noteq> [] then Some (level, heading_title rest)
      else if 2 \<le> length blanks then Some (level, [last blanks])
      else None)"

record ir_state =
  ir_blocks :: "ir_block list"
  ir_path :: "string list"
  ir_paragraph :: "string list"
  ir_paragraph_start :: int

definition ir_start :: ir_state where
  "ir_start = \<lparr>ir_blocks = [], ir_path = [], ir_paragraph = [], ir_paragraph_start = 0\<rparr>"

definition flush_paragraph :: "(nat \<Rightarrow> string) \<Rightarrow> int \<Rightarrow> ir_state \<Rightarrow> ir_state" where
  "flush_paragraph ids end_line st =
     (if ir_paragraph st = [] then st
      else st\<lparr>ir_blocks := ir_blocks st @
             [\<lparr>block_id = ids (length (ir_blocks st)), block_ordinal = int (length (ir_blocks st)),
               block_kind = ''paragraph'', block_text = py_join [CHR 0x0A] (ir_paragraph st),
               heading_path = ir_path st, line_start = ir_paragraph_start st, line_end = end_line,
               block_locator = None\<rparr>],
           ir_paragraph := []\<rparr>)"

definition ir_heading :: "(nat \<Rightarrow> string) \<Rightarrow> int \<Rightarrow> nat \<Rightarrow> string \<Rightarrow> ir_state \<Rightarrow> ir_state" where
  "ir_heading ids line_number level title st =
     (let path = take (level - 1) (ir_path st) @ [title] in
      st\<lparr>ir_path := path,
         ir_blocks := ir_blocks st @
           [\<lparr>block_id = ids (length (ir_blocks st)), block_ordinal = int (length (ir_blocks st)),
             block_kind = ''heading'', block_text = title, heading_path = path,
             line_start = line_number, line_end = line_number, block_locator = None\<rparr>]\<rparr>)"

definition ir_line :: "(nat \<Rightarrow> string) \<Rightarrow> int \<Rightarrow> string \<Rightarrow> ir_state \<Rightarrow> ir_state" where
  "ir_line ids line_number line st =
     (case heading_match line of
        Some (level, title) \<Rightarrow>
          ir_heading ids line_number level title (flush_paragraph ids (line_number - 1) st)
      | None \<Rightarrow>
          if py_strip line = [] then flush_paragraph ids (line_number - 1) st
          else st\<lparr>ir_paragraph_start :=
                   (if ir_paragraph st = [] then line_number else ir_paragraph_start st),
                 ir_paragraph := ir_paragraph st @ [line]\<rparr>)"

fun ir_lines :: "(nat \<Rightarrow> string) \<Rightarrow> int \<Rightarrow> string list \<Rightarrow> ir_state \<Rightarrow> ir_state" where
  "ir_lines ids n [] st = st"
| "ir_lines ids n (l # ls) st = ir_lines ids (n + 1) ls (ir_line ids n l st)"

definition build_document_ir :: "(nat \<Rightarrow> string) \<Rightarrow> string \<Rightarrow> ir_block list res" where
  "build_document_ir ids text =
     (let ls = split_lines text;
          st = flush_paragraph ids (int (length ls)) (ir_lines ids 1 ls ir_start) in
      if ir_blocks st = [] then Inl (ImportError ''empty_text_document'') else Inr (ir_blocks st))"

definition build_evidence :: "(nat \<Rightarrow> string) \<Rightarrow> ir_block list \<Rightarrow> (string \<times> ir_block) list" where
  "build_evidence ids blocks = zip (map ids [0..<length blocks]) blocks"

subsection \<open>What the parser does with the lines\<close>

text \<open>Lines \<open>a\<close> to \<open>b\<close> (numbered from one, both included).\<close>

definition line_slice :: "string list \<Rightarrow> int \<Rightarrow> int \<Rightarrow> string list" where
  "line_slice ls a b = take (nat (b - a + 1)) (drop (nat (a - 1)) ls)"

definition plain_line :: "string \<Rightarrow> bool" where
  "plain_line l \<longleftrightarrow> heading_match l = None \<and> py_strip l \<noteq> []"

text \<open>A block says what its lines say.\<close>

definition ir_block_faithful :: "string list \<Rightarrow> ir_block \<Rightarrow> bool" where
  "ir_block_faithful ls b \<longleftrightarrow>
     1 \<le> line_start b \<and> line_start b \<le> line_end b \<and> line_end b \<le> int (length ls) \<and>
     block_locator b = None \<and>
     (if block_kind b = ''heading''
      then line_end b = line_start b \<and> heading_path b \<noteq> [] \<and> last (heading_path b) = block_text b \<and>
        (\<exists>level. heading_match (ls ! nat (line_start b - 1)) = Some (level, block_text b) \<and>
           length (heading_path b) \<le> level)
      else block_kind b = ''paragraph'' \<and>
        block_text b = py_join [CHR 0x0A] (line_slice ls (line_start b) (line_end b)) \<and>
        list_all plain_line (line_slice ls (line_start b) (line_end b)))"

text \<open>Whether a line carries text: it is a heading or it is not blank.\<close>

definition carries_text :: "string \<Rightarrow> bool" where
  "carries_text l \<longleftrightarrow> heading_match l \<noteq> None \<or> py_strip l \<noteq> []"

definition covers :: "ir_block list \<Rightarrow> int \<Rightarrow> bool" where
  "covers bs k \<longleftrightarrow> (\<exists>b\<in>set bs. line_start b \<le> k \<and> k \<le> line_end b)"

definition ir_inv :: "(nat \<Rightarrow> string) \<Rightarrow> string list \<Rightarrow> nat \<Rightarrow> ir_state \<Rightarrow> bool" where
  "ir_inv ids ls n st \<longleftrightarrow>
     n \<le> length ls \<and>
     map block_ordinal (ir_blocks st) = map int [0..<length (ir_blocks st)] \<and>
     map block_id (ir_blocks st) = map ids [0..<length (ir_blocks st)] \<and>
     list_all (ir_block_faithful ls) (ir_blocks st) \<and>
     sorted_wrt (\<lambda>a b. line_end a < line_start b) (ir_blocks st) \<and>
     (\<forall>b\<in>set (ir_blocks st). line_end b \<le> int n) \<and>
     (ir_paragraph st \<noteq> [] \<longrightarrow>
        1 \<le> ir_paragraph_start st \<and> ir_paragraph_start st \<le> int n \<and>
        (\<forall>b\<in>set (ir_blocks st). line_end b < ir_paragraph_start st) \<and>
        ir_paragraph st = line_slice ls (ir_paragraph_start st) (int n) \<and>
        list_all plain_line (ir_paragraph st)) \<and>
     (\<forall>k<n. carries_text (ls ! k) \<longrightarrow>
        covers (ir_blocks st) (int k + 1) \<or> (ir_paragraph st \<noteq> [] \<and> ir_paragraph_start st \<le> int k + 1))"

lemma ir_inv_start: "ir_inv ids ls 0 ir_start"
  by (simp add: ir_inv_def ir_start_def)

lemma line_slice_Suc:
  "n < length ls \<Longrightarrow> 1 \<le> a \<Longrightarrow> a \<le> int n + 1 \<Longrightarrow>
    line_slice ls a (int (Suc n)) = line_slice ls a (int n) @ [ls ! n]"
proof -
  assume a: "n < length ls" "1 \<le> a" "a \<le> int n + 1"
  define m where "m = nat (a - 1)"
  with a have m: "m \<le> n" "a = int m + 1" by auto
  have "take (Suc (n - m)) (drop m ls) = take (n - m) (drop m ls) @ [ls ! n]"
    using a(1) m(1) by (simp add: take_Suc_conv_app_nth)
  moreover have "nat (int (Suc n) - a + 1) = Suc (n - m)" "nat (int n - a + 1) = n - m" "nat (a - 1) = m"
    using m by linarith+
  ultimately show ?thesis by (simp only: line_slice_def)
qed

lemma line_slice_one: "n < length ls \<Longrightarrow> line_slice ls (int n + 1) (int n + 1) = [ls ! n]"
  by (simp add: line_slice_def take_Suc_conv_app_nth nat_add_distrib hd_drop_conv_nth take_Suc)

lemma upt_int_snoc: "map int [0..<Suc n] = map int [0..<n] @ [int n]"
  by simp

lemma flush_inv:
  assumes "ir_inv ids ls n st"
  shows "ir_inv ids ls n (flush_paragraph ids (int n) st)"
    and "ir_paragraph (flush_paragraph ids (int n) st) = []"
proof -
  show "ir_paragraph (flush_paragraph ids (int n) st) = []" by (simp add: flush_paragraph_def)
  show "ir_inv ids ls n (flush_paragraph ids (int n) st)"
  proof (cases "ir_paragraph st = []")
    case True
    with assms show ?thesis by (simp add: flush_paragraph_def)
  next
    case False
    then show ?thesis using assms
      by (auto simp: ir_inv_def flush_paragraph_def ir_block_faithful_def sorted_wrt_append covers_def)
  qed
qed

lemma heading_inv:
  assumes "ir_inv ids ls n st" and "ir_paragraph st = []" and "n < length ls"
    and "heading_match (ls ! n) = Some (level, title)"
  shows "ir_inv ids ls (Suc n) (ir_heading ids (int n + 1) level title st)"
proof -
  have "1 \<le> level"
    using assms(4) by (auto simp: heading_match_def Let_def Suc_le_eq split: if_splits)
  then have "ir_block_faithful ls \<lparr>block_id = i, block_ordinal = k, block_kind = ''heading'',
      block_text = title, heading_path = take (level - 1) path @ [title],
      line_start = int n + 1, line_end = int n + 1, block_locator = None\<rparr>" for i k path
    using assms(3,4) by (auto simp: ir_block_faithful_def)
  with assms show ?thesis
    by (auto simp: ir_inv_def ir_heading_def Let_def sorted_wrt_append covers_def less_Suc_eq)
qed

lemma blank_inv:
  "ir_inv ids ls n st \<Longrightarrow> n < length ls \<Longrightarrow> \<not> carries_text (ls ! n) \<Longrightarrow> ir_paragraph st = [] \<Longrightarrow>
    ir_inv ids ls (Suc n) st"
  by (auto simp: ir_inv_def less_Suc_eq)

lemma text_inv:
  assumes "ir_inv ids ls n st" and "n < length ls" and "plain_line (ls ! n)"
  shows "ir_inv ids ls (Suc n)
    (st\<lparr>ir_paragraph_start := (if ir_paragraph st = [] then int n + 1 else ir_paragraph_start st),
       ir_paragraph := ir_paragraph st @ [ls ! n]\<rparr>)"
proof (cases "ir_paragraph st = []")
  case True
  with assms line_slice_one [OF assms(2)] show ?thesis
    by (auto simp: ir_inv_def less_Suc_eq algebra_simps)
next
  case False
  with assms line_slice_Suc [OF assms(2), of "ir_paragraph_start st"] show ?thesis
    by (auto simp: ir_inv_def less_Suc_eq algebra_simps)
qed

lemma ir_line_inv:
  assumes "ir_inv ids ls n st" and "n < length ls"
  shows "ir_inv ids ls (Suc n) (ir_line ids (int n + 1) (ls ! n) st)"
  using flush_inv [OF assms(1)] heading_inv [OF _ _ assms(2)] blank_inv [OF _ assms(2)]
    text_inv [OF assms] assms(2)
  by (auto simp: ir_line_def carries_text_def plain_line_def split: option.split)

lemma ir_lines_inv:
  "ir_inv ids ls n st \<Longrightarrow> n + m = length ls \<Longrightarrow>
    ir_inv ids ls (length ls) (ir_lines ids (int n + 1) (drop n ls) st)"
proof (induction m arbitrary: n st)
  case (Suc m)
  then have n: "n < length ls" by simp
  have "ir_lines ids (int n + 1) (drop n ls) st =
      ir_lines ids (int (Suc n) + 1) (drop (Suc n) ls) (ir_line ids (int n + 1) (ls ! n) st)"
    using n by (simp add: Cons_nth_drop_Suc [symmetric] algebra_simps)
  with Suc.IH [OF ir_line_inv [OF Suc.prems(1) n]] Suc.prems show ?case by simp
qed simp

lemma build_document_ir_inv:
  assumes "build_document_ir ids text = Inr bs"
  shows "\<exists>st. ir_inv ids (split_lines text) (length (split_lines text)) st \<and> ir_paragraph st = [] \<and>
    bs = ir_blocks st \<and> bs \<noteq> []"
proof -
  let ?ls = "split_lines text"
  have "ir_inv ids ?ls (length ?ls) (ir_lines ids 1 ?ls ir_start)"
    using ir_lines_inv [OF ir_inv_start, of "length ?ls" ?ls ids] by simp
  from flush_inv [OF this] assms show ?thesis
    by (auto simp: build_document_ir_def Let_def split: if_splits)
qed

text \<open>
  C21 Parsing keeps the text.  The blocks of a text source are numbered from zero, carry the
  drawn identifiers in order and cover line ranges that neither overlap nor go backwards;
  each block says exactly what its lines say (a heading its title, whose path ends in it
  and is no longer than its level; a paragraph its lines, none of which is blank or a
  heading); and no line that carries text is lost.
\<close>

theorem build_document_ir_keeps_text:
  assumes "build_document_ir ids text = Inr bs"
  shows "map block_ordinal bs = map int [0..<length bs] \<and> map block_id bs = map ids [0..<length bs] \<and>
    list_all (ir_block_faithful (split_lines text)) bs \<and>
    sorted_wrt (\<lambda>a b. line_end a < line_start b) bs \<and>
    (\<forall>k<length (split_lines text). carries_text (split_lines text ! k) \<longrightarrow> covers bs (int k + 1))"
  using build_document_ir_inv [OF assms] by (auto simp: ir_inv_def)

definition sample_text :: string where
  "sample_text = ''# A'' @ [CHR 0x0A] @ ''one'' @ [CHR 0x0A] @ ''two'' @ [CHR 0x0A, CHR 0x0A] @ ''## B''"

theorem build_document_ir_keeps_text_witness:
  "\<exists>bs. build_document_ir (\<lambda>i. nat_digits i) sample_text = Inr bs \<and> length bs = 3 \<and> covers bs 3"
proof -
  obtain bs where b: "build_document_ir (\<lambda>i. nat_digits i) sample_text = Inr bs" "length bs = 3"
  proof -
    have "(case build_document_ir (\<lambda>i. nat_digits i) sample_text of Inl _ \<Rightarrow> False
        | Inr bs \<Rightarrow> length bs = 3)" by code_simp
    then show thesis using that by (auto split: sum.splits)
  qed
  have "2 < length (split_lines sample_text)" "carries_text (split_lines sample_text ! 2)"
    by code_simp+
  with build_document_ir_keeps_text [OF b(1)] have "covers bs (int 2 + 1)" by blast
  with b show ?thesis by auto
qed

text \<open>A usable source gives at least one block, so only white space is refused.\<close>

lemma py_chars_nonempty: "u \<in> set (py_chars s) \<Longrightarrow> u \<noteq> []"
  by (induction s) (auto split: list.splits if_splits)

text \<open>
  C0 A decoded text source always parses: \<open>decode_text\<close> yields text without carriage
  returns that is not blank, and if one of its lines carries text then
  \<open>build_document_ir\<close> returns blocks instead of \<open>empty_text_document\<close>.
\<close>

theorem decoded_text_parses:
  assumes "decode_text content = Inr text"
  shows "CHR 0x0D \<notin> set text \<and> py_strip text \<noteq> [] \<and>
    ((\<exists>l\<in>set (split_lines text). carries_text l) \<longrightarrow> (\<exists>bs. build_document_ir ids text = Inr bs \<and> bs \<noteq> []))"
proof (intro conjI impI)
  show "CHR 0x0D \<notin> set text"
    using assms by (auto simp: decode_text_def replace_cr_def Let_def split: option.splits if_splits)
  show "py_strip text \<noteq> []"
    using assms by (auto simp: decode_text_def Let_def split: option.splits if_splits)
next
  assume "\<exists>l\<in>set (split_lines text). carries_text l"
  then obtain k where k: "k < length (split_lines text)" "carries_text (split_lines text ! k)"
    by (auto simp: in_set_conv_nth)
  let ?ls = "split_lines text"
  have "ir_inv ids ?ls (length ?ls) (ir_lines ids 1 ?ls ir_start)"
    using ir_lines_inv [OF ir_inv_start, of "length ?ls" ?ls ids] by simp
  from flush_inv [OF this] k
  have "covers (ir_blocks (flush_paragraph ids (int (length ?ls)) (ir_lines ids 1 ?ls ir_start))) (int k + 1)"
    by (auto simp: ir_inv_def)
  then show "\<exists>bs. build_document_ir ids text = Inr bs \<and> bs \<noteq> []"
    by (auto simp: build_document_ir_def Let_def covers_def)
qed

definition sample_upload :: string where
  "sample_upload = [CHR 0xEF, CHR 0xBB, CHR 0xBF, CHR ''a'', CHR 0x0D, CHR 0x0A, CHR ''#'', CHR '' '', CHR ''b'', CHR 0x0D]"

theorem decoded_text_parses_witness:
  "\<exists>text. decode_text sample_upload = Inr text \<and> CHR 0x0D \<notin> set text \<and>
     (\<exists>bs. build_document_ir nat_digits text = Inr bs \<and> bs \<noteq> [])"
proof -
  have "case decode_text sample_upload of Inl _ \<Rightarrow> False | Inr text \<Rightarrow> carries_text (hd (split_lines text)) \<and> split_lines text \<noteq> []"
    by code_simp
  then obtain u where t: "decode_text sample_upload = Inr u"
    "carries_text (hd (split_lines u))" "split_lines u \<noteq> []" by (auto split: sum.splits)
  from decoded_text_parses [OF t(1)] t show ?thesis by (meson list.set_sel(1))
qed

subsection \<open>Checkpoints\<close>

abbreviation checkpoint_invalid :: "'a res" where
  "checkpoint_invalid \<equiv> Inl (ImportError ''import_checkpoint_invalid'')"

definition json_opt :: "('a \<Rightarrow> json) \<Rightarrow> 'a option \<Rightarrow> json" where
  "json_opt f x = (case x of None \<Rightarrow> JNull | Some y \<Rightarrow> f y)"

definition block_payload :: "ir_block \<Rightarrow> json" where
  "block_payload b = JObj
     [(''block_id'', JStr (block_id b)), (''ordinal'', JInt (block_ordinal b)),
      (''kind'', JStr (block_kind b)), (''text'', JStr (block_text b)),
      (''heading_path'', JList (map JStr (heading_path b))),
      (''line_start'', JInt (line_start b)), (''line_end'', JInt (line_end b)),
      (''locator'', json_opt JObj (block_locator b))]"

definition source_image_checkpoint :: "source_image \<Rightarrow> json" where
  "source_image_checkpoint i = JObj
     [(''image_id'', JStr (image_id i)), (''ordinal'', JInt (image_ordinal i)),
      (''image_sha256'', JStr (image_sha256 i)), (''byte_size'', JInt (byte_size i)),
      (''media_type'', JStr (media_type i)), (''filename'', JStr (filename i)),
      (''extension'', JStr (extension i)), (''alt_text'', json_opt JStr (alt_text i)),
      (''locator'', JObj (image_locator i))]"

definition document_ir_checkpoint :: "ir_block list \<Rightarrow> source_image list \<Rightarrow> json" where
  "document_ir_checkpoint blocks images =
     (if images = [] then JList (map block_payload blocks)
      else JObj [(''blocks'', JList (map block_payload blocks)),
                 (''source_images'', JList (map source_image_checkpoint images))])"

definition str_value :: "json \<Rightarrow> string option" where
  "str_value v = (case v of JStr s \<Rightarrow> Some s | _ \<Rightarrow> None)"

definition int_value :: "json \<Rightarrow> int option" where
  "int_value v = (case v of JInt i \<Rightarrow> Some i | _ \<Rightarrow> None)"

definition str_list_value :: "json \<Rightarrow> string list option" where
  "str_list_value v = (case v of JList vs \<Rightarrow> those (map str_value vs) | _ \<Rightarrow> None)"

text \<open>A \<open>str | None\<close> and a \<open>dict | None\<close>; the inner option is the value.\<close>

definition opt_str_value :: "json \<Rightarrow> string option option" where
  "opt_str_value v = (case v of JNull \<Rightarrow> Some None | JStr s \<Rightarrow> Some (Some s) | _ \<Rightarrow> None)"

definition opt_dict_value :: "json \<Rightarrow> dict option option" where
  "opt_dict_value v = (case v of JNull \<Rightarrow> Some None | JObj d \<Rightarrow> Some (Some d) | _ \<Rightarrow> None)"

text \<open>
  One block of the payload; \<open>seen\<close> are the identifiers of the blocks before it.  A value
  of a parsed checkpoint is a JSON value, so \<open>_is_json_object\<close> holds of its locator.
\<close>

definition block_of_payload :: "int \<Rightarrow> string list \<Rightarrow> dict \<Rightarrow> ir_block option" where
  "block_of_payload expected seen item =
     (case (str_value (dict_get item ''block_id''), str_value (dict_get item ''kind''),
            str_value (dict_get item ''text''), str_list_value (dict_get item ''heading_path''),
            int_value (dict_get item ''ordinal''), int_value (dict_get item ''line_start''),
            int_value (dict_get item ''line_end''), opt_dict_value (dict_get item ''locator'')) of
        (Some bid, Some kind, Some text, Some path, Some ordinal, Some ls, Some le, Some locator) \<Rightarrow>
          if bid = [] \<or> bid \<in> set seen \<or> kind = [] \<or> ordinal \<noteq> expected \<or> ls < 1 \<or> le < ls then None
          else Some \<lparr>block_id = bid, block_ordinal = ordinal, block_kind = kind, block_text = text,
                     heading_path = path, line_start = ls, line_end = le, block_locator = locator\<rparr>
      | _ \<Rightarrow> None)"

fun blocks_of_payload :: "int \<Rightarrow> string list \<Rightarrow> json list \<Rightarrow> ir_block list res" where
  "blocks_of_payload n seen [] = Inr []"
| "blocks_of_payload n seen (v # vs) =
     (case v of
        JObj item \<Rightarrow>
          (case block_of_payload n seen item of
             None \<Rightarrow> checkpoint_invalid
           | Some b \<Rightarrow> res_bind (blocks_of_payload (n + 1) (block_id b # seen) vs) (\<lambda>bs. Inr (b # bs)))
      | _ \<Rightarrow> checkpoint_invalid)"

definition document_ir_from_checkpoint :: "json \<Rightarrow> ir_block list res" where
  "document_ir_from_checkpoint payload =
     (case (case payload of JObj d \<Rightarrow> dict_get d ''blocks'' | _ \<Rightarrow> payload) of
        JList vs \<Rightarrow>
          res_bind (blocks_of_payload 0 [] vs) (\<lambda>bs.
            if bs = [] then checkpoint_invalid else Inr bs)
      | _ \<Rightarrow> checkpoint_invalid)"

definition lower_hex :: "char \<Rightarrow> bool" where
  "lower_hex c \<longleftrightarrow> c \<in> set ''0123456789abcdef''"

definition image_of_payload :: "int \<Rightarrow> string list \<Rightarrow> dict \<Rightarrow> source_image option" where
  "image_of_payload expected seen item =
     (case (str_value (dict_get item ''image_id''), int_value (dict_get item ''ordinal''),
            str_value (dict_get item ''image_sha256''), int_value (dict_get item ''byte_size''),
            str_value (dict_get item ''media_type''), str_value (dict_get item ''filename''),
            str_value (dict_get item ''extension''), opt_str_value (dict_get item ''alt_text''),
            dict_get item ''locator'') of
        (Some iid, Some ordinal, Some sha, Some size', Some media, Some file, Some ext, Some alt, JObj locator) \<Rightarrow>
          if iid = [] \<or> iid \<in> set seen \<or> ordinal \<noteq> expected \<or> length sha \<noteq> 64 \<or> \<not> list_all lower_hex sha \<or>
             size' < 0 \<or> media = [] \<or> file = [] \<or> take 1 ext \<noteq> ''.'' then None
          else Some \<lparr>image_id = iid, image_ordinal = ordinal, image_sha256 = sha, byte_size = size',
                     media_type = media, filename = file, extension = ext, alt_text = alt,
                     image_locator = locator, image_content = []\<rparr>
      | _ \<Rightarrow> None)"

fun images_of_payload :: "int \<Rightarrow> string list \<Rightarrow> json list \<Rightarrow> source_image list res" where
  "images_of_payload n seen [] = Inr []"
| "images_of_payload n seen (v # vs) =
     (case v of
        JObj item \<Rightarrow>
          (case image_of_payload n seen item of
             None \<Rightarrow> checkpoint_invalid
           | Some i \<Rightarrow> res_bind (images_of_payload (n + 1) (image_id i # seen) vs) (\<lambda>imgs. Inr (i # imgs)))
      | _ \<Rightarrow> checkpoint_invalid)"

definition source_images_from_checkpoint :: "json \<Rightarrow> source_image list res" where
  "source_images_from_checkpoint payload =
     (case payload of
        JObj d \<Rightarrow>
          (case dict_get d ''source_images'' of
             JNull \<Rightarrow> Inr []
           | JList vs \<Rightarrow> images_of_payload 0 [] vs
           | _ \<Rightarrow> checkpoint_invalid)
      | _ \<Rightarrow> Inr [])"

definition evidence_checkpoint :: "(string \<times> ir_block) list \<Rightarrow> json" where
  "evidence_checkpoint evidence =
     JList (map (\<lambda>(e, b). JObj [(''evidence_id'', JStr e), (''block_id'', JStr (block_id b))]) evidence)"

text \<open>\<open>{block.block_id: block for block in blocks}\<close>: the last block of an identifier.\<close>

definition block_by_id :: "ir_block list \<Rightarrow> string \<rightharpoonup> ir_block" where
  "block_by_id blocks = map_of (rev (map (\<lambda>b. (block_id b, b)) blocks))"

fun evidence_of_payload ::
  "ir_block list \<Rightarrow> string list \<Rightarrow> string list \<Rightarrow> json list \<Rightarrow> (string \<times> ir_block) list res" where
  "evidence_of_payload blocks es bs [] = Inr []"
| "evidence_of_payload blocks es bs (v # vs) =
     (case v of
        JObj item \<Rightarrow>
          (case (str_value (dict_get item ''evidence_id''), str_value (dict_get item ''block_id'')) of
             (Some e, Some bid) \<Rightarrow>
               if e = [] \<or> e \<in> set es \<or> bid \<in> set bs then checkpoint_invalid
               else (case block_by_id blocks bid of
                       None \<Rightarrow> checkpoint_invalid
                     | Some b \<Rightarrow> res_bind (evidence_of_payload blocks (e # es) (bid # bs) vs)
                                  (\<lambda>rest. Inr ((e, b) # rest)))
           | _ \<Rightarrow> checkpoint_invalid)
      | _ \<Rightarrow> checkpoint_invalid)"

definition evidence_from_checkpoint :: "json \<Rightarrow> ir_block list \<Rightarrow> (string \<times> ir_block) list res" where
  "evidence_from_checkpoint payload blocks =
     (case payload of
        JList vs \<Rightarrow>
          res_bind (evidence_of_payload blocks [] [] vs) (\<lambda>evidence.
            if evidence = [] \<or> set (map (block_id \<circ> snd) evidence) \<noteq> set (map block_id blocks)
            then checkpoint_invalid else Inr evidence)
      | _ \<Rightarrow> checkpoint_invalid)"

subsection \<open>Checkpoints restore what was stored\<close>

definition block_ok :: "ir_block \<Rightarrow> bool" where
  "block_ok b \<longleftrightarrow> block_id b \<noteq> [] \<and> block_kind b \<noteq> [] \<and> 1 \<le> line_start b \<and> line_start b \<le> line_end b"

definition blocks_ok :: "ir_block list \<Rightarrow> bool" where
  "blocks_ok bs \<longleftrightarrow>
     bs \<noteq> [] \<and> list_all block_ok bs \<and> distinct (map block_id bs) \<and>
     map block_ordinal bs = map int [0..<length bs]"

definition image_ok :: "source_image \<Rightarrow> bool" where
  "image_ok i \<longleftrightarrow> image_id i \<noteq> [] \<and> length (image_sha256 i) = 64 \<and> list_all lower_hex (image_sha256 i) \<and>
     0 \<le> byte_size i \<and> media_type i \<noteq> [] \<and> filename i \<noteq> [] \<and> take 1 (extension i) = ''.'' \<and>
     image_content i = []"

definition images_ok :: "source_image list \<Rightarrow> bool" where
  "images_ok imgs \<longleftrightarrow>
     list_all image_ok imgs \<and> distinct (map image_id imgs) \<and>
     map image_ordinal imgs = map int [0..<length imgs]"

definition evidence_ok :: "ir_block list \<Rightarrow> (string \<times> ir_block) list \<Rightarrow> bool" where
  "evidence_ok bs ev \<longleftrightarrow>
     ev \<noteq> [] \<and> distinct (map fst ev) \<and> [] \<notin> set (map fst ev) \<and>
     distinct (map (block_id \<circ> snd) ev) \<and> snd ` set ev = set bs"

lemma value_simps [simp]:
  "str_value (JStr s) = Some s" "int_value (JInt i) = Some i"
  "opt_str_value (json_opt JStr x) = Some x" "opt_dict_value (json_opt JObj y) = Some y"
  "str_list_value (JList (map JStr ss)) = Some ss"
proof -
  show "str_list_value (JList (map JStr ss)) = Some ss"
    by (induction ss) (auto simp: str_list_value_def str_value_def comp_def)
qed (auto simp: str_value_def int_value_def opt_str_value_def opt_dict_value_def json_opt_def
    split: option.splits)

lemma value_iff:
  "str_value v = Some s \<longleftrightarrow> v = JStr s" "int_value v = Some i \<longleftrightarrow> v = JInt i"
  by (auto simp: str_value_def int_value_def split: json.splits)

lemma block_of_payload_Some:
  "block_of_payload n seen item = Some b \<Longrightarrow> block_ok b \<and> block_ordinal b = n \<and> block_id b \<notin> set seen"
  by (auto simp: block_of_payload_def block_ok_def split: option.splits if_splits)

lemma block_of_payload_payload:
  "block_ok b \<Longrightarrow> block_id b \<notin> set seen \<Longrightarrow> block_payload b = JObj item \<Longrightarrow>
    block_of_payload (block_ordinal b) seen item = Some b"
  by (auto simp: block_of_payload_def block_payload_def block_ok_def dict_get_def)

lemma ordinals_Suc:
  "map f (x # xs) = map (\<lambda>i. int i + n) [0..<length (x # xs)] \<longleftrightarrow>
     f x = n \<and> map f xs = map (\<lambda>i. int i + (n + 1)) [0..<length xs]"
  by (simp add: upt_conv_Cons map_Suc_upt [symmetric] comp_def algebra_simps del: upt_Suc)

lemma blocks_of_payload_payload:
  "list_all block_ok bs \<Longrightarrow> distinct (map block_id bs) \<Longrightarrow> set seen \<inter> set (map block_id bs) = {} \<Longrightarrow>
    map block_ordinal bs = map (\<lambda>i. int i + n) [0..<length bs] \<Longrightarrow>
    blocks_of_payload n seen (map block_payload bs) = Inr bs"
proof (induction bs arbitrary: n seen)
  case (Cons b bs)
  from Cons.prems(4) have n: "block_ordinal b = n"
    and rest: "map block_ordinal bs = map (\<lambda>i. int i + (n + 1)) [0..<length bs]"
    unfolding ordinals_Suc by auto
  from Cons.prems have "blocks_of_payload (n + 1) (block_id b # seen) (map block_payload bs) = Inr bs"
    by (intro Cons.IH) (auto simp: rest)
  moreover obtain item where i: "block_payload b = JObj item" by (simp add: block_payload_def)
  moreover from Cons.prems n i have "block_of_payload n seen item = Some b"
    using block_of_payload_payload [of b seen item] by auto
  ultimately show ?case by simp
qed simp

lemma blocks_of_payload_ok:
  "blocks_of_payload n seen vs = Inr bs \<Longrightarrow>
    list_all block_ok bs \<and> distinct (map block_id bs) \<and> set seen \<inter> set (map block_id bs) = {} \<and>
    map block_ordinal bs = map (\<lambda>i. int i + n) [0..<length bs]"
proof (induction n seen vs arbitrary: bs rule: blocks_of_payload.induct)
  case (2 n seen v vs)
  then obtain item b bs' where v: "v = JObj item" "block_of_payload n seen item = Some b"
    and bs: "blocks_of_payload (n + 1) (block_id b # seen) vs = Inr bs'" "bs = b # bs'"
    by (auto simp: res_bind_Inr_iff split: json.splits option.splits)
  from "2.IH" [OF v bs(1)] block_of_payload_Some [OF v(2)] show ?case
    unfolding bs(2) ordinals_Suc by auto
qed simp

text \<open>
  The Document IR survives its checkpoint.  A well-formed IR with any source images
  restores from its checkpoint unchanged; and whatever checkpoint
  \<open>document_ir_from_checkpoint\<close> accepts, of whatever shape, the blocks it returns are
  well-formed: non-empty, with distinct identifiers, ordinals equal to their positions,
  non-empty kinds and ordered line ranges.
\<close>

theorem document_ir_checkpoint_roundtrip:
  "(blocks_ok bs \<longrightarrow> document_ir_from_checkpoint (document_ir_checkpoint bs imgs) = Inr bs) \<and>
   (\<forall>bs'. document_ir_from_checkpoint payload = Inr bs' \<longrightarrow> blocks_ok bs')"
proof (intro conjI impI allI)
  assume ok: "blocks_ok bs"
  then have "blocks_of_payload 0 [] (map block_payload bs) = Inr bs"
    by (intro blocks_of_payload_payload) (auto simp: blocks_ok_def)
  with ok show "document_ir_from_checkpoint (document_ir_checkpoint bs imgs) = Inr bs"
    by (simp add: document_ir_from_checkpoint_def document_ir_checkpoint_def dict_get_def blocks_ok_def)
next
  fix bs'
  assume "document_ir_from_checkpoint payload = Inr bs'"
  then obtain vs where "blocks_of_payload 0 [] vs = Inr bs'" "bs' \<noteq> []"
    unfolding document_ir_from_checkpoint_def
    by (auto simp: res_bind_Inr_iff split: json.splits if_splits)
  with blocks_of_payload_ok show "blocks_ok bs'"
    by (fastforce simp: blocks_ok_def)
qed

definition sample_block :: ir_block where
  "sample_block = \<lparr>block_id = ''b'', block_ordinal = 0, block_kind = ''paragraph'', block_text = ''t'',
     heading_path = [''A''], line_start = 1, line_end = 2, block_locator = Some [(''page'', JInt 3)]\<rparr>"

theorem document_ir_checkpoint_roundtrip_witness:
  "document_ir_from_checkpoint (document_ir_checkpoint [sample_block] []) = Inr [sample_block]"
proof -
  have "blocks_ok [sample_block]"
    by (simp add: blocks_ok_def block_ok_def sample_block_def)
  with document_ir_checkpoint_roundtrip show ?thesis by blast
qed

lemma image_of_payload_payload:
  "image_ok i \<Longrightarrow> image_id i \<notin> set seen \<Longrightarrow> source_image_checkpoint i = JObj item \<Longrightarrow>
    image_of_payload (image_ordinal i) seen item = Some i"
  by (auto simp: image_of_payload_def source_image_checkpoint_def image_ok_def dict_get_def)

lemma images_of_payload_payload:
  "list_all image_ok imgs \<Longrightarrow> distinct (map image_id imgs) \<Longrightarrow> set seen \<inter> set (map image_id imgs) = {} \<Longrightarrow>
    map image_ordinal imgs = map (\<lambda>i. int i + n) [0..<length imgs] \<Longrightarrow>
    images_of_payload n seen (map source_image_checkpoint imgs) = Inr imgs"
proof (induction imgs arbitrary: n seen)
  case (Cons i imgs)
  from Cons.prems(4) have n: "image_ordinal i = n"
    and rest: "map image_ordinal imgs = map (\<lambda>i. int i + (n + 1)) [0..<length imgs]"
    unfolding ordinals_Suc by auto
  from Cons.prems have "images_of_payload (n + 1) (image_id i # seen) (map source_image_checkpoint imgs) = Inr imgs"
    by (intro Cons.IH) (auto simp: rest)
  moreover obtain item where i: "source_image_checkpoint i = JObj item"
    by (simp add: source_image_checkpoint_def)
  moreover from Cons.prems n i have "image_of_payload n seen item = Some i"
    using image_of_payload_payload [of i seen item] by auto
  ultimately show ?case by simp
qed simp

lemma block_by_id_distinct:
  "distinct (map block_id bs) \<Longrightarrow> b \<in> set bs \<Longrightarrow> block_by_id bs (block_id b) = Some b"
  unfolding block_by_id_def
  by (rule map_of_is_SomeI) (auto simp: rev_map [symmetric] comp_def)

lemma evidence_of_payload_payload:
  "distinct (map block_id bs) \<Longrightarrow> snd ` set ev \<subseteq> set bs \<Longrightarrow> distinct (map fst ev) \<Longrightarrow> [] \<notin> set (map fst ev) \<Longrightarrow>
    distinct (map (block_id \<circ> snd) ev) \<Longrightarrow> set es \<inter> set (map fst ev) = {} \<Longrightarrow>
    set ids \<inter> set (map (block_id \<circ> snd) ev) = {} \<Longrightarrow>
    evidence_of_payload bs es ids
      (map (\<lambda>(e, b). JObj [(''evidence_id'', JStr e), (''block_id'', JStr (block_id b))]) ev) = Inr ev"
proof (induction ev arbitrary: es ids)
  case (Cons eb ev)
  obtain e b where eb: "eb = (e, b)" by (cases eb)
  from Cons.prems eb have "evidence_of_payload bs (e # es) (block_id b # ids)
      (map (\<lambda>(e, b). JObj [(''evidence_id'', JStr e), (''block_id'', JStr (block_id b))]) ev) = Inr ev"
    by (intro Cons.IH) auto
  with Cons.prems eb block_by_id_distinct [of bs b] show ?case by (auto simp: dict_get_def)
qed simp

text \<open>
  Source images and Evidence survive their checkpoints too: the retained images of a
  well-formed IR (their bytes live elsewhere), and the Evidence that binds every block
  exactly once.
\<close>

theorem artifact_checkpoints_roundtrip:
  assumes "blocks_ok bs" and "images_ok imgs" and "evidence_ok bs ev"
  shows "source_images_from_checkpoint (document_ir_checkpoint bs imgs) = Inr imgs \<and>
    evidence_from_checkpoint (evidence_checkpoint ev) bs = Inr ev"
proof
  have i: "images_of_payload 0 [] (map source_image_checkpoint imgs) = Inr imgs"
    using assms(2) by (intro images_of_payload_payload) (auto simp: images_ok_def)
  then show "source_images_from_checkpoint (document_ir_checkpoint bs imgs) = Inr imgs"
    by (auto simp: source_images_from_checkpoint_def document_ir_checkpoint_def dict_get_def)
  have "evidence_of_payload bs [] []
      (map (\<lambda>(e, b). JObj [(''evidence_id'', JStr e), (''block_id'', JStr (block_id b))]) ev) = Inr ev"
    using assms by (intro evidence_of_payload_payload) (auto simp: evidence_ok_def blocks_ok_def)
  moreover have "set (map (block_id \<circ> snd) ev) = set (map block_id bs)"
  proof -
    have "set (map (block_id \<circ> snd) ev) = block_id ` (snd ` set ev)" by (auto simp: image_image)
    also have "snd ` set ev = set bs" using assms(3) by (simp add: evidence_ok_def)
    finally show ?thesis by simp
  qed
  ultimately show "evidence_from_checkpoint (evidence_checkpoint ev) bs = Inr ev"
    using assms(3) by (simp add: evidence_from_checkpoint_def evidence_checkpoint_def evidence_ok_def)
qed

theorem artifact_checkpoints_roundtrip_witness:
  "evidence_from_checkpoint (evidence_checkpoint [(''e'', sample_block)]) [sample_block] = Inr [(''e'', sample_block)]"
  using artifact_checkpoints_roundtrip [of "[sample_block]" "[]" "[(''e'', sample_block)]"]
  by (simp add: blocks_ok_def block_ok_def images_ok_def evidence_ok_def sample_block_def)

end
