(* ===== verification/ExecutionProfile.thy ===== *)
theory ExecutionProfile
  imports Json
begin

section \<open>Execution profiles and token budgets (\<open>openkb/models/execution_profile.py\<close>)\<close>

text \<open>
  The token estimate, the Analysis execution profile with its identity, its serialisation
  and its budgets, and the readers of stored fields it shares with the analysis plan.  The
  provider adapter and the bundle of prompt contracts are arguments, as values; SHA-256 is
  an argument.
\<close>

subsection \<open>Estimating tokens\<close>

text \<open>\<open>"\u3400" <= char <= "\u9fff"\<close>, on the three code units of the character.\<close>

definition is_cjk :: "string \<Rightarrow> bool" where
  "is_cjk u =
     (case map (of_char :: char \<Rightarrow> nat) u of
        [a, b, c] \<Rightarrow> a = 227 \<and> 144 \<le> b \<or> 228 \<le> a \<and> a \<le> 233
      | _ \<Rightarrow> False)"

definition estimate_model_tokens :: "string \<Rightarrow> nat" where
  "estimate_model_tokens s =
     (let cjk = length (filter is_cjk (py_chars s));
          other = py_len s - cjk in
      max 1 (cjk + (other + 3) div 4))"

lemma estimate_model_tokens_bounds:
  "1 \<le> estimate_model_tokens s \<and> py_len s \<le> 4 * estimate_model_tokens s \<and>
   estimate_model_tokens s \<le> max 1 (py_len s)"
proof -
  define c m where "c = length (filter is_cjk (py_chars s))" and "m = py_len s - c"
  have "c \<le> py_len s" by (simp add: c_def py_len_def)
  then have n: "py_len s = c + m" by (simp add: m_def)
  have "m \<le> 4 * ((m + 3) div 4)" "(m + 3) div 4 \<le> m" by presburger+
  then show ?thesis
    unfolding estimate_model_tokens_def Let_def c_def [symmetric] m_def [symmetric] n by (auto simp: max_def)
qed

subsection \<open>Fields of a stored object\<close>

definition field_string :: "dict \<Rightarrow> string \<Rightarrow> string res" where
  "field_string d name =
     (case dict_get d name of
        JStr s \<Rightarrow> if s = [] then Inl (ValueError (name @ '' is invalid.'')) else Inr s
      | _ \<Rightarrow> Inl (ValueError (name @ '' is invalid.'')))"

definition field_int :: "dict \<Rightarrow> string \<Rightarrow> int res" where
  "field_int d name =
     (case dict_get d name of
        JInt i \<Rightarrow> if i < 0 then Inl (ValueError (name @ '' is invalid.'')) else Inr i
      | _ \<Rightarrow> Inl (ValueError (name @ '' is invalid.'')))"

definition field_bool :: "dict \<Rightarrow> string \<Rightarrow> bool res" where
  "field_bool d name =
     (case dict_get d name of JBool b \<Rightarrow> Inr b | _ \<Rightarrow> Inl (ValueError (name @ '' is invalid.'')))"

definition optional_int :: "dict \<Rightarrow> string \<Rightarrow> int \<Rightarrow> int res" where
  "optional_int d name n0 = (if map_of d name = None then Inr n0 else field_int d name)"

definition field_list :: "json \<Rightarrow> string \<Rightarrow> json list res" where
  "field_list v name = (case v of JList vs \<Rightarrow> Inr vs | _ \<Rightarrow> Inl (ValueError (name @ '' is invalid.'')))"

definition field_mapping :: "json \<Rightarrow> string \<Rightarrow> dict res" where
  "field_mapping v name = (case v of JObj d \<Rightarrow> Inr d | _ \<Rightarrow> Inl (ValueError (name @ '' is invalid.'')))"

definition string_item :: "string \<Rightarrow> json \<Rightarrow> string res" where
  "string_item name v =
     (case v of
        JStr s \<Rightarrow> if s = [] then Inl (ValueError (name @ '' is invalid.'')) else Inr s
      | _ \<Rightarrow> Inl (ValueError (name @ '' is invalid.'')))"

definition object_digest :: "(string \<Rightarrow> string) \<Rightarrow> json \<Rightarrow> string" where
  "object_digest sha256 v = sha256 (canonical_json v)"

subsection \<open>Execution profiles\<close>

record capability_profile =
  cap_context :: int
  cap_document_input :: int
  cap_native_json_schema :: bool
  cap_streaming :: bool
  cap_reasoning :: bool
  cap_maximum_output :: "int option"

record execution_profile =
  ep_provider :: string
  ep_model :: string
  ep_endpoint_digest :: string
  ep_adapter_identity :: string
  ep_adapter_version :: string
  ep_output_mode :: string
  ep_streaming :: bool
  ep_reasoning_effort :: string
  ep_prompt_contract_digest :: string
  ep_generation_policy_digest :: string
  ep_context_capacity :: int
  ep_document_input_capacity :: int
  ep_prompt_material :: int
  ep_final_reserve :: int
  ep_reasoning_allowance :: int
  ep_output_ceiling :: int
  ep_document_budget :: int

definition ep_payload :: "execution_profile \<Rightarrow> dict" where
  "ep_payload p =
     [(''provider'', JStr (ep_provider p)), (''model'', JStr (ep_model p)),
      (''endpoint_digest'', JStr (ep_endpoint_digest p)),
      (''adapter_identity'', JStr (ep_adapter_identity p)),
      (''adapter_version'', JStr (ep_adapter_version p)),
      (''structured_output_mode'', JStr (ep_output_mode p)), (''streaming'', JBool (ep_streaming p)),
      (''reasoning_effort'', JStr (ep_reasoning_effort p)),
      (''prompt_contract_digest'', JStr (ep_prompt_contract_digest p)),
      (''generation_policy_digest'', JStr (ep_generation_policy_digest p)),
      (''context_capacity'', JInt (ep_context_capacity p)),
      (''document_input_capacity'', JInt (ep_document_input_capacity p)),
      (''prompt_material_tokens'', JInt (ep_prompt_material p)),
      (''final_output_reserve_tokens'', JInt (ep_final_reserve p)),
      (''reasoning_allowance_tokens'', JInt (ep_reasoning_allowance p)),
      (''provider_output_ceiling_tokens'', JInt (ep_output_ceiling p)),
      (''document_input_budget_tokens'', JInt (ep_document_budget p))]"

definition ep_identity :: "(string \<Rightarrow> string) \<Rightarrow> execution_profile \<Rightarrow> string" where
  "ep_identity sha256 p = object_digest sha256 (JObj (ep_payload p))"

definition ep_as_dict :: "(string \<Rightarrow> string) \<Rightarrow> execution_profile \<Rightarrow> json" where
  "ep_as_dict sha256 p = JObj (ep_payload p @ [(''identity'', JStr (ep_identity sha256 p))])"

text \<open>\<open>stored is not None and stored != identity\<close>.\<close>

definition identity_mismatch :: "json \<Rightarrow> string \<Rightarrow> bool" where
  "identity_mismatch stored identity \<longleftrightarrow> stored \<noteq> JNull \<and> stored \<noteq> JStr identity"

definition ep_fields :: "dict \<Rightarrow> execution_profile res" where
  "ep_fields d =
     res_bind (field_string d ''structured_output_mode'') (\<lambda>mode.
     if mode \<notin> {''json_schema'', ''json_object'', ''prompt_contract''}
     then Inl (ValueError ''Model Execution Profile structured output mode is invalid.'') else
     res_bind (field_string d ''provider'') (\<lambda>provider.
     res_bind (field_string d ''model'') (\<lambda>model.
     res_bind (field_string d ''endpoint_digest'') (\<lambda>endpoint.
     res_bind (field_string d ''adapter_identity'') (\<lambda>adapter.
     res_bind (field_string d ''adapter_version'') (\<lambda>version.
     res_bind (field_bool d ''streaming'') (\<lambda>streaming.
     res_bind (field_string d ''reasoning_effort'') (\<lambda>effort.
     res_bind (field_string d ''prompt_contract_digest'') (\<lambda>prompt.
     res_bind (field_string d ''generation_policy_digest'') (\<lambda>policy.
     res_bind (field_int d ''context_capacity'') (\<lambda>context.
     res_bind (field_int d ''document_input_capacity'') (\<lambda>capacity.
     res_bind (field_int d ''prompt_material_tokens'') (\<lambda>material.
     res_bind (field_int d ''final_output_reserve_tokens'') (\<lambda>reserve.
     res_bind (field_int d ''reasoning_allowance_tokens'') (\<lambda>allowance.
     res_bind (field_int d ''provider_output_ceiling_tokens'') (\<lambda>ceiling.
     res_bind (field_int d ''document_input_budget_tokens'') (\<lambda>budget.
     Inr \<lparr>ep_provider = provider, ep_model = model, ep_endpoint_digest = endpoint,
          ep_adapter_identity = adapter, ep_adapter_version = version, ep_output_mode = mode,
          ep_streaming = streaming, ep_reasoning_effort = effort, ep_prompt_contract_digest = prompt,
          ep_generation_policy_digest = policy, ep_context_capacity = context,
          ep_document_input_capacity = capacity, ep_prompt_material = material,
          ep_final_reserve = reserve, ep_reasoning_allowance = allowance,
          ep_output_ceiling = ceiling, ep_document_budget = budget\<rparr>)))))))))))))))))"

definition ep_from_dict :: "(string \<Rightarrow> string) \<Rightarrow> json \<Rightarrow> execution_profile res" where
  "ep_from_dict sha256 v =
     (case v of
        JObj d \<Rightarrow>
          res_bind (ep_fields d) (\<lambda>p.
            if identity_mismatch (dict_get d ''identity'') (ep_identity sha256 p)
            then Inl (ValueError ''Model Execution Profile identity does not match its fields.'')
            else Inr p)
      | _ \<Rightarrow> Inl (ValueError ''Model Execution Profile must be an object.''))"

subsection \<open>Budgets\<close>

text \<open>The provider's adapter, as the fields the profile reads.\<close>

record provider_adapter =
  pa_identity :: string
  pa_version :: string
  pa_structured_analysis :: bool
  pa_output_mode :: "string option"
  pa_supported_reasoning :: "string list"

definition reasoning_numerators :: "(string \<times> int) list" where
  "reasoning_numerators = [(''off'', 0), (''low'', 1), (''medium'', 2), (''high'', 4)]"

definition reserve_output_tokens :: "json \<Rightarrow> int res" where
  "reserve_output_tokens v =
     (case v of
        JObj d \<Rightarrow>
          (case dict_get d ''token_budget_policy'' of
             JObj policy \<Rightarrow>
               (case dict_get policy ''reserve_output_tokens'' of
                  JInt n \<Rightarrow> Inr (if 0 < n then n else 2048) | _ \<Rightarrow> Inr 2048)
           | _ \<Rightarrow> Inr 2048)
      | _ \<Rightarrow> Inl (ValueError ''Prompt Contract snapshot is invalid.''))"

definition prompt_material_tokens :: "json \<Rightarrow> int res" where
  "prompt_material_tokens v =
     (case v of
        JObj d \<Rightarrow> Inr (int (estimate_model_tokens (canonical_json (JObj
          (map (\<lambda>name. (name, dict_get d name))
             [''instructions'', ''input_shape'', ''output_schema'', ''output_example'', ''validation_rules''])))))
      | _ \<Rightarrow> Inl (ValueError ''Prompt Contract snapshot is invalid.''))"

definition capacity_error :: "string \<Rightarrow> 'a res" where
  "capacity_error what = Inl (ValueError (''DesktopModelCapacityError: '' @ what))"

text \<open>The snapshot of the operation, or the one of \<open>knowledge_analysis\<close>.\<close>

definition operation_snapshot :: "dict \<Rightarrow> string \<Rightarrow> json res" where
  "operation_snapshot contracts operation =
     (case dict_get contracts operation of
        JObj d \<Rightarrow> Inr (JObj d)
      | _ \<Rightarrow> (case map_of contracts ''knowledge_analysis'' of
                None \<Rightarrow> Inl (KeyError ''knowledge_analysis'') | Some v \<Rightarrow> Inr v))"

text \<open>Final reserve, reasoning allowance, output ceiling and document budget.\<close>

definition final_reserve :: "int \<Rightarrow> int \<Rightarrow> int" where
  "final_reserve requested context = min requested (max 4096 (context div 2))"

definition allowance_of :: "int \<Rightarrow> int \<Rightarrow> int" where
  "allowance_of reserve numerator = reserve * numerator div 2"

definition profile_of_budgets ::
  "(string \<Rightarrow> string) \<Rightarrow> dict \<Rightarrow> dict \<Rightarrow> provider_adapter \<Rightarrow> string \<Rightarrow> string \<Rightarrow> string \<Rightarrow> capability_profile \<Rightarrow>
    string \<Rightarrow> string \<Rightarrow> int \<Rightarrow> int \<Rightarrow> int \<Rightarrow> execution_profile res" where
  "profile_of_budgets sha256 bundle contracts adapter mode provider model cap effort url requested material numerator =
     (let reserve = final_reserve requested (cap_context cap);
          allowance = allowance_of reserve numerator;
          ceiling = reserve + allowance;
          budget = min (cap_document_input cap) (cap_context cap - material - ceiling) in
      if budget < 512 then capacity_error ''capacity''
      else Inr \<lparr>ep_provider = provider, ep_model = model, ep_endpoint_digest = sha256 url,
        ep_adapter_identity = pa_identity adapter, ep_adapter_version = pa_version adapter,
        ep_output_mode = mode, ep_streaming = True, ep_reasoning_effort = effort,
        ep_prompt_contract_digest = object_digest sha256 (JObj bundle),
        ep_generation_policy_digest = object_digest sha256 (JObj
          (map (\<lambda>(op, v). (op, case v of JObj d \<Rightarrow> dict_get d ''generation_parameters'' | _ \<Rightarrow> JNull))
             (filter (\<lambda>(op, v). is_object v) contracts))),
        ep_context_capacity = cap_context cap, ep_document_input_capacity = cap_document_input cap,
        ep_prompt_material = material, ep_final_reserve = reserve,
        ep_reasoning_allowance = allowance, ep_output_ceiling = ceiling, ep_document_budget = budget\<rparr>)"

definition build_execution_profile ::
  "(string \<Rightarrow> string) \<Rightarrow> dict \<Rightarrow> provider_adapter \<Rightarrow> string \<Rightarrow> string \<Rightarrow> capability_profile \<Rightarrow> string \<Rightarrow>
    string \<Rightarrow> string \<Rightarrow> execution_profile res" where
  "build_execution_profile sha256 bundle adapter provider model cap effort api_base_url operation =
     (case pa_output_mode adapter of
        None \<Rightarrow> capacity_error ''analysis''
      | Some mode \<Rightarrow>
        if \<not> pa_structured_analysis adapter then capacity_error ''analysis''
        else if effort \<notin> set (pa_supported_reasoning adapter) then capacity_error ''reasoning''
        else if \<not> cap_streaming cap then capacity_error ''streaming''
        else res_bind (case dict_get bundle ''contracts'' of JObj c \<Rightarrow> Inr c | _ \<Rightarrow> Inl AssertionError) (\<lambda>contracts.
          res_bind (operation_snapshot contracts operation) (\<lambda>snapshot.
          res_bind (reserve_output_tokens snapshot) (\<lambda>requested.
          res_bind (prompt_material_tokens snapshot) (\<lambda>material.
          res_bind (case map_of reasoning_numerators effort of None \<Rightarrow> Inl (KeyError effort) | Some n \<Rightarrow> Inr n) (\<lambda>numerator.
          profile_of_budgets sha256 bundle contracts adapter mode provider model cap effort api_base_url
            requested material numerator))))))"

text \<open>The budgets of a plan without a profile; \<open>policy\<close> is the contract's token budget policy.\<close>

definition positive_int :: "json \<Rightarrow> int \<Rightarrow> int" where
  "positive_int v n0 = (case v of JInt i \<Rightarrow> if 0 < i then i else n0 | _ \<Rightarrow> n0)"

definition analysis_output_budget :: "capability_profile \<Rightarrow> dict \<Rightarrow> int" where
  "analysis_output_budget cap policy =
     min (positive_int (dict_get policy ''reserve_output_tokens'') 4096) (max 4096 (cap_context cap div 2))"

definition analysis_input_budget :: "capability_profile \<Rightarrow> dict \<Rightarrow> int" where
  "analysis_input_budget cap policy =
     min (cap_document_input cap) (max 1 (cap_context cap - analysis_output_budget cap policy))"

lemma reserve_output_tokens_pos: "reserve_output_tokens v = Inr n \<Longrightarrow> 0 < n"
  by (auto simp: reserve_output_tokens_def split: json.splits if_splits)

lemma estimate_model_tokens_pos: "0 < estimate_model_tokens s"
  using estimate_model_tokens_bounds [of s] by simp

lemma prompt_material_tokens_pos: "prompt_material_tokens v = Inr n \<Longrightarrow> 0 < n"
  by (auto simp: prompt_material_tokens_def estimate_model_tokens_pos split: json.splits)

lemma numerator_range: "map_of reasoning_numerators e = Some n \<Longrightarrow> 0 \<le> n \<and> n \<le> 4"
  by (auto simp: reasoning_numerators_def split: if_splits)

text \<open>
  A profile's budgets fit its context.  Whatever the adapter, the contracts and the
  selected reasoning, an execution profile that is built leaves at least 512 tokens for
  the document, never more than the document capacity, and the prompt, the output ceiling
  (final text and reasoning) and the document together stay within the context.
\<close>

theorem execution_profile_fits_context:
  assumes "build_execution_profile sha256 bundle adapter provider model cap effort url operation = Inr p"
  shows "512 \<le> ep_document_budget p \<and> ep_document_budget p \<le> cap_document_input cap \<and>
    ep_prompt_material p + ep_output_ceiling p + ep_document_budget p \<le> cap_context cap \<and>
    ep_output_ceiling p = ep_final_reserve p + ep_reasoning_allowance p \<and>
    0 < ep_final_reserve p \<and> 0 \<le> ep_reasoning_allowance p \<and>
    ep_reasoning_allowance p \<le> 2 * ep_final_reserve p"
proof -
  from assms obtain mode contracts requested material numerator snapshot where
    r: "reserve_output_tokens snapshot = Inr requested" "prompt_material_tokens snapshot = Inr material"
      "map_of reasoning_numerators effort = Some numerator"
    and p: "profile_of_budgets sha256 bundle contracts adapter mode provider model cap effort url
      requested material numerator = Inr p"
    unfolding build_execution_profile_def
    by (auto simp: res_bind_Inr_iff capacity_error_def split: if_splits option.splits)
  let ?reserve = "final_reserve requested (cap_context cap)"
  have pos: "0 < ?reserve" using reserve_output_tokens_pos [OF r(1)] by (simp add: final_reserve_def)
  have n: "0 \<le> numerator" "numerator \<le> 4" using numerator_range [OF r(3)] by auto
  have "0 \<le> ?reserve * numerator" using pos n by simp
  moreover have "?reserve * numerator \<le> ?reserve * 4" using pos n by (intro mult_left_mono) auto
  ultimately have a: "0 \<le> allowance_of ?reserve numerator" "allowance_of ?reserve numerator \<le> 2 * ?reserve"
    by (auto simp: allowance_of_def)
  from p pos a show ?thesis
    by (auto simp: profile_of_budgets_def capacity_error_def Let_def split: if_splits)
qed

definition sample_adapter :: provider_adapter where
  "sample_adapter = \<lparr>pa_identity = ''a'', pa_version = ''1'', pa_structured_analysis = True,
     pa_output_mode = Some ''json_object'', pa_supported_reasoning = [''off'', ''low'']\<rparr>"

definition sample_capability :: capability_profile where
  "sample_capability = \<lparr>cap_context = 16000, cap_document_input = 8000, cap_native_json_schema = False,
     cap_streaming = True, cap_reasoning = True, cap_maximum_output = None\<rparr>"

definition sample_bundle :: dict where
  "sample_bundle = [(''contracts'', JObj [(''knowledge_analysis'', JObj [])])]"

theorem execution_profile_fits_context_witness:
  "\<exists>p. build_execution_profile (\<lambda>s. s) sample_bundle sample_adapter ''p'' ''m'' sample_capability ''low'' [] ''op'' = Inr p \<and>
     ep_prompt_material p + ep_output_ceiling p + ep_document_budget p \<le> 16000 \<and> 512 \<le> ep_document_budget p"
proof -
  have "case build_execution_profile (\<lambda>s. s) sample_bundle sample_adapter ''p'' ''m'' sample_capability ''low'' [] ''op'' of
      Inl _ \<Rightarrow> False | Inr _ \<Rightarrow> True" by code_simp
  then obtain p where p: "build_execution_profile (\<lambda>s. s) sample_bundle sample_adapter ''p'' ''m'' sample_capability
      ''low'' [] ''op'' = Inr p" by (auto split: sum.splits)
  from execution_profile_fits_context [OF p] p show ?thesis by (auto simp: sample_capability_def)
qed

subsection \<open>A profile survives storage\<close>

definition ep_ok :: "execution_profile \<Rightarrow> bool" where
  "ep_ok p \<longleftrightarrow>
     [] \<notin> set [ep_provider p, ep_model p, ep_endpoint_digest p, ep_adapter_identity p, ep_adapter_version p,
       ep_reasoning_effort p, ep_prompt_contract_digest p, ep_generation_policy_digest p] \<and>
     ep_output_mode p \<in> {''json_schema'', ''json_object'', ''prompt_contract''} \<and>
     list_all (\<lambda>n. 0 \<le> n) [ep_context_capacity p, ep_document_input_capacity p, ep_prompt_material p,
       ep_final_reserve p, ep_reasoning_allowance p, ep_output_ceiling p, ep_document_budget p]"

lemma field_Inr:
  "field_string d k = Inr s \<longleftrightarrow> dict_get d k = JStr s \<and> s \<noteq> []"
  "field_int d k = Inr i \<longleftrightarrow> dict_get d k = JInt i \<and> 0 \<le> i"
  "field_bool d k = Inr b \<longleftrightarrow> dict_get d k = JBool b"
  by (auto simp: field_string_def field_int_def field_bool_def split: json.splits if_splits)

lemma dict_get_Cons [simp]:
  "dict_get ((k', v) # d) k = (if k' = k then v else dict_get d k)"
  by (simp add: dict_get_def)

lemma ep_fields_payload: "ep_ok p \<Longrightarrow> ep_fields (ep_payload p @ xs) = Inr p"
  by (auto simp: ep_fields_def ep_payload_def field_string_def field_int_def field_bool_def ep_ok_def)

lemma ep_fields_ok: "ep_fields d = Inr p \<Longrightarrow> ep_ok p"
  by (cases p) (auto simp: ep_fields_def res_bind_Inr_iff field_Inr ep_ok_def split: if_splits)

lemma dict_get_payload_identity: "dict_get (ep_payload p @ [(''identity'', v)]) ''identity'' = v"
  by (simp add: ep_payload_def)

text \<open>
  A profile survives storage and cannot be altered there.  A well-formed profile
  restores from its dictionary unchanged; whatever is restored is well-formed; and when
  the stored object names an identity, it is the digest of exactly the restored fields.
\<close>

theorem execution_profile_roundtrip:
  "(ep_ok p \<longrightarrow> ep_from_dict sha256 (ep_as_dict sha256 p) = Inr p) \<and>
   (\<forall>d q. ep_from_dict sha256 (JObj d) = Inr q \<longrightarrow>
      ep_ok q \<and> (dict_get d ''identity'' = JNull \<or>
        dict_get d ''identity'' = JStr (sha256 (canonical_json (JObj (ep_payload q))))))"
proof (intro conjI impI allI)
  assume "ep_ok p"
  then show "ep_from_dict sha256 (ep_as_dict sha256 p) = Inr p"
    by (simp add: ep_from_dict_def ep_as_dict_def ep_fields_payload dict_get_payload_identity
        identity_mismatch_def)
next
  fix d q
  assume "ep_from_dict sha256 (JObj d) = Inr q"
  then have "ep_fields d = Inr q" "\<not> identity_mismatch (dict_get d ''identity'') (ep_identity sha256 q)"
    by (auto simp: ep_from_dict_def res_bind_Inr_iff split: if_splits)
  then show "ep_ok q" "dict_get d ''identity'' = JNull \<or>
      dict_get d ''identity'' = JStr (sha256 (canonical_json (JObj (ep_payload q))))"
    by (auto simp: ep_fields_ok identity_mismatch_def ep_identity_def object_digest_def)
qed

definition sample_profile :: execution_profile where
  "sample_profile = \<lparr>ep_provider = ''p'', ep_model = ''m'', ep_endpoint_digest = ''e'',
     ep_adapter_identity = ''a'', ep_adapter_version = ''1'', ep_output_mode = ''json_object'',
     ep_streaming = True, ep_reasoning_effort = ''off'', ep_prompt_contract_digest = ''x'',
     ep_generation_policy_digest = ''y'', ep_context_capacity = 16000, ep_document_input_capacity = 8000,
     ep_prompt_material = 10, ep_final_reserve = 2048, ep_reasoning_allowance = 0,
     ep_output_ceiling = 2048, ep_document_budget = 8000\<rparr>"

theorem execution_profile_roundtrip_witness:
  "ep_from_dict (\<lambda>s. s) (ep_as_dict (\<lambda>s. s) sample_profile) = Inr sample_profile"
proof -
  have "ep_ok sample_profile" by (simp add: ep_ok_def sample_profile_def)
  with execution_profile_roundtrip show ?thesis by blast
qed

end
