(* ===== verification/AnalysisBatches.thy ===== *)
theory AnalysisBatches
  imports DocumentIR ExecutionProfile "HOL-Library.Multiset"
begin

section \<open>Packing Evidence into analysis batches\<close>

text \<open>
  \<open>openkb/knowledge/analysis/batch_planning.py\<close> and the merge topology of
  \<open>openkb/knowledge/analysis/plan.py\<close>.  The packing loop keeps its open batch and its
  closed batches as a state; what a batch may hold is a predicate \<open>fits\<close>, about which
  the packing lemmas assume nothing.  \<open>Path(..).name\<close> is an argument (\<open>path_name\<close>).
\<close>

subsection \<open>What a batch holds\<close>

type_synonym evidence_item = "string \<times> ir_block"

definition batch_section_paths :: "evidence_item list \<Rightarrow> string list list" where
  "batch_section_paths evidence = uniq (map (heading_path \<circ> snd) evidence)"

text \<open>\<open>block.locator or {...}\<close>: an empty locator is replaced too.\<close>

definition evidence_payload :: "evidence_item \<Rightarrow> json" where
  "evidence_payload item =
     (case item of (evidence_id, b) \<Rightarrow> JObj
       [(''evidence_id'', JStr evidence_id), (''kind'', JStr (block_kind b)),
        (''section'', JStr (py_join '' / '' (heading_path b))),
        (''locator'', JObj (case block_locator b of
            None \<Rightarrow> [(''line_start'', JInt (line_start b)), (''line_end'', JInt (line_end b))]
          | Some l \<Rightarrow> if l = [] then [(''line_start'', JInt (line_start b)), (''line_end'', JInt (line_end b))]
                      else l)),
        (''text'', JStr (block_text b))])"

definition batch_content :: "(string \<Rightarrow> string) \<Rightarrow> string \<Rightarrow> nat \<Rightarrow> nat \<Rightarrow> evidence_item list \<Rightarrow> string" where
  "batch_content path_name document ordinal batches evidence = canonical_json (JObj
     [(''schema_version'', JStr ''openkb.knowledge-analysis.v2''), (''analysis_scope'', JStr ''batch''),
      (''document_name'', JStr (path_name document)),
      (''batch_ordinal'', JInt (int ordinal)), (''batch_total'', JInt (int batches)),
      (''section_paths'', JList (map (\<lambda>p. JList (map JStr p)) (batch_section_paths evidence))),
      (''evidence'', JList (map evidence_payload evidence))])"

definition estimate_batch_tokens :: "(string \<Rightarrow> string) \<Rightarrow> string \<Rightarrow> evidence_item list \<Rightarrow> nat \<Rightarrow> nat \<Rightarrow> nat" where
  "estimate_batch_tokens path_name document evidence ordinal batches =
     estimate_model_tokens (batch_content path_name document ordinal batches evidence)"

definition envelope_reserve :: nat where
  "envelope_reserve = 64"

definition batch_fits ::
  "(string \<Rightarrow> string) \<Rightarrow> string \<Rightarrow> int \<Rightarrow> int option \<Rightarrow> int option \<Rightarrow> evidence_item list \<Rightarrow> bool" where
  "batch_fits path_name document budget max_evidence max_characters evidence =
     (if (case max_evidence of None \<Rightarrow> False | Some n \<Rightarrow> n < int (length evidence)) then False
      else let content = batch_content path_name document (length evidence) (length evidence) evidence in
        if (case max_characters of None \<Rightarrow> False | Some n \<Rightarrow> n < int (py_len content)) then False
        else int (estimate_model_tokens content + envelope_reserve) \<le> budget)"

subsection \<open>Sections\<close>

definition sections_cover_evidence :: "evidence_item list list \<Rightarrow> evidence_item list \<Rightarrow> bool" where
  "sections_cover_evidence sections evidence \<longleftrightarrow>
     sections \<noteq> [] \<and> [] \<notin> set sections \<and> concat sections = evidence"

text \<open>The loop: the sections closed so far, the open one and its path.\<close>

fun natural_loop ::
  "evidence_item list list \<Rightarrow> evidence_item list \<Rightarrow> string list option \<Rightarrow> evidence_item list \<Rightarrow>
    evidence_item list list" where
  "natural_loop sections current path [] = (if current \<noteq> [] then sections @ [current] else sections)"
| "natural_loop sections current path (item # items) =
     (let p = heading_path (snd item) in
      if current \<noteq> [] \<and> Some p \<noteq> path
      then natural_loop (sections @ [current]) [item] (Some p) items
      else natural_loop sections (current @ [item]) (Some p) items)"

definition natural_sections :: "evidence_item list \<Rightarrow> evidence_item list list" where
  "natural_sections evidence = natural_loop [] [] None evidence"

subsection \<open>The packing loop\<close>

definition over_budget :: "'a res" where
  "over_budget = Inl (ImportError ''desktop_import_state_invalid'')"

text \<open>The items of a section that does not fit into one batch.\<close>

fun pack_items ::
  "('a list \<Rightarrow> bool) \<Rightarrow> 'a list list \<Rightarrow> 'a list \<Rightarrow> 'a list \<Rightarrow> ('a list list \<times> 'a list) res" where
  "pack_items fits batches current [] = Inr (batches, current)"
| "pack_items fits batches current (item # items) =
     (let (batches', current') =
        (if current \<noteq> [] \<and> \<not> fits (current @ [item]) then (batches @ [current], []) else (batches, current)) in
      if \<not> fits [item] then over_budget
      else pack_items fits batches' (current' @ [item]) items)"

fun pack_sections ::
  "('a list \<Rightarrow> bool) \<Rightarrow> 'a list list \<Rightarrow> 'a list \<Rightarrow> 'a list list \<Rightarrow> ('a list list \<times> 'a list) res" where
  "pack_sections fits batches current [] = Inr (batches, current)"
| "pack_sections fits batches current (section # sections) =
     (if current \<noteq> [] \<and> fits (current @ section)
      then pack_sections fits batches (current @ section) sections
      else let batches' = (if current \<noteq> [] then batches @ [current] else batches) in
        if fits section then pack_sections fits batches' section sections
        else res_bind (pack_items fits batches' [] section)
               (\<lambda>(bs, c). pack_sections fits bs c sections))"

definition plan_batches ::
  "(string \<Rightarrow> string) \<Rightarrow> evidence_item list \<Rightarrow> evidence_item list list option \<Rightarrow> string \<Rightarrow> int \<Rightarrow>
    int option \<Rightarrow> int option \<Rightarrow> evidence_item list list res" where
  "plan_batches path_name evidence natural document budget max_evidence max_characters =
     (if evidence = [] \<or> budget < 1 \<or> (case max_evidence of None \<Rightarrow> False | Some n \<Rightarrow> n < 1) \<or>
         (case max_characters of None \<Rightarrow> False | Some n \<Rightarrow> n < 1)
      then Inl (ImportError ''desktop_import_state_invalid'')
      else let sections = (case natural of
                  None \<Rightarrow> natural_sections evidence
                | Some ss \<Rightarrow> if sections_cover_evidence ss evidence then ss else natural_sections evidence) in
        res_bind (pack_sections (batch_fits path_name document budget max_evidence max_characters) [] [] sections)
          (\<lambda>(bs, current). Inr (if current \<noteq> [] then bs @ [current] else bs)))"

text \<open>
  What the packing guarantees, whatever \<open>fits\<close> is: nothing is lost or reordered and every
  closed batch is non-empty and fits.
\<close>

lemma pack_items_step:
  "pack_items fits bs cur (item # items) =
     (if \<not> fits [item] then over_budget
      else if cur \<noteq> [] \<and> \<not> fits (cur @ [item]) then pack_items fits (bs @ [cur]) [item] items
      else pack_items fits bs (cur @ [item]) items)"
  by (cases "cur \<noteq> [] \<and> \<not> fits (cur @ [item])") auto

lemma over_budget_Inr [simp]: "over_budget \<noteq> Inr x"
  by (simp add: over_budget_def)

declare pack_items.simps(2) [simp del]

lemma pack_items_Inr:
  "pack_items fits bs cur items = Inr (bs', cur') \<Longrightarrow>
    list_all (\<lambda>b. b \<noteq> [] \<and> fits b) bs \<Longrightarrow> cur = [] \<or> fits cur \<Longrightarrow>
    concat bs' @ cur' = concat bs @ cur @ items \<and> list_all (\<lambda>b. b \<noteq> [] \<and> fits b) bs' \<and>
    (cur' = [] \<or> fits cur')"
proof (induction items arbitrary: bs cur)
  case (Cons item items)
  have f: "fits [item]" using Cons.prems(1) by (simp add: pack_items_step split: if_splits)
  show ?case
  proof (cases "cur \<noteq> [] \<and> \<not> fits (cur @ [item])")
    case True
    with Cons.prems(1) f have p: "pack_items fits (bs @ [cur]) [item] items = Inr (bs', cur')"
      by (simp add: pack_items_step)
    from Cons.prems(2,3) True have "list_all (\<lambda>b. b \<noteq> [] \<and> fits b) (bs @ [cur])" by simp
    from Cons.IH [OF p this] f show ?thesis by simp
  next
    case False
    with Cons.prems(1) f have p: "pack_items fits bs (cur @ [item]) items = Inr (bs', cur')"
      by (simp add: pack_items_step)
    from f False have "cur @ [item] = [] \<or> fits (cur @ [item])" by (cases "cur = []") simp_all
    from Cons.IH [OF p Cons.prems(2) this] show ?thesis by simp
  qed
qed simp

lemma pack_sections_Inr:
  "pack_sections fits bs cur ss = Inr (bs', cur') \<Longrightarrow>
    list_all (\<lambda>b. b \<noteq> [] \<and> fits b) bs \<Longrightarrow> cur = [] \<or> fits cur \<Longrightarrow>
    concat bs' @ cur' = concat bs @ cur @ concat ss \<and> list_all (\<lambda>b. b \<noteq> [] \<and> fits b) bs' \<and>
    (cur' = [] \<or> fits cur')"
proof (induction ss arbitrary: bs cur)
  case (Cons s ss)
  let ?bs = "if cur \<noteq> [] then bs @ [cur] else bs"
  have bs: "list_all (\<lambda>b. b \<noteq> [] \<and> fits b) ?bs" "concat ?bs = concat bs @ cur"
    using Cons.prems(2,3) by auto
  consider "cur \<noteq> [] \<and> fits (cur @ s)" | "\<not> (cur \<noteq> [] \<and> fits (cur @ s))" "fits s"
    | "\<not> (cur \<noteq> [] \<and> fits (cur @ s))" "\<not> fits s" by blast
  then show ?case
  proof cases
    case 1
    with Cons.prems Cons.IH [of bs "cur @ s"] show ?thesis by simp
  next
    case 2
    with Cons.prems(1) have "pack_sections fits ?bs s ss = Inr (bs', cur')" by (simp only: pack_sections.simps Let_def if_False if_True simp_thms)
    from Cons.IH [OF this bs(1)] 2 bs(2) show ?thesis by simp
  next
    case 3
    with Cons.prems(1) obtain b c where p: "pack_items fits ?bs [] s = Inr (b, c)"
      and q: "pack_sections fits b c ss = Inr (bs', cur')"
      by (auto simp: Let_def res_bind_Inr_iff)
    from pack_items_Inr [OF p bs(1)] Cons.IH [OF q] bs(2) show ?thesis by simp
  qed
qed simp

lemma natural_loop_concat:
  "concat (natural_loop ss cur p items) = concat ss @ cur @ items"
  by (induction ss cur p items rule: natural_loop.induct) (auto simp: Let_def)

lemma natural_loop_nonempty: "[] \<notin> set ss \<Longrightarrow> [] \<notin> set (natural_loop ss cur p items)"
  by (induction ss cur p items rule: natural_loop.induct) (auto simp: Let_def)

lemma natural_loop_paths:
  "\<forall>s\<in>set ss. \<exists>q. \<forall>x\<in>set s. heading_path (snd x) = q \<Longrightarrow>
    \<forall>x\<in>set cur. Some (heading_path (snd x)) = p \<Longrightarrow>
    \<forall>s\<in>set (natural_loop ss cur p items). \<exists>q. \<forall>x\<in>set s. heading_path (snd x) = q"
proof (induction ss cur p items rule: natural_loop.induct)
  case (1 ss cur p)
  then show ?case by (cases p) auto
next
  case (2 ss cur p item items)
  show ?case
  proof (cases "cur \<noteq> [] \<and> Some (heading_path (snd item)) \<noteq> p")
    case True
    have "\<forall>s\<in>set (ss @ [cur]). \<exists>q. \<forall>x\<in>set s. heading_path (snd x) = q"
      using 2(3,4) True by (cases p) auto
    with 2(1) [OF refl True] True show ?thesis by (simp add: Let_def)
  next
    case False
    with 2(4) have c: "\<forall>x\<in>set (cur @ [item]). Some (heading_path (snd x)) = Some (heading_path (snd item))"
      by auto
    have "natural_loop ss cur p (item # items) =
        natural_loop ss (cur @ [item]) (Some (heading_path (snd item))) items"
      using False by (auto simp: Let_def)
    with 2(2) [OF refl False 2(3) c] show ?thesis by (simp only:)
  qed
qed

lemma pack_items_total: "(\<And>x. x \<in> set items \<Longrightarrow> fits [x]) \<Longrightarrow> \<exists>r. pack_items fits bs cur items = Inr r"
  by (induction items arbitrary: bs cur) (auto simp: pack_items_step)

lemma pack_items_Inl:
  "pack_items fits bs cur items = Inl e \<Longrightarrow> (\<exists>x\<in>set items. \<not> fits [x]) \<and> Inl e = (over_budget :: 'b res)"
  by (induction items arbitrary: bs cur) (auto simp: pack_items_step over_budget_def split: if_splits)

lemma pack_sections_Inl:
  "pack_sections fits bs cur ss = Inl e \<Longrightarrow> \<exists>x\<in>set (concat ss). \<not> fits [x]"
proof (induction ss arbitrary: bs cur)
  case (Cons s ss)
  let ?bs = "if cur \<noteq> [] then bs @ [cur] else bs"
  consider "pack_sections fits bs (cur @ s) ss = Inl e" | "pack_sections fits ?bs s ss = Inl e"
    | "pack_items fits ?bs [] s = Inl e"
    | b c where "pack_sections fits b c ss = Inl e"
    using Cons.prems by (auto simp: Let_def res_bind_Inl_iff split: if_splits)
  then show ?case
  proof cases
    case 1
    from Cons.IH [OF 1] show ?thesis by auto
  next
    case 2
    from Cons.IH [OF 2] show ?thesis by auto
  next
    case 3
    from pack_items_Inl [OF 3] show ?thesis by auto
  next
    case 4
    from Cons.IH [OF 4] show ?thesis by auto
  qed
qed simp

lemma plan_batches_cases:
  assumes "plan_batches path_name evidence natural document budget max_evidence max_characters = Inr bs"
  shows "concat bs = evidence \<and>
    list_all (\<lambda>b. b \<noteq> [] \<and> batch_fits path_name document budget max_evidence max_characters b) bs"
proof -
  let ?ss = "case natural of None \<Rightarrow> natural_sections evidence
    | Some ss \<Rightarrow> if sections_cover_evidence ss evidence then ss else natural_sections evidence"
  from assms obtain bs0 cur where
    p: "pack_sections (batch_fits path_name document budget max_evidence max_characters) [] [] ?ss = Inr (bs0, cur)"
    and b: "bs = (if cur \<noteq> [] then bs0 @ [cur] else bs0)"
    by (auto simp: plan_batches_def Let_def res_bind_Inr_iff split: if_splits)
  have "concat (natural_sections evidence) = evidence"
    by (simp add: natural_sections_def natural_loop_concat)
  then have ss: "concat ?ss = evidence" by (simp add: sections_cover_evidence_def split: option.split)
  from pack_sections_Inr [OF p] ss b show ?thesis by auto
qed

lemma batch_fits_bounds:
  assumes "batch_fits path_name document budget max_evidence max_characters b"
  shows "int (estimate_model_tokens (batch_content path_name document (length b) (length b) b)
      + envelope_reserve) \<le> budget"
    and "case max_evidence of None \<Rightarrow> True | Some n \<Rightarrow> int (length b) \<le> n"
    and "case max_characters of None \<Rightarrow> True
      | Some n \<Rightarrow> int (py_len (batch_content path_name document (length b) (length b) b)) \<le> n"
  using assms by (cases max_evidence; cases max_characters;
      simp add: batch_fits_def Let_def split: if_splits)+

text \<open>
  C32 Batches cover the Evidence and fit.  The batches of a successful plan, concatenated,
  are the Evidence in its order: nothing dropped, repeated or reordered, whether the given
  natural sections were used or the headings were.  No batch is empty and every batch fits
  the model's input budget, with the reserve for its envelope, and the optional limits.
\<close>

theorem batches_cover_and_fit:
  assumes "plan_batches path_name evidence natural document budget max_evidence max_characters = Inr bs"
  shows "concat bs = evidence \<and> [] \<notin> set bs \<and>
    (\<forall>b\<in>set bs. int (estimate_model_tokens (batch_content path_name document (length b) (length b) b)
        + envelope_reserve) \<le> budget \<and>
      (case max_evidence of None \<Rightarrow> True | Some n \<Rightarrow> int (length b) \<le> n) \<and>
      (case max_characters of None \<Rightarrow> True
        | Some n \<Rightarrow> int (py_len (batch_content path_name document (length b) (length b) b)) \<le> n))"
  using plan_batches_cases [OF assms] batch_fits_bounds by (fastforce simp: list_all_iff)

definition sample_evidence :: "evidence_item list" where
  "sample_evidence =
     [(''e0'', \<lparr>block_id = ''a'', block_ordinal = 0, block_kind = ''paragraph'', block_text = ''x'',
        heading_path = [''H''], line_start = 1, line_end = 1, block_locator = None\<rparr>),
      (''e1'', \<lparr>block_id = ''b'', block_ordinal = 1, block_kind = ''paragraph'', block_text = ''y'',
        heading_path = [''H''], line_start = 2, line_end = 2, block_locator = None\<rparr>)]"

theorem batches_cover_and_fit_witness:
  "\<exists>bs. plan_batches (\<lambda>s. s) sample_evidence None ''d'' 200 (Some 1) None = Inr bs \<and>
     concat bs = sample_evidence \<and> length bs = 2"
proof -
  have "case plan_batches (\<lambda>s. s) sample_evidence None ''d'' 200 (Some 1) None of
      Inl _ \<Rightarrow> False | Inr bs \<Rightarrow> length bs = 2" by code_simp
  then obtain bs where b: "plan_batches (\<lambda>s. s) sample_evidence None ''d'' 200 (Some 1) None = Inr bs" "length bs = 2"
    by (auto split: sum.splits)
  from batches_cover_and_fit [OF b(1)] b show ?thesis by blast
qed

lemma plan_batches_total:
  assumes "evidence \<noteq> []" and "1 \<le> budget" and "\<forall>n. max_evidence = Some n \<longrightarrow> 1 \<le> n"
    and "\<forall>n. max_characters = Some n \<longrightarrow> 1 \<le> n"
    and "\<forall>x\<in>set evidence. batch_fits path_name document budget max_evidence max_characters [x]"
  shows "\<exists>bs. plan_batches path_name evidence natural document budget max_evidence max_characters = Inr bs"
proof (rule ccontr)
  assume "\<not> ?thesis"
  then obtain e where e: "plan_batches path_name evidence natural document budget max_evidence max_characters = Inl e"
    by (meson sum.exhaust)
  let ?fits = "batch_fits path_name document budget max_evidence max_characters"
  let ?ss = "case natural of None \<Rightarrow> natural_sections evidence
    | Some ss \<Rightarrow> if sections_cover_evidence ss evidence then ss else natural_sections evidence"
  have limits: "\<not> (evidence = [] \<or> budget < 1 \<or> (case max_evidence of None \<Rightarrow> False | Some n \<Rightarrow> n < 1) \<or>
      (case max_characters of None \<Rightarrow> False | Some n \<Rightarrow> n < 1))"
    using assms(1-4) by (auto split: option.splits)
  from e have "pack_sections ?fits [] [] ?ss = Inl e"
    unfolding plan_batches_def if_not_P [OF limits] Let_def res_bind_Inl_iff by auto
  from pack_sections_Inl [OF this] have "\<exists>x\<in>set (concat ?ss). \<not> ?fits [x]" .
  moreover have "concat (natural_sections evidence) = evidence"
    by (simp add: natural_sections_def natural_loop_concat)
  then have "concat ?ss = evidence" by (simp add: sections_cover_evidence_def split: option.split)
  ultimately show False using assms(5) by auto
qed

text \<open>
  Packing fails only for a reason.  With valid limits, planning raises an error only if
  some single block alone exceeds the budget; if every block fits by itself, a plan exists.
\<close>

theorem batch_planning_total:
  assumes "evidence \<noteq> []" and "1 \<le> budget" and "\<forall>n. max_evidence = Some n \<longrightarrow> 1 \<le> n"
    and "\<forall>n. max_characters = Some n \<longrightarrow> 1 \<le> n"
    and "\<forall>x\<in>set evidence. batch_fits path_name document budget max_evidence max_characters [x]"
  shows "\<exists>bs. plan_batches path_name evidence natural document budget max_evidence max_characters = Inr bs"
  using assms by (rule plan_batches_total)

theorem batch_planning_total_witness:
  "\<exists>bs. plan_batches (\<lambda>s. s) sample_evidence None ''d'' 200 (Some 1) None = Inr bs"
proof (rule batch_planning_total)
  have "batch_fits (\<lambda>s. s) ''d'' 200 (Some 1) None [sample_evidence ! 0]"
    "batch_fits (\<lambda>s. s) ''d'' 200 (Some 1) None [sample_evidence ! 1]" by code_simp+
  then show "\<forall>x\<in>set sample_evidence. batch_fits (\<lambda>s. s) ''d'' 200 (Some 1) None [x]"
    by (simp add: sample_evidence_def)
qed (simp_all add: sample_evidence_def)

subsection \<open>The merge topology\<close>

record merge_node =
  mn_id :: string
  mn_level :: nat
  mn_ordinal :: nat
  mn_children :: "string list"

definition merge_id :: "nat \<Rightarrow> nat \<Rightarrow> string" where
  "merge_id level ordinal = ''merge:'' @ nat_digits level @ '':'' @ nat_digits ordinal"

text \<open>One level: groups of \<open>fan_in\<close> children; a group of one moves up as it is.\<close>

function merge_level :: "nat \<Rightarrow> nat \<Rightarrow> nat \<Rightarrow> string list \<Rightarrow> merge_node list \<times> string list" where
  "merge_level fan_in level ordinal children =
     (if children = [] \<or> fan_in = 0 then ([], [])
      else let grp = take fan_in children;
               (nodes, parents) = merge_level fan_in level (Suc ordinal) (drop fan_in children) in
        if length grp = 1 then (nodes, hd grp # parents)
        else (\<lparr>mn_id = merge_id level ordinal, mn_level = level, mn_ordinal = ordinal, mn_children = grp\<rparr> # nodes,
              merge_id level ordinal # parents))"
  by pat_completeness auto
termination
  by (relation "measure (\<lambda>(f, l, o', c). length c)") auto

declare merge_level.simps [simp del]

text \<open>The \<open>while\<close> loop with fuel: \<open>None\<close> is a loop that has not ended.\<close>

fun merge_levels :: "nat \<Rightarrow> nat \<Rightarrow> nat \<Rightarrow> string list \<Rightarrow> merge_node list option" where
  "merge_levels fuel fan_in level children =
     (if length children \<le> 1 then Some []
      else case fuel of
             0 \<Rightarrow> None
           | Suc f \<Rightarrow>
               (case merge_level fan_in level 0 children of
                  (nodes, parents) \<Rightarrow>
                    map_option (\<lambda>rest. nodes @ rest) (merge_levels f fan_in (Suc level) parents)))"

declare merge_levels.simps [simp del]

definition merge_leaves :: "nat \<Rightarrow> string list" where
  "merge_leaves n = map (\<lambda>i. ''batch:'' @ nat_digits i) [0..<n]"

text \<open>A step of zero is rejected by \<open>range\<close>.\<close>

definition hierarchical_merge_topology :: "nat \<Rightarrow> nat \<Rightarrow> nat \<Rightarrow> merge_node list res option" where
  "hierarchical_merge_topology fuel leaf_count fan_in =
     (if leaf_count \<le> 1 then Some (Inr [])
      else if fan_in = 0 then Some (Inl (ValueError ''range() arg 3 must not be zero''))
      else map_option Inr (merge_levels fuel fan_in 0 (merge_leaves leaf_count)))"

lemma merge_id_inject: "merge_id l o1 = merge_id l' o2 \<longleftrightarrow> l = l' \<and> o1 = o2"
proof
  assume eq: "merge_id l o1 = merge_id l' o2"
  have tw: "takeWhile is_digit (nat_digits n @ CHR '':'' # r) = nat_digits n"
    "dropWhile is_digit (nat_digits n @ CHR '':'' # r) = CHR '':'' # r" for n r
    using nat_digits_digits [of n] by (auto simp: list_all_iff is_digit_def)
  from eq have e: "nat_digits l @ CHR '':'' # nat_digits o1 = nat_digits l' @ CHR '':'' # nat_digits o2"
    by (simp add: merge_id_def)
  have "nat_digits l = nat_digits l'" using arg_cong [OF e, of "takeWhile is_digit"] unfolding tw .
  moreover have "nat_digits o1 = nat_digits o2" using arg_cong [OF e, of "dropWhile is_digit"] unfolding tw by simp
  ultimately show "l = l' \<and> o1 = o2"
    using digits_value_nat_digits [of l] digits_value_nat_digits [of l'] digits_value_nat_digits [of o1]
      digits_value_nat_digits [of o2] by metis
qed simp

text \<open>A list of merge nodes can be executed in order: its children are there before it.\<close>

fun merge_ready :: "string set \<Rightarrow> merge_node list \<Rightarrow> bool" where
  "merge_ready avail [] \<longleftrightarrow> True"
| "merge_ready avail (n # ns) \<longleftrightarrow> set (mn_children n) \<subseteq> avail \<and> merge_ready (insert (mn_id n) avail) ns"

lemma merge_ready_mono: "merge_ready a ns \<Longrightarrow> a \<subseteq> b \<Longrightarrow> merge_ready b ns"
  by (induction ns arbitrary: a b) (auto intro: order_trans, blast)

lemma merge_ready_append:
  "merge_ready a (ns @ ms) \<longleftrightarrow> merge_ready a ns \<and> merge_ready (a \<union> mn_id ` set ns) ms"
  by (induction ns arbitrary: a) (auto simp: Un_insert_left insert_commute)

definition merge_node_ok :: "nat \<Rightarrow> merge_node \<Rightarrow> bool" where
  "merge_node_ok fan_in n \<longleftrightarrow>
     mn_id n = merge_id (mn_level n) (mn_ordinal n) \<and> 2 \<le> length (mn_children n) \<and>
     length (mn_children n) \<le> fan_in"

lemma merge_level_spec:
  "merge_level f l k cs = (ns, ps) \<Longrightarrow> 2 \<le> f \<Longrightarrow>
    mset (concat (map mn_children ns)) + mset ps = mset cs + mset (map mn_id ns) \<and>
    list_all (\<lambda>n. merge_node_ok f n \<and> mn_level n = l \<and> k \<le> mn_ordinal n) ns \<and>
    distinct (map mn_ordinal ns) \<and> (2 \<le> length cs \<longrightarrow> length ps < length cs) \<and>
    length ps \<le> length cs \<and> (cs \<noteq> [] \<longrightarrow> ps \<noteq> []) \<and>
    (2 \<le> length cs \<and> length ps = 1 \<longrightarrow> set ps \<subseteq> mn_id ` set ns) \<and>
    (\<forall>a. set cs \<subseteq> a \<longrightarrow> merge_ready a ns)"
proof (induction f l k cs arbitrary: ns ps rule: merge_level.induct)
  case (1 f l k cs)
  show ?case
  proof (cases "cs = []")
    case True
    with "1.prems" show ?thesis by (subst (asm) merge_level.simps) simp
  next
    case False
    obtain ns1 ps1 where r: "merge_level f l (Suc k) (drop f cs) = (ns1, ps1)" by fastforce
    have "\<not> (cs = [] \<or> f = 0)" using False "1.prems"(2) by simp
    from "1.IH" [OF this refl r "1.prems"(2)]
    have ih: "mset (concat (map mn_children ns1)) + mset ps1 = mset (drop f cs) + mset (map mn_id ns1)"
      "list_all (\<lambda>n. merge_node_ok f n \<and> mn_level n = l \<and> Suc k \<le> mn_ordinal n) ns1"
      "distinct (map mn_ordinal ns1)" "length ps1 \<le> length (drop f cs)"
      "drop f cs \<noteq> [] \<longrightarrow> ps1 \<noteq> []" "\<And>a. set (drop f cs) \<subseteq> a \<Longrightarrow> merge_ready a ns1" by blast+
    have all: "list_all (\<lambda>n. merge_node_ok f n \<and> mn_level n = l \<and> k \<le> mn_ordinal n) ns1"
      using ih(2) by (auto simp: list_all_iff dest: Suc_leD)
    have split: "mset cs = mset (take f cs) + mset (drop f cs)"
      by (metis append_take_drop_id mset_append)
    have dr: "set (drop f cs) \<subseteq> set cs" "set (take f cs) \<subseteq> set cs"
      by (rule set_drop_subset, rule set_take_subset)
    show ?thesis
    proof (cases "length (take f cs) = 1")
      case True
      then have "length cs = 1" using "1.prems"(2) by (simp add: min_def split: if_splits)
      then obtain x where x: "cs = [x]" by (auto simp: length_Suc_conv)
      with "1.prems"(2) have one: "cs = [hd cs]" "drop f cs = []" "take f cs = [hd cs]"
        by simp_all
      from r one(2) have "ns1 = []" "ps1 = []" by (simp_all add: merge_level.simps)
      moreover have "merge_level f l k cs = (ns1, hd (take f cs) # ps1)"
        using r True False "1.prems"(2) by (subst merge_level.simps) (simp add: Let_def)
      ultimately have "ns = []" "ps = [hd cs]" using "1.prems"(1) one(3) by simp_all
      with x show ?thesis by simp
    next
      case nope: False
      let ?n = "\<lparr>mn_id = merge_id l k, mn_level = l, mn_ordinal = k, mn_children = take f cs\<rparr>"
      have nsps: "ns = ?n # ns1" "ps = merge_id l k # ps1"
        using "1.prems" r nope False by (subst (asm) merge_level.simps, simp add: Let_def)+
      have len: "2 \<le> length (take f cs)" using nope False "1.prems"(2) by (cases cs) (auto simp: min_def Suc_le_eq)
      then have short: "length ps < length cs" using ih(4) nsps(2) by auto
      have "distinct (map mn_ordinal ns)" using ih(2,3) nsps(1) by (auto simp: list_all_iff)
      moreover have "mset (concat (map mn_children ns)) + mset ps = mset cs + mset (map mn_id ns)"
        using ih(1) unfolding nsps split by simp
      moreover have "merge_ready a ns" if "set cs \<subseteq> a" for a
        using that dr ih(6) [of "insert (merge_id l k) a"] by (auto simp: nsps)
      ultimately show ?thesis
        using all len short by (auto simp: nsps merge_node_ok_def)
    qed
  qed
qed

lemma merge_levels_spec:
  "length cs \<le> fuel \<Longrightarrow> 2 \<le> f \<Longrightarrow> cs \<noteq> [] \<Longrightarrow>
    \<exists>ns root. merge_levels fuel f l cs = Some ns \<and>
      mset (concat (map mn_children ns)) + {#root#} = mset cs + mset (map mn_id ns) \<and>
      list_all (\<lambda>n. merge_node_ok f n \<and> l \<le> mn_level n) ns \<and>
      distinct (map (\<lambda>n. (mn_level n, mn_ordinal n)) ns) \<and>
      (2 \<le> length cs \<longrightarrow> root \<in> mn_id ` set ns) \<and> merge_ready (set cs) ns"
proof (induction fuel arbitrary: l cs)
  case (Suc fuel)
  show ?case
  proof (cases "length cs \<le> 1")
    case True
    with Suc.prems obtain x where "cs = [x]" by (cases cs) auto
    then show ?thesis by (simp add: merge_levels.simps)
  next
    case False
    obtain ns ps where lv: "merge_level f l 0 cs = (ns, ps)" by fastforce
    note sp = merge_level_spec [OF lv Suc.prems(2)]
    from sp False Suc.prems have "length ps \<le> fuel" "ps \<noteq> []" by auto
    from Suc.IH [OF this(1) Suc.prems(2) this(2), of "Suc l"] obtain ms root where
      ms: "merge_levels fuel f (Suc l) ps = Some ms"
        "mset (concat (map mn_children ms)) + {#root#} = mset ps + mset (map mn_id ms)"
        "list_all (\<lambda>n. merge_node_ok f n \<and> Suc l \<le> mn_level n) ms"
        "distinct (map (\<lambda>n. (mn_level n, mn_ordinal n)) ms)"
        "2 \<le> length ps \<longrightarrow> root \<in> mn_id ` set ms" "merge_ready (set ps) ms" by blast
    have "merge_levels (Suc fuel) f l cs = Some (ns @ ms)"
      using False lv ms(1) by (subst merge_levels.simps) simp
    moreover have "mset (concat (map mn_children (ns @ ms))) + {#root#} = mset cs + mset (map mn_id (ns @ ms))"
    proof -
      have "mset (concat (map mn_children (ns @ ms))) + {#root#} =
          mset (concat (map mn_children ns)) + (mset ps + mset (map mn_id ms))"
        using ms(2) by simp
      also have "\<dots> = mset cs + mset (map mn_id (ns @ ms))" using sp by (simp add: ac_simps)
      finally show ?thesis .
    qed
    moreover have "list_all (\<lambda>n. merge_node_ok f n \<and> l \<le> mn_level n) (ns @ ms)"
      using sp ms(3) by (auto simp: list_all_iff)
    moreover have "distinct (map (\<lambda>n. (mn_level n, mn_ordinal n)) (ns @ ms))"
    proof -
      have "distinct (map (\<lambda>n. (mn_level n, mn_ordinal n)) ns)"
        using sp by (auto simp: distinct_map inj_on_def)
      moreover have "set (map (\<lambda>n. (mn_level n, mn_ordinal n)) ns) \<inter> set (map (\<lambda>n. (mn_level n, mn_ordinal n)) ms) = {}"
        using sp ms(3) by (fastforce simp: list_all_iff)
      ultimately show ?thesis using ms(4) by simp
    qed
    moreover have "root \<in> mn_id ` set (ns @ ms)"
    proof (cases "2 \<le> length ps")
      case False
      with \<open>ps \<noteq> []\<close> obtain p where p: "ps = [p]" by (cases ps; cases "tl ps") auto
      with ms(1,2) have "root = p" by (auto simp: merge_levels.simps)
      with sp p \<open>\<not> length cs \<le> 1\<close> show ?thesis by auto
    qed (use ms(5) in auto)
    moreover have "merge_ready (set cs) (ns @ ms)"
    proof -
      have "set ps \<subseteq> set cs \<union> mn_id ` set ns"
      proof
        fix x
        assume "x \<in> set ps"
        then have "x \<in># mset (concat (map mn_children ns)) + mset ps" by simp
        then have "x \<in># mset cs + mset (map mn_id ns)" using sp by metis
        then show "x \<in> set cs \<union> mn_id ` set ns" by auto
      qed
      with sp merge_ready_mono [OF ms(6)] show ?thesis by (simp add: merge_ready_append)
    qed
    ultimately show ?thesis by blast
  qed
qed simp

text \<open>
  The merge topology is a tree.  For at least two batches and a fan-in of at least two
  the loop ends (as many steps as there are batches are enough), and the nodes it returns
  form one tree over the batches: every batch and every merge node but one, the root, is
  the child of exactly one merge node; every node has between two and \<open>fan_in\<close> children;
  no two nodes share an identifier; and executed in order each finds its children done.
\<close>

theorem merge_topology_tree:
  assumes "2 \<le> leaf_count" and "2 \<le> fan_in" and "leaf_count \<le> fuel"
  shows "\<exists>ns root. hierarchical_merge_topology fuel leaf_count fan_in = Some (Inr ns) \<and>
    root \<in> mn_id ` set ns \<and>
    mset (concat (map mn_children ns)) + {#root#} = mset (merge_leaves leaf_count) + mset (map mn_id ns) \<and>
    distinct (merge_leaves leaf_count @ map mn_id ns) \<and>
    (\<forall>n\<in>set ns. 2 \<le> length (mn_children n) \<and> length (mn_children n) \<le> fan_in) \<and>
    merge_ready (set (merge_leaves leaf_count)) ns"
proof -
  have "length (merge_leaves leaf_count) \<le> fuel" "merge_leaves leaf_count \<noteq> []"
    "2 \<le> length (merge_leaves leaf_count)"
    using assms by (simp_all add: merge_leaves_def)
  from merge_levels_spec [OF this(1) assms(2) this(2), of 0] this(3) obtain ns root where
    m: "merge_levels fuel fan_in 0 (merge_leaves leaf_count) = Some ns"
      "mset (concat (map mn_children ns)) + {#root#} = mset (merge_leaves leaf_count) + mset (map mn_id ns)"
      "list_all (\<lambda>n. merge_node_ok fan_in n \<and> 0 \<le> mn_level n) ns"
      "distinct (map (\<lambda>n. (mn_level n, mn_ordinal n)) ns)"
      "root \<in> mn_id ` set ns" "merge_ready (set (merge_leaves leaf_count)) ns" by blast
  have "map mn_id ns = map (\<lambda>(l, k). merge_id l k) (map (\<lambda>n. (mn_level n, mn_ordinal n)) ns)"
    using m(3) by (simp add: merge_node_ok_def list_all_iff)
  moreover have "inj (\<lambda>(l, k). merge_id l k)" by (auto simp: inj_def merge_id_inject)
  ultimately have "distinct (map mn_id ns)"
    using m(4) by (metis distinct_map inj_on_subset subset_UNIV)
  moreover have "distinct (merge_leaves leaf_count)"
  proof -
    have "inj (\<lambda>i. ''batch:'' @ nat_digits i)"
      by (rule injI) (metis append_same_eq digits_value_nat_digits same_append_eq)
    then show ?thesis by (simp add: merge_leaves_def distinct_map inj_on_def inj_def)
  qed
  moreover have "set (merge_leaves leaf_count) \<inter> set (map mn_id ns) = {}"
    using m(3) by (auto simp: merge_leaves_def list_all_iff merge_node_ok_def merge_id_def)
  ultimately have "distinct (merge_leaves leaf_count @ map mn_id ns)" by simp
  moreover have "hierarchical_merge_topology fuel leaf_count fan_in = Some (Inr ns)"
    using assms m(1) by (simp add: hierarchical_merge_topology_def)
  ultimately show ?thesis using m by (auto simp: list_all_iff merge_node_ok_def)
qed

theorem merge_topology_tree_witness:
  "\<exists>ns. hierarchical_merge_topology 5 5 4 = Some (Inr ns) \<and> merge_ready (set (merge_leaves 5)) ns"
  using merge_topology_tree [of 5 4 5] by auto

end
