(* ===== verification/AnalysisPrompts.thy ===== *)
theory AnalysisPrompts
  imports AnalysisBatches
begin

section \<open>The prompts of batches and merges\<close>

text \<open>
  The two prompt builders of \<open>openkb/knowledge/analysis/batch_planning.py\<close>.  A planned
  batch was measured with its own length in place of its ordinal and of the number of
  batches and without the language; the reserve of 64 tokens is what makes the real
  prompt fit, and the lemmas on the weight of a text show that it does.
\<close>

subsection \<open>Building the prompts\<close>

record analysis_batch =
  ab_id :: string
  ab_ordinal :: nat
  ab_section_paths :: "string list list"
  ab_evidence :: "evidence_item list"
  ab_status :: string
  ab_checkpoint :: "dict option"

definition batch_prompt_content :: "(string \<Rightarrow> string) \<Rightarrow> string \<Rightarrow> analysis_batch \<Rightarrow> nat \<Rightarrow> string option \<Rightarrow> string" where
  "batch_prompt_content path_name document batch batches language = canonical_json (JObj
     [(''schema_version'', JStr ''openkb.knowledge-analysis.v2''), (''analysis_scope'', JStr ''batch''),
      (''document_name'', JStr (path_name document)), (''knowledge_language'', json_opt_str language),
      (''batch_ordinal'', JInt (int (ab_ordinal batch))), (''batch_total'', JInt (int batches)),
      (''section_paths'', JList (map (\<lambda>p. JList (map JStr p)) (ab_section_paths batch))),
      (''evidence'', JList (map evidence_payload (ab_evidence batch)))])"

definition batch_prompt ::
  "(string \<Rightarrow> string) \<Rightarrow> string \<Rightarrow> analysis_batch \<Rightarrow> nat \<Rightarrow> int \<Rightarrow> string option \<Rightarrow> string res" where
  "batch_prompt path_name document batch batches budget language =
     (let content = batch_prompt_content path_name document batch batches language in
      if budget < int (estimate_model_tokens content) then over_budget else Inr content)"

text \<open>A merge input is an analysis, of which only the description is sent, or a description.\<close>

definition merge_prompt ::
  "('a \<Rightarrow> string) \<Rightarrow> (string \<Rightarrow> string) \<Rightarrow> string \<Rightarrow> ('a + string) list \<Rightarrow> string \<Rightarrow> string list \<Rightarrow> int \<Rightarrow>
    string option \<Rightarrow> string res" where
  "merge_prompt description path_name document inputs node_id conflicts budget language =
     (let content = canonical_json (JObj
        [(''schema_version'', JStr ''openkb.knowledge-analysis-description-merge.v1''),
         (''document_name'', JStr (path_name document)), (''knowledge_language'', json_opt_str language),
         (''merge_node_id'', JStr node_id),
         (''descriptions'', JList (map (\<lambda>v. JStr (case v of Inl a \<Rightarrow> description a | Inr s \<Rightarrow> s)) inputs)),
         (''semantic_conflicts'', JList (map JStr conflicts))]) in
      if budget < int (estimate_model_tokens content) then Inl (ImportError ''model_response_invalid'')
      else Inr content)"

subsection \<open>The weight of a text, in quarter tokens\<close>

definition text_weight :: "string \<Rightarrow> nat" where
  "text_weight s = (\<Sum>u\<leftarrow>py_chars s. if is_cjk u then 4 else 1)"

definition starts_char :: "string \<Rightarrow> bool" where
  "starts_char s \<longleftrightarrow> (case s of [] \<Rightarrow> True | c # _ \<Rightarrow> \<not> utf8_continuation c)"

lemma text_weight_Nil [simp]: "text_weight [] = 0"
  by (simp add: text_weight_def)

lemma starts_char_simps [simp]:
  "starts_char []" "starts_char (c # s) \<longleftrightarrow> \<not> utf8_continuation c"
  by (simp_all add: starts_char_def)

lemma py_chars_hd: "py_chars (c # s) = u # us \<Longrightarrow> hd u = c"
  by (auto split: list.splits if_splits)

lemma py_chars_append: "starts_char b \<Longrightarrow> py_chars (a @ b) = py_chars a @ py_chars b"
proof (induction a)
  case (Cons c a)
  show ?case
  proof (cases "py_chars a")
    case Nil
    then have "a = []" by (metis concat_py_chars concat.simps(1))
    then show ?thesis using Cons.prems by (cases b) (auto split: list.splits dest: py_chars_hd)
  qed (use Cons in auto)
qed simp

lemma text_weight_append: "starts_char b \<Longrightarrow> text_weight (a @ b) = text_weight a + text_weight b"
  by (simp add: text_weight_def py_chars_append)

lemma sum_weight:
  "(\<Sum>u\<leftarrow>us. if P u then 4 else 1) = 4 * length (filter P us) + (length us - length (filter P us))"
  using length_filter_le [of P] by (induction us) (auto simp: Suc_diff_le)

lemma text_weight_estimate:
  "text_weight s \<le> 4 * estimate_model_tokens s" "4 * estimate_model_tokens s \<le> text_weight s + 4"
proof -
  define c m where "c = length (filter is_cjk (py_chars s))" and "m = py_len s - c"
  have w: "text_weight s = 4 * c + m"
    by (simp add: text_weight_def sum_weight c_def m_def py_len_def)
  have "m \<le> 4 * ((m + 3) div 4)" "4 * ((m + 3) div 4) \<le> m + 3" by presburger+
  then show "text_weight s \<le> 4 * estimate_model_tokens s" "4 * estimate_model_tokens s \<le> text_weight s + 4"
    unfolding w by (auto simp: estimate_model_tokens_def Let_def c_def [symmetric] m_def [symmetric] max_def)
qed

lemma is_cjk_unit [simp]: "\<not> is_cjk [c]"
  by (simp add: is_cjk_def)

lemma py_chars_ascii: "list_all (\<lambda>c. (of_char c :: nat) < 128) s \<Longrightarrow> py_chars s = map (\<lambda>c. [c]) s"
  by (induction s) (auto simp: utf8_continuation_def split: list.splits)

lemma text_weight_ascii: "list_all (\<lambda>c. (of_char c :: nat) < 128) s \<Longrightarrow> text_weight s = length s"
proof -
  have "(\<Sum>u\<leftarrow>map (\<lambda>c. [c]) t. if is_cjk u then 4 else 1) = length t" for t :: string
    by (induction t) auto
  then show "list_all (\<lambda>c. (of_char c :: nat) < 128) s \<Longrightarrow> text_weight s = length s"
    by (simp add: text_weight_def py_chars_ascii)
qed

lemma ascii_starts_char: "list_all (\<lambda>c. (of_char c :: nat) < 128) s \<Longrightarrow> starts_char s"
  by (cases s) (auto simp: utf8_continuation_def)

lemma nat_digits_length: "n < 10 ^ Suc k \<Longrightarrow> length (nat_digits n) \<le> Suc k"
proof (induction k arbitrary: n)
  case 0
  then show ?case by (simp add: nat_digits.simps [of n])
next
  case (Suc k)
  then have "n div 10 < 10 ^ Suc k" by (auto simp: less_mult_imp_div_less mult.commute)
  from Suc.IH [OF this] show ?case by (subst nat_digits.simps) simp
qed

text \<open>Prompt and measured content differ in the two numbers and the language member.\<close>

definition language_member :: "string option \<Rightarrow> string" where
  "language_member language =
     CHR '','' # dump_str ''knowledge_language'' @ CHR '':'' # json_dumps (json_opt_str language)"

lemma sort_keys_opt_str [simp]: "sort_keys (json_opt_str v) = json_opt_str v"
  by (simp add: json_opt_str_def split: option.split)

lemma batch_content_split:
  obtains H B R S where "starts_char B" "starts_char R" "starts_char S"
    "\<And>i n. batch_content path_name document i n (ab_evidence b) =
       H @ nat_digits i @ B @ nat_digits n @ R @ S"
    "\<And>n language. ab_section_paths b = batch_section_paths (ab_evidence b) \<Longrightarrow>
       batch_prompt_content path_name document b n language =
       H @ nat_digits (ab_ordinal b) @ B @ nat_digits n @ R @ language_member language @ S"
proof
  let ?paths = "json_dumps (sort_keys (JList (map (\<lambda>p. JList (map JStr p)) (batch_section_paths (ab_evidence b)))))"
  let ?evidence = "json_dumps (sort_keys (JList (map evidence_payload (ab_evidence b))))"
  let ?H = "CHR ''{'' # dump_str ''analysis_scope'' @ CHR '':'' # dump_str ''batch'' @
      CHR '','' # dump_str ''batch_ordinal'' @ '':''"
  let ?B = "CHR '','' # dump_str ''batch_total'' @ '':''"
  let ?R = "CHR '','' # dump_str ''document_name'' @ CHR '':'' # dump_str (path_name document) @
      CHR '','' # dump_str ''evidence'' @ CHR '':'' # ?evidence"
  let ?S = "CHR '','' # dump_str ''schema_version'' @ CHR '':'' # dump_str ''openkb.knowledge-analysis.v2'' @
      CHR '','' # dump_str ''section_paths'' @ CHR '':'' # ?paths @ ''}''"
  show "starts_char ?B" "starts_char ?R" "starts_char ?S" by (simp_all add: utf8_continuation_def)
  show "batch_content path_name document i n (ab_evidence b) =
      ?H @ nat_digits i @ ?B @ nat_digits n @ ?R @ ?S" for i n
    by (simp add: batch_content_def canonical_json_def int_digits_def)
  show "batch_prompt_content path_name document b n language =
      ?H @ nat_digits (ab_ordinal b) @ ?B @ nat_digits n @ ?R @ language_member language @ ?S"
    if "ab_section_paths b = batch_section_paths (ab_evidence b)" for n language
    using that by (simp add: batch_prompt_content_def canonical_json_def int_digits_def language_member_def)
qed

lemma text_weight_digits: "text_weight (nat_digits n) = length (nat_digits n)"
  and starts_char_digits: "starts_char (nat_digits n)"
  using int_digits_ascii [of "int n"] by (simp_all add: int_digits_def text_weight_ascii ascii_starts_char)

lemma batch_content_weight:
  obtains w r where
    "\<And>i n. text_weight (batch_content path_name document i n (ab_evidence b)) =
       w + length (nat_digits i) + length (nat_digits n)"
    "\<And>n language. ab_section_paths b = batch_section_paths (ab_evidence b) \<Longrightarrow>
       text_weight (batch_prompt_content path_name document b n language) =
       w + length (nat_digits (ab_ordinal b)) + length (nat_digits n) + text_weight (language_member language)"
proof -
  obtain H B R S where s: "starts_char B" "starts_char R" "starts_char S"
    and c: "\<And>i n. batch_content path_name document i n (ab_evidence b) =
       H @ nat_digits i @ B @ nat_digits n @ R @ S"
    and p: "\<And>n language. ab_section_paths b = batch_section_paths (ab_evidence b) \<Longrightarrow>
       batch_prompt_content path_name document b n language =
       H @ nat_digits (ab_ordinal b) @ B @ nat_digits n @ R @ language_member language @ S"
    by (rule batch_content_split [of path_name document b]) blast
  have l: "starts_char (language_member language)" for language
    by (simp add: language_member_def utf8_continuation_def)
  have st: "starts_char x \<Longrightarrow> x \<noteq> [] \<Longrightarrow> starts_char (x @ y)" for x y
    by (cases x) simp_all
  have st': "starts_char x \<Longrightarrow> starts_char y \<Longrightarrow> starts_char (x @ y)" for x y
    using st by (cases x) simp_all
  note weights = text_weight_append text_weight_digits starts_char_digits st' s l
  show thesis
    by (rule that [of "text_weight H + text_weight B + text_weight R + text_weight S"])
      (simp_all add: c p weights)
qed

lemma language_member_weight:
  "text_weight (language_member language) =
     22 + (case language of None \<Rightarrow> 4 | Some l \<Rightarrow> text_weight (dump_str l))"
proof -
  have key: "language_member language = (CHR '','' # dump_str ''knowledge_language'' @ '':'') @
      (case language of None \<Rightarrow> ''null'' | Some l \<Rightarrow> dump_str l)"
    by (simp add: language_member_def json_opt_str_def split: option.split)
  have w: "text_weight (CHR '','' # dump_str ''knowledge_language'' @ '':'') = 22"
    by (subst text_weight_ascii) (simp_all add: dump_str_def escape_char_def)
  have n: "text_weight ''null'' = 4"
    by (subst text_weight_ascii) simp_all
  have "starts_char (case language of None \<Rightarrow> ''null'' | Some l \<Rightarrow> dump_str l)"
    by (simp add: dump_str_def utf8_continuation_def split: option.split)
  from text_weight_append [OF this] show ?thesis
    unfolding key by (cases language) (simp_all only: w n option.case)
qed

lemma planned_batch_estimates:
  assumes "plan_batches path_name evidence natural document budget max_evidence max_characters = Inr bs"
    and "i < length bs" "length bs < 10 ^ 50"
    and "case language of None \<Rightarrow> True | Some l \<Rightarrow> text_weight (dump_str l) \<le> 128"
    and "ab_ordinal b = i" "ab_evidence b = bs ! i" "ab_section_paths b = batch_section_paths (bs ! i)"
  shows "int (estimate_model_tokens (batch_prompt_content path_name document b (length bs) language)) \<le> budget"
    and "int (estimate_batch_tokens path_name document (bs ! i) i (length bs)) \<le> budget"
proof -
  obtain w where
    c: "\<And>i n. text_weight (batch_content path_name document i n (ab_evidence b)) =
       w + length (nat_digits i) + length (nat_digits n)"
    and p: "\<And>n language. ab_section_paths b = batch_section_paths (ab_evidence b) \<Longrightarrow>
       text_weight (batch_prompt_content path_name document b n language) =
       w + length (nat_digits (ab_ordinal b)) + length (nat_digits n) + text_weight (language_member language)"
    by (rule batch_content_weight [of path_name document b]) blast
  have "batch_fits path_name document budget max_evidence max_characters (bs ! i)"
    using plan_batches_cases [OF assms(1)] assms(2) by (simp add: list_all_length)
  from batch_fits_bounds(1) [OF this] have f: "int (estimate_model_tokens (batch_content path_name document
      (length (bs ! i)) (length (bs ! i)) (bs ! i)) + 64) \<le> budget" by (simp add: envelope_reserve_def)
  have d: "length (nat_digits i) \<le> 50" "length (nat_digits (length bs)) \<le> 50"
    using assms(2,3) nat_digits_length [of i 49] nat_digits_length [of "length bs" 49] by simp_all
  have l: "text_weight (language_member language) \<le> 150"
    using assms(4) by (simp add: language_member_weight split: option.splits)
  show "int (estimate_model_tokens (batch_prompt_content path_name document b (length bs) language)) \<le> budget"
    using text_weight_estimate(2) [of "batch_prompt_content path_name document b (length bs) language"]
      text_weight_estimate(1) [of "batch_content path_name document (length (bs ! i)) (length (bs ! i)) (bs ! i)"]
      c [of "length (bs ! i)" "length (bs ! i)"] p [of "length bs" language] assms(5-7) d l f by simp
  show "int (estimate_batch_tokens path_name document (bs ! i) i (length bs)) \<le> budget"
    using text_weight_estimate(2) [of "batch_content path_name document i (length bs) (bs ! i)"]
      text_weight_estimate(1) [of "batch_content path_name document (length (bs ! i)) (length (bs ! i)) (bs ! i)"]
      c [of "length (bs ! i)" "length (bs ! i)"] c [of i "length bs"] assms(6) d f
    by (simp add: estimate_batch_tokens_def)
qed

text \<open>
  C0 The prompt of a planned batch is within its budget.  A plan measures a batch before its
  ordinal, the number of batches and the language are known, and keeps 64 tokens in
  reserve.  With fewer than \<open>10^50\<close> batches and a language name of at most 128 quarter
  tokens, the prompt of every planned batch is built without an error, and the estimate the
  analysis plan records for it is within the same budget.
\<close>

theorem planned_batch_prompt_fits:
  assumes "plan_batches path_name evidence natural document budget max_evidence max_characters = Inr bs"
    and "i < length bs" "length bs < 10 ^ 50"
    and "case language of None \<Rightarrow> True | Some l \<Rightarrow> text_weight (dump_str l) \<le> 128"
    and "ab_ordinal b = i" "ab_evidence b = bs ! i" "ab_section_paths b = batch_section_paths (bs ! i)"
  shows "batch_prompt path_name document b (length bs) budget language =
      Inr (batch_prompt_content path_name document b (length bs) language) \<and>
    int (estimate_batch_tokens path_name document (bs ! i) i (length bs)) \<le> budget"
  using planned_batch_estimates [OF assms] by (simp add: batch_prompt_def Let_def)

definition sample_batch :: analysis_batch where
  "sample_batch = \<lparr>ab_id = ''b'', ab_ordinal = 0, ab_section_paths = [[''H'']], ab_evidence = sample_evidence,
     ab_status = ''pending'', ab_checkpoint = None\<rparr>"

theorem planned_batch_prompt_fits_witness:
  "\<exists>prompt. batch_prompt (\<lambda>s. s) ''d'' sample_batch 1 200 (Some ''en'') = Inr prompt"
proof -
  have p: "plan_batches (\<lambda>s. s) sample_evidence None ''d'' 200 None None = Inr [sample_evidence]"
    by code_simp
  have "text_weight (dump_str ''en'') \<le> 128" by code_simp
  moreover have "ab_section_paths sample_batch = batch_section_paths sample_evidence" by code_simp
  ultimately show ?thesis
    using planned_batch_prompt_fits [OF p, of 0 "Some ''en''" sample_batch] by (simp add: sample_batch_def)
qed

end
