(* ===== verification/AnalysisPlan.thy ===== *)
theory AnalysisPlan
  imports AnalysisPrompts
begin

section \<open>The analysis plan (\<open>openkb/knowledge/analysis/plan.py\<close>)\<close>

text \<open>
  The immutable plan of a resumable analysis: its batches, its merge topology and the
  budgets and contracts it pins, the digest that identifies it, its dictionary and the
  reader of stored plans.  SHA-256 and the bundle of prompt contracts are arguments.
\<close>

subsection \<open>Plans and their dictionaries\<close>

record batch_plan =
  bp_ordinal :: nat
  bp_evidence_ids :: "string list"
  bp_section_paths :: "string list list"
  bp_estimated_tokens :: int

definition json_strs :: "string list \<Rightarrow> json" where
  "json_strs ss = JList (map JStr ss)"

definition batch_plan_dict :: "batch_plan \<Rightarrow> json" where
  "batch_plan_dict b = JObj
     [(''ordinal'', JInt (int (bp_ordinal b))), (''evidence_ids'', json_strs (bp_evidence_ids b)),
      (''section_paths'', JList (map json_strs (bp_section_paths b))),
      (''estimated_input_tokens'', JInt (bp_estimated_tokens b))]"

definition merge_node_dict :: "merge_node \<Rightarrow> json" where
  "merge_node_dict n = JObj
     [(''node_id'', JStr (mn_id n)), (''level'', JInt (int (mn_level n))),
      (''ordinal'', JInt (int (mn_ordinal n))), (''child_ids'', json_strs (mn_children n))]"

record analysis_plan =
  pl_document_ir_digest :: string
  pl_provider :: string
  pl_model :: string
  pl_capability :: capability_profile
  pl_snapshot :: dict
  pl_prompt_digest :: string
  pl_input_budget :: int
  pl_output_budget :: int
  pl_final_reserve :: int
  pl_reasoning_allowance :: int
  pl_profile :: "execution_profile option"
  pl_batches :: "batch_plan list"
  pl_topology :: "merge_node list"

definition capability_fields :: "capability_profile \<Rightarrow> dict" where
  "capability_fields c =
     [(''context_capacity'', JInt (cap_context c)), (''document_input_capacity'', JInt (cap_document_input c)),
      (''supports_native_json_schema'', JBool (cap_native_json_schema c)),
      (''supports_streaming'', JBool (cap_streaming c)), (''supports_reasoning'', JBool (cap_reasoning c))]"

definition profile_dict :: "(string \<Rightarrow> string) \<Rightarrow> execution_profile option \<Rightarrow> json" where
  "profile_dict sha256 profile = (case profile of None \<Rightarrow> JNull | Some e \<Rightarrow> ep_as_dict sha256 e)"

definition plan_payload :: "(string \<Rightarrow> string) \<Rightarrow> analysis_plan \<Rightarrow> dict" where
  "plan_payload sha256 p =
     [(''document_ir_digest'', JStr (pl_document_ir_digest p)), (''provider'', JStr (pl_provider p)),
      (''analysis_model'', JStr (pl_model p)), (''capability_profile'', JObj (capability_fields (pl_capability p))),
      (''prompt_contract_snapshot'', JObj (pl_snapshot p)),
      (''prompt_contract_digest'', JStr (pl_prompt_digest p)),
      (''input_budget_tokens'', JInt (pl_input_budget p)), (''output_budget_tokens'', JInt (pl_output_budget p)),
      (''final_output_reserve_tokens'', JInt (pl_final_reserve p)),
      (''reasoning_allowance_tokens'', JInt (pl_reasoning_allowance p)),
      (''execution_profile'', profile_dict sha256 (pl_profile p)),
      (''batches'', JList (map batch_plan_dict (pl_batches p))),
      (''merge_topology'', JList (map merge_node_dict (pl_topology p)))]"

definition plan_identity :: "(string \<Rightarrow> string) \<Rightarrow> analysis_plan \<Rightarrow> string" where
  "plan_identity sha256 p = object_digest sha256 (JObj (plan_payload sha256 p))"

definition plan_as_dict :: "(string \<Rightarrow> string) \<Rightarrow> analysis_plan \<Rightarrow> json" where
  "plan_as_dict sha256 p = JObj (plan_payload sha256 p @ [(''plan_identity'', JStr (plan_identity sha256 p))])"

subsection \<open>Reading a stored plan\<close>

definition string_items :: "string \<Rightarrow> json \<Rightarrow> string list res" where
  "string_items name v = res_bind (field_list v name) (res_map (string_item name))"

definition batch_from_dict :: "json \<Rightarrow> batch_plan res" where
  "batch_from_dict v =
     res_bind (field_mapping v ''batch'') (\<lambda>item.
     res_bind (field_list (dict_get item ''section_paths'') ''section_paths'') (\<lambda>paths.
     res_bind (field_list (dict_get item ''evidence_ids'') ''evidence_ids'') (\<lambda>ids.
     res_bind (field_int item ''ordinal'') (\<lambda>ordinal.
     res_bind (res_map (string_item ''evidence_id'') ids) (\<lambda>evidence_ids.
     res_bind (res_map (string_items ''section_path'') paths) (\<lambda>section_paths.
     res_bind (field_int item ''estimated_input_tokens'') (\<lambda>tokens.
     Inr \<lparr>bp_ordinal = nat ordinal, bp_evidence_ids = evidence_ids, bp_section_paths = section_paths,
          bp_estimated_tokens = tokens\<rparr>)))))))"

definition merge_node_from_dict :: "json \<Rightarrow> merge_node res" where
  "merge_node_from_dict v =
     res_bind (field_mapping v ''merge_node'') (\<lambda>item.
     res_bind (field_string item ''node_id'') (\<lambda>node_id.
     res_bind (field_int item ''level'') (\<lambda>level.
     res_bind (field_int item ''ordinal'') (\<lambda>ordinal.
     res_bind (string_items ''child_ids'' (dict_get item ''child_ids'')) (\<lambda>children.
     Inr \<lparr>mn_id = node_id, mn_level = nat level, mn_ordinal = nat ordinal, mn_children = children\<rparr>)))))"

definition capability_from_dict :: "dict \<Rightarrow> capability_profile res" where
  "capability_from_dict d =
     res_bind (field_int d ''context_capacity'') (\<lambda>context.
     res_bind (field_int d ''document_input_capacity'') (\<lambda>input.
     res_bind (field_bool d ''supports_native_json_schema'') (\<lambda>schema.
     res_bind (field_bool d ''supports_streaming'') (\<lambda>streaming.
     res_bind (field_bool d ''supports_reasoning'') (\<lambda>reasoning.
     Inr \<lparr>cap_context = context, cap_document_input = input, cap_native_json_schema = schema,
          cap_streaming = streaming, cap_reasoning = reasoning, cap_maximum_output = None\<rparr>)))))"

definition profile_from_dict :: "(string \<Rightarrow> string) \<Rightarrow> json \<Rightarrow> execution_profile option res" where
  "profile_from_dict sha256 v =
     (if v = JNull then Inr None else res_bind (ep_from_dict sha256 v) (\<lambda>e. Inr (Some e)))"

text \<open>The fields of the plan, in the order in which the class reads them.\<close>

definition plan_fields :: "(string \<Rightarrow> string) \<Rightarrow> dict \<Rightarrow> analysis_plan res" where
  "plan_fields sha256 d =
     res_bind (field_mapping (dict_get d ''capability_profile'') ''capability_profile'') (\<lambda>capability.
     res_bind (field_list (dict_get d ''batches'') ''batches'') (\<lambda>batches.
     res_bind (field_list (dict_get d ''merge_topology'') ''merge_topology'') (\<lambda>topology.
     res_bind (field_mapping (dict_get d ''prompt_contract_snapshot'') ''prompt_contract_snapshot'') (\<lambda>snapshot.
     res_bind (field_string d ''document_ir_digest'') (\<lambda>digest.
     res_bind (field_string d ''provider'') (\<lambda>provider.
     res_bind (field_string d ''analysis_model'') (\<lambda>model.
     res_bind (capability_from_dict capability) (\<lambda>cap.
     res_bind (field_string d ''prompt_contract_digest'') (\<lambda>prompt.
     res_bind (field_int d ''input_budget_tokens'') (\<lambda>input.
     res_bind (field_int d ''output_budget_tokens'') (\<lambda>output.
     res_bind (optional_int d ''final_output_reserve_tokens'' output) (\<lambda>reserve.
     res_bind (optional_int d ''reasoning_allowance_tokens'' 0) (\<lambda>allowance.
     res_bind (profile_from_dict sha256 (dict_get d ''execution_profile'')) (\<lambda>profile.
     res_bind (res_map batch_from_dict batches) (\<lambda>bs.
     res_bind (res_map merge_node_from_dict topology) (\<lambda>nodes.
     Inr \<lparr>pl_document_ir_digest = digest, pl_provider = provider, pl_model = model, pl_capability = cap,
          pl_snapshot = snapshot, pl_prompt_digest = prompt, pl_input_budget = input,
          pl_output_budget = output, pl_final_reserve = reserve, pl_reasoning_allowance = allowance,
          pl_profile = profile, pl_batches = bs, pl_topology = nodes\<rparr>))))))))))))))))"

definition plan_from_dict :: "(string \<Rightarrow> string) \<Rightarrow> json \<Rightarrow> analysis_plan res" where
  "plan_from_dict sha256 v =
     (case v of
        JObj d \<Rightarrow>
          res_bind (plan_fields sha256 d) (\<lambda>p.
            if identity_mismatch (dict_get d ''plan_identity'') (plan_identity sha256 p)
            then Inl (ValueError ''Knowledge Analysis Plan identity does not match its fields.'')
            else Inr p)
      | _ \<Rightarrow> Inl (ValueError ''Knowledge Analysis Plan must be an object.''))"

subsection \<open>Building a plan\<close>

definition ir_digest_item :: "(string \<Rightarrow> string) \<Rightarrow> evidence_item \<Rightarrow> json" where
  "ir_digest_item sha256 item =
     (case item of (evidence_id, b) \<Rightarrow> JObj
       [(''evidence_id'', JStr evidence_id), (''block_id'', JStr (block_id b)),
        (''ordinal'', JInt (block_ordinal b)), (''kind'', JStr (block_kind b)),
        (''heading_path'', json_strs (heading_path b)),
        (''locator'', (case block_locator b of None \<Rightarrow> JNull | Some l \<Rightarrow> JObj l)),
        (''line_start'', JInt (line_start b)), (''line_end'', JInt (line_end b)),
        (''text_sha256'', JStr (sha256 (block_text b)))])"

definition document_ir_digest :: "(string \<Rightarrow> string) \<Rightarrow> evidence_item list \<Rightarrow> string" where
  "document_ir_digest sha256 evidence = object_digest sha256 (JList (map (ir_digest_item sha256) evidence))"

text \<open>\<open>estimated_batch_tokens[ordinal]\<close> raises when there are fewer estimates than batches.\<close>

definition batch_plans :: "int list \<Rightarrow> evidence_item list list \<Rightarrow> batch_plan list res" where
  "batch_plans tokens batches =
     res_map (\<lambda>(ordinal, b).
       if ordinal < length tokens
       then Inr \<lparr>bp_ordinal = ordinal, bp_evidence_ids = map fst b, bp_section_paths = batch_section_paths b,
                 bp_estimated_tokens = tokens ! ordinal\<rparr>
       else Inl IndexError) (enumerate 0 batches)"

text \<open>
  \<open>fuel\<close> bounds the loop of the merge topology; \<open>None\<close> is a loop that has not ended.
  \<open>policy\<close> is the token budget policy of the contract.
\<close>

definition build_analysis_plan ::
  "(string \<Rightarrow> string) \<Rightarrow> nat \<Rightarrow> evidence_item list \<Rightarrow> evidence_item list list \<Rightarrow> string \<Rightarrow> string \<Rightarrow>
    capability_profile \<Rightarrow> dict \<Rightarrow> int list \<Rightarrow> execution_profile option \<Rightarrow> dict \<Rightarrow> analysis_plan res option" where
  "build_analysis_plan sha256 fuel evidence batches provider model cap policy tokens profile bundle =
     (let reserve0 = analysis_output_budget cap policy;
          bundle_digest = object_digest sha256 (JObj bundle);
          (reserve, allowance, output, input) =
            (case profile of
               None \<Rightarrow> (reserve0, 0, reserve0, analysis_input_budget cap policy)
             | Some e \<Rightarrow> (ep_final_reserve e, ep_reasoning_allowance e, ep_output_ceiling e, ep_document_budget e)) in
      if \<exists>e\<in>set_option profile. (ep_provider e, ep_model e) \<noteq> (provider, model)
      then Some (Inl (ValueError ''Model Execution Profile does not match the Analysis selection.''))
      else case batch_plans tokens batches of
             Inl err \<Rightarrow> Some (Inl err)
           | Inr plans \<Rightarrow>
               if \<exists>e\<in>set_option profile. ep_prompt_contract_digest e \<noteq> bundle_digest
               then Some (Inl (ValueError ''Model Execution Profile does not match the Prompt Contract bundle.''))
               else map_option (\<lambda>topology. res_bind topology (\<lambda>nodes. Inr
                   \<lparr>pl_document_ir_digest = document_ir_digest sha256 evidence, pl_provider = provider,
                    pl_model = model, pl_capability = cap, pl_snapshot = bundle,
                    pl_prompt_digest = bundle_digest, pl_input_budget = input, pl_output_budget = output,
                    pl_final_reserve = reserve, pl_reasoning_allowance = allowance, pl_profile = profile,
                    pl_batches = plans, pl_topology = nodes\<rparr>))
                 (hierarchical_merge_topology fuel (length plans) 4))"

definition prompt_snapshot_for_operation :: "analysis_plan \<Rightarrow> string \<Rightarrow> dict res" where
  "prompt_snapshot_for_operation p operation =
     (case dict_get (pl_snapshot p) ''contracts'' of
        JObj contracts \<Rightarrow>
          (case dict_get contracts operation of
             JObj snapshot \<Rightarrow> Inr snapshot
           | _ \<Rightarrow> Inl (ValueError ''Knowledge Analysis Plan does not pin the operation.''))
      | _ \<Rightarrow> Inl (ValueError ''Knowledge Analysis Plan prompt-contract bundle is invalid.''))"

subsection \<open>A plan survives storage\<close>

definition batch_plan_ok :: "batch_plan \<Rightarrow> bool" where
  "batch_plan_ok b \<longleftrightarrow>
     [] \<notin> set (bp_evidence_ids b) \<and> list_all (\<lambda>p. [] \<notin> set p) (bp_section_paths b) \<and> 0 \<le> bp_estimated_tokens b"

definition stored_node_ok :: "merge_node \<Rightarrow> bool" where
  "stored_node_ok n \<longleftrightarrow> mn_id n \<noteq> [] \<and> [] \<notin> set (mn_children n)"

definition plan_ok :: "analysis_plan \<Rightarrow> bool" where
  "plan_ok p \<longleftrightarrow>
     [] \<notin> set [pl_document_ir_digest p, pl_provider p, pl_model p, pl_prompt_digest p] \<and>
     list_all (\<lambda>n. 0 \<le> n) [cap_context (pl_capability p), cap_document_input (pl_capability p),
       pl_input_budget p, pl_output_budget p, pl_final_reserve p, pl_reasoning_allowance p] \<and>
     cap_maximum_output (pl_capability p) = None \<and> (\<forall>e\<in>set_option (pl_profile p). ep_ok e) \<and>
     list_all batch_plan_ok (pl_batches p) \<and> list_all stored_node_ok (pl_topology p)"

lemma string_item_JStr [simp]: "string_item name (JStr s) = (if s = [] then Inl (ValueError (name @ '' is invalid.'')) else Inr s)"
  by (simp add: string_item_def)

lemma string_item_Inr: "string_item name v = Inr s \<longleftrightarrow> v = JStr s \<and> s \<noteq> []"
  by (auto simp: string_item_def split: json.splits if_splits)

lemma field_list_simps [simp]: "field_list (JList vs) name = Inr vs"
  by (simp add: field_list_def)

lemma field_list_json_strs [simp]: "field_list (json_strs ss) name = Inr (map JStr ss)"
  by (simp add: json_strs_def)

lemma field_mapping_simps [simp]: "field_mapping (JObj d) name = Inr d"
  by (simp add: field_mapping_def)

lemma res_map_roundtrip: "(\<And>x. x \<in> set xs \<Longrightarrow> f (g x) = Inr x) \<Longrightarrow> res_map f (map g xs) = Inr xs"
  by (induction xs) auto

lemma string_items_json_strs: "[] \<notin> set ss \<Longrightarrow> string_items name (json_strs ss) = Inr ss"
  unfolding string_items_def json_strs_def by (simp, rule res_map_roundtrip) auto

lemma res_map_strings: "[] \<notin> set ss \<Longrightarrow> res_map (string_item name) (map JStr ss) = Inr ss"
  by (rule res_map_roundtrip) auto

lemma string_items_ok: "string_items name v = Inr ss \<Longrightarrow> [] \<notin> set ss"
proof -
  assume "string_items name v = Inr ss"
  then obtain vs where "res_map (string_item name) vs = Inr ss"
    by (auto simp: string_items_def res_bind_Inr_iff)
  then show ?thesis by (auto simp: res_map_Inr_iff string_item_Inr list_all2_conv_all_nth in_set_conv_nth)
qed

lemma batch_from_dict_dict: "batch_plan_ok b \<Longrightarrow> batch_from_dict (batch_plan_dict b) = Inr b"
proof -
  assume "batch_plan_ok b"
  then have p: "res_map (string_items ''section_path'') (map json_strs (bp_section_paths b)) = Inr (bp_section_paths b)"
    and i: "res_map (string_item ''evidence_id'') (map JStr (bp_evidence_ids b)) = Inr (bp_evidence_ids b)"
    and t: "0 \<le> bp_estimated_tokens b"
    by (auto simp: batch_plan_ok_def list_all_iff res_map_strings intro!: res_map_roundtrip string_items_json_strs)
  show ?thesis
    using p i t by (cases b) (simp add: batch_from_dict_def batch_plan_dict_def field_int_def)
qed

lemma merge_node_from_dict_dict: "stored_node_ok n \<Longrightarrow> merge_node_from_dict (merge_node_dict n) = Inr n"
  by (cases n) (simp add: merge_node_from_dict_def merge_node_dict_def stored_node_ok_def field_int_def
      field_string_def string_items_json_strs)

lemma ep_from_as_dict: "ep_ok e \<Longrightarrow> ep_from_dict sha256 (ep_as_dict sha256 e) = Inr e"
  by (simp add: ep_from_dict_def ep_as_dict_def ep_fields_payload dict_get_payload_identity identity_mismatch_def)

lemma ep_as_dict_not_null [simp]: "ep_as_dict sha256 e \<noteq> JNull"
  by (simp add: ep_as_dict_def)

lemma ep_from_dict_ok: "ep_from_dict sha256 v = Inr e \<Longrightarrow> ep_ok e"
  by (auto simp: ep_from_dict_def res_bind_Inr_iff ep_fields_ok split: json.splits if_splits)

lemma profile_from_dict_dict: "\<forall>e\<in>set_option profile. ep_ok e \<Longrightarrow> profile_from_dict sha256 (profile_dict sha256 profile) = Inr profile"
  by (cases profile) (simp_all add: profile_from_dict_def profile_dict_def ep_from_as_dict ep_as_dict_not_null)

lemma capability_from_dict_fields:
  "0 \<le> cap_context c \<Longrightarrow> 0 \<le> cap_document_input c \<Longrightarrow> cap_maximum_output c = None \<Longrightarrow>
    capability_from_dict (capability_fields c) = Inr c"
  by (cases c) (simp add: capability_from_dict_def capability_fields_def field_int_def field_bool_def)

lemma plan_fields_payload:
  assumes "plan_ok p"
  shows "plan_fields sha256 (plan_payload sha256 p @ xs) = Inr p"
proof -
  have b: "res_map batch_from_dict (map batch_plan_dict (pl_batches p)) = Inr (pl_batches p)"
    using assms by (auto simp: plan_ok_def list_all_iff intro!: res_map_roundtrip batch_from_dict_dict)
  have n: "res_map merge_node_from_dict (map merge_node_dict (pl_topology p)) = Inr (pl_topology p)"
    using assms by (auto simp: plan_ok_def list_all_iff intro!: res_map_roundtrip merge_node_from_dict_dict)
  have c: "capability_from_dict (capability_fields (pl_capability p)) = Inr (pl_capability p)"
    using assms by (intro capability_from_dict_fields) (simp_all add: plan_ok_def)
  have e: "profile_from_dict sha256 (profile_dict sha256 (pl_profile p)) = Inr (pl_profile p)"
    using assms by (intro profile_from_dict_dict) (simp add: plan_ok_def)
  show ?thesis
    using assms b n e c by (simp add: plan_fields_def plan_payload_def plan_ok_def field_string_def
        field_int_def optional_int_def eq_commute [of "[]"])
qed

lemma capability_from_dict_ok:
  "capability_from_dict d = Inr c \<Longrightarrow> 0 \<le> cap_context c \<and> 0 \<le> cap_document_input c \<and> cap_maximum_output c = None"
  by (auto simp: capability_from_dict_def res_bind_Inr_iff field_Inr)

lemma profile_from_dict_ok: "profile_from_dict sha256 v = Inr profile \<Longrightarrow> \<forall>e\<in>set_option profile. ep_ok e"
  by (auto simp: profile_from_dict_def res_bind_Inr_iff ep_from_dict_ok split: if_splits)

lemma res_map_list_all: "res_map f vs = Inr xs \<Longrightarrow> (\<And>v x. f v = Inr x \<Longrightarrow> P x) \<Longrightarrow> list_all P xs"
  by (auto simp: res_map_Inr_iff list_all2_conv_all_nth list_all_length)

lemma batch_from_dict_ok: "batch_from_dict v = Inr b \<Longrightarrow> batch_plan_ok b"
proof -
  assume "batch_from_dict v = Inr b"
  then obtain ids paths t where "res_map (string_item ''evidence_id'') ids = Inr (bp_evidence_ids b)"
    "res_map (string_items ''section_path'') paths = Inr (bp_section_paths b)"
    "field_int t ''estimated_input_tokens'' = Inr (bp_estimated_tokens b)"
    by (auto simp: batch_from_dict_def res_bind_Inr_iff)
  moreover from this(1) have "list_all (\<lambda>s. s \<noteq> []) (bp_evidence_ids b)"
    by (rule res_map_list_all) (simp add: string_item_Inr)
  moreover from calculation(2) have "list_all (\<lambda>p. [] \<notin> set p) (bp_section_paths b)"
    by (rule res_map_list_all) (rule string_items_ok)
  ultimately show ?thesis by (auto simp: batch_plan_ok_def list_all_iff field_Inr)
qed

lemma merge_node_from_dict_ok: "merge_node_from_dict v = Inr n \<Longrightarrow> stored_node_ok n"
  by (auto simp: merge_node_from_dict_def res_bind_Inr_iff stored_node_ok_def field_Inr dest: string_items_ok)

lemma optional_int_ok: "optional_int d k n0 = Inr n \<Longrightarrow> 0 \<le> n0 \<Longrightarrow> 0 \<le> n"
  by (auto simp: optional_int_def field_Inr split: if_splits)

lemma plan_fields_ok: "plan_fields sha256 d = Inr p \<Longrightarrow> plan_ok p"
proof -
  assume "plan_fields sha256 d = Inr p"
  then obtain bs ns c where "res_map batch_from_dict bs = Inr (pl_batches p)"
    "res_map merge_node_from_dict ns = Inr (pl_topology p)"
    "capability_from_dict c = Inr (pl_capability p)"
    "profile_from_dict sha256 (dict_get d ''execution_profile'') = Inr (pl_profile p)"
    "field_string d ''document_ir_digest'' = Inr (pl_document_ir_digest p)"
    "field_string d ''provider'' = Inr (pl_provider p)" "field_string d ''analysis_model'' = Inr (pl_model p)"
    "field_string d ''prompt_contract_digest'' = Inr (pl_prompt_digest p)"
    "field_int d ''input_budget_tokens'' = Inr (pl_input_budget p)"
    "field_int d ''output_budget_tokens'' = Inr (pl_output_budget p)"
    "optional_int d ''final_output_reserve_tokens'' (pl_output_budget p) = Inr (pl_final_reserve p)"
    "optional_int d ''reasoning_allowance_tokens'' 0 = Inr (pl_reasoning_allowance p)"
    by (auto simp: plan_fields_def res_bind_Inr_iff)
  note f = this
  have "list_all batch_plan_ok (pl_batches p)" "list_all stored_node_ok (pl_topology p)"
    using res_map_list_all [OF f(1)] res_map_list_all [OF f(2)] batch_from_dict_ok merge_node_from_dict_ok by blast+
  with f(3-10) optional_int_ok [OF f(11)] optional_int_ok [OF f(12)] show ?thesis
    by (auto simp: plan_ok_def field_Inr dest: capability_from_dict_ok profile_from_dict_ok)
qed

lemma dict_get_plan_identity: "dict_get (plan_payload sha256 p @ [(''plan_identity'', v)]) ''plan_identity'' = v"
  by (simp add: plan_payload_def)

text \<open>
  A plan survives storage and cannot be altered there.  A well-formed plan restores
  unchanged from its dictionary; what is restored is well-formed; and when the stored
  object carries an identity, it is the digest of exactly the restored plan, its execution
  profile, batches and merge topology included.
\<close>

theorem analysis_plan_roundtrip:
  "(plan_ok p \<longrightarrow> plan_from_dict sha256 (plan_as_dict sha256 p) = Inr p) \<and>
   (\<forall>d q. plan_from_dict sha256 (JObj d) = Inr q \<longrightarrow>
      plan_ok q \<and> (dict_get d ''plan_identity'' = JNull \<or>
        dict_get d ''plan_identity'' = JStr (plan_identity sha256 q)))"
proof (intro conjI impI allI)
  assume "plan_ok p"
  then show "plan_from_dict sha256 (plan_as_dict sha256 p) = Inr p"
    by (simp add: plan_from_dict_def plan_as_dict_def plan_fields_payload dict_get_plan_identity identity_mismatch_def)
next
  fix d q
  assume "plan_from_dict sha256 (JObj d) = Inr q"
  then have "plan_fields sha256 d = Inr q" "\<not> identity_mismatch (dict_get d ''plan_identity'') (plan_identity sha256 q)"
    by (auto simp: plan_from_dict_def res_bind_Inr_iff split: if_splits)
  then show "plan_ok q" "dict_get d ''plan_identity'' = JNull \<or>
      dict_get d ''plan_identity'' = JStr (plan_identity sha256 q)"
    by (auto simp: plan_fields_ok identity_mismatch_def)
qed

definition sample_plan :: analysis_plan where
  "sample_plan = \<lparr>pl_document_ir_digest = ''i'', pl_provider = ''p'', pl_model = ''m'',
     pl_capability = \<lparr>cap_context = 16000, cap_document_input = 8000, cap_native_json_schema = True,
       cap_streaming = True, cap_reasoning = False, cap_maximum_output = None\<rparr>,
     pl_snapshot = [], pl_prompt_digest = ''d'', pl_input_budget = 8000, pl_output_budget = 4096,
     pl_final_reserve = 4096, pl_reasoning_allowance = 0, pl_profile = Some sample_profile,
     pl_batches = [\<lparr>bp_ordinal = 0, bp_evidence_ids = [''e''], bp_section_paths = [[''H''], []], bp_estimated_tokens = 9\<rparr>],
     pl_topology = [\<lparr>mn_id = ''merge:0:0'', mn_level = 0, mn_ordinal = 0, mn_children = [''batch:0'']\<rparr>]\<rparr>"

theorem analysis_plan_roundtrip_witness:
  "plan_from_dict (\<lambda>s. s) (plan_as_dict (\<lambda>s. s) sample_plan) = Inr sample_plan"
proof -
  have "ep_ok sample_profile" by (simp add: ep_ok_def sample_profile_def)
  then have "plan_ok sample_plan"
    by (simp add: plan_ok_def sample_plan_def batch_plan_ok_def stored_node_ok_def)
  with analysis_plan_roundtrip show ?thesis by blast
qed

subsection \<open>What a built plan holds\<close>

definition batch_plan_of :: "nat \<Rightarrow> evidence_item list \<Rightarrow> int \<Rightarrow> batch_plan" where
  "batch_plan_of i b t = \<lparr>bp_ordinal = i, bp_evidence_ids = map fst b, bp_section_paths = batch_section_paths b,
     bp_estimated_tokens = t\<rparr>"

lemma batch_plans_Inr:
  "batch_plans tokens bs = Inr ps \<longleftrightarrow>
     length bs \<le> length tokens \<and> ps = map (\<lambda>i. batch_plan_of i (bs ! i) (tokens ! i)) [0..<length bs]"
proof -
  have "batch_plans tokens bs = Inr ps \<longleftrightarrow>
      length ps = length bs \<and> (\<forall>i<length bs. i < length tokens \<and> ps ! i = batch_plan_of i (bs ! i) (tokens ! i))"
    by (auto simp: batch_plans_def res_map_Inr_iff list_all2_conv_all_nth batch_plan_of_def
        nth_enumerate_eq eq_commute [of "ps ! _"] split: if_splits)
  also have "\<dots> \<longleftrightarrow> length bs \<le> length tokens \<and> ps = map (\<lambda>i. batch_plan_of i (bs ! i) (tokens ! i)) [0..<length bs]"
    by (auto intro!: nth_equalityI intro: leI)
  finally show ?thesis .
qed

lemma build_analysis_plan_Inr:
  assumes "build_analysis_plan sha256 fuel evidence bs provider model cap policy tokens profile bundle = Some (Inr p)"
  shows "length bs \<le> length tokens"
    and "pl_batches p = map (\<lambda>i. batch_plan_of i (bs ! i) (tokens ! i)) [0..<length bs]"
    and "hierarchical_merge_topology fuel (length bs) 4 = Some (Inr (pl_topology p))"
    and "pl_input_budget p = (case profile of None \<Rightarrow> analysis_input_budget cap policy | Some e \<Rightarrow> ep_document_budget e)"
    and "pl_document_ir_digest p = document_ir_digest sha256 evidence"
    and "pl_prompt_digest p = object_digest sha256 (JObj (pl_snapshot p))" and "pl_snapshot p = bundle"
    and "\<forall>e\<in>set_option profile. ep_provider e = pl_provider p \<and> ep_model e = pl_model p \<and>
      ep_prompt_contract_digest e = pl_prompt_digest p"
proof -
  from assms obtain ps nodes where ps: "batch_plans tokens bs = Inr ps"
    and top: "hierarchical_merge_topology fuel (length ps) 4 = Some (Inr nodes)"
    and p: "pl_batches p = ps" "pl_topology p = nodes" "pl_document_ir_digest p = document_ir_digest sha256 evidence"
      "pl_prompt_digest p = object_digest sha256 (JObj (pl_snapshot p))" "pl_snapshot p = bundle"
      "pl_input_budget p = (case profile of None \<Rightarrow> analysis_input_budget cap policy | Some e \<Rightarrow> ep_document_budget e)"
      "\<forall>e\<in>set_option profile. ep_provider e = pl_provider p \<and> ep_model e = pl_model p \<and>
      ep_prompt_contract_digest e = pl_prompt_digest p"
    by (auto simp: build_analysis_plan_def Let_def res_bind_Inr_iff split: sum.splits option.splits if_splits)
  from ps show "length bs \<le> length tokens"
    and b: "pl_batches p = map (\<lambda>i. batch_plan_of i (bs ! i) (tokens ! i)) [0..<length bs]"
    using p(1) by (simp_all add: batch_plans_Inr)
  have "length ps = length bs" using b p(1) by simp
  with top p(2) show "hierarchical_merge_topology fuel (length bs) 4 = Some (Inr (pl_topology p))" by simp
  show "pl_input_budget p = (case profile of None \<Rightarrow> analysis_input_budget cap policy | Some e \<Rightarrow> ep_document_budget e)"
    "pl_document_ir_digest p = document_ir_digest sha256 evidence"
    "pl_prompt_digest p = object_digest sha256 (JObj (pl_snapshot p))" "pl_snapshot p = bundle"
    "\<forall>e\<in>set_option profile. ep_provider e = pl_provider p \<and> ep_model e = pl_model p \<and>
      ep_prompt_contract_digest e = pl_prompt_digest p"
    using p by blast+
qed

end
