(* ===== verification/PageTree.thy ===== *)
theory PageTree
  imports DocumentIR
begin

section \<open>The deterministic Document PageTree (\<open>openkb/page_tree/tree.py\<close>)\<close>

text \<open>
  The hierarchy of one document version, built from its Document IR without a model; its
  checkpoint; and the projection of Evidence onto the tree's sections.  SHA-256 and
  \<open>str.title\<close> are arguments (\<open>sha256\<close>, \<open>title_case\<close>).
\<close>

subsection \<open>Data\<close>

record pt_node =
  pt_node_id :: string
  pt_parent :: "string option"
  pt_order :: int
  pt_depth :: int
  pt_kind :: string
  pt_title :: string
  pt_locator :: dict
  pt_evidence :: "(string \<times> int) list"
  pt_images :: "(string \<times> int) list"
  pt_summary :: "string option"

record pt_generation =
  ptg_id :: string
  ptg_document :: string
  ptg_provider_kind :: string
  ptg_provider_version :: string
  ptg_fingerprint :: string
  ptg_locator_digest :: string
  ptg_created_at :: string
  ptg_status :: string
  ptg_nodes :: "pt_node list"
  ptg_reused_from :: "string option"

record pt_outcome =
  pto_document :: string
  pto_generation :: "pt_generation option"
  pto_error :: "string option"

definition page_tree_schema :: string where
  "page_tree_schema = ''openkb.document-page-tree.v1''"

subsection \<open>Digests, locators and titles\<close>

definition pt_digest :: "(string \<Rightarrow> string) \<Rightarrow> json \<Rightarrow> string" where
  "pt_digest sha256 payload = sha256 (canonical_json payload)"

definition pt_make_id :: "(string \<Rightarrow> string) \<Rightarrow> string \<Rightarrow> nat \<Rightarrow> string \<Rightarrow> string" where
  "pt_make_id sha256 generation order kind =
     sha256 (generation @ '':'' @ nat_digits order @ '':'' @ kind)"

definition pt_block_locator :: "ir_block \<Rightarrow> dict" where
  "pt_block_locator b =
     (case block_locator b of
        Some l \<Rightarrow> l
      | None \<Rightarrow> [(''line_start'', JInt (line_start b)), (''line_end'', JInt (line_end b))])"

definition image_by_id :: "source_image list \<Rightarrow> string \<rightharpoonup> source_image" where
  "image_by_id images = map_of (rev (map (\<lambda>i. (image_id i, i)) images))"

definition stable_image_reference :: "(string \<rightharpoonup> source_image) \<Rightarrow> json \<Rightarrow> json res" where
  "stable_image_reference by_id v =
     (case v of
        JStr s \<Rightarrow>
          (case by_id s of
             None \<Rightarrow> Inl (ValueError ''Document PageTree block references an unknown Source Image.'')
           | Some i \<Rightarrow> Inr (JObj [(''ordinal'', JInt (image_ordinal i)), (''image_sha256'', JStr (image_sha256 i))]))
      | _ \<Rightarrow> Inl (ValueError ''Document PageTree block references an unknown Source Image.''))"

definition stable_block_locator :: "(string \<rightharpoonup> source_image) \<Rightarrow> ir_block \<Rightarrow> dict res" where
  "stable_block_locator by_id b =
     (let l0 = pt_block_locator b in
      res_bind
        (case dict_get l0 ''source_image_id'' of
           JNull \<Rightarrow> Inr l0
         | v \<Rightarrow> res_bind (stable_image_reference by_id v) (\<lambda>r. Inr (dict_put l0 ''source_image_id'' r)))
        (\<lambda>l1.
           case dict_get l1 ''source_image_ids'' of
             JNull \<Rightarrow> Inr l1
           | JList vs \<Rightarrow>
               res_bind (res_map (stable_image_reference by_id) vs)
                 (\<lambda>rs. Inr (dict_put l1 ''source_image_ids'' (JList rs)))
           | _ \<Rightarrow> Inl (ValueError ''Document PageTree Source Image locator is invalid.'')))"

definition structural_fingerprint :: "(string \<Rightarrow> string) \<Rightarrow> ir_block list \<Rightarrow> string" where
  "structural_fingerprint sha256 blocks = pt_digest sha256 (JObj
     [(''schema'', JStr ''openkb.document-page-tree.structure.v1''),
      (''blocks'', JList (map (\<lambda>b. JObj
         [(''ordinal'', JInt (block_ordinal b)), (''kind'', JStr (block_kind b)),
          (''heading_path'', JList (map JStr (heading_path b))),
          (''text_sha256'', JStr (sha256 (block_text b)))]) blocks))])"

definition locator_mapping_digest ::
  "(string \<Rightarrow> string) \<Rightarrow> ir_block list \<Rightarrow> source_image list \<Rightarrow> string res" where
  "locator_mapping_digest sha256 blocks images =
     res_bind (res_map (\<lambda>b. res_bind (stable_block_locator (image_by_id images) b) (\<lambda>l.
         Inr (JObj [(''ordinal'', JInt (block_ordinal b)), (''locator'', JObj l)]))) blocks) (\<lambda>bs.
       Inr (pt_digest sha256 (JObj
         [(''schema'', JStr ''openkb.document-page-tree.locators.v1''), (''blocks'', JList bs),
          (''source_images'', JList (map (\<lambda>i. JObj
             [(''ordinal'', JInt (image_ordinal i)), (''image_sha256'', JStr (image_sha256 i)),
              (''locator'', JObj (image_locator i))]) images))])))"

definition image_reference_values :: "dict \<Rightarrow> json list" where
  "image_reference_values l =
     (case map_of l ''source_image_id'' of None \<Rightarrow> [] | Some v \<Rightarrow> [v]) @
     (case dict_get l ''source_image_ids'' of JList vs \<Rightarrow> vs | _ \<Rightarrow> [])"

fun image_bindings_of ::
  "(string \<rightharpoonup> source_image) \<Rightarrow> (string \<times> int) list \<Rightarrow> json list \<Rightarrow> (string \<times> int) list res" where
  "image_bindings_of by_id bs [] = Inr bs"
| "image_bindings_of by_id bs (v # vs) =
     (case (case v of JStr s \<Rightarrow> by_id s | _ \<Rightarrow> None) of
        None \<Rightarrow> Inl (ValueError ''Document PageTree block references an unknown Source Image.'')
      | Some i \<Rightarrow> image_bindings_of by_id (append_new bs (image_id i, image_ordinal i)) vs)"

definition image_bindings :: "(string \<rightharpoonup> source_image) \<Rightarrow> ir_block \<Rightarrow> (string \<times> int) list res" where
  "image_bindings by_id b =
     image_bindings_of by_id [] (image_reference_values (case block_locator b of None \<Rightarrow> [] | Some l \<Rightarrow> l))"

definition pt_node_title :: "(string \<Rightarrow> string) \<Rightarrow> ir_block \<Rightarrow> string \<Rightarrow> string" where
  "pt_node_title title_case b kind =
     (if kind = ''section''
      then (let text = py_join '' '' (py_split (block_text b)) in
            if py_len text \<le> 160 then text
            else py_rstrip (concat (take 157 (py_chars text))) @ ''...'')
      else (let label = title_case (map (\<lambda>c. if c = CHR ''_'' then CHR '' '' else c) kind) @ '' '' @
                  int_digits (block_ordinal b + 1) in
            if heading_path b \<noteq> [] then last (heading_path b) @ [CHR '' '', CHR 0xC2, CHR 0xB7, CHR '' ''] @ label
            else label))"

subsection \<open>Building the tree\<close>

text \<open>\<open>_nearest_section\<close>: the lengths \<open>n, .., 1\<close> of the path, then the root.\<close>

fun nearest_at :: "(string list \<rightharpoonup> string) \<Rightarrow> string list \<Rightarrow> string \<Rightarrow> nat \<Rightarrow> string" where
  "nearest_at sections path root 0 = root"
| "nearest_at sections path root (Suc n) =
     (case sections (take (Suc n) path) of
        Some i \<Rightarrow> i
      | None \<Rightarrow> nearest_at sections path root n)"

definition nearest_section :: "(string list \<rightharpoonup> string) \<Rightarrow> string list \<Rightarrow> string \<Rightarrow> string" where
  "nearest_section sections path root = nearest_at sections path root (length path)"

record pt_state =
  pts_nodes :: "pt_node list"
  pts_depths :: "string \<rightharpoonup> int"
  pts_sections :: "string list \<rightharpoonup> string"

text \<open>The path whose nearest section is the parent, and the kind of the node.\<close>

definition parent_path :: "ir_block \<Rightarrow> string list" where
  "parent_path b = (if block_kind b = ''heading'' then butlast (heading_path b) else heading_path b)"

definition node_kind :: "ir_block \<Rightarrow> string" where
  "node_kind b = (if block_kind b = ''heading'' then ''section'' else block_kind b)"

definition add_block_node ::
  "(string \<Rightarrow> string) \<Rightarrow> (string \<Rightarrow> string) \<Rightarrow> string \<Rightarrow> string \<Rightarrow> (string \<rightharpoonup> string) \<Rightarrow>
    (string \<rightharpoonup> source_image) \<Rightarrow> ir_block \<Rightarrow> pt_state \<Rightarrow> pt_state res" where
  "add_block_node sha256 title_case generation root evidence_by_block images b st =
     (let order = length (pts_nodes st);
          parent = nearest_section (pts_sections st) (parent_path b) root;
          nid = pt_make_id sha256 generation order (node_kind b) in
      res_bind (image_bindings images b) (\<lambda>imgs.
      case (pts_depths st parent, evidence_by_block (block_id b)) of
        (None, _) \<Rightarrow> Inl (KeyError parent)
      | (_, None) \<Rightarrow> Inl (KeyError (block_id b))
      | (Some d, Some e) \<Rightarrow> Inr
          \<lparr>pts_nodes = pts_nodes st @
             [\<lparr>pt_node_id = nid, pt_parent = Some parent, pt_order = int order, pt_depth = d + 1,
               pt_kind = node_kind b, pt_title = pt_node_title title_case b (node_kind b),
               pt_locator = pt_block_locator b, pt_evidence = [(e, block_ordinal b)],
               pt_images = imgs, pt_summary = None\<rparr>],
           pts_depths = (pts_depths st)(nid \<mapsto> d + 1),
           pts_sections = (if block_kind b = ''heading''
             then (pts_sections st)(heading_path b \<mapsto> nid) else pts_sections st)\<rparr>))"

fun add_block_nodes ::
  "(string \<Rightarrow> string) \<Rightarrow> (string \<Rightarrow> string) \<Rightarrow> string \<Rightarrow> string \<Rightarrow> (string \<rightharpoonup> string) \<Rightarrow>
    (string \<rightharpoonup> source_image) \<Rightarrow> ir_block list \<Rightarrow> pt_state \<Rightarrow> pt_state res" where
  "add_block_nodes sha256 tc g root ev imgs [] st = Inr st"
| "add_block_nodes sha256 tc g root ev imgs (b # bs) st =
     res_bind (add_block_node sha256 tc g root ev imgs b st) (\<lambda>st'.
       add_block_nodes sha256 tc g root ev imgs bs st')"

definition evidence_of_block :: "(string \<times> ir_block) list \<Rightarrow> string \<rightharpoonup> string" where
  "evidence_of_block evidence = map_of (rev (map (\<lambda>(e, b). (block_id b, e)) evidence))"

definition tree_input_ok :: "ir_block list \<Rightarrow> (string \<times> ir_block) list \<Rightarrow> bool" where
  "tree_input_ok blocks evidence \<longleftrightarrow>
     distinct (map block_id blocks) \<and>
     length (uniq (map (block_id \<circ> snd) evidence)) = length blocks \<and>
     set (map (block_id \<circ> snd) evidence) = set (map block_id blocks) \<and>
     map block_ordinal blocks = map int [0..<length blocks]"

definition pt_root :: "string \<Rightarrow> pt_node" where
  "pt_root root = \<lparr>pt_node_id = root, pt_parent = None, pt_order = 0, pt_depth = 0, pt_kind = ''document'',
     pt_title = ''Document'', pt_locator = [], pt_evidence = [], pt_images = [], pt_summary = None\<rparr>"

definition pt_generation_id ::
  "(string \<Rightarrow> string) \<Rightarrow> string \<Rightarrow> string \<Rightarrow> string \<Rightarrow> string \<Rightarrow> string \<Rightarrow> string" where
  "pt_generation_id sha256 document provider_kind provider_version fingerprint locators =
     pt_digest sha256 (JObj
       [(''schema'', JStr page_tree_schema), (''document_version_id'', JStr document),
        (''provider_kind'', JStr provider_kind), (''provider_version'', JStr provider_version),
        (''structural_ir_fingerprint'', JStr fingerprint), (''locator_mapping_digest'', JStr locators)])"

text \<open>\<open>created_at or _timestamp()\<close>: \<open>now\<close> is the clock.\<close>

definition build_deterministic_page_tree ::
  "(string \<Rightarrow> string) \<Rightarrow> (string \<Rightarrow> string) \<Rightarrow> string \<Rightarrow> string \<Rightarrow> ir_block list \<Rightarrow> (string \<times> ir_block) list \<Rightarrow>
    source_image list \<Rightarrow> string option \<Rightarrow> string \<Rightarrow> string \<Rightarrow> pt_generation res" where
  "build_deterministic_page_tree sha256 title_case now document blocks evidence images created_at
      provider_kind provider_version =
     (if document = [] \<or> provider_kind = [] \<or> provider_version = [] \<or> blocks = [] \<or>
         length evidence \<noteq> length blocks
      then Inl (ValueError ''Document PageTree input is incomplete.'')
      else if \<not> tree_input_ok blocks evidence
      then Inl (ValueError ''Document PageTree IR and Evidence bindings are invalid.'')
      else if \<not> distinct (map image_id images)
      then Inl (ValueError ''Document PageTree Source Image bindings are invalid.'')
      else
        let fingerprint = structural_fingerprint sha256 blocks in
        res_bind (locator_mapping_digest sha256 blocks images) (\<lambda>locators.
        let g = pt_generation_id sha256 document provider_kind provider_version fingerprint locators;
            root = pt_make_id sha256 g 0 ''document'' in
        res_bind (add_block_nodes sha256 title_case g root (evidence_of_block evidence) (image_by_id images)
            blocks \<lparr>pts_nodes = [pt_root root], pts_depths = [root \<mapsto> 0], pts_sections = Map.empty\<rparr>)
        (\<lambda>st. Inr \<lparr>ptg_id = g, ptg_document = document, ptg_provider_kind = provider_kind,
                 ptg_provider_version = provider_version, ptg_fingerprint = fingerprint,
                 ptg_locator_digest = locators,
                 ptg_created_at = (case created_at of None \<Rightarrow> now | Some t \<Rightarrow> if t = [] then now else t),
                 ptg_status = ''ready'', ptg_nodes = pts_nodes st, ptg_reused_from = None\<rparr>)))"

subsection \<open>The hierarchy is the one the headings describe\<close>

text \<open>The headings among \<open>bs\<close> whose path is a non-empty prefix of \<open>path\<close>.\<close>

definition heading_on :: "ir_block list \<Rightarrow> string list \<Rightarrow> nat \<Rightarrow> bool" where
  "heading_on bs path j \<longleftrightarrow>
     j < length bs \<and> block_kind (bs ! j) = ''heading'' \<and> heading_path (bs ! j) \<noteq> [] \<and>
     prefix (heading_path (bs ! j)) path"

text \<open>
  Node \<open>p\<close> is the parent for \<open>path\<close> after the blocks \<open>bs\<close>: the node of the last heading
  with the longest path on it, or the root when no heading is on it.
\<close>

definition is_parent :: "ir_block list \<Rightarrow> string list \<Rightarrow> nat \<Rightarrow> bool" where
  "is_parent bs path p \<longleftrightarrow>
     (case p of
        0 \<Rightarrow> (\<forall>j. \<not> heading_on bs path j)
      | Suc j \<Rightarrow> heading_on bs path j \<and>
          (\<forall>j'. heading_on bs path j' \<longrightarrow>
             length (heading_path (bs ! j')) < length (heading_path (bs ! j)) \<or>
             heading_path (bs ! j') = heading_path (bs ! j) \<and> j' \<le> j))"

text \<open>The table of sections after \<open>bs\<close>: the last heading of every path.\<close>

definition last_heading :: "ir_block list \<Rightarrow> string list \<Rightarrow> nat \<Rightarrow> bool" where
  "last_heading bs path j \<longleftrightarrow>
     j < length bs \<and> block_kind (bs ! j) = ''heading'' \<and> heading_path (bs ! j) = path \<and>
     (\<forall>j'<length bs. block_kind (bs ! j') = ''heading'' \<and> heading_path (bs ! j') = path \<longrightarrow> j' \<le> j)"

definition sections_ok :: "ir_block list \<Rightarrow> pt_node list \<Rightarrow> (string list \<rightharpoonup> string) \<Rightarrow> bool" where
  "sections_ok bs ns sections \<longleftrightarrow>
     (\<forall>path. case sections path of
        None \<Rightarrow> (\<forall>j<length bs. \<not> (block_kind (bs ! j) = ''heading'' \<and> heading_path (bs ! j) = path))
      | Some i \<Rightarrow> (\<exists>j. last_heading bs path j \<and> i = pt_node_id (ns ! Suc j)))"

lemma sections_okD:
  "sections_ok bs ns sections \<Longrightarrow> sections path = Some i \<Longrightarrow>
    \<exists>j. last_heading bs path j \<and> i = pt_node_id (ns ! Suc j)"
  "sections_ok bs ns sections \<Longrightarrow> sections path = None \<Longrightarrow> j < length bs \<Longrightarrow>
    block_kind (bs ! j) = ''heading'' \<Longrightarrow> heading_path (bs ! j) \<noteq> path"
  unfolding sections_ok_def by (drule spec [of _ path], simp)+

lemma nearest_at_spec:
  assumes "sections_ok bs ns sections" and "root = pt_node_id (ns ! 0)"
  shows "n \<le> length path \<Longrightarrow>
    \<exists>p. is_parent bs (take n path) p \<and> nearest_at sections path root n = pt_node_id (ns ! p)"
proof (induction n)
  case 0
  show ?case using assms(2) by (intro exI [of _ 0]) (simp add: is_parent_def heading_on_def)
next
  case (Suc n)
  have new: "heading_on bs (take (Suc n) path) j \<longleftrightarrow>
      heading_on bs (take n path) j \<or>
      j < length bs \<and> block_kind (bs ! j) = ''heading'' \<and> heading_path (bs ! j) = take (Suc n) path" for j
    using Suc.prems by (auto simp: heading_on_def take_Suc_conv_app_nth)
  have short: "length (heading_path (bs ! j)) \<le> n" if "heading_on bs (take n path) j" for j
    using that Suc.prems by (auto simp: heading_on_def dest!: prefix_length_le)
  show ?case
  proof (cases "sections (take (Suc n) path)")
    case None
    from Suc obtain p where p: "is_parent bs (take n path) p"
      "nearest_at sections path root n = pt_node_id (ns ! p)" by auto
    have "heading_on bs (take (Suc n) path) = heading_on bs (take n path)"
      using sections_okD(2) [OF assms(1) None] new by blast
    then have "is_parent bs (take (Suc n) path) = is_parent bs (take n path)"
      by (simp add: is_parent_def fun_eq_iff cong: nat.case_cong)
    with p None show ?thesis by (intro exI [of _ p]) simp
  next
    case (Some i)
    from sections_okD(1) [OF assms(1) Some] obtain j where j: "last_heading bs (take (Suc n) path) j"
      "i = pt_node_id (ns ! Suc j)" by blast
    have "is_parent bs (take (Suc n) path) (Suc j)"
      using j(1) Suc.prems new short unfolding is_parent_def last_heading_def
      by (auto simp: less_Suc_eq_le min_def)
    with j Some show ?thesis by (intro exI [of _ "Suc j"]) simp
  qed
qed

lemma nearest_section_spec:
  assumes "sections_ok bs ns sections" and "root = pt_node_id (ns ! 0)"
  shows "\<exists>p. is_parent bs path p \<and> nearest_section sections path root = pt_node_id (ns ! p)"
  using nearest_at_spec [OF assms, of "length path" path] by (simp add: nearest_section_def)

lemma is_parent_le: "is_parent bs path p \<Longrightarrow> p \<le> length bs"
  by (auto simp: is_parent_def heading_on_def split: nat.splits)

text \<open>Node \<open>Suc k\<close> is the node of block \<open>k\<close>, under the parent its headings give it.\<close>

definition node_of_block ::
  "(string \<rightharpoonup> string) \<Rightarrow> ir_block list \<Rightarrow> pt_node list \<Rightarrow> nat \<Rightarrow> bool" where
  "node_of_block ev bs ns k \<longleftrightarrow>
     (\<exists>e p. ev (block_id (bs ! k)) = Some e \<and> is_parent (take k bs) (parent_path (bs ! k)) p \<and>
        pt_order (ns ! Suc k) = int (Suc k) \<and> pt_kind (ns ! Suc k) = node_kind (bs ! k) \<and>
        pt_locator (ns ! Suc k) = pt_block_locator (bs ! k) \<and>
        pt_evidence (ns ! Suc k) = [(e, block_ordinal (bs ! k))] \<and>
        pt_parent (ns ! Suc k) = Some (pt_node_id (ns ! p)) \<and>
        pt_depth (ns ! Suc k) = pt_depth (ns ! p) + 1)"

definition pt_inv :: "(string \<rightharpoonup> string) \<Rightarrow> string \<Rightarrow> ir_block list \<Rightarrow> pt_state \<Rightarrow> bool" where
  "pt_inv ev root bs st \<longleftrightarrow>
     length (pts_nodes st) = Suc (length bs) \<and> pts_nodes st ! 0 = pt_root root \<and>
     (\<forall>k<length bs. node_of_block ev bs (pts_nodes st) k) \<and>
     (\<forall>n\<in>set (pts_nodes st). pts_depths st (pt_node_id n) = Some (pt_depth n)) \<and>
     sections_ok bs (pts_nodes st) (pts_sections st)"

lemma node_of_block_snoc:
  assumes "k < length bs" and "length ns = Suc (length bs)" and "node_of_block ev bs ns k"
  shows "node_of_block ev (bs @ [b]) (ns @ [n]) k"
proof -
  from assms(3) obtain e p where ep: "ev (block_id (bs ! k)) = Some e"
    "is_parent (take k bs) (parent_path (bs ! k)) p"
    "pt_order (ns ! Suc k) = int (Suc k)" "pt_kind (ns ! Suc k) = node_kind (bs ! k)"
    "pt_locator (ns ! Suc k) = pt_block_locator (bs ! k)"
    "pt_evidence (ns ! Suc k) = [(e, block_ordinal (bs ! k))]"
    "pt_parent (ns ! Suc k) = Some (pt_node_id (ns ! p))" "pt_depth (ns ! Suc k) = pt_depth (ns ! p) + 1"
    by (auto simp: node_of_block_def)
  moreover have "p < Suc (length bs)" using is_parent_le [OF ep(2)] assms(1) by simp
  ultimately show ?thesis
    using assms(1,2) unfolding node_of_block_def
    by (intro exI [of _ e] exI [of _ p]) (simp add: nth_append)
qed

lemma sections_ok_snoc:
  assumes "sections_ok bs ns sections" and "length ns = Suc (length bs)"
  shows "sections_ok (bs @ [b]) (ns @ [n])
    (if block_kind b = ''heading'' then sections(heading_path b \<mapsto> pt_node_id n) else sections)"
  unfolding sections_ok_def
proof
  fix path
  have keep: "last_heading (bs @ [b]) path j" if "last_heading bs path j"
    "\<not> (block_kind b = ''heading'' \<and> heading_path b = path)" for j
    using that by (auto simp: last_heading_def nth_append less_Suc_eq)
  have idx: "(ns @ [n]) ! Suc j = ns ! Suc j" if "last_heading bs path j" for j
    using that assms(2) by (simp add: last_heading_def nth_append)
  have new: "last_heading (bs @ [b]) path (length bs)" if "block_kind b = ''heading''" "heading_path b = path"
    using that by (auto simp: last_heading_def)
  show "case (if block_kind b = ''heading'' then sections(heading_path b \<mapsto> pt_node_id n) else sections) path of
      None \<Rightarrow> \<forall>j<length (bs @ [b]). \<not> (block_kind ((bs @ [b]) ! j) = ''heading'' \<and> heading_path ((bs @ [b]) ! j) = path)
    | Some i \<Rightarrow> \<exists>j. last_heading (bs @ [b]) path j \<and> i = pt_node_id ((ns @ [n]) ! Suc j)"
  proof (cases "block_kind b = ''heading'' \<and> heading_path b = path")
    case True
    with new assms(2) show ?thesis by (auto intro!: exI [of _ "length bs"] simp: nth_append)
  next
    case False
    then have same: "(if block_kind b = ''heading'' then sections(heading_path b \<mapsto> pt_node_id n) else sections) path =
        sections path" by auto
    show ?thesis
    proof (cases "sections path")
      case None
      with same False sections_okD(2) [OF assms(1) None] show ?thesis
        by (auto simp: nth_append less_Suc_eq)
    next
      case (Some i)
      with sections_okD(1) [OF assms(1) Some] same keep idx False show ?thesis by auto metis+
    qed
  qed
qed

lemma add_block_node_grows:
  "add_block_node sha256 tc g root ev imgs b st = Inr st' \<Longrightarrow>
    \<exists>n. pts_nodes st' = pts_nodes st @ [n]"
  by (cases "pts_depths st (nearest_section (pts_sections st) (parent_path b) root)"; cases "ev (block_id b)")
    (auto simp: add_block_node_def Let_def res_bind_Inr_iff)

lemma add_block_nodes_grows:
  "add_block_nodes sha256 tc g root ev imgs bs st = Inr st' \<Longrightarrow> prefix (pts_nodes st) (pts_nodes st')"
proof (induction bs arbitrary: st)
  case (Cons b bs)
  then obtain st1 where st1: "add_block_node sha256 tc g root ev imgs b st = Inr st1"
    "add_block_nodes sha256 tc g root ev imgs bs st1 = Inr st'"
    by (auto simp: res_bind_Inr_iff)
  from add_block_node_grows [OF st1(1)] have "prefix (pts_nodes st) (pts_nodes st1)" by auto
  with Cons.IH [OF st1(2)] show ?case by (rule prefix_order.trans [rotated])
qed simp

lemma add_block_node_inv:
  assumes inv: "pt_inv ev root bs st" and add: "add_block_node sha256 tc g root ev imgs b st = Inr st'"
    and fresh: "distinct (map pt_node_id (pts_nodes st'))"
  shows "pt_inv ev root (bs @ [b]) st'"
proof -
  let ?ns = "pts_nodes st"
  have len: "length ?ns = Suc (length bs)" and r: "?ns ! 0 = pt_root root"
    using inv by (auto simp: pt_inv_def)
  obtain p where p: "is_parent bs (parent_path b) p"
    "nearest_section (pts_sections st) (parent_path b) root = pt_node_id (?ns ! p)"
    using nearest_section_spec [of bs ?ns "pts_sections st" root "parent_path b"] inv r
    by (auto simp: pt_inv_def pt_root_def)
  have pl: "p < length ?ns" using is_parent_le [OF p(1)] len by simp
  then have dp: "pts_depths st (pt_node_id (?ns ! p)) = Some (pt_depth (?ns ! p))"
    using inv by (auto simp: pt_inv_def)
  from add p(2) dp obtain e im where e: "ev (block_id b) = Some e"
    and st': "st' = \<lparr>pts_nodes = ?ns @
             [\<lparr>pt_node_id = pt_make_id sha256 g (length ?ns) (node_kind b),
               pt_parent = Some (pt_node_id (?ns ! p)), pt_order = int (length ?ns),
               pt_depth = pt_depth (?ns ! p) + 1, pt_kind = node_kind b,
               pt_title = pt_node_title tc b (node_kind b),
               pt_locator = pt_block_locator b, pt_evidence = [(e, block_ordinal b)],
               pt_images = im, pt_summary = None\<rparr>],
           pts_depths = (pts_depths st)
             (pt_make_id sha256 g (length ?ns) (node_kind b) \<mapsto> pt_depth (?ns ! p) + 1),
           pts_sections = (if block_kind b = ''heading''
             then (pts_sections st)(heading_path b \<mapsto> pt_make_id sha256 g (length ?ns) (node_kind b))
             else pts_sections st)\<rparr>" (is "st' = \<lparr>pts_nodes = ?ns @ [?n], pts_depths = _, pts_sections = _\<rparr>")
    by (auto simp: add_block_node_def Let_def res_bind_Inr_iff split: option.splits)
  have "sections_ok (bs @ [b]) (?ns @ [?n]) (pts_sections st')"
  proof -
    have "sections_ok bs ?ns (pts_sections st)" using inv by (simp add: pt_inv_def)
    from sections_ok_snoc [OF this len, of b ?n] show ?thesis
      by (simp only: st' pt_state.simps pt_node.simps)
  qed
  moreover have "node_of_block ev (bs @ [b]) (?ns @ [?n]) k" if "k < length (bs @ [b])" for k
  proof (cases "k < length bs")
    case True
    with node_of_block_snoc [OF True len] inv show ?thesis by (simp add: pt_inv_def)
  next
    case False
    with that have k: "k = length bs" by simp
    with e p(1) pl len show ?thesis
      unfolding node_of_block_def by (intro exI [of _ e] exI [of _ p]) (simp add: nth_append)
  qed
  moreover have "\<forall>n\<in>set (?ns @ [?n]). pts_depths st' (pt_node_id n) = Some (pt_depth n)"
    using inv fresh by (auto simp: pt_inv_def st') (metis imageI)
  ultimately show ?thesis
    using len r by (simp add: pt_inv_def st' nth_append)
qed

lemma add_block_nodes_inv:
  "pt_inv ev root bs st \<Longrightarrow> add_block_nodes sha256 tc g root ev imgs bs' st = Inr st' \<Longrightarrow>
    distinct (map pt_node_id (pts_nodes st')) \<Longrightarrow> pt_inv ev root (bs @ bs') st'"
proof (induction bs' arbitrary: bs st)
  case (Cons b bs')
  then obtain st1 where st1: "add_block_node sha256 tc g root ev imgs b st = Inr st1"
    "add_block_nodes sha256 tc g root ev imgs bs' st1 = Inr st'"
    by (auto simp: res_bind_Inr_iff)
  from add_block_nodes_grows [OF st1(2)] Cons.prems(3) have "distinct (map pt_node_id (pts_nodes st1))"
    by (auto simp: prefix_def)
  from Cons.IH [OF add_block_node_inv [OF Cons.prems(1) st1(1) this] st1(2) Cons.prems(3)]
  show ?case by simp
qed simp

lemma build_page_tree_inv:
  assumes "build_deterministic_page_tree sha256 tc now d blocks evidence imgs c pk pv = Inr g"
    and "distinct (map pt_node_id (ptg_nodes g))"
  shows "\<exists>st. pt_inv (evidence_of_block evidence) (pt_node_id (hd (ptg_nodes g))) blocks st \<and>
    ptg_nodes g = pts_nodes st \<and> tree_input_ok blocks evidence"
proof -
  from assms(1) obtain gid root st where tree: "tree_input_ok blocks evidence"
    and st: "add_block_nodes sha256 tc gid root (evidence_of_block evidence) (image_by_id imgs) blocks
      \<lparr>pts_nodes = [pt_root root], pts_depths = [root \<mapsto> 0], pts_sections = Map.empty\<rparr> = Inr st"
      "ptg_nodes g = pts_nodes st"
    unfolding build_deterministic_page_tree_def Let_def
    by (auto simp: res_bind_Inr_iff split: if_splits)
  have "pt_inv (evidence_of_block evidence) root []
      \<lparr>pts_nodes = [pt_root root], pts_depths = [root \<mapsto> 0], pts_sections = Map.empty\<rparr>"
    by (simp add: pt_inv_def sections_ok_def pt_root_def)
  from add_block_nodes_inv [OF this st(1)] assms(2) st(2)
  have inv: "pt_inv (evidence_of_block evidence) root blocks st" by simp
  then have "pt_node_id (hd (pts_nodes st)) = root"
    by (cases "pts_nodes st") (auto simp: pt_inv_def pt_root_def)
  with inv tree st(2) show ?thesis by (intro exI [of _ st]) simp
qed

text \<open>
  C0 The tree is the outline of the document.  If no two node identifiers collide, the tree
  is one root \<open>document\<close> followed by one node per block, in the order of the blocks; the
  node of a block has its kind, its locator and the one Evidence bound to the block; and
  its parent is the node of the last heading before it with the longest heading path on
  the block's path, or the root when there is none, one level above it.
\<close>

theorem page_tree_outline:
  assumes "build_deterministic_page_tree sha256 tc now d blocks evidence imgs c pk pv = Inr g"
    and "distinct (map pt_node_id (ptg_nodes g))"
  shows "length (ptg_nodes g) = Suc (length blocks) \<and>
    ptg_nodes g ! 0 = pt_root (pt_node_id (ptg_nodes g ! 0)) \<and>
    (\<forall>k<length blocks. node_of_block (evidence_of_block evidence) blocks (ptg_nodes g) k)"
  using build_page_tree_inv [OF assms] by (auto simp: pt_inv_def pt_root_def)

definition outline_blocks :: "ir_block list" where
  "outline_blocks =
     [\<lparr>block_id = ''b0'', block_ordinal = 0, block_kind = ''heading'', block_text = ''A'',
       heading_path = [''A''], line_start = 1, line_end = 1, block_locator = None\<rparr>,
      \<lparr>block_id = ''b1'', block_ordinal = 1, block_kind = ''paragraph'', block_text = ''x'',
       heading_path = [''A''], line_start = 2, line_end = 2, block_locator = None\<rparr>]"

definition outline_tree :: "pt_generation res" where
  "outline_tree = build_deterministic_page_tree (\<lambda>s. s) (\<lambda>s. s) ''now'' ''d'' outline_blocks
     [(''e0'', outline_blocks ! 0), (''e1'', outline_blocks ! 1)] [] None ''k'' ''v''"

theorem page_tree_outline_witness:
  "\<exists>g. outline_tree = Inr g \<and> length (ptg_nodes g) = 3 \<and>
     node_of_block (evidence_of_block [(''e0'', outline_blocks ! 0), (''e1'', outline_blocks ! 1)])
       outline_blocks (ptg_nodes g) 1"
proof -
  have "case outline_tree of Inl _ \<Rightarrow> False | Inr g \<Rightarrow> distinct (map pt_node_id (ptg_nodes g))"
    by code_simp
  then obtain g where g: "outline_tree = Inr g" "distinct (map pt_node_id (ptg_nodes g))"
    by (auto split: sum.splits)
  have l: "length outline_blocks = 2" by (simp add: outline_blocks_def)
  from page_tree_outline [OF g(1) [unfolded outline_tree_def] g(2)] g(1) l show ?thesis by auto
qed

subsection \<open>The checkpoint\<close>

definition pt_node_payload :: "pt_node \<Rightarrow> json" where
  "pt_node_payload n = JObj
     [(''node_id'', JStr (pt_node_id n)), (''parent_node_id'', json_opt JStr (pt_parent n)),
      (''order'', JInt (pt_order n)), (''depth'', JInt (pt_depth n)), (''kind'', JStr (pt_kind n)),
      (''title'', JStr (pt_title n)), (''summary'', json_opt JStr (pt_summary n)),
      (''locator'', JObj (pt_locator n)),
      (''evidence_ids'', JList (map (JStr \<circ> fst) (pt_evidence n))),
      (''evidence_block_ordinals'', JList (map (JInt \<circ> snd) (pt_evidence n))),
      (''source_image_ids'', JList (map (JStr \<circ> fst) (pt_images n))),
      (''source_image_ordinals'', JList (map (JInt \<circ> snd) (pt_images n)))]"

definition pt_generation_payload :: "pt_generation \<Rightarrow> json" where
  "pt_generation_payload g = JObj
     [(''generation_id'', JStr (ptg_id g)), (''document_version_id'', JStr (ptg_document g)),
      (''provider_kind'', JStr (ptg_provider_kind g)), (''provider_version'', JStr (ptg_provider_version g)),
      (''structural_ir_fingerprint'', JStr (ptg_fingerprint g)),
      (''locator_mapping_digest'', JStr (ptg_locator_digest g)), (''created_at'', JStr (ptg_created_at g)),
      (''status'', JStr (ptg_status g)), (''reused_from_generation_id'', json_opt JStr (ptg_reused_from g)),
      (''nodes'', JList (map pt_node_payload (ptg_nodes g)))]"

definition page_tree_checkpoint :: "pt_outcome \<Rightarrow> json" where
  "page_tree_checkpoint o' = JObj
     ([(''schema_version'', JStr page_tree_schema),
       (''status'', JStr (if pto_generation o' \<noteq> None then ''completed'' else ''failed'')),
       (''document_version_id'', JStr (pto_document o')), (''error_code'', json_opt JStr (pto_error o'))] @
      (case pto_generation o' of None \<Rightarrow> [] | Some g \<Rightarrow> [(''generation'', pt_generation_payload g)]))"

definition pt_invalid :: "'a res" where
  "pt_invalid = Inl (ValueError ''Document PageTree node checkpoint is invalid.'')"

text \<open>
  Two parallel lists: \<open>all(isinstance(v, str) and v)\<close> and \<open>all(type(v) is int and v >= 0)\<close>,
  of one length.
\<close>

definition binding_lists :: "json \<Rightarrow> json \<Rightarrow> (string \<times> int) list option" where
  "binding_lists ids ordinals =
     (case (ids, ordinals) of
        (JList is, JList os) \<Rightarrow>
          if length is = length os \<and> list_all nonempty_str is \<and> list_all nonneg_int os
          then Some (zip (map (\<lambda>v. the (str_value v)) is) (map (\<lambda>v. the (int_value v)) os))
          else None
      | _ \<Rightarrow> None)"

definition pt_node_from_payload :: "json \<Rightarrow> pt_node res" where
  "pt_node_from_payload payload =
     (case payload of
        JObj p \<Rightarrow>
          (case (str_value (dict_get p ''node_id''), opt_str_value (dict_get p ''parent_node_id''),
                 int_value (dict_get p ''order''), int_value (dict_get p ''depth''),
                 str_value (dict_get p ''kind''), str_value (dict_get p ''title''), dict_get p ''locator'',
                 binding_lists (dict_get p ''evidence_ids'') (dict_get p ''evidence_block_ordinals''),
                 binding_lists (dict_get p ''source_image_ids'') (dict_get p ''source_image_ordinals''),
                 opt_str_value (dict_get p ''summary'')) of
             (Some i, Some parent, Some order, Some depth, Some kind, Some title, JObj locator,
              Some evidence, Some images, Some summary) \<Rightarrow>
               if i = [] \<or> kind = [] then pt_invalid
               else Inr \<lparr>pt_node_id = i, pt_parent = parent, pt_order = order, pt_depth = depth,
                         pt_kind = kind, pt_title = title, pt_locator = locator,
                         pt_evidence = evidence, pt_images = images, pt_summary = summary\<rparr>
           | _ \<Rightarrow> pt_invalid)
      | _ \<Rightarrow> pt_invalid)"

definition pt_required :: "string list" where
  "pt_required = [''generation_id'', ''document_version_id'', ''provider_kind'', ''provider_version'',
     ''structural_ir_fingerprint'', ''locator_mapping_digest'', ''created_at'', ''status'']"

definition pt_hierarchy_ok :: "pt_node list \<Rightarrow> bool" where
  "pt_hierarchy_ok nodes \<longleftrightarrow>
     distinct (map pt_node_id nodes) \<and>
     (\<forall>n\<in>set nodes. case pt_parent n of None \<Rightarrow> True | Some p \<Rightarrow> p \<in> pt_node_id ` set nodes)"

definition pt_generation_from_payload :: "json \<Rightarrow> pt_generation res" where
  "pt_generation_from_payload payload =
     (let invalid = Inl (ValueError ''Document PageTree generation checkpoint is invalid.'') in
      case payload of
        JObj p \<Rightarrow>
          (case dict_get p ''nodes'' of
             JList vs \<Rightarrow>
               if \<not> list_all (\<lambda>k. nonempty_str (dict_get p k)) pt_required then invalid
               else (case opt_str_value (dict_get p ''reused_from_generation_id'') of
                       None \<Rightarrow> invalid
                     | Some reused \<Rightarrow>
                         if reused = Some [] then invalid
                         else res_bind (res_map pt_node_from_payload vs) (\<lambda>nodes.
                           if nodes = [] \<or> map pt_order nodes \<noteq> map int [0..<length nodes]
                           then Inl (ValueError ''Document PageTree generation node order is invalid.'')
                           else if \<not> pt_hierarchy_ok nodes
                           then Inl (ValueError ''Document PageTree hierarchy is invalid.'')
                           else let s = (\<lambda>k. the (str_value (dict_get p k))) in
                             Inr \<lparr>ptg_id = s ''generation_id'', ptg_document = s ''document_version_id'',
                               ptg_provider_kind = s ''provider_kind'', ptg_provider_version = s ''provider_version'',
                               ptg_fingerprint = s ''structural_ir_fingerprint'',
                               ptg_locator_digest = s ''locator_mapping_digest'',
                               ptg_created_at = s ''created_at'', ptg_status = s ''status'',
                               ptg_nodes = nodes, ptg_reused_from = reused\<rparr>))
           | _ \<Rightarrow> invalid)
      | _ \<Rightarrow> invalid)"

definition page_tree_outcome_from_checkpoint :: "json \<Rightarrow> pt_outcome res" where
  "page_tree_outcome_from_checkpoint payload =
     (let invalid = Inl (ValueError ''Document PageTree checkpoint is invalid.'') in
      case payload of
        JObj p \<Rightarrow>
          if dict_get p ''schema_version'' \<noteq> JStr page_tree_schema then invalid
          else (case dict_get p ''document_version_id'' of
                  JStr d \<Rightarrow>
                    if d = [] then invalid
                    else if dict_get p ''status'' = JStr ''failed'' \<and> nonempty_str (dict_get p ''error_code'')
                    then Inr \<lparr>pto_document = d, pto_generation = None,
                              pto_error = str_value (dict_get p ''error_code'')\<rparr>
                    else if dict_get p ''status'' \<noteq> JStr ''completed'' \<or> dict_get p ''error_code'' \<noteq> JNull
                    then invalid
                    else res_bind (pt_generation_from_payload (dict_get p ''generation'')) (\<lambda>g.
                      if ptg_document g \<noteq> d
                      then Inl (ValueError ''Document PageTree checkpoint identity is invalid.'')
                      else Inr \<lparr>pto_document = d, pto_generation = Some g, pto_error = None\<rparr>)
                | _ \<Rightarrow> invalid)
      | _ \<Rightarrow> invalid)"

definition binding_ok :: "string \<times> int \<Rightarrow> bool" where
  "binding_ok x \<longleftrightarrow> fst x \<noteq> [] \<and> 0 \<le> snd x"

definition pt_node_ok :: "pt_node \<Rightarrow> bool" where
  "pt_node_ok n \<longleftrightarrow> pt_node_id n \<noteq> [] \<and> pt_kind n \<noteq> [] \<and>
     list_all binding_ok (pt_evidence n) \<and> list_all binding_ok (pt_images n)"

definition pt_generation_ok :: "pt_generation \<Rightarrow> bool" where
  "pt_generation_ok g \<longleftrightarrow>
     [] \<notin> {ptg_id g, ptg_document g, ptg_provider_kind g, ptg_provider_version g, ptg_fingerprint g,
           ptg_locator_digest g, ptg_created_at g, ptg_status g} \<and>
     ptg_reused_from g \<noteq> Some [] \<and> ptg_nodes g \<noteq> [] \<and> list_all pt_node_ok (ptg_nodes g) \<and>
     map pt_order (ptg_nodes g) = map int [0..<length (ptg_nodes g)] \<and> pt_hierarchy_ok (ptg_nodes g)"

definition pt_outcome_ok :: "pt_outcome \<Rightarrow> bool" where
  "pt_outcome_ok o' \<longleftrightarrow> pto_document o' \<noteq> [] \<and>
     (case pto_generation o' of
        None \<Rightarrow> (\<exists>e. pto_error o' = Some e \<and> e \<noteq> [])
      | Some g \<Rightarrow> pto_error o' = None \<and> pt_generation_ok g \<and> ptg_document g = pto_document o')"

lemma binding_lists_payload:
  "list_all binding_ok xs \<Longrightarrow>
    binding_lists (JList (map (JStr \<circ> fst) xs)) (JList (map (JInt \<circ> snd) xs)) = Some xs"
  by (induction xs)
    (auto simp: binding_lists_def binding_ok_def nonempty_str_def nonneg_int_def list_all_iff)

lemma pt_node_payload_roundtrip: "pt_node_ok n \<Longrightarrow> pt_node_from_payload (pt_node_payload n) = Inr n"
  by (simp add: pt_node_from_payload_def pt_node_payload_def dict_get_def pt_node_ok_def
      binding_lists_payload)

lemma pt_generation_payload_roundtrip:
  assumes "pt_generation_ok g"
  shows "pt_generation_from_payload (pt_generation_payload g) = Inr g"
proof -
  have "res_map pt_node_from_payload (map pt_node_payload ns) = Inr ns" if "list_all pt_node_ok ns" for ns
    using that by (induction ns) (auto simp: pt_node_payload_roundtrip)
  with assms show ?thesis
    by (simp add: pt_generation_from_payload_def pt_generation_payload_def dict_get_def Let_def
        pt_required_def nonempty_str_def pt_generation_ok_def eq_commute [of "[]"])
qed

lemma pt_checkpoint_restores:
  assumes ok: "pt_outcome_ok o'"
  shows "page_tree_outcome_from_checkpoint (page_tree_checkpoint o') = Inr o'"
proof (cases "pto_generation o'")
  case None
  with ok obtain e where e: "pto_error o' = Some e" "e \<noteq> []" by (auto simp: pt_outcome_ok_def)
  have "o' = \<lparr>pto_document = pto_document o', pto_generation = None, pto_error = Some e\<rparr>"
    using None e by simp
  with None e ok show ?thesis
    by (simp add: page_tree_outcome_from_checkpoint_def page_tree_checkpoint_def dict_get_def Let_def
        nonempty_str_def json_opt_def pt_outcome_ok_def)
next
  case (Some g)
  with ok have "o' = \<lparr>pto_document = pto_document o', pto_generation = Some g, pto_error = None\<rparr>"
    by (simp add: pt_outcome_ok_def)
  with Some ok pt_generation_payload_roundtrip [of g] show ?thesis
    by (simp add: page_tree_outcome_from_checkpoint_def page_tree_checkpoint_def dict_get_def Let_def
        nonempty_str_def json_opt_def pt_outcome_ok_def)
qed

text \<open>
  C30 The PageTree survives its checkpoint: a well-formed outcome, a generation or a failure
  with its code, restores unchanged, and what a checkpoint of any shape restores to has
  the identity the checkpoint names and, if it has a generation, nodes in order with
  distinct identifiers and parents among them.
\<close>

theorem page_tree_checkpoint_roundtrip:
  "(pt_outcome_ok o' \<longrightarrow> page_tree_outcome_from_checkpoint (page_tree_checkpoint o') = Inr o') \<and>
   (\<forall>r g. page_tree_outcome_from_checkpoint payload = Inr r \<and> pto_generation r = Some g \<longrightarrow>
      pto_error r = None \<and> ptg_document g = pto_document r \<and> ptg_nodes g \<noteq> [] \<and>
      map pt_order (ptg_nodes g) = map int [0..<length (ptg_nodes g)] \<and> pt_hierarchy_ok (ptg_nodes g))"
proof (intro conjI impI allI)
  show "page_tree_outcome_from_checkpoint (page_tree_checkpoint o') = Inr o'" if "pt_outcome_ok o'"
    using that by (rule pt_checkpoint_restores)
next
  fix r g
  assume a: "page_tree_outcome_from_checkpoint payload = Inr r \<and> pto_generation r = Some g"
  then obtain p where p: "pt_generation_from_payload p = Inr g" and
    i: "pto_error r = None \<and> ptg_document g = pto_document r"
    unfolding page_tree_outcome_from_checkpoint_def Let_def
    by (auto simp: res_bind_Inr_iff split: json.splits if_splits)
  from i show "pto_error r = None" "ptg_document g = pto_document r" by auto
  have "ptg_nodes g \<noteq> [] \<and> map pt_order (ptg_nodes g) = map int [0..<length (ptg_nodes g)] \<and>
      pt_hierarchy_ok (ptg_nodes g)"
    using p unfolding pt_generation_from_payload_def Let_def
    by (auto simp: res_bind_Inr_iff split: json.splits if_splits option.splits)
  then show "ptg_nodes g \<noteq> []" "map pt_order (ptg_nodes g) = map int [0..<length (ptg_nodes g)]"
    "pt_hierarchy_ok (ptg_nodes g)" by auto
qed

theorem page_tree_checkpoint_roundtrip_witness:
  "page_tree_outcome_from_checkpoint (page_tree_checkpoint
     \<lparr>pto_document = ''d'', pto_generation = None, pto_error = Some ''e''\<rparr>) =
   Inr \<lparr>pto_document = ''d'', pto_generation = None, pto_error = Some ''e''\<rparr>"
proof -
  have "pt_outcome_ok \<lparr>pto_document = ''d'', pto_generation = None, pto_error = Some ''e''\<rparr>"
    by (simp add: pt_outcome_ok_def)
  with page_tree_checkpoint_roundtrip show ?thesis by blast
qed

end
