(* ===== verification/PageSections.thy ===== *)
theory PageSections
  imports PageTree
begin

section \<open>Sections of a document (\<open>page_tree_analysis_sections\<close>)\<close>

text \<open>
  The projection of a tree onto the groups of Evidence the Analysis plans by
  (\<open>openkb/page_tree/tree.py\<close>), against a declarative account of the section a node lies in.
\<close>

subsection \<open>The walk to the section and the groups\<close>

text \<open>
  \<open>_section_ancestor\<close>.  \<open>None\<close> is a loop that has not ended after \<open>fuel\<close> steps; a missing
  parent is a \<open>KeyError\<close>, and a tree without a root ends in \<open>StopIteration\<close>.
\<close>

definition node_by_id :: "pt_node list \<Rightarrow> string \<rightharpoonup> pt_node" where
  "node_by_id nodes = map_of (rev (map (\<lambda>n. (pt_node_id n, n)) nodes))"

fun ancestor_loop :: "nat \<Rightarrow> pt_node list \<Rightarrow> string option \<Rightarrow> string res option" where
  "ancestor_loop fuel nodes None =
     (case find (\<lambda>n. pt_parent n = None) nodes of
        Some n \<Rightarrow> Some (Inr (pt_node_id n))
      | None \<Rightarrow> Some (Inl (RuntimeError ''StopIteration'')))"
| "ancestor_loop 0 nodes (Some i) = None"
| "ancestor_loop (Suc fuel) nodes (Some i) =
     (case node_by_id nodes i of
        None \<Rightarrow> Some (Inl (KeyError i))
      | Some p \<Rightarrow> if pt_kind p = ''section'' then Some (Inr (pt_node_id p))
                  else ancestor_loop fuel nodes (pt_parent p))"

definition section_ancestor :: "nat \<Rightarrow> pt_node list \<Rightarrow> pt_node \<Rightarrow> string res option" where
  "section_ancestor fuel nodes n = ancestor_loop fuel nodes (pt_parent n)"

definition node_owner :: "nat \<Rightarrow> pt_node list \<Rightarrow> pt_node \<Rightarrow> string res option" where
  "node_owner fuel nodes n =
     (if pt_kind n = ''section'' then Some (Inr (pt_node_id n)) else section_ancestor fuel nodes n)"

text \<open>The owner of every Evidence; \<open>Inr None\<close> is the early \<open>return ()\<close> on a duplicate.\<close>

fun own_bindings :: "string \<Rightarrow> (string \<times> int) list \<Rightarrow> (string \<times> string) list \<Rightarrow> (string \<times> string) list option" where
  "own_bindings owner [] owners = Some owners"
| "own_bindings owner ((e, k) # bs) owners =
     (if e \<in> fst ` set owners then None else own_bindings owner bs (owners @ [(e, owner)]))"

fun evidence_owners ::
  "nat \<Rightarrow> pt_node list \<Rightarrow> pt_node list \<Rightarrow> (string \<times> string) list \<Rightarrow>
    (string \<times> string) list option res option" where
  "evidence_owners fuel nodes [] owners = Some (Inr (Some owners))"
| "evidence_owners fuel nodes (n # ns) owners =
     (case node_owner fuel nodes n of
        None \<Rightarrow> None
      | Some (Inl e) \<Rightarrow> Some (Inl e)
      | Some (Inr owner) \<Rightarrow>
          (case own_bindings owner (pt_evidence n) owners of
             None \<Rightarrow> Some (Inr None)
           | Some owners' \<Rightarrow> evidence_owners fuel nodes ns owners'))"

text \<open>\<open>grouped.setdefault(owner, []).append(item)\<close>, then the groups in order.\<close>

fun add_to_group :: "'k \<Rightarrow> 'a \<Rightarrow> ('k \<times> 'a list) list \<Rightarrow> ('k \<times> 'a list) list" where
  "add_to_group k x [] = [(k, [x])]"
| "add_to_group k x ((k', xs) # gs) =
     (if k' = k then (k', xs @ [x]) # gs else (k', xs) # add_to_group k x gs)"

definition group_by_owner :: "('a \<Rightarrow> 'k) \<Rightarrow> 'a list \<Rightarrow> 'a list list" where
  "group_by_owner owner xs = map snd (foldl (\<lambda>gs x. add_to_group (owner x) x gs) [] xs)"

definition page_tree_analysis_sections ::
  "nat \<Rightarrow> pt_generation \<Rightarrow> (string \<times> ir_block) list \<Rightarrow> (string \<times> ir_block) list list res option" where
  "page_tree_analysis_sections fuel g evidence =
     (case evidence_owners fuel (ptg_nodes g) (ptg_nodes g) [] of
        None \<Rightarrow> None
      | Some (Inl e) \<Rightarrow> Some (Inl e)
      | Some (Inr None) \<Rightarrow> Some (Inr [])
      | Some (Inr (Some owners)) \<Rightarrow>
          if fst ` set owners \<noteq> fst ` set evidence then Some (Inr [])
          else Some (Inr (group_by_owner (\<lambda>x. the (map_of owners (fst x))) evidence)))"

lemma add_to_group_map:
  "map_of (add_to_group k x gs) =
     (map_of gs)(k \<mapsto> (case map_of gs k of None \<Rightarrow> [] | Some xs \<Rightarrow> xs) @ [x])"
  by (induction gs) (auto simp: fun_eq_iff)

lemma add_to_group_keys: "fst ` set (add_to_group k x gs) = insert k (fst ` set gs)"
  by (induction k x gs rule: add_to_group.induct) (simp_all add: insert_commute)

lemma add_to_group_distinct: "distinct (map fst gs) \<Longrightarrow> distinct (map fst (add_to_group k x gs))"
  by (induction gs) (auto simp: add_to_group_keys)

lemma group_distinct: "distinct (map fst (foldl (\<lambda>gs x. add_to_group (f x) x gs) [] xs))"
  by (induction xs rule: rev_induct) (simp_all add: add_to_group_distinct)

text \<open>The groups partition the list: every group is the sublist of one owner.\<close>

lemma group_map:
  "map_of (foldl (\<lambda>gs x. add_to_group (f x) x gs) [] xs) k =
     (if k \<in> f ` set xs then Some (filter (\<lambda>x. f x = k) xs) else None)"
proof (induction xs arbitrary: k rule: rev_induct)
  case (snoc x xs)
  have none: "f x \<notin> f ` set xs \<Longrightarrow> filter (\<lambda>y. f y = f x) xs = []"
    by (simp only: filter_empty_conv) (metis imageI)
  show ?case
  proof (cases "k = f x")
    case True
    with snoc [of "f x"] none show ?thesis by (simp add: add_to_group_map)
  next
    case False
    with snoc [of k] show ?thesis by (auto simp: add_to_group_map)
  qed
qed simp

lemma group_by_owner_groups:
  "set (group_by_owner f xs) = (\<lambda>k. filter (\<lambda>x. f x = k) xs) ` f ` set xs"
proof -
  let ?gs = "foldl (\<lambda>gs x. add_to_group (f x) x gs) [] xs"
  have "set (map snd ?gs) = ran (map_of ?gs)"
    using group_distinct [of f xs] by (simp add: ran_distinct)
  also have "\<dots> = (\<lambda>k. filter (\<lambda>x. f x = k) xs) ` f ` set xs"
    by (auto simp: ran_def group_map split: if_splits)
  finally show ?thesis by (simp add: group_by_owner_def)
qed

lemma group_by_owner_distinct: "distinct (group_by_owner f xs)"
proof -
  let ?gs = "foldl (\<lambda>gs x. add_to_group (f x) x gs) [] xs"
  have "inj_on snd (set ?gs)"
  proof (rule inj_onI)
    fix a b
    assume ab: "a \<in> set ?gs" "b \<in> set ?gs" "snd a = snd b"
    have grp: "fst c \<in> f ` set xs \<and> snd c = filter (\<lambda>x. f x = fst c) xs" if "c \<in> set ?gs" for c
      using map_of_is_SomeI [OF group_distinct, of "fst c" "snd c" f xs] that
      by (auto simp: group_map split: if_splits)
    from grp [OF ab(1)] obtain x where "x \<in> set xs" "f x = fst a" by auto
    then have "x \<in> set (snd a)" using grp [OF ab(1)] by auto
    with ab grp [OF ab(2)] \<open>f x = fst a\<close> have "fst a = fst b" by auto
    with ab(3) show "a = b" by (cases a; cases b) simp
  qed
  then show ?thesis
    using group_distinct [of f xs] by (auto simp: group_by_owner_def distinct_map)
qed

definition parents_earlier :: "pt_node list \<Rightarrow> bool" where
  "parents_earlier ns \<longleftrightarrow>
     distinct (map pt_node_id ns) \<and> ns \<noteq> [] \<and> pt_parent (ns ! 0) = None \<and>
     (\<forall>k<length ns. 0 < k \<longrightarrow> (\<exists>p<k. pt_parent (ns ! k) = Some (pt_node_id (ns ! p))))"

lemma node_by_id_nth:
  "distinct (map pt_node_id ns) \<Longrightarrow> p < length ns \<Longrightarrow> node_by_id ns (pt_node_id (ns ! p)) = Some (ns ! p)"
  unfolding node_by_id_def
  by (rule map_of_is_SomeI) (auto simp: rev_map [symmetric] comp_def)

subsection \<open>The section of a node\<close>

text \<open>A node lies in the nearest node upwards, itself included, that is a section or has no parent.\<close>

inductive in_section :: "pt_node list \<Rightarrow> pt_node \<Rightarrow> string \<Rightarrow> bool" for ns where
  here: "pt_kind n = ''section'' \<or> pt_parent n = None \<Longrightarrow> in_section ns n (pt_node_id n)"
| up: "pt_kind n \<noteq> ''section'' \<Longrightarrow> pt_parent n = Some (pt_node_id p) \<Longrightarrow> p \<in> set ns \<Longrightarrow> in_section ns p i \<Longrightarrow> in_section ns n i"

definition lies_in :: "pt_node list \<Rightarrow> string \<Rightarrow> string \<Rightarrow> bool" where
  "lies_in ns e i \<longleftrightarrow> (\<exists>n\<in>set ns. e \<in> fst ` set (pt_evidence n) \<and> in_section ns n i)"

lemma same_node: "distinct (map pt_node_id ns) \<Longrightarrow> n \<in> set ns \<Longrightarrow> m \<in> set ns \<Longrightarrow> pt_node_id n = pt_node_id m \<Longrightarrow> n = m"
  by (simp add: distinct_map inj_on_def)

lemma in_section_unique:
  "in_section ns n i \<Longrightarrow> in_section ns n j \<Longrightarrow> distinct (map pt_node_id ns) \<Longrightarrow> i = j"
proof (induction arbitrary: j rule: in_section.induct)
  case (here n)
  from here.prems(1) here.hyps show ?case by cases auto
next
  case (up n p i)
  from up.prems(1) show ?case
  proof cases
    case here
    with up.hyps show ?thesis by auto
  next
    case other: (up q)
    with up.hyps have "pt_node_id q = pt_node_id p" by simp
    with same_node [OF up.prems(2)] other(3) up.hyps(3) have "q = p" by blast
    with up.IH other(4) up.prems(2) show ?thesis by blast
  qed
qed

lemma ancestor_loop_ends:
  "parents_earlier ns \<Longrightarrow> p < length ns \<Longrightarrow> p < fuel \<Longrightarrow>
    \<exists>i. ancestor_loop fuel ns (Some (pt_node_id (ns ! p))) = Some (Inr i) \<and> in_section ns (ns ! p) i"
proof (induction p arbitrary: fuel rule: less_induct)
  case (less p)
  then obtain f where f: "fuel = Suc f" by (cases fuel) auto
  have n: "node_by_id ns (pt_node_id (ns ! p)) = Some (ns ! p)"
    using less.prems by (intro node_by_id_nth) (auto simp: parents_earlier_def)
  show ?case
  proof (cases "pt_kind (ns ! p) = ''section''")
    case True
    with f n show ?thesis by (auto intro: in_section.here)
  next
    case kind: False
    show ?thesis
    proof (cases "p = 0")
      case True
      have "find (\<lambda>n. pt_parent n = None) ns = Some (ns ! 0)"
        using less.prems(1) by (cases ns) (auto simp: parents_earlier_def)
      with True kind n f less.prems show ?thesis by (auto simp: parents_earlier_def intro: in_section.here)
    next
      case False
      with less.prems obtain q where q: "q < p" "pt_parent (ns ! p) = Some (pt_node_id (ns ! q))"
        by (auto simp: parents_earlier_def)
      with less.prems have q_in: "ns ! q \<in> set ns" by simp
      from less.IH [OF q(1) less.prems(1), of f] less.prems f q(1) obtain i
        where i: "ancestor_loop f ns (Some (pt_node_id (ns ! q))) = Some (Inr i)" "in_section ns (ns ! q) i" by auto
      have "in_section ns (ns ! p) i" by (rule in_section.up [OF kind q(2) q_in i(2)])
      with i(1) f n kind q(2) show ?thesis by simp
    qed
  qed
qed

lemma node_owner_ends:
  assumes "parents_earlier ns" and "n \<in> set ns"
  shows "\<exists>i. node_owner (length ns) ns n = Some (Inr i) \<and> in_section ns n i"
proof -
  from assms(2) obtain k where k: "k < length ns" "n = ns ! k" by (auto simp: in_set_conv_nth)
  have root: "find (\<lambda>n. pt_parent n = None) ns = Some (ns ! 0)"
    using assms(1) by (cases ns) (auto simp: parents_earlier_def)
  show ?thesis
  proof (cases "pt_kind n = ''section''")
    case True
    then show ?thesis by (auto simp: node_owner_def intro: in_section.here)
  next
    case kind: False
    show ?thesis
    proof (cases "k = 0")
      case True
      with assms(1) k root kind show ?thesis
        by (auto simp: node_owner_def section_ancestor_def parents_earlier_def intro: in_section.here)
    next
      case False
      with assms(1) k obtain p where p: "p < k" "pt_parent (ns ! k) = Some (pt_node_id (ns ! p))"
        by (auto simp: parents_earlier_def)
      with k have p_in: "ns ! p \<in> set ns" by simp
      from ancestor_loop_ends [OF assms(1), of p "length ns"] p(1) k(1) obtain i
        where i: "ancestor_loop (length ns) ns (Some (pt_node_id (ns ! p))) = Some (Inr i)" "in_section ns (ns ! p) i" by auto
      have "in_section ns n i" by (rule in_section.up [OF kind p(2) [folded k(2)] p_in i(2)])
      with i(1) kind p(2) k(2) show ?thesis by (simp add: node_owner_def section_ancestor_def)
    qed
  qed
qed

lemma own_bindings_distinct:
  "distinct (map fst owners @ map fst bs) \<Longrightarrow>
    own_bindings owner bs owners = Some (owners @ map (\<lambda>b. (fst b, owner)) bs)"
  by (induction owner bs owners rule: own_bindings.induct) (auto simp: image_iff)

lemma constant_lookup: "map_of (map (\<lambda>b. (fst b, i)) bs) e = (if e \<in> fst ` set bs then Some i else None)"
  by (induction bs) auto

lemma own_bindings_lookup:
  assumes "fst ` set bs \<inter> fst ` set owners = {}"
  shows "map_of (owners @ map (\<lambda>b. (fst b, i)) bs) e = (if e \<in> fst ` set bs then Some i else map_of owners e)"
proof (cases "e \<in> fst ` set bs")
  case True
  with assms have "map_of owners e = None" by (auto simp: map_of_eq_None_iff)
  with True show ?thesis unfolding map_of_append map_add_def constant_lookup by simp
next
  case False
  then show ?thesis unfolding map_of_append map_add_def constant_lookup by (simp split: option.split)
qed

lemma evidence_owners_total:
  "(\<And>n. n \<in> set ns' \<Longrightarrow> \<exists>i. node_owner fuel ns n = Some (Inr i)) \<Longrightarrow>
    distinct (map fst owners @ map fst (concat (map pt_evidence ns'))) \<Longrightarrow>
    \<exists>owners'. evidence_owners fuel ns ns' owners = Some (Inr (Some owners')) \<and>
      fst ` set owners' = fst ` set owners \<union> fst ` set (concat (map pt_evidence ns')) \<and>
      (\<forall>e\<in>fst ` set owners. map_of owners' e = map_of owners e) \<and>
      (\<forall>n\<in>set ns'. \<forall>e\<in>fst ` set (pt_evidence n). \<exists>i. node_owner fuel ns n = Some (Inr i) \<and> map_of owners' e = Some i)"
proof (induction ns' arbitrary: owners)
  case (Cons n ns')
  obtain i where i: "node_owner fuel ns n = Some (Inr i)" using Cons.prems(1) by auto
  let ?owners = "owners @ map (\<lambda>b. (fst b, i)) (pt_evidence n)"
  have o: "own_bindings i (pt_evidence n) owners = Some ?owners"
    using Cons.prems(2) by (intro own_bindings_distinct) auto
  have keys: "map fst ?owners = map fst owners @ map fst (pt_evidence n)" by simp
  then have "distinct (map fst ?owners @ map fst (concat (map pt_evidence ns')))"
    using Cons.prems(2) by (simp only: concat.simps list.map map_append append_assoc)
  from Cons.IH [OF _ this] Cons.prems(1) obtain owners' where
    total: "evidence_owners fuel ns ns' ?owners = Some (Inr (Some owners'))"
    "fst ` set owners' = fst ` set ?owners \<union> fst ` set (concat (map pt_evidence ns'))"
    and kept: "\<forall>e\<in>fst ` set ?owners. map_of owners' e = map_of ?owners e"
    and rest: "\<forall>n\<in>set ns'. \<forall>e\<in>fst ` set (pt_evidence n). \<exists>i. node_owner fuel ns n = Some (Inr i) \<and> map_of owners' e = Some i"
    by auto
  have apart: "fst ` set (pt_evidence n) \<inter> fst ` set owners = {}" using Cons.prems(2) by auto
  have lookup: "map_of ?owners e = (if e \<in> fst ` set (pt_evidence n) then Some i else map_of owners e)" for e
    by (rule own_bindings_lookup [OF apart])
  have fst_owners: "fst ` set ?owners = fst ` set owners \<union> fst ` set (pt_evidence n)"
    by (simp only: set_append image_Un set_map image_image fst_conv)
  have "map_of owners' e = map_of owners e" if "e \<in> fst ` set owners" for e
  proof -
    from that apart have "e \<notin> fst ` set (pt_evidence n)" by blast
    moreover have "map_of owners' e = map_of ?owners e" using kept that unfolding fst_owners by blast
    ultimately show ?thesis by (simp only: lookup if_False)
  qed
  moreover have "map_of owners' e = Some i" if "e \<in> fst ` set (pt_evidence n)" for e
  proof -
    have "map_of owners' e = map_of ?owners e" using kept that unfolding fst_owners by blast
    with that show ?thesis by (simp only: lookup if_True)
  qed
  moreover have "fst ` set owners' = fst ` set owners \<union> fst ` set (concat (map pt_evidence (n # ns')))"
    using total(2) fst_owners by auto
  ultimately show ?case using i o total(1) rest by auto
qed simp

text \<open>
  C0 Sections partition the Evidence.  For a tree whose parents come before their children
  (as every built tree's do, \<open>built_tree_parents_earlier\<close>) and whose nodes bind exactly the
  given Evidence, each once, the walk to the section above a node ends within as many steps as
  there are nodes.  Every group of the result is not empty and is, in the order of the
  Evidence, all of it that lies in one section: in the nearest section above its node, or in
  the root.  Every Evidence is in a group, and no two groups share one.
\<close>

theorem page_tree_sections_partition:
  assumes "parents_earlier (ptg_nodes g)"
    and "distinct (map fst (concat (map pt_evidence (ptg_nodes g))))"
    and "fst ` set (concat (map pt_evidence (ptg_nodes g))) = fst ` set evidence"
  shows "\<exists>groups. page_tree_analysis_sections (length (ptg_nodes g)) g evidence = Some (Inr groups) \<and>
    distinct groups \<and> set (concat groups) = set evidence \<and>
    (\<forall>grp\<in>set groups. grp \<noteq> [] \<and> (\<exists>i. grp = filter (\<lambda>x. lies_in (ptg_nodes g) (fst x) i) evidence)) \<and>
    (\<forall>a\<in>set groups. \<forall>b\<in>set groups. a \<noteq> b \<longrightarrow> set a \<inter> set b = {})"
proof -
  let ?ns = "ptg_nodes g"
  have ids: "distinct (map pt_node_id ?ns)" using assms(1) by (simp add: parents_earlier_def)
  have ends: "\<And>n. n \<in> set ?ns \<Longrightarrow> \<exists>i. node_owner (length ?ns) ?ns n = Some (Inr i)"
    using node_owner_ends [OF assms(1)] by blast
  have bound: "distinct (map fst ([] :: (string \<times> string) list) @ map fst (concat (map pt_evidence ?ns)))" using assms(2) by simp
  from evidence_owners_total [OF ends bound] obtain owners where o: "evidence_owners (length ?ns) ?ns ?ns [] = Some (Inr (Some owners))"
    "fst ` set owners = fst ` set (concat (map pt_evidence ?ns))"
    and owner: "\<forall>n\<in>set ?ns. \<forall>e\<in>fst ` set (pt_evidence n). \<exists>i. node_owner (length ?ns) ?ns n = Some (Inr i) \<and> map_of owners e = Some i"
    by auto
  let ?owner = "\<lambda>x :: string \<times> ir_block. the (map_of owners (fst x))"
  let ?groups = "group_by_owner ?owner evidence"
  have lies: "lies_in ?ns (fst x) i \<longleftrightarrow> ?owner x = i" if x: "x \<in> set evidence" for x i
  proof -
    from x assms(3) obtain n where n: "n \<in> set ?ns" "fst x \<in> fst ` set (pt_evidence n)" by fastforce
    from owner n obtain j where j: "node_owner (length ?ns) ?ns n = Some (Inr j)" "map_of owners (fst x) = Some j" by blast
    have only: "k = j" if "lies_in ?ns (fst x) k" for k
    proof -
      from that obtain m where m: "m \<in> set ?ns" "fst x \<in> fst ` set (pt_evidence m)" "in_section ?ns m k"
        by (auto simp: lies_in_def)
      from owner m(1,2) j(2) have "node_owner (length ?ns) ?ns m = Some (Inr j)" by fastforce
      with node_owner_ends [OF assms(1) m(1)] have "in_section ?ns m j" by auto
      with m(3) ids show "k = j" using in_section_unique by blast
    qed
    moreover have "in_section ?ns n j" using node_owner_ends [OF assms(1) n(1)] j(1) by auto
    with n have "lies_in ?ns (fst x) j" unfolding lies_in_def by blast
    ultimately have "lies_in ?ns (fst x) i \<longleftrightarrow> j = i" by blast
    then show ?thesis by (simp only: j(2) option.sel)
  qed
  have g: "set ?groups = (\<lambda>k. filter (\<lambda>x. ?owner x = k) evidence) ` ?owner ` set evidence"
    by (rule group_by_owner_groups)
  have same: "filter (\<lambda>x. ?owner x = k) evidence = filter (\<lambda>x. lies_in ?ns (fst x) k) evidence" for k
    by (rule filter_cong [OF refl]) (simp add: lies)
  have "grp \<noteq> [] \<and> (\<exists>i. grp = filter (\<lambda>x. lies_in ?ns (fst x) i) evidence)" if grp: "grp \<in> set ?groups" for grp
  proof -
    from grp obtain x where x: "x \<in> set evidence" "grp = filter (\<lambda>y. ?owner y = ?owner x) evidence" unfolding g by blast
    then have "x \<in> set grp" by simp
    then have "grp \<noteq> []" by (cases grp) simp_all
    moreover have "grp = filter (\<lambda>y. lies_in ?ns (fst y) (?owner x)) evidence" by (rule trans [OF x(2) same])
    ultimately show ?thesis by blast
  qed
  moreover have "set (concat ?groups) = set evidence" unfolding set_concat g by auto
  moreover have "set a \<inter> set b = {}" if "a \<in> set ?groups" "b \<in> set ?groups" "a \<noteq> b" for a b
    using that unfolding g by auto
  ultimately have "distinct ?groups \<and> set (concat ?groups) = set evidence \<and>
      (\<forall>grp\<in>set ?groups. grp \<noteq> [] \<and> (\<exists>i. grp = filter (\<lambda>x. lies_in ?ns (fst x) i) evidence)) \<and>
      (\<forall>a\<in>set ?groups. \<forall>b\<in>set ?groups. a \<noteq> b \<longrightarrow> set a \<inter> set b = {})"
    using group_by_owner_distinct by blast
  moreover have "page_tree_analysis_sections (length ?ns) g evidence = Some (Inr ?groups)"
    using o assms(3) by (simp add: page_tree_analysis_sections_def)
  ultimately show ?thesis by blast
qed

lemma built_tree_parents_earlier:
  assumes "build_deterministic_page_tree sha256 tc now d blocks evidence imgs c pk pv = Inr g"
    and "distinct (map pt_node_id (ptg_nodes g))"
  shows "parents_earlier (ptg_nodes g)"
proof -
  from build_page_tree_inv [OF assms] obtain st where
    inv: "pt_inv (evidence_of_block evidence) (pt_node_id (hd (ptg_nodes g))) blocks st"
    and st: "ptg_nodes g = pts_nodes st" by blast
  have "\<exists>p<k. pt_parent (pts_nodes st ! k) = Some (pt_node_id (pts_nodes st ! p))"
    if "k < length (pts_nodes st)" "0 < k" for k
  proof -
    from that obtain j where j: "k = Suc j" "j < length blocks" using inv by (cases k) (auto simp: pt_inv_def)
    with inv have "node_of_block (evidence_of_block evidence) blocks (pts_nodes st) j"
      by (auto simp: pt_inv_def)
    then obtain p where "is_parent (take j blocks) (parent_path (blocks ! j)) p"
      "pt_parent (pts_nodes st ! Suc j) = Some (pt_node_id (pts_nodes st ! p))"
      by (auto simp: node_of_block_def)
    with is_parent_le [of "take j blocks" "parent_path (blocks ! j)" p] j show ?thesis
      by (intro exI [of _ p]) auto
  qed
  with inv assms(2) st show ?thesis by (auto simp: parents_earlier_def pt_inv_def pt_root_def)
qed

theorem page_tree_sections_partition_witness:
  "\<exists>g groups. outline_tree = Inr g \<and>
     page_tree_analysis_sections (length (ptg_nodes g)) g
       [(''e0'', outline_blocks ! 0), (''e1'', outline_blocks ! 1)] = Some (Inr groups) \<and> groups \<noteq> []"
proof -
  have "case outline_tree of Inl _ \<Rightarrow> False | Inr g \<Rightarrow> distinct (map pt_node_id (ptg_nodes g)) \<and>
      map fst (concat (map pt_evidence (ptg_nodes g))) = [''e0'', ''e1'']"
    by code_simp
  then obtain g where g: "outline_tree = Inr g" "distinct (map pt_node_id (ptg_nodes g))"
    "map fst (concat (map pt_evidence (ptg_nodes g))) = [''e0'', ''e1'']"
    by (auto split: sum.splits)
  have pe: "parents_earlier (ptg_nodes g)"
    by (rule built_tree_parents_earlier [OF g(1) [unfolded outline_tree_def] g(2)])
  have "set (map fst (concat (map pt_evidence (ptg_nodes g)))) = {''e0'', ''e1''}"
    unfolding g(3) by simp
  then have e: "fst ` set (concat (map pt_evidence (ptg_nodes g))) =
      fst ` set [(''e0'', outline_blocks ! 0), (''e1'', outline_blocks ! 1)]" by simp
  have d: "distinct (map fst (concat (map pt_evidence (ptg_nodes g))))" unfolding g(3) by simp
  from page_tree_sections_partition [OF pe d e] obtain groups where
    "page_tree_analysis_sections (length (ptg_nodes g)) g
       [(''e0'', outline_blocks ! 0), (''e1'', outline_blocks ! 1)] = Some (Inr groups)" "set (concat groups) = set [(''e0'', outline_blocks ! 0), (''e1'', outline_blocks ! 1)]"
    by (elim exE conjE) (rule that)
  then have "groups \<noteq> []" by auto
  with g(1) \<open>page_tree_analysis_sections _ _ _ = _\<close> show ?thesis by (intro exI conjI)
qed

definition cyclic_node :: pt_node where
  "cyclic_node = \<lparr>pt_node_id = ''n'', pt_parent = Some ''n'', pt_order = 0, pt_depth = 0,
     pt_kind = ''paragraph'', pt_title = [], pt_locator = [], pt_evidence = [], pt_images = [],
     pt_summary = None\<rparr>"

definition cyclic_outcome :: pt_outcome where
  "cyclic_outcome = \<lparr>pto_document = ''d'', pto_generation = Some
     \<lparr>ptg_id = ''g'', ptg_document = ''d'', ptg_provider_kind = ''k'', ptg_provider_version = ''v'',
       ptg_fingerprint = ''f'', ptg_locator_digest = ''l'', ptg_created_at = ''t'',
       ptg_status = ''ready'', ptg_nodes = [cyclic_node], ptg_reused_from = None\<rparr>,
     pto_error = None\<rparr>"

lemma cyclic_loop: "ancestor_loop fuel [cyclic_node] (Some ''n'') = None"
  by (induction fuel) (simp_all add: node_by_id_def cyclic_node_def)

lemma cyclic_outcome_ok: "pt_outcome_ok cyclic_outcome"
  by (simp add: pt_outcome_ok_def cyclic_outcome_def pt_generation_ok_def pt_node_ok_def cyclic_node_def
      pt_hierarchy_ok_def)

text \<open>
  What the checkpoint does not exclude.  A checkpoint whose node names itself as its
  parent passes every check of \<open>page_tree_outcome_from_checkpoint\<close>, and on the tree it
  restores the walk of \<open>page_tree_analysis_sections\<close> never ends, whatever the fuel.
\<close>

theorem cyclic_checkpoint_diverges:
  "page_tree_outcome_from_checkpoint (page_tree_checkpoint cyclic_outcome) = Inr cyclic_outcome \<and>
   (\<forall>fuel evidence. page_tree_analysis_sections fuel (the (pto_generation cyclic_outcome)) evidence = None)"
proof
  show "page_tree_outcome_from_checkpoint (page_tree_checkpoint cyclic_outcome) = Inr cyclic_outcome"
    by (rule pt_checkpoint_restores [OF cyclic_outcome_ok])
  have "node_owner fuel [cyclic_node] cyclic_node = None" for fuel
    using cyclic_loop [of fuel] by (simp add: node_owner_def section_ancestor_def cyclic_node_def)
  then show "\<forall>fuel evidence. page_tree_analysis_sections fuel (the (pto_generation cyclic_outcome)) evidence = None"
    by (simp add: page_tree_analysis_sections_def cyclic_outcome_def)
qed

end
