(* ===== verification/AnalysisProposal.thy ===== *)
theory AnalysisProposal
  imports AnalysisPlan PageSections
begin

section \<open>Proposing the plan of a document\<close>

text \<open>
  The beginning of \<open>execute_knowledge_analysis_run\<close> (\<open>openkb/knowledge/analysis/batches.py\<close>),
  which composes the PageTree, the batch planner and the plan: sections from the tree,
  batches from the sections, an estimate per batch and the plan over them.  Two loops
  need fuel, the walk up the tree and the merge topology.
\<close>

definition batch_estimates :: "(string \<Rightarrow> string) \<Rightarrow> string \<Rightarrow> evidence_item list list \<Rightarrow> int list" where
  "batch_estimates path_name document batches =
     map (\<lambda>(ordinal, b). int (estimate_batch_tokens path_name document b ordinal (length batches)))
       (enumerate 0 batches)"

definition propose_analysis_plan ::
  "(string \<Rightarrow> string) \<Rightarrow> (string \<Rightarrow> string) \<Rightarrow> nat \<Rightarrow> string \<Rightarrow> evidence_item list \<Rightarrow> pt_generation option \<Rightarrow> string \<Rightarrow>
    string \<Rightarrow> capability_profile \<Rightarrow> dict \<Rightarrow> execution_profile option \<Rightarrow> dict \<Rightarrow> analysis_plan res option" where
  "propose_analysis_plan sha256 path_name fuel document evidence tree provider model cap policy profile bundle =
     (case (case tree of None \<Rightarrow> Some (Inr []) | Some g \<Rightarrow> page_tree_analysis_sections fuel g evidence) of
        None \<Rightarrow> None
      | Some (Inl e) \<Rightarrow> Some (Inl e)
      | Some (Inr sections) \<Rightarrow>
          let budget = (case profile of None \<Rightarrow> analysis_input_budget cap policy | Some e \<Rightarrow> ep_document_budget e) in
          (case plan_batches path_name evidence (if sections = [] then None else Some sections) document budget None None of
             Inl e \<Rightarrow> Some (Inl e)
           | Inr batches \<Rightarrow>
               build_analysis_plan sha256 fuel evidence batches provider model cap policy
                 (batch_estimates path_name document batches) profile bundle))"

lemma batch_estimates_simps [simp]:
  "length (batch_estimates path_name document bs) = length bs"
  "i < length bs \<Longrightarrow> batch_estimates path_name document bs ! i =
     int (estimate_batch_tokens path_name document (bs ! i) i (length bs))"
  by (simp_all add: batch_estimates_def nth_enumerate_eq)

lemma length_le_concat: "[] \<notin> set xss \<Longrightarrow> length xss \<le> length (concat xss)"
proof (induction xss)
  case (Cons xs xss)
  then have "1 \<le> length xs" by (cases xs) auto
  with Cons show ?case by simp
qed simp

lemma propose_Inr:
  assumes "propose_analysis_plan sha256 path_name fuel document evidence tree provider model cap policy profile bundle = Some (Inr p)"
  obtains natural bs where
    "plan_batches path_name evidence natural document (pl_input_budget p) None None = Inr bs"
    "build_analysis_plan sha256 fuel evidence bs provider model cap policy
       (batch_estimates path_name document bs) profile bundle = Some (Inr p)"
proof -
  from assms obtain natural bs where
    b: "build_analysis_plan sha256 fuel evidence bs provider model cap policy
       (batch_estimates path_name document bs) profile bundle = Some (Inr p)"
    and p: "plan_batches path_name evidence natural document
       (case profile of None \<Rightarrow> analysis_input_budget cap policy | Some e \<Rightarrow> ep_document_budget e) None None = Inr bs"
    by (auto simp: propose_analysis_plan_def Let_def split: option.splits sum.splits)
  from that [OF p [folded build_analysis_plan_Inr(4) [OF b]] b] show thesis .
qed

text \<open>
  A proposed plan covers the document.  Whatever the PageTree gave, the evidence
  identifiers of its batches, concatenated, are those of the document's Evidence in order;
  the ordinals count up from zero; no batch is empty and the tokens recorded for a batch
  are within the plan's input budget (for fewer than \<open>10^50\<close> blocks); the document digest
  is that of the Evidence, the contract digest that of the pinned bundle, and the execution
  profile is the one of the selected provider, model and contracts.
\<close>

theorem proposed_plan_covers_document:
  assumes "propose_analysis_plan sha256 path_name fuel document evidence tree provider model cap policy profile bundle = Some (Inr p)"
    and "length evidence < 10 ^ 50"
  shows "concat (map bp_evidence_ids (pl_batches p)) = map fst evidence \<and>
    map bp_ordinal (pl_batches p) = [0..<length (pl_batches p)] \<and>
    (\<forall>b\<in>set (pl_batches p). bp_evidence_ids b \<noteq> [] \<and> bp_estimated_tokens b \<le> pl_input_budget p) \<and>
    pl_document_ir_digest p = document_ir_digest sha256 evidence \<and>
    pl_prompt_digest p = object_digest sha256 (JObj (pl_snapshot p)) \<and>
    (\<forall>e\<in>set_option profile. ep_provider e = pl_provider p \<and> ep_model e = pl_model p \<and>
       ep_prompt_contract_digest e = pl_prompt_digest p)"
proof -
  from propose_Inr [OF assms(1)] obtain natural bs where
    bs: "plan_batches path_name evidence natural document (pl_input_budget p) None None = Inr bs"
    and built: "build_analysis_plan sha256 fuel evidence bs provider model cap policy
       (batch_estimates path_name document bs) profile bundle = Some (Inr p)" .
  note plan = build_analysis_plan_Inr [OF built]
  have cover: "concat bs = evidence" "[] \<notin> set bs"
    using plan_batches_cases [OF bs] by (auto simp: list_all_iff)
  have small: "length bs < 10 ^ 50" using length_le_concat [OF cover(2)] cover(1) assms(2) by simp
  have "map bp_evidence_ids (pl_batches p) = map (map fst) bs"
    by (rule nth_equalityI) (simp_all add: plan(2) batch_plan_of_def)
  then have "concat (map bp_evidence_ids (pl_batches p)) = map fst evidence"
    using cover(1) by (simp flip: map_concat)
  moreover have "map bp_ordinal (pl_batches p) = [0..<length (pl_batches p)]"
    by (simp add: plan(2) batch_plan_of_def comp_def)
  moreover have "bp_evidence_ids b \<noteq> [] \<and> bp_estimated_tokens b \<le> pl_input_budget p" if "b \<in> set (pl_batches p)" for b
  proof -
    from that obtain i where i: "i < length bs" "b = batch_plan_of i (bs ! i) (batch_estimates path_name document bs ! i)"
      by (auto simp: plan(2))
    have "bs ! i \<noteq> []" using cover(2) i(1) by (metis nth_mem)
    moreover have "int (estimate_batch_tokens path_name document (bs ! i) i (length bs)) \<le> pl_input_budget p"
      using planned_batch_estimates(2) [OF bs i(1) small, of None
          "\<lparr>ab_id = [], ab_ordinal = i, ab_section_paths = batch_section_paths (bs ! i), ab_evidence = bs ! i,
            ab_status = [], ab_checkpoint = None\<rparr>"] by simp
    ultimately show ?thesis using i by (simp add: batch_plan_of_def)
  qed
  ultimately show ?thesis using plan(5-8) by blast
qed

lemma merge_topology_total: "n \<le> fuel \<Longrightarrow> \<exists>ns. hierarchical_merge_topology fuel n 4 = Some (Inr ns)"
  using merge_levels_spec [of "merge_leaves n" fuel 4 0]
  by (cases "n \<le> 1") (auto simp: hierarchical_merge_topology_def merge_leaves_def)

lemma build_analysis_plan_total:
  assumes "length bs \<le> length tokens" "length bs \<le> fuel"
    and "\<forall>e\<in>set_option profile. ep_provider e = provider \<and> ep_model e = model \<and>
      ep_prompt_contract_digest e = object_digest sha256 (JObj bundle)"
  shows "\<exists>p. build_analysis_plan sha256 fuel evidence bs provider model cap policy tokens profile bundle = Some (Inr p)"
proof -
  obtain ps where ps: "batch_plans tokens bs = Inr ps" "length ps = length bs"
    using assms(1) by (simp add: batch_plans_Inr)
  obtain ns where "hierarchical_merge_topology fuel (length ps) 4 = Some (Inr ns)"
    using merge_topology_total [OF assms(2)] ps(2) by auto
  with ps assms(3) show ?thesis
    by (auto simp: build_analysis_plan_def Let_def split: option.splits)
qed

text \<open>
  A plan is proposed whenever every block fits.  If the walk over the PageTree ended (or
  there is no tree), the budget is positive, each block of the non-empty Evidence alone fits
  a batch and the execution profile belongs to the selection and the contracts, a plan is
  proposed; as many steps of fuel as there are blocks suffice for the merge topology.
\<close>

theorem proposing_a_plan_succeeds:
  assumes "case tree of None \<Rightarrow> True | Some g \<Rightarrow> \<exists>ss. page_tree_analysis_sections fuel g evidence = Some (Inr ss)"
    and "evidence \<noteq> []" "length evidence \<le> fuel"
    and budget: "budget = (case profile of None \<Rightarrow> analysis_input_budget cap policy | Some e \<Rightarrow> ep_document_budget e)"
      "1 \<le> budget"
    and "\<forall>x\<in>set evidence. batch_fits path_name document budget None None [x]"
    and "\<forall>e\<in>set_option profile. ep_provider e = provider \<and> ep_model e = model \<and>
      ep_prompt_contract_digest e = object_digest sha256 (JObj bundle)"
  shows "\<exists>p. propose_analysis_plan sha256 path_name fuel document evidence tree provider model cap policy profile bundle = Some (Inr p)"
proof -
  from assms(1) obtain ss where
    s: "(case tree of None \<Rightarrow> Some (Inr []) | Some g \<Rightarrow> page_tree_analysis_sections fuel g evidence) = Some (Inr ss)"
    by (auto split: option.splits)
  let ?natural = "if ss = [] then None else Some ss"
  from plan_batches_total [OF assms(2) budget(2) _ _ assms(6), of ?natural] obtain bs where
    bs: "plan_batches path_name evidence ?natural document budget None None = Inr bs" by auto
  have "concat bs = evidence" "[] \<notin> set bs"
    using plan_batches_cases [OF bs] by (auto simp: list_all_iff)
  then have "length bs \<le> fuel" using length_le_concat [of bs] assms(3) by simp
  then have "\<exists>p. build_analysis_plan sha256 fuel evidence bs provider model cap policy
       (batch_estimates path_name document bs) profile bundle = Some (Inr p)"
    by (intro build_analysis_plan_total [OF _ _ assms(7)]) simp_all
  with s bs show ?thesis
    by (simp add: propose_analysis_plan_def Let_def flip: budget(1))
qed

definition sample_capacity :: capability_profile where
  "sample_capacity = \<lparr>cap_context = 16000, cap_document_input = 8000, cap_native_json_schema = True,
     cap_streaming = True, cap_reasoning = False, cap_maximum_output = None\<rparr>"

lemma sample_evidence_fits:
  "\<forall>x\<in>set sample_evidence. batch_fits (\<lambda>s. s) ''d'' 8000 None None [x]"
proof -
  have "batch_fits (\<lambda>s. s) ''d'' 8000 None None [sample_evidence ! 0]"
    "batch_fits (\<lambda>s. s) ''d'' 8000 None None [sample_evidence ! 1]" by code_simp+
  then show ?thesis by (simp add: sample_evidence_def)
qed

lemma sample_budget: "analysis_input_budget sample_capacity [] = 8000"
  by (simp add: analysis_input_budget_def analysis_output_budget_def sample_capacity_def positive_int_def)

theorem proposing_a_plan_succeeds_witness:
  "\<exists>p. propose_analysis_plan (\<lambda>s. s) (\<lambda>s. s) 2 ''d'' sample_evidence None ''p'' ''m'' sample_capacity [] None [] = Some (Inr p)"
  by (rule proposing_a_plan_succeeds [where budget = 8000])
    (simp_all add: sample_evidence_fits sample_budget, simp_all add: sample_evidence_def)

lemma sample_proposal:
  "\<exists>p. propose_analysis_plan (\<lambda>s. s) (\<lambda>s. s) 3 ''d'' sample_evidence None ''p'' ''m'' sample_capacity [] None [] = Some (Inr p)"
proof -
  obtain bs where bs: "plan_batches (\<lambda>s. s) sample_evidence None ''d'' 8000 None None = Inr bs"
    using plan_batches_total [of sample_evidence 8000 None None "\<lambda>s. s" "''d''" None] sample_evidence_fits
    by (auto simp: sample_evidence_def)
  have "length bs \<le> length sample_evidence"
    using plan_batches_cases [OF bs] length_le_concat [of bs] by (auto simp: list_all_iff)
  with build_analysis_plan_total [of bs "batch_estimates (\<lambda>s. s) ''d'' bs" 3 None] bs show ?thesis
    by (simp add: propose_analysis_plan_def sample_budget sample_evidence_def)
qed

theorem proposed_plan_covers_document_witness:
  "\<exists>p. propose_analysis_plan (\<lambda>s. s) (\<lambda>s. s) 3 ''d'' sample_evidence None ''p'' ''m'' sample_capacity [] None [] = Some (Inr p) \<and>
     concat (map bp_evidence_ids (pl_batches p)) = [''e0'', ''e1'']"
proof -
  obtain p where p: "propose_analysis_plan (\<lambda>s. s) (\<lambda>s. s) 3 ''d'' sample_evidence None ''p'' ''m'' sample_capacity [] None [] =
      Some (Inr p)"
    using sample_proposal by blast
  have "length sample_evidence < 10 ^ 50" by (simp add: sample_evidence_def)
  from proposed_plan_covers_document [OF p this] p show ?thesis by (auto simp: sample_evidence_def)
qed

end
