(* ===== verification/JsonText.thy ===== *)
theory JsonText
  imports Json
begin

section \<open>Stored checkpoints: \<open>json.dumps(value, ensure_ascii=False)\<close>\<close>

text \<open>
  Checkpoints are serialised with the default separators of the standard library, a comma
  or colon and a space.  Reading them back gives the value, as for the canonical text.
\<close>

fun json_text :: "json \<Rightarrow> string" and text_items :: "json list \<Rightarrow> string"
and text_members :: "(string \<times> json) list \<Rightarrow> string" where
  "json_text (JList vs) = CHR ''['' # text_items vs @ '']''"
| "json_text (JObj kvs) = CHR ''{'' # text_members kvs @ ''}''"
| "json_text v = json_dumps v"
| "text_items [] = []"
| "text_items (v # vs) = json_text v @ (if vs = [] then [] else CHR '','' # CHR '' '' # text_items vs)"
| "text_members [] = []"
| "text_members ((k, v) # kvs) =
     dump_str k @ CHR '':'' # CHR '' '' # json_text v @
       (if kvs = [] then [] else CHR '','' # CHR '' '' # text_members kvs)"

lemma json_text_start:
  assumes "json_ok v"
  shows "skip_ws (json_text v @ r) = json_text v @ r \<and> expect (CHR '']'') (json_text v @ r) = None"
  using json_dumps_start [OF assms, of r] by (cases v) (auto simp: skip_ws_def json_ws_def)

lemma text_items_start:
  "vs \<noteq> [] \<Longrightarrow> list_all json_ok vs \<Longrightarrow>
    skip_ws (text_items vs @ r) = text_items vs @ r \<and> expect (CHR '']'') (text_items vs @ r) = None"
  by (cases vs) (auto simp: json_text_start)

lemma text_members_start:
  "kvs \<noteq> [] \<Longrightarrow>
    skip_ws (text_members kvs @ r) = text_members kvs @ r \<and> expect (CHR ''}'') (text_members kvs @ r) = None"
  by (cases kvs) (auto simp: dump_str_def)

lemma skip_ws_space [simp]: "skip_ws (CHR '' '' # s) = skip_ws s"
  by (simp add: skip_ws_def json_ws_def)

lemma json_value_text:
  "json_ok v \<Longrightarrow> json_delim r \<Longrightarrow> 2 * length (json_text v) < n \<Longrightarrow>
    json_value n (json_text v @ r) = Some (v, r)"
  "list_all json_ok vs \<Longrightarrow> vs \<noteq> [] \<Longrightarrow> 2 * length (text_items vs) + 1 < n \<Longrightarrow>
    json_items n (text_items vs @ CHR '']'' # r) = Some (vs, r)"
  "list_all (\<lambda>kv. json_ok (snd kv)) kvs \<Longrightarrow> kvs \<noteq> [] \<Longrightarrow> 2 * length (text_members kvs) + 1 < n \<Longrightarrow>
    json_members n (text_members kvs @ CHR ''}'' # r) = Some (kvs, r)"
proof (induction v and vs and kvs arbitrary: n r and n r and n r
    rule: json_text_text_items_text_members.induct)
  case (1 vs)
  then obtain m where n: "n = Suc m" by (cases n) auto
  show ?case
  proof (cases "vs = []")
    case False
    with 1 n have "json_items m (text_items vs @ CHR '']'' # r) = Some (vs, r)" by simp
    with n text_items_start [OF False, of "CHR '']'' # r"] "1.prems" show ?thesis by simp
  qed (use n in simp)
next
  case (2 kvs)
  then obtain m where n: "n = Suc m" by (cases n) auto
  show ?case
  proof (cases "kvs = []")
    case False
    with 2 n have "json_members m (text_members kvs @ CHR ''}'' # r) = Some (kvs, r)" by simp
    with n text_members_start [OF False, of "CHR ''}'' # r"] "2.prems" show ?thesis
      by (simp add: dict_of_pairs_distinct)
  qed (use n in simp)
next
  case (5 v vs)
  then obtain m where n: "n = Suc m" by (cases n) auto
  with 5 have "json_value m (json_text v @ (if vs = [] then CHR '']'' # r else CHR '','' # CHR '' '' # text_items vs @ CHR '']'' # r))
      = Some (v, if vs = [] then CHR '']'' # r else CHR '','' # CHR '' '' # text_items vs @ CHR '']'' # r)" by simp
  with 5 n text_items_start [of vs "CHR '']'' # r"] show ?case by (cases "vs = []") simp_all
next
  case (7 k v kvs)
  then obtain m where n: "n = Suc m" by (cases n) auto
  with 7 have "json_value m (json_text v @ (if kvs = [] then CHR ''}'' # r else CHR '','' # CHR '' '' # text_members kvs @ CHR ''}'' # r))
      = Some (v, if kvs = [] then CHR ''}'' # r else CHR '','' # CHR '' '' # text_members kvs @ CHR ''}'' # r)" by simp
  with 7 n text_members_start [of kvs "CHR ''}'' # r"] show ?case
    by (cases "kvs = []") (simp_all add: json_str_dump json_text_start)
qed (simp_all only: json_text.simps json_value_dumps(1) simp_thms)

lemma json_loads_text: "json_ok v \<Longrightarrow> json_loads (json_text v) = Some v"
  using json_value_text(1) [of v "[]" "2 * length (json_text v) + 2"] json_text_start [of v "[]"]
  by (simp add: json_loads_def)

end
