(* ===== verification/ImportTables.thy ===== *)
theory ImportTables
  imports DocumentIR JsonText
begin

section \<open>The tables of the import task center\<close>

text \<open>
  The durable state of imports as one record of tables (\<open>openkb/workspace/runtime.py\<close> and
  \<open>openkb/workspace/migrations.py\<close> create them), each an association list from its primary
  key to its row in the order of insertion, and the values of \<open>openkb/importing/types.py\<close>
  that are read from them.  A status column with a \<open>CHECK\<close> is a datatype.
\<close>

subsection \<open>Statuses and stages\<close>

datatype job_status = Job_Running | Job_Completed | Job_Failed

datatype runtime_status = Rt_Running | Rt_Paused | Rt_Cancelled | Rt_Recoverable | Rt_Completed | Rt_Failed

datatype stage_status = St_Pending | St_Running | St_Paused | St_Cancelled | St_Completed | St_Failed | St_Skipped

datatype run_status = Run_Running | Run_Completed | Run_Failed | Run_Cancelled

definition import_stages :: "string list" where
  "import_stages = [''preflight'', ''raw_asset'', ''document_ir'', ''evidence'', ''deterministic_page_tree'',
     ''model_analysis'', ''search'']"

fun runtime_status_text :: "runtime_status \<Rightarrow> string" where
  "runtime_status_text Rt_Running = ''running''"
| "runtime_status_text Rt_Paused = ''paused''"
| "runtime_status_text Rt_Cancelled = ''cancelled''"
| "runtime_status_text Rt_Recoverable = ''recoverable''"
| "runtime_status_text Rt_Completed = ''completed''"
| "runtime_status_text Rt_Failed = ''failed''"

fun stage_status_text :: "stage_status \<Rightarrow> string" where
  "stage_status_text St_Pending = ''pending''"
| "stage_status_text St_Running = ''running''"
| "stage_status_text St_Paused = ''paused''"
| "stage_status_text St_Cancelled = ''cancelled''"
| "stage_status_text St_Completed = ''completed''"
| "stage_status_text St_Failed = ''failed''"
| "stage_status_text St_Skipped = ''skipped''"

text \<open>\<open>_BASE_STAGE_STATUSES\<close>: what the older column of \<open>stage_runs\<close> may hold.\<close>

definition base_stage_status :: "stage_status \<Rightarrow> stage_status" where
  "base_stage_status s = (if s \<in> {St_Pending, St_Running, St_Completed, St_Failed, St_Skipped} then s else St_Pending)"

text \<open>\<open>COALESCE(runtime.status, jobs.status)\<close> reads one column as the other.\<close>

fun runtime_of_job_status :: "job_status \<Rightarrow> runtime_status" where
  "runtime_of_job_status Job_Running = Rt_Running"
| "runtime_of_job_status Job_Completed = Rt_Completed"
| "runtime_of_job_status Job_Failed = Rt_Failed"

subsection \<open>Rows\<close>

record job_row =
  ij_source :: string
  ij_document :: "string option"
  ij_status :: job_status
  ij_progress :: int
  ij_error :: "string option"
  ij_created :: string
  ij_completed :: "string option"

record runtime_row =
  jr_status :: runtime_status
  jr_lease_owner :: "string option"
  jr_lease_expires :: "string option"
  jr_updated :: string

record stage_row =
  sg_job :: string
  sg_stage :: string
  sg_status :: stage_status
  sg_progress :: int
  sg_error :: "string option"
  sg_started :: "string option"
  sg_completed :: "string option"

record stage_runtime_row =
  sx_job :: string
  sx_status :: stage_status
  sx_checkpoint :: "string option"
  sx_error :: "string option"
  sx_updated :: string

record quarantine_row =
  qr_stage_run :: string
  qr_stage :: string
  qr_error :: string
  qr_reason :: string
  qr_action :: string
  qr_attempts :: int
  qr_created :: string

record recovery_row =
  rr_job :: string
  rr_stage_run :: string
  rr_model :: "string option"
  rr_status :: run_status
  rr_started :: string
  rr_completed :: "string option"
  rr_parser_mode :: "string option"

record deduplication =
  dd_level :: string
  dd_reason :: string
  dd_reused_document :: "string option"
  dd_reused_evidence :: int
  dd_reusable_stages :: "string list"
  dd_normalized_body :: "string option"

subsection \<open>The database\<close>

text \<open>
  The four tables of the analysis of a job (plans, batches, merges, merge nodes) hold rows
  that imports only ever delete by their job; each is a list of rows under its job.
\<close>

record import_db =
  db_jobs :: "(string \<times> job_row) list"
  db_runtime :: "(string \<times> runtime_row) list"
  db_stages :: "(string \<times> stage_row) list"
  db_stage_runtime :: "(string \<times> stage_runtime_row) list"
  db_quarantine :: "(string \<times> quarantine_row) list"
  db_recovery :: "(string \<times> recovery_row) list"
  db_dedup :: "(string \<times> deduplication) list"
  db_merge_nodes :: "(string \<times> json) list"
  db_merges :: "(string \<times> json) list"
  db_batches :: "(string \<times> json) list"
  db_plans :: "(string \<times> json) list"

definition import_db_empty :: import_db where
  "import_db_empty = \<lparr>db_jobs = [], db_runtime = [], db_stages = [], db_stage_runtime = [],
     db_quarantine = [], db_recovery = [], db_dedup = [], db_merge_nodes = [], db_merges = [],
     db_batches = [], db_plans = []\<rparr>"

subsection \<open>Values on the wire\<close>

record stage_run =
  srun_id :: string
  srun_stage :: string
  srun_status :: stage_status
  srun_progress :: int
  srun_error :: "string option"

definition stage_run_dict :: "stage_run \<Rightarrow> dict" where
  "stage_run_dict r =
     [(''stage_run_id'', JStr (srun_id r)), (''stage'', JStr (srun_stage r)),
      (''status'', JStr (stage_status_text (srun_status r))), (''progress'', JInt (srun_progress r)),
      (''error_code'', json_opt_str (srun_error r))]"

record imported_document =
  idoc_id :: string
  idoc_name :: string
  idoc_format :: string
  idoc_sha256 :: string
  idoc_evidence_count :: nat
  idoc_availability :: string

definition imported_document_dict :: "imported_document \<Rightarrow> dict" where
  "imported_document_dict d =
     [(''document_id'', JStr (idoc_id d)), (''name'', JStr (idoc_name d)),
      (''source_format'', JStr (idoc_format d)), (''raw_asset_sha256'', JStr (idoc_sha256 d)),
      (''evidence_count'', JInt (int (idoc_evidence_count d))), (''availability'', JStr (idoc_availability d))]"

definition deduplication_dict :: "deduplication \<Rightarrow> dict" where
  "deduplication_dict d =
     [(''level'', JStr (dd_level d)), (''reason'', JStr (dd_reason d)),
      (''reused_document_id'', json_opt_str (dd_reused_document d)),
      (''reused_evidence_count'', JInt (dd_reused_evidence d)),
      (''reusable_stages'', JList (map JStr (dd_reusable_stages d))),
      (''normalized_body_sha256'', json_opt_str (dd_normalized_body d))]"

definition quarantined_document_dict :: "quarantine_row \<Rightarrow> dict" where
  "quarantined_document_dict q =
     [(''stage_run_id'', JStr (qr_stage_run q)), (''stage'', JStr (qr_stage q)),
      (''error_code'', JStr (qr_error q)), (''reason'', JStr (qr_reason q)),
      (''suggested_action'', JStr (qr_action q)), (''attempt_count'', JInt (qr_attempts q))]"

end
