(* ===== verification/ImportStore.thy ===== *)
theory ImportStore
  imports ImportTables
begin

section \<open>State transitions of an import (\<open>openkb/importing/store.py\<close>)\<close>

text \<open>
  Every method of \<open>DesktopImportStore\<close> over the job and stage tables.  Each takes the
  ingest lock and one transaction, so it is one operation \<open>import_db \<Rightarrow> 'a outcome\<close>: the
  value or the exception, and the tables it leaves (the old ones when it rolled back).
  Time stamps, the lease owner and expiry, and the fresh identifiers are arguments; the
  stage callback is the list of the payloads it is given.
\<close>

type_synonym 'a outcome = "'a res \<times> import_db"

subsection \<open>A job in the hands of a worker\<close>

record import_state =
  js_job :: string
  js_source :: string
  js_status :: runtime_status
  js_stage_ids :: "(string \<times> string) list"
  js_recovery :: "string option"

text \<open>\<open>state.stage_ids[stage]\<close>.\<close>

definition stage_id :: "import_state \<Rightarrow> string \<Rightarrow> string res" where
  "stage_id st stage = (case map_of (js_stage_ids st) stage of None \<Rightarrow> Inl (KeyError stage) | Some i \<Rightarrow> Inr i)"

text \<open>The dictionary of the rows of a job: of two rows with one stage the later counts.\<close>

definition stage_ids_of :: "import_db \<Rightarrow> string \<Rightarrow> (string \<times> string) list" where
  "stage_ids_of db job =
     map (\<lambda>kv. (sg_stage (snd kv), fst kv)) (rev (filter (\<lambda>kv. sg_job (snd kv) = job) (db_stages db)))"

definition job_state_in :: "import_db \<Rightarrow> string \<Rightarrow> string \<Rightarrow> runtime_status \<Rightarrow> import_state res" where
  "job_state_in db job source status =
     (let ids = stage_ids_of db job in
      if fst ` set ids \<noteq> set import_stages then Inl (ImportError ''desktop_import_state_invalid'')
      else Inr \<lparr>js_job = job, js_source = source, js_status = status, js_stage_ids = ids, js_recovery = None\<rparr>)"

definition stage_event :: "string \<Rightarrow> stage_run \<Rightarrow> string option \<Rightarrow> dict" where
  "stage_event job r document =
     (''job_id'', JStr job) # stage_run_dict r @
     (case document of None \<Rightarrow> [] | Some d \<Rightarrow> [(''document_id'', JStr d)])"

subsection \<open>Creating, resuming and reading jobs\<close>

definition new_stage_rows :: "string \<Rightarrow> (string \<Rightarrow> string) \<Rightarrow> (string \<times> stage_row) list" where
  "new_stage_rows job ids = map (\<lambda>stage. (ids stage, \<lparr>sg_job = job, sg_stage = stage, sg_status = St_Pending,
     sg_progress = 0, sg_error = None, sg_started = None, sg_completed = None\<rparr>)) import_stages"

definition new_stage_runtime_rows :: "string \<Rightarrow> (string \<Rightarrow> string) \<Rightarrow> string \<Rightarrow> (string \<times> stage_runtime_row) list" where
  "new_stage_runtime_rows job ids now = map (\<lambda>stage. (ids stage, \<lparr>sx_job = job, sx_status = St_Pending,
     sx_checkpoint = None, sx_error = None, sx_updated = now\<rparr>)) import_stages"

text \<open>The inserts fail on a key that is taken: \<open>sqlite3.IntegrityError\<close>.\<close>

definition create_job ::
  "string \<Rightarrow> (string \<Rightarrow> string) \<Rightarrow> string \<Rightarrow> string \<Rightarrow> string \<Rightarrow> string \<Rightarrow> import_db \<Rightarrow> import_state outcome" where
  "create_job job ids source owner lease now db =
     (if job \<in> fst ` set (db_jobs db) \<or> job \<in> fst ` set (db_runtime db) \<or>
         \<not> distinct (map ids import_stages) \<or>
         (\<exists>stage\<in>set import_stages. ids stage \<in> fst ` set (db_stages db) \<or> ids stage \<in> fst ` set (db_stage_runtime db))
      then (Inl (StorageError ''IntegrityError''), db)
      else (Inr \<lparr>js_job = job, js_source = source, js_status = Rt_Running,
                 js_stage_ids = map (\<lambda>stage. (stage, ids stage)) import_stages, js_recovery = None\<rparr>,
            db\<lparr>db_jobs := db_jobs db @ [(job, \<lparr>ij_source = source, ij_document = None, ij_status = Job_Running,
                   ij_progress = 0, ij_error = None, ij_created = now, ij_completed = None\<rparr>)],
               db_runtime := db_runtime db @ [(job, \<lparr>jr_status = Rt_Running, jr_lease_owner = Some owner,
                   jr_lease_expires = Some lease, jr_updated = now\<rparr>)],
               db_stages := db_stages db @ new_stage_rows job ids,
               db_stage_runtime := db_stage_runtime db @ new_stage_runtime_rows job ids now\<rparr>))"

definition lease_runtime :: "string \<Rightarrow> string \<Rightarrow> string \<Rightarrow> string \<Rightarrow> import_db \<Rightarrow> import_db" where
  "lease_runtime job owner lease now db =
     db\<lparr>db_runtime := update_where (\<lambda>k r. k = job)
       (\<lambda>r. \<lparr>jr_status = Rt_Running, jr_lease_owner = Some owner, jr_lease_expires = Some lease, jr_updated = now\<rparr>)
       (db_runtime db)\<rparr>"

definition release_runtime :: "string \<Rightarrow> runtime_status \<Rightarrow> string \<Rightarrow> import_db \<Rightarrow> import_db" where
  "release_runtime job status now db =
     db\<lparr>db_runtime := update_where (\<lambda>k r. k = job)
       (\<lambda>r. \<lparr>jr_status = status, jr_lease_owner = None, jr_lease_expires = None, jr_updated = now\<rparr>)
       (db_runtime db)\<rparr>"

text \<open>The commit comes before the stage rows are read, so an incomplete job stays resumed.\<close>

definition resume_job :: "string \<Rightarrow> string \<Rightarrow> string \<Rightarrow> string \<Rightarrow> import_db \<Rightarrow> import_state outcome" where
  "resume_job job owner lease now db =
     (case (map_of (db_jobs db) job, map_of (db_runtime db) job) of
        (Some j, Some r) \<Rightarrow>
          if jr_status r \<notin> {Rt_Paused, Rt_Recoverable} then (Inl (ImportError ''import_job_not_resumable''), db)
          else let db' = (lease_runtime job owner lease now db)
                 \<lparr>db_stage_runtime := update_where (\<lambda>k s. sx_job s = job \<and> sx_status s = St_Paused)
                    (\<lambda>s. s\<lparr>sx_status := St_Pending, sx_error := None, sx_updated := now\<rparr>) (db_stage_runtime db)\<rparr> in
            (job_state_in db' job (ij_source j) Rt_Running, db')
      | _ \<Rightarrow> (Inl (ImportError ''import_job_not_found''), db))"

definition resumable_job_ids :: "import_db \<Rightarrow> string list" where
  "resumable_job_ids db =
     map fst (sort_key (ij_created \<circ> snd)
       (filter (\<lambda>kv. (case map_of (db_runtime db) (fst kv) of None \<Rightarrow> False | Some r \<Rightarrow> jr_status r = Rt_Recoverable) \<and>
          fst kv \<notin> fst ` set (db_quarantine db)) (db_jobs db)))"

definition runtime_status_of :: "import_db \<Rightarrow> string \<Rightarrow> job_row \<Rightarrow> runtime_status" where
  "runtime_status_of db job j =
     (case map_of (db_runtime db) job of None \<Rightarrow> runtime_of_job_status (ij_status j) | Some r \<Rightarrow> jr_status r)"

definition job_state :: "string \<Rightarrow> import_db \<Rightarrow> import_state res" where
  "job_state job db =
     (case map_of (db_jobs db) job of
        None \<Rightarrow> Inl (ImportError ''import_job_not_found'')
      | Some j \<Rightarrow> job_state_in db job (ij_source j) (runtime_status_of db job j))"

text \<open>The position of a stage; \<open>CASE\<close> without a match is \<open>NULL\<close>, which sorts first.\<close>

definition stage_order :: "string \<Rightarrow> nat" where
  "stage_order stage = (if stage \<in> set import_stages then Suc (length (takeWhile (\<lambda>s. s \<noteq> stage) import_stages)) else 0)"

definition stage_run_of :: "import_db \<Rightarrow> string \<times> stage_row \<Rightarrow> stage_run" where
  "stage_run_of db kv =
     (case kv of (k, r) \<Rightarrow>
        \<lparr>srun_id = k, srun_stage = sg_stage r,
         srun_status = (case map_of (db_stage_runtime db) k of None \<Rightarrow> sg_status r | Some x \<Rightarrow> sx_status x),
         srun_progress = sg_progress r,
         srun_error = (case Option.bind (map_of (db_stage_runtime db) k) sx_error of
             None \<Rightarrow> sg_error r | Some e \<Rightarrow> Some e)\<rparr>)"

definition stages_for_job :: "import_db \<Rightarrow> string \<Rightarrow> stage_run list" where
  "stages_for_job db job =
     sort_key (stage_order \<circ> srun_stage)
       (map (stage_run_of db) (filter (\<lambda>kv. sg_job (snd kv) = job) (db_stages db)))"

text \<open>No checkpoint reads as \<open>None\<close>, and so does a stored \<open>null\<close>.\<close>

definition read_checkpoint :: "string \<Rightarrow> import_db \<Rightarrow> json res" where
  "read_checkpoint stage_run_id db =
     (case Option.bind (map_of (db_stage_runtime db) stage_run_id) sx_checkpoint of
        None \<Rightarrow> Inr JNull
      | Some t \<Rightarrow> (case json_loads t of
                     None \<Rightarrow> Inl (ImportError ''import_checkpoint_invalid'') | Some v \<Rightarrow> Inr v))"

subsection \<open>Stage transitions\<close>

definition stage_of_job :: "string \<Rightarrow> string \<Rightarrow> string \<Rightarrow> stage_row \<Rightarrow> bool" where
  "stage_of_job job i k r \<longleftrightarrow> k = i \<and> sg_job r = job"

definition runtime_of_job :: "string \<Rightarrow> string \<Rightarrow> string \<Rightarrow> stage_runtime_row \<Rightarrow> bool" where
  "runtime_of_job job i k r \<longleftrightarrow> k = i \<and> sx_job r = job"

text \<open>\<open>COALESCE(a, b)\<close>.\<close>

definition coalesce :: "'a option \<Rightarrow> 'a option \<Rightarrow> 'a option" where
  "coalesce a b = (case a of None \<Rightarrow> b | Some x \<Rightarrow> Some x)"

definition set_stage ::
  "string \<Rightarrow> string \<Rightarrow> string \<Rightarrow> import_state \<Rightarrow> string \<Rightarrow> stage_status \<Rightarrow> int \<Rightarrow> json option \<Rightarrow> string option \<Rightarrow>
    import_db \<Rightarrow> dict list outcome" where
  "set_stage owner lease now st stage status progress checkpoint error_code db =
     (case stage_id st stage of
        Inl e \<Rightarrow> (Inl e, db)
      | Inr i \<Rightarrow>
          let job = js_job st;
              started = (if status = St_Running then Some now else None);
              completed = (if status \<in> {St_Completed, St_Failed, St_Skipped} then Some now else None) in
          if filter (\<lambda>kv. stage_of_job job i (fst kv) (snd kv)) (db_stages db) = []
          then (Inl (ImportError ''desktop_import_state_invalid''), db)
          else if \<not> (0 \<le> progress \<and> progress \<le> 100) then (Inl (StorageError ''IntegrityError''), db)
          else (Inr [stage_event job \<lparr>srun_id = i, srun_stage = stage, srun_status = status,
                       srun_progress = progress, srun_error = error_code\<rparr> None],
                lease_runtime job owner lease now (db
                  \<lparr>db_stages := update_where (stage_of_job job i)
                     (\<lambda>r. r\<lparr>sg_status := base_stage_status status, sg_progress := progress, sg_error := error_code,
                            sg_started := coalesce (sg_started r) started,
                            sg_completed := coalesce completed (sg_completed r)\<rparr>) (db_stages db),
                   db_jobs := update_where (\<lambda>k r. k = job) (\<lambda>r. r\<lparr>ij_progress := progress\<rparr>) (db_jobs db),
                   db_stage_runtime := update_where (runtime_of_job job i)
                     (\<lambda>r. r\<lparr>sx_status := status, sx_checkpoint := coalesce (map_option json_text checkpoint) (sx_checkpoint r),
                            sx_error := error_code, sx_updated := now\<rparr>) (db_stage_runtime db)\<rparr>)))"

text \<open>The stage of a job that ends with \<open>status\<close>, in both stage tables.\<close>

definition finish_stage ::
  "string \<Rightarrow> string \<Rightarrow> stage_status \<Rightarrow> string option \<Rightarrow> string \<Rightarrow> import_db \<Rightarrow> import_db" where
  "finish_stage job i status error_code now db = db
     \<lparr>db_stages := update_where (stage_of_job job i)
        (\<lambda>r. r\<lparr>sg_status := status, sg_progress := 100, sg_error := error_code,
               sg_completed := coalesce (sg_completed r) (Some now)\<rparr>) (db_stages db),
      db_stage_runtime := update_where (runtime_of_job job i)
        (\<lambda>r. r\<lparr>sx_status := status, sx_error := error_code, sx_updated := now\<rparr>) (db_stage_runtime db)\<rparr>"

definition complete_job_in :: "string \<Rightarrow> string \<Rightarrow> string \<Rightarrow> string \<Rightarrow> import_db \<Rightarrow> import_db" where
  "complete_job_in job i document now db =
     release_runtime job Rt_Completed now
       ((finish_stage job i St_Completed None now db)
          \<lparr>db_jobs := update_where (\<lambda>k r. k = job)
             (\<lambda>r. r\<lparr>ij_document := Some document, ij_status := Job_Completed, ij_progress := 100, ij_error := None,
                    ij_completed := Some now\<rparr>) (db_jobs db)\<rparr>)"

definition complete_recovery_in :: "string option \<Rightarrow> string \<Rightarrow> import_db \<Rightarrow> import_db" where
  "complete_recovery_in recovery now db =
     (case recovery of
        None \<Rightarrow> db
      | Some i \<Rightarrow> db\<lparr>db_recovery := update_where (\<lambda>k r. k = i)
          (\<lambda>r. r\<lparr>rr_status := Run_Completed, rr_completed := Some now\<rparr>) (db_recovery db)\<rparr>)"

definition fail_stage_and_job :: "string \<Rightarrow> string \<Rightarrow> string \<Rightarrow> string \<Rightarrow> import_db \<Rightarrow> import_db" where
  "fail_stage_and_job job i error_code now db =
     release_runtime job Rt_Failed now
       ((finish_stage job i St_Failed (Some error_code) now db)
          \<lparr>db_jobs := update_where (\<lambda>k r. k = job)
             (\<lambda>r. r\<lparr>ij_status := Job_Failed, ij_progress := 100, ij_error := Some error_code,
                    ij_completed := Some now\<rparr>) (db_jobs db)\<rparr>)"

definition fail_job :: "string \<Rightarrow> import_state \<Rightarrow> string \<Rightarrow> string \<Rightarrow> import_db \<Rightarrow> dict list outcome" where
  "fail_job now st stage error_code db =
     (case stage_id st stage of
        Inl e \<Rightarrow> (Inl e, db)
      | Inr i \<Rightarrow>
          (Inr [stage_event (js_job st) \<lparr>srun_id = i, srun_stage = stage, srun_status = St_Failed,
                  srun_progress = 100, srun_error = Some error_code\<rparr> None],
           fail_stage_and_job (js_job st) i error_code now db))"

subsection \<open>Pausing and cancelling\<close>

definition runtime_of_stage_status :: "stage_status \<Rightarrow> runtime_status" where
  "runtime_of_stage_status s = (if s = St_Cancelled then Rt_Cancelled else Rt_Paused)"

text \<open>\<open>_set_terminal_control_state\<close>; its callers pass \<open>paused\<close> or \<open>cancelled\<close>.\<close>

definition control_state ::
  "string \<Rightarrow> import_state \<Rightarrow> string \<Rightarrow> stage_status \<Rightarrow> string \<Rightarrow> import_db \<Rightarrow> dict list outcome" where
  "control_state now st stage status code db =
     (case stage_id st stage of
        Inl e \<Rightarrow> (Inl e, db)
      | Inr i \<Rightarrow>
          let job = js_job st in
          (case filter (\<lambda>kv. stage_of_job job i (fst kv) (snd kv)) (db_stages db) of
             [] \<Rightarrow> (Inl (ImportError ''desktop_import_state_invalid''), db)
           | kv # _ \<Rightarrow>
               let db1 = db\<lparr>db_stage_runtime := update_where (runtime_of_job job i)
                     (\<lambda>r. r\<lparr>sx_status := status, sx_error := Some code, sx_updated := now\<rparr>) (db_stage_runtime db)\<rparr>;
                   db2 = (if status = St_Cancelled then db1
                       \<lparr>db_stage_runtime := update_where (\<lambda>k r. sx_job r = job \<and> sx_status r \<in> {St_Pending, St_Paused})
                          (\<lambda>r. r\<lparr>sx_status := St_Cancelled, sx_error := Some code, sx_updated := now\<rparr>) (db_stage_runtime db1),
                        db_jobs := update_where (\<lambda>k r. k = job)
                          (\<lambda>r. r\<lparr>ij_status := Job_Failed, ij_error := Some code, ij_completed := Some now\<rparr>) (db_jobs db1)\<rparr>
                     else db1) in
               (Inr [stage_event job \<lparr>srun_id = i, srun_stage = stage, srun_status = status,
                       srun_progress = sg_progress (snd kv), srun_error = Some code\<rparr> None],
                release_runtime job (runtime_of_stage_status status) now db2)))"

definition pause_job :: "string \<Rightarrow> import_state \<Rightarrow> string \<Rightarrow> import_db \<Rightarrow> dict list outcome" where
  "pause_job now st stage = control_state now st stage St_Paused ''import_paused''"

definition await_model_configuration :: "string \<Rightarrow> import_state \<Rightarrow> string \<Rightarrow> import_db \<Rightarrow> dict list outcome" where
  "await_model_configuration now st stage = control_state now st stage St_Paused ''awaiting_model_configuration''"

definition cancel_job :: "string \<Rightarrow> import_state \<Rightarrow> string \<Rightarrow> import_db \<Rightarrow> dict list outcome" where
  "cancel_job now st stage = control_state now st stage St_Cancelled ''import_cancelled''"

subsection \<open>Finishing an import that reuses a document\<close>

text \<open>
  The foreign key of the row is not enforced here: the states the store hands out name jobs
  that exist, and no operation deletes a job.
\<close>

definition record_deduplication_in :: "string \<Rightarrow> deduplication \<Rightarrow> import_db \<Rightarrow> import_db" where
  "record_deduplication_in job d db = db\<lparr>db_dedup := AList.update job d (db_dedup db)\<rparr>"

fun skip_stages :: "import_state \<Rightarrow> string list \<Rightarrow> string \<Rightarrow> import_db \<Rightarrow> import_db res" where
  "skip_stages st [] now db = Inr db"
| "skip_stages st (stage # stages) now db =
     res_bind (stage_id st stage) (\<lambda>i. skip_stages st stages now (finish_stage (js_job st) i St_Skipped None now db))"

definition complete_reused_import_in ::
  "import_state \<Rightarrow> string \<Rightarrow> string \<Rightarrow> string list \<Rightarrow> deduplication \<Rightarrow> string \<Rightarrow> import_db \<Rightarrow> import_db res" where
  "complete_reused_import_in st document completed_stage skipped d now db =
     res_bind (skip_stages st skipped now db) (\<lambda>db1.
     res_bind (stage_id st completed_stage) (\<lambda>i.
       let db2 = record_deduplication_in (js_job st) d
             (complete_recovery_in (js_recovery st) now (complete_job_in (js_job st) i document now db1)) in
       Inr (db2\<lparr>db_quarantine := filter (\<lambda>kv. fst kv \<noteq> js_job st) (db_quarantine db2)\<rparr>)))"

text \<open>
  What a publication writes to the import tables, its last statements: the job is completed
  with its document, its recovery too, a reuse is recorded and the isolation is lifted.
\<close>

definition complete_published_import ::
  "import_state \<Rightarrow> string \<Rightarrow> deduplication option \<Rightarrow> string \<Rightarrow> import_db \<Rightarrow> import_db res" where
  "complete_published_import st document d now db =
     res_bind (stage_id st ''search'') (\<lambda>i.
       let db1 = complete_recovery_in (js_recovery st) now (complete_job_in (js_job st) i document now db);
           db2 = (case d of None \<Rightarrow> db1 | Some x \<Rightarrow> record_deduplication_in (js_job st) x db1) in
       Inr (db2\<lparr>db_quarantine := filter (\<lambda>kv. fst kv \<noteq> js_job st) (db_quarantine db2)\<rparr>))"

text \<open>
  Dismissing a claim of a missing source (\<open>openkb/documents/missing_sources.py\<close>) rewrites
  the checkpoint of the analysis stage.
\<close>

definition replace_stage_checkpoint :: "string \<Rightarrow> string \<Rightarrow> string \<Rightarrow> import_db \<Rightarrow> import_db" where
  "replace_stage_checkpoint i checkpoint now db =
     db\<lparr>db_stage_runtime := update_where (\<lambda>k r. k = i)
       (\<lambda>r. r\<lparr>sx_checkpoint := Some checkpoint, sx_updated := now\<rparr>) (db_stage_runtime db)\<rparr>"

definition complete_duplicate_job :: "string \<Rightarrow> import_state \<Rightarrow> string \<Rightarrow> import_db \<Rightarrow> dict list outcome" where
  "complete_duplicate_job now st document db =
     (let later = drop 2 import_stages in
      case complete_reused_import_in st document ''raw_asset'' later
        \<lparr>dd_level = ''D0'', dd_reason = ''raw_asset_sha256_match'', dd_reused_document = Some document,
         dd_reused_evidence = 0, dd_reusable_stages = later, dd_normalized_body = None\<rparr> now db of
        Inl e \<Rightarrow> (Inl e, db)
      | Inr db' \<Rightarrow>
          (res_map (\<lambda>stage. res_bind (stage_id st stage) (\<lambda>i. Inr (stage_event (js_job st)
             \<lparr>srun_id = i, srun_stage = stage, srun_status = St_Skipped, srun_progress = 100, srun_error = None\<rparr>
             (Some document)))) later, db'))"

subsection \<open>Interrupted work\<close>

text \<open>
  \<open>_recover_interrupted_import_jobs\<close> of \<open>openkb/workspace/runtime.py\<close>, at the start of the
  Engine; \<open>expired\<close> is the comparison of two ISO time stamps.
\<close>

definition interrupt_code :: "(string \<Rightarrow> string \<Rightarrow> bool) \<Rightarrow> string option \<Rightarrow> string \<Rightarrow> string" where
  "interrupt_code expired lease now =
     (if (case lease of None \<Rightarrow> True | Some l \<Rightarrow> expired l now) then ''import_lease_expired'' else ''import_interrupted'')"

definition interrupt_job ::
  "(string \<Rightarrow> string \<Rightarrow> bool) \<Rightarrow> string \<Rightarrow> string \<times> runtime_row \<Rightarrow> import_db \<Rightarrow> import_db" where
  "interrupt_job expired now jr db =
     release_runtime (fst jr) Rt_Recoverable now
       (db\<lparr>db_stage_runtime := update_where (\<lambda>k r. sx_job r = fst jr)
          (\<lambda>r. (if sx_status r = St_Running
                then r\<lparr>sx_status := St_Paused, sx_error := Some (interrupt_code expired (jr_lease_expires (snd jr)) now)\<rparr>
                else r)\<lparr>sx_updated := now\<rparr>) (db_stage_runtime db)\<rparr>)"

definition recover_interrupted :: "(string \<Rightarrow> string \<Rightarrow> bool) \<Rightarrow> string \<Rightarrow> import_db \<Rightarrow> import_db" where
  "recover_interrupted expired now db =
     fold (interrupt_job expired now) (filter (\<lambda>kv. jr_status (snd kv) = Rt_Running) (db_runtime db)) db"

subsection \<open>Where a job continues\<close>

definition stage_done :: "stage_status \<Rightarrow> bool" where
  "stage_done s \<longleftrightarrow> s \<in> {St_Completed, St_Skipped}"

text \<open>\<open>next_import_stage\<close> of \<open>openkb/importing/checkpoints.py\<close>: the dictionary lookup may fail.\<close>

fun first_open_stage :: "(string \<times> stage_run) list \<Rightarrow> string list \<Rightarrow> string res" where
  "first_open_stage values [] = Inr ''search''"
| "first_open_stage values (stage # stages) =
     (case map_of values stage of
        None \<Rightarrow> Inl (KeyError stage)
      | Some r \<Rightarrow> if stage_done (srun_status r) then first_open_stage values stages else Inr stage)"

definition next_import_stage :: "import_db \<Rightarrow> import_state \<Rightarrow> string res" where
  "next_import_stage db st =
     first_open_stage (rev (map (\<lambda>r. (srun_stage r, r)) (stages_for_job db (js_job st)))) import_stages"

definition cancel_paused_job :: "string \<Rightarrow> string \<Rightarrow> import_db \<Rightarrow> dict list outcome" where
  "cancel_paused_job now job db =
     (case job_state job db of
        Inl e \<Rightarrow> (Inl e, db)
      | Inr st \<Rightarrow>
          if js_status st \<notin> {Rt_Paused, Rt_Recoverable} then (Inl (ImportError ''import_job_not_cancellable''), db)
          else (case next_import_stage db st of
                  Inl e \<Rightarrow> (Inl e, db)
                | Inr stage \<Rightarrow> cancel_job now st stage db))"

definition require_import_checkpoint :: "import_db \<Rightarrow> import_state \<Rightarrow> string \<Rightarrow> json res" where
  "require_import_checkpoint db st stage =
     res_bind (stage_id st stage) (\<lambda>i. res_bind (read_checkpoint i db) (\<lambda>c.
       if c = JNull then Inl (ImportError ''import_checkpoint_invalid'') else Inr c))"

end
