(* ===== verification/ImportRecovery.thy ===== *)
theory ImportRecovery
  imports ImportStore Protocol
begin

section \<open>Isolating and recovering a failed import\<close>

text \<open>
  \<open>openkb/importing/quarantine.py\<close>, \<open>recovery.py\<close>, \<open>reparse.py\<close> and the deletion of
  \<open>openkb/knowledge/analysis/recovery_store.py\<close>: a failed stage isolates the document, one
  recovery run at a time reopens exactly that stage, and choosing another parser discards
  everything derived from the document's text.
\<close>

subsection \<open>Quarantine\<close>

text \<open>\<open>INSERT .. ON CONFLICT(job_id) DO UPDATE\<close>; foreign keys and the \<open>CHECK\<close> are enforced.\<close>

definition quarantine_import_in ::
  "string \<Rightarrow> string \<Rightarrow> string \<Rightarrow> string \<Rightarrow> string \<Rightarrow> string \<Rightarrow> int \<Rightarrow> string \<Rightarrow> import_db \<Rightarrow> import_db res" where
  "quarantine_import_in job i stage error_code reason action attempts now db =
     (if job \<notin> fst ` set (db_jobs db) \<or> i \<notin> fst ` set (db_stages db) \<or> attempts < 1
      then Inl (StorageError ''IntegrityError'')
      else let db1 = fail_stage_and_job job i error_code now db in
        Inr (db1\<lparr>db_quarantine := AList.update job
          \<lparr>qr_stage_run = i, qr_stage = stage, qr_error = error_code, qr_reason = reason,
           qr_action = action, qr_attempts = attempts, qr_created = now\<rparr> (db_quarantine db1)\<rparr>))"

definition quarantine ::
  "string \<Rightarrow> string \<Rightarrow> string \<Rightarrow> string \<Rightarrow> string \<Rightarrow> string \<Rightarrow> string \<Rightarrow> int \<Rightarrow> import_db \<Rightarrow> unit outcome" where
  "quarantine now job i stage error_code reason action attempts db =
     (case quarantine_import_in job i stage error_code reason action attempts now db of
        Inl e \<Rightarrow> (Inl e, db) | Inr db' \<Rightarrow> (Inr (), db'))"

subsection \<open>Discarding what was derived from the text\<close>

definition discard_analysis_in :: "string \<Rightarrow> import_db \<Rightarrow> import_db" where
  "discard_analysis_in job db = db
     \<lparr>db_merge_nodes := filter (\<lambda>kv. fst kv \<noteq> job) (db_merge_nodes db),
      db_merges := filter (\<lambda>kv. fst kv \<noteq> job) (db_merges db),
      db_batches := filter (\<lambda>kv. fst kv \<noteq> job) (db_batches db),
      db_plans := filter (\<lambda>kv. fst kv \<noteq> job) (db_plans db)\<rparr>"

definition derived_stages :: "string list" where
  "derived_stages = [''document_ir'', ''evidence'', ''deterministic_page_tree'', ''model_analysis'', ''search'']"

definition reset_stage :: "string \<Rightarrow> string \<Rightarrow> string \<Rightarrow> import_db \<Rightarrow> import_db" where
  "reset_stage job i now db = db
     \<lparr>db_stages := update_where (stage_of_job job i)
        (\<lambda>r. r\<lparr>sg_status := St_Pending, sg_progress := 0, sg_error := None, sg_started := None, sg_completed := None\<rparr>)
        (db_stages db),
      db_stage_runtime := update_where (runtime_of_job job i)
        (\<lambda>r. r\<lparr>sx_status := St_Pending, sx_checkpoint := None, sx_error := None, sx_updated := now\<rparr>)
        (db_stage_runtime db)\<rparr>"

fun reset_stages :: "string \<Rightarrow> (string \<times> string) list \<Rightarrow> string list \<Rightarrow> string \<Rightarrow> import_db \<Rightarrow> import_db res" where
  "reset_stages job ids [] now db = Inr db"
| "reset_stages job ids (stage # stages) now db =
     (case map_of ids stage of
        None \<Rightarrow> Inl (KeyError stage)
      | Some i \<Rightarrow> reset_stages job ids stages now (reset_stage job i now db))"

definition reset_parser_checkpoints_in ::
  "string \<Rightarrow> (string \<times> string) list \<Rightarrow> string \<Rightarrow> import_db \<Rightarrow> import_db res" where
  "reset_parser_checkpoints_in job ids now db =
     (case map_of (db_jobs db) job of
        None \<Rightarrow> Inl (ImportError ''import_reparse_requires_new_import'')
      | Some j \<Rightarrow>
          if ij_document j \<noteq> None then Inl (ImportError ''import_reparse_requires_new_import'')
          else reset_stages job ids derived_stages now (discard_analysis_in job db))"

subsection \<open>Recovery runs\<close>

text \<open>The override is the one the Bridge parsed (\<open>Protocol\<close>).\<close>

definition parser_modes :: "string list" where
  "parser_modes = [''auto'', ''fast'', ''enhanced'']"

text \<open>\<open>_stage_ids_in\<close>.\<close>

definition complete_stage_ids :: "import_db \<Rightarrow> string \<Rightarrow> (string \<times> string) list res" where
  "complete_stage_ids db job =
     (let ids = stage_ids_of db job in
      if fst ` set ids \<noteq> set import_stages then Inl (ImportError ''desktop_import_state_invalid'') else Inr ids)"

definition verified_progress :: "import_db \<Rightarrow> string \<Rightarrow> int" where
  "verified_progress db job =
     fold max (map srun_progress (filter (\<lambda>r. stage_done (srun_status r)) (stages_for_job db job))) 0"

definition close_recovery_runs :: "string \<Rightarrow> string \<Rightarrow> import_db \<Rightarrow> import_db" where
  "close_recovery_runs job now db = db
     \<lparr>db_recovery := update_where (\<lambda>k r. rr_job r = job \<and> rr_status r = Run_Running)
        (\<lambda>r. r\<lparr>rr_status := Run_Failed, rr_completed := coalesce (rr_completed r) (Some now)\<rparr>) (db_recovery db)\<rparr>"

definition reopen_stage :: "string \<Rightarrow> string \<Rightarrow> int \<Rightarrow> string \<Rightarrow> import_db \<Rightarrow> import_db" where
  "reopen_stage job i progress now db = db
     \<lparr>db_stages := update_where (stage_of_job job i)
        (\<lambda>r. r\<lparr>sg_status := St_Pending, sg_progress := progress, sg_error := None, sg_started := None,
               sg_completed := None\<rparr>) (db_stages db),
      db_stage_runtime := update_where (runtime_of_job job i)
        (\<lambda>r. r\<lparr>sx_status := St_Pending, sx_error := None, sx_updated := now\<rparr>) (db_stage_runtime db),
      db_jobs := update_where (\<lambda>k r. k = job)
        (\<lambda>r. r\<lparr>ij_status := Job_Running, ij_progress := progress, ij_error := None, ij_completed := None\<rparr>)
        (db_jobs db)\<rparr>"

definition begin_recovery ::
  "string \<Rightarrow> string \<Rightarrow> string \<Rightarrow> string \<Rightarrow> string \<Rightarrow> recovery_override \<Rightarrow> import_db \<Rightarrow> (import_state \<times> dict) outcome" where
  "begin_recovery run owner lease now job override db =
     (if (case ro_parser_mode override of None \<Rightarrow> False | Some m \<Rightarrow> m \<notin> set parser_modes)
      then (Inl (ValueError ''parser_mode must be auto, fast, or enhanced''), db)
      else case (map_of (db_quarantine db) job, map_of (db_jobs db) job, map_of (db_runtime db) job) of
        (Some q, Some j, Some r) \<Rightarrow>
          (case map_of (db_stages db) (qr_stage_run q) of
             None \<Rightarrow> (Inl (ImportError ''import_job_not_quarantined''), db)
           | Some s \<Rightarrow>
               if qr_stage q \<noteq> sg_stage s \<or> jr_status r \<notin> {Rt_Cancelled, Rt_Failed, Rt_Paused, Rt_Recoverable}
               then (Inl (ImportError ''import_job_not_recoverable''), db)
               else (case (res_bind (complete_stage_ids db job) (\<lambda>ids.
                       res_bind (if ro_parser_mode override = None then Inr db
                                 else reset_parser_checkpoints_in job ids now db) (\<lambda>db1.
                       let progress = verified_progress db1 job;
                           db2 = lease_runtime job owner lease now
                             (reopen_stage job (qr_stage_run q) progress now (close_recovery_runs job now db1)) in
                       if run \<in> fst ` set (db_recovery db2) then Inl (StorageError ''IntegrityError'')
                       else Inr ((\<lparr>js_job = job, js_source = ij_source j, js_status = Rt_Running,
                                   js_stage_ids = ids, js_recovery = Some run\<rparr>,
                                  stage_event job \<lparr>srun_id = qr_stage_run q, srun_stage = qr_stage q,
                                    srun_status = St_Pending, srun_progress = progress, srun_error = None\<rparr> None),
                                 db2\<lparr>db_recovery := db_recovery db2 @ [(run, \<lparr>rr_job = job, rr_stage_run = qr_stage_run q,
                                   rr_model = ro_model override, rr_status = Run_Running, rr_started = now,
                                   rr_completed = None, rr_parser_mode = ro_parser_mode override\<rparr>)]\<rparr>)))) of
                       Inl e \<Rightarrow> (Inl e, db) | Inr (v, db') \<Rightarrow> (Inr v, db')))
      | _ \<Rightarrow> (Inl (ImportError ''import_job_not_quarantined''), db))"

text \<open>The last explicit choice of the job.\<close>

definition recovery_parser_mode :: "string \<Rightarrow> string \<Rightarrow> import_db \<Rightarrow> string" where
  "recovery_parser_mode job mode0 db =
     (case filter (\<lambda>kv. rr_job (snd kv) = job \<and> rr_parser_mode (snd kv) \<noteq> None) (rev (db_recovery db)) of
        [] \<Rightarrow> mode0 | kv # _ \<Rightarrow> the (rr_parser_mode (snd kv)))"

definition recovery_failure_details :: "string \<Rightarrow> string \<times> string" where
  "recovery_failure_details error_code =
     (if error_code = ''import_checkpoint_invalid'' then
        (''A saved import checkpoint could not be verified.'',
         ''Import the document again to rebuild its saved stages.'')
      else if error_code = ''raw_asset_integrity_failed'' then
        (''The saved raw document does not match its checkpoint.'',
         ''Restore the raw document or import it again.'')
      else if error_code = ''recovery_model_not_configured'' then
        (''A configured model is required to resume model analysis.'',
         ''Choose a model for this retry or update the knowledge-base settings.'')
      else if error_code = ''model_operation_suspended'' then
        (''This exact Analysis operation contract remains suspended after an unusable result.'',
         ''Correct the model configuration, then explicitly recover this import.'')
      else (''The document could not continue from its saved checkpoint.'',
            ''Retry the document after checking its source and model settings.''))"

definition close_recovery_run :: "string \<Rightarrow> run_status \<Rightarrow> string \<Rightarrow> import_db \<Rightarrow> import_db" where
  "close_recovery_run run status now db = db
     \<lparr>db_recovery := update_where (\<lambda>k r. k = run) (\<lambda>r. r\<lparr>rr_status := status, rr_completed := Some now\<rparr>) (db_recovery db)\<rparr>"

text \<open>
  Failures of the database while a failure is recorded are logged and swallowed; a missing
  stage raises, as the dictionary lookup is evaluated inside the transaction.
\<close>

definition mark_recovery_failed :: "string \<Rightarrow> import_state \<Rightarrow> string \<Rightarrow> string \<Rightarrow> import_db \<Rightarrow> unit outcome" where
  "mark_recovery_failed now st stage error_code db =
     (case js_recovery st of
        None \<Rightarrow> (Inr (), db)
      | Some run \<Rightarrow>
          (case stage_id st stage of
             Inl e \<Rightarrow> (Inl e, db)
           | Inr i \<Rightarrow>
               let (reason, action) = recovery_failure_details error_code;
                   db1 = close_recovery_run run Run_Failed now db in
               (Inr (), if i \<notin> fst ` set (db_stages db) \<and> js_job st \<in> fst ` set (db_quarantine db) then db
                else db1\<lparr>db_quarantine := update_where (\<lambda>k r. k = js_job st)
                  (\<lambda>r. r\<lparr>qr_stage_run := i, qr_stage := stage, qr_error := error_code, qr_reason := reason,
                         qr_action := action, qr_created := now\<rparr>) (db_quarantine db1)\<rparr>)))"

definition recovery_status :: "string \<Rightarrow> run_status" where
  "recovery_status s = (if s = ''cancelled'' then Run_Cancelled else Run_Failed)"

definition mark_recovery_finished :: "string \<Rightarrow> import_state \<Rightarrow> string \<Rightarrow> import_db \<Rightarrow> import_db" where
  "mark_recovery_finished now st status db =
     (case js_recovery st of None \<Rightarrow> db | Some run \<Rightarrow> close_recovery_run run (recovery_status status) now db)"

end
