(* ===== verification/ImportMachine.thy ===== *)
theory ImportMachine
  imports ImportRecovery
begin

section \<open>The import task center as a state machine\<close>

text \<open>
  The operations of \<open>ImportStore\<close> and \<open>ImportRecovery\<close> as steps of one machine, whose
  reachable states satisfy an invariant: the tables keep their shape, leases belong to
  running jobs only, a completed job has its document and is not isolated, and a job has
  at most one running recovery.
\<close>

subsection \<open>The invariant\<close>

text \<open>What no operation but the creation of a job changes: the keys and their jobs.\<close>

definition import_shape ::
  "import_db \<Rightarrow> string list \<times> string list \<times> (string \<times> string \<times> string) list \<times> (string \<times> string) list" where
  "import_shape db = (map fst (db_jobs db), map fst (db_runtime db),
     map (\<lambda>kv. (fst kv, sg_job (snd kv), sg_stage (snd kv))) (db_stages db),
     map (\<lambda>kv. (fst kv, sx_job (snd kv))) (db_stage_runtime db))"

text \<open>
  Every job has its runtime row, one stage run of each stage and no other, and every stage
  run its runtime row.
\<close>

definition shape_ok ::
  "string list \<times> string list \<times> (string \<times> string \<times> string) list \<times> (string \<times> string) list \<Rightarrow> bool" where
  "shape_ok sh =
     (case sh of (jobs, runtimes, stages, stage_runtimes) \<Rightarrow>
        distinct jobs \<and> runtimes = jobs \<and> distinct (map fst stages) \<and>
        stage_runtimes = map (\<lambda>(k, j, s). (k, j)) stages \<and>
        distinct (map snd stages) \<and> set (map snd stages) = set jobs \<times> set import_stages)"

definition job_coherent :: "job_row \<Rightarrow> runtime_row \<Rightarrow> bool \<Rightarrow> bool" where
  "job_coherent j r quarantined \<longleftrightarrow>
     (jr_lease_owner r \<noteq> None \<longleftrightarrow> jr_status r = Rt_Running) \<and>
     (jr_lease_expires r \<noteq> None \<longleftrightarrow> jr_status r = Rt_Running) \<and>
     (jr_status r = Rt_Completed \<longrightarrow>
        ij_status j = Job_Completed \<and> ij_document j \<noteq> None \<and> ij_progress j = 100 \<and> \<not> quarantined) \<and>
     (jr_status r \<in> {Rt_Failed, Rt_Cancelled} \<longrightarrow> ij_status j = Job_Failed \<and> ij_error j \<noteq> None)"

definition rows_coherent :: "(string \<times> job_row) list \<Rightarrow> (string \<times> runtime_row) list \<Rightarrow> string set \<Rightarrow> bool" where
  "rows_coherent jobs runtimes quarantined \<longleftrightarrow>
     (\<forall>job j r. map_of jobs job = Some j \<longrightarrow> map_of runtimes job = Some r \<longrightarrow>
        job_coherent j r (job \<in> quarantined))"

definition jobs_coherent :: "import_db \<Rightarrow> bool" where
  "jobs_coherent db = rows_coherent (db_jobs db) (db_runtime db) (fst ` set (db_quarantine db))"

definition runs_ok :: "(string \<times> recovery_row) list \<Rightarrow> bool" where
  "runs_ok t \<longleftrightarrow> table_ok t \<and>
     (\<forall>k1 r1 k2 r2. map_of t k1 = Some r1 \<longrightarrow> map_of t k2 = Some r2 \<longrightarrow>
        rr_status r1 = Run_Running \<longrightarrow> rr_status r2 = Run_Running \<longrightarrow> rr_job r1 = rr_job r2 \<longrightarrow> k1 = k2)"

definition import_ok :: "import_db \<Rightarrow> bool" where
  "import_ok db \<longleftrightarrow> shape_ok (import_shape db) \<and> jobs_coherent db \<and> runs_ok (db_recovery db)"

subsection \<open>The steps\<close>

text \<open>
  The identifiers a worker passes are those it was given for its job; a quarantined stage
  is named by its identifier.
\<close>

inductive import_step :: "import_db \<Rightarrow> import_db \<Rightarrow> bool" where
  step_create: "import_step db (snd (create_job job ids source owner lease now db))"
| step_resume: "import_step db (snd (resume_job job owner lease now db))"
| step_set_stage: "import_step db (snd (set_stage owner lease now st stage status progress checkpoint error_code db))"
| step_fail: "import_step db (snd (fail_job now st stage error_code db))"
| step_pause: "import_step db (snd (pause_job now st stage db))"
| step_await: "import_step db (snd (await_model_configuration now st stage db))"
| step_cancel: "import_step db (snd (cancel_job now st stage db))"
| step_cancel_paused: "import_step db (snd (cancel_paused_job now job db))"
| step_duplicate: "import_step db (snd (complete_duplicate_job now st document db))"
| step_reused: "complete_reused_import_in st document stage skipped d now db = Inr db' \<Longrightarrow> import_step db db'"
| step_published: "complete_published_import st document published now db = Inr db' \<Longrightarrow> import_step db db'"
| step_redact: "import_step db (replace_stage_checkpoint i checkpoint now db)"
| step_interrupt: "import_step db (recover_interrupted expired now db)"
| step_quarantine: "import_step db (snd (quarantine now job i stage error_code reason action attempts db))"
| step_begin: "import_step db (snd (begin_recovery run owner lease now job override db))"
| step_mark_failed: "import_step db (snd (mark_recovery_failed now st stage error_code db))"
| step_mark_finished: "import_step db (mark_recovery_finished now st status db)"

inductive import_reachable :: "import_db \<Rightarrow> bool" where
  reach_empty: "import_reachable import_db_empty"
| reach_step: "import_reachable db \<Longrightarrow> import_step db db' \<Longrightarrow> import_reachable db'"

inductive_cases import_stepE: "import_step db db'"

subsection \<open>The primitive updates keep the shape\<close>

named_theorems keeps_shape \<open>operations that leave the keys and jobs of all rows alone\<close>

lemma import_shape_simps:
  "import_shape (db\<lparr>db_jobs := t\<rparr>) = (map fst t, snd (import_shape db))"
  "import_shape (db\<lparr>db_runtime := u\<rparr>) = (fst (import_shape db), map fst u, snd (snd (import_shape db)))"
  "import_shape (db\<lparr>db_quarantine := q\<rparr>) = import_shape db"
  "import_shape (db\<lparr>db_recovery := v\<rparr>) = import_shape db"
  "import_shape (db\<lparr>db_dedup := w\<rparr>) = import_shape db"
  by (simp_all add: import_shape_def)

lemma update_where_stages [simp]:
  "(\<And>r. sg_job (f r) = sg_job r \<and> sg_stage (f r) = sg_stage r) \<Longrightarrow>
    map (\<lambda>kv. (fst kv, sg_job (snd kv), sg_stage (snd kv))) (update_where P f t) =
    map (\<lambda>kv. (fst kv, sg_job (snd kv), sg_stage (snd kv))) t"
  by (simp add: update_where_def)

lemma update_where_stage_runtime [simp]:
  "(\<And>r. sx_job (f r) = sx_job r) \<Longrightarrow>
    map (\<lambda>kv. (fst kv, sx_job (snd kv))) (update_where P f t) = map (\<lambda>kv. (fst kv, sx_job (snd kv))) t"
  by (simp add: update_where_def)

lemma primitive_shapes [keeps_shape]:
  "import_shape (lease_runtime job owner lease now db) = import_shape db"
  "import_shape (release_runtime job rt now db) = import_shape db"
  "import_shape (finish_stage job i st0 e now db) = import_shape db"
  "import_shape (complete_job_in job i document now db) = import_shape db"
  "import_shape (complete_recovery_in recovery now db) = import_shape db"
  "import_shape (fail_stage_and_job job i code now db) = import_shape db"
  "import_shape (record_deduplication_in job d db) = import_shape db"
  "import_shape (replace_stage_checkpoint i checkpoint now db) = import_shape db"
  "import_shape (interrupt_job expired now jr db) = import_shape db"
  "import_shape (discard_analysis_in job db) = import_shape db"
  "import_shape (reset_stage job i now db) = import_shape db"
  "import_shape (close_recovery_runs job now db) = import_shape db"
  "import_shape (close_recovery_run run rs now db) = import_shape db"
  "import_shape (reopen_stage job i progress now db) = import_shape db"
  by (simp_all add: import_shape_def lease_runtime_def release_runtime_def finish_stage_def complete_job_in_def
      complete_recovery_in_def fail_stage_and_job_def record_deduplication_in_def interrupt_job_def
      replace_stage_checkpoint_def discard_analysis_in_def reset_stage_def close_recovery_runs_def close_recovery_run_def reopen_stage_def
      split: option.split)

lemma skip_stages_shape: "skip_stages st stages now db = Inr db' \<Longrightarrow> import_shape db' = import_shape db"
  by (induction stages arbitrary: db) (auto simp: res_bind_Inr_iff keeps_shape)

lemma reset_stages_shape: "reset_stages job ids stages now db = Inr db' \<Longrightarrow> import_shape db' = import_shape db"
  by (induction stages arbitrary: db) (auto simp: keeps_shape split: option.splits)

lemma op_shapes [keeps_shape]:
  "import_shape (snd (resume_job job owner lease now db)) = import_shape db"
  "import_shape (snd (set_stage owner lease now st stage sst progress checkpoint e db)) = import_shape db"
  "import_shape (snd (fail_job now st stage code db)) = import_shape db"
  "import_shape (snd (control_state now st stage sst code db)) = import_shape db"
  subgoal by (auto simp: resume_job_def Let_def import_shape_def lease_runtime_def split: option.split)
  subgoal by (auto simp: set_stage_def Let_def import_shape_def lease_runtime_def split: sum.split)
  subgoal by (auto simp: fail_job_def keeps_shape split: sum.split)
  subgoal by (auto simp: control_state_def Let_def import_shape_def release_runtime_def split: sum.split list.split)
  done

lemma control_shapes [keeps_shape]:
  "import_shape (snd (pause_job now st stage db)) = import_shape db"
  "import_shape (snd (await_model_configuration now st stage db)) = import_shape db"
  "import_shape (snd (cancel_job now st stage db)) = import_shape db"
  by (simp_all add: pause_job_def await_model_configuration_def cancel_job_def keeps_shape)

lemma cancel_paused_shape [keeps_shape]:
  "import_shape (snd (cancel_paused_job now job db)) = import_shape db"
  by (auto simp: cancel_paused_job_def keeps_shape split: sum.split)

lemma reused_shape: "complete_reused_import_in st document stage skipped d now db = Inr db' \<Longrightarrow>
    import_shape db' = import_shape db"
  by (auto simp: complete_reused_import_in_def res_bind_Inr_iff Let_def import_shape_simps keeps_shape
      dest: skip_stages_shape)

lemma published_shape: "complete_published_import st document d now db = Inr db' \<Longrightarrow> import_shape db' = import_shape db"
  by (auto simp: complete_published_import_def res_bind_Inr_iff Let_def import_shape_simps keeps_shape split: option.split)

lemma duplicate_shape [keeps_shape]:
  "import_shape (snd (complete_duplicate_job now st document db)) = import_shape db"
  by (auto simp: complete_duplicate_job_def Let_def dest: reused_shape split: sum.split)

lemma interrupted_shape [keeps_shape]: "import_shape (recover_interrupted expired now db) = import_shape db"
proof -
  have "import_shape (fold (interrupt_job expired now) rs db) = import_shape db" for rs
    by (induction rs arbitrary: db) (simp_all add: keeps_shape)
  then show ?thesis by (simp add: recover_interrupted_def)
qed

lemma recovery_shapes [keeps_shape]:
  "import_shape (snd (quarantine now job i stage code reason action attempts db)) = import_shape db"
  "import_shape (snd (mark_recovery_failed now st stage code db)) = import_shape db"
  "import_shape (mark_recovery_finished now st fin db) = import_shape db"
  "import_shape (snd (begin_recovery run owner lease now job override db)) = import_shape db"
  subgoal by (auto simp: quarantine_def quarantine_import_in_def Let_def import_shape_simps keeps_shape split: sum.split)
  subgoal by (auto simp: mark_recovery_failed_def Let_def import_shape_simps keeps_shape split: option.split sum.split prod.split)
  subgoal by (simp add: mark_recovery_finished_def keeps_shape split: option.split)
  subgoal
    by (auto simp: begin_recovery_def Let_def res_bind_Inr_iff import_shape_simps keeps_shape
        reset_parser_checkpoints_in_def split: option.split sum.split if_splits dest!: reset_stages_shape)
  done

lemma shape_ok_new_job:
  assumes "shape_ok (jobs, runtimes, stages, stage_runtimes)" "job \<notin> set jobs" "inj_on ids (set import_stages)"
    and "ids ` set import_stages \<inter> fst ` set stages = {}"
  shows "shape_ok (jobs @ [job], runtimes @ [job], stages @ map (\<lambda>s. (ids s, job, s)) import_stages,
    stage_runtimes @ map (\<lambda>s. (ids s, job)) import_stages)"
proof -
  let ?new = "map (\<lambda>s. (ids s, job, s)) import_stages"
  have d: "distinct import_stages" by (simp add: import_stages_def)
  have old: "distinct jobs" "runtimes = jobs" "distinct (map fst stages)" "distinct (map snd stages)"
    "stage_runtimes = map (\<lambda>(k, j, s). (k, j)) stages" "set (map snd stages) = set jobs \<times> set import_stages"
    using assms(1) by (simp_all add: shape_ok_def)
  have snd_new: "map snd ?new = map (Pair job) import_stages" by simp
  have "distinct (map fst (stages @ ?new))"
    using old(3) assms(3,4) d by (auto simp: distinct_map comp_inj_on_iff comp_def)
  moreover have "distinct (map snd (stages @ ?new))"
  proof -
    have "distinct (map (Pair job) import_stages)" using d by (simp add: distinct_map inj_on_def)
    moreover have "set (map snd stages) \<inter> set (map (Pair job) import_stages) = {}"
      unfolding old(6) using assms(2) by auto
    ultimately show ?thesis unfolding map_append distinct_append snd_new using old(4) by blast
  qed
  moreover have "set (map snd (stages @ ?new)) = set (jobs @ [job]) \<times> set import_stages"
    unfolding map_append set_append snd_new old(6) by auto
  ultimately show ?thesis
    using old(1,2,5) assms(2) by (simp add: shape_ok_def image_Un image_image)
qed

lemma create_job_shape:
  assumes "shape_ok (import_shape db)"
  shows "shape_ok (import_shape (snd (create_job job ids source owner lease now db)))"
proof (cases "fst (create_job job ids source owner lease now db)")
  case (Inl e)
  then have "snd (create_job job ids source owner lease now db) = db" by (auto simp: create_job_def split: if_splits)
  with assms show ?thesis by simp
next
  case (Inr st)
  then have "job \<notin> set (map fst (db_jobs db))" "inj_on ids (set import_stages)"
    "ids ` set import_stages \<inter> fst ` set (map (\<lambda>kv. (fst kv, sg_job (snd kv), sg_stage (snd kv))) (db_stages db)) = {}"
    by (auto simp: create_job_def distinct_map image_image split: if_splits)
  from shape_ok_new_job [OF assms [unfolded import_shape_def] this] Inr show ?thesis
    by (auto simp: create_job_def import_shape_def new_stage_rows_def new_stage_runtime_rows_def comp_def
        split: if_splits)
qed

lemma import_step_shape:
  assumes "import_step db db'" "shape_ok (import_shape db)"
  shows "shape_ok (import_shape db')"
  using assms by (cases rule: import_step.cases) (auto simp: keeps_shape create_job_shape dest!: reused_shape published_shape)

subsection \<open>Jobs and leases stay coherent\<close>

text \<open>An operation on one job: what it does to the rows of the job, and to its isolation.\<close>

lemma rows_update:
  assumes "rows_coherent J R Q"
    and "\<And>j r. job_coherent j r (job \<in> Q) \<Longrightarrow> job_coherent (f j) (g r) (job \<in> Q')"
    and "\<And>k. k \<noteq> job \<Longrightarrow> k \<in> Q' \<longleftrightarrow> k \<in> Q"
  shows "rows_coherent (update_where (\<lambda>k r. k = job) f J) (update_where (\<lambda>k r. k = job) g R) Q'"
  unfolding rows_coherent_def
proof (intro allI impI)
  fix k j r
  assume "map_of (update_where (\<lambda>k r. k = job) f J) k = Some j"
    "map_of (update_where (\<lambda>k r. k = job) g R) k = Some r"
  then obtain j0 r0 where "map_of J k = Some j0" "map_of R k = Some r0"
    "j = (if k = job then f j0 else j0)" "r = (if k = job then g r0 else r0)" by auto
  with assms show "job_coherent j r (k \<in> Q')" by (auto simp: rows_coherent_def)
qed

lemma update_where_same [simp]: "update_where P (\<lambda>r. r) t = t"
  by (induction t) (simp_all add: update_where_def)

lemma rows_update_runtime:
  "rows_coherent J R Q \<Longrightarrow> (\<And>j r. job_coherent j r (job \<in> Q) \<Longrightarrow> job_coherent j (g r) (job \<in> Q)) \<Longrightarrow>
    rows_coherent J (update_where (\<lambda>k r. k = job) g R) Q"
  using rows_update [of J R Q job "\<lambda>j. j" g Q] by simp

lemma coherent_lease: "jobs_coherent db \<Longrightarrow> jobs_coherent (lease_runtime job owner lease now db)"
  by (simp add: jobs_coherent_def lease_runtime_def, erule rows_update_runtime)
    (simp add: job_coherent_def)

lemma coherent_finish_stage [simp]: "jobs_coherent (finish_stage job i sst e now db) = jobs_coherent db"
  by (simp add: jobs_coherent_def finish_stage_def)

lemma coherent_complete:
  assumes "jobs_coherent db"
  shows "rows_coherent (db_jobs (complete_job_in job i document now db))
    (db_runtime (complete_job_in job i document now db)) (fst ` set (db_quarantine db) - {job})"
  unfolding complete_job_in_def release_runtime_def finish_stage_def
  by (simp, rule rows_update [OF assms [unfolded jobs_coherent_def]]) (simp_all add: job_coherent_def)

lemma coherent_fail: "jobs_coherent db \<Longrightarrow> jobs_coherent (fail_stage_and_job job i code now db)"
  unfolding jobs_coherent_def fail_stage_and_job_def release_runtime_def finish_stage_def
  by (simp, erule rows_update) (simp_all add: job_coherent_def)

lemma coherent_interrupt: "jobs_coherent db \<Longrightarrow> jobs_coherent (interrupt_job expired now jr db)"
  unfolding jobs_coherent_def interrupt_job_def release_runtime_def
  by (simp, erule rows_update_runtime) (simp add: job_coherent_def)

lemma coherent_set_stage:
  "jobs_coherent db \<Longrightarrow> jobs_coherent (snd (set_stage owner lease now st stage sst progress checkpoint e db))"
  unfolding jobs_coherent_def set_stage_def lease_runtime_def
  by (cases "stage_id st stage") (auto simp: Let_def job_coherent_def intro!: rows_update)

lemma coherent_control:
  assumes "jobs_coherent db" "sst \<in> {St_Paused, St_Cancelled}"
  shows "jobs_coherent (snd (control_state now st stage sst code db))"
proof (cases "sst = St_Cancelled")
  case True
  with assms(1) show ?thesis
    unfolding jobs_coherent_def control_state_def release_runtime_def Let_def
    by (auto simp: job_coherent_def runtime_of_stage_status_def intro!: rows_update split: sum.split list.split)
next
  case False
  with assms show ?thesis
    unfolding jobs_coherent_def control_state_def release_runtime_def Let_def
    by (auto simp: job_coherent_def runtime_of_stage_status_def intro!: rows_update_runtime split: sum.split list.split)
qed

lemma coherent_resume: "jobs_coherent db \<Longrightarrow> jobs_coherent (snd (resume_job job owner lease now db))"
  unfolding jobs_coherent_def resume_job_def lease_runtime_def Let_def
  by (cases "map_of (db_jobs db) job"; cases "map_of (db_runtime db) job")
    (auto simp: job_coherent_def intro!: rows_update_runtime)

lemma coherent_interrupted: "jobs_coherent db \<Longrightarrow> jobs_coherent (recover_interrupted expired now db)"
proof -
  have "jobs_coherent db \<Longrightarrow> jobs_coherent (fold (interrupt_job expired now) rs db)" for rs
    by (induction rs arbitrary: db) (simp_all add: coherent_interrupt)
  then show "jobs_coherent db \<Longrightarrow> jobs_coherent (recover_interrupted expired now db)"
    by (simp add: recover_interrupted_def)
qed

lemma coherent_cancel_paused: "jobs_coherent db \<Longrightarrow> jobs_coherent (snd (cancel_paused_job now job db))"
  by (auto simp: cancel_paused_job_def cancel_job_def coherent_control split: sum.split)

lemma skip_stages_coherent:
  "skip_stages st stages now db = Inr db' \<Longrightarrow> jobs_coherent db \<Longrightarrow>
    jobs_coherent db' \<and> fst ` set (db_quarantine db') = fst ` set (db_quarantine db)"
proof (induction stages arbitrary: db)
  case (Cons stage stages)
  then show ?case by (force simp: res_bind_Inr_iff finish_stage_def jobs_coherent_def)
qed simp

lemma completion_keeps_quarantine:
  "db_quarantine (record_deduplication_in job d db) = db_quarantine db"
  "db_quarantine (complete_recovery_in recovery now db) = db_quarantine db"
  "db_quarantine (complete_job_in job i document now db) = db_quarantine db"
  by (simp_all add: record_deduplication_in_def complete_recovery_in_def complete_job_in_def release_runtime_def
      finish_stage_def split: option.split)

lemma coherent_settled:
  assumes "jobs_coherent db" "db_jobs db' = db_jobs (complete_job_in job i document now db)"
    "db_runtime db' = db_runtime (complete_job_in job i document now db)"
    "db_quarantine db' = filter (\<lambda>kv. fst kv \<noteq> job) (db_quarantine db)"
  shows "jobs_coherent db'"
proof -
  have "fst ` set (filter (\<lambda>kv. fst kv \<noteq> job) (db_quarantine db)) = fst ` set (db_quarantine db) - {job}" by auto
  with coherent_complete [OF assms(1), of job i document now] show ?thesis
    unfolding jobs_coherent_def assms(2-4) by simp
qed

lemma coherent_reused:
  assumes "complete_reused_import_in st document stage skipped d now db = Inr db'" "jobs_coherent db"
  shows "jobs_coherent db'"
proof -
  from assms(1) obtain db1 i where db1: "skip_stages st skipped now db = Inr db1"
    and db': "db' = (record_deduplication_in (js_job st) d (complete_recovery_in (js_recovery st) now
        (complete_job_in (js_job st) i document now db1)))
      \<lparr>db_quarantine := filter (\<lambda>kv. fst kv \<noteq> js_job st) (db_quarantine db1)\<rparr>"
    by (auto simp: complete_reused_import_in_def res_bind_Inr_iff Let_def completion_keeps_quarantine)
  from skip_stages_coherent [OF db1 assms(2)] have "jobs_coherent db1" by blast
  then show ?thesis
    by (rule coherent_settled [of _ _ "js_job st" i document now])
      (simp_all add: db' record_deduplication_in_def complete_recovery_in_def split: option.split)
qed

lemma coherent_published:
  assumes "complete_published_import st document d now db = Inr db'" "jobs_coherent db"
  shows "jobs_coherent db'"
proof -
  from assms(1) obtain i where "db' = (let
      db1 = complete_recovery_in (js_recovery st) now (complete_job_in (js_job st) i document now db);
      db2 = (case d of None \<Rightarrow> db1 | Some x \<Rightarrow> record_deduplication_in (js_job st) x db1) in
      db2\<lparr>db_quarantine := filter (\<lambda>kv. fst kv \<noteq> js_job st) (db_quarantine db2)\<rparr>)"
    by (auto simp: complete_published_import_def res_bind_Inr_iff Let_def)
  with assms(2) show ?thesis
    by (intro coherent_settled [of db db' "js_job st" i document now])
      (simp_all add: Let_def completion_keeps_quarantine record_deduplication_in_def complete_recovery_in_def
        split: option.split)
qed

lemma coherent_redact: "jobs_coherent (replace_stage_checkpoint i checkpoint now db) = jobs_coherent db"
  by (simp add: jobs_coherent_def replace_stage_checkpoint_def)

lemma coherent_duplicate: "jobs_coherent db \<Longrightarrow> jobs_coherent (snd (complete_duplicate_job now st document db))"
  by (auto simp: complete_duplicate_job_def Let_def coherent_reused split: sum.split)

lemma coherent_quarantine:
  "jobs_coherent db \<Longrightarrow> jobs_coherent (snd (quarantine now job i stage code reason action attempts db))"
  unfolding jobs_coherent_def quarantine_def quarantine_import_in_def fail_stage_and_job_def release_runtime_def finish_stage_def
  by (auto simp: Let_def dom_update job_coherent_def intro!: rows_update split: sum.split)

lemma coherent_mark_failed: "jobs_coherent db \<Longrightarrow> jobs_coherent (snd (mark_recovery_failed now st stage code db))"
proof -
  have "fst ` set (update_where P f t) = fst ` set t" for P f and t :: "(string \<times> quarantine_row) list"
    using update_where_keys [of P f t] by (metis list.set_map)
  then show "jobs_coherent db \<Longrightarrow> jobs_coherent (snd (mark_recovery_failed now st stage code db))"
    by (auto simp: mark_recovery_failed_def close_recovery_run_def jobs_coherent_def Let_def
        split: option.split sum.split prod.split)
qed

lemma coherent_mark_finished: "jobs_coherent db \<Longrightarrow> jobs_coherent (mark_recovery_finished now st fin db)"
  by (simp add: mark_recovery_finished_def close_recovery_run_def jobs_coherent_def split: option.split)

lemma reset_stages_coherent:
  "reset_stages job ids stages now db = Inr db' \<Longrightarrow>
    db_jobs db' = db_jobs db \<and> db_runtime db' = db_runtime db \<and> db_quarantine db' = db_quarantine db"
proof (induction stages arbitrary: db)
  case (Cons stage stages)
  then show ?case by (fastforce simp: reset_stage_def split: option.splits)
qed simp

lemma reset_parser_coherent:
  "reset_parser_checkpoints_in job ids now db = Inr db' \<Longrightarrow>
    db_jobs db' = db_jobs db \<and> db_runtime db' = db_runtime db \<and> db_quarantine db' = db_quarantine db"
  by (auto simp: reset_parser_checkpoints_in_def discard_analysis_in_def split: option.splits if_splits
      dest!: reset_stages_coherent)

lemma begin_recovery_Inr:
  assumes "fst (begin_recovery run owner lease now job override db) = Inr v"
  obtains q j r s ids db1 where
    "map_of (db_quarantine db) job = Some q" "map_of (db_jobs db) job = Some j" "map_of (db_runtime db) job = Some r"
    "map_of (db_stages db) (qr_stage_run q) = Some s" "qr_stage q = sg_stage s"
    "jr_status r \<in> {Rt_Cancelled, Rt_Failed, Rt_Paused, Rt_Recoverable}"
    "complete_stage_ids db job = Inr ids"
    "if ro_parser_mode override = None then db1 = db else reset_parser_checkpoints_in job ids now db = Inr db1"
    "run \<notin> fst ` set (db_recovery (close_recovery_runs job now db1))"
    "snd (begin_recovery run owner lease now job override db) =
       (let db2 = lease_runtime job owner lease now
          (reopen_stage job (qr_stage_run q) (verified_progress db1 job) now (close_recovery_runs job now db1)) in
        db2\<lparr>db_recovery := db_recovery (close_recovery_runs job now db1) @ [(run, \<lparr>rr_job = job, rr_stage_run = qr_stage_run q,
          rr_model = ro_model override, rr_status = Run_Running, rr_started = now,
          rr_completed = None, rr_parser_mode = ro_parser_mode override\<rparr>)]\<rparr>)"
    "fst v = \<lparr>js_job = job, js_source = ij_source j, js_status = Rt_Running, js_stage_ids = ids, js_recovery = Some run\<rparr>"
proof -
  have runs: "db_recovery (lease_runtime job owner lease now (reopen_stage job i progress now d)) = db_recovery d"
    for i progress d by (simp add: lease_runtime_def reopen_stage_def)
  from assms obtain q j r s where m: "map_of (db_quarantine db) job = Some q" "map_of (db_jobs db) job = Some j"
    "map_of (db_runtime db) job = Some r" "map_of (db_stages db) (qr_stage_run q) = Some s"
    "qr_stage q = sg_stage s" "jr_status r \<in> {Rt_Cancelled, Rt_Failed, Rt_Paused, Rt_Recoverable}"
    and mode: "\<not> (case ro_parser_mode override of None \<Rightarrow> False | Some m \<Rightarrow> m \<notin> set parser_modes)"
    unfolding begin_recovery_def by (auto split: option.splits if_splits)
  note b = begin_recovery_def [of run owner lease now job override db, unfolded if_not_P [OF mode] m(1-4) prod.case option.case]
  have c: "\<not> (qr_stage q \<noteq> sg_stage s \<or> jr_status r \<notin> {Rt_Cancelled, Rt_Failed, Rt_Paused, Rt_Recoverable})"
    using m(5,6) by blast
  note b' = b [unfolded if_not_P [OF c]]
  from assms obtain ids db1 where i: "complete_stage_ids db job = Inr ids"
    "(if ro_parser_mode override = None then Inr db else reset_parser_checkpoints_in job ids now db) = Inr db1"
    unfolding b' by (auto simp: res_bind_def split: sum.splits)
  have db1: "if ro_parser_mode override = None then db1 = db else reset_parser_checkpoints_in job ids now db = Inr db1"
    using i(2) by (auto split: if_splits)
  note b'' = b' [unfolded i res_bind_simps Let_def runs]
  show thesis
    using assms unfolding b'' by (intro that [OF m i(1) db1]) (auto simp: Let_def b'' split: if_splits)
qed

lemma coherent_begin:
  assumes "jobs_coherent db"
  shows "jobs_coherent (snd (begin_recovery run owner lease now job override db))"
proof (cases "fst (begin_recovery run owner lease now job override db)")
  case (Inl e)
  then have "snd (begin_recovery run owner lease now job override db) = db"
    by (auto simp: begin_recovery_def Let_def split: option.splits sum.splits if_splits)
  with assms show ?thesis by simp
next
  case (Inr v)
  then show ?thesis
  proof (rule begin_recovery_Inr, goal_cases)
    case (1 q j r s ids db1)
    have "db_jobs db1 = db_jobs db" "db_runtime db1 = db_runtime db" "db_quarantine db1 = db_quarantine db"
      using 1(8) reset_parser_coherent by (auto split: if_splits)
    with assms show ?case
      unfolding jobs_coherent_def 1(10)
      by (simp add: lease_runtime_def reopen_stage_def close_recovery_runs_def Let_def)
        (erule rows_update, auto simp: job_coherent_def)
  qed
qed

subsection \<open>One running recovery per job\<close>

lemma runs_ok_close:
  assumes "runs_ok t" "\<And>r. rr_job (f r) = rr_job r" "\<And>r. rr_status (f r) \<noteq> Run_Running"
  shows "runs_ok (update_where P f t)"
  using assms unfolding runs_ok_def by (auto split: if_splits)

lemma runs_ok_begin:
  assumes "runs_ok t" "\<And>k r. map_of t k = Some r \<Longrightarrow> rr_job r = rr_job x \<Longrightarrow> rr_status r \<noteq> Run_Running"
    and "run \<notin> fst ` set t"
  shows "runs_ok (t @ [(run, x)])"
proof -
  have m: "map_of (t @ [(run, x)]) = (map_of t)(run \<mapsto> x)"
    by (rule map_of_append_new) (use assms(3) in \<open>simp add: map_of_eq_None_iff\<close>)
  have n: "map_of t run = None" using assms(3) by (simp add: map_of_eq_None_iff)
  from assms(1) have d: "distinct (map fst t)" and
    u: "\<And>k1 r1 k2 r2. map_of t k1 = Some r1 \<Longrightarrow> map_of t k2 = Some r2 \<Longrightarrow>
        rr_status r1 = Run_Running \<Longrightarrow> rr_status r2 = Run_Running \<Longrightarrow> rr_job r1 = rr_job r2 \<Longrightarrow> k1 = k2"
    unfolding runs_ok_def by blast+
  have "table_ok (t @ [(run, x)])" using d assms(3) by simp
  then show ?thesis unfolding runs_ok_def m using u assms(2) by (auto simp: n)
qed

named_theorems keeps_runs \<open>operations that leave the recovery runs alone\<close>

lemma primitive_runs [keeps_runs]:
  "db_recovery (lease_runtime job owner lease now db) = db_recovery db"
  "db_recovery (release_runtime job rt now db) = db_recovery db"
  "db_recovery (finish_stage job i st0 e now db) = db_recovery db"
  "db_recovery (complete_job_in job i document now db) = db_recovery db"
  "db_recovery (fail_stage_and_job job i code now db) = db_recovery db"
  "db_recovery (record_deduplication_in job d db) = db_recovery db"
  "db_recovery (replace_stage_checkpoint i checkpoint now db) = db_recovery db"
  "db_recovery (interrupt_job expired now jr db) = db_recovery db"
  "db_recovery (discard_analysis_in job db) = db_recovery db"
  "db_recovery (reset_stage job i now db) = db_recovery db"
  "db_recovery (reopen_stage job i progress now db) = db_recovery db"
  by (simp_all add: lease_runtime_def release_runtime_def finish_stage_def complete_job_in_def
      fail_stage_and_job_def record_deduplication_in_def interrupt_job_def
      replace_stage_checkpoint_def discard_analysis_in_def reset_stage_def reopen_stage_def)

lemma op_runs [keeps_runs]:
  "db_recovery (snd (create_job job ids source owner lease now db)) = db_recovery db"
  "db_recovery (snd (resume_job job owner lease now db)) = db_recovery db"
  "db_recovery (snd (set_stage owner lease now st stage sst progress checkpoint e db)) = db_recovery db"
  "db_recovery (snd (fail_job now st stage code db)) = db_recovery db"
  "db_recovery (snd (control_state now st stage sst code db)) = db_recovery db"
  "db_recovery (snd (quarantine now job i stage code reason action attempts db)) = db_recovery db"
  subgoal by (simp add: create_job_def)
  subgoal by (auto simp: resume_job_def Let_def keeps_runs split: option.split)
  subgoal by (auto simp: set_stage_def Let_def keeps_runs split: sum.split)
  subgoal by (auto simp: fail_job_def keeps_runs split: sum.split)
  subgoal by (auto simp: control_state_def Let_def keeps_runs split: sum.split list.split)
  subgoal by (auto simp: quarantine_def quarantine_import_in_def Let_def keeps_runs split: sum.split)
  done

lemma control_runs [keeps_runs]:
  "db_recovery (snd (pause_job now st stage db)) = db_recovery db"
  "db_recovery (snd (await_model_configuration now st stage db)) = db_recovery db"
  "db_recovery (snd (cancel_job now st stage db)) = db_recovery db"
  by (simp_all add: pause_job_def await_model_configuration_def cancel_job_def keeps_runs)

lemma cancel_paused_runs [keeps_runs]:
  "db_recovery (snd (cancel_paused_job now job db)) = db_recovery db"
  by (auto simp: cancel_paused_job_def keeps_runs split: sum.split)

lemma interrupted_runs [keeps_runs]: "db_recovery (recover_interrupted expired now db) = db_recovery db"
proof -
  have "db_recovery (fold (interrupt_job expired now) rs db) = db_recovery db" for rs
    by (induction rs arbitrary: db) (simp_all add: keeps_runs)
  then show ?thesis by (simp add: recover_interrupted_def)
qed

lemma skip_stages_runs: "skip_stages st stages now db = Inr db' \<Longrightarrow> db_recovery db' = db_recovery db"
  by (induction stages arbitrary: db) (auto simp: res_bind_Inr_iff keeps_runs)

lemma reset_stages_runs: "reset_stages job ids stages now db = Inr db' \<Longrightarrow> db_recovery db' = db_recovery db"
  by (induction stages arbitrary: db) (auto simp: keeps_runs split: option.splits)

lemma runs_ok_complete_recovery: "runs_ok (db_recovery db) \<Longrightarrow> runs_ok (db_recovery (complete_recovery_in recovery now db))"
  by (auto simp: complete_recovery_in_def intro!: runs_ok_close split: option.split)

lemma runs_ok_reused:
  "complete_reused_import_in st document stage skipped d now db = Inr db' \<Longrightarrow> runs_ok (db_recovery db) \<Longrightarrow> runs_ok (db_recovery db')"
  by (auto simp: complete_reused_import_in_def res_bind_Inr_iff Let_def keeps_runs
      intro!: runs_ok_complete_recovery dest!: skip_stages_runs)

lemma runs_ok_published:
  "complete_published_import st document d now db = Inr db' \<Longrightarrow> runs_ok (db_recovery db) \<Longrightarrow> runs_ok (db_recovery db')"
  by (auto simp: complete_published_import_def res_bind_Inr_iff Let_def keeps_runs
      intro!: runs_ok_complete_recovery split: option.split)

lemma runs_ok_duplicate: "runs_ok (db_recovery db) \<Longrightarrow> runs_ok (db_recovery (snd (complete_duplicate_job now st document db)))"
  by (auto simp: complete_duplicate_job_def Let_def runs_ok_reused split: sum.split)

lemma runs_ok_mark:
  "runs_ok (db_recovery db) \<Longrightarrow> runs_ok (db_recovery (snd (mark_recovery_failed now st stage code db)))"
  "runs_ok (db_recovery db) \<Longrightarrow> runs_ok (db_recovery (mark_recovery_finished now st fin db))"
  by (auto simp: mark_recovery_failed_def mark_recovery_finished_def close_recovery_run_def Let_def recovery_status_def
      intro!: runs_ok_close split: option.split sum.split prod.split)

lemma updated_row:
  assumes "map_of (update_where P f t) k = Some r" "\<And>r. Q (f r)" "\<And>k r. \<not> P k r \<Longrightarrow> Q r"
  shows "Q r"
proof -
  from assms(1) obtain r0 where "r = (if P k r0 then f r0 else r0)" by auto
  with assms(2,3) show ?thesis by (cases "P k r0") auto
qed

lemma runs_ok_begin_recovery:
  assumes "runs_ok (db_recovery db)"
  shows "runs_ok (db_recovery (snd (begin_recovery run owner lease now job override db)))"
proof (cases "fst (begin_recovery run owner lease now job override db)")
  case (Inl e)
  then have "snd (begin_recovery run owner lease now job override db) = db"
    by (auto simp: begin_recovery_def Let_def split: option.splits sum.splits if_splits)
  with assms show ?thesis by simp
next
  case (Inr v)
  then show ?thesis
  proof (rule begin_recovery_Inr, goal_cases)
    case (1 q j r s ids db1)
    let ?closed = "db_recovery (close_recovery_runs job now db)"
    have "db_recovery db1 = db_recovery db"
      using 1(8) by (auto simp: reset_parser_checkpoints_in_def keeps_runs dest!: reset_stages_runs
          split: if_splits option.splits)
    then have c: "db_recovery (close_recovery_runs job now db1) = ?closed" by (simp add: close_recovery_runs_def)
    have "runs_ok ?closed"
      unfolding close_recovery_runs_def by simp (rule runs_ok_close, use assms in simp_all)
    moreover have "rr_job r = job \<longrightarrow> rr_status r \<noteq> Run_Running" if "map_of ?closed k = Some r" for k r
    proof -
      have "?closed = update_where (\<lambda>k r. rr_job r = job \<and> rr_status r = Run_Running)
          (\<lambda>r. r\<lparr>rr_status := Run_Failed, rr_completed := coalesce (rr_completed r) (Some now)\<rparr>) (db_recovery db)"
        by (simp add: close_recovery_runs_def)
      from updated_row [OF that [unfolded this], of "\<lambda>r. rr_job r = job \<longrightarrow> rr_status r \<noteq> Run_Running"]
      show ?thesis by simp
    qed
    ultimately show ?case
      unfolding 1(10) Let_def using 1(9) c by (simp add: runs_ok_begin)
  qed
qed

subsection \<open>The invariant holds in every reachable state\<close>

lemma create_job_coherent:
  assumes "shape_ok (import_shape db)" "jobs_coherent db"
  shows "jobs_coherent (snd (create_job job ids source owner lease now db))"
proof (cases "job \<in> fst ` set (db_jobs db)")
  case False
  then have n: "map_of (db_jobs db) job = None" "map_of (db_runtime db) job = None"
  proof -
    have "map fst (db_runtime db) = map fst (db_jobs db)" using assms(1) by (simp add: shape_ok_def import_shape_def)
    then have "fst ` set (db_runtime db) = fst ` set (db_jobs db)" by (metis list.set_map)
    with False show "map_of (db_jobs db) job = None" "map_of (db_runtime db) job = None"
      by (simp_all add: map_of_eq_None_iff)
  qed
  have jc: "jobs_coherent (db\<lparr>db_jobs := db_jobs db @ [(job, j)], db_runtime := db_runtime db @ [(job, r)],
      db_stages := x, db_stage_runtime := y\<rparr>)"
    if "\<And>q. job_coherent j r q" for j r x y
    using assms(2) that by (auto simp: jobs_coherent_def rows_coherent_def map_of_append_new [OF n(1)]
        map_of_append_new [OF n(2)] simp del: map_of_append)
  show ?thesis
    using assms(2) by (auto simp: create_job_def job_coherent_def intro!: jc)
qed (use assms in \<open>simp add: create_job_def\<close>)

lemma import_step_ok:
  assumes "import_step db db'" "import_ok db"
  shows "import_ok db'"
proof -
  have "shape_ok (import_shape db')" using import_step_shape assms by (auto simp: import_ok_def)
  moreover have "jobs_coherent db'"
    using assms by (cases rule: import_step.cases)
      (auto simp: import_ok_def create_job_coherent coherent_resume coherent_set_stage fail_job_def coherent_fail
        pause_job_def await_model_configuration_def cancel_job_def coherent_control coherent_cancel_paused
        coherent_duplicate coherent_reused coherent_published coherent_redact coherent_interrupted coherent_quarantine coherent_begin
        coherent_mark_failed coherent_mark_finished split: sum.split)
  moreover have "runs_ok (db_recovery db')"
    using assms by (cases rule: import_step.cases)
      (auto simp: import_ok_def keeps_runs runs_ok_reused runs_ok_published runs_ok_duplicate runs_ok_mark runs_ok_begin_recovery)
  ultimately show ?thesis by (simp add: import_ok_def)
qed

lemma import_reachable_ok: "import_reachable db \<Longrightarrow> import_ok db"
proof (induction rule: import_reachable.induct)
  case reach_empty
  show ?case
    by (simp add: import_ok_def import_db_empty_def import_shape_def shape_ok_def jobs_coherent_def
        rows_coherent_def runs_ok_def)
next
  case (reach_step db db')
  then show ?case by (blast intro: import_step_ok)
qed

text \<open>What an import leaves when it ends with a document, its own or a shared one.\<close>

definition import_settled :: "import_state \<Rightarrow> string \<Rightarrow> import_db \<Rightarrow> bool" where
  "import_settled st document db \<longleftrightarrow>
     (\<forall>j. map_of (db_jobs db) (js_job st) = Some j \<longrightarrow> ij_status j = Job_Completed \<and> ij_document j = Some document) \<and>
     (\<forall>r. map_of (db_runtime db) (js_job st) = Some r \<longrightarrow> jr_status r = Rt_Completed \<and> jr_lease_owner r = None) \<and>
     js_job st \<notin> fst ` set (db_quarantine db) \<and>
     (\<forall>run r. js_recovery st = Some run \<longrightarrow> map_of (db_recovery db) run = Some r \<longrightarrow> rr_status r = Run_Completed)"

lemma completion_settles:
  assumes "db_jobs db' = db_jobs (complete_job_in (js_job st) i document now db)"
    "db_runtime db' = db_runtime (complete_job_in (js_job st) i document now db)"
    "js_job st \<notin> fst ` set (db_quarantine db')"
    "db_recovery db' = db_recovery (complete_recovery_in (js_recovery st) now db)"
  shows "import_settled st document db'"
  using assms(3) unfolding import_settled_def assms(1,2,4)
  by (auto simp: complete_job_in_def release_runtime_def finish_stage_def complete_recovery_in_def)

lemma published_settles: "complete_published_import st document d now db = Inr db' \<Longrightarrow> import_settled st document db'"
  by (auto simp: complete_published_import_def res_bind_Inr_iff Let_def complete_recovery_in_def
      record_deduplication_in_def keeps_runs split: option.split intro!: completion_settles)

lemma reused_settles:
  "complete_reused_import_in st document stage skipped d now db = Inr db' \<Longrightarrow> import_settled st document db'"
  by (auto simp: complete_reused_import_in_def res_bind_Inr_iff Let_def complete_recovery_in_def
      record_deduplication_in_def keeps_runs split: option.split intro!: completion_settles)

text \<open>
  C18 The task center is never inconsistent.  In every state reached from the empty tables by
  the operations of the import store, the quarantine and the recovery store, the last writes
  of a publication and the redaction of a checkpoint: each job has its
  runtime row and exactly one stage run of each of the seven stages, each stage run its
  runtime row; a lease is held exactly while a job is running; a completed job has
  its document, a progress of 100 and is not isolated; a failed or cancelled one has its
  error code; and no job has two running recoveries.  An import that ends, by publishing its
  document or by reusing one, is completed with that document, without lease or isolation,
  and the recovery it ran under is completed.
\<close>

theorem import_tables_consistent:
  "(import_reachable db \<longrightarrow> import_ok db) \<and>
   (complete_published_import st document published now db1 = Inr db2 \<longrightarrow> import_settled st document db2) \<and>
   (complete_reused_import_in st document stage skipped reused now db1 = Inr db2 \<longrightarrow> import_settled st document db2)"
  using import_reachable_ok published_settles reused_settles by blast

definition sample_tables :: import_db where
  "sample_tables = snd (create_job ''job'' (\<lambda>s. s) ''notes.md'' ''owner'' ''t9'' ''t0'' import_db_empty)"

text \<open>The job is isolated, recovered and published.\<close>

definition sample_stuck :: import_db where
  "sample_stuck = snd (quarantine ''t2'' ''job'' ''evidence'' ''evidence'' ''evidence_invalid'' ''reason'' ''action'' 1 sample_tables)"

definition sample_recovered :: "(import_state \<times> dict) outcome" where
  "sample_recovered = begin_recovery ''run'' ''o2'' ''t20'' ''t3'' ''job''
     \<lparr>ro_model = None, ro_context_capacity = None, ro_reasoning = None, ro_legacy_recovery_choice = None,
      ro_check_and_recover = False, ro_parser_mode = None\<rparr> sample_stuck"

definition sample_settled :: "import_db res" where
  "sample_settled = res_bind (fst sample_recovered) (\<lambda>v.
     complete_published_import (fst v) ''doc'' None ''t4'' (snd sample_recovered))"

lemma sample_settled_rows:
  "case sample_settled of Inl e \<Rightarrow> False
   | Inr db \<Rightarrow> map fst (db_jobs db) = [''job''] \<and> map fst (db_recovery db) = [''run'']"
  "case fst sample_recovered of Inl e \<Rightarrow> False | Inr v \<Rightarrow> js_job (fst v) = ''job'' \<and> js_recovery (fst v) = Some ''run''"
  "map fst (db_quarantine sample_stuck) = [''job'']"
  by code_simp+

theorem import_tables_consistent_witness:
  "\<exists>st db. import_ok db \<and> import_settled st ''doc'' db \<and> js_job st = ''job'' \<and> js_recovery st = Some ''run'' \<and>
     map fst (db_jobs db) = [''job''] \<and> map fst (db_recovery db) = [''run''] \<and>
     map fst (db_quarantine sample_stuck) = [''job'']"
proof -
  from sample_settled_rows(1) obtain db where db: "sample_settled = Inr db" "map fst (db_jobs db) = [''job'']"
    "map fst (db_recovery db) = [''run'']" by (auto split: sum.splits)
  then obtain v where v: "fst sample_recovered = Inr v"
    "complete_published_import (fst v) ''doc'' None ''t4'' (snd sample_recovered) = Inr db"
    by (auto simp: sample_settled_def res_bind_Inr_iff)
  have "import_reachable sample_tables"
    unfolding sample_tables_def by (rule reach_step [OF reach_empty step_create])
  then have "import_reachable sample_stuck"
    unfolding sample_stuck_def by (rule reach_step [OF _ step_quarantine])
  then have "import_reachable (snd sample_recovered)"
    unfolding sample_recovered_def by (rule reach_step [OF _ step_begin])
  then have "import_reachable db" by (rule reach_step [OF _ step_published [OF v(2)]])
  with import_tables_consistent [of db "fst v" "''doc''" None "''t4''" "snd sample_recovered" db] v(2)
  have "import_ok db \<and> import_settled (fst v) ''doc'' db" by blast
  moreover have "js_job (fst v) = ''job'' \<and> js_recovery (fst v) = Some ''run''" using sample_settled_rows(2) v(1) by simp
  ultimately show ?thesis using db(2,3) sample_settled_rows(3) by (intro exI [of _ "fst v"] exI [of _ db]) simp
qed

end
