(* ===== verification/ImportLifecycle.thy ===== *)
theory ImportLifecycle
  imports ImportMachine
begin

section \<open>Interruption, resumption and recovery of an import\<close>

text \<open>
  What survives: an interrupted job is recoverable, resumes with every checkpoint and
  continues where it was; a recovery reopens one stage, or everything derived from the text.
\<close>

subsection \<open>Interrupted jobs\<close>

lemma interrupt_job_tables [simp]:
  "db_jobs (interrupt_job expired now jr db) = db_jobs db"
  "db_stages (interrupt_job expired now jr db) = db_stages db"
  "db_quarantine (interrupt_job expired now jr db) = db_quarantine db"
  by (simp_all add: interrupt_job_def release_runtime_def)

lemma fold_interrupt_tables [simp]:
  "db_jobs (fold (interrupt_job expired now) rs db) = db_jobs db"
  "db_stages (fold (interrupt_job expired now) rs db) = db_stages db"
  "db_quarantine (fold (interrupt_job expired now) rs db) = db_quarantine db"
  by (induction rs arbitrary: db) simp_all

lemma fold_interrupt_runtime:
  "map_of (db_runtime (fold (interrupt_job expired now) rs db)) k =
     (if k \<in> fst ` set rs
      then map_option (\<lambda>r. \<lparr>jr_status = Rt_Recoverable, jr_lease_owner = None, jr_lease_expires = None, jr_updated = now\<rparr>)
        (map_of (db_runtime db) k)
      else map_of (db_runtime db) k)"
proof (induction rs arbitrary: db)
  case (Cons jr rs)
  have "map_of (db_runtime (interrupt_job expired now jr db)) k =
     (if k = fst jr
      then map_option (\<lambda>r. \<lparr>jr_status = Rt_Recoverable, jr_lease_owner = None, jr_lease_expires = None, jr_updated = now\<rparr>)
        (map_of (db_runtime db) k)
      else map_of (db_runtime db) k)"
    by (cases "map_of (db_runtime db) k") (auto simp: interrupt_job_def release_runtime_def)
  then show ?case
    unfolding fold_simps Cons.IH by (cases "map_of (db_runtime db) k"; cases "k = fst jr") simp_all
qed simp

text \<open>What an interruption does to a stage of the job.\<close>

definition stage_interrupted :: "stage_runtime_row \<Rightarrow> stage_runtime_row \<Rightarrow> bool" where
  "stage_interrupted x x' \<longleftrightarrow> sx_job x' = sx_job x \<and> sx_checkpoint x' = sx_checkpoint x \<and>
     sx_status x' = (if sx_status x = St_Running then St_Paused else sx_status x)"

lemma fold_interrupt_stage:
  "map_of (db_stage_runtime db) k = Some x \<Longrightarrow>
    \<exists>x'. map_of (db_stage_runtime (fold (interrupt_job expired now) rs db)) k = Some x' \<and>
      (if sx_job x \<in> fst ` set rs then stage_interrupted x x' else x' = x)"
proof (induction rs arbitrary: db x)
  case (Cons jr rs)
  let ?db = "interrupt_job expired now jr db"
  obtain y where y: "map_of (db_stage_runtime ?db) k = Some y"
    "if sx_job x = fst jr then stage_interrupted x y else y = x"
    using Cons.prems by (auto simp: interrupt_job_def release_runtime_def stage_interrupted_def)
  from Cons.IH [OF y(1)] obtain x' where "map_of (db_stage_runtime (fold (interrupt_job expired now) rs ?db)) k = Some x'"
    "if sx_job y \<in> fst ` set rs then stage_interrupted y x' else x' = y" by blast
  with y(2) show ?case by (auto simp: stage_interrupted_def split: if_splits)
qed simp

subsection \<open>Where a job continues\<close>

lemma stages_for_job_map:
  "stages_for_job db job = map (stage_run_of db)
     (sort_key (stage_order \<circ> sg_stage \<circ> snd) (filter (\<lambda>kv. sg_job (snd kv) = job) (db_stages db)))"
proof -
  have "stage_order \<circ> srun_stage \<circ> stage_run_of db = stage_order \<circ> sg_stage \<circ> snd"
    by (auto simp: fun_eq_iff stage_run_of_def)
  then show ?thesis by (simp add: stages_for_job_def sort_key_map)
qed

lemma first_open_stage_cong:
  assumes "map (\<lambda>(s, r). (s, stage_done (srun_status r))) vs = map (\<lambda>(s, r). (s, stage_done (srun_status r))) ws"
  shows "first_open_stage vs stages = first_open_stage ws stages"
proof (induction stages)
  case (Cons stage stages)
  have "map_option (\<lambda>r. stage_done (srun_status r)) (map_of us s) =
      map_of (map (\<lambda>(s, r). (s, stage_done (srun_status r))) us) s" for us and s :: string
    by (induction us) auto
  then have "map_option (\<lambda>r. stage_done (srun_status r)) (map_of vs stage) =
      map_option (\<lambda>r. stage_done (srun_status r)) (map_of ws stage)" using assms by metis
  then show ?case by (cases "map_of vs stage"; cases "map_of ws stage") (auto simp: Cons)
qed simp

lemma next_import_stage_same:
  assumes "db_stages db' = db_stages db"
    and "\<And>k. map_option (\<lambda>x. stage_done (sx_status x)) (map_of (db_stage_runtime db') k) =
      map_option (\<lambda>x. stage_done (sx_status x)) (map_of (db_stage_runtime db) k)"
    and "js_job st' = js_job st"
  shows "next_import_stage db' st' = next_import_stage db st"
proof -
  have same: "stage_done (srun_status (stage_run_of db' kv)) = stage_done (srun_status (stage_run_of db kv))" for kv
    using assms(2) [of "fst kv"] by (auto simp: stage_run_of_def split: prod.split option.splits)
  have stage: "srun_stage (stage_run_of d kv) = sg_stage (snd kv)" for d kv
    by (simp add: stage_run_of_def split: prod.split)
  show ?thesis
    unfolding next_import_stage_def stages_for_job_map assms(1,3)
    by (rule first_open_stage_cong) (simp add: rev_map comp_def same stage)
qed

lemma shape_stage_ids:
  assumes "shape_ok (import_shape db)" "job \<in> fst ` set (db_jobs db)"
  shows "fst ` set (stage_ids_of db job) = set import_stages"
proof -
  have "(\<lambda>kv. (sg_job (snd kv), sg_stage (snd kv))) ` set (db_stages db) = fst ` set (db_jobs db) \<times> set import_stages"
    using assms(1) by (simp add: shape_ok_def import_shape_def image_image)
  then have "(job, s) \<in> (\<lambda>kv. (sg_job (snd kv), sg_stage (snd kv))) ` set (db_stages db) \<longleftrightarrow> s \<in> set import_stages" for s
    using assms(2) by simp
  then have "s \<in> set import_stages \<longleftrightarrow> (\<exists>kv\<in>set (db_stages db). sg_job (snd kv) = job \<and> sg_stage (snd kv) = s)" for s
    unfolding image_iff by (metis prod.inject)
  then have "{s. \<exists>kv\<in>set (db_stages db). sg_job (snd kv) = job \<and> sg_stage (snd kv) = s} = set import_stages"
    by blast
  moreover have "fst ` set (stage_ids_of db job) =
      {s. \<exists>kv\<in>set (db_stages db). sg_job (snd kv) = job \<and> sg_stage (snd kv) = s}"
    unfolding stage_ids_of_def by (simp add: image_image) blast
  ultimately show ?thesis by simp
qed

lemma resume_job_Inr:
  assumes "map_of (db_jobs db) job = Some j" "map_of (db_runtime db) job = Some r"
    "jr_status r \<in> {Rt_Paused, Rt_Recoverable}" "shape_ok (import_shape db)"
  shows "\<exists>st. fst (resume_job job owner lease now db) = Inr st \<and> js_job st = job"
proof -
  let ?db = "(lease_runtime job owner lease now db)
                 \<lparr>db_stage_runtime := update_where (\<lambda>k s. sx_job s = job \<and> sx_status s = St_Paused)
                    (\<lambda>s. s\<lparr>sx_status := St_Pending, sx_error := None, sx_updated := now\<rparr>) (db_stage_runtime db)\<rparr>"
  have "job \<in> fst ` set (db_jobs db)" using assms(1) by (force dest: map_of_SomeD)
  with shape_stage_ids [OF assms(4)] have "fst ` set (stage_ids_of ?db job) = set import_stages"
    by (simp add: stage_ids_of_def lease_runtime_def)
  then show ?thesis
    using assms(1-3) by (simp add: resume_job_def Let_def job_state_in_def)
qed

lemma resume_job_stage:
  assumes "fst (resume_job job owner lease now db) = Inr st" "map_of (db_stage_runtime db) k = Some x"
  shows "map_of (db_stage_runtime (snd (resume_job job owner lease now db))) k =
    Some (if sx_job x = job \<and> sx_status x = St_Paused
          then x\<lparr>sx_status := St_Pending, sx_error := None, sx_updated := now\<rparr> else x)"
  using assms by (auto simp: resume_job_def Let_def lease_runtime_def split: option.splits if_splits)

lemma resume_job_stages: "db_stages (snd (resume_job job owner lease now db)) = db_stages db"
  by (auto simp: resume_job_def Let_def lease_runtime_def split: option.splits)

lemma resumable_jobs:
  "map_of (db_jobs db) job = Some j \<Longrightarrow> map_of (db_runtime db) job = Some r \<Longrightarrow> jr_status r = Rt_Recoverable \<Longrightarrow>
    job \<notin> fst ` set (db_quarantine db) \<Longrightarrow> job \<in> set (resumable_job_ids db)"
  by (force simp: resumable_job_ids_def dest: map_of_SomeD)

text \<open>
  C19 Interrupted work resumes where it was.  In every state of the import machine, whose
  steps include the writes that publish or share a document: when the Engine restarts while
  a job is running, the job becomes recoverable, is offered for automatic recovery unless it
  is isolated, and can be resumed: all its stages keep their checkpoints, running and paused
  ones are pending again and all others, the completed ones among them, keep their status,
  so the job continues with the same stage as before.
\<close>

theorem interrupted_import_resumes:
  assumes "import_reachable db" "map_of (db_runtime db) job = Some r" "jr_status r = Rt_Running"
    and crashed_def: "crashed = recover_interrupted expired now db"
  shows "\<exists>st db'. resume_job job owner lease later crashed = (Inr st, db') \<and> js_job st = job \<and>
    (job \<notin> fst ` set (db_quarantine db) \<longrightarrow> job \<in> set (resumable_job_ids crashed)) \<and>
    (\<forall>k x. map_of (db_stage_runtime db) k = Some x \<and> sx_job x = job \<longrightarrow>
       (\<exists>x'. map_of (db_stage_runtime db') k = Some x' \<and> sx_checkpoint x' = sx_checkpoint x \<and>
          sx_status x' = (if sx_status x \<in> {St_Running, St_Paused} then St_Pending else sx_status x))) \<and>
    next_import_stage db' st = next_import_stage db st"
proof -
  from assms(1) have ok: "import_ok db" by (rule import_reachable_ok)
  let ?rs = "filter (\<lambda>kv. jr_status (snd kv) = Rt_Running) (db_runtime db)"
  have c: "crashed = fold (interrupt_job expired now) ?rs db" by (simp add: crashed_def recover_interrupted_def)
  have shape: "shape_ok (import_shape crashed)" using ok by (simp add: crashed_def keeps_shape import_ok_def)
  have keys: "map fst (db_runtime db) = map fst (db_jobs db)"
    using ok by (simp add: import_ok_def shape_ok_def import_shape_def)
  have in_rs: "job \<in> fst ` set ?rs" using assms(2,3) by (force dest: map_of_SomeD)
  have rt: "map_of (db_runtime crashed) job = Some \<lparr>jr_status = Rt_Recoverable, jr_lease_owner = None,
      jr_lease_expires = None, jr_updated = now\<rparr>"
    using in_rs assms(2) by (simp add: c fold_interrupt_runtime)
  have "job \<in> set (map fst (db_jobs db))" using assms(2) unfolding keys [symmetric] by (force dest: map_of_SomeD)
  then obtain j where j: "map_of (db_jobs crashed) job = Some j" by (force simp: c dest!: weak_map_of_SomeI)
  obtain st where st: "fst (resume_job job owner lease later crashed) = Inr st" "js_job st = job"
    using resume_job_Inr [OF j rt _ shape, of owner later lease] resume_job_Inr [OF j rt _ shape, of owner lease later]
    by auto
  let ?db' = "snd (resume_job job owner lease later crashed)"
  have stage: "\<exists>x'. map_of (db_stage_runtime ?db') k = Some x' \<and>
      (sx_job x = job \<longrightarrow> sx_checkpoint x' = sx_checkpoint x \<and>
          sx_status x' = (if sx_status x \<in> {St_Running, St_Paused} then St_Pending else sx_status x)) \<and>
      (stage_done (sx_status x') \<longleftrightarrow> stage_done (sx_status x))"
    if x: "map_of (db_stage_runtime db) k = Some x" for k x
  proof -
    from fold_interrupt_stage [OF x, of expired now ?rs] obtain y where
      y: "map_of (db_stage_runtime crashed) k = Some y" "if sx_job x \<in> fst ` set ?rs then stage_interrupted x y else y = x"
      by (auto simp: c)
    from resume_job_stage [OF st(1) y(1)] y(2) in_rs show ?thesis
      by (auto simp: stage_interrupted_def stage_done_def split: if_splits)
  qed
  have none: "map_of (db_stage_runtime ?db') k = None" if "map_of (db_stage_runtime db) k = None" for k
  proof -
    have "import_shape ?db' = import_shape db" by (simp add: keeps_shape crashed_def)
    then have "map fst (db_stage_runtime ?db') = map fst (db_stage_runtime db)"
      unfolding import_shape_def prod.inject by (metis (no_types, lifting) list.map_comp map_eq_conv comp_apply fst_conv)
    then have "fst ` set (db_stage_runtime ?db') = fst ` set (db_stage_runtime db)" by (metis list.set_map)
    with that show ?thesis by (simp add: map_of_eq_None_iff)
  qed
  have "next_import_stage ?db' st = next_import_stage db st"
  proof (rule next_import_stage_same)
    show "db_stages ?db' = db_stages db" by (simp add: resume_job_stages c)
    show "map_option (\<lambda>x. stage_done (sx_status x)) (map_of (db_stage_runtime ?db') k) =
        map_option (\<lambda>x. stage_done (sx_status x)) (map_of (db_stage_runtime db) k)" for k
      using stage [of k] none [of k] by (cases "map_of (db_stage_runtime db) k") auto
  qed simp
  moreover have "job \<notin> fst ` set (db_quarantine db) \<longrightarrow> job \<in> set (resumable_job_ids crashed)"
    using resumable_jobs [OF j rt] by (simp add: c)
  moreover have "resume_job job owner lease later crashed = (Inr st, ?db')" using st(1) by (metis prod.collapse)
  ultimately show ?thesis using st(2) stage by blast
qed

definition sample_progress :: import_db where
  "sample_progress = snd (set_stage ''owner'' ''t9'' ''t1''
     \<lparr>js_job = ''job'', js_source = ''notes.md'', js_status = Rt_Running,
      js_stage_ids = [(''preflight'', ''preflight'')], js_recovery = None\<rparr>
     ''preflight'' St_Completed 15 (Some (JObj [])) None sample_tables)"

lemma sample_progress_reachable: "import_reachable sample_progress"
proof -
  have "import_reachable sample_tables"
    unfolding sample_tables_def by (rule reach_step [OF reach_empty step_create])
  then show ?thesis unfolding sample_progress_def by (rule reach_step [OF _ step_set_stage])
qed

theorem interrupted_import_resumes_witness:
  "\<exists>st db'. resume_job ''job'' ''o2'' ''t20'' ''t11'' (recover_interrupted (\<lambda>a b. True) ''t10'' sample_progress) = (Inr st, db') \<and>
     next_import_stage db' st = next_import_stage sample_progress st"
proof -
  have "case map_of (db_runtime sample_progress) ''job'' of None \<Rightarrow> False | Some r \<Rightarrow> jr_status r = Rt_Running"
    by code_simp
  then obtain r where "map_of (db_runtime sample_progress) ''job'' = Some r" "jr_status r = Rt_Running"
    by (auto split: option.splits)
  from interrupted_import_resumes [OF sample_progress_reachable this refl] show ?thesis by blast
qed

subsection \<open>Recovery runs\<close>

lemma stage_ids_row:
  assumes "shape_ok (import_shape db)"
  shows "map_of (stage_ids_of db job) stage = Some k \<longleftrightarrow>
    (\<exists>s. map_of (db_stages db) k = Some s \<and> sg_job s = job \<and> sg_stage s = stage)"
proof -
  let ?rows = "filter (\<lambda>kv. sg_job (snd kv) = job) (db_stages db)"
  have d: "distinct (map (\<lambda>kv. (sg_job (snd kv), sg_stage (snd kv))) (db_stages db))" and t: "table_ok (db_stages db)"
    using assms by (simp_all add: shape_ok_def import_shape_def comp_def)
  have "distinct (map (\<lambda>kv. sg_stage (snd kv)) ?rows)"
    using d by (auto simp: distinct_map inj_on_def)
  then have "distinct (map fst (stage_ids_of db job))"
    by (simp add: stage_ids_of_def comp_def rev_map [symmetric])
  then have "map_of (stage_ids_of db job) stage = Some k \<longleftrightarrow> (stage, k) \<in> set (stage_ids_of db job)"
    by simp
  also have "\<dots> \<longleftrightarrow> (\<exists>s. (k, s) \<in> set (db_stages db) \<and> sg_job s = job \<and> sg_stage s = stage)"
  proof -
    have "(stage, k) \<in> set (stage_ids_of db job) \<longleftrightarrow>
        (\<exists>kv\<in>set (db_stages db). sg_job (snd kv) = job \<and> sg_stage (snd kv) = stage \<and> fst kv = k)"
      by (auto simp: stage_ids_of_def image_iff simp del: split_paired_Ex)
    then show ?thesis by (metis fst_conv snd_conv prod.collapse)
  qed
  finally show ?thesis using t by simp
qed

lemma reset_stages_runtime:
  assumes "reset_stages job ids stages now db = Inr db'" "map_of (db_stage_runtime db) k = Some x"
  shows "\<exists>x'. map_of (db_stage_runtime db') k = Some x' \<and>
    (if sx_job x = job \<and> (\<exists>s\<in>set stages. map_of ids s = Some k)
     then sx_job x' = job \<and> sx_checkpoint x' = None \<and> sx_status x' = St_Pending else x' = x)"
  using assms
proof (induction stages arbitrary: db x)
  case (Cons stage stages)
  from Cons.prems(1) obtain i where i: "map_of ids stage = Some i"
    "reset_stages job ids stages now (reset_stage job i now db) = Inr db'" by (auto split: option.splits)
  obtain y where y: "map_of (db_stage_runtime (reset_stage job i now db)) k = Some y"
    "if sx_job x = job \<and> k = i then sx_job y = job \<and> sx_checkpoint y = None \<and> sx_status y = St_Pending else y = x"
    using Cons.prems(2) by (auto simp: reset_stage_def runtime_of_job_def)
  from Cons.IH [OF i(2) y(1)] y(2) i(1) show ?case by (auto split: if_splits)
qed simp

lemma reset_parser_runtime:
  assumes "reset_parser_checkpoints_in job ids now db = Inr db'" "map_of (db_stage_runtime db) k = Some x"
  shows "\<exists>x'. map_of (db_stage_runtime db') k = Some x' \<and>
    (if sx_job x = job \<and> (\<exists>s\<in>set derived_stages. map_of ids s = Some k)
     then sx_job x' = job \<and> sx_checkpoint x' = None \<and> sx_status x' = St_Pending else x' = x)"
  using assms reset_stages_runtime [of job ids derived_stages now "discard_analysis_in job db" db' k x]
  by (auto simp: reset_parser_checkpoints_in_def discard_analysis_in_def split: option.splits if_splits)

lemma reset_stages_analysis:
  "reset_stages job ids stages now db = Inr db' \<Longrightarrow> db_plans db' = db_plans db \<and> db_batches db' = db_batches db"
proof (induction stages arbitrary: db)
  case (Cons stage stages)
  then show ?case by (fastforce simp: reset_stage_def split: option.splits)
qed simp

lemma reset_parser_discards:
  "reset_parser_checkpoints_in job ids now db = Inr db' \<Longrightarrow>
    job \<notin> fst ` set (db_plans db') \<and> job \<notin> fst ` set (db_batches db')"
  by (auto simp: reset_parser_checkpoints_in_def discard_analysis_in_def split: option.splits if_splits
      dest!: reset_stages_analysis)

lemma shape_runtime_job:
  assumes "shape_ok (import_shape db)" "map_of (db_stages db) k = Some s" "map_of (db_stage_runtime db) k = Some x"
  shows "sx_job x = sg_job s"
proof -
  have m: "map (\<lambda>kv. (fst kv, sx_job (snd kv))) (db_stage_runtime db) =
      map (\<lambda>kv. (fst kv, sg_job (snd kv))) (db_stages db)"
    using assms(1) by (simp add: shape_ok_def import_shape_def comp_def)
  have key: "map_of (map (\<lambda>kv. (fst kv, f (snd kv))) t) k = map_option f (map_of t k)" for f :: "'b \<Rightarrow> string" and t
    by (induction t) auto
  from key [of sx_job "db_stage_runtime db"] key [of sg_job "db_stages db"] assms(2,3) show ?thesis
    by (simp add: m)
qed

text \<open>
  A recovery reopens what it has to and nothing else.  Only an isolated document can be
  recovered.  The recovered job runs under a new recovery, its failed stage is pending, and
  every other checkpoint of the database is kept, unless another parser was chosen: then
  exactly the stages derived from the document's text lose their checkpoints and are pending
  again, and their analysis is discarded.  No stage of another job is touched, and the
  document stays isolated until it is published.
\<close>

theorem recovery_reopens_failed_stage:
  assumes "import_reachable db" "begin_recovery run owner lease now job override db = (Inr v, db')"
  shows "\<exists>q. map_of (db_quarantine db) job = Some q \<and> db_quarantine db' = db_quarantine db \<and>
    js_job (fst v) = job \<and> js_recovery (fst v) = Some run \<and>
    (\<forall>k x s. map_of (db_stage_runtime db) k = Some x \<and> map_of (db_stages db) k = Some s \<longrightarrow>
      (\<exists>x'. map_of (db_stage_runtime db') k = Some x' \<and>
        (sg_job s \<noteq> job \<longrightarrow> x' = x) \<and>
        (sg_job s = job \<and> k = qr_stage_run q \<longrightarrow> sx_status x' = St_Pending) \<and>
        (if sg_job s = job \<and> ro_parser_mode override \<noteq> None \<and> sg_stage s \<in> set derived_stages
         then sx_checkpoint x' = None \<and> sx_status x' = St_Pending
         else sx_checkpoint x' = sx_checkpoint x \<and> (k \<noteq> qr_stage_run q \<longrightarrow> x' = x)))) \<and>
    (ro_parser_mode override \<noteq> None \<longrightarrow> job \<notin> fst ` set (db_plans db') \<and> job \<notin> fst ` set (db_batches db'))"
proof -
  have ok: "shape_ok (import_shape db)" using import_reachable_ok [OF assms(1)] by (simp add: import_ok_def)
  from assms(2) have begun: "fst (begin_recovery run owner lease now job override db) = Inr v"
    and db': "db' = snd (begin_recovery run owner lease now job override db)" by simp_all
  from begun show ?thesis
  proof (rule begin_recovery_Inr, goal_cases)
    case (1 q j r s0 ids db1)
    have ids: "ids = stage_ids_of db job"
      using 1(7) by (simp add: complete_stage_ids_def Let_def split: if_splits)
    have kept: "db_quarantine db1 = db_quarantine db"
      using 1(8) reset_parser_coherent by (auto split: if_splits)
    have tables: "db_quarantine db' = db_quarantine db1" "db_plans db' = db_plans db1" "db_batches db' = db_batches db1"
      "db_stage_runtime db' = update_where (runtime_of_job job (qr_stage_run q))
         (\<lambda>x. x\<lparr>sx_status := St_Pending, sx_error := None, sx_updated := now\<rparr>) (db_stage_runtime db1)"
      by (simp_all add: db' 1(10) Let_def lease_runtime_def reopen_stage_def close_recovery_runs_def)
    have stage: "\<exists>x'. map_of (db_stage_runtime db') k = Some x' \<and> (sg_job s \<noteq> job \<longrightarrow> x' = x) \<and>
        (sg_job s = job \<and> k = qr_stage_run q \<longrightarrow> sx_status x' = St_Pending) \<and>
        (if sg_job s = job \<and> ro_parser_mode override \<noteq> None \<and> sg_stage s \<in> set derived_stages
         then sx_checkpoint x' = None \<and> sx_status x' = St_Pending
         else sx_checkpoint x' = sx_checkpoint x \<and> (k \<noteq> qr_stage_run q \<longrightarrow> x' = x))"
      if x: "map_of (db_stage_runtime db) k = Some x" and s: "map_of (db_stages db) k = Some s" for k x s
    proof -
      have job: "sx_job x = sg_job s" by (rule shape_runtime_job [OF ok s x])
      have der: "(\<exists>st\<in>set derived_stages. map_of ids st = Some k) \<longleftrightarrow> sg_job s = job \<and> sg_stage s \<in> set derived_stages"
        using s by (auto simp: ids stage_ids_row [OF ok])
      obtain y where y: "map_of (db_stage_runtime db1) k = Some y"
        "if ro_parser_mode override \<noteq> None \<and> sg_job s = job \<and> sg_stage s \<in> set derived_stages
         then sx_job y = job \<and> sx_checkpoint y = None \<and> sx_status y = St_Pending else y = x"
      proof (cases "ro_parser_mode override = None")
        case True
        with 1(8) x that show ?thesis by simp
      next
        case False
        with 1(8) have "reset_parser_checkpoints_in job ids now db = Inr db1" by simp
        from reset_parser_runtime [OF this x] False that show ?thesis
          unfolding der job by (elim exE conjE) (simp split: if_splits)
      qed
      have "map_of (db_stage_runtime db') k = Some (if runtime_of_job job (qr_stage_run q) k y
          then y\<lparr>sx_status := St_Pending, sx_error := None, sx_updated := now\<rparr> else y)"
        by (simp add: tables(4) y(1))
      with y(2) job show ?thesis by (simp add: runtime_of_job_def split: if_splits)
    qed
    have "ro_parser_mode override \<noteq> None \<longrightarrow> job \<notin> fst ` set (db_plans db1) \<and> job \<notin> fst ` set (db_batches db1)"
      using 1(8) reset_parser_discards by (auto split: if_splits)
    moreover have "js_job (fst v) = job" "js_recovery (fst v) = Some run" using 1(11) by simp_all
    moreover have "\<forall>k x s. map_of (db_stage_runtime db) k = Some x \<and> map_of (db_stages db) k = Some s \<longrightarrow>
      (\<exists>x'. map_of (db_stage_runtime db') k = Some x' \<and> (sg_job s \<noteq> job \<longrightarrow> x' = x) \<and>
        (sg_job s = job \<and> k = qr_stage_run q \<longrightarrow> sx_status x' = St_Pending) \<and>
        (if sg_job s = job \<and> ro_parser_mode override \<noteq> None \<and> sg_stage s \<in> set derived_stages
         then sx_checkpoint x' = None \<and> sx_status x' = St_Pending
         else sx_checkpoint x' = sx_checkpoint x \<and> (k \<noteq> qr_stage_run q \<longrightarrow> x' = x)))"
      by (intro allI impI, erule conjE, rule stage)
    moreover have "db_quarantine db' = db_quarantine db" by (simp only: tables(1) kept)
    ultimately show ?case
      unfolding tables(2,3) using 1(1) by (intro exI [of _ q] conjI) simp_all
  qed
qed

definition sample_isolated :: import_db where
  "sample_isolated = snd (quarantine ''t2'' ''job'' ''raw_asset'' ''raw_asset'' ''raw_asset_integrity_failed''
     ''reason'' ''action'' 1 sample_progress)"

definition sample_override :: recovery_override where
  "sample_override = \<lparr>ro_model = None, ro_context_capacity = None, ro_reasoning = None,
     ro_legacy_recovery_choice = None, ro_check_and_recover = False, ro_parser_mode = Some ''fast''\<rparr>"

theorem recovery_reopens_failed_stage_witness:
  "\<exists>v db'. begin_recovery ''run'' ''o2'' ''t20'' ''t3'' ''job'' sample_override sample_isolated = (Inr v, db') \<and>
     js_recovery (fst v) = Some ''run'' \<and> db_quarantine db' = db_quarantine sample_isolated"
proof -
  have r: "import_reachable sample_isolated"
    unfolding sample_isolated_def by (rule reach_step [OF sample_progress_reachable step_quarantine])
  have "case fst (begin_recovery ''run'' ''o2'' ''t20'' ''t3'' ''job'' sample_override sample_isolated) of
      Inl _ \<Rightarrow> False | Inr _ \<Rightarrow> True" by code_simp
  then obtain v db' where b: "begin_recovery ''run'' ''o2'' ''t20'' ''t3'' ''job'' sample_override sample_isolated = (Inr v, db')"
    by (metis (no_types, lifting) old.sum.simps(5) prod.collapse sum.exhaust)
  from recovery_reopens_failed_stage [OF r b] b show ?thesis by blast
qed

end
