(* ===== verification/ParallelMap.thy ===== *)
theory ParallelMap
  imports Prelude
begin

section \<open>Bounded parallel execution (\<open>openkb/shared/parallel.py\<close>)\<close>

text \<open>
  \<open>parallel_map_ordered\<close> runs a worker over independent items on a bounded pool of
  threads and returns the results in the order of the items.  With one worker it is a
  loop; otherwise the thread that called it and the threads of the pool are an inductive
  step relation, one rule per atomic action: what is done under \<open>dispatch_lock\<close>, the call
  of the worker, the completion of a future, one iteration of a loop of the main thread.

  The worker is a function of the item that returns a value or raises; \<open>notify k\<close> is what
  the call of \<open>on_completed\<close> number \<open>k\<close> raises, if anything.
\<close>

subsection \<open>One worker\<close>

fun map_in_order :: "('i \<Rightarrow> 'r res) \<Rightarrow> (nat \<Rightarrow> error option) \<Rightarrow> nat \<Rightarrow> 'i list \<Rightarrow> 'r list res" where
  "map_in_order worker notify k [] = Inr []"
| "map_in_order worker notify k (x # xs) =
     res_bind (worker x) (\<lambda>r.
     case notify k of
       Some e \<Rightarrow> Inl e
     | None \<Rightarrow> res_bind (map_in_order worker notify (Suc k) xs) (\<lambda>rs. Inr (r # rs)))"

definition pool_size :: "int \<Rightarrow> 'i list \<Rightarrow> nat" where
  "pool_size maximum items = nat (max 1 (min maximum (int (length items))))"

subsection \<open>The pool\<close>

text \<open>
  A future as the executor sees it.  \<open>Failing\<close> is between the two halves of
  \<open>guarded_worker\<close>: the worker has raised and \<open>failure_seen\<close> is set, the future does not
  hold the exception yet.
\<close>

datatype 'r future = Queued | Running | Failing error | Finished "'r res"

text \<open>
  Where the main thread is: the first loop of \<open>submit_next\<close> with the submissions left, the
  head of \<open>while futures\<close>, the loop over the completed futures with \<open>first_error\<close> and
  \<open>successful\<close>, the refilling loop, the cancelling loop of the handler, \<open>shutdown\<close>.
\<close>

datatype 'r control =
    Starting nat
  | Waiting
  | Collecting "nat list" "error option" nat
  | Refilling nat
  | Cancelling "nat list" error
  | Draining error
  | Returned "'r list"
  | Raised error

record 'r pool =
  pm_next :: nat
  pm_failure_seen :: bool
  pm_futures :: "(nat \<times> 'r future) list"
  pm_ordered :: "'r option list"
  pm_notified :: nat
  pm_control :: "'r control"

definition pool_init :: "nat \<Rightarrow> nat \<Rightarrow> 'r pool" where
  "pool_init workers n =
     \<lparr>pm_next = 0, pm_failure_seen = False, pm_futures = [], pm_ordered = replicate n None,
      pm_notified = 0, pm_control = Starting workers\<rparr>"

definition submit_next :: "nat \<Rightarrow> 'r pool \<Rightarrow> 'r pool" where
  "submit_next n s =
     (if pm_failure_seen s then s
      else if pm_next s = n then s
      else s\<lparr>pm_futures := pm_futures s @ [(pm_next s, Queued)], pm_next := Suc (pm_next s)\<rparr>)"

definition set_future :: "nat \<Rightarrow> 'r future \<Rightarrow> 'r pool \<Rightarrow> 'r pool" where
  "set_future i v s =
     s\<lparr>pm_futures := map (\<lambda>kv. if fst kv = i then (i, v) else kv) (pm_futures s)\<rparr>"

definition pop_future :: "nat \<Rightarrow> 'r pool \<Rightarrow> 'r pool" where
  "pop_future i s = s\<lparr>pm_futures := filter (\<lambda>kv. fst kv \<noteq> i) (pm_futures s)\<rparr>"

definition busy_threads :: "'r pool \<Rightarrow> nat" where
  "busy_threads s =
     length (filter (\<lambda>kv. case snd kv of Running \<Rightarrow> True | Failing _ \<Rightarrow> True | _ \<Rightarrow> False) (pm_futures s))"

text \<open>One iteration over the completed futures: \<open>pop\<close>, \<open>result\<close>, \<open>on_completed\<close>.\<close>

definition collect_future ::
  "(nat \<Rightarrow> error option) \<Rightarrow> nat \<Rightarrow> 'r res \<Rightarrow> nat list \<Rightarrow> error option \<Rightarrow> nat \<Rightarrow> 'r pool \<Rightarrow> 'r pool" where
  "collect_future notify i result rest first_error successful s =
     (case result of
        Inl e \<Rightarrow>
          (pop_future i s)
            \<lparr>pm_control := Collecting rest (case first_error of None \<Rightarrow> Some e | Some e0 \<Rightarrow> Some e0) successful\<rparr>
      | Inr r \<Rightarrow>
          (let s1 = (pop_future i s)
                 \<lparr>pm_ordered := (pm_ordered s)[i := Some r], pm_notified := Suc (pm_notified s)\<rparr>
           in case notify (pm_notified s) of
                None \<Rightarrow> s1\<lparr>pm_control := Collecting rest first_error (Suc successful)\<rparr>
              | Some e \<Rightarrow>
                  s1\<lparr>pm_control := Collecting rest
                       (case first_error of None \<Rightarrow> Some e | Some e0 \<Rightarrow> Some e0) successful\<rparr>))"

definition all_settled :: "'r pool \<Rightarrow> bool" where
  "all_settled s \<longleftrightarrow> (\<forall>kv \<in> set (pm_futures s). case snd kv of Finished _ \<Rightarrow> True | _ \<Rightarrow> False)"

text \<open>
  \<open>wait\<close> returns some of the finished futures, at least one, in the order of a set.  The
  handler cancels the futures that no thread has taken yet.
\<close>

inductive pool_step ::
  "('i \<Rightarrow> 'r res) \<Rightarrow> (nat \<Rightarrow> error option) \<Rightarrow> 'i list \<Rightarrow> nat \<Rightarrow> 'r pool \<Rightarrow> 'r pool \<Rightarrow> bool"
  for worker :: "'i \<Rightarrow> 'r res" and notify and items and workers where
  take: "map_of (pm_futures s) i = Some Queued \<Longrightarrow> busy_threads s < workers \<Longrightarrow>
    pool_step worker notify items workers s (set_future i Running s)"
| succeed: "map_of (pm_futures s) i = Some Running \<Longrightarrow> worker (items ! i) = Inr r \<Longrightarrow>
    pool_step worker notify items workers s (set_future i (Finished (Inr r)) s)"
| fail: "map_of (pm_futures s) i = Some Running \<Longrightarrow> worker (items ! i) = Inl e \<Longrightarrow>
    pool_step worker notify items workers s ((set_future i (Failing e) s)\<lparr>pm_failure_seen := True\<rparr>)"
| record_failure: "map_of (pm_futures s) i = Some (Failing e) \<Longrightarrow>
    pool_step worker notify items workers s (set_future i (Finished (Inl e)) s)"
| start: "pm_control s = Starting (Suc k) \<Longrightarrow>
    pool_step worker notify items workers s ((submit_next (length items) s)\<lparr>pm_control := Starting k\<rparr>)"
| started: "pm_control s = Starting 0 \<Longrightarrow>
    pool_step worker notify items workers s (s\<lparr>pm_control := Waiting\<rparr>)"
| woken: "pm_control s = Waiting \<Longrightarrow> completed \<noteq> [] \<Longrightarrow> distinct completed \<Longrightarrow>
    (\<forall>i \<in> set completed. \<exists>x. map_of (pm_futures s) i = Some (Finished x)) \<Longrightarrow>
    pool_step worker notify items workers s (s\<lparr>pm_control := Collecting completed None 0\<rparr>)"
| collect: "pm_control s = Collecting (i # rest) first_error successful \<Longrightarrow>
    map_of (pm_futures s) i = Some (Finished result) \<Longrightarrow>
    pool_step worker notify items workers s
      (collect_future notify i result rest first_error successful s)"
| collected: "pm_control s = Collecting [] None successful \<Longrightarrow>
    pool_step worker notify items workers s (s\<lparr>pm_control := Refilling successful\<rparr>)"
| refill: "pm_control s = Refilling (Suc k) \<Longrightarrow>
    pool_step worker notify items workers s ((submit_next (length items) s)\<lparr>pm_control := Refilling k\<rparr>)"
| refilled: "pm_control s = Refilling 0 \<Longrightarrow>
    pool_step worker notify items workers s (s\<lparr>pm_control := Waiting\<rparr>)"
| raise_first: "pm_control s = Collecting [] (Some e) successful \<Longrightarrow>
    pool_step worker notify items workers s
      (s\<lparr>pm_control := Cancelling (map fst (pm_futures s)) e\<rparr>)"
| cancel: "pm_control s = Cancelling (i # rest) e \<Longrightarrow>
    pool_step worker notify items workers s
      ((if map_of (pm_futures s) i = Some Queued then pop_future i s else s)
         \<lparr>pm_control := Cancelling rest e\<rparr>)"
| cancelled: "pm_control s = Cancelling [] e \<Longrightarrow>
    pool_step worker notify items workers s (s\<lparr>pm_control := Draining e\<rparr>)"
| drained: "pm_control s = Draining e \<Longrightarrow> all_settled s \<Longrightarrow>
    pool_step worker notify items workers s (s\<lparr>pm_control := Raised e\<rparr>)"
| finish: "pm_control s = Waiting \<Longrightarrow> pm_futures s = [] \<Longrightarrow>
    pool_step worker notify items workers s (s\<lparr>pm_control := Returned (map the (pm_ordered s))\<rparr>)"

inductive pool_reachable ::
  "('i \<Rightarrow> 'r res) \<Rightarrow> (nat \<Rightarrow> error option) \<Rightarrow> 'i list \<Rightarrow> nat \<Rightarrow> 'r pool \<Rightarrow> bool"
  for worker :: "'i \<Rightarrow> 'r res" and notify and items and workers where
  pool_start: "pool_reachable worker notify items workers (pool_init workers (length items))"
| pool_next: "pool_reachable worker notify items workers s \<Longrightarrow>
    pool_step worker notify items workers s t \<Longrightarrow> pool_reachable worker notify items workers t"

inductive_cases pool_stepE: "pool_step worker notify items workers s t"

text \<open>The outcomes of a call: those of the branch the code takes.\<close>

definition pool_outcome :: "'r control \<Rightarrow> 'r list res option" where
  "pool_outcome c = (case c of Returned rs \<Rightarrow> Some (Inr rs) | Raised e \<Rightarrow> Some (Inl e) | _ \<Rightarrow> None)"

inductive parallel_map_ordered ::
  "'i list \<Rightarrow> ('i \<Rightarrow> 'r res) \<Rightarrow> int \<Rightarrow> (nat \<Rightarrow> error option) \<Rightarrow> 'r list res \<Rightarrow> bool" where
  no_items: "parallel_map_ordered [] worker maximum notify (Inr [])"
| one_worker: "items \<noteq> [] \<Longrightarrow> pool_size maximum items = 1 \<Longrightarrow>
    parallel_map_ordered items worker maximum notify (map_in_order worker notify 0 items)"
| many_workers: "items \<noteq> [] \<Longrightarrow> pool_size maximum items \<noteq> 1 \<Longrightarrow>
    pool_reachable worker notify items (pool_size maximum items) s \<Longrightarrow>
    pool_outcome (pm_control s) = Some out \<Longrightarrow>
    parallel_map_ordered items worker maximum notify out"

subsection \<open>The futures as a finite map\<close>

declare map_of_eq_Some_iff [simp del]

abbreviation fut :: "'r pool \<Rightarrow> nat \<Rightarrow> 'r future option" where
  "fut s i \<equiv> map_of (pm_futures s) i"

lemma set_future_frame [simp]:
  "pm_next (set_future i v s) = pm_next s"
  "pm_failure_seen (set_future i v s) = pm_failure_seen s"
  "pm_ordered (set_future i v s) = pm_ordered s"
  "pm_notified (set_future i v s) = pm_notified s"
  "pm_control (set_future i v s) = pm_control s"
  "length (pm_futures (set_future i v s)) = length (pm_futures s)"
  "map fst (pm_futures (set_future i v s)) = map fst (pm_futures s)"
  by (auto simp: set_future_def)

lemma set_future_failure_seen [simp]:
  "(set_future i v s)\<lparr>pm_failure_seen := pm_failure_seen s\<rparr> = set_future i v s"
  by (cases s) (simp add: set_future_def)

lemma fut_set_future [simp]:
  "fut (set_future i v s) j = (if j = i \<and> fut s i \<noteq> None then Some v else fut s j)"
proof -
  have "map_of (map (\<lambda>kv. if fst kv = i then (i, v) else kv) al) j =
      (if j = i \<and> map_of al i \<noteq> None then Some v else map_of al j)" for al :: "(nat \<times> 'a future) list"
    by (induction al) auto
  then show ?thesis by (simp add: set_future_def)
qed

lemma pop_future_frame [simp]:
  "pm_next (pop_future i s) = pm_next s"
  "pm_failure_seen (pop_future i s) = pm_failure_seen s"
  "pm_ordered (pop_future i s) = pm_ordered s"
  "pm_notified (pop_future i s) = pm_notified s"
  "pm_control (pop_future i s) = pm_control s"
  by (auto simp: pop_future_def)

lemma fut_pop_future [simp]: "fut (pop_future i s) j = (if j = i then None else fut s j)"
  using map_of_filter_key [of "\<lambda>k. k \<noteq> i" "pm_futures s" j] by (auto simp: pop_future_def)

lemma pop_future_keys: "table_ok (pm_futures s) \<Longrightarrow> table_ok (pm_futures (pop_future i s))"
  by (simp add: pop_future_def)

lemma length_filter_out_key:
  "table_ok al \<Longrightarrow> map_of al i \<noteq> None \<Longrightarrow>
    Suc (length (filter (\<lambda>kv. fst kv \<noteq> i) al)) = length al"
proof (induction al)
  case (Cons kv al)
  show ?case
  proof (cases "fst kv = i")
    case True
    with Cons.prems have "map_of al i = None" by (auto simp: map_of_eq_None_iff)
    then have "filter (\<lambda>kv. fst kv \<noteq> i) al = al"
      by (auto intro!: filter_True simp: map_of_eq_None_iff)
    with True show ?thesis by simp
  next
    case False
    with Cons show ?thesis by (cases kv) auto
  qed
qed simp

lemma length_pop_future:
  "table_ok (pm_futures s) \<Longrightarrow> fut s i = Some v \<Longrightarrow>
    Suc (length (pm_futures (pop_future i s))) = length (pm_futures s)"
  by (simp add: pop_future_def length_filter_out_key)

lemma length_pop_future_le: "length (pm_futures (pop_future i s)) \<le> length (pm_futures s)"
  by (simp add: pop_future_def)

lemma submit_next_frame [simp]:
  "pm_failure_seen (submit_next n s) = pm_failure_seen s"
  "pm_ordered (submit_next n s) = pm_ordered s"
  "pm_notified (submit_next n s) = pm_notified s"
  "pm_control (submit_next n s) = pm_control s"
  by (auto simp: submit_next_def)

text \<open>A submission either does nothing, for one of its two reasons, or queues the next item.\<close>

lemma submit_next_cases:
  obtains (refused) "submit_next n s = s" "pm_failure_seen s \<or> pm_next s = n"
  | (queued) "submit_next n s = s\<lparr>pm_futures := pm_futures s @ [(pm_next s, Queued)], pm_next := Suc (pm_next s)\<rparr>"
      "\<not> pm_failure_seen s" "pm_next s \<noteq> n"
  by (cases "pm_failure_seen s \<or> pm_next s = n") (auto simp: submit_next_def)

subsection \<open>The invariant\<close>

text \<open>\<open>clean\<close>: no error has been met; \<open>refills\<close>: the submissions the main thread still owes.\<close>

fun clean :: "'r control \<Rightarrow> bool" where
  "clean (Starting k) = True"
| "clean Waiting = True"
| "clean (Collecting c first_error k) = (first_error = None)"
| "clean (Refilling k) = True"
| "clean c = False"

fun refills :: "'r control \<Rightarrow> nat" where
  "refills (Starting k) = k"
| "refills (Collecting c first_error k) = k"
| "refills (Refilling k) = k"
| "refills c = 0"

definition pool_shape :: "nat \<Rightarrow> nat \<Rightarrow> 'r pool \<Rightarrow> bool" where
  "pool_shape n workers s \<longleftrightarrow>
     table_ok (pm_futures s) \<and> (\<forall>i. fut s i \<noteq> None \<longrightarrow> i < pm_next s) \<and> pm_next s \<le> n \<and>
     length (pm_ordered s) = n \<and> refills (pm_control s) + length (pm_futures s) \<le> workers"

text \<open>What the futures and the results hold is what the worker returned or raised.\<close>

definition pool_results :: "('i \<Rightarrow> 'r res) \<Rightarrow> 'i list \<Rightarrow> 'r pool \<Rightarrow> bool" where
  "pool_results worker items s \<longleftrightarrow>
     (\<forall>i r. i < length items \<longrightarrow> pm_ordered s ! i = Some r \<longrightarrow>
        i < pm_next s \<and> fut s i = None \<and> worker (items ! i) = Inr r) \<and>
     (\<forall>i x. fut s i = Some (Finished x) \<longrightarrow> worker (items ! i) = x) \<and>
     (\<forall>i e. fut s i = Some (Failing e) \<longrightarrow> worker (items ! i) = Inl e)"

text \<open>
  While no error is met, every submitted item is in flight or has its result, a failure is
  still to be collected, and there is work to wait for unless every item was submitted.
\<close>

fun failed_future :: "'r future option \<Rightarrow> bool" where
  "failed_future (Some (Failing e)) = True"
| "failed_future (Some (Finished (Inl e))) = True"
| "failed_future f = False"

definition pool_complete :: "nat \<Rightarrow> 'r pool \<Rightarrow> bool" where
  "pool_complete n s \<longleftrightarrow> (clean (pm_control s) \<longrightarrow>
     (\<forall>i < pm_next s. fut s i \<noteq> None \<or> pm_ordered s ! i \<noteq> None) \<and>
     (pm_failure_seen s \<longrightarrow> (\<exists>i. failed_future (fut s i))) \<and>
     (pm_next s = n \<or> pm_failure_seen s \<or> 0 < refills (pm_control s) + length (pm_futures s)))"

definition genuine :: "('i \<Rightarrow> 'r res) \<Rightarrow> (nat \<Rightarrow> error option) \<Rightarrow> 'i list \<Rightarrow> error \<Rightarrow> bool" where
  "genuine worker notify items e \<longleftrightarrow>
     (\<exists>i < length items. worker (items ! i) = Inl e) \<or> (\<exists>k < length items. notify k = Some e)"

definition pool_notified :: "(nat \<Rightarrow> error option) \<Rightarrow> 'r pool \<Rightarrow> bool" where
  "pool_notified notify s \<longleftrightarrow>
     pm_notified s = length (filter (\<lambda>x. x \<noteq> None) (pm_ordered s)) \<and>
     (clean (pm_control s) \<longrightarrow> (\<forall>k < pm_notified s. notify k = None))"

fun control_ok :: "('i \<Rightarrow> 'r res) \<Rightarrow> (nat \<Rightarrow> error option) \<Rightarrow> 'i list \<Rightarrow> (nat \<Rightarrow> 'r future option) \<Rightarrow> 'r control \<Rightarrow> bool" where
  "control_ok worker notify items f (Collecting completed first_error k) =
     (distinct completed \<and> (\<forall>i \<in> set completed. \<exists>x. f i = Some (Finished x)) \<and>
      (\<forall>e. first_error = Some e \<longrightarrow> genuine worker notify items e))"
| "control_ok worker notify items f (Cancelling rest e) = genuine worker notify items e"
| "control_ok worker notify items f (Draining e) = genuine worker notify items e"
| "control_ok worker notify items f (Raised e) = genuine worker notify items e"
| "control_ok worker notify items f (Returned rs) =
     (length rs = length items \<and> (\<forall>i < length items. worker (items ! i) = Inr (rs ! i)) \<and>
      (\<forall>k < length items. notify k = None))"
| "control_ok worker notify items f c = True"

text \<open>The futures after a submission.\<close>

lemma fut_submit:
  "\<forall>i. fut s i \<noteq> None \<longrightarrow> i < pm_next s \<Longrightarrow>
    fut (s\<lparr>pm_futures := pm_futures s @ [(pm_next s, Queued)], pm_next := m\<rparr>) i =
      (if i = pm_next s then Some Queued else fut s i)"
  by (auto simp: map_add_def split: option.splits)

lemma shape_submit:
  assumes "pool_shape n w s" and "refills (pm_control s) = Suc (refills c)"
  shows "pool_shape n w ((submit_next n s)\<lparr>pm_control := c\<rparr>)"
proof (cases rule: submit_next_cases [of n s])
  case refused
  with assms show ?thesis by (auto simp: pool_shape_def)
next
  case queued
  have "pm_next s \<notin> fst ` set (pm_futures s)"
    using assms by (auto simp: pool_shape_def simp flip: map_of_eq_None_iff)
  moreover have "fut (submit_next n s) i \<noteq> None \<Longrightarrow> i < Suc (pm_next s)" for i
    using assms fut_submit [of s "Suc (pm_next s)" i] queued(1)
    by (auto simp: pool_shape_def less_Suc_eq split: if_splits)
  ultimately show ?thesis using assms queued by (auto simp: pool_shape_def)
qed

lemma pool_shape_step:
  "pool_step worker notify items w s t \<Longrightarrow> pool_shape (length items) w s \<Longrightarrow> pool_shape (length items) w t"
proof (induction rule: pool_step.induct)
  case (collect s i rest first_error successful result)
  then have "Suc (length (pm_futures (pop_future i s))) = length (pm_futures s)"
    by (auto simp: pool_shape_def dest: length_pop_future)
  with collect show ?case
    by (auto simp: pool_shape_def collect_future_def Let_def pop_future_keys split: sum.splits option.splits if_splits)
next
  case (cancel s i rest e)
  with length_pop_future_le [of i s] show ?case
    by (auto simp: pool_shape_def pop_future_keys)
next
  case (start s k)
  then show ?case by (intro shape_submit) auto
next
  case (refill s k)
  then show ?case by (intro shape_submit) auto
qed (auto simp: pool_shape_def split: if_splits)

lemma results_submit:
  assumes "pool_shape (length items) w s" and "pool_results worker items s"
  shows "pool_results worker items ((submit_next (length items) s)\<lparr>pm_control := c\<rparr>)"
proof (cases rule: submit_next_cases [of "length items" s])
  case refused
  with assms show ?thesis by (simp add: pool_results_def)
next
  case queued
  have "pm_ordered s ! i = Some r \<Longrightarrow> i < length items \<Longrightarrow> i < pm_next s" for i r
    using assms by (auto simp: pool_results_def)
  then show ?thesis using assms queued fut_submit [of s "Suc (pm_next s)"]
    by (fastforce simp: pool_results_def pool_shape_def less_Suc_eq split: if_splits)
qed

lemma pool_results_step:
  "pool_step worker notify items w s t \<Longrightarrow> pool_shape (length items) w s \<Longrightarrow>
    pool_results worker items s \<Longrightarrow> pool_results worker items t"
proof (induction rule: pool_step.induct)
  case (start s k)
  then show ?case by (intro results_submit)
next
  case (refill s k)
  then show ?case by (intro results_submit)
next
  case (collect s i rest first_error successful result)
  then have "i < pm_next s" "worker (items ! i) = result" by (auto simp: pool_shape_def pool_results_def)
  with collect show ?case
    by (auto simp: pool_results_def pool_shape_def collect_future_def Let_def nth_list_update
        split: sum.splits option.splits if_splits)
qed (auto simp: pool_results_def split: if_splits)

lemma complete_submit:
  assumes "pool_shape n w s" and "pool_complete n s" and "refills (pm_control s) = Suc (refills c)"
    and "clean (pm_control s)" and "clean c"
  shows "pool_complete n ((submit_next n s)\<lparr>pm_control := c\<rparr>)"
proof (cases rule: submit_next_cases [of n s])
  case refused
  with assms show ?thesis by (auto simp: pool_complete_def)
next
  case queued
  with assms fut_submit [of s "Suc (pm_next s)"] show ?thesis
    by (auto simp: pool_complete_def pool_shape_def less_Suc_eq)
qed

lemma failed_future_pop:
  "failed_future (fut s j) \<Longrightarrow> \<not> failed_future (fut s i) \<Longrightarrow> failed_future (fut (pop_future i s) j)"
  by auto

lemma complete_move:
  assumes "pool_complete n s" and "fut s i = Some u"
    and "\<not> failed_future (Some u) \<or> failed_future (Some v)"
    and "b \<longrightarrow> pm_failure_seen s \<or> failed_future (Some v)" and "pm_failure_seen s \<longrightarrow> b"
  shows "pool_complete n ((set_future i v s)\<lparr>pm_failure_seen := b\<rparr>)" (is "pool_complete n ?t")
proof (cases "clean (pm_control s)")
  case True
  have "fut ?t j \<noteq> None \<or> pm_ordered ?t ! j \<noteq> None" if "j < pm_next ?t" for j
    using that assms(1,2) True by (cases "j = i") (auto simp: pool_complete_def)
  moreover have "\<exists>j. failed_future (fut ?t j)" if "pm_failure_seen ?t"
  proof (cases "failed_future (Some v)")
    case True
    with assms(2) have "failed_future (fut ?t i)" by simp
    then show ?thesis by blast
  next
    case False
    with that assms True obtain j where "failed_future (fut s j)" by (auto simp: pool_complete_def)
    with False assms(2,3) have "failed_future (fut ?t j)" by (cases "j = i") auto
    then show ?thesis by blast
  qed
  moreover have "pm_next ?t = n \<or> pm_failure_seen ?t \<or>
      0 < refills (pm_control ?t) + length (pm_futures ?t)"
    using assms(1,5) True set_future_frame(6) [of i v s] by (auto simp: pool_complete_def)
  ultimately show ?thesis by (simp add: pool_complete_def del: fut_set_future)
qed (simp add: pool_complete_def)

lemma pool_complete_step:
  "pool_step worker notify items w s t \<Longrightarrow> pool_shape (length items) w s \<Longrightarrow>
    pool_complete (length items) s \<Longrightarrow> pool_complete (length items) t"
proof (induction rule: pool_step.induct)
  case (start s k)
  then show ?case by (intro complete_submit) auto
next
  case (refill s k)
  then show ?case by (intro complete_submit) auto
next
  case (collect s i rest first_error successful result)
  let ?t = "collect_future notify i result rest first_error successful s"
  show ?case
  proof (cases "clean (pm_control ?t)")
    case True
    then obtain r where r: "result = Inr r" "first_error = None" "notify (pm_notified s) = None"
      by (auto simp: collect_future_def Let_def split: sum.splits option.splits)
    have i: "i < length (pm_ordered s)" using collect by (auto simp: pool_shape_def)
    have "fut ?t j \<noteq> None \<or> pm_ordered ?t ! j \<noteq> None" if "j < pm_next ?t" for j
      using that collect r i
      by (cases "j = i") (auto simp: pool_complete_def collect_future_def Let_def)
    moreover have "\<exists>j. failed_future (fut ?t j)" if failed: "pm_failure_seen ?t"
    proof -
      from failed collect r obtain j where "failed_future (fut s j)"
        by (auto simp: pool_complete_def collect_future_def Let_def)
      with collect r have "failed_future (fut (pop_future i s) j)"
        by (intro failed_future_pop) auto
      with r show ?thesis by (auto simp: collect_future_def Let_def simp del: fut_pop_future)
    qed
    ultimately show ?thesis using r by (auto simp: pool_complete_def collect_future_def Let_def)
  qed (simp add: pool_complete_def)
next
  case (take s i)
  then show ?case using complete_move [of "length items" s i Queued Running "pm_failure_seen s"] by simp
next
  case (succeed s i r)
  then show ?case
    using complete_move [of "length items" s i Running "Finished (Inr r)" "pm_failure_seen s"] by simp
next
  case (fail s i e)
  then show ?case using complete_move [of "length items" s i Running "Failing e" True] by simp
next
  case (record_failure s i e)
  then show ?case
    using complete_move [of "length items" s i "Failing e" "Finished (Inl e)" "pm_failure_seen s"] by simp
qed (auto simp: pool_complete_def split: if_splits)


lemma in_flight_no_result:
  assumes "fut s i = Some x" and "pool_shape (length items) w s" and "pool_results worker items s"
  shows "i < length items" and "pm_ordered s ! i = None"
proof -
  show i: "i < length items" using assms(1,2) by (auto simp: pool_shape_def)
  show "pm_ordered s ! i = None"
    using assms i by (cases "pm_ordered s ! i") (auto simp: pool_results_def)
qed

lemma pool_notified_step:
  "pool_step worker notify items w s t \<Longrightarrow> pool_shape (length items) w s \<Longrightarrow>
    pool_results worker items s \<Longrightarrow> pool_notified notify s \<Longrightarrow> pool_notified notify t"
proof (induction rule: pool_step.induct)
  case (collect s i rest first_error successful result)
  then have i: "i < length (pm_ordered s)" "pm_ordered s ! i = None"
    using in_flight_no_result [OF collect.hyps(2) collect.prems(1,2)] by (auto simp: pool_shape_def)
  have "length (filter (\<lambda>x. x \<noteq> None) ((pm_ordered s)[i := Some r])) =
      Suc (length (filter (\<lambda>x. x \<noteq> None) (pm_ordered s)))" for r
    using i by (subst (2) id_take_nth_drop [OF i(1)]) (simp add: upd_conv_take_nth_drop)
  with collect show ?case
    by (auto simp: pool_notified_def collect_future_def Let_def less_Suc_eq
        split: sum.splits option.splits)
qed (auto simp: pool_notified_def split: if_splits)

lemma genuine_worker:
  "fut s i = Some (Finished (Inl e)) \<Longrightarrow> pool_shape (length items) w s \<Longrightarrow>
    pool_results worker items s \<Longrightarrow> genuine worker notify items e"
  unfolding genuine_def pool_shape_def pool_results_def
  by (metis less_le_trans option.distinct(1))

lemma genuine_notify:
  assumes "notify (pm_notified s) = Some e" "pool_notified notify s" "pool_shape (length items) w s"
    and "fut s i = Some x" "pool_results worker items s"
  shows "genuine worker notify items e"
proof -
  from assms have i: "i < length (pm_ordered s)" "pm_ordered s ! i = None"
    using in_flight_no_result [OF assms(4,3,5)] by (auto simp: pool_shape_def)
  then have "None \<in> set (pm_ordered s)" by (metis nth_mem)
  then have "length (filter (\<lambda>x. x \<noteq> None) (pm_ordered s)) < length (pm_ordered s)"
    using length_filter_less [of None "pm_ordered s" "\<lambda>x. x \<noteq> None"] by blast
  then have "pm_notified s < length items" using assms(2,3) by (simp add: pool_notified_def pool_shape_def)
  with assms(1) show ?thesis by (auto simp: genuine_def)
qed


definition pool_ok :: "('i \<Rightarrow> 'r res) \<Rightarrow> (nat \<Rightarrow> error option) \<Rightarrow> 'i list \<Rightarrow> nat \<Rightarrow> 'r pool \<Rightarrow> bool" where
  "pool_ok worker notify items w s \<longleftrightarrow>
     pool_shape (length items) w s \<and> pool_results worker items s \<and> pool_complete (length items) s \<and>
     pool_notified notify s \<and> control_ok worker notify items (fut s) (pm_control s)"

text \<open>When nothing is in flight and no error was met, every result is there.\<close>

lemma pool_finished:
  assumes ok: "pool_ok worker notify items w s" and "pm_control s = Waiting" and "pm_futures s = []"
  shows "control_ok worker notify items f (Returned (map the (pm_ordered s)))"
proof -
  from assms have next_n: "pm_next s = length items"
    by (auto simp: pool_ok_def pool_complete_def)
  have all: "\<exists>r. pm_ordered s ! i = Some r" if "i < length items" for i
    using that assms next_n by (auto simp: pool_ok_def pool_complete_def)
  have len: "length (pm_ordered s) = length items" using ok by (auto simp: pool_ok_def pool_shape_def)
  have "filter (\<lambda>x. x \<noteq> None) (pm_ordered s) = pm_ordered s"
    using all len by (auto intro!: filter_True simp: in_set_conv_nth)
  then have "pm_notified s = length items"
    using ok len by (simp add: pool_ok_def pool_notified_def)
  then have "\<forall>k < length items. notify k = None"
    using assms by (simp add: pool_ok_def pool_notified_def)
  moreover have "worker (items ! i) = Inr (the (pm_ordered s ! i))" if "i < length items" for i
    using that all [OF that] ok by (auto simp: pool_ok_def pool_results_def)
  ultimately show ?thesis using len by simp
qed

lemma control_step:
  "pool_step worker notify items w s t \<Longrightarrow> pool_ok worker notify items w s \<Longrightarrow>
    control_ok worker notify items (fut t) (pm_control t)"
proof (induction rule: pool_step.induct)
  case (collect s i rest first_error successful result)
  have "genuine worker notify items e" if "result = Inl e" for e
    using that collect genuine_worker [of s i e] by (auto simp: pool_ok_def)
  moreover have "genuine worker notify items e" if "notify (pm_notified s) = Some e" for e
    using that collect genuine_notify [of notify s e items w i] by (auto simp: pool_ok_def)
  ultimately show ?case using collect
    by (auto simp: pool_ok_def collect_future_def Let_def split: sum.splits option.splits)
next
  case (finish s)
  then show ?case using pool_finished [of worker notify items w s "fut s"] by simp
next
  case (take s i)
  then show ?case by (cases "pm_control s") (fastforce simp: pool_ok_def)+
next
  case (succeed s i r)
  then show ?case by (cases "pm_control s") (fastforce simp: pool_ok_def)+
next
  case (fail s i e)
  then show ?case by (cases "pm_control s") (fastforce simp: pool_ok_def)+
next
  case (record_failure s i e)
  then show ?case by (cases "pm_control s") (fastforce simp: pool_ok_def)+
qed (auto simp: pool_ok_def)

lemma pool_ok_step:
  "pool_step worker notify items w s t \<Longrightarrow> pool_ok worker notify items w s \<Longrightarrow>
    pool_ok worker notify items w t"
  using control_step [of worker notify items w s t]
  by (auto simp: pool_ok_def intro: pool_shape_step pool_results_step pool_complete_step pool_notified_step)

lemma pool_ok_init:
  "0 < w \<Longrightarrow> pool_ok worker notify items w (pool_init w (length items))"
  by (auto simp: pool_ok_def pool_init_def pool_shape_def pool_results_def pool_complete_def
      pool_notified_def)

lemma pool_reachable_ok:
  "pool_reachable worker notify items w s \<Longrightarrow> 0 < w \<Longrightarrow> pool_ok worker notify items w s"
  by (induction rule: pool_reachable.induct) (auto intro: pool_ok_init pool_ok_step)

subsection \<open>Every run ends\<close>

fun future_weight :: "'r future \<Rightarrow> nat" where
  "future_weight Queued = 11"
| "future_weight Running = 10"
| "future_weight (Failing e) = 9"
| "future_weight (Finished x) = 8"

fun control_weight :: "nat \<Rightarrow> 'r control \<Rightarrow> nat" where
  "control_weight w (Starting k) = w + 8 + k"
| "control_weight w Waiting = w + 7"
| "control_weight w (Collecting (i # rest) first_error k) = w + 6 + 2 * k"
| "control_weight w (Collecting [] first_error k) = w + 11 + 2 * k"
| "control_weight w (Refilling k) = w + 8 + k"
| "control_weight w (Cancelling rest e) = 2 + length rest"
| "control_weight w (Draining e) = 1"
| "control_weight w c = 0"

definition futures_weight :: "'r pool \<Rightarrow> nat" where
  "futures_weight s = sum_list (map (\<lambda>kv. future_weight (snd kv)) (pm_futures s))"

definition pool_weight :: "nat \<Rightarrow> nat \<Rightarrow> 'r pool \<Rightarrow> nat" where
  "pool_weight n w s =
     12 * (n - pm_next s) + futures_weight s + control_weight w (pm_control s)"

lemma futures_weight_set:
  assumes "table_ok (pm_futures s)" and "fut s i = Some u"
  shows "futures_weight (set_future i v s) + future_weight u = futures_weight s + future_weight v"
proof -
  have "sum_list (map (\<lambda>kv. future_weight (snd kv)) (map (\<lambda>kv. if fst kv = i then (i, v) else kv) al)) +
      future_weight u = sum_list (map (\<lambda>kv. future_weight (snd kv)) al) + future_weight v"
    if "table_ok al" "map_of al i = Some u" for al :: "(nat \<times> 'a future) list"
    using that
  proof (induction al)
    case (Cons kv al)
    show ?case
    proof (cases "fst kv = i")
      case True
      with Cons.prems have fresh: "\<And>p. p \<in> set al \<Longrightarrow> fst p \<noteq> i" by (auto simp: image_iff)
      then have "map (\<lambda>kv. if fst kv = i then (i, v) else kv) al = al"
        by (auto intro!: map_idI)
      with True Cons.prems show ?thesis by (cases kv) simp
    next
      case False
      with Cons show ?thesis by (cases kv) (simp add: algebra_simps)
    qed
  qed simp
  with assms show ?thesis by (simp add: futures_weight_def set_future_def)
qed

lemma futures_weight_pop:
  assumes "table_ok (pm_futures s)" and "fut s i = Some u"
  shows "futures_weight (pop_future i s) + future_weight u = futures_weight s"
proof -
  have "sum_list (map (\<lambda>kv. future_weight (snd kv)) (filter (\<lambda>kv. fst kv \<noteq> i) al)) +
      future_weight u = sum_list (map (\<lambda>kv. future_weight (snd kv)) al)"
    if "table_ok al" "map_of al i = Some u" for al :: "(nat \<times> 'a future) list"
    using that
  proof (induction al)
    case (Cons kv al)
    show ?case
    proof (cases "fst kv = i")
      case True
      with Cons.prems have fresh: "\<And>p. p \<in> set al \<Longrightarrow> fst p \<noteq> i" by (auto simp: image_iff)
      then have "filter (\<lambda>kv. fst kv \<noteq> i) al = al" by (auto intro!: filter_True)
      with True Cons.prems show ?thesis by (cases kv) simp
    next
      case False
      with Cons show ?thesis by (cases kv) (simp add: algebra_simps)
    qed
  qed simp
  with assms show ?thesis by (simp add: futures_weight_def pop_future_def)
qed

lemma futures_weight_cong [simp]:
  "futures_weight (s\<lparr>pm_control := c\<rparr>) = futures_weight s"
  "futures_weight (s\<lparr>pm_failure_seen := b\<rparr>) = futures_weight s"
  "futures_weight (s\<lparr>pm_ordered := xs, pm_notified := k\<rparr>) = futures_weight s"
  "futures_weight (s\<lparr>pm_ordered := xs, pm_notified := k, pm_control := c\<rparr>) = futures_weight s"
  by (simp_all add: futures_weight_def)

lemma submit_weight:
  "pool_shape n w s \<Longrightarrow>
    12 * (n - pm_next (submit_next n s)) + futures_weight (submit_next n s) \<le>
    12 * (n - pm_next s) + futures_weight s"
  by (cases rule: submit_next_cases [of n s]) (auto simp: futures_weight_def pool_shape_def)

lemma control_weight_collect:
  "control_weight w (Collecting rest e k) \<le> w + 11 + 2 * k"
  by (cases rest) auto

lemma pool_weight_step:
  "pool_step worker notify items w s t \<Longrightarrow> pool_shape (length items) w s \<Longrightarrow>
    pool_weight (length items) w t < pool_weight (length items) w s"
proof (induction rule: pool_step.induct)
  case (take s i)
  then show ?case using futures_weight_set [of s i Queued Running]
    by (simp add: pool_weight_def pool_shape_def)
next
  case (succeed s i r)
  then show ?case using futures_weight_set [of s i Running "Finished (Inr r)"]
    by (simp add: pool_weight_def pool_shape_def)
next
  case (fail s i e)
  then show ?case using futures_weight_set [of s i Running "Failing e"]
    by (simp add: pool_weight_def pool_shape_def)
next
  case (record_failure s i e)
  then show ?case using futures_weight_set [of s i "Failing e" "Finished (Inl e)"]
    by (simp add: pool_weight_def pool_shape_def)
next
  case (start s k)
  then show ?case using submit_weight [of "length items" w s] by (simp add: pool_weight_def)
next
  case (refill s k)
  then show ?case using submit_weight [of "length items" w s] by (simp add: pool_weight_def)
next
  case (woken s completed)
  then show ?case by (cases completed) (auto simp: pool_weight_def)
next
  case (collect s i rest first_error successful result)
  have "\<exists>e' k'. pm_control (collect_future notify i result rest first_error successful s) =
      Collecting rest e' k' \<and> k' \<le> Suc successful"
    by (auto simp: collect_future_def Let_def split: sum.splits option.splits)
  then obtain e' k' where t: "pm_control (collect_future notify i result rest first_error successful s) =
      Collecting rest e' k'" and k': "k' \<le> Suc successful"
    by blast
  have "futures_weight (collect_future notify i result rest first_error successful s) =
      futures_weight (pop_future i s)"
    "pm_next (collect_future notify i result rest first_error successful s) = pm_next s"
    by (auto simp: collect_future_def Let_def split: sum.splits option.splits)
  moreover have "control_weight w (pm_control (collect_future notify i result rest first_error successful s))
      \<le> w + 13 + 2 * successful"
    unfolding t by (rule order.trans [OF control_weight_collect]) (use k' in simp)
  ultimately show ?case using collect futures_weight_pop [of s i "Finished result"]
    by (simp add: pool_weight_def pool_shape_def)
next
  case (cancel s i rest e)
  then show ?case using futures_weight_pop [of s i Queued]
    by (auto simp: pool_weight_def pool_shape_def)
qed (auto simp: pool_weight_def pool_shape_def)


lemma busy_room:
  assumes "fut s i = Some Queued" and "length (pm_futures s) \<le> w"
  shows "busy_threads s < w"
proof -
  have "(i, Queued) \<in> set (pm_futures s)" using assms(1) by (simp add: map_of_SomeD)
  then have "busy_threads s < length (pm_futures s)"
    unfolding busy_threads_def by (rule length_filter_less) simp
  with assms(2) show ?thesis by simp
qed

lemma busy_threads_le: "busy_threads s \<le> length (pm_futures s)"
  by (simp add: busy_threads_def)

text \<open>A future that is not settled moves.\<close>

lemma unsettled_moves:
  assumes "fut s i = Some v" and "\<And>x. v \<noteq> Finished x" and "length (pm_futures s) \<le> w"
  shows "\<exists>t. pool_step worker notify items w s t"
proof (cases v)
  case Queued
  with assms busy_room show ?thesis by (blast intro: take)
next
  case Running
  with assms show ?thesis
    by (cases "worker (items ! i)") (blast intro: succeed fail)+
next
  case (Failing e)
  with assms show ?thesis by (blast intro: record_failure)
next
  case (Finished x)
  with assms(2) show ?thesis by blast
qed

lemma waiting_moves:
  assumes "pm_control s = Waiting" and "pool_shape n w s"
  shows "\<exists>t. pool_step worker notify items w s t"
proof (cases "pm_futures s")
  case Nil
  with assms show ?thesis by (blast intro: finish)
next
  case (Cons kv al)
  then have "fut s (fst kv) = Some (snd kv)" by (cases kv) simp
  then obtain i v where i: "fut s i = Some v" by blast
  show ?thesis
  proof (cases "\<exists>x. v = Finished x")
    case True
    with i assms show ?thesis using woken [of s "[i]"] by force
  next
    case False
    with i assms show ?thesis by (intro unsettled_moves [of s i v]) (auto simp: pool_shape_def)
  qed
qed

lemma draining_moves:
  assumes "pm_control s = Draining e" and "pool_shape n w s"
  shows "\<exists>t. pool_step worker notify items w s t"
proof (cases "all_settled s")
  case True
  with assms show ?thesis by (blast intro: drained)
next
  case False
  then obtain i v where "(i, v) \<in> set (pm_futures s)" and v: "\<And>x. v \<noteq> Finished x"
    by (force simp: all_settled_def)
  then have "fut s i = Some v" using assms(2) by (simp add: pool_shape_def map_of_eq_Some_iff)
  with v assms show ?thesis by (intro unsettled_moves [of s i v]) (auto simp: pool_shape_def)
qed

lemma pool_progress:
  assumes ok: "pool_ok worker notify items w s" and open_run: "pool_outcome (pm_control s) = None"
  shows "\<exists>t. pool_step worker notify items w s t"
proof (cases "pm_control s")
  case (Starting k)
  then show ?thesis by (cases k) (blast intro: start started)+
next
  case Waiting
  with ok show ?thesis by (auto simp: pool_ok_def intro: waiting_moves)
next
  case (Collecting completed first_error k)
  then show ?thesis
  proof (cases completed)
    case Nil
    with Collecting show ?thesis by (cases first_error) (blast intro: collected raise_first)+
  next
    case (Cons i rest)
    with Collecting ok obtain x where "fut s i = Some (Finished x)" by (auto simp: pool_ok_def)
    with Collecting Cons show ?thesis by (blast intro: collect)
  qed
next
  case (Refilling k)
  then show ?thesis by (cases k) (blast intro: refill refilled)+
next
  case (Cancelling rest e)
  then show ?thesis by (cases rest) (blast intro: cancel cancelled)+
next
  case (Draining e)
  with ok show ?thesis by (auto simp: pool_ok_def intro: draining_moves)
qed (use open_run in \<open>auto simp: pool_outcome_def\<close>)


text \<open>The weight bounds the length of a run, and a run that stops has an outcome.\<close>

lemma pool_no_infinite_run:
  assumes "0 < w" and init: "run 0 = pool_init w (length items)"
    and steps: "\<And>k. pool_step worker notify items w (run k) (run (Suc k))"
  shows False
proof -
  have reach: "pool_reachable worker notify items w (run k)" for k
    by (induction k) (auto simp: init intro: pool_start pool_next steps)
  have "pool_weight (length items) w (run (Suc k)) < pool_weight (length items) w (run k)" for k
    using pool_weight_step [OF steps] pool_reachable_ok [OF reach \<open>0 < w\<close>] by (simp add: pool_ok_def)
  then have "pool_weight (length items) w (run k) + k \<le> pool_weight (length items) w (run 0)" for k
  proof (induction k)
    case (Suc k)
    from Suc.prems [of k] Suc.IH [OF Suc.prems] show ?case by simp
  qed simp
  from this [of "Suc (pool_weight (length items) w (run 0))"] show False by simp
qed

lemma pool_has_outcome:
  assumes "pool_reachable worker notify items w s" and "0 < w"
  shows "\<exists>t out. pool_reachable worker notify items w t \<and> pool_outcome (pm_control t) = Some out"
  using assms(1)
proof (induction "pool_weight (length items) w s" arbitrary: s rule: less_induct)
  case less
  note ok = pool_reachable_ok [OF less.prems assms(2)]
  show ?case
  proof (cases "pool_outcome (pm_control s)")
    case None
    with pool_progress [OF ok] obtain t where t: "pool_step worker notify items w s t" by blast
    with ok have "pool_weight (length items) w t < pool_weight (length items) w s"
      by (intro pool_weight_step) (simp_all add: pool_ok_def)
    from less.hyps [OF this pool_next [OF less.prems t]] show ?thesis .
  qed (use less.prems in blast)
qed

subsection \<open>The parallel map and the loop\<close>

lemma map_in_order_returns:
  "map_in_order worker notify k items = Inr rs \<longleftrightarrow>
     length rs = length items \<and> (\<forall>i < length items. worker (items ! i) = Inr (rs ! i)) \<and>
     (\<forall>j < length items. notify (k + j) = None)"
proof (induction items arbitrary: k rs)
  case (Cons x items)
  have split: "(\<forall>i < Suc n. Q i) \<longleftrightarrow> Q 0 \<and> (\<forall>i < n. Q (Suc i))" for n and Q :: "nat \<Rightarrow> bool"
    by (auto simp: less_Suc_eq_0_disj)
  show ?case
    by (cases rs) (auto simp: res_simps Cons.IH split split: option.splits)
qed auto

lemma genuine_loop_raises:
  assumes "genuine worker notify items e"
  shows "\<exists>e'. map_in_order worker notify 0 items = Inl e'"
proof (cases "map_in_order worker notify 0 items")
  case (Inr rs)
  with assms show ?thesis unfolding map_in_order_returns genuine_def by auto
qed blast

lemma loop_raises_genuine:
  "map_in_order worker notify k items = Inl e \<Longrightarrow>
    (\<exists>i < length items. worker (items ! i) = Inl e) \<or> (\<exists>j < length items. notify (k + j) = Some e)"
proof (induction items arbitrary: k)
  case (Cons x items)
  show ?case
  proof (cases "worker x")
    case (Inl e')
    with Cons.prems show ?thesis by auto
  next
    case (Inr r)
    show ?thesis
    proof (cases "notify k")
      case None
      with Cons.prems Inr have "map_in_order worker notify (Suc k) items = Inl e"
        by (auto simp: res_simps)
      from Cons.IH [OF this] show ?thesis by (metis Suc_less_eq add_Suc_shift length_Cons nth_Cons_Suc)
    next
      case (Some e')
      with Cons.prems Inr show ?thesis by (intro disjI2 exI [of _ 0]) auto
    qed
  qed
qed simp

lemma pool_size_pos: "0 < pool_size maximum items"
  by (simp add: pool_size_def)

lemma parallel_outcome_loop:
  "parallel_map_ordered items worker maximum notify out \<Longrightarrow>
    (case out of
       Inr rs \<Rightarrow> map_in_order worker notify 0 items = Inr rs
     | Inl e \<Rightarrow> genuine worker notify items e \<and> (\<exists>e'. map_in_order worker notify 0 items = Inl e'))"
proof (induction rule: parallel_map_ordered.induct)
  case (one_worker items maximum worker notify)
  then show ?case
    by (auto split: sum.splits simp: genuine_def dest: loop_raises_genuine)
next
  case (many_workers items maximum worker notify s out)
  have "pool_ok worker notify items (pool_size maximum items) s"
    using many_workers.hyps(3) pool_size_pos by (rule pool_reachable_ok)
  then have "control_ok worker notify items (fut s) (pm_control s)" by (simp add: pool_ok_def)
  with many_workers.hyps(4) show ?case
    by (cases "pm_control s")
      (auto simp: pool_outcome_def map_in_order_returns intro: genuine_loop_raises)
qed simp

lemma parallel_has_outcome: "\<exists>out. parallel_map_ordered items worker maximum notify out"
proof (cases "items = [] \<or> pool_size maximum items = 1")
  case True
  then show ?thesis by (cases "items = []") (blast intro: no_items one_worker)+
next
  case False
  with pool_has_outcome [OF pool_start pool_size_pos, of worker notify items maximum]
  show ?thesis by (blast intro: many_workers)
qed

text \<open>
  C4 \<open>parallel_map_ordered\<close> agrees with the sequential loop, whatever the threads do.  Every
  call has an outcome.  If the loop over the items returns, every call returns the same list,
  in the order of the items; if the loop raises, every call raises, an exception some item or
  some notification really raised.  That need not be the exception of the loop: a later item
  may fail first.
\<close>

theorem parallel_map_is_the_loop:
  "(\<exists>out. parallel_map_ordered items worker maximum notify out) \<and>
   (\<forall>out rs. map_in_order worker notify 0 items = Inr rs \<longrightarrow>
      (parallel_map_ordered items worker maximum notify out \<longleftrightarrow> out = Inr rs)) \<and>
   (\<forall>out e'. map_in_order worker notify 0 items = Inl e' \<longrightarrow>
      parallel_map_ordered items worker maximum notify out \<longrightarrow>
      (\<exists>e. out = Inl e \<and>
         ((\<exists>i < length items. worker (items ! i) = Inl e) \<or>
          (\<exists>k < length items. notify k = Some e))))"
proof (intro conjI allI impI)
  show "\<exists>out. parallel_map_ordered items worker maximum notify out" by (rule parallel_has_outcome)
next
  fix out rs assume loop: "map_in_order worker notify 0 items = Inr rs"
  have "out' = Inr rs" if "parallel_map_ordered items worker maximum notify out'" for out'
    using parallel_outcome_loop [OF that] loop by (auto split: sum.splits)
  with parallel_has_outcome [of items worker maximum notify]
  show "parallel_map_ordered items worker maximum notify out \<longleftrightarrow> out = Inr rs" by blast
next
  fix out e' assume "map_in_order worker notify 0 items = Inl e'"
    and "parallel_map_ordered items worker maximum notify out"
  then show "\<exists>e. out = Inl e \<and> ((\<exists>i < length items. worker (items ! i) = Inl e) \<or>
      (\<exists>k < length items. notify k = Some e))"
    using parallel_outcome_loop [of items worker maximum notify out]
    by (auto simp: genuine_def split: sum.splits)
qed

text \<open>
  C0: the pool stays within its bound and every run of it ends.  With \<open>w\<close> threads, at most
  \<open>w\<close> futures, of distinct items, are in flight and no more threads are busy; a
  state without outcome can move, and there is no infinite run.
\<close>

theorem pool_bounded_and_ends:
  assumes "0 < w"
  shows "(\<forall>s. pool_reachable worker notify items w s \<longrightarrow>
      busy_threads s \<le> length (pm_futures s) \<and> length (pm_futures s) \<le> w \<and>
      distinct (map fst (pm_futures s)) \<and>
      (pool_outcome (pm_control s) = None \<longrightarrow> (\<exists>t. pool_step worker notify items w s t))) \<and>
    \<not> (\<exists>run. run 0 = pool_init w (length items) \<and>
        (\<forall>k. pool_step worker notify items w (run k) (run (Suc k))))"
proof (intro conjI allI impI)
  fix s assume "pool_reachable worker notify items w s"
  then have ok: "pool_ok worker notify items w s" using assms by (rule pool_reachable_ok)
  then show "length (pm_futures s) \<le> w" "distinct (map fst (pm_futures s))"
    by (auto simp: pool_ok_def pool_shape_def)
  show "busy_threads s \<le> length (pm_futures s)" by (rule busy_threads_le)
  show "\<exists>t. pool_step worker notify items w s t" if "pool_outcome (pm_control s) = None"
    using ok that by (rule pool_progress)
next
  show "\<not> (\<exists>run. run 0 = pool_init w (length items) \<and>
      (\<forall>k. pool_step worker notify items w (run k) (run (Suc k))))"
    using pool_no_infinite_run [OF assms] by blast
qed

text \<open>Two workers over three items, the second of which fails.\<close>

definition example_worker :: "nat \<Rightarrow> nat res" where
  "example_worker n = (if n = 5 then Inl (ValueError ''five'') else Inr (n + 1))"

theorem parallel_map_is_the_loop_witness:
  "(\<forall>out. parallel_map_ordered [3, 4, 6] example_worker 2 (\<lambda>k. None) out \<longleftrightarrow> out = Inr [4, 5, 7]) \<and>
   (\<forall>out. parallel_map_ordered [3, 5, 6] example_worker 2 (\<lambda>k. None) out \<longleftrightarrow>
      out = Inl (ValueError ''five''))"
proof (intro conjI allI)
  fix out
  have "map_in_order example_worker (\<lambda>k. None) 0 [3, 4, 6] = Inr [4, 5, 7]"
    by (simp add: example_worker_def)
  then show "parallel_map_ordered [3, 4, 6] example_worker 2 (\<lambda>k. None) out \<longleftrightarrow> out = Inr [4, 5, 7]"
    using parallel_map_is_the_loop [of "[3, 4, 6]" example_worker 2 "\<lambda>k. None"] by blast
next
  have loop: "map_in_order example_worker (\<lambda>k. None) 0 [3, 5, 6] = Inl (ValueError ''five'')"
    by (simp add: example_worker_def)
  have only: "out = Inl (ValueError ''five'')"
    if "parallel_map_ordered [3, 5, 6] example_worker 2 (\<lambda>k. None) out" for out
  proof -
    from parallel_map_is_the_loop [of "[3, 5, 6]" example_worker 2 "\<lambda>k. None"] that loop
    have "\<exists>e. out = Inl e \<and> (\<exists>i < length [3, 5, 6 :: nat]. example_worker ([3, 5, 6] ! i) = Inl e)"
      by fastforce
    then show ?thesis by (auto simp: example_worker_def split: if_splits)
  qed
  fix out
  obtain out' where "parallel_map_ordered [3, 5, 6] example_worker 2 (\<lambda>k. None) out'"
    using parallel_map_is_the_loop [of "[3, 5, 6]" example_worker 2 "\<lambda>k. None"] by blast
  with only show "parallel_map_ordered [3, 5, 6] example_worker 2 (\<lambda>k. None) out \<longleftrightarrow>
      out = Inl (ValueError ''five'')" by blast
qed

theorem pool_bounded_and_ends_witness:
  "(0 :: nat) < 2 \<and>
   \<not> (\<exists>run. run 0 = pool_init 2 (length [3, 5, 6 :: nat]) \<and>
        (\<forall>k. pool_step example_worker (\<lambda>k. None) [3, 5, 6] 2 (run k) (run (Suc k))))"
  using pool_bounded_and_ends [of 2 example_worker "\<lambda>k. None" "[3, 5, 6]"] by simp

end
