(* ===== verification/LibraryTables.thy ===== *)
theory LibraryTables
  imports ImportRecovery
begin

section \<open>The tables of the published library\<close>

text \<open>
  What an import publishes: raw assets, source documents, their Document IR blocks, the
  Evidence and the records of \<open>openkb/importing/deduplication.py\<close> that let later documents
  share it.  The tables are those the migrations of \<open>openkb/workspace\<close> create; an insert
  that violates a primary key, a \<open>UNIQUE\<close>, a \<open>CHECK\<close> or a foreign key (the connection
  enforces them) raises \<open>IntegrityError\<close>.  SHA-256 is the argument \<open>sha\<close>; the triggers that
  count corpus revisions and register version sources write tables of other components.
\<close>

subsection \<open>Fingerprints\<close>

definition normalized_text :: "string \<Rightarrow> string" where
  "normalized_text v = py_strip (py_join [CHR 0x0A] (map py_rstrip (split_lines (replace_crlf v))))"

definition fragment_members :: "string \<Rightarrow> string list \<Rightarrow> string \<Rightarrow> dict" where
  "fragment_members kind path txt =
     [(''kind'', JStr kind), (''heading_path'', JList (map (JStr \<circ> normalized_text) path)),
      (''text'', JStr (normalized_text txt))]"

definition normalized_body_sha256 :: "(string \<Rightarrow> string) \<Rightarrow> ir_block list \<Rightarrow> string" where
  "normalized_body_sha256 sha blocks =
     sha (canonical_json (JObj [(''schema'', JStr ''document-body-v1''),
       (''blocks'', JList (map (\<lambda>b. JObj (fragment_members (block_kind b) (heading_path b) (block_text b))) blocks))]))"

definition fragment_sha256 :: "(string \<Rightarrow> string) \<Rightarrow> string \<Rightarrow> string list \<Rightarrow> string \<Rightarrow> string" where
  "fragment_sha256 sha kind path txt =
     sha (canonical_json (JObj ((''schema'', JStr ''evidence-v1'') # fragment_members kind path txt)))"

definition evidence_sha256 :: "(string \<Rightarrow> string) \<Rightarrow> ir_block \<Rightarrow> string" where
  "evidence_sha256 sha b = fragment_sha256 sha (block_kind b) (heading_path b) (block_text b)"

text \<open>An empty locator is replaced too: \<open>block.locator or ..\<close>.\<close>

definition stored_locator :: "ir_block \<Rightarrow> string" where
  "stored_locator b =
     (let lines = [(''line_start'', JInt (line_start b)), (''line_end'', JInt (line_end b))] in
      json_text (JObj (case block_locator b of None \<Rightarrow> lines | Some d \<Rightarrow> if d = [] then lines else d)))"

definition stored_heading_path :: "string list \<Rightarrow> string" where
  "stored_heading_path path = json_text (JList (map JStr path))"

subsection \<open>Rows\<close>

record asset_row =
  ra_size :: int
  ra_media_type :: string
  ra_path :: string
  ra_name :: string
  ra_created :: string

datatype availability = Available | Doc_Failed

record document_row =
  sd_asset :: string
  sd_name :: string
  sd_format :: string
  sd_availability :: availability
  sd_created :: string
  sd_available_at :: "string option"

record fingerprint_row =
  df_body :: string
  df_canonical :: "string option"
  df_created :: string

record block_row =
  bk_document :: string
  bk_ordinal :: int
  bk_kind :: string
  bk_text :: string
  bk_heading_path :: string
  bk_locator :: string

record evidence_row =
  ev_document :: string
  ev_block :: string
  ev_ordinal :: int
  ev_text :: string
  ev_locator :: string

record image_row =
  im_document :: string
  im_ordinal :: int
  im_sha256 :: string
  im_size :: int
  im_media_type :: string
  im_path :: string
  im_name :: string
  im_alt :: "string option"
  im_locator :: string
  im_created :: string

text \<open>
  \<open>evidence_fingerprints\<close> maps a fingerprint to its canonical Evidence, \<open>evidence_occurrences\<close>
  a block of a document to the Evidence that stands for it and its position.
\<close>

record library_db =
  ld_import :: import_db
  ld_assets :: "(string \<times> asset_row) list"
  ld_documents :: "(string \<times> document_row) list"
  ld_fingerprints :: "(string \<times> fingerprint_row) list"
  ld_blocks :: "(string \<times> block_row) list"
  ld_evidence :: "(string \<times> evidence_row) list"
  ld_fts :: "(string \<times> string \<times> string) list"
  ld_evidence_sha :: "(string \<times> string \<times> string) list"
  ld_occurrences :: "((string \<times> string) \<times> string \<times> int) list"
  ld_images :: "(string \<times> image_row) list"

definition library_empty :: library_db where
  "library_empty = \<lparr>ld_import = import_db_empty, ld_assets = [], ld_documents = [], ld_fingerprints = [],
     ld_blocks = [], ld_evidence = [], ld_fts = [], ld_evidence_sha = [], ld_occurrences = [], ld_images = []\<rparr>"

subsection \<open>Publications\<close>

text \<open>The arguments of a publication that describe its source.\<close>

record publication =
  pb_document :: string
  pb_name :: string
  pb_sha256 :: string
  pb_path :: string
  pb_size :: int
  pb_format :: string
  pb_media_type :: string

definition insert_raw_and_source_document :: "publication \<Rightarrow> string \<Rightarrow> library_db \<Rightarrow> library_db res" where
  "insert_raw_and_source_document pb now db =
     res_bind
       (if pb_sha256 pb \<in> fst ` set (ld_assets db) then Inr (ld_assets db)
        else insert_row (0 \<le> pb_size pb) (pb_sha256 pb)
          \<lparr>ra_size = pb_size pb, ra_media_type = pb_media_type pb, ra_path = pb_path pb,
           ra_name = pb_name pb, ra_created = now\<rparr> (ld_assets db)) (\<lambda>assets.
     res_bind
       (insert_row (pb_sha256 pb \<notin> (sd_asset \<circ> snd) ` set (ld_documents db)) (pb_document pb)
          \<lparr>sd_asset = pb_sha256 pb, sd_name = pb_name pb, sd_format = pb_format pb,
           sd_availability = Available, sd_created = now, sd_available_at = Some now\<rparr> (ld_documents db))
       (\<lambda>documents. Inr (db\<lparr>ld_assets := assets, ld_documents := documents\<rparr>)))"

definition insert_fingerprint ::
  "string \<Rightarrow> string \<Rightarrow> string option \<Rightarrow> string \<Rightarrow> library_db \<Rightarrow> library_db res" where
  "insert_fingerprint document body canonical now db =
     res_bind
       (insert_row (document \<in> fst ` set (ld_documents db) \<and>
            (case canonical of None \<Rightarrow> True | Some c \<Rightarrow> c \<in> fst ` set (ld_documents db))) document
          \<lparr>df_body = body, df_canonical = canonical, df_created = now\<rparr> (ld_fingerprints db))
       (\<lambda>t. Inr (db\<lparr>ld_fingerprints := t\<rparr>))"

definition insert_block :: "string \<Rightarrow> ir_block \<Rightarrow> library_db \<Rightarrow> library_db res" where
  "insert_block document b db =
     res_bind
       (insert_row (0 \<le> block_ordinal b \<and> document \<in> fst ` set (ld_documents db) \<and>
            (document, block_ordinal b) \<notin> (\<lambda>kv. (bk_document (snd kv), bk_ordinal (snd kv))) ` set (ld_blocks db))
          (block_id b)
          \<lparr>bk_document = document, bk_ordinal = block_ordinal b, bk_kind = block_kind b, bk_text = block_text b,
           bk_heading_path = stored_heading_path (heading_path b), bk_locator = stored_locator b\<rparr> (ld_blocks db))
       (\<lambda>t. Inr (db\<lparr>ld_blocks := t\<rparr>))"

fun insert_blocks :: "string \<Rightarrow> ir_block list \<Rightarrow> library_db \<Rightarrow> library_db res" where
  "insert_blocks document [] db = Inr db"
| "insert_blocks document (b # bs) db = res_bind (insert_block document b db) (insert_blocks document bs)"

definition insert_evidence_ref :: "string \<Rightarrow> string \<Rightarrow> ir_block \<Rightarrow> library_db \<Rightarrow> library_db res" where
  "insert_evidence_ref document e b db =
     res_bind
       (insert_row (0 \<le> block_ordinal b \<and> document \<in> fst ` set (ld_documents db) \<and>
            block_id b \<in> fst ` set (ld_blocks db) \<and>
            (document, block_ordinal b) \<notin> (\<lambda>kv. (ev_document (snd kv), ev_ordinal (snd kv))) ` set (ld_evidence db))
          e
          \<lparr>ev_document = document, ev_block = block_id b, ev_ordinal = block_ordinal b,
           ev_text = block_text b, ev_locator = stored_locator b\<rparr> (ld_evidence db))
       (\<lambda>t. Inr (db\<lparr>ld_evidence := t, ld_fts := ld_fts db @ [(e, document, block_text b)]\<rparr>))"

definition insert_evidence_sha :: "string \<Rightarrow> string \<Rightarrow> string \<Rightarrow> library_db \<Rightarrow> library_db res" where
  "insert_evidence_sha k e now db =
     res_bind
       (insert_row (e \<in> fst ` set (ld_evidence db) \<and> e \<notin> (fst \<circ> snd) ` set (ld_evidence_sha db)) k (e, now)
          (ld_evidence_sha db))
       (\<lambda>t. Inr (db\<lparr>ld_evidence_sha := t\<rparr>))"

definition insert_occurrence ::
  "string \<Rightarrow> string \<Rightarrow> string \<Rightarrow> int \<Rightarrow> library_db \<Rightarrow> library_db res" where
  "insert_occurrence document block e ordinal db =
     res_bind
       (insert_row (0 \<le> ordinal \<and> document \<in> fst ` set (ld_documents db) \<and> block \<in> fst ` set (ld_blocks db) \<and>
            e \<in> fst ` set (ld_evidence db) \<and>
            (document, ordinal) \<notin> (\<lambda>kv. (fst (fst kv), snd (snd kv))) ` set (ld_occurrences db))
          (document, block) (e, ordinal) (ld_occurrences db))
       (\<lambda>t. Inr (db\<lparr>ld_occurrences := t\<rparr>))"

text \<open>\<open>INSERT .. SELECT ?, block_id, evidence_id, ordinal\<close> of the given rows.\<close>

fun copy_occurrences ::
  "string \<Rightarrow> ((string \<times> string) \<times> string \<times> int) list \<Rightarrow> library_db \<Rightarrow> library_db res" where
  "copy_occurrences document [] db = Inr db"
| "copy_occurrences document (((d, block), e, ordinal) # rows) db =
     res_bind (insert_occurrence document block e ordinal db) (copy_occurrences document rows)"

text \<open>
  \<open>source_image_storage_path\<close>; \<open>lower\<close> is \<open>str.lower\<close>.
\<close>

definition source_image_storage_path :: "(string \<Rightarrow> string) \<Rightarrow> source_image \<Rightarrow> string" where
  "source_image_storage_path lower i =
     (let ext = lower (extension i) in
      ''derived/source-images/'' @ image_sha256 i @
        (if \<not> prefix ''.'' ext \<or> CHR ''/'' \<in> set ext \<or> CHR 0x5C \<in> set ext then ''.bin'' else ext))"

definition persist_source_image ::
  "(string \<Rightarrow> string) \<Rightarrow> string \<Rightarrow> string \<Rightarrow> source_image \<Rightarrow> library_db \<Rightarrow> library_db res" where
  "persist_source_image lower document now i db =
     res_bind
       (insert_row (0 \<le> image_ordinal i \<and> 0 \<le> byte_size i \<and> document \<in> fst ` set (ld_documents db) \<and>
            (document, image_ordinal i) \<notin> (\<lambda>kv. (im_document (snd kv), im_ordinal (snd kv))) ` set (ld_images db))
          (image_id i)
          \<lparr>im_document = document, im_ordinal = image_ordinal i, im_sha256 = image_sha256 i, im_size = byte_size i,
           im_media_type = media_type i, im_path = source_image_storage_path lower i, im_name = filename i,
           im_alt = alt_text i, im_locator = json_text (JObj (image_locator i)), im_created = now\<rparr> (ld_images db))
       (\<lambda>t. Inr (db\<lparr>ld_images := t\<rparr>))"

fun persist_source_images ::
  "(string \<Rightarrow> string) \<Rightarrow> string \<Rightarrow> string \<Rightarrow> source_image list \<Rightarrow> library_db \<Rightarrow> library_db res" where
  "persist_source_images lower document now [] db = Inr db"
| "persist_source_images lower document now (i # is) db =
     res_bind (persist_source_image lower document now i db) (persist_source_images lower document now is)"

subsection \<open>Queries (\<open>openkb/importing/queries.py\<close>)\<close>

text \<open>\<open>COALESCE(canonical_document_id, document_id)\<close> after the outer join.\<close>

definition processing_document :: "library_db \<Rightarrow> string \<Rightarrow> string" where
  "processing_document db document =
     (case Option.bind (map_of (ld_fingerprints db) document) df_canonical of None \<Rightarrow> document | Some c \<Rightarrow> c)"

definition occurrences_of :: "library_db \<Rightarrow> string \<Rightarrow> ((string \<times> string) \<times> string \<times> int) list" where
  "occurrences_of db document = filter (\<lambda>kv. fst (fst kv) = document) (ld_occurrences db)"

fun availability_text :: "availability \<Rightarrow> string" where
  "availability_text Available = ''available''"
| "availability_text Doc_Failed = ''failed''"

definition document_from_row :: "library_db \<Rightarrow> string \<times> document_row \<Rightarrow> imported_document" where
  "document_from_row db kv =
     \<lparr>idoc_id = fst kv, idoc_name = sd_name (snd kv), idoc_format = sd_format (snd kv),
      idoc_sha256 = sd_asset (snd kv),
      idoc_evidence_count = length (occurrences_of db (processing_document db (fst kv))),
      idoc_availability = availability_text (sd_availability (snd kv))\<rparr>"

definition first_row :: "'a list \<Rightarrow> 'a option" where
  "first_row xs = (case xs of [] \<Rightarrow> None | x # _ \<Rightarrow> Some x)"

definition find_available_document_in :: "library_db \<Rightarrow> string \<Rightarrow> imported_document option" where
  "find_available_document_in db asset =
     map_option (document_from_row db)
       (first_row (filter (\<lambda>kv. sd_asset (snd kv) = asset \<and> sd_availability (snd kv) = Available) (ld_documents db)))"

text \<open>
  The original of a body comes before its duplicates, older documents before younger ones:
  three stable sorts, the least significant key first.
\<close>

definition find_available_document_by_normalized_body_in :: "library_db \<Rightarrow> string \<Rightarrow> imported_document option" where
  "find_available_document_by_normalized_body_in db body =
     map_option (document_from_row db)
       (first_row
         (sort_key (\<lambda>kv. Option.bind (map_of (ld_fingerprints db) (fst kv)) df_canonical \<noteq> None)
           (sort_key (sd_created \<circ> snd)
             (sort_key fst
               (filter (\<lambda>kv. sd_availability (snd kv) = Available \<and>
                    (case map_of (ld_fingerprints db) (fst kv) of None \<Rightarrow> False | Some f \<Rightarrow> df_body f = body))
                  (ld_documents db))))))"

end
