(* ===== verification/Publication.thy ===== *)
theory Publication
  imports LibraryTables
begin

section \<open>Publishing a document (\<open>openkb/importing/deduplication.py\<close>)\<close>

text \<open>
  The last transaction of an import: a new body is stored with its Evidence, whose
  fragments that are already known are shared (D2); a known body becomes a new source
  document that points at the existing result (D1); a known raw asset adds nothing (D0).
  The methods of \<open>openkb/importing/store.py\<close> put each into one transaction, so an exception
  leaves the tables as they were.  \<open>before_commit\<close> writes the PageTree tables of another
  component; what matters here is whether it raises.
\<close>

subsection \<open>The two publications\<close>

definition raw_match :: "string \<Rightarrow> string list \<Rightarrow> deduplication" where
  "raw_match document stages =
     \<lparr>dd_level = ''D0'', dd_reason = ''raw_asset_sha256_match'', dd_reused_document = Some document,
      dd_reused_evidence = 0, dd_reusable_stages = stages, dd_normalized_body = None\<rparr>"

definition publish_content_duplicate_in ::
  "(string \<Rightarrow> string) \<Rightarrow> import_state \<Rightarrow> publication \<Rightarrow> source_image list \<Rightarrow> string \<Rightarrow> imported_document \<Rightarrow>
    string \<Rightarrow> library_db \<Rightarrow> ((imported_document \<times> bool) \<times> library_db) res" where
  "publish_content_duplicate_in lower st pb images body canonical now db =
     (case find_available_document_in db (pb_sha256 pb) of
        Some existing \<Rightarrow>
          res_bind
            (complete_reused_import_in st (idoc_id existing) ''document_ir''
               [''evidence'', ''deterministic_page_tree'', ''model_analysis'', ''search'']
               (raw_match (idoc_id existing)
                  [''document_ir'', ''evidence'', ''deterministic_page_tree'', ''model_analysis'', ''search''])
               now (ld_import db)) (\<lambda>imports.
          Inr ((existing, True), db\<lparr>ld_import := imports\<rparr>))
      | None \<Rightarrow>
          (case (map_of (ld_documents db) (idoc_id canonical), map_of (ld_fingerprints db) (idoc_id canonical)) of
             (Some d, Some f) \<Rightarrow>
               if sd_availability d \<noteq> Available \<or> df_body f \<noteq> body then Inl (RuntimeError ''body unavailable'')
               else
                 let processing = processing_document db (idoc_id canonical) in
                 res_bind (insert_raw_and_source_document pb now db) (\<lambda>db1.
                 res_bind (insert_fingerprint (pb_document pb) body (Some processing) now db1) (\<lambda>db2.
                 res_bind (copy_occurrences (pb_document pb)
                     (sort_key (snd \<circ> snd) (occurrences_of db2 processing)) db2) (\<lambda>db3.
                 res_bind (persist_source_images lower (pb_document pb) now images db3) (\<lambda>db4.
                 res_bind
                   (complete_reused_import_in st (pb_document pb) ''search'' [''model_analysis'']
                      \<lparr>dd_level = ''D1'', dd_reason = ''normalized_body_sha256_match'',
                       dd_reused_document = Some (idoc_id canonical),
                       dd_reused_evidence = int (idoc_evidence_count canonical),
                       dd_reusable_stages = [''evidence'', ''model_analysis'', ''search''],
                       dd_normalized_body = Some body\<rparr> now (ld_import db4)) (\<lambda>imports.
                 Inr ((\<lparr>idoc_id = pb_document pb, idoc_name = pb_name pb, idoc_format = pb_format pb,
                        idoc_sha256 = pb_sha256 pb, idoc_evidence_count = idoc_evidence_count canonical,
                        idoc_availability = ''available''\<rparr>, True), db4\<lparr>ld_import := imports\<rparr>))))))
           | _ \<Rightarrow> Inl (RuntimeError ''body unavailable'')))"

text \<open>The loop over the Evidence, with the count of the shared fragments.\<close>

definition publish_fragment ::
  "(string \<Rightarrow> string) \<Rightarrow> string \<Rightarrow> string \<Rightarrow> string \<times> ir_block \<Rightarrow> library_db \<Rightarrow> (nat \<times> library_db) res" where
  "publish_fragment sha document now eb db =
     (let fingerprint = evidence_sha256 sha (snd eb) in
      case map_of (ld_evidence_sha db) fingerprint of
        None \<Rightarrow>
          res_bind (insert_evidence_ref document (fst eb) (snd eb) db) (\<lambda>db1.
          res_bind (insert_evidence_sha fingerprint (fst eb) now db1) (\<lambda>db2.
          res_bind (insert_occurrence document (block_id (snd eb)) (fst eb) (block_ordinal (snd eb)) db2)
            (\<lambda>db3. Inr (0, db3))))
      | Some (canonical, _) \<Rightarrow>
          res_bind (insert_occurrence document (block_id (snd eb)) canonical (block_ordinal (snd eb)) db)
            (\<lambda>db1. Inr (1, db1)))"

fun publish_fragments ::
  "(string \<Rightarrow> string) \<Rightarrow> string \<Rightarrow> string \<Rightarrow> (string \<times> ir_block) list \<Rightarrow> library_db \<Rightarrow> (nat \<times> library_db) res" where
  "publish_fragments sha document now [] db = Inr (0, db)"
| "publish_fragments sha document now (eb # evidence) db =
     res_bind (publish_fragment sha document now eb db) (\<lambda>(k, db1).
     res_bind (publish_fragments sha document now evidence db1) (\<lambda>(n, db2). Inr (k + n, db2)))"

definition publish_document_in ::
  "(string \<Rightarrow> string) \<Rightarrow> (string \<Rightarrow> string) \<Rightarrow> import_state \<Rightarrow> publication \<Rightarrow> ir_block list \<Rightarrow>
    (string \<times> ir_block) list \<Rightarrow> source_image list \<Rightarrow> string \<Rightarrow> string \<Rightarrow> library_db \<Rightarrow>
    ((imported_document \<times> bool) \<times> library_db) res" where
  "publish_document_in sha lower st pb blocks evidence images body now db =
     (case find_available_document_in db (pb_sha256 pb) of
        Some existing \<Rightarrow>
          res_bind (complete_published_import st (idoc_id existing) (Some (raw_match (idoc_id existing) [])) now (ld_import db))
            (\<lambda>imports. Inr ((existing, True), db\<lparr>ld_import := imports\<rparr>))
      | None \<Rightarrow>
          res_bind (insert_raw_and_source_document pb now db) (\<lambda>db1.
          res_bind (insert_fingerprint (pb_document pb) body None now db1) (\<lambda>db2.
          res_bind (insert_blocks (pb_document pb) blocks db2) (\<lambda>db3.
          res_bind (publish_fragments sha (pb_document pb) now evidence db3) (\<lambda>(reused, db4).
          res_bind (persist_source_images lower (pb_document pb) now images db4) (\<lambda>db5.
          res_bind
            (complete_published_import st (pb_document pb)
               (if reused = 0 then None
                else Some \<lparr>dd_level = ''D2'', dd_reason = ''evidence_sha256_match'', dd_reused_document = None,
                  dd_reused_evidence = int reused, dd_reusable_stages = [''evidence''],
                  dd_normalized_body = None\<rparr>) now (ld_import db5)) (\<lambda>imports.
          Inr ((\<lparr>idoc_id = pb_document pb, idoc_name = pb_name pb, idoc_format = pb_format pb,
                 idoc_sha256 = pb_sha256 pb, idoc_evidence_count = length evidence,
                 idoc_availability = ''available''\<rparr>, reused \<noteq> 0),
               db5\<lparr>ld_import := imports\<rparr>))))))))"

subsection \<open>The transactions of the store\<close>

definition transaction ::
  "((imported_document \<times> bool) \<times> library_db) res \<Rightarrow> (imported_document \<Rightarrow> bool \<Rightarrow> error option) \<Rightarrow> library_db \<Rightarrow>
    (imported_document \<times> bool) res \<times> library_db" where
  "transaction published before_commit db =
     (case published of
        Inl e \<Rightarrow> (Inl e, db)
      | Inr ((document, deduplicated), db') \<Rightarrow>
          (case before_commit document deduplicated of
             Some e \<Rightarrow> (Inl e, db)
           | None \<Rightarrow> (Inr (document, deduplicated), db')))"

definition publish_document ::
  "(string \<Rightarrow> string) \<Rightarrow> (string \<Rightarrow> string) \<Rightarrow> import_state \<Rightarrow> publication \<Rightarrow> ir_block list \<Rightarrow>
    (string \<times> ir_block) list \<Rightarrow> source_image list \<Rightarrow> string \<Rightarrow> (imported_document \<Rightarrow> bool \<Rightarrow> error option) \<Rightarrow>
    string \<Rightarrow> library_db \<Rightarrow> (imported_document \<times> bool) res \<times> library_db" where
  "publish_document sha lower st pb blocks evidence images body before_commit now db =
     transaction (publish_document_in sha lower st pb blocks evidence images body now db) before_commit db"

text \<open>The events come after the commit; a stage without an identifier fails there.\<close>

definition complete_content_duplicate_job ::
  "(string \<Rightarrow> string) \<Rightarrow> import_state \<Rightarrow> publication \<Rightarrow> source_image list \<Rightarrow> string \<Rightarrow> imported_document \<Rightarrow>
    (imported_document \<Rightarrow> bool \<Rightarrow> error option) \<Rightarrow> string \<Rightarrow> library_db \<Rightarrow>
    ((imported_document \<times> bool) \<times> dict list) res \<times> library_db" where
  "complete_content_duplicate_job lower st pb images body canonical before_commit now db =
     (case transaction (publish_content_duplicate_in lower st pb images body canonical now db) before_commit db of
        (Inl e, db') \<Rightarrow> (Inl e, db')
      | (Inr (document, deduplicated), db') \<Rightarrow>
          (res_bind
             (res_map (\<lambda>(stage, status). res_bind (stage_id st stage) (\<lambda>i. Inr (stage_event (js_job st)
                \<lparr>srun_id = i, srun_stage = stage, srun_status = status, srun_progress = 100, srun_error = None\<rparr>
                (Some (idoc_id document)))))
              [(''model_analysis'', St_Skipped), (''search'', St_Completed)])
             (\<lambda>events. Inr ((document, deduplicated), events)), db'))"

subsection \<open>Reading a recorded reuse (\<open>_deduplication_for_job\<close>)\<close>

definition is_sha256 :: "string \<Rightarrow> bool" where
  "is_sha256 s \<longleftrightarrow> length s = 64 \<and> (\<forall>c \<in> set s. c \<in> set ''0123456789abcdef'')"

definition deduplication_reasons :: "(string \<times> string) list" where
  "deduplication_reasons =
     [(''D0'', ''raw_asset_sha256_match''), (''D1'', ''normalized_body_sha256_match''), (''D2'', ''evidence_sha256_match'')]"

definition deduplication_stages :: "string list" where
  "deduplication_stages = [''document_ir'', ''evidence'', ''deterministic_page_tree'', ''model_analysis'', ''search'']"

definition deduplication_valid :: "deduplication \<Rightarrow> bool" where
  "deduplication_valid d \<longleftrightarrow>
     map_of deduplication_reasons (dd_level d) = Some (dd_reason d) \<and> 0 \<le> dd_reused_evidence d \<and>
     set (dd_reusable_stages d) \<subseteq> set deduplication_stages \<and> distinct (dd_reusable_stages d) \<and>
     (if dd_level d \<in> {''D0'', ''D1''} then dd_reused_document d \<noteq> None \<and> dd_reused_document d \<noteq> Some []
      else dd_reused_document d = None) \<and>
     (if dd_level d = ''D1'' then (case dd_normalized_body d of None \<Rightarrow> False | Some s \<Rightarrow> is_sha256 s)
      else dd_normalized_body d = None)"

definition deduplication_for_job :: "library_db \<Rightarrow> string \<Rightarrow> deduplication option res" where
  "deduplication_for_job db job =
     (case map_of (db_dedup (ld_import db)) job of
        None \<Rightarrow> Inr None
      | Some d \<Rightarrow>
          if deduplication_valid d then Inr (Some d) else Inl (ImportError ''desktop_import_state_invalid''))"

end
