(* ===== verification/LibraryInvariant.thy ===== *)
theory LibraryInvariant
  imports Publication
begin

section \<open>The published library is consistent\<close>

text \<open>
  The invariant of the tables of \<open>LibraryTables\<close> and its preservation by the two
  publications of \<open>Publication\<close>, which run beside the transitions of the import store.
\<close>

subsection \<open>The invariant\<close>

text \<open>The fingerprint of a stored block, from what its row says of it.\<close>

definition row_fingerprint :: "(string \<Rightarrow> string) \<Rightarrow> block_row \<Rightarrow> string \<Rightarrow> bool" where
  "row_fingerprint sha b k \<longleftrightarrow>
     (\<exists>path. bk_heading_path b = stored_heading_path path \<and> k = fragment_sha256 sha (bk_kind b) path (bk_text b))"

text \<open>Each raw asset has at most one document; every document has its asset.\<close>

definition documents_ok :: "library_db \<Rightarrow> bool" where
  "documents_ok db \<longleftrightarrow>
     table_ok (ld_assets db) \<and> table_ok (ld_documents db) \<and>
     distinct (map (sd_asset \<circ> snd) (ld_documents db)) \<and>
     (sd_asset \<circ> snd) ` set (ld_documents db) \<subseteq> fst ` set (ld_assets db)"

text \<open>Every document has its fingerprint; a duplicate points at an original with its body.\<close>

definition fingerprints_ok :: "library_db \<Rightarrow> bool" where
  "fingerprints_ok db \<longleftrightarrow>
     table_ok (ld_fingerprints db) \<and>
     fst ` set (ld_fingerprints db) = fst ` set (ld_documents db) \<and>
     (\<forall>d f c. map_of (ld_fingerprints db) d = Some f \<longrightarrow> df_canonical f = Some c \<longrightarrow>
        (\<exists>g. map_of (ld_fingerprints db) c = Some g \<and> df_canonical g = None \<and> df_body g = df_body f))"

text \<open>
  One canonical Evidence for each fingerprint and one fingerprint for each Evidence, which
  is the fingerprint of the block of the document it was first seen in.
\<close>

definition anchored :: "(string \<Rightarrow> string) \<Rightarrow> (string \<rightharpoonup> block_row) \<Rightarrow> (string \<rightharpoonup> evidence_row) \<Rightarrow> string \<Rightarrow> string \<Rightarrow> bool" where
  "anchored sha blocks evidence k e \<longleftrightarrow>
     (\<exists>ev b. evidence e = Some ev \<and> blocks (ev_block ev) = Some b \<and> bk_document b = ev_document ev \<and>
        row_fingerprint sha b k)"

definition readable_blocks :: "(string \<times> block_row) list \<Rightarrow> bool" where
  "readable_blocks t \<longleftrightarrow> (\<forall>kv \<in> set t. \<exists>path. bk_heading_path (snd kv) = stored_heading_path path)"

definition shared_evidence_ok :: "(string \<Rightarrow> string) \<Rightarrow> library_db \<Rightarrow> bool" where
  "shared_evidence_ok sha db \<longleftrightarrow>
     table_ok (ld_blocks db) \<and> table_ok (ld_evidence db) \<and> table_ok (ld_evidence_sha db) \<and>
     readable_blocks (ld_blocks db) \<and> distinct (map (fst \<circ> snd) (ld_evidence_sha db)) \<and>
     (fst \<circ> snd) ` set (ld_evidence_sha db) = fst ` set (ld_evidence db) \<and>
     (\<forall>k e t. map_of (ld_evidence_sha db) k = Some (e, t) \<longrightarrow>
        anchored sha (map_of (ld_blocks db)) (map_of (ld_evidence db)) k e)"

text \<open>
  An occurrence joins a block of the document's body with the canonical Evidence of the
  same fingerprint.
\<close>

definition joined ::
  "(string \<Rightarrow> string) \<Rightarrow> (string \<rightharpoonup> block_row) \<Rightarrow> (string \<rightharpoonup> string \<times> string) \<Rightarrow> string \<Rightarrow> string \<Rightarrow> string \<Rightarrow> bool" where
  "joined sha blocks shas document block e \<longleftrightarrow>
     (\<exists>b k t. blocks block = Some b \<and> bk_document b = document \<and> shas k = Some (e, t) \<and> row_fingerprint sha b k)"

definition occurrences_ok :: "(string \<Rightarrow> string) \<Rightarrow> library_db \<Rightarrow> bool" where
  "occurrences_ok sha db \<longleftrightarrow>
     table_ok (ld_occurrences db) \<and>
     (\<forall>d block e n. map_of (ld_occurrences db) (d, block) = Some (e, n) \<longrightarrow>
        d \<in> fst ` set (ld_documents db) \<and>
        joined sha (map_of (ld_blocks db)) (map_of (ld_evidence_sha db)) (processing_document db d) block e)"

text \<open>A duplicate has the occurrences of its original.\<close>

definition mirrors :: "library_db \<Rightarrow> string \<Rightarrow> string \<Rightarrow> bool" where
  "mirrors db d p \<longleftrightarrow> (\<forall>block. map_of (ld_occurrences db) (d, block) = map_of (ld_occurrences db) (p, block))"

definition library_ok :: "(string \<Rightarrow> string) \<Rightarrow> library_db \<Rightarrow> bool" where
  "library_ok sha db \<longleftrightarrow>
     documents_ok db \<and> fingerprints_ok db \<and> shared_evidence_ok sha db \<and> occurrences_ok sha db \<and>
     (\<forall>d. mirrors db d (processing_document db d))"

subsection \<open>Inserted rows\<close>

declare map_of_eq_Some_iff [simp del] map_of_append [simp del]

lemma lookup_append:
  "k \<notin> fst ` set t \<Longrightarrow> map_of (t @ [(k, r)]) k' = (if k' = k then Some r else map_of t k')"
  using map_of_append_new [of t k r] by (simp add: map_of_eq_None_iff)

lemma lookup_fresh: "k \<notin> fst ` set t \<Longrightarrow> map_of t k = None"
  by (simp add: map_of_eq_None_iff)

lemma append_extends: "k \<notin> fst ` set t \<Longrightarrow> map_of t \<subseteq>\<^sub>m map_of (t @ [(k, r)])"
  by (auto simp: map_le_def map_of_append_new lookup_fresh)

lemmas insert_defs = insert_raw_and_source_document_def insert_fingerprint_def insert_block_def
  insert_evidence_ref_def insert_evidence_sha_def insert_occurrence_def persist_source_image_def

text \<open>The document and its fingerprint, \<open>canonical\<close> as both publications give it.\<close>

definition registered :: "publication \<Rightarrow> string \<Rightarrow> string option \<Rightarrow> string \<Rightarrow> library_db \<Rightarrow> library_db \<Rightarrow> bool" where
  "registered pb body canonical now db db2 \<longleftrightarrow>
     pb_document pb \<notin> fst ` set (ld_documents db) \<and> pb_document pb \<notin> fst ` set (ld_fingerprints db) \<and>
     pb_sha256 pb \<notin> (sd_asset \<circ> snd) ` set (ld_documents db) \<and>
     (\<exists>a. (a = ld_assets db \<and> pb_sha256 pb \<in> fst ` set a \<or>
           (\<exists>r. pb_sha256 pb \<notin> fst ` set (ld_assets db) \<and> a = ld_assets db @ [(pb_sha256 pb, r)])) \<and>
        db2 = db
          \<lparr>ld_assets := a,
           ld_documents := ld_documents db @ [(pb_document pb, \<lparr>sd_asset = pb_sha256 pb, sd_name = pb_name pb,
             sd_format = pb_format pb, sd_availability = Available, sd_created = now, sd_available_at = Some now\<rparr>)],
           ld_fingerprints := ld_fingerprints db @
             [(pb_document pb, \<lparr>df_body = body, df_canonical = canonical, df_created = now\<rparr>)]\<rparr>)"

lemma register_document:
  "insert_raw_and_source_document pb now db = Inr db1 \<Longrightarrow>
    insert_fingerprint (pb_document pb) body canonical now db1 = Inr db2 \<Longrightarrow>
    registered pb body canonical now db db2"
  by (auto simp: registered_def insert_raw_and_source_document_def insert_fingerprint_def
      res_bind_Inr_iff insert_row_Inr split: if_splits)

lemma registered_frame:
  assumes "registered pb body canonical now db db2"
  shows "ld_import db2 = ld_import db" "ld_blocks db2 = ld_blocks db" "ld_evidence db2 = ld_evidence db"
    "ld_evidence_sha db2 = ld_evidence_sha db" "ld_occurrences db2 = ld_occurrences db"
    "fst ` set (ld_documents db2) = insert (pb_document pb) (fst ` set (ld_documents db))"
    "map_of (ld_fingerprints db2) d =
       (if d = pb_document pb then Some \<lparr>df_body = body, df_canonical = canonical, df_created = now\<rparr>
        else map_of (ld_fingerprints db) d)"
    "processing_document db2 d =
       (if d = pb_document pb then (case canonical of None \<Rightarrow> d | Some c \<Rightarrow> c) else processing_document db d)"
  using assms by (auto simp: registered_def processing_document_def lookup_append split: option.splits)

lemma registered_documents:
  "registered pb body canonical now db db2 \<Longrightarrow>
    ld_documents db2 = ld_documents db @ [(pb_document pb, \<lparr>sd_asset = pb_sha256 pb, sd_name = pb_name pb,
      sd_format = pb_format pb, sd_availability = Available, sd_created = now, sd_available_at = Some now\<rparr>)]"
  by (auto simp: registered_def)

lemma registered_tables:
  assumes "registered pb body canonical now db db2"
  shows "table_ok (ld_documents db) \<Longrightarrow> table_ok (ld_documents db2)"
    "table_ok (ld_assets db) \<Longrightarrow> table_ok (ld_assets db2)"
    "table_ok (ld_fingerprints db) \<Longrightarrow> table_ok (ld_fingerprints db2)"
    "distinct (map (sd_asset \<circ> snd) (ld_documents db)) \<Longrightarrow> distinct (map (sd_asset \<circ> snd) (ld_documents db2))"
    "(sd_asset \<circ> snd) ` set (ld_documents db2) = insert (pb_sha256 pb) ((sd_asset \<circ> snd) ` set (ld_documents db))"
    "insert (pb_sha256 pb) (fst ` set (ld_assets db)) \<subseteq> fst ` set (ld_assets db2)"
    "fst ` set (ld_fingerprints db2) = insert (pb_document pb) (fst ` set (ld_fingerprints db))"
proof -
  have new: "pb_document pb \<notin> fst ` set (ld_documents db)" "pb_document pb \<notin> fst ` set (ld_fingerprints db)"
      "pb_sha256 pb \<notin> (sd_asset \<circ> snd) ` set (ld_documents db)"
    using assms by (simp_all add: registered_def)
  have assets: "ld_assets db2 = ld_assets db \<and> pb_sha256 pb \<in> fst ` set (ld_assets db) \<or>
      (\<exists>r. pb_sha256 pb \<notin> fst ` set (ld_assets db) \<and> ld_assets db2 = ld_assets db @ [(pb_sha256 pb, r)])"
    using assms by (auto simp: registered_def)
  have tables: "ld_documents db2 = ld_documents db @ [(pb_document pb, \<lparr>sd_asset = pb_sha256 pb, sd_name = pb_name pb,
             sd_format = pb_format pb, sd_availability = Available, sd_created = now, sd_available_at = Some now\<rparr>)]"
      "ld_fingerprints db2 = ld_fingerprints db @
             [(pb_document pb, \<lparr>df_body = body, df_canonical = canonical, df_created = now\<rparr>)]"
    using assms by (auto simp: registered_def)
  show "table_ok (ld_documents db) \<Longrightarrow> table_ok (ld_documents db2)"
    "table_ok (ld_fingerprints db) \<Longrightarrow> table_ok (ld_fingerprints db2)"
    "distinct (map (sd_asset \<circ> snd) (ld_documents db)) \<Longrightarrow> distinct (map (sd_asset \<circ> snd) (ld_documents db2))"
    "(sd_asset \<circ> snd) ` set (ld_documents db2) = insert (pb_sha256 pb) ((sd_asset \<circ> snd) ` set (ld_documents db))"
    "fst ` set (ld_fingerprints db2) = insert (pb_document pb) (fst ` set (ld_fingerprints db))"
    using new by (simp_all add: tables)
  show "table_ok (ld_assets db) \<Longrightarrow> table_ok (ld_assets db2)"
    "insert (pb_sha256 pb) (fst ` set (ld_assets db)) \<subseteq> fst ` set (ld_assets db2)"
    using assets by auto
qed

lemma registered_documents_ok:
  assumes "registered pb body canonical now db db2" and "documents_ok db"
  shows "documents_ok db2"
proof -
  note r = registered_tables [OF assms(1)]
  have "(sd_asset \<circ> snd) ` set (ld_documents db2) \<subseteq> fst ` set (ld_assets db2)"
    unfolding r(5) using r(6) assms(2) unfolding documents_ok_def by blast
  with r(1,2,4) assms(2) show ?thesis by (simp add: documents_ok_def)
qed

definition original_of :: "library_db \<Rightarrow> string \<Rightarrow> string option \<Rightarrow> bool" where
  "original_of db body canonical \<longleftrightarrow>
     (\<forall>c. canonical = Some c \<longrightarrow>
        (\<exists>g. map_of (ld_fingerprints db) c = Some g \<and> df_canonical g = None \<and> df_body g = body))"

lemma registered_fingerprints_ok:
  assumes r: "registered pb body canonical now db db2" and "fingerprints_ok db" and "original_of db body canonical"
  shows "fingerprints_ok db2"
proof -
  have "table_ok (ld_fingerprints db2)" "fst ` set (ld_fingerprints db2) = fst ` set (ld_documents db2)"
    using registered_tables(3,7) [OF r] registered_frame(6) [OF r] assms(2) by (simp_all add: fingerprints_ok_def)
  moreover have "\<exists>g. map_of (ld_fingerprints db2) c = Some g \<and> df_canonical g = None \<and> df_body g = df_body f"
    if "map_of (ld_fingerprints db2) d = Some f" "df_canonical f = Some c" for d f c
  proof -
    have old: "\<exists>g. map_of (ld_fingerprints db) c = Some g \<and> df_canonical g = None \<and> df_body g = df_body f"
      using that assms(2,3) registered_frame(7) [OF r, of d]
      by (auto simp: fingerprints_ok_def original_of_def split: if_splits)
    moreover have "map_of (ld_fingerprints db) (pb_document pb) = None"
      using r by (auto simp: registered_def intro!: lookup_fresh)
    ultimately have "c \<noteq> pb_document pb" by auto
    with old show ?thesis using registered_frame(7) [OF r, of c] by simp
  qed
  ultimately show ?thesis by (auto simp: fingerprints_ok_def)
qed

lemma registered_rest_ok:
  assumes r: "registered pb body canonical now db db2"
  shows "shared_evidence_ok sha db \<Longrightarrow> shared_evidence_ok sha db2"
    and "occurrences_ok sha db \<Longrightarrow> occurrences_ok sha db2"
    and "mirrors db2 d p = mirrors db d p"
proof -
  have new: "pb_document pb \<notin> fst ` set (ld_documents db)" using r by (simp add: registered_def)
  show "shared_evidence_ok sha db \<Longrightarrow> shared_evidence_ok sha db2"
    by (simp add: shared_evidence_ok_def registered_frame [OF r])
  show "occurrences_ok sha db2" if ok: "occurrences_ok sha db"
  proof -
    have "d \<in> fst ` set (ld_documents db2) \<and>
        joined sha (map_of (ld_blocks db2)) (map_of (ld_evidence_sha db2)) (processing_document db2 d) block e"
      if "map_of (ld_occurrences db2) (d, block) = Some (e, n)" for d block e n
    proof -
      from that ok have "d \<in> fst ` set (ld_documents db)"
        "joined sha (map_of (ld_blocks db)) (map_of (ld_evidence_sha db)) (processing_document db d) block e"
        unfolding registered_frame [OF r] occurrences_ok_def by blast+
      moreover from this(1) new have "d \<noteq> pb_document pb" by blast
      ultimately show ?thesis by (simp add: registered_frame [OF r])
    qed
    with ok show ?thesis by (simp add: occurrences_ok_def registered_frame [OF r])
  qed
  show "mirrors db2 d p = mirrors db d p" by (simp add: mirrors_def registered_frame [OF r])
qed

subsection \<open>Blocks\<close>

definition block_row_of :: "string \<Rightarrow> ir_block \<Rightarrow> block_row" where
  "block_row_of document b = \<lparr>bk_document = document, bk_ordinal = block_ordinal b, bk_kind = block_kind b,
     bk_text = block_text b, bk_heading_path = stored_heading_path (heading_path b), bk_locator = stored_locator b\<rparr>"

lemma row_fingerprint_block_row: "row_fingerprint sha (block_row_of document b) (evidence_sha256 sha b)"
  by (auto simp: row_fingerprint_def block_row_of_def evidence_sha256_def)

lemma insert_block_Inr:
  "insert_block document b db = Inr db' \<Longrightarrow>
    block_id b \<notin> fst ` set (ld_blocks db) \<and>
    db' = db\<lparr>ld_blocks := ld_blocks db @ [(block_id b, block_row_of document b)]\<rparr>"
  by (auto simp: insert_block_def block_row_of_def res_bind_Inr_iff insert_row_Inr)

lemma insert_blocks_Inr:
  "insert_blocks document bs db = Inr db' \<Longrightarrow> table_ok (ld_blocks db) \<Longrightarrow>
    (\<exists>t. db' = db\<lparr>ld_blocks := t\<rparr>) \<and> table_ok (ld_blocks db') \<and>
    (readable_blocks (ld_blocks db) \<longrightarrow> readable_blocks (ld_blocks db')) \<and>
    map_of (ld_blocks db) \<subseteq>\<^sub>m map_of (ld_blocks db') \<and>
    (\<forall>b \<in> set bs. map_of (ld_blocks db') (block_id b) = Some (block_row_of document b))"
proof (induction bs arbitrary: db)
  case Nil
  then show ?case by (auto intro: exI [of _ "ld_blocks db"])
next
  case (Cons b bs)
  then obtain db1 where first: "insert_block document b db = Inr db1" and rest: "insert_blocks document bs db1 = Inr db'"
    by (auto simp: res_bind_Inr_iff)
  note b = insert_block_Inr [OF first]
  then have ok: "table_ok (ld_blocks db1)" using Cons.prems(2) by auto
  note IH = Cons.IH [OF rest ok]
  have le: "map_of (ld_blocks db) \<subseteq>\<^sub>m map_of (ld_blocks db1)" using b by (simp add: append_extends)
  have here: "map_of (ld_blocks db1) (block_id b) = Some (block_row_of document b)"
    using b by (simp add: lookup_append)
  have "map_of (ld_blocks db') (block_id b) = Some (block_row_of document b)"
    using IH here by (metis domI map_le_def)
  moreover have "map_of (ld_blocks db) \<subseteq>\<^sub>m map_of (ld_blocks db')"
    using IH le map_le_trans by blast
  moreover have "\<exists>t. db' = db\<lparr>ld_blocks := t\<rparr>" using IH b by auto
  moreover have "readable_blocks (ld_blocks db) \<longrightarrow> readable_blocks (ld_blocks db1)"
    using b by (auto simp: readable_blocks_def block_row_of_def)
  ultimately show ?case using IH by auto
qed

lemma map_leD: "m \<subseteq>\<^sub>m m' \<Longrightarrow> m k = Some x \<Longrightarrow> m' k = Some x"
  by (metis domI map_le_def)

lemma anchored_mono:
  "anchored sha blocks evidence k e \<Longrightarrow> blocks \<subseteq>\<^sub>m blocks' \<Longrightarrow> evidence \<subseteq>\<^sub>m evidence' \<Longrightarrow>
    anchored sha blocks' evidence' k e"
  unfolding anchored_def by (metis map_leD)

lemma joined_mono:
  "joined sha blocks shas d block e \<Longrightarrow> blocks \<subseteq>\<^sub>m blocks' \<Longrightarrow> shas \<subseteq>\<^sub>m shas' \<Longrightarrow>
    joined sha blocks' shas' d block e"
  unfolding joined_def by (metis map_leD)

text \<open>More blocks, and nothing else new, keep the invariant.\<close>

lemma more_blocks_ok:
  assumes "map_of (ld_blocks db) \<subseteq>\<^sub>m map_of t" and "table_ok t" and "readable_blocks t"
  shows "shared_evidence_ok sha db \<Longrightarrow> shared_evidence_ok sha (db\<lparr>ld_blocks := t\<rparr>)"
    and "occurrences_ok sha db \<Longrightarrow> occurrences_ok sha (db\<lparr>ld_blocks := t\<rparr>)"
    and "documents_ok (db\<lparr>ld_blocks := t\<rparr>) = documents_ok db"
    and "fingerprints_ok (db\<lparr>ld_blocks := t\<rparr>) = fingerprints_ok db"
    and "mirrors (db\<lparr>ld_blocks := t\<rparr>) d p = mirrors db d p"
    and "processing_document (db\<lparr>ld_blocks := t\<rparr>) d = processing_document db d"
proof -
  show p: "processing_document (db\<lparr>ld_blocks := t\<rparr>) d = processing_document db d" for d
    by (simp add: processing_document_def)
  show "shared_evidence_ok sha db \<Longrightarrow> shared_evidence_ok sha (db\<lparr>ld_blocks := t\<rparr>)"
    using assms anchored_mono [OF _ assms(1) map_le_refl] by (simp add: shared_evidence_ok_def)
  show "occurrences_ok sha db \<Longrightarrow> occurrences_ok sha (db\<lparr>ld_blocks := t\<rparr>)"
    using joined_mono [OF _ assms(1) map_le_refl] by (simp add: occurrences_ok_def p)
qed (simp_all add: documents_ok_def fingerprints_ok_def mirrors_def)

subsection \<open>Evidence and occurrences\<close>

text \<open>A new canonical Evidence with its fingerprint.\<close>

lemma new_evidence_ok:
  assumes ok: "shared_evidence_ok sha db"
    and fresh: "e \<notin> fst ` set (ld_evidence db)" "k \<notin> fst ` set (ld_evidence_sha db)"
    and row: "map_of (ld_blocks db) (ev_block r) = Some b" "bk_document b = ev_document r" "row_fingerprint sha b k"
  shows "shared_evidence_ok sha (db\<lparr>ld_evidence := ld_evidence db @ [(e, r)], ld_fts := fts,
      ld_evidence_sha := ld_evidence_sha db @ [(k, e, now)]\<rparr>)" (is "shared_evidence_ok sha ?db")
proof -
  have mono: "map_of (ld_evidence db) \<subseteq>\<^sub>m map_of (ld_evidence ?db)" using fresh(1) by (simp add: append_extends)
  have "anchored sha (map_of (ld_blocks ?db)) (map_of (ld_evidence ?db)) k' e'"
    if "map_of (ld_evidence_sha ?db) k' = Some (e', t)" for k' e' t
  proof (cases "k' = k")
    case True
    with that fresh(2) have "e' = e" by (simp add: lookup_append)
    with True row fresh(1) show ?thesis by (auto simp: anchored_def lookup_append)
  next
    case False
    with that fresh(2) have "map_of (ld_evidence_sha db) k' = Some (e', t)" by (simp add: lookup_append)
    with ok have "anchored sha (map_of (ld_blocks db)) (map_of (ld_evidence db)) k' e'"
      by (simp add: shared_evidence_ok_def)
    from anchored_mono [OF this map_le_refl mono] show ?thesis by simp
  qed
  moreover have "e \<notin> (fst \<circ> snd) ` set (ld_evidence_sha db)" using ok fresh(1) by (simp add: shared_evidence_ok_def)
  ultimately show ?thesis using ok fresh unfolding shared_evidence_ok_def by simp
qed

lemma more_evidence_occurrences:
  assumes ok: "occurrences_ok sha db" and "k \<notin> fst ` set (ld_evidence_sha db)"
  shows "occurrences_ok sha (db\<lparr>ld_evidence := t, ld_fts := fts, ld_evidence_sha := ld_evidence_sha db @ [(k, v)]\<rparr>)"
proof -
  have p: "processing_document (db\<lparr>ld_evidence := t, ld_fts := fts, ld_evidence_sha := u\<rparr>) d = processing_document db d"
    for u d by (simp add: processing_document_def)
  show ?thesis
    using ok joined_mono [OF _ map_le_refl append_extends [OF assms(2), of v]]
    by (simp add: occurrences_ok_def p)
qed

text \<open>A new occurrence, of a canonical Evidence with the fingerprint of the block.\<close>

lemma new_occurrence_ok:
  assumes ok: "occurrences_ok sha db" and "d \<in> fst ` set (ld_documents db)"
    and fresh: "(d, block) \<notin> fst ` set (ld_occurrences db)"
    and j: "joined sha (map_of (ld_blocks db)) (map_of (ld_evidence_sha db)) (processing_document db d) block e"
  shows "occurrences_ok sha (db\<lparr>ld_occurrences := ld_occurrences db @ [((d, block), e, n)]\<rparr>)"
proof -
  have p: "processing_document (db\<lparr>ld_occurrences := u\<rparr>) x = processing_document db x" for u x
    by (simp add: processing_document_def)
  show ?thesis using assms by (auto simp: occurrences_ok_def p lookup_append split: if_splits)
qed

lemma new_occurrence_mirrors:
  assumes "mirrors db x p" and "x = p \<or> x \<noteq> d \<and> p \<noteq> d" and "(d, block) \<notin> fst ` set (ld_occurrences db)"
  shows "mirrors (db\<lparr>ld_occurrences := ld_occurrences db @ [((d, block), e, n)]\<rparr>) x p"
  using assms by (auto simp: mirrors_def lookup_append)

text \<open>The two outcomes of \<open>publish_fragment\<close>.\<close>

lemma publish_fragment_Inr:
  assumes "publish_fragment sha document now (e, b) db = Inr (k, db')"
  obtains (shared) c t where "map_of (ld_evidence_sha db) (evidence_sha256 sha b) = Some (c, t)" "k = 1"
      "(document, block_id b) \<notin> fst ` set (ld_occurrences db)" "document \<in> fst ` set (ld_documents db)"
      "db' = db\<lparr>ld_occurrences := ld_occurrences db @ [((document, block_id b), c, block_ordinal b)]\<rparr>"
  | (first) r db1 where "evidence_sha256 sha b \<notin> fst ` set (ld_evidence_sha db)" "k = 0"
      "e \<notin> fst ` set (ld_evidence db)" "ev_document r = document" "ev_block r = block_id b"
      "(document, block_id b) \<notin> fst ` set (ld_occurrences db)" "document \<in> fst ` set (ld_documents db)"
      "db1 = db\<lparr>ld_evidence := ld_evidence db @ [(e, r)], ld_fts := ld_fts db @ [(e, document, block_text b)],
        ld_evidence_sha := ld_evidence_sha db @ [(evidence_sha256 sha b, e, now)]\<rparr>"
      "db' = db1\<lparr>ld_occurrences := ld_occurrences db1 @ [((document, block_id b), e, block_ordinal b)]\<rparr>"
proof (cases "map_of (ld_evidence_sha db) (evidence_sha256 sha b)")
  case None
  let ?r = "\<lparr>ev_document = document, ev_block = block_id b, ev_ordinal = block_ordinal b,
           ev_text = block_text b, ev_locator = stored_locator b\<rparr>"
  from None have "evidence_sha256 sha b \<notin> fst ` set (ld_evidence_sha db)" by (simp add: map_of_eq_None_iff)
  moreover from None assms have "k = 0 \<and> e \<notin> fst ` set (ld_evidence db) \<and>
      (document, block_id b) \<notin> fst ` set (ld_occurrences db) \<and> document \<in> fst ` set (ld_documents db) \<and>
      db' = db\<lparr>ld_evidence := ld_evidence db @ [(e, ?r)], ld_fts := ld_fts db @ [(e, document, block_text b)],
        ld_evidence_sha := ld_evidence_sha db @ [(evidence_sha256 sha b, e, now)],
        ld_occurrences := ld_occurrences db @ [((document, block_id b), e, block_ordinal b)]\<rparr>"
    by (simp add: publish_fragment_def Let_def insert_defs res_bind_Inr_iff insert_row_Inr)
  ultimately show ?thesis by (intro first [of ?r, OF _ _ _ _ _ _ _ refl]) simp_all
next
  case (Some ct)
  with assms show ?thesis
    by (cases ct) (auto intro!: shared simp: publish_fragment_def Let_def insert_defs res_bind_Inr_iff insert_row_Inr)
qed

text \<open>
  What the loop over the Evidence keeps: the invariant, the tables it does not write, and
  what is already there.  Every fragment ends with an occurrence of a canonical Evidence of
  its fingerprint.
\<close>

definition fragments_frame :: "library_db \<Rightarrow> library_db \<Rightarrow> bool" where
  "fragments_frame db db' \<longleftrightarrow>
     ld_import db' = ld_import db \<and> ld_assets db' = ld_assets db \<and> ld_documents db' = ld_documents db \<and>
     ld_fingerprints db' = ld_fingerprints db \<and> ld_blocks db' = ld_blocks db \<and> ld_images db' = ld_images db \<and>
     map_of (ld_evidence db) \<subseteq>\<^sub>m map_of (ld_evidence db') \<and>
     map_of (ld_evidence_sha db) \<subseteq>\<^sub>m map_of (ld_evidence_sha db') \<and>
     map_of (ld_occurrences db) \<subseteq>\<^sub>m map_of (ld_occurrences db')"

lemma fragments_frame_refl: "fragments_frame db db"
  by (simp add: fragments_frame_def)

lemma fragments_frame_trans: "fragments_frame a b \<Longrightarrow> fragments_frame b c \<Longrightarrow> fragments_frame a c"
  by (auto simp: fragments_frame_def intro: map_le_trans)

definition fragment_placed :: "(string \<Rightarrow> string) \<Rightarrow> string \<Rightarrow> ir_block \<Rightarrow> library_db \<Rightarrow> bool" where
  "fragment_placed sha document b db \<longleftrightarrow>
     (\<exists>c t. map_of (ld_evidence_sha db) (evidence_sha256 sha b) = Some (c, t) \<and>
        map_of (ld_occurrences db) (document, block_id b) = Some (c, block_ordinal b))"

lemma fragment_placed_frame:
  "fragment_placed sha document b db \<Longrightarrow> fragments_frame db db' \<Longrightarrow> fragment_placed sha document b db'"
  unfolding fragment_placed_def fragments_frame_def by (metis map_leD)

text \<open>A canonical document whose blocks are stored.\<close>

definition own_document :: "library_db \<Rightarrow> string \<Rightarrow> bool" where
  "own_document db d \<longleftrightarrow> (\<forall>x. processing_document db x = d \<longleftrightarrow> x = d)"

definition block_stored :: "string \<Rightarrow> ir_block \<Rightarrow> library_db \<Rightarrow> bool" where
  "block_stored document b db \<longleftrightarrow> map_of (ld_blocks db) (block_id b) = Some (block_row_of document b)"

lemma own_joined:
  assumes "own_document db d" and "block_stored d b db"
    and "map_of (ld_evidence_sha db) (evidence_sha256 sha b) = Some (e, t)"
  shows "joined sha (map_of (ld_blocks db)) (map_of (ld_evidence_sha db)) (processing_document db d) (block_id b) e"
proof -
  have p: "processing_document db d = d" using assms(1) by (simp add: own_document_def)
  have row: "map_of (ld_blocks db) (block_id b) = Some (block_row_of d b)"
    using assms(2) by (simp only: block_stored_def)
  have doc: "bk_document (block_row_of d b) = d" by (simp add: block_row_of_def)
  show ?thesis unfolding joined_def p using row doc assms(3) row_fingerprint_block_row by blast
qed

lemma own_mirrors:
  assumes own: "own_document db d" and all: "\<forall>x. mirrors db x (processing_document db x)"
    and fresh: "(d, block) \<notin> fst ` set (ld_occurrences db)"
  shows "mirrors (db\<lparr>ld_occurrences := ld_occurrences db @ [((d, block), e, n)]\<rparr>) x
      (processing_document (db\<lparr>ld_occurrences := u\<rparr>) x)"
proof -
  have "processing_document (db\<lparr>ld_occurrences := u\<rparr>) x = processing_document db x"
    by (simp add: processing_document_def)
  moreover have "x = processing_document db x \<or> x \<noteq> d \<and> processing_document db x \<noteq> d"
    using own unfolding own_document_def by metis
  moreover have "mirrors db x (processing_document db x)" using all by blast
  ultimately show ?thesis using new_occurrence_mirrors [OF _ _ fresh] by presburger
qed

lemma add_own_occurrence:
  assumes ok: "library_ok sha db" and own: "own_document db d" and b: "block_stored d b db"
    and doc: "d \<in> fst ` set (ld_documents db)" and fresh: "(d, block_id b) \<notin> fst ` set (ld_occurrences db)"
    and k: "map_of (ld_evidence_sha db) (evidence_sha256 sha b) = Some (e, t)"
    and db': "db' = db\<lparr>ld_occurrences := ld_occurrences db @ [((d, block_id b), e, block_ordinal b)]\<rparr>"
  shows "library_ok sha db'" and "fragments_frame db db'" and "fragment_placed sha d b db'"
proof -
  have "occurrences_ok sha db'"
    unfolding db' using ok doc fresh own_joined [OF own b k] by (intro new_occurrence_ok) (auto simp: library_ok_def)
  moreover have "\<forall>x. mirrors db' x (processing_document db' x)"
    unfolding db' using own_mirrors [OF own _ fresh] ok by (auto simp: library_ok_def)
  ultimately show "library_ok sha db'"
    using ok by (simp add: library_ok_def db' documents_ok_def fingerprints_ok_def shared_evidence_ok_def)
  show "fragments_frame db db'"
    by (simp add: fragments_frame_def db' append_extends [OF fresh])
  show "fragment_placed sha d b db'"
    using k fresh by (auto simp: fragment_placed_def db' lookup_append)
qed

lemma publish_fragment_ok:
  assumes p: "publish_fragment sha d now (e, b) db = Inr (k, db')"
    and ok: "library_ok sha db" and own: "own_document db d" and b: "block_stored d b db"
  shows "library_ok sha db' \<and> fragments_frame db db' \<and> fragment_placed sha d b db' \<and> own_document db' d"
proof -
  from p have "library_ok sha db' \<and> fragments_frame db db' \<and> fragment_placed sha d b db'"
  proof (cases rule: publish_fragment_Inr)
    case (shared c t)
    then show ?thesis using add_own_occurrence [OF ok own b _ _ shared(1) shared(5)] by blast
  next
    case (first r db1)
    have "shared_evidence_ok sha db1"
      unfolding first(8) using ok first(1,3,4,5) b row_fingerprint_block_row
      by (intro new_evidence_ok [where b = "block_row_of d b"]) (auto simp: library_ok_def block_stored_def block_row_of_def)
    moreover have "occurrences_ok sha db1"
      unfolding first(8) using ok first(1) by (intro more_evidence_occurrences) (auto simp: library_ok_def)
    ultimately have ok1: "library_ok sha db1"
      using ok by (simp add: library_ok_def first(8) documents_ok_def fingerprints_ok_def mirrors_def processing_document_def)
    have own1: "own_document db1 d" "block_stored d b db1"
      using own b by (simp_all add: own_document_def block_stored_def processing_document_def first(8))
    have "map_of (ld_evidence_sha db1) (evidence_sha256 sha b) = Some (e, now)"
      using first(1) by (simp add: first(8) lookup_append)
    from add_own_occurrence [OF ok1 own1 _ _ this first(9)] first(6,7)
    have "library_ok sha db'" "fragments_frame db1 db'" "fragment_placed sha d b db'" by (simp_all add: first(8))
    moreover have "fragments_frame db db1"
      using first(1,3) by (simp add: fragments_frame_def first(8) append_extends)
    ultimately show ?thesis using fragments_frame_trans by blast
  qed
  moreover from this own have "own_document db' d"
    by (simp add: fragments_frame_def own_document_def processing_document_def)
  ultimately show ?thesis by blast
qed

lemma publish_fragments_ok:
  "publish_fragments sha d now evidence db = Inr (n, db') \<Longrightarrow> library_ok sha db \<Longrightarrow> own_document db d \<Longrightarrow>
    \<forall>eb \<in> set evidence. block_stored d (snd eb) db \<Longrightarrow>
    library_ok sha db' \<and> fragments_frame db db' \<and> own_document db' d \<and>
    (\<forall>eb \<in> set evidence. fragment_placed sha d (snd eb) db') \<and>
    length (occurrences_of db' d) = length (occurrences_of db d) + length evidence"
proof (induction evidence arbitrary: db n)
  case Nil
  then show ?case by (simp add: fragments_frame_refl)
next
  case (Cons eb evidence)
  obtain e b where eb: "eb = (e, b)" by (cases eb)
  with Cons.prems(1) obtain k db1 m where first: "publish_fragment sha d now (e, b) db = Inr (k, db1)"
    and rest: "publish_fragments sha d now evidence db1 = Inr (m, db')"
    by (auto simp: res_bind_Inr_iff split: prod.splits)
  note step = publish_fragment_ok [OF first Cons.prems(2,3)]
  have b: "block_stored d b db" using Cons.prems(4) eb by simp
  then have "\<forall>eb \<in> set evidence. block_stored d (snd eb) db1"
    using step Cons.prems(4) by (auto simp: fragments_frame_def block_stored_def)
  note IH = Cons.IH [OF rest _ _ this]
  have count: "length (occurrences_of db1 d) = Suc (length (occurrences_of db d))"
    using first by (cases rule: publish_fragment_Inr) (simp_all add: occurrences_of_def)
  have "fragment_placed sha d b db'" using step IH b fragment_placed_frame by blast
  with step IH b count show ?case by (auto simp: eb intro: fragments_frame_trans)
qed

subsection \<open>A new body\<close>

lemma library_ok_frame [simp]:
  "library_ok sha (db\<lparr>ld_import := i\<rparr>) = library_ok sha db"
  "library_ok sha (db\<lparr>ld_images := t\<rparr>) = library_ok sha db"
  by (simp_all add: library_ok_def documents_ok_def fingerprints_ok_def shared_evidence_ok_def occurrences_ok_def
      mirrors_def processing_document_def)

lemma persist_source_images_Inr:
  "persist_source_images lower d now images db = Inr db' \<Longrightarrow> \<exists>t. db' = db\<lparr>ld_images := t\<rparr>"
proof (induction images arbitrary: db)
  case Nil
  then show ?case by (auto intro: exI [of _ "ld_images db"])
next
  case (Cons i images)
  then obtain db1 where first: "persist_source_image lower d now i db = Inr db1"
    and rest: "persist_source_images lower d now images db1 = Inr db'"
    by (auto simp: res_bind_Inr_iff)
  from first obtain u where "db1 = db\<lparr>ld_images := u\<rparr>"
    by (auto simp: insert_defs res_bind_Inr_iff)
  with Cons.IH [OF rest] show ?case by auto
qed

text \<open>A registered original is its own document, and no other is a duplicate of it.\<close>

lemma registered_own:
  assumes r: "registered pb body None now db db2" and ok: "fingerprints_ok db"
  shows "own_document db2 (pb_document pb)"
proof -
  have new: "pb_document pb \<notin> fst ` set (ld_fingerprints db)" using r by (simp add: registered_def)
  have "processing_document db x \<noteq> pb_document pb" if "x \<noteq> pb_document pb" for x
  proof
    assume "processing_document db x = pb_document pb"
    with that obtain f where "map_of (ld_fingerprints db) x = Some f" "df_canonical f = Some (pb_document pb)"
      by (auto simp: processing_document_def bind_eq_Some_conv split: option.splits)
    with ok have "\<exists>g. map_of (ld_fingerprints db) (pb_document pb) = Some g"
      unfolding fingerprints_ok_def by blast
    with new show False by (simp add: lookup_fresh)
  qed
  then show ?thesis by (simp add: own_document_def registered_frame(8) [OF r])
qed

lemma registered_library_ok:
  assumes r: "registered pb body canonical now db db2" and ok: "library_ok sha db" and "original_of db body canonical"
  shows "documents_ok db2 \<and> fingerprints_ok db2 \<and> shared_evidence_ok sha db2 \<and> occurrences_ok sha db2 \<and>
    (\<forall>x. x \<noteq> pb_document pb \<longrightarrow> mirrors db2 x (processing_document db2 x))"
  using assms registered_documents_ok registered_fingerprints_ok registered_rest_ok [OF r]
  by (simp add: library_ok_def registered_frame(8) [OF r])

text \<open>What a new body adds.\<close>

definition published_new ::
  "(string \<Rightarrow> string) \<Rightarrow> publication \<Rightarrow> ir_block list \<Rightarrow> (string \<times> ir_block) list \<Rightarrow> string \<Rightarrow> string \<Rightarrow>
    library_db \<Rightarrow> library_db \<Rightarrow> bool" where
  "published_new sha pb blocks evidence body now db db' \<longleftrightarrow>
     ld_documents db' = ld_documents db @ [(pb_document pb, \<lparr>sd_asset = pb_sha256 pb, sd_name = pb_name pb,
        sd_format = pb_format pb, sd_availability = Available, sd_created = now, sd_available_at = Some now\<rparr>)] \<and>
     map_of (ld_fingerprints db') (pb_document pb) =
       Some \<lparr>df_body = body, df_canonical = None, df_created = now\<rparr> \<and>
     (\<forall>b \<in> set blocks. block_stored (pb_document pb) b db') \<and>
     (\<forall>eb \<in> set evidence. fragment_placed sha (pb_document pb) (snd eb) db') \<and>
     length (occurrences_of db' (pb_document pb)) = length evidence \<and>
     map_of (ld_evidence db) \<subseteq>\<^sub>m map_of (ld_evidence db') \<and>
     map_of (ld_evidence_sha db) \<subseteq>\<^sub>m map_of (ld_evidence_sha db') \<and>
     map_of (ld_occurrences db) \<subseteq>\<^sub>m map_of (ld_occurrences db')"

lemma occurrences_of_absent:
  assumes "occurrences_ok sha db" and "d \<notin> fst ` set (ld_documents db)"
  shows "occurrences_of db d = []"
proof -
  have "fst (fst kv) \<noteq> d" if "kv \<in> set (ld_occurrences db)" for kv
  proof -
    obtain x block e n where kv: "kv = ((x, block), e, n)" by (metis prod.exhaust)
    with that assms(1) have "map_of (ld_occurrences db) (x, block) = Some (e, n)"
      by (simp add: occurrences_ok_def map_of_eq_Some_iff)
    with assms(1) have "x \<in> fst ` set (ld_documents db)" unfolding occurrences_ok_def by blast
    with assms(2) kv show ?thesis by auto
  qed
  then show ?thesis by (auto simp: occurrences_of_def filter_empty_conv)
qed

lemma publish_document_in_new:
  assumes p: "publish_document_in sha lower st pb blocks evidence images body now db = Inr ((document, shared), db')"
    and none: "find_available_document_in db (pb_sha256 pb) = None"
    and ok: "library_ok sha db" and sub: "snd ` set evidence \<subseteq> set blocks"
  shows "library_ok sha db' \<and> published_new sha pb blocks evidence body now db db' \<and>
    document = \<lparr>idoc_id = pb_document pb, idoc_name = pb_name pb, idoc_format = pb_format pb,
      idoc_sha256 = pb_sha256 pb, idoc_evidence_count = length evidence, idoc_availability = ''available''\<rparr>"
proof -
  from p none obtain db1 db2 db3 db4 db5 n idb where
    reg1: "insert_raw_and_source_document pb now db = Inr db1" and
    reg2: "insert_fingerprint (pb_document pb) body None now db1 = Inr db2" and
    bl: "insert_blocks (pb_document pb) blocks db2 = Inr db3" and
    fr: "publish_fragments sha (pb_document pb) now evidence db3 = Inr (n, db4)" and
    im: "persist_source_images lower (pb_document pb) now images db4 = Inr db5" and
    doc: "document = \<lparr>idoc_id = pb_document pb, idoc_name = pb_name pb, idoc_format = pb_format pb,
      idoc_sha256 = pb_sha256 pb, idoc_evidence_count = length evidence, idoc_availability = ''available''\<rparr>" and
    last: "db' = db5\<lparr>ld_import := idb\<rparr>"
    by (auto simp: publish_document_in_def res_bind_Inr_iff Let_def split: prod.splits)
  note r = register_document [OF reg1 reg2]
  let ?d = "pb_document pb"
  have "original_of db body None" by (simp add: original_of_def)
  note ok2 = registered_library_ok [OF r ok this]
  have own2: "own_document db2 ?d" using r ok by (intro registered_own) (auto simp: library_ok_def)
  then have "processing_document db2 ?d = ?d" by (simp only: own_document_def)
  then have "mirrors db2 ?d (processing_document db2 ?d)" by (simp add: mirrors_def)
  with ok2 have ok2: "library_ok sha db2" unfolding library_ok_def by metis
  have tb: "table_ok (ld_blocks db2)" "readable_blocks (ld_blocks db2)"
    using ok2 by (simp_all add: library_ok_def shared_evidence_ok_def)
  from insert_blocks_Inr [OF bl tb(1)] tb(2) obtain t where db3: "db3 = db2\<lparr>ld_blocks := t\<rparr>"
    and tok: "table_ok t" "readable_blocks t"
    and le: "map_of (ld_blocks db2) \<subseteq>\<^sub>m map_of t" and stored: "\<forall>b \<in> set blocks. block_stored ?d b db3"
    by (auto simp: block_stored_def)
  have ok3: "library_ok sha db3"
    using ok2 more_blocks_ok [OF le tok] by (simp add: library_ok_def db3)
  have own3: "own_document db3 ?d" using own2 by (simp add: own_document_def db3 processing_document_def)
  have "\<forall>eb \<in> set evidence. block_stored ?d (snd eb) db3" using stored sub by auto
  note f = publish_fragments_ok [OF fr ok3 own3 this]
  from im obtain u where db5: "db5 = db4\<lparr>ld_images := u\<rparr>" using persist_source_images_Inr by blast
  have same: "ld_documents db' = ld_documents db5" "ld_fingerprints db' = ld_fingerprints db5"
    "ld_blocks db' = ld_blocks db5" "ld_evidence db' = ld_evidence db5" "ld_evidence_sha db' = ld_evidence_sha db5"
    "ld_occurrences db' = ld_occurrences db5"
    by (simp_all add: last)
  have "library_ok sha db'" using f by (simp add: last db5)
  moreover have "occurrences_of db3 ?d = []"
    using ok r occurrences_of_absent [of sha db ?d] registered_frame(5) [OF r]
    by (simp add: occurrences_of_def db3 library_ok_def registered_def)
  then have "length (occurrences_of db' ?d) = length evidence"
    using f by (simp add: occurrences_of_def same db5)
  then have "published_new sha pb blocks evidence body now db db'"
    using f stored registered_frame(2-5,7) [OF r] registered_documents [OF r]
    by (simp add: published_new_def same db5 db3 fragments_frame_def block_stored_def fragment_placed_def)
  ultimately show ?thesis using doc by blast
qed

end
