(* ===== verification/ContentReuse.thy ===== *)
theory ContentReuse
  imports LibraryInvariant ImportMachine
begin

section \<open>Reuse of published content\<close>

text \<open>
  The content duplicate (D1) and the raw duplicate (D0), the machine of the published
  library, and what the publications promise: consistency in every reachable state, one
  document for each raw asset, shared Evidence, duplicates that answer like their original.
\<close>

subsection \<open>Copied occurrences\<close>

declare map_of_eq_Some_iff [simp del] map_of_append [simp del]

lemma insert_occurrence_Inr:
  "insert_occurrence d block e n db = Inr db' \<Longrightarrow>
    (d, block) \<notin> fst ` set (ld_occurrences db) \<and> d \<in> fst ` set (ld_documents db) \<and>
    db' = db\<lparr>ld_occurrences := ld_occurrences db @ [((d, block), e, n)]\<rparr>"
  by (simp add: insert_occurrence_def res_bind_Inr_iff insert_row_Inr)

lemma copy_occurrences_Inr:
  "copy_occurrences d rows db = Inr db' \<Longrightarrow>
    db' = db\<lparr>ld_occurrences := ld_occurrences db @ map (\<lambda>((q, block), v). ((d, block), v)) rows\<rparr> \<and>
    (table_ok (ld_occurrences db) \<longrightarrow> table_ok (ld_occurrences db')) \<and>
    (rows \<noteq> [] \<longrightarrow> d \<in> fst ` set (ld_documents db))"
proof (induction rows arbitrary: db)
  case (Cons row rows)
  obtain q block e n where row: "row = ((q, block), e, n)" by (metis prod.exhaust)
  with Cons.prems obtain db1 where first: "insert_occurrence d block e n db = Inr db1"
    and rest: "copy_occurrences d rows db1 = Inr db'"
    by (auto simp: res_bind_Inr_iff)
  note i = insert_occurrence_Inr [OF first] and IH = Cons.IH [OF rest]
  have "table_ok (ld_occurrences db) \<longrightarrow> table_ok (ld_occurrences db1)" using i by simp
  with IH have "table_ok (ld_occurrences db) \<longrightarrow> table_ok (ld_occurrences db')" by blast
  moreover have "db' = db\<lparr>ld_occurrences :=
      ld_occurrences db @ map (\<lambda>((q, block), v). ((d, block), v)) (row # rows)\<rparr>"
    using i IH by (simp add: row)
  ultimately show ?case using i by blast
qed simp

text \<open>A copy of the occurrences of \<open>p\<close> under a document that has none.\<close>

lemma copied_lookup:
  assumes copy: "copy_occurrences d rows db = Inr db'" and tab: "table_ok (ld_occurrences db)"
    and rows: "set rows = {kv \<in> set (ld_occurrences db). fst (fst kv) = p}"
    and none: "occurrences_of db d = []"
  shows "map_of (ld_occurrences db') (x, block) =
    (if x = d then map_of (ld_occurrences db) (p, block) else map_of (ld_occurrences db) (x, block))"
proof -
  note c = copy_occurrences_Inr [OF copy]
  have tab': "table_ok (ld_occurrences db')" using c tab by blast
  have occ: "ld_occurrences db' = ld_occurrences db @ map (\<lambda>((q, block), v). ((d, block), v)) rows"
    by (subst conjunct1 [OF c]) simp
  have "((x, block), v) \<in> set (map (\<lambda>((q, block), v). ((d, block), v)) rows) \<longleftrightarrow>
      x = d \<and> ((p, block), v) \<in> set (ld_occurrences db)" for v
    unfolding set_map rows by force
  moreover have "((d, block), v) \<notin> set (ld_occurrences db)" for v
    using none by (auto simp: occurrences_of_def filter_empty_conv)
  ultimately have *: "((x, block), v) \<in> set (ld_occurrences db') \<longleftrightarrow>
      ((if x = d then p else x, block), v) \<in> set (ld_occurrences db)" for v
    unfolding occ set_append Un_iff by (cases "x = d") simp_all
  have "map_of (ld_occurrences db') (x, block) = Some v \<longleftrightarrow>
      map_of (ld_occurrences db) (if x = d then p else x, block) = Some v" for v
    using * [of v] tab tab' by (simp add: map_of_eq_Some_iff)
  then have "map_of (ld_occurrences db') (x, block) = map_of (ld_occurrences db) (if x = d then p else x, block)"
    by (metis not_None_eq)
  then show ?thesis by (simp split: if_splits)
qed

text \<open>The original of a document with a fingerprint.\<close>

lemma processing_original:
  assumes "fingerprints_ok db" and "map_of (ld_fingerprints db) c = Some f"
  obtains g where "map_of (ld_fingerprints db) (processing_document db c) = Some g"
    and "df_canonical g = None" and "df_body g = df_body f"
proof (cases "df_canonical f")
  case None
  with assms(2) that show ?thesis by (simp add: processing_document_def)
next
  case (Some p)
  with assms obtain g where "map_of (ld_fingerprints db) p = Some g" "df_canonical g = None" "df_body g = df_body f"
    unfolding fingerprints_ok_def by blast
  with Some assms(2) that show ?thesis by (simp add: processing_document_def)
qed

lemma processing_idem:
  "fingerprints_ok db \<Longrightarrow> processing_document db (processing_document db d) = processing_document db d"
proof (cases "map_of (ld_fingerprints db) d")
  case None
  then show ?thesis by (simp add: processing_document_def)
next
  case (Some f)
  assume "fingerprints_ok db"
  from processing_original [OF this Some] obtain g where
    "map_of (ld_fingerprints db) (processing_document db d) = Some g" "df_canonical g = None" by blast
  then show ?thesis by (simp add: processing_document_def [of db "processing_document db d"])
qed

subsection \<open>A duplicate of a known body\<close>

text \<open>The writes of the D1 branch.\<close>

lemma publish_content_duplicate_in_new:
  assumes p: "publish_content_duplicate_in lower st pb images body canonical now db = Inr ((document, shared), db')"
    and none: "find_available_document_in db (pb_sha256 pb) = None"
  obtains f db1 db2 db3 idb images' where
    "map_of (ld_fingerprints db) (idoc_id canonical) = Some f" "df_body f = body"
    "insert_raw_and_source_document pb now db = Inr db1"
    "insert_fingerprint (pb_document pb) body (Some (processing_document db (idoc_id canonical))) now db1 = Inr db2"
    "copy_occurrences (pb_document pb)
       (sort_key (snd \<circ> snd) (occurrences_of db2 (processing_document db (idoc_id canonical)))) db2 = Inr db3"
    "db' = db3\<lparr>ld_images := images', ld_import := idb\<rparr>"
    "document = \<lparr>idoc_id = pb_document pb, idoc_name = pb_name pb, idoc_format = pb_format pb,
       idoc_sha256 = pb_sha256 pb, idoc_evidence_count = idoc_evidence_count canonical,
       idoc_availability = ''available''\<rparr>"
proof -
  from p none obtain d f where df: "map_of (ld_documents db) (idoc_id canonical) = Some d"
    "map_of (ld_fingerprints db) (idoc_id canonical) = Some f"
    by (auto simp: publish_content_duplicate_in_def split: option.splits)
  with p none have body: "df_body f = body" "sd_availability d = Available"
    by (auto simp: publish_content_duplicate_in_def split: if_splits)
  from p none df body obtain db1 db2 db3 db4 idb where
    1: "insert_raw_and_source_document pb now db = Inr db1"
    "insert_fingerprint (pb_document pb) body (Some (processing_document db (idoc_id canonical))) now db1 = Inr db2"
    "copy_occurrences (pb_document pb)
       (sort_key (snd \<circ> snd) (occurrences_of db2 (processing_document db (idoc_id canonical)))) db2 = Inr db3"
    and 2: "persist_source_images lower (pb_document pb) now images db3 = Inr db4"
    and 3: "db' = db4\<lparr>ld_import := idb\<rparr>"
    "document = \<lparr>idoc_id = pb_document pb, idoc_name = pb_name pb, idoc_format = pb_format pb,
       idoc_sha256 = pb_sha256 pb, idoc_evidence_count = idoc_evidence_count canonical,
       idoc_availability = ''available''\<rparr>"
    by (auto simp: publish_content_duplicate_in_def res_bind_Inr_iff Let_def)
  from persist_source_images_Inr [OF 2] obtain u where "db4 = db3\<lparr>ld_images := u\<rparr>" by blast
  with 1 3 df(2) body(1) show ?thesis by (intro that [of f db1 db2 db3 idb u]) simp_all
qed

lemma occurrence_entry:
  "occurrences_ok sha db \<Longrightarrow> map_of (ld_occurrences db) (d, block) = Some (e, n) \<Longrightarrow>
    d \<in> fst ` set (ld_documents db) \<and>
    joined sha (map_of (ld_blocks db)) (map_of (ld_evidence_sha db)) (processing_document db d) block e"
  unfolding occurrences_ok_def by blast

lemma duplicate_occurrences_ok:
  assumes reg: "registered pb body (Some p) now db db2" and ok: "library_ok sha db"
    and own: "processing_document db p = p" and "p \<noteq> pb_document pb"
    and look: "\<And>x block. map_of (ld_occurrences db3) (x, block) =
      (if x = pb_document pb then map_of (ld_occurrences db2) (p, block) else map_of (ld_occurrences db2) (x, block))"
    and tab: "table_ok (ld_occurrences db3)" and db3: "db3 = db2\<lparr>ld_occurrences := u\<rparr>"
  shows "occurrences_ok sha db3 \<and> (\<forall>x. mirrors db3 x (processing_document db3 x))"
proof -
  have pd: "processing_document db3 x = processing_document db2 x" for x
    by (simp add: db3 processing_document_def)
  have docs: "ld_documents db3 = ld_documents db2" by (simp add: db3)
  have dp: "processing_document db2 (pb_document pb) = p" by (simp add: registered_frame(8) [OF reg])
  have old: "map_of (ld_occurrences db2) (x, block) = Some (e, n) \<Longrightarrow> x \<in> fst ` set (ld_documents db3) \<and>
      joined sha (map_of (ld_blocks db3)) (map_of (ld_evidence_sha db3)) (processing_document db2 x) block e" for x block e n
    using occurrence_entry [OF registered_rest_ok(2) [OF reg, of sha], of x block e n] ok
    by (simp add: library_ok_def db3)
  have pp: "processing_document db2 p = p"
    using own assms(4) by (simp add: registered_frame(8) [OF reg])
  have "x \<in> fst ` set (ld_documents db3) \<and>
      joined sha (map_of (ld_blocks db3)) (map_of (ld_evidence_sha db3)) (processing_document db3 x) block e"
    if "map_of (ld_occurrences db3) (x, block) = Some (e, n)" for x block e n
  proof (cases "x = pb_document pb")
    case True
    with that look have "map_of (ld_occurrences db2) (p, block) = Some (e, n)" by simp
    from old [OF this] True show ?thesis
      by (simp add: pd dp pp docs registered_frame(6) [OF reg])
  next
    case False
    with that look have "map_of (ld_occurrences db2) (x, block) = Some (e, n)" by simp
    from old [OF this] show ?thesis by (simp add: pd)
  qed
  with tab have "occurrences_ok sha db3" by (simp add: occurrences_ok_def)
  moreover have "mirrors db3 x (processing_document db3 x)" for x
  proof (cases "x = pb_document pb")
    case True
    then show ?thesis using assms(4) by (simp add: mirrors_def pd dp look)
  next
    case False
    have "processing_document db2 x \<noteq> pb_document pb"
    proof (cases "map_of (ld_fingerprints db) x")
      case None
      then have "processing_document db x = x" by (simp add: processing_document_def)
      with False show ?thesis by (simp add: registered_frame(8) [OF reg])
    next
      case (Some f)
      have "fingerprints_ok db" using ok by (simp add: library_ok_def)
      from processing_original [OF this Some]
      obtain g where "map_of (ld_fingerprints db) (processing_document db x) = Some g" by blast
      moreover have "map_of (ld_fingerprints db) (pb_document pb) = None"
        using reg by (simp add: registered_def lookup_fresh)
      ultimately show ?thesis using False by (auto simp: registered_frame(8) [OF reg])
    qed
    moreover have "mirrors db2 x (processing_document db2 x)"
      using registered_rest_ok(3) [OF reg] ok False by (simp add: library_ok_def registered_frame(8) [OF reg])
    ultimately show ?thesis using False by (simp add: mirrors_def pd look)
  qed
  ultimately show ?thesis by blast
qed

definition published_duplicate :: "publication \<Rightarrow> string \<Rightarrow> string \<Rightarrow> string \<Rightarrow> library_db \<Rightarrow> library_db \<Rightarrow> bool" where
  "published_duplicate pb body p now db db' \<longleftrightarrow>
     ld_documents db' = ld_documents db @ [(pb_document pb, \<lparr>sd_asset = pb_sha256 pb, sd_name = pb_name pb,
        sd_format = pb_format pb, sd_availability = Available, sd_created = now, sd_available_at = Some now\<rparr>)] \<and>
     map_of (ld_fingerprints db') (pb_document pb) =
       Some \<lparr>df_body = body, df_canonical = Some p, df_created = now\<rparr> \<and>
     mirrors db' (pb_document pb) p \<and>
     ld_blocks db' = ld_blocks db \<and> ld_evidence db' = ld_evidence db \<and> ld_fts db' = ld_fts db \<and>
     ld_evidence_sha db' = ld_evidence_sha db \<and>
     length (occurrences_of db' p) = length (occurrences_of db p)"

lemma publish_content_duplicate_in_ok:
  assumes p: "publish_content_duplicate_in lower st pb images body canonical now db = Inr ((document, shared), db')"
    and none: "find_available_document_in db (pb_sha256 pb) = None"
    and ok: "library_ok sha db"
  shows "library_ok sha db' \<and>
    published_duplicate pb body (processing_document db (idoc_id canonical)) now db db' \<and>
    document = \<lparr>idoc_id = pb_document pb, idoc_name = pb_name pb, idoc_format = pb_format pb,
      idoc_sha256 = pb_sha256 pb, idoc_evidence_count = idoc_evidence_count canonical,
      idoc_availability = ''available''\<rparr>"
  using p none
proof (rule publish_content_duplicate_in_new, goal_cases)
  case (1 f db1 db2 db3 idb images')
  let ?p = "processing_document db (idoc_id canonical)" and ?d = "pb_document pb"
  let ?rows = "sort_key (snd \<circ> snd) (occurrences_of db2 ?p)"
  note reg = register_document [OF 1(3,4)]
  have fp: "fingerprints_ok db" using ok by (simp add: library_ok_def)
  from processing_original [OF fp 1(1)] obtain g where
    g: "map_of (ld_fingerprints db) ?p = Some g" "df_canonical g = None" "df_body g = body" using 1(2) by auto
  then have "original_of db body (Some ?p)" by (simp add: original_of_def)
  note ok2 = registered_library_ok [OF reg ok this]
  have new: "?d \<notin> fst ` set (ld_documents db)" "?d \<notin> fst ` set (ld_fingerprints db)"
    using reg by (simp_all add: registered_def)
  have neq: "?p \<noteq> ?d" using g(1) new(2) by (auto simp: lookup_fresh)
  have tab2: "table_ok (ld_occurrences db2)" using ok2 by (simp add: occurrences_ok_def)
  have "occurrences_of db2 ?d = []"
    using occurrences_of_absent [of sha db ?d] ok new(1) registered_frame(5) [OF reg]
    by (simp add: occurrences_of_def library_ok_def)
  moreover have "set ?rows = {kv \<in> set (ld_occurrences db2). fst (fst kv) = ?p}"
    by (auto simp: occurrences_of_def)
  ultimately have look: "map_of (ld_occurrences db3) (x, block) =
      (if x = ?d then map_of (ld_occurrences db2) (?p, block) else map_of (ld_occurrences db2) (x, block))" for x block
    using copied_lookup [OF 1(5) tab2] by blast
  note c = copy_occurrences_Inr [OF 1(5)]
  have tab3: "table_ok (ld_occurrences db3)" using c tab2 by blast
  obtain u where db3: "db3 = db2\<lparr>ld_occurrences := u\<rparr>"
    and u: "u = ld_occurrences db2 @ map (\<lambda>((q, block), v). ((?d, block), v)) ?rows" using c by blast
  have occ3: "occurrences_ok sha db3 \<and> (\<forall>x. mirrors db3 x (processing_document db3 x))"
    using duplicate_occurrences_ok [OF reg ok processing_idem [OF fp] neq look tab3 db3] .
  moreover have "documents_ok db3" "fingerprints_ok db3" "shared_evidence_ok sha db3"
    using ok2 by (simp_all add: db3 documents_ok_def fingerprints_ok_def shared_evidence_ok_def)
  ultimately have "library_ok sha db3" by (simp add: library_ok_def)
  then have lib: "library_ok sha db'" unfolding 1(6) by simp
  have "filter (\<lambda>kv. fst (fst kv) = ?p) (map (\<lambda>((q, block), v). ((?d, block), v)) ?rows) = []"
    using neq by (auto simp: filter_empty_conv)
  then have count: "length (occurrences_of db' ?p) = length (occurrences_of db ?p)"
    by (simp add: 1(6) occurrences_of_def db3 u registered_frame(5) [OF reg])
  have "mirrors db3 ?d ?p" using neq by (simp add: mirrors_def look)
  moreover have "ld_fts db2 = ld_fts db" using reg by (auto simp: registered_def)
  ultimately have "published_duplicate pb body ?p now db db'"
    using registered_documents [OF reg] registered_frame [OF reg] count
    by (simp add: published_duplicate_def 1(6) db3 mirrors_def)
  with lib 1(7) show ?case by blast
qed

subsection \<open>Finding what was published\<close>

lemma first_row_filter_unique:
  assumes "kv \<in> set xs" "P kv" "\<And>kv'. kv' \<in> set xs \<Longrightarrow> P kv' \<Longrightarrow> kv' = kv"
  shows "first_row (filter P xs) = Some kv"
proof -
  have "kv \<in> set (filter P xs)" using assms(1,2) by simp
  then obtain y ys where ys: "filter P xs = y # ys" by (cases "filter P xs") auto
  then have "y \<in> set (filter P xs)" by simp
  then have "y \<in> set xs" "P y" by simp_all
  then have "y = kv" by (rule assms(3))
  with ys show ?thesis by (simp add: first_row_def)
qed

text \<open>An available document is found by its raw asset, and is the only one.\<close>

lemma find_available_document:
  assumes ok: "documents_ok db" and row: "(d, r) \<in> set (ld_documents db)" and "sd_availability r = Available"
  shows "find_available_document_in db (sd_asset r) = Some (document_from_row db (d, r))"
proof -
  have inj: "inj_on (sd_asset \<circ> snd) (set (ld_documents db))" using ok by (simp add: documents_ok_def distinct_map)
  have "kv' = (d, r)" if "kv' \<in> set (ld_documents db)" "sd_asset (snd kv') = sd_asset r" for kv'
    using inj_onD [OF inj, of kv' "(d, r)"] that row by simp
  then have "first_row (filter (\<lambda>kv. sd_asset (snd kv) = sd_asset r \<and> sd_availability (snd kv) = Available)
      (ld_documents db)) = Some (d, r)"
    by (intro first_row_filter_unique [OF row]) (use assms(3) in simp, blast)
  then show ?thesis by (simp add: find_available_document_in_def)
qed

subsection \<open>The machine of the published library\<close>

text \<open>
  Publications and the transitions of the import store, over one database.  The runner
  publishes Evidence of the blocks it publishes.
\<close>

inductive library_step :: "(string \<Rightarrow> string) \<Rightarrow> library_db \<Rightarrow> library_db \<Rightarrow> bool" for sha where
  step_import: "import_step (ld_import db) i \<Longrightarrow> library_step sha db (db\<lparr>ld_import := i\<rparr>)"
| step_publish: "snd ` set evidence \<subseteq> set blocks \<Longrightarrow>
    library_step sha db (snd (publish_document sha lower st pb blocks evidence images body before_commit now db))"
| step_duplicate: "library_step sha db
    (snd (complete_content_duplicate_job lower st pb images body canonical before_commit now db))"

inductive library_reachable :: "(string \<Rightarrow> string) \<Rightarrow> library_db \<Rightarrow> bool" for sha where
  library_start: "library_reachable sha library_empty"
| library_next: "library_reachable sha db \<Longrightarrow> library_step sha db db' \<Longrightarrow> library_reachable sha db'"

lemma transaction_cases:
  obtains (rolled_back) "snd (transaction r before_commit db) = db"
  | (committed) document shared where "r = Inr ((document, shared), snd (transaction r before_commit db))"
      "before_commit document shared = None" "fst (transaction r before_commit db) = Inr (document, shared)"
  by (cases r; cases "before_commit (fst (fst (projr r))) (snd (fst (projr r)))")
    (auto simp: transaction_def split: sum.splits option.splits)

text \<open>The import tables of a library take only steps of the import machine.\<close>

lemma insert_keeps_imports:
  "insert_raw_and_source_document pb now db = Inr db' \<Longrightarrow> ld_import db' = ld_import db"
  "insert_fingerprint document body canonical now db = Inr db' \<Longrightarrow> ld_import db' = ld_import db"
  "insert_block document b db = Inr db' \<Longrightarrow> ld_import db' = ld_import db"
  "insert_evidence_ref document e b db = Inr db' \<Longrightarrow> ld_import db' = ld_import db"
  "insert_evidence_sha k e now db = Inr db' \<Longrightarrow> ld_import db' = ld_import db"
  "insert_occurrence document block e ordinal db = Inr db' \<Longrightarrow> ld_import db' = ld_import db"
  by (auto simp: insert_defs res_bind_Inr_iff)

lemma loops_keep_imports:
  "insert_blocks document blocks db = Inr db1 \<Longrightarrow> ld_import db1 = ld_import db"
  "copy_occurrences document rows db = Inr db2 \<Longrightarrow> ld_import db2 = ld_import db"
  "publish_fragments sha document now evidence db = Inr (n, db3) \<Longrightarrow> ld_import db3 = ld_import db"
  "persist_source_images lower document now images db = Inr db4 \<Longrightarrow> ld_import db4 = ld_import db"
  subgoal by (induction blocks arbitrary: db) (auto simp: res_bind_Inr_iff dest!: insert_keeps_imports)
  subgoal by (induction document rows db rule: copy_occurrences.induct)
    (auto simp: res_bind_Inr_iff dest!: insert_keeps_imports)
  subgoal
  proof (induction evidence arbitrary: n db)
    case (Cons eb evidence)
    then obtain k db1 m where first: "publish_fragment sha document now eb db = Inr (k, db1)"
      and rest: "publish_fragments sha document now evidence db1 = Inr (m, db3)"
      by (auto simp: res_bind_Inr_iff)
    from first have "ld_import db1 = ld_import db"
      by (auto simp: publish_fragment_def Let_def res_bind_Inr_iff dest!: insert_keeps_imports split: option.splits)
    with Cons.IH [OF rest] show ?case by simp
  qed simp
  subgoal using persist_source_images_Inr by fastforce
  done

lemma publications_step_imports:
  "publish_document_in sha lower st pb blocks evidence images body now db = Inr (v, db1) \<Longrightarrow>
    import_step (ld_import db) (ld_import db1)"
  "publish_content_duplicate_in lower st pb images body canonical now db = Inr (v, db2) \<Longrightarrow>
    import_step (ld_import db) (ld_import db2)"
  subgoal
    by (auto simp: publish_document_in_def res_bind_Inr_iff split: option.splits
        dest!: insert_keeps_imports loops_keep_imports step_published)
  subgoal
    by (auto simp: publish_content_duplicate_in_def Let_def res_bind_Inr_iff split: option.splits if_splits
        dest!: insert_keeps_imports loops_keep_imports step_reused)
  done

lemma publish_document_in_existing:
  assumes "publish_document_in sha lower st pb blocks evidence images body now db = Inr ((document, shared), db')"
    and "find_available_document_in db (pb_sha256 pb) = Some existing"
  shows "document = existing \<and> shared \<and> (\<exists>i. db' = db\<lparr>ld_import := i\<rparr>)"
  using assms
  by (auto simp: publish_document_in_def res_bind_Inr_iff)

lemma publish_content_duplicate_in_existing:
  assumes "publish_content_duplicate_in lower st pb images body canonical now db = Inr ((document, shared), db')"
    and "find_available_document_in db (pb_sha256 pb) = Some existing"
  shows "document = existing \<and> shared \<and> (\<exists>i. db' = db\<lparr>ld_import := i\<rparr>)"
  using assms by (auto simp: publish_content_duplicate_in_def res_bind_Inr_iff)

lemma publish_document_in_library_ok:
  assumes "publish_document_in sha lower st pb blocks evidence images body now db = Inr ((document, shared), db')"
    and "library_ok sha db" and "snd ` set evidence \<subseteq> set blocks"
  shows "library_ok sha db'"
proof (cases "find_available_document_in db (pb_sha256 pb)")
  case None
  with publish_document_in_new [OF assms(1) None assms(2,3)] show ?thesis by blast
next
  case (Some existing)
  from publish_document_in_existing [OF assms(1) Some] assms(2) show ?thesis by auto
qed

lemma publish_content_duplicate_library_ok:
  assumes "publish_content_duplicate_in lower st pb images body canonical now db = Inr ((document, shared), db')"
    and "library_ok sha db"
  shows "library_ok sha db'"
proof (cases "find_available_document_in db (pb_sha256 pb)")
  case None
  with publish_content_duplicate_in_ok [OF assms(1) None assms(2)] show ?thesis by blast
next
  case (Some existing)
  from publish_content_duplicate_in_existing [OF assms(1) Some] assms(2) show ?thesis by auto
qed

lemma library_step_ok: "library_step sha db db' \<Longrightarrow> library_ok sha db \<Longrightarrow> library_ok sha db'"
proof (induction rule: library_step.induct)
  case (step_publish evidence blocks db lower st pb images body before_commit now)
  show ?case unfolding publish_document_def
  proof (cases rule: transaction_cases
      [of "publish_document_in sha lower st pb blocks evidence images body now db" before_commit db])
    case rolled_back
    then show "library_ok sha (snd (transaction
        (publish_document_in sha lower st pb blocks evidence images body now db) before_commit db))"
      using step_publish.prems by simp
  next
    case (committed document shared)
    from publish_document_in_library_ok [OF this(1) step_publish.prems step_publish.hyps]
    show "library_ok sha (snd (transaction
        (publish_document_in sha lower st pb blocks evidence images body now db) before_commit db))" .
  qed
next
  case (step_duplicate db lower st pb images body canonical before_commit now)
  let ?r = "publish_content_duplicate_in lower st pb images body canonical now db"
  have "snd (complete_content_duplicate_job lower st pb images body canonical before_commit now db) =
      snd (transaction ?r before_commit db)"
    by (auto simp: complete_content_duplicate_job_def split: prod.splits sum.splits)
  moreover have "library_ok sha (snd (transaction ?r before_commit db))"
  proof (cases rule: transaction_cases [of ?r before_commit db])
    case rolled_back
    with step_duplicate.prems show ?thesis by simp
  next
    case (committed document shared)
    from publish_content_duplicate_library_ok [OF this(1) step_duplicate.prems] show ?thesis .
  qed
  ultimately show ?case by simp
qed simp

lemma library_empty_ok: "library_ok sha library_empty"
  by (simp add: library_ok_def library_empty_def documents_ok_def fingerprints_ok_def shared_evidence_ok_def
      occurrences_ok_def readable_blocks_def mirrors_def processing_document_def)

lemma transaction_step_imports:
  "(\<And>v d. r = Inr (v, d) \<Longrightarrow> import_step (ld_import db) (ld_import d)) \<Longrightarrow>
    snd (transaction r before_commit db) = db \<or>
    import_step (ld_import db) (ld_import (snd (transaction r before_commit db)))"
  by (auto simp: transaction_def split: sum.splits option.splits)

lemma library_imports_reachable: "library_reachable sha db \<Longrightarrow> import_reachable (ld_import db)"
proof (induction rule: library_reachable.induct)
  case library_start
  show ?case by (simp add: library_empty_def reach_empty)
next
  case (library_next db db')
  from library_next.hyps(2) have "ld_import db' = ld_import db \<or> import_step (ld_import db) (ld_import db')"
  proof cases
    case step_publish
    then show ?thesis
      using transaction_step_imports publications_step_imports(1) by (metis publish_document_def)
  next
    case step_duplicate
    have "snd (complete_content_duplicate_job lower st pb images body canonical before_commit now db) =
        snd (transaction (publish_content_duplicate_in lower st pb images body canonical now db) before_commit db)"
      for lower st pb images body canonical before_commit now
      by (simp add: complete_content_duplicate_job_def split: prod.split sum.split)
    with step_duplicate show ?thesis
      using transaction_step_imports publications_step_imports(2) by metis
  qed simp
  with library_next.IH show ?case by (auto intro: reach_step)
qed

lemma library_reachable_ok: "library_reachable sha db \<Longrightarrow> library_ok sha db"
  by (induction rule: library_reachable.induct) (auto intro: library_empty_ok library_step_ok)

text \<open>
  C16: the published library is consistent in every state that imports reach.  Each raw asset
  has at most one document and every document its asset and fingerprint; a duplicate points
  at an original with the same body and has exactly its occurrences; there is one canonical
  Evidence for each fingerprint, anchored in a block of the document it was first seen in
  that has this fingerprint; and every occurrence joins a block of the document's body with
  the canonical Evidence of the same fingerprint.
\<close>

theorem published_library_consistent: "library_reachable sha db \<Longrightarrow> library_ok sha db"
  by (rule library_reachable_ok)

text \<open>One import of a document of two blocks with the same text.\<close>

definition sample_state :: import_state where
  "sample_state = \<lparr>js_job = ''job'', js_source = ''notes.md'', js_status = Rt_Running,
     js_stage_ids = map (\<lambda>stage. (stage, stage)) import_stages, js_recovery = None\<rparr>"

definition sample_publication :: publication where
  "sample_publication = \<lparr>pb_document = ''doc'', pb_name = ''notes.md'', pb_sha256 = ''asset'', pb_path = ''raw/asset.md'',
     pb_size = 9, pb_format = ''markdown'', pb_media_type = ''text/markdown''\<rparr>"

definition twin_block :: "string \<Rightarrow> int \<Rightarrow> ir_block" where
  "twin_block i n = \<lparr>block_id = i, block_ordinal = n, block_kind = ''paragraph'', block_text = ''same'',
     heading_path = [], line_start = n + 1, line_end = n + 1, block_locator = None\<rparr>"

definition sample_blocks :: "ir_block list" where
  "sample_blocks = [twin_block ''b0'' 0, twin_block ''b1'' 1]"

definition sample_evidence :: "(string \<times> ir_block) list" where
  "sample_evidence = [(''e0'', twin_block ''b0'' 0), (''e1'', twin_block ''b1'' 1)]"

definition before_sample :: library_db where
  "before_sample = library_empty\<lparr>ld_import := snd (create_job ''job'' (\<lambda>s. s) ''notes.md'' ''owner'' ''t9'' ''t0'' import_db_empty)\<rparr>"

definition publish_sample :: "library_db \<Rightarrow> (imported_document \<times> bool) res \<times> library_db" where
  "publish_sample = publish_document (\<lambda>s. s) (\<lambda>s. s) sample_state sample_publication sample_blocks sample_evidence []
     ''body'' (\<lambda>d b. None) ''t1''"

lemma before_sample_reachable: "library_reachable (\<lambda>s. s) before_sample"
proof -
  have "import_step (ld_import library_empty) (ld_import before_sample)"
    unfolding before_sample_def by (simp add: library_empty_def) (rule step_create)
  from library_next [OF library_start step_import [OF this]] show ?thesis by (simp add: before_sample_def)
qed

lemma sample_published:
  "fst (publish_sample before_sample) = Inr (\<lparr>idoc_id = ''doc'', idoc_name = ''notes.md'', idoc_format = ''markdown'',
     idoc_sha256 = ''asset'', idoc_evidence_count = 2, idoc_availability = ''available''\<rparr>, True)"
  "map snd (ld_occurrences (snd (publish_sample before_sample))) = [(''e0'', 0), (''e0'', 1)]"
  by code_simp+

theorem published_library_consistent_witness:
  "library_ok (\<lambda>s. s) (snd (publish_sample before_sample)) \<and>
   map snd (ld_occurrences (snd (publish_sample before_sample))) = [(''e0'', 0), (''e0'', 1)]"
proof -
  have "snd ` set sample_evidence \<subseteq> set sample_blocks" by code_simp
  then have "library_reachable (\<lambda>s. s) (snd (publish_sample before_sample))"
    unfolding publish_sample_def by (rule library_next [OF before_sample_reachable step_publish])
  then show ?thesis using published_library_consistent sample_published(2) by blast
qed

subsection \<open>What a publication returns\<close>

lemma found_frame [simp]:
  "find_available_document_in (db\<lparr>ld_import := i\<rparr>) asset = find_available_document_in db asset"
proof -
  have "document_from_row (db\<lparr>ld_import := i\<rparr>) = document_from_row db"
    by (auto simp: document_from_row_def occurrences_of_def processing_document_def)
  then show ?thesis by (simp add: find_available_document_in_def)
qed

lemma published_row_found:
  assumes ok: "library_ok sha db'"
    and docs: "ld_documents db' = docs @ [(d, \<lparr>sd_asset = asset, sd_name = name, sd_format = fmt,
        sd_availability = Available, sd_created = t, sd_available_at = u\<rparr>)]"
    and count: "length (occurrences_of db' (processing_document db' d)) = n"
  shows "find_available_document_in db' asset = Some \<lparr>idoc_id = d, idoc_name = name, idoc_format = fmt,
      idoc_sha256 = asset, idoc_evidence_count = n, idoc_availability = ''available''\<rparr>"
proof -
  let ?r = "\<lparr>sd_asset = asset, sd_name = name, sd_format = fmt, sd_availability = Available,
      sd_created = t, sd_available_at = u\<rparr>"
  have "find_available_document_in db' (sd_asset ?r) = Some (document_from_row db' (d, ?r))"
    using ok docs by (intro find_available_document) (simp_all add: library_ok_def)
  then show ?thesis using count by (simp add: document_from_row_def)
qed

lemma publish_document_committed:
  assumes "publish_document sha lower st pb blocks evidence images body before_commit now db = (Inr (document, shared), db')"
  shows "publish_document_in sha lower st pb blocks evidence images body now db = Inr ((document, shared), db')"
  using assms by (auto simp: publish_document_def transaction_def split: sum.splits option.splits prod.splits)

text \<open>
  C17: publishing is atomic and idempotent.  A publication that raises leaves every table as
  it was.  One that returns makes the returned document the one its raw asset is found by:
  for a known asset it is the document already there and only the import tables change; for
  a new one all blocks are stored, every Evidence of the import has an occurrence of the
  canonical Evidence of its fingerprint and the count the document reports is theirs.
\<close>

theorem publishing_is_atomic_and_idempotent:
  assumes "library_reachable sha db" and "snd ` set evidence \<subseteq> set blocks"
  shows "case publish_document sha lower st pb blocks evidence images body before_commit now db of
      (Inl e, db') \<Rightarrow> db' = db
    | (Inr (document, shared), db') \<Rightarrow>
        find_available_document_in db' (pb_sha256 pb) = Some document \<and>
        (case find_available_document_in db (pb_sha256 pb) of
           Some existing \<Rightarrow> document = existing \<and> shared \<and> (\<exists>i. db' = db\<lparr>ld_import := i\<rparr>)
         | None \<Rightarrow> idoc_id document = pb_document pb \<and> idoc_evidence_count document = length evidence \<and>
             published_new sha pb blocks evidence body now db db')"
proof -
  obtain r db' where r: "publish_document sha lower st pb blocks evidence images body before_commit now db = (r, db')"
    by (metis prod.exhaust)
  have ok: "library_ok sha db" using assms(1) by (rule library_reachable_ok)
  show ?thesis
  proof (cases r)
    case (Inl e)
    with r show ?thesis by (auto simp: publish_document_def transaction_def split: sum.splits option.splits prod.splits)
  next
    case (Inr ds)
    obtain document shared where ds: "ds = (document, shared)" by (cases ds)
    have p: "publish_document_in sha lower st pb blocks evidence images body now db = Inr ((document, shared), db')"
      using r Inr ds by (intro publish_document_committed) simp
    show ?thesis
    proof (cases "find_available_document_in db (pb_sha256 pb)")
      case (Some existing)
      from publish_document_in_existing [OF p Some] Some show ?thesis by (auto simp: r Inr ds)
    next
      case None
      note new = publish_document_in_new [OF p None ok assms(2)]
      then have "processing_document db' (pb_document pb) = pb_document pb"
        by (simp add: published_new_def processing_document_def)
      with new have "find_available_document_in db' (pb_sha256 pb) = Some document"
        by (simp add: published_new_def published_row_found [of sha])
      with new None show ?thesis by (simp add: r Inr ds)
    qed
  qed
qed

theorem publishing_is_atomic_and_idempotent_witness:
  "find_available_document_in (snd (publish_sample before_sample)) ''asset'' =
     Some \<lparr>idoc_id = ''doc'', idoc_name = ''notes.md'', idoc_format = ''markdown'', idoc_sha256 = ''asset'',
       idoc_evidence_count = 2, idoc_availability = ''available''\<rparr>"
proof -
  have "snd ` set sample_evidence \<subseteq> set sample_blocks" by code_simp
  from publishing_is_atomic_and_idempotent [OF before_sample_reachable this, where lower = "\<lambda>s. s" and
      st = sample_state and pb = sample_publication and images = "[]" and body = "''body''" and
      before_commit = "\<lambda>d b. None" and now = "''t1''"]
  have "case publish_sample before_sample of (Inl e, db') \<Rightarrow> db' = before_sample
    | (Inr (document, shared), db') \<Rightarrow> find_available_document_in db' ''asset'' = Some document"
    unfolding publish_sample_def by (auto simp: sample_publication_def split: prod.splits sum.splits)
  then show ?thesis using sample_published(1) by (cases "publish_sample before_sample") auto
qed

text \<open>The stages whose events follow the commit have identifiers when it succeeded.\<close>

lemma skip_stages_known:
  "skip_stages st stages now db = Inr db' \<Longrightarrow> \<forall>stage \<in> set stages. \<exists>i. stage_id st stage = Inr i"
  by (induction stages arbitrary: db) (auto simp: res_bind_Inr_iff)

lemma complete_reused_known:
  "complete_reused_import_in st document stage skipped d now db = Inr db' \<Longrightarrow>
    \<forall>s \<in> insert stage (set skipped). \<exists>i. stage_id st s = Inr i"
  by (auto simp: complete_reused_import_in_def res_bind_Inr_iff Let_def dest!: skip_stages_known)

lemma publish_content_duplicate_known:
  assumes "publish_content_duplicate_in lower st pb images body canonical now db = Inr r"
  shows "(\<exists>i. stage_id st ''model_analysis'' = Inr i) \<and> (\<exists>i. stage_id st ''search'' = Inr i)"
proof (cases "find_available_document_in db (pb_sha256 pb)")
  case None
  with assms show ?thesis
    by (auto simp: publish_content_duplicate_in_def res_bind_Inr_iff Let_def dest!: complete_reused_known
        split: option.splits if_splits)
next
  case (Some existing)
  with assms show ?thesis
    by (auto simp: publish_content_duplicate_in_def res_bind_Inr_iff dest!: complete_reused_known)
qed

lemma duplicate_job_cases:
  assumes "complete_content_duplicate_job lower st pb images body canonical before_commit now db = (r, db')"
  shows "(\<exists>e. r = Inl e) \<and> db' = db \<or>
    (\<exists>document shared events. r = Inr ((document, shared), events) \<and>
       publish_content_duplicate_in lower st pb images body canonical now db = Inr ((document, shared), db'))"
proof (cases "publish_content_duplicate_in lower st pb images body canonical now db")
  case (Inl e)
  with assms show ?thesis by (auto simp: complete_content_duplicate_job_def transaction_def)
next
  case (Inr v)
  from publish_content_duplicate_known [OF Inr] obtain i j where
    "stage_id st ''model_analysis'' = Inr i" "stage_id st ''search'' = Inr j" by blast
  with assms Inr show ?thesis
    by (auto simp: complete_content_duplicate_job_def transaction_def split: prod.splits option.splits)
qed

lemma found_by_body:
  assumes "find_available_document_by_normalized_body_in db body = Some canonical"
  shows "idoc_evidence_count canonical = length (occurrences_of db (processing_document db (idoc_id canonical)))"
  using assms by (auto simp: find_available_document_by_normalized_body_in_def document_from_row_def)

text \<open>
  A content duplicate answers like its original.  When the body of a new raw asset is
  known, the publication either raises and changes nothing, or adds one document that its
  asset is found by, with the occurrences and the Evidence count of the document it
  reuses, and neither a block nor an Evidence nor a search row is added.
\<close>

theorem content_duplicate_answers_like_original:
  assumes "library_reachable sha db"
    and "find_available_document_by_normalized_body_in db body = Some canonical"
    and "find_available_document_in db (pb_sha256 pb) = None"
    and "complete_content_duplicate_job lower st pb images body canonical before_commit now db = (r, db')"
  shows "(\<exists>e. r = Inl e) \<and> db' = db \<or>
    (\<exists>document events. r = Inr ((document, True), events) \<and>
       find_available_document_in db' (pb_sha256 pb) = Some document \<and>
       idoc_id document = pb_document pb \<and>
       idoc_evidence_count document = idoc_evidence_count canonical \<and>
       published_duplicate pb body (processing_document db (idoc_id canonical)) now db db')"
  using duplicate_job_cases [OF assms(4)]
proof (elim disjE exE conjE, goal_cases)
  case (1 e)
  then show ?case by blast
next
  case (2 document shared events)
  let ?p = "processing_document db (idoc_id canonical)"
  have ok: "library_ok sha db" using assms(1) by (rule library_reachable_ok)
  note dup = publish_content_duplicate_in_ok [OF 2(2) assms(3) ok]
  have "shared" using 2(2) assms(3)
    by (auto simp: publish_content_duplicate_in_def res_bind_Inr_iff Let_def split: option.splits if_splits)
  have "processing_document db' (pb_document pb) = ?p"
    using dup by (simp add: published_duplicate_def processing_document_def)
  with dup have "length (occurrences_of db' (processing_document db' (pb_document pb))) =
      idoc_evidence_count canonical"
    using found_by_body [OF assms(2)] by (simp add: published_duplicate_def)
  with dup have "find_available_document_in db' (pb_sha256 pb) = Some document"
    by (simp add: published_duplicate_def published_row_found [of sha])
  with 2 dup \<open>shared\<close> show ?case by auto
qed

definition sample_copy :: publication where
  "sample_copy = sample_publication\<lparr>pb_document := ''copy'', pb_sha256 := ''asset2''\<rparr>"

definition duplicate_sample :: "library_db \<Rightarrow> ((imported_document \<times> bool) \<times> dict list) res \<times> library_db" where
  "duplicate_sample db = complete_content_duplicate_job (\<lambda>s. s) sample_state sample_copy [] ''body''
     \<lparr>idoc_id = ''doc'', idoc_name = ''notes.md'', idoc_format = ''markdown'', idoc_sha256 = ''asset'',
      idoc_evidence_count = 2, idoc_availability = ''available''\<rparr> (\<lambda>d b. None) ''t2'' db"

lemma sample_found:
  "find_available_document_by_normalized_body_in (snd (publish_sample before_sample)) ''body'' =
     Some \<lparr>idoc_id = ''doc'', idoc_name = ''notes.md'', idoc_format = ''markdown'', idoc_sha256 = ''asset'',
       idoc_evidence_count = 2, idoc_availability = ''available''\<rparr>"
  "find_available_document_in (snd (publish_sample before_sample)) (pb_sha256 sample_copy) = None"
  "\<not> (case fst (duplicate_sample (snd (publish_sample before_sample))) of Inl e \<Rightarrow> True | Inr v \<Rightarrow> False)"
  by code_simp+

theorem content_duplicate_answers_like_original_witness:
  "\<exists>d. find_available_document_in (snd (duplicate_sample (snd (publish_sample before_sample)))) ''asset2'' = Some d \<and>
     idoc_id d = ''copy'' \<and> idoc_evidence_count d = 2"
proof -
  have "snd ` set sample_evidence \<subseteq> set sample_blocks" by code_simp
  then have reach: "library_reachable (\<lambda>s. s) (snd (publish_sample before_sample))"
    unfolding publish_sample_def by (rule library_next [OF before_sample_reachable step_publish])
  let ?run = "duplicate_sample (snd (publish_sample before_sample))"
  have "complete_content_duplicate_job (\<lambda>s. s) sample_state sample_copy [] ''body''
     \<lparr>idoc_id = ''doc'', idoc_name = ''notes.md'', idoc_format = ''markdown'', idoc_sha256 = ''asset'',
      idoc_evidence_count = 2, idoc_availability = ''available''\<rparr> (\<lambda>d b. None) ''t2''
      (snd (publish_sample before_sample)) = (fst ?run, snd ?run)" by (simp add: duplicate_sample_def)
  from content_duplicate_answers_like_original [OF reach sample_found(1,2) this] show ?thesis using sample_found(3) by (auto simp: sample_copy_def sample_publication_def)
qed

subsection \<open>Recorded reuses are readable\<close>

lemma published_import_deduplication:
  "complete_published_import st document (Some d) now imports = Inr imports' \<Longrightarrow>
    map_of (db_dedup imports') (js_job st) = Some d"
  by (auto simp: complete_published_import_def res_bind_Inr_iff Let_def record_deduplication_in_def update_conv')

lemma published_reuse:
  assumes "publish_document_in sha lower st pb blocks evidence images body now db = Inr ((document, True), db')"
  obtains "map_of (db_dedup (ld_import db')) (js_job st) = Some (raw_match (idoc_id document) [])"
  | n where "map_of (db_dedup (ld_import db')) (js_job st) = Some \<lparr>dd_level = ''D2'', dd_reason = ''evidence_sha256_match'',
      dd_reused_document = None, dd_reused_evidence = int n, dd_reusable_stages = [''evidence''], dd_normalized_body = None\<rparr>"
proof (cases "find_available_document_in db (pb_sha256 pb)")
  case (Some existing)
  with assms that(1) show thesis
    by (auto simp: publish_document_in_def res_bind_Inr_iff dest!: published_import_deduplication)
next
  case None
  with assms obtain n i where "n \<noteq> 0" "complete_published_import st (pb_document pb)
       (if n = 0 then None else Some \<lparr>dd_level = ''D2'', dd_reason = ''evidence_sha256_match'', dd_reused_document = None,
          dd_reused_evidence = int n, dd_reusable_stages = [''evidence''], dd_normalized_body = None\<rparr>)
       now i = Inr (ld_import db')"
    by (auto simp: publish_document_in_def res_bind_Inr_iff)
  with that(2) show thesis by (auto dest: published_import_deduplication)
qed

lemma reused_import_deduplication:
  "complete_reused_import_in st document stage skipped d now imports = Inr imports' \<Longrightarrow>
    map_of (db_dedup imports') (js_job st) = Some d"
  by (auto simp: complete_reused_import_in_def res_bind_Inr_iff Let_def record_deduplication_in_def update_conv')

lemma raw_match_valid: "document \<noteq> [] \<Longrightarrow> set stages \<subseteq> set deduplication_stages \<Longrightarrow> distinct stages \<Longrightarrow>
    deduplication_valid (raw_match document stages)"
  by (simp add: deduplication_valid_def raw_match_def deduplication_reasons_def)

text \<open>
  C0: every reuse a publication records is one the task list can show.  When a publication
  reports that it shared content, the row it leaves for its job passes every check of
  \<open>_deduplication_for_job\<close>, so listing imports never fails on it.
\<close>

theorem recorded_reuse_is_readable:
  "(publish_document sha lower st pb blocks evidence images body before_commit now db = (Inr (document, True), db') \<longrightarrow>
      idoc_id document \<noteq> [] \<longrightarrow>
      (\<exists>d. deduplication_for_job db' (js_job st) = Inr (Some d))) \<and>
   (complete_content_duplicate_job lower st pb images body canonical before_commit now db =
        (Inr ((document, shared), events), db') \<longrightarrow>
      is_sha256 body \<longrightarrow> idoc_id canonical \<noteq> [] \<longrightarrow> idoc_id document \<noteq> [] \<longrightarrow>
      (\<exists>d. deduplication_for_job db' (js_job st) = Inr (Some d)))"
proof (intro conjI impI)
  assume p: "publish_document sha lower st pb blocks evidence images body before_commit now db = (Inr (document, True), db')"
    and id: "idoc_id document \<noteq> []"
  have raw: "deduplication_valid (raw_match (idoc_id document) [])" using id by (intro raw_match_valid) simp_all
  have d2: "deduplication_valid \<lparr>dd_level = ''D2'', dd_reason = ''evidence_sha256_match'', dd_reused_document = None,
      dd_reused_evidence = int n, dd_reusable_stages = [''evidence''], dd_normalized_body = None\<rparr>" for n
    by (simp add: deduplication_valid_def deduplication_reasons_def deduplication_stages_def)
  show "\<exists>d. deduplication_for_job db' (js_job st) = Inr (Some d)"
    by (rule published_reuse [OF publish_document_committed [OF p]])
      (use raw d2 in \<open>auto simp: deduplication_for_job_def\<close>)
next
  assume c: "complete_content_duplicate_job lower st pb images body canonical before_commit now db =
        (Inr ((document, shared), events), db')"
    and ids: "is_sha256 body" "idoc_id canonical \<noteq> []" "idoc_id document \<noteq> []"
  from duplicate_job_cases [OF c] have p:
    "publish_content_duplicate_in lower st pb images body canonical now db = Inr ((document, shared), db')" by auto
  have "\<exists>d. deduplication_valid d \<and> map_of (db_dedup (ld_import db')) (js_job st) = Some d"
  proof (cases "find_available_document_in db (pb_sha256 pb)")
    case None
    have "deduplication_valid \<lparr>dd_level = ''D1'', dd_reason = ''normalized_body_sha256_match'',
        dd_reused_document = Some (idoc_id canonical), dd_reused_evidence = int (idoc_evidence_count canonical),
        dd_reusable_stages = [''evidence'', ''model_analysis'', ''search''], dd_normalized_body = Some body\<rparr>"
      using ids by (simp add: deduplication_valid_def deduplication_reasons_def deduplication_stages_def)
    with p None show ?thesis
      by (auto simp: publish_content_duplicate_in_def res_bind_Inr_iff Let_def dest!: reused_import_deduplication
          split: option.splits if_splits)
  next
    case (Some existing)
    with p ids(3) have "deduplication_valid (raw_match (idoc_id existing)
        [''document_ir'', ''evidence'', ''deterministic_page_tree'', ''model_analysis'', ''search''])"
      by (intro raw_match_valid) (auto simp: deduplication_stages_def publish_content_duplicate_in_def res_bind_Inr_iff)
    with p Some show ?thesis
      by (auto simp: publish_content_duplicate_in_def res_bind_Inr_iff dest!: reused_import_deduplication)
  qed
  then show "\<exists>d. deduplication_for_job db' (js_job st) = Inr (Some d)" by (auto simp: deduplication_for_job_def)
qed

theorem recorded_reuse_is_readable_witness:
  "\<exists>d. deduplication_for_job (snd (publish_sample before_sample)) ''job'' = Inr (Some d)"
proof -
  have "publish_sample before_sample = (Inr (\<lparr>idoc_id = ''doc'', idoc_name = ''notes.md'', idoc_format = ''markdown'',
     idoc_sha256 = ''asset'', idoc_evidence_count = 2, idoc_availability = ''available''\<rparr>, True),
     snd (publish_sample before_sample))"
    using sample_published(1) by (metis prod.collapse)
  from recorded_reuse_is_readable [THEN conjunct1, rule_format, OF this [unfolded publish_sample_def]]
  show ?thesis by (simp add: sample_state_def publish_sample_def)
qed

end
