(* ===== verification/Backfill.thy ===== *)
theory Backfill
  imports ContentReuse
begin

section \<open>Deduplication records of older databases\<close>

text \<open>
  \<open>backfill_deduplication_metadata\<close> and \<open>deduplication_backfill_needed\<close> of
  \<open>openkb/importing/deduplication.py\<close>: a database from before the fingerprint tables gets
  them when it is opened, from its stored blocks and Evidence.
\<close>

subsection \<open>Stored blocks\<close>

definition read_heading_path :: "string \<Rightarrow> string list res" where
  "read_heading_path v =
     (case json_loads v of
        Some (JList vs) \<Rightarrow>
          (case str_list_value (JList vs) of
             None \<Rightarrow> Inl (ValueError ''heading path has an invalid shape'') | Some path \<Rightarrow> Inr path)
      | Some _ \<Rightarrow> Inl (ValueError ''heading path has an invalid shape'')
      | None \<Rightarrow> Inl (ValueError ''heading path is not valid JSON''))"

definition stored_block :: "string \<times> block_row \<Rightarrow> ir_block res" where
  "stored_block kb =
     res_bind (read_heading_path (bk_heading_path (snd kb))) (\<lambda>path.
       Inr \<lparr>block_id = fst kb, block_ordinal = bk_ordinal (snd kb), block_kind = bk_kind (snd kb),
            block_text = bk_text (snd kb), heading_path = path, line_start = 1, line_end = 1,
            block_locator = None\<rparr>)"

text \<open>The rows in the order of the query, with their documents; they are all read first.\<close>

definition blocks_by_document :: "library_db \<Rightarrow> (string \<times> ir_block) list res" where
  "blocks_by_document db =
     res_map (\<lambda>kb. res_bind (stored_block kb) (\<lambda>b. Inr (bk_document (snd kb), b)))
       (sort_key (bk_document \<circ> snd) (sort_key (bk_ordinal \<circ> snd) (ld_blocks db)))"

subsection \<open>The two loops\<close>

definition original_with_body :: "library_db \<Rightarrow> string \<Rightarrow> string option" where
  "original_with_body db body =
     first_row (sort (map fst (filter (\<lambda>kv. df_body (snd kv) = body \<and> df_canonical (snd kv) = None)
       (ld_fingerprints db))))"

definition backfill_document ::
  "(string \<Rightarrow> string) \<Rightarrow> string \<Rightarrow> (string \<times> ir_block) list \<Rightarrow> string \<Rightarrow> library_db \<Rightarrow> library_db res" where
  "backfill_document sha now rows d db =
     (if d \<in> fst ` set (ld_fingerprints db) then Inr db
      else let body = normalized_body_sha256 sha (map snd (filter (\<lambda>r. fst r = d) rows)) in
        insert_fingerprint d body (original_with_body db body) now db)"

fun backfill_documents ::
  "(string \<Rightarrow> string) \<Rightarrow> string \<Rightarrow> (string \<times> ir_block) list \<Rightarrow> string list \<Rightarrow> library_db \<Rightarrow> library_db res" where
  "backfill_documents sha now rows [] db = Inr db"
| "backfill_documents sha now rows (d # ds) db =
     res_bind (backfill_document sha now rows d db) (backfill_documents sha now rows ds)"

text \<open>
  \<open>ON CONFLICT .. DO NOTHING\<close> names the primary key only, so a violated \<open>UNIQUE\<close> still
  raises.
\<close>

definition backfill_fragment ::
  "(string \<Rightarrow> string) \<Rightarrow> string \<Rightarrow> string \<times> evidence_row \<times> (string \<times> block_row) \<Rightarrow> library_db \<Rightarrow> library_db res" where
  "backfill_fragment sha now row db =
     (case row of (e, ev, kb) \<Rightarrow>
        res_bind (stored_block kb) (\<lambda>b.
        let fingerprint = evidence_sha256 sha b in
        res_bind
          (if fingerprint \<in> fst ` set (ld_evidence_sha db) then Inr db else insert_evidence_sha fingerprint e now db)
          (\<lambda>db1.
        case map_of (ld_evidence_sha db1) fingerprint of
          None \<Rightarrow> Inl (RuntimeError ''no canonical record'')
        | Some (canonical, _) \<Rightarrow>
            if (ev_document ev, ev_block ev) \<in> fst ` set (ld_occurrences db1) then Inr db1
            else insert_occurrence (ev_document ev) (ev_block ev) canonical (ev_ordinal ev) db1)))"

fun backfill_fragments ::
  "(string \<Rightarrow> string) \<Rightarrow> string \<Rightarrow> (string \<times> evidence_row \<times> (string \<times> block_row)) list \<Rightarrow> library_db \<Rightarrow> library_db res" where
  "backfill_fragments sha now [] db = Inr db"
| "backfill_fragments sha now (row # rows) db =
     res_bind (backfill_fragment sha now row db) (backfill_fragments sha now rows)"

text \<open>The inner join of Evidence with its block, by Evidence identifier.\<close>

definition evidence_with_blocks :: "library_db \<Rightarrow> (string \<times> evidence_row \<times> (string \<times> block_row)) list" where
  "evidence_with_blocks db =
     List.map_filter
       (\<lambda>kv. map_option (\<lambda>b. (fst kv, snd kv, (ev_block (snd kv), b))) (map_of (ld_blocks db) (ev_block (snd kv))))
       (sort_key fst (ld_evidence db))"

definition backfill_deduplication_metadata ::
  "(string \<Rightarrow> string) \<Rightarrow> string \<Rightarrow> library_db \<Rightarrow> library_db res" where
  "backfill_deduplication_metadata sha now db =
     res_bind (blocks_by_document db) (\<lambda>rows.
     res_bind (backfill_documents sha now rows (uniq (map fst rows)) db) (\<lambda>db1.
     backfill_fragments sha now (evidence_with_blocks db1) db1))"

definition deduplication_backfill_needed :: "library_db \<Rightarrow> bool" where
  "deduplication_backfill_needed db \<longleftrightarrow>
     (\<exists>kv \<in> set (ld_blocks db). bk_document (snd kv) \<notin> fst ` set (ld_fingerprints db)) \<or>
     (\<exists>kv \<in> set (ld_evidence db).
        (ev_document (snd kv), ev_block (snd kv)) \<notin> fst ` set (ld_occurrences db)) \<or>
     (\<exists>kv \<in> set (ld_occurrences db). fst (snd kv) \<notin> (fst \<circ> snd) ` set (ld_evidence_sha db))"

subsection \<open>What the loops add\<close>

declare map_of_eq_Some_iff [simp del] map_of_append [simp del]

lemma backfill_documents_Inr:
  "backfill_documents sha now rows ds db = Inr db' \<Longrightarrow>
    (\<exists>t. db' = db\<lparr>ld_fingerprints := t\<rparr> \<and> map_of (ld_fingerprints db) \<subseteq>\<^sub>m map_of t \<and>
       set ds \<union> fst ` set (ld_fingerprints db) = fst ` set t)"
proof (induction ds arbitrary: db)
  case Nil
  then show ?case by (auto intro: exI [of _ "ld_fingerprints db"])
next
  case (Cons d ds)
  then obtain db1 where first: "backfill_document sha now rows d db = Inr db1"
    and rest: "backfill_documents sha now rows ds db1 = Inr db'"
    by (auto simp: res_bind_Inr_iff)
  have "\<exists>t. db1 = db\<lparr>ld_fingerprints := t\<rparr> \<and> map_of (ld_fingerprints db) \<subseteq>\<^sub>m map_of t \<and>
      insert d (fst ` set (ld_fingerprints db)) = fst ` set t"
  proof (cases "d \<in> fst ` set (ld_fingerprints db)")
    case True
    with first show ?thesis by (auto simp: backfill_document_def insert_absorb intro!: exI [of _ "ld_fingerprints db"])
  next
    case False
    with first obtain f where "db1 = db\<lparr>ld_fingerprints := ld_fingerprints db @ [(d, f)]\<rparr>"
      by (auto simp: backfill_document_def Let_def insert_fingerprint_def res_bind_Inr_iff insert_row_Inr)
    with append_extends [OF False, of f] show ?thesis
      by (intro exI [of _ "ld_fingerprints db @ [(d, f)]"]) simp
  qed
  then obtain t where t: "db1 = db\<lparr>ld_fingerprints := t\<rparr>" "map_of (ld_fingerprints db) \<subseteq>\<^sub>m map_of t"
    "insert d (fst ` set (ld_fingerprints db)) = fst ` set t" by blast
  from Cons.IH [OF rest] obtain u where u: "db' = db1\<lparr>ld_fingerprints := u\<rparr>"
    "map_of (ld_fingerprints db1) \<subseteq>\<^sub>m map_of u" "set ds \<union> fst ` set (ld_fingerprints db1) = fst ` set u" by blast
  have "map_of (ld_fingerprints db) \<subseteq>\<^sub>m map_of u" using t(1,2) u(2) by (auto intro: map_le_trans)
  moreover have "fst ` set u = set ds \<union> insert d (fst ` set (ld_fingerprints db))"
    using t(1,3) u(3) by simp
  then have "set (d # ds) \<union> fst ` set (ld_fingerprints db) = fst ` set u" by simp
  ultimately show ?case using t(1) u(1) by (auto intro!: exI [of _ u])
qed

text \<open>What one fragment, and so the loop, adds to the fingerprints and the occurrences.\<close>

definition linked :: "library_db \<Rightarrow> bool" where
  "linked db \<longleftrightarrow> (fst \<circ> snd) ` set (ld_occurrences db) \<subseteq> (fst \<circ> snd) ` set (ld_evidence_sha db)"

definition backfill_frame :: "library_db \<Rightarrow> library_db \<Rightarrow> bool" where
  "backfill_frame db db' \<longleftrightarrow>
     db' = db\<lparr>ld_evidence_sha := ld_evidence_sha db', ld_occurrences := ld_occurrences db'\<rparr> \<and>
     map_of (ld_evidence_sha db) \<subseteq>\<^sub>m map_of (ld_evidence_sha db') \<and>
     set (ld_evidence_sha db) \<subseteq> set (ld_evidence_sha db') \<and>
     map_of (ld_occurrences db) \<subseteq>\<^sub>m map_of (ld_occurrences db') \<and>
     set (ld_occurrences db) \<subseteq> set (ld_occurrences db') \<and>
     (linked db \<longrightarrow> linked db')"

lemma backfill_frame_refl: "backfill_frame db db"
  by (simp add: backfill_frame_def)

lemma backfill_frame_trans:
  assumes "backfill_frame a b" and "backfill_frame b c"
  shows "backfill_frame a c"
proof -
  have b: "b = a\<lparr>ld_evidence_sha := ld_evidence_sha b, ld_occurrences := ld_occurrences b\<rparr>"
    and c: "c = b\<lparr>ld_evidence_sha := ld_evidence_sha c, ld_occurrences := ld_occurrences c\<rparr>"
    using assms by (simp_all add: backfill_frame_def)
  have "c = a\<lparr>ld_evidence_sha := ld_evidence_sha c, ld_occurrences := ld_occurrences c\<rparr>"
    by (subst c, subst b) simp
  with assms show ?thesis unfolding backfill_frame_def by (blast intro: map_le_trans)
qed

lemma backfill_frame_sha:
  assumes "insert_evidence_sha k e now db = Inr db'"
  shows "backfill_frame db db'"
proof -
  from assms have db': "db' = db\<lparr>ld_evidence_sha := ld_evidence_sha db @ [(k, e, now)]\<rparr>"
    and new: "k \<notin> fst ` set (ld_evidence_sha db)"
    by (simp_all add: insert_evidence_sha_def res_bind_Inr_iff insert_row_Inr)
  have "linked db \<longrightarrow> linked db'" by (auto simp: linked_def db')
  then show ?thesis
    unfolding backfill_frame_def using append_extends [OF new, of "(e, now)"] by (auto simp: db')
qed

lemma backfill_frame_occurrence:
  assumes "insert_occurrence d block e n db = Inr db'" and "e \<in> (fst \<circ> snd) ` set (ld_evidence_sha db)"
  shows "backfill_frame db db' \<and> (d, block) \<in> fst ` set (ld_occurrences db')"
proof -
  from insert_occurrence_Inr [OF assms(1)]
  have db': "db' = db\<lparr>ld_occurrences := ld_occurrences db @ [((d, block), e, n)]\<rparr>"
    and new: "(d, block) \<notin> fst ` set (ld_occurrences db)" by simp_all
  have "linked db \<longrightarrow> linked db'" using assms(2) by (simp add: linked_def db')
  then show ?thesis
    unfolding backfill_frame_def using append_extends [OF new, of "(e, n)"] by (auto simp: db')
qed

lemma backfill_fragment_frame:
  assumes "backfill_fragment sha now (e, ev, kb) db = Inr db'"
  shows "backfill_frame db db' \<and> (ev_document ev, ev_block ev) \<in> fst ` set (ld_occurrences db')"
proof -
  from assms obtain b db1 where
    one: "(if evidence_sha256 sha b \<in> fst ` set (ld_evidence_sha db) then Inr db
       else insert_evidence_sha (evidence_sha256 sha b) e now db) = Inr db1" and
    two: "(case map_of (ld_evidence_sha db1) (evidence_sha256 sha b) of
          None \<Rightarrow> Inl (RuntimeError ''no canonical record'')
        | Some (canonical, _) \<Rightarrow>
            if (ev_document ev, ev_block ev) \<in> fst ` set (ld_occurrences db1) then Inr db1
            else insert_occurrence (ev_document ev) (ev_block ev) canonical (ev_ordinal ev) db1) = Inr db'"
    unfolding backfill_fragment_def Let_def by (auto simp: res_bind_Inr_iff)
  have frame1: "backfill_frame db db1"
    using one by (auto intro: backfill_frame_refl backfill_frame_sha split: if_splits)
  from two obtain c t where c: "map_of (ld_evidence_sha db1) (evidence_sha256 sha b) = Some (c, t)"
    by (auto split: option.splits)
  then have known: "c \<in> (fst \<circ> snd) ` set (ld_evidence_sha db1)" by (force dest: map_of_SomeD)
  show ?thesis
  proof (cases "(ev_document ev, ev_block ev) \<in> fst ` set (ld_occurrences db1)")
    case True
    with two c frame1 show ?thesis by simp
  next
    case False
    with two c have "insert_occurrence (ev_document ev) (ev_block ev) c (ev_ordinal ev) db1 = Inr db'" by simp
    from backfill_frame_occurrence [OF this known] frame1 show ?thesis by (blast intro: backfill_frame_trans)
  qed
qed

lemma backfill_fragments_frame:
  "backfill_fragments sha now rows db = Inr db' \<Longrightarrow>
    backfill_frame db db' \<and>
    (\<forall>(e, ev, kb) \<in> set rows. (ev_document ev, ev_block ev) \<in> fst ` set (ld_occurrences db'))"
proof (induction rows arbitrary: db)
  case Nil
  then show ?case by (simp add: backfill_frame_refl)
next
  case (Cons row rows)
  obtain e ev kb where row: "row = (e, ev, kb)" by (metis prod.exhaust)
  with Cons.prems obtain db1 where first: "backfill_fragment sha now (e, ev, kb) db = Inr db1"
    and rest: "backfill_fragments sha now rows db1 = Inr db'"
    by (auto simp: res_bind_Inr_iff)
  note f = backfill_fragment_frame [OF first] and IH = Cons.IH [OF rest]
  have "fst ` set (ld_occurrences db1) \<subseteq> fst ` set (ld_occurrences db')"
    using IH by (auto simp: backfill_frame_def)
  with f IH show ?case by (auto simp: row intro: backfill_frame_trans)
qed

lemma blocks_by_document_rows:
  assumes "blocks_by_document db = Inr rows"
  shows "fst ` set rows = (bk_document \<circ> snd) ` set (ld_blocks db)"
proof -
  let ?sorted = "sort_key (bk_document \<circ> snd) (sort_key (bk_ordinal \<circ> snd) (ld_blocks db))"
  have "list_all2 (\<lambda>kb r. fst r = bk_document (snd kb)) ?sorted rows"
    using assms by (auto simp: blocks_by_document_def res_map_Inr_iff res_bind_Inr_iff elim!: list_all2_mono)
  then have "map fst rows = map (bk_document \<circ> snd) ?sorted"
    by (induction rule: list_all2_induct) auto
  then have "set (map fst rows) = set (map (bk_document \<circ> snd) ?sorted)" by (rule arg_cong)
  then show ?thesis by simp
qed

lemma evidence_with_blocks_complete:
  assumes "kv \<in> set (ld_evidence db)" and "ev_block (snd kv) \<in> fst ` set (ld_blocks db)"
  shows "\<exists>kb. (fst kv, snd kv, kb) \<in> set (evidence_with_blocks db)"
proof -
  obtain b where "map_of (ld_blocks db) (ev_block (snd kv)) = Some b"
    using assms(2) by (metis map_of_eq_None_iff not_None_eq)
  with assms(1) have "(fst kv, snd kv, (ev_block (snd kv), b)) \<in> set (evidence_with_blocks db)"
    by (auto simp: evidence_with_blocks_def List.map_filter_def intro!: image_eqI [of _ _ kv])
  then show ?thesis by blast
qed

subsection \<open>The backfill settles, and leaves a published library alone\<close>

lemma backfill_settles:
  assumes "backfill_deduplication_metadata sha now db = Inr db'" and "linked db"
    and fk: "\<forall>kv \<in> set (ld_evidence db). ev_block (snd kv) \<in> fst ` set (ld_blocks db)"
  shows "\<not> deduplication_backfill_needed db'" and
    "\<exists>f k o'. db' = db\<lparr>ld_fingerprints := f, ld_evidence_sha := k, ld_occurrences := o'\<rparr> \<and>
       map_of (ld_fingerprints db) \<subseteq>\<^sub>m map_of f \<and> map_of (ld_evidence_sha db) \<subseteq>\<^sub>m map_of k \<and>
       map_of (ld_occurrences db) \<subseteq>\<^sub>m map_of o'"
proof -
  from assms(1) obtain rows db1 where rows: "blocks_by_document db = Inr rows"
    and one: "backfill_documents sha now rows (uniq (map fst rows)) db = Inr db1"
    and two: "backfill_fragments sha now (evidence_with_blocks db1) db1 = Inr db'"
    by (auto simp: backfill_deduplication_metadata_def res_bind_Inr_iff)
  from backfill_documents_Inr [OF one] obtain f where db1: "db1 = db\<lparr>ld_fingerprints := f\<rparr>"
    and f: "map_of (ld_fingerprints db) \<subseteq>\<^sub>m map_of f" "fst ` set rows \<subseteq> fst ` set f" by auto
  note frame = backfill_fragments_frame [OF two]
  then obtain k o' where db': "db' = db1\<lparr>ld_evidence_sha := k, ld_occurrences := o'\<rparr>"
    and ko: "map_of (ld_evidence_sha db1) \<subseteq>\<^sub>m map_of k" "map_of (ld_occurrences db1) \<subseteq>\<^sub>m map_of o'"
    unfolding backfill_frame_def by blast
  show "\<exists>f k o'. db' = db\<lparr>ld_fingerprints := f, ld_evidence_sha := k, ld_occurrences := o'\<rparr> \<and>
       map_of (ld_fingerprints db) \<subseteq>\<^sub>m map_of f \<and> map_of (ld_evidence_sha db) \<subseteq>\<^sub>m map_of k \<and>
       map_of (ld_occurrences db) \<subseteq>\<^sub>m map_of o'"
    using f(1) ko by (intro exI [of _ f] exI [of _ k] exI [of _ o']) (simp add: db' db1)
  have "bk_document (snd kv) \<in> fst ` set f" if "kv \<in> set (ld_blocks db)" for kv
    using that f(2) blocks_by_document_rows [OF rows] by (auto simp: image_iff)
  moreover have "(ev_document (snd kv), ev_block (snd kv)) \<in> fst ` set (ld_occurrences db')"
    if "kv \<in> set (ld_evidence db)" for kv
  proof -
    have "kv \<in> set (ld_evidence db1)" "ev_block (snd kv) \<in> fst ` set (ld_blocks db1)"
      using that fk by (simp_all add: db1)
    from evidence_with_blocks_complete [OF this] frame show ?thesis by fastforce
  qed
  moreover have "linked db'" using frame assms(2) by (simp add: backfill_frame_def linked_def db1)
  ultimately show "\<not> deduplication_backfill_needed db'"
    by (auto simp: deduplication_backfill_needed_def linked_def db' db1)
qed

lemma read_stored_heading_path [simp]: "read_heading_path (stored_heading_path path) = Inr path"
proof -
  have "json_loads (stored_heading_path path) = Some (JList (map JStr path))"
    unfolding stored_heading_path_def by (rule json_loads_text) (simp add: list_all_iff)
  moreover have "those (map (str_value \<circ> JStr) path) = Some path"
    by (induction path) (simp_all add: str_value_def)
  ultimately show ?thesis by (simp add: read_heading_path_def str_list_value_def)
qed

lemma res_map_total:
  "(\<And>x. x \<in> set xs \<Longrightarrow> \<exists>y. f x = Inr y) \<Longrightarrow> \<exists>ys. res_map f xs = Inr ys"
proof (induction xs)
  case (Cons x xs)
  from Cons.prems [of x] obtain y where "f x = Inr y" by auto
  moreover from Cons.IH Cons.prems obtain ys where "res_map f xs = Inr ys" by auto
  ultimately show ?case by simp
qed simp

lemma backfill_documents_idle:
  "set ds \<subseteq> fst ` set (ld_fingerprints db) \<Longrightarrow> backfill_documents sha now rows ds db = Inr db"
  by (induction ds) (auto simp: backfill_document_def)

lemma backfill_fragments_idle:
  "(\<And>row. row \<in> set rows \<Longrightarrow> backfill_fragment sha now row db = Inr db) \<Longrightarrow>
    backfill_fragments sha now rows db = Inr db"
  by (induction rows) auto

text \<open>The fingerprint of a canonical Evidence is recomputed from its stored block.\<close>

lemma backfill_fragment_idle:
  assumes ok: "library_ok sha db" and ev: "map_of (ld_evidence db) e = Some ev"
    and b: "map_of (ld_blocks db) (ev_block ev) = Some b"
    and placed: "(ev_document ev, ev_block ev) \<in> fst ` set (ld_occurrences db)"
  shows "backfill_fragment sha now (e, ev, (ev_block ev, b)) db = Inr db"
proof -
  have "e \<in> (fst \<circ> snd) ` set (ld_evidence_sha db)"
    using ok ev by (auto simp: library_ok_def shared_evidence_ok_def dest!: map_of_SomeD intro: rev_image_eqI)
  then obtain k t where "(k, e, t) \<in> set (ld_evidence_sha db)" by auto
  then have k: "map_of (ld_evidence_sha db) k = Some (e, t)"
    using ok by (simp add: library_ok_def shared_evidence_ok_def map_of_eq_Some_iff)
  then have "anchored sha (map_of (ld_blocks db)) (map_of (ld_evidence db)) k e"
    using ok by (simp add: library_ok_def shared_evidence_ok_def)
  with ev b obtain path where path: "bk_heading_path b = stored_heading_path path"
    "k = fragment_sha256 sha (bk_kind b) path (bk_text b)"
    by (auto simp: anchored_def row_fingerprint_def)
  have "k \<in> fst ` set (ld_evidence_sha db)" using k by (metis map_of_eq_None_iff option.distinct(1))
  with k path placed show ?thesis
    by (simp add: backfill_fragment_def stored_block_def evidence_sha256_def Let_def)
qed

lemma backfill_idle:
  assumes ok: "library_ok sha db" and settled: "\<not> deduplication_backfill_needed db"
  shows "backfill_deduplication_metadata sha now db = Inr db"
proof -
  have readable: "\<exists>b. stored_block kb = Inr b" if "kb \<in> set (ld_blocks db)" for kb
    using that ok by (auto simp: stored_block_def library_ok_def shared_evidence_ok_def readable_blocks_def)
  have "\<exists>rows. blocks_by_document db = Inr rows"
    unfolding blocks_by_document_def using readable by (intro res_map_total) (fastforce simp: res_bind_Inr_iff)
  then obtain rows where rows: "blocks_by_document db = Inr rows" by blast
  have "(bk_document \<circ> snd) ` set (ld_blocks db) \<subseteq> fst ` set (ld_fingerprints db)"
    using settled by (auto simp: deduplication_backfill_needed_def)
  then have "set (uniq (map fst rows)) \<subseteq> fst ` set (ld_fingerprints db)"
    using blocks_by_document_rows [OF rows] by simp
  then have one: "backfill_documents sha now rows (uniq (map fst rows)) db = Inr db" by (rule backfill_documents_idle)
  have "backfill_fragments sha now (evidence_with_blocks db) db = Inr db"
  proof (rule backfill_fragments_idle)
    fix row assume "row \<in> set (evidence_with_blocks db)"
    then obtain e ev b where row: "row = (e, ev, (ev_block ev, b))" "(e, ev) \<in> set (ld_evidence db)"
      "map_of (ld_blocks db) (ev_block ev) = Some b"
      by (auto simp: evidence_with_blocks_def List.map_filter_def)
    then have "map_of (ld_evidence db) e = Some ev"
      using ok by (simp add: library_ok_def shared_evidence_ok_def map_of_eq_Some_iff)
    moreover have "(ev_document ev, ev_block ev) \<in> fst ` set (ld_occurrences db)"
      using settled row(2) by (force simp: deduplication_backfill_needed_def)
    ultimately show "backfill_fragment sha now row db = Inr db"
      unfolding row(1) using row(3) by (intro backfill_fragment_idle [OF ok])
  qed
  with rows one show ?thesis by (simp add: backfill_deduplication_metadata_def)
qed

text \<open>
  The backfill converges and never disturbs what publications wrote.  When every
  Evidence has its block and every occurrence its fingerprint record, a backfill that
  returns leaves nothing to do and only adds rows; and on a library that publications
  produced it changes nothing, because each fingerprint recomputed from the stored block is
  the one that was recorded.
\<close>

theorem backfill_converges:
  "(linked db \<longrightarrow> (\<forall>kv \<in> set (ld_evidence db). ev_block (snd kv) \<in> fst ` set (ld_blocks db)) \<longrightarrow>
      backfill_deduplication_metadata sha now db = Inr db' \<longrightarrow>
      \<not> deduplication_backfill_needed db' \<and>
      (\<exists>f k o'. db' = db\<lparr>ld_fingerprints := f, ld_evidence_sha := k, ld_occurrences := o'\<rparr> \<and>
         map_of (ld_fingerprints db) \<subseteq>\<^sub>m map_of f \<and> map_of (ld_evidence_sha db) \<subseteq>\<^sub>m map_of k \<and>
         map_of (ld_occurrences db) \<subseteq>\<^sub>m map_of o')) \<and>
   (library_reachable sha db \<longrightarrow> \<not> deduplication_backfill_needed db \<longrightarrow>
      backfill_deduplication_metadata sha now db = Inr db)"
  using backfill_settles [of sha now db db'] backfill_idle [of sha db now] library_reachable_ok [of sha db]
  by blast

text \<open>The published sample without its records is an older database.\<close>

definition older_sample :: library_db where
  "older_sample = (snd (publish_sample before_sample))
     \<lparr>ld_fingerprints := [], ld_evidence_sha := [], ld_occurrences := []\<rparr>"

theorem backfill_converges_witness:
  "\<exists>db'. backfill_deduplication_metadata (\<lambda>s. s) ''t3'' older_sample = Inr db' \<and>
     deduplication_backfill_needed older_sample \<and> \<not> deduplication_backfill_needed db'"
proof -
  have "linked older_sample" by code_simp
  moreover have "\<forall>kv \<in> set (ld_evidence older_sample). ev_block (snd kv) \<in> fst ` set (ld_blocks older_sample)"
    by code_simp
  moreover have "\<not> (case backfill_deduplication_metadata (\<lambda>s. s) ''t3'' older_sample of Inl e \<Rightarrow> True | Inr v \<Rightarrow> False)"
    by code_simp
  then obtain db' where "backfill_deduplication_metadata (\<lambda>s. s) ''t3'' older_sample = Inr db'"
    by (auto split: sum.splits)
  moreover have "deduplication_backfill_needed older_sample" by code_simp
  ultimately show ?thesis using backfill_converges [of older_sample "\<lambda>s. s" "''t3''" db'] by blast
qed

end
