(* ===== verification/TextForms.thy ===== *)
theory TextForms
  imports Prelude
begin

section \<open>Text forms shared by the knowledge components\<close>

text \<open>
  \<open>openkb/knowledge/pages/titles.py\<close>, the comparison forms of \<open>pages/generations.py\<close> and
  \<open>pages/sources.py\<close>, and \<open>openkb/documents/summary.py\<close>.  The Unicode tables of Python
  (\<open>NFKC\<close> and \<open>str.casefold\<close>) are the arguments \<open>nfkc\<close> and \<open>casefold\<close>.
\<close>

subsection \<open>Code points\<close>

text \<open>The groups \<open>py_chars\<close> forms, and that it forms them again from their concatenation.\<close>

definition code_point :: "string \<Rightarrow> bool" where
  "code_point u \<longleftrightarrow> u \<noteq> [] \<and> list_all utf8_continuation (tl u)"

definition code_points :: "string list \<Rightarrow> bool" where
  "code_points us \<longleftrightarrow> list_all code_point us \<and> list_all (\<lambda>u. \<not> utf8_continuation (hd u)) (tl us)"

lemma code_points_py_chars: "code_points (py_chars s)"
proof (induction s)
  case (Cons c s)
  then show ?case by (auto simp: code_points_def code_point_def neq_Nil_conv split: list.splits)
qed (simp add: code_points_def)

lemma code_points_tl: "code_points (u # us) \<Longrightarrow> code_points us"
  by (cases us) (simp_all add: code_points_def)

lemma py_chars_concat: "code_points us \<Longrightarrow> py_chars (concat us) = us"
proof (induction us)
  case (Cons u us)
  then have IH: "py_chars (concat us) = us" by (blast dest: code_points_tl)
  from Cons.prems obtain c t where u: "u = c # t" "list_all utf8_continuation t"
    by (cases u) (auto simp: code_points_def code_point_def)
  have front: "us = [] \<or> \<not> utf8_continuation (hd (hd us))"
    using Cons.prems by (cases us) (simp_all add: code_points_def)
  have step: "py_chars (t @ concat us) = (if t = [] then us else t # us)" if "list_all utf8_continuation t" for t
    using that
  proof (induction t)
    case (Cons c t)
    then show ?case using front by (cases t) (auto split: list.splits)
  qed (simp add: IH)
  from step [OF u(2)] show ?case using u front by (cases t) (auto split: list.splits)
qed simp

lemma code_points_sub: "code_points (us @ vs @ ws) \<Longrightarrow> code_points vs"
proof (induction us)
  case Nil
  then show ?case by (cases vs) (simp_all add: code_points_def)
next
  case (Cons u us)
  then show ?case by (auto dest: code_points_tl)
qed

lemma strip_ends_split:
  "\<exists>us vs. xs = us @ rev (dropWhile P (rev (dropWhile P xs))) @ vs"
proof -
  have "dropWhile P xs = rev (dropWhile P (rev (dropWhile P xs))) @ rev (takeWhile P (rev (dropWhile P xs)))"
    unfolding rev_append [symmetric] takeWhile_dropWhile_id by simp
  then have "xs = takeWhile P xs @ rev (dropWhile P (rev (dropWhile P xs))) @ rev (takeWhile P (rev (dropWhile P xs)))"
    using takeWhile_dropWhile_id [of P xs] by simp
  then show ?thesis by blast
qed

lemma py_chars_strip:
  "py_chars (py_strip s) = rev (dropWhile py_isspace (rev (dropWhile py_isspace (py_chars s))))"
proof -
  obtain us vs where split: "py_chars s = us @ rev (dropWhile py_isspace (rev (dropWhile py_isspace (py_chars s)))) @ vs"
    using strip_ends_split [of "py_chars s" py_isspace] by blast
  have "code_points (rev (dropWhile py_isspace (rev (dropWhile py_isspace (py_chars s)))))"
    by (rule code_points_sub [of us _ vs]) (simp add: split [symmetric] code_points_py_chars)
  then show ?thesis unfolding py_strip_def by (rule py_chars_concat)
qed

lemma dropWhile_strip_fixed:
  "dropWhile P (rev (dropWhile P (rev (dropWhile P xs)))) = rev (dropWhile P (rev (dropWhile P xs)))"
proof (cases "rev (dropWhile P (rev (dropWhile P xs)))")
  case (Cons y ys)
  obtain vs where "dropWhile P xs = (y # ys) @ vs"
    using takeWhile_dropWhile_id [of P "rev (dropWhile P xs)"] Cons
    by (metis rev_append rev_rev_ident)
  then have "\<not> P y" using hd_dropWhile [of P xs] by (cases "dropWhile P xs") auto
  then show ?thesis by (simp add: Cons)
next
  case Nil
  show ?thesis unfolding Nil by simp
qed

lemma py_strip_idem [simp]: "py_strip (py_strip s) = py_strip s"
  unfolding py_strip_def [of "py_strip s"] py_chars_strip dropWhile_strip_fixed
  by (simp add: py_strip_def)

lemma py_strip_infix: "\<exists>us vs. s = us @ py_strip s @ vs"
proof -
  obtain us vs where "py_chars s = us @ rev (dropWhile py_isspace (rev (dropWhile py_isspace (py_chars s)))) @ vs"
    using strip_ends_split [of "py_chars s" py_isspace] by blast
  then have "concat (py_chars s) = concat us @ py_strip s @ concat vs"
    unfolding py_strip_def by (metis concat_append)
  then show ?thesis by auto
qed

subsection \<open>Words\<close>

text \<open>\<open>str.split()\<close> of the words it made, joined by a space, gives the words again.\<close>

fun word_chars :: "string list \<Rightarrow> string list \<Rightarrow> string list list" where
  "word_chars cur [] = (if cur = [] then [] else [rev cur])"
| "word_chars cur (u # us) =
     (if py_isspace u then (if cur = [] then word_chars [] us else rev cur # word_chars [] us)
      else word_chars (u # cur) us)"

fun join_words :: "string list list \<Rightarrow> string list" where
  "join_words [] = []"
| "join_words [w] = w"
| "join_words (w # v # ws) = w @ '' '' # join_words (v # ws)"

lemma split_chars_words: "split_chars cur us = map concat (word_chars cur us)"
  by (induction cur us rule: word_chars.induct) auto

lemma concat_word_chars: "concat (word_chars cur us) = rev cur @ filter (\<lambda>u. \<not> py_isspace u) us"
  by (induction cur us rule: word_chars.induct) auto

lemma word_chars_words:
  "list_all (\<lambda>u. \<not> py_isspace u) cur \<Longrightarrow>
     \<forall>w\<in>set (word_chars cur us). w \<noteq> [] \<and> list_all (\<lambda>u. \<not> py_isspace u) w"
proof (induction cur us rule: word_chars.induct)
  case (1 cur)
  then show ?case by simp
next
  case (2 cur u us)
  then show ?case by (cases "py_isspace u"; cases "cur = []") simp_all
qed

lemma word_chars_append:
  "list_all (\<lambda>u. \<not> py_isspace u) w \<Longrightarrow> word_chars cur (w @ us) = word_chars (rev w @ cur) us"
  by (induction w arbitrary: cur) auto

lemma word_chars_join:
  "\<forall>w\<in>set ws. w \<noteq> [] \<and> list_all (\<lambda>u. \<not> py_isspace u) w \<Longrightarrow> word_chars [] (join_words ws) = ws"
proof (induction ws rule: join_words.induct)
  case (2 w)
  then show ?case using word_chars_append [of w "[]" "[]"] by simp
next
  case (3 w v ws)
  then show ?case using word_chars_append [of w "[]" "'' '' # join_words (v # ws)"] by (simp add: py_isspace_def)
qed simp

lemma join_words_concat: "py_join '' '' (map concat ws) = concat (join_words ws)"
  by (induction ws rule: join_words.induct) auto

lemma code_points_filter: "code_points us \<Longrightarrow> code_points (filter P us)"
proof -
  assume "code_points us"
  moreover have "set (tl (filter P us)) \<subseteq> set (tl us)"
  proof (cases us)
    case (Cons u us')
    have "set (tl xs) \<subseteq> set xs" for xs :: "string list" by (cases xs) auto
    then have "set (tl (filter P us')) \<subseteq> set us'" by (meson filter_is_subset order_trans)
    then show ?thesis using Cons by auto
  qed simp
  ultimately show ?thesis by (auto simp: code_points_def list_all_iff)
qed

lemma code_points_join_words:
  "code_points (concat ws) \<Longrightarrow> \<forall>w\<in>set ws. w \<noteq> [] \<Longrightarrow> code_points (join_words ws)"
proof (induction ws rule: join_words.induct)
  case (3 w v ws)
  have space: "code_point '' ''" "\<not> utf8_continuation (hd '' '')" by (simp_all add: code_point_def utf8_continuation_def)
  have "code_points (concat (v # ws))" using "3.prems" code_points_sub [of w "concat (v # ws)" "[]"] by simp
  with 3 have tail: "code_points (join_words (v # ws))" by simp
  obtain u w' where w: "w = u # w'" using 3 by (cases w) auto
  obtain x v' where v: "v = x # v'" using 3 by (cases v) auto
  have "hd (join_words (v # ws)) = x" by (cases ws) (simp_all add: v)
  moreover have "join_words (v # ws) \<noteq> []" by (cases ws) (simp_all add: v)
  moreover have "\<not> utf8_continuation (hd x)" using "3.prems"(1) by (simp add: w v code_points_def)
  ultimately have "list_all (\<lambda>u. \<not> utf8_continuation (hd u)) (join_words (v # ws))" using tail
    by (cases "join_words (v # ws)") (simp_all add: code_points_def)
  with tail "3.prems"(1) space show ?case by (simp add: w code_points_def)
qed simp_all

lemma py_split_words:
  "\<exists>ws. py_split s = map concat ws \<and> (\<forall>w\<in>set ws. w \<noteq> [] \<and> list_all (\<lambda>u. \<not> py_isspace u) w) \<and>
     code_points (join_words ws)"
proof -
  let ?ws = "word_chars [] (py_chars s)"
  have words: "\<forall>w\<in>set ?ws. w \<noteq> [] \<and> list_all (\<lambda>u. \<not> py_isspace u) w" using word_chars_words [of "[]"] by simp
  have "code_points (concat ?ws)" by (simp add: concat_word_chars code_points_filter code_points_py_chars)
  with words have "code_points (join_words ?ws)" using code_points_join_words by blast
  with words show ?thesis by (auto simp: py_split_def split_chars_words)
qed

lemma py_split_join [simp]: "py_split (py_join '' '' (py_split s)) = py_split s"
proof -
  obtain ws where ws: "py_split s = map concat ws" "\<forall>w\<in>set ws. w \<noteq> [] \<and> list_all (\<lambda>u. \<not> py_isspace u) w"
    "code_points (join_words ws)" using py_split_words by blast
  have "py_split (py_join '' '' (map concat ws)) = map concat (word_chars [] (join_words ws))"
    by (simp add: py_split_def split_chars_words join_words_concat py_chars_concat ws(3))
  with word_chars_join [OF ws(2)] ws(1) show ?thesis by simp
qed

text \<open>Leading and trailing white space makes no word.\<close>

lemma word_chars_drop: "word_chars [] (dropWhile py_isspace us) = word_chars [] us"
  by (induction us) auto

lemma word_chars_trailing: "list_all py_isspace sp \<Longrightarrow> word_chars cur (us @ sp) = word_chars cur us"
proof (induction us arbitrary: cur)
  case Nil
  then show ?case
  proof (induction sp arbitrary: cur)
    case (Cons u sp)
    then show ?case using Cons.IH [of "[]"] by simp
  qed simp
qed simp

lemma py_split_strip [simp]: "py_split (py_strip s) = py_split s"
proof -
  let ?us = "dropWhile py_isspace (py_chars s)"
  have "?us = rev (dropWhile py_isspace (rev ?us)) @ rev (takeWhile py_isspace (rev ?us))"
    unfolding rev_append [symmetric] takeWhile_dropWhile_id by simp
  then have "word_chars [] ?us = word_chars [] (rev (dropWhile py_isspace (rev ?us)))"
    by (metis (no_types) list_all_rev list_all_iff set_takeWhileD word_chars_trailing)
  then show ?thesis by (simp add: py_split_def split_chars_words py_chars_strip word_chars_drop)
qed

subsection \<open>Lines and paragraphs\<close>

text \<open>\<open>str.splitlines()\<close>: the line boundaries of Python, a carriage return and a line feed being one.\<close>

definition line_boundary :: "string \<Rightarrow> bool" where
  "line_boundary u =
     (case map (of_char :: char \<Rightarrow> nat) u of
        [a] \<Rightarrow> (10 \<le> a \<and> a \<le> 13) \<or> (28 \<le> a \<and> a \<le> 30)
      | [a, b] \<Rightarrow> a = 194 \<and> b = 133
      | [a, b, c] \<Rightarrow> a = 226 \<and> b = 128 \<and> (c = 168 \<or> c = 169)
      | _ \<Rightarrow> False)"

fun split_line_chars :: "string list \<Rightarrow> string list \<Rightarrow> string list" where
  "split_line_chars cur [] = (if cur = [] then [] else [concat (rev cur)])"
| "split_line_chars cur [u] = (if line_boundary u then [concat (rev cur)] else [concat (rev (u # cur))])"
| "split_line_chars cur (u # v # us) =
     (if u = [CHR 0x0D] \<and> v = [CHR 0x0A] then concat (rev cur) # split_line_chars [] us
      else if line_boundary u then concat (rev cur) # split_line_chars [] (v # us)
      else split_line_chars (u # cur) (v # us))"

definition py_splitlines :: "string \<Rightarrow> string list" where
  "py_splitlines s = split_line_chars [] (py_chars s)"

text \<open>\<open>value.split("\n\n")\<close>, which finds the separator from the left.\<close>

fun split_blank_lines :: "string \<Rightarrow> string list" where
  "split_blank_lines [] = [[]]"
| "split_blank_lines [c] = [[c]]"
| "split_blank_lines (c # d # s) =
     (if c = CHR 0x0A \<and> d = CHR 0x0A then [] # split_blank_lines s
      else (case split_blank_lines (d # s) of [] \<Rightarrow> [[c]] | u # us \<Rightarrow> (c # u) # us))"

subsection \<open>Titles\<close>

text \<open>
  The table \<open>_COMMON_PUNCTUATION\<close> by the UTF-8 bytes of its keys: the dashes \<open>U+2010-U+2014\<close>,
  \<open>U+FE58\<close> and \<open>U+FE63\<close>, the quotes \<open>U+2018-U+201A\<close> and \<open>U+201C-U+201E\<close>, and the
  colon \<open>U+FE55\<close>.
\<close>

definition common_punctuation :: "string \<Rightarrow> string" where
  "common_punctuation u =
     (case map (of_char :: char \<Rightarrow> nat) u of
        [a, b, c] \<Rightarrow>
          if (a = 226 \<and> b = 128 \<and> 144 \<le> c \<and> c \<le> 148) \<or> (a = 239 \<and> b = 185 \<and> (c = 152 \<or> c = 163)) then ''-''
          else if a = 226 \<and> b = 128 \<and> 152 \<le> c \<and> c \<le> 154 then [CHR 0x27]
          else if a = 226 \<and> b = 128 \<and> 156 \<le> c \<and> c \<le> 158 then [CHR 0x22]
          else if a = 239 \<and> b = 185 \<and> c = 149 then '':''
          else u
      | _ \<Rightarrow> u)"

definition display_title :: "(string \<Rightarrow> string) \<Rightarrow> string \<Rightarrow> string" where
  "display_title nfkc v = py_join '' '' (py_split (concat (map common_punctuation (py_chars (nfkc v)))))"

definition normalize_knowledge_title :: "(string \<Rightarrow> string) \<Rightarrow> (string \<Rightarrow> string) \<Rightarrow> string \<Rightarrow> string \<times> string" where
  "normalize_knowledge_title nfkc casefold v = (let d = display_title nfkc v in (d, casefold d))"

subsection \<open>Comparison forms\<close>

definition normalized_knowledge_content :: "(string \<Rightarrow> string) \<Rightarrow> string \<Rightarrow> string" where
  "normalized_knowledge_content casefold v =
     casefold (py_join [CHR 0x0A]
       (map (\<lambda>line. py_join '' '' (py_split line)) (filter (\<lambda>line. py_strip line \<noteq> []) (py_splitlines v))))"

text \<open>
  The pattern \<open>\[\^(src-[^\]\s]+)\](?!:)\<close>: \<open>source_marker\<close> is the length in code points of the
  match at the start of a text, and every match is removed from the left.  The class after
  \<open>src-\<close> excludes the bracket that must follow, so the greedy run is the only candidate.
\<close>

definition source_marker :: "string list \<Rightarrow> nat option" where
  "source_marker us =
     (if take 6 us \<noteq> [''['', ''^'', ''s'', ''r'', ''c'', ''-''] then None
      else let name = takeWhile (\<lambda>u. u \<noteq> '']'' \<and> \<not> py_isspace u) (drop 6 us); rest = drop (6 + length name) us in
        if name = [] \<or> rest = [] \<or> hd rest \<noteq> '']'' \<or> (tl rest \<noteq> [] \<and> hd (tl rest) = '':'') then None
        else Some (7 + length name))"

function strip_marker_chars :: "string list \<Rightarrow> string list" where
  "strip_marker_chars [] = []"
| "strip_marker_chars (u # us) =
     (case source_marker (u # us) of
        None \<Rightarrow> u # strip_marker_chars us
      | Some n \<Rightarrow> strip_marker_chars (drop (n - 1) us))"
  by pat_completeness auto
termination by (relation "measure length") (auto simp: le_imp_less_Suc)

definition strip_knowledge_source_markers :: "string \<Rightarrow> string" where
  "strip_knowledge_source_markers v = concat (strip_marker_chars (py_chars v))"

subsection \<open>Bounded summaries\<close>

text \<open>
  \<open>round(p / q)\<close> of natural numbers: the nearest integer, a tie going to the even one.  The
  quotient is a float in the source; for the lengths of a summary (\<open>p\<close> far below \<open>2^50\<close>)
  its rounding moves no value across a half.
\<close>

definition round_half_even :: "nat \<Rightarrow> nat \<Rightarrow> nat" where
  "round_half_even p q =
     (let d = p div q; r = p mod q in
      if 2 * r < q then d else if q < 2 * r then Suc d else if even d then d else Suc d)"

definition bounded_document_summary_units :: "nat \<Rightarrow> 'a list \<Rightarrow> 'a list" where
  "bounded_document_summary_units maximum units =
     (if length units \<le> maximum then units
      else if maximum = 0 then []
      else if maximum = 1 then [units ! (length units div 2)]
      else map (\<lambda>i. units ! i)
        (sort (remdups (map (\<lambda>k. round_half_even (k * (length units - 1)) (maximum - 1)) [0..<maximum]))))"

lemma round_half_even_bounds:
  assumes "0 < q"
  shows "2 * p \<le> 2 * (round_half_even p q * q) + q" "2 * (round_half_even p q * q) \<le> 2 * p + q"
proof -
  have p: "p = (p div q) * q + p mod q" by simp
  then have "2 * p = 2 * ((p div q) * q) + 2 * (p mod q)" by linarith
  moreover have "p mod q < q" using assms by simp
  ultimately show "2 * p \<le> 2 * (round_half_even p q * q) + q" "2 * (round_half_even p q * q) \<le> 2 * p + q"
    by (auto simp: round_half_even_def Let_def)
qed

lemma round_half_even_mult [simp]: "0 < q \<Longrightarrow> round_half_even (n * q) q = n"
  by (simp add: round_half_even_def)

lemma round_half_even_less:
  assumes "0 < q" "p + q < p'"
  shows "round_half_even p q < round_half_even p' q"
proof -
  have "round_half_even p q * q < round_half_even p' q * q"
    using round_half_even_bounds [OF assms(1), of p] round_half_even_bounds [OF assms(1), of p'] assms(2) by linarith
  then show ?thesis by simp
qed

lemma summary_indexes:
  assumes "1 < m" "m < n"
  defines "ix \<equiv> map (\<lambda>k. round_half_even (k * (n - 1)) (m - 1)) [0..<m]"
  shows "sorted_wrt (<) ix" "sort (remdups ix) = ix" "hd ix = 0" "last ix = n - 1" "length ix = m"
    "list_all (\<lambda>i. i < n) ix"
proof -
  have less: "round_half_even (i * (n - 1)) (m - 1) < round_half_even (j * (n - 1)) (m - 1)" if "i < j" for i j
  proof (rule round_half_even_less)
    have "Suc i * (n - 1) \<le> j * (n - 1)" using that by (intro mult_le_mono1) simp
    then show "i * (n - 1) + (m - 1) < j * (n - 1)" using assms by simp
  qed (use assms in simp)
  then show strict: "sorted_wrt (<) ix"
    unfolding ix_def sorted_wrt_map by (simp add: sorted_wrt_upt sorted_wrt_mono_rel [of _ "(<)"])
  then show "sort (remdups ix) = ix" by (simp add: strict_sorted_iff distinct_remdups_id sorted_sort_id)
  have "[0..<m] = 0 # [1..<m]" using assms(1) by (simp add: upt_rec)
  then show "hd ix = 0" by (simp add: ix_def round_half_even_def)
  have m: "[0..<m] = [0..<m - 1] @ [m - 1]" using assms(1) by (metis One_nat_def Suc_pred le0 less_trans upt_Suc_append zero_less_one)
  have "round_half_even ((m - 1) * (n - 1)) (m - 1) = n - 1"
    using round_half_even_mult [of "m - 1" "n - 1"] assms(1) by (simp add: mult.commute)
  then show last: "last ix = n - 1" by (simp add: ix_def m)
  show "length ix = m" by (simp add: ix_def)
  have "\<forall>i\<in>set ix. i \<le> last ix"
    using strict assms(1) by (cases ix rule: rev_cases) (auto simp: sorted_wrt_append)
  then show "list_all (\<lambda>i. i < n) ix" using last assms by (auto simp: list_all_iff)
qed

lemma subseq_at_indexes:
  "sorted_wrt (<) ix \<Longrightarrow> list_all (\<lambda>i. i < n) ix \<Longrightarrow> n \<le> length xs \<Longrightarrow>
     subseq (map (\<lambda>i. xs ! i) ix) (take n xs)"
proof (induction ix arbitrary: n rule: rev_induct)
  case (snoc i ix)
  then have i: "list_all (\<lambda>j. j < i) ix" "i < n" "sorted_wrt (<) ix" by (auto simp: sorted_wrt_append list_all_iff)
  then have "subseq (map (\<lambda>i. xs ! i) ix @ [xs ! i]) (take i xs @ [xs ! i])"
    using snoc by (intro list_emb_append_mono) auto
  moreover have "take i xs @ [xs ! i] = take (Suc i) xs" using i snoc.prems by (simp add: take_Suc_conv_app_nth)
  moreover have "prefix (take (Suc i) xs) (take n xs)" using i by (metis Suc_leI min.absorb1 take_is_prefix take_take)
  ultimately have "subseq (map (\<lambda>i. xs ! i) ix @ [xs ! i]) (take (Suc i) xs)" "subseq (take (Suc i) xs) (take n xs)"
    by (simp_all add: prefix_imp_subseq)
  then show ?case by simp
qed simp

text \<open>A summary keeps its first and its last unit, and no more and no fewer units than its bound.\<close>

lemma bounded_summary:
  "subseq (bounded_document_summary_units m units) units"
  "length (bounded_document_summary_units m units) = min m (length units)"
  "2 \<le> m \<Longrightarrow> units \<noteq> [] \<Longrightarrow> hd (bounded_document_summary_units m units) = hd units \<and>
     last (bounded_document_summary_units m units) = last units"
proof -
  define ix where "ix = map (\<lambda>k. round_half_even (k * (length units - 1)) (m - 1)) [0..<m]"
  have many: "bounded_document_summary_units m units = map (\<lambda>i. units ! i) ix"
    "sorted_wrt (<) ix" "hd ix = 0" "last ix = length units - 1" "length ix = m" "list_all (\<lambda>i. i < length units) ix"
    if "1 < m" "m < length units"
    using summary_indexes [OF that] that by (simp_all add: bounded_document_summary_units_def ix_def)
  have one: "subseq [units ! (length units div 2)] units" if "1 < length units"
    using that subseq_at_indexes [of "[length units div 2]" "length units" units] by simp
  show "subseq (bounded_document_summary_units m units) units"
    using many subseq_at_indexes [of ix "length units" units] one
    by (cases "1 < m \<and> m < length units") (auto simp: bounded_document_summary_units_def)
  show "length (bounded_document_summary_units m units) = min m (length units)"
    using many by (cases "1 < m \<and> m < length units") (auto simp: bounded_document_summary_units_def)
  show "hd (bounded_document_summary_units m units) = hd units \<and> last (bounded_document_summary_units m units) = last units"
    if "2 \<le> m" "units \<noteq> []"
  proof (cases "m < length units")
    case True
    with many that have "ix \<noteq> []" by auto
    with many True that show ?thesis by (simp add: hd_map last_map hd_conv_nth last_conv_nth)
  qed (simp add: bounded_document_summary_units_def)
qed

end
