(* ===== verification/StructuredOutput.thy ===== *)
theory StructuredOutput
  imports AnalysisPlan TextForms
begin

section \<open>Structured model output\<close>

text \<open>
  Requests and results of the model gateway (\<open>openkb/models/gateway.py\<close>), and the one
  validation boundary they pass (\<open>openkb/models/structured_output.py\<close>): the result of a call
  is validated locally, and an invalid one gets exactly one repair call.  The provider and
  the local validator are arguments, as functions; what the code does with results is
  recorded in a log of events.  SHA-256 is an argument.
\<close>

subsection \<open>Requests and results\<close>

datatype execution_lane = Background | Interactive

record model_request =
  rq_operation :: string
  rq_document :: string
  rq_content :: string
  rq_model_role :: string
  rq_model_name :: "string option"
  rq_context_capacity :: "int option"
  rq_document_input_capacity :: "int option"
  rq_reasoning_effort :: "string option"
  rq_adapter :: "string option"
  rq_adapter_version :: "string option"
  rq_output_mode :: "string option"
  rq_response_schema :: "dict option"
  rq_local_validation :: bool
  rq_response_example :: "dict option"
  rq_schema_name :: "string option"
  rq_generation :: "dict option"
  rq_capability_identity :: "string option"
  rq_contract_digest :: "string option"
  rq_parent_operation :: "string option"
  rq_parent_digest :: "string option"
  rq_contract_version :: "string option"
  rq_contract_snapshot :: "dict option"
  rq_streaming :: "bool option"
  rq_job :: "string option"
  rq_stage_run :: "string option"
  rq_batch :: "string option"
  rq_lane :: execution_lane

text \<open>A request with the defaults of the class.\<close>

definition new_request :: "string \<Rightarrow> string \<Rightarrow> string \<Rightarrow> model_request" where
  "new_request operation document content =
     \<lparr>rq_operation = operation, rq_document = document, rq_content = content,
      rq_model_role = ''default'', rq_model_name = None, rq_context_capacity = None,
      rq_document_input_capacity = None, rq_reasoning_effort = None, rq_adapter = None,
      rq_adapter_version = None, rq_output_mode = None, rq_response_schema = None,
      rq_local_validation = False, rq_response_example = None, rq_schema_name = None,
      rq_generation = None, rq_capability_identity = None, rq_contract_digest = None,
      rq_parent_operation = None, rq_parent_digest = None, rq_contract_version = None,
      rq_contract_snapshot = None, rq_streaming = None, rq_job = None, rq_stage_run = None,
      rq_batch = None, rq_lane = Background\<rparr>"

record token_usage =
  us_input :: int
  us_output :: int
  us_total :: int

record output_observations =
  ob_finish :: "string option"
  ob_reasoning :: bool
  ob_final :: bool
  ob_reasoning_chunks :: int
  ob_final_chunks :: int
  ob_reasoning_characters :: int
  ob_final_characters :: int
  ob_output_limit :: bool

text \<open>
  The finalizer of a result is a closure of the gateway; \<open>mr_deferred\<close> says whether there is
  one, and calling it is an event.
\<close>

record model_result =
  mr_call_id :: string
  mr_content :: string
  mr_attempts :: int
  mr_usage :: "token_usage option"
  mr_provider_request :: "string option"
  mr_observations :: "output_observations option"
  mr_context :: dict
  mr_request_payload :: "string option"
  mr_reasoning :: string
  mr_deferred :: bool

datatype model_event =
    Invoked model_request "model_result res"
  | Finalized string bool
  | Failure_Owned string string int bool

record 's call_world =
  cw_state :: 's
  cw_log :: "model_event list"

definition log_event :: "model_event \<Rightarrow> 's call_world \<Rightarrow> 's call_world" where
  "log_event ev w = w\<lparr>cw_log := cw_log w @ [ev]\<rparr>"

definition call_model ::
  "('s \<Rightarrow> model_request \<Rightarrow> model_result res \<times> 's) \<Rightarrow> model_request \<Rightarrow> 's call_world \<Rightarrow>
    model_result res \<times> 's call_world" where
  "call_model invoke rq w =
     (case invoke (cw_state w) rq of (r, s') \<Rightarrow> (r, log_event (Invoked rq r) (w\<lparr>cw_state := s'\<rparr>)))"

definition complete_model_result :: "model_result \<Rightarrow> 's call_world \<Rightarrow> 's call_world" where
  "complete_model_result r w = (if mr_deferred r then log_event (Finalized (mr_call_id r) True) w else w)"

text \<open>The failure code is always \<open>model_response_invalid\<close>, a known one.\<close>

definition reject_model_result :: "model_result \<Rightarrow> 's call_world \<Rightarrow> 's call_world" where
  "reject_model_result r w = (if mr_deferred r then log_event (Finalized (mr_call_id r) False) w else w)"

subsection \<open>What a contract pins\<close>

text \<open>
  \<open>minimal_json_example\<close> recurses into the schemas of the required properties; the fuel is
  the nesting, at most the size of the schema.  In a dictionary comprehension a repeated name
  keeps its first position.  A float \<open>minimum\<close> is returned as it is.
\<close>

fun required_members :: "(dict \<Rightarrow> json) \<Rightarrow> dict \<Rightarrow> json list \<Rightarrow> dict \<Rightarrow> dict" where
  "required_members example properties [] d = d"
| "required_members example properties (name # names) d =
     required_members example properties names
       (case name of
          JStr n \<Rightarrow>
            (case dict_get properties n of
               JObj property \<Rightarrow> dict_put d n (example property)
             | _ \<Rightarrow> d)
        | _ \<Rightarrow> d)"

definition schema_minimum :: "bool \<Rightarrow> dict \<Rightarrow> json" where
  "schema_minimum floats schema =
     (case dict_get schema ''minimum'' of
        JInt i \<Rightarrow> JInt i
      | JBool b \<Rightarrow> JBool b
      | JFloat f \<Rightarrow> (if floats then JFloat f else JInt 0)
      | _ \<Rightarrow> JInt 0)"

fun minimal_json_example :: "nat \<Rightarrow> dict \<Rightarrow> json" where
  "minimal_json_example fuel schema =
     (case map_of schema ''const'' of
        Some v \<Rightarrow> v
      | None \<Rightarrow>
          (case dict_get schema ''enum'' of
             JList (v # vs) \<Rightarrow> v
           | _ \<Rightarrow>
               (let t = dict_get schema ''type'' in
                if t = JStr ''object'' then
                  (case (dict_get schema ''properties'', dict_get schema ''required'') of
                     (JObj properties, JList names) \<Rightarrow>
                       JObj (case fuel of
                               0 \<Rightarrow> []
                             | Suc n \<Rightarrow> required_members (minimal_json_example n) properties names [])
                   | _ \<Rightarrow> JObj [])
                else if t = JStr ''array'' then JList []
                else if t = JStr ''string'' then JStr []
                else if t = JStr ''integer'' then schema_minimum False schema
                else if t = JStr ''number'' then schema_minimum True schema
                else if t = JStr ''boolean'' then JBool False
                else JNull)))"

declare minimal_json_example.simps [simp del]

definition schema_name :: "string \<Rightarrow> string" where
  "schema_name version =
     concat (take 64 (py_chars (map (\<lambda>c. if c = CHR ''.'' \<or> c = CHR ''-'' then CHR ''_'' else c) version)))"

definition snapshot_digest :: "(string \<Rightarrow> string) \<Rightarrow> dict \<Rightarrow> string" where
  "snapshot_digest sha256 snapshot = sha256 (canonical_json (JObj snapshot))"

definition json_opt_obj :: "dict option \<Rightarrow> json" where
  "json_opt_obj v = (case v of None \<Rightarrow> JNull | Some d \<Rightarrow> JObj d)"

definition repair_contract_digest ::
  "(string \<Rightarrow> string) \<Rightarrow> dict \<Rightarrow> string \<Rightarrow> string \<Rightarrow> dict option \<Rightarrow> string" where
  "repair_contract_digest sha256 repair_snapshot parent parent_digest schema =
     snapshot_digest sha256
       [(''repair_contract'', JObj repair_snapshot), (''parent_operation'', JStr parent),
        (''parent_prompt_contract_digest'', JStr parent_digest), (''output_schema'', json_opt_obj schema)]"

subsection \<open>Validation errors\<close>

text \<open>
  What the code reads of the exception of a validator: its class name, its message and, when
  it has them, its \<open>validation_errors\<close>.
\<close>

record validation_error =
  ve_class :: string
  ve_message :: string
  ve_errors :: "string list option"

definition bounded_text :: "nat \<Rightarrow> string \<Rightarrow> string" where
  "bounded_text n s = concat (take n (py_chars s))"

definition safe_validation_error :: "validation_error \<Rightarrow> string" where
  "safe_validation_error e =
     (let message = bounded_text 1000 (py_join '' '' (py_split (ve_message e))) in
      if message = [] then ve_class e else message)"

definition safe_messages :: "string list \<Rightarrow> string list" where
  "safe_messages messages =
     foldl (\<lambda>safe message.
              let normalized = bounded_text 1000 (py_join '' '' (py_split message)) in
              if normalized = [] then safe else append_new safe normalized)
       [] (take 16 messages)"

definition safe_validation_errors :: "validation_error \<Rightarrow> string list" where
  "safe_validation_errors e =
     (case ve_errors e of
        None \<Rightarrow> [safe_validation_error e]
      | Some messages \<Rightarrow>
          let safe = safe_messages messages in
          if safe = [] then [safe_validation_error e] else safe)"

definition repair_input ::
  "string \<Rightarrow> dict option \<Rightarrow> dict option \<Rightarrow> validation_error \<Rightarrow> string \<Rightarrow> string \<Rightarrow> string" where
  "repair_input operation schema example error invalid source =
     canonical_json (JObj
       [(''operation'', JStr operation), (''output_schema'', json_opt_obj schema),
        (''output_example'', json_opt_obj example),
        (''validation_errors'', JList (map JStr (safe_validation_errors error))),
        (''invalid_result'', JStr invalid), (''evidence_bound_source_material'', JStr source)])"

subsection \<open>The transport fence\<close>

definition normalize_structured_output :: "string \<Rightarrow> string" where
  "normalize_structured_output content =
     (let normalized = py_strip content in
      if \<not> prefix ''```'' normalized then normalized
      else let ls = py_splitlines normalized in
        if length ls < 2 \<or> \<not> prefix ''```'' (py_strip (last ls)) then normalized
        else py_strip (py_join [CHR 0x0A] (butlast (tl ls))))"

subsection \<open>One call, at most one repair\<close>

record structured_error =
  se_initial :: model_result
  se_final :: model_result
  se_repaired :: bool
  se_event :: "string option"

definition se_attempts :: "structured_error \<Rightarrow> int" where
  "se_attempts e =
     (if se_repaired e then mr_attempts (se_initial e) + mr_attempts (se_final e)
      else mr_attempts (se_initial e))"

definition output_limit_reached :: "model_result \<Rightarrow> bool" where
  "output_limit_reached r = (case mr_observations r of None \<Rightarrow> False | Some ob \<Rightarrow> ob_output_limit ob)"

definition structured_output_reached_limit :: "structured_error \<Rightarrow> bool" where
  "structured_output_reached_limit e =
     list_ex output_limit_reached (if se_repaired e then [se_initial e, se_final e] else [se_initial e])"

text \<open>What a call may raise: an exception of its own or of the provider, or invalid output.\<close>

datatype call_error = Raised error | Invalid_Output structured_error

record 'v structured_output =
  so_result :: model_result
  so_value :: 'v
  so_repaired :: bool
  so_initial :: "model_result option"

text \<open>The fields of the active contract that a request needs.\<close>

record active_contract =
  ac_schema :: "dict option"
  ac_example :: "dict option"
  ac_generation :: dict
  ac_version :: string
  ac_digest :: string

definition optional_object :: "string \<Rightarrow> json \<Rightarrow> dict option res" where
  "optional_object message v =
     (case v of JNull \<Rightarrow> Inr None | JObj d \<Rightarrow> Inr (Some d) | _ \<Rightarrow> Inl (ValueError message))"

definition active_contract_of :: "(string \<Rightarrow> string) \<Rightarrow> nat \<Rightarrow> dict \<Rightarrow> active_contract res" where
  "active_contract_of sha256 fuel snapshot =
     res_bind (optional_object ''Prompt Contract output schema is invalid.''
       (dict_get snapshot ''output_schema'')) (\<lambda>schema.
     res_bind (optional_object ''Prompt Contract output example is invalid.''
       (dict_get snapshot ''output_example'')) (\<lambda>example.
     (case dict_get snapshot ''generation_parameters'' of
        JObj generation \<Rightarrow>
          (case dict_get snapshot ''version'' of
             JStr version \<Rightarrow>
               Inr \<lparr>ac_schema = schema,
                 ac_example =
                   (case (example, schema) of
                      (None, Some s) \<Rightarrow>
                        (case minimal_json_example fuel s of JObj d \<Rightarrow> Some d | _ \<Rightarrow> None)
                    | _ \<Rightarrow> example),
                 ac_generation = generation, ac_version = version,
                 ac_digest = snapshot_digest sha256 snapshot\<rparr>
           | _ \<Rightarrow> Inl (ValueError ''Prompt Contract version is invalid.''))
      | _ \<Rightarrow> Inl (ValueError ''Prompt Contract generation parameters are invalid.''))))"

definition initial_request :: "active_contract \<Rightarrow> dict \<Rightarrow> string \<Rightarrow> string \<Rightarrow> string \<Rightarrow> model_request" where
  "initial_request c snapshot operation document source =
     (new_request operation document source)
       \<lparr>rq_response_schema := ac_schema c, rq_local_validation := True,
        rq_response_example := ac_example c, rq_schema_name := Some (schema_name (ac_version c)),
        rq_generation := Some (ac_generation c), rq_contract_digest := Some (ac_digest c),
        rq_contract_version := Some (ac_version c), rq_contract_snapshot := Some snapshot\<rparr>"

definition repair_request ::
  "(string \<Rightarrow> string) \<Rightarrow> active_contract \<Rightarrow> dict \<Rightarrow> string \<Rightarrow> string \<Rightarrow> string \<Rightarrow> validation_error \<Rightarrow>
    string \<Rightarrow> model_request res" where
  "repair_request sha256 c repair_snapshot operation document source error invalid =
     (case (dict_get repair_snapshot ''generation_parameters'', dict_get repair_snapshot ''version'') of
        (JObj generation, JStr version) \<Rightarrow>
          Inr ((new_request ''structured_output_repair'' document
                  (repair_input operation (ac_schema c) (ac_example c) error invalid source))
            \<lparr>rq_response_schema := ac_schema c, rq_local_validation := True,
             rq_response_example := ac_example c, rq_schema_name := Some (schema_name (ac_version c)),
             rq_generation := Some generation,
             rq_contract_digest := Some (repair_contract_digest sha256 repair_snapshot operation
               (ac_digest c) (ac_schema c)),
             rq_parent_operation := Some operation, rq_parent_digest := Some (ac_digest c),
             rq_contract_version := Some version, rq_contract_snapshot := Some repair_snapshot\<rparr>)
      | _ \<Rightarrow> Inl (ValueError ''Structured Output Repair Prompt Contract is invalid.''))"

text \<open>
  Owning a failure writes a log record and an optional trace and returns the identifier of
  the record; \<open>event_ids\<close> gives it for each position of the log.
\<close>

definition own_failure ::
  "(nat \<Rightarrow> string) \<Rightarrow> string \<Rightarrow> model_result \<Rightarrow> model_result \<Rightarrow> bool \<Rightarrow> 's call_world \<Rightarrow>
    call_error \<times> 's call_world" where
  "own_failure event_ids operation initial final repaired w =
     (let e = \<lparr>se_initial = initial, se_final = final, se_repaired = repaired,
                se_event = Some (event_ids (length (cw_log w)))\<rparr> in
      (Invalid_Output e, log_event (Failure_Owned operation (mr_call_id final) (se_attempts e) repaired) w))"

text \<open>
  \<open>a or b\<close> of two snapshots: an empty one counts as missing.  \<open>default_snapshot\<close> is
  \<open>prompt_contract_for(operation).snapshot()\<close>, \<open>None\<close> for an unknown operation.
\<close>

definition snapshot_or :: "dict option \<Rightarrow> dict \<Rightarrow> dict" where
  "snapshot_or s fallback = (case s of Some (kv # d) \<Rightarrow> kv # d | _ \<Rightarrow> fallback)"

record 's structured_env =
  sv_sha256 :: "string \<Rightarrow> string"
  sv_fuel :: nat
  sv_default_snapshot :: "string \<Rightarrow> dict option"
  sv_event_ids :: "nat \<Rightarrow> string"
  sv_invoke :: "'s \<Rightarrow> model_request \<Rightarrow> model_result res \<times> 's"

text \<open>The repair, after the initial result has been rejected.\<close>

definition run_repair ::
  "'s structured_env \<Rightarrow> (string \<Rightarrow> validation_error + 'v) \<Rightarrow> string \<Rightarrow> string \<Rightarrow> string \<Rightarrow> active_contract \<Rightarrow>
    dict option \<Rightarrow> model_result \<Rightarrow> validation_error \<Rightarrow> 's call_world \<Rightarrow>
    (call_error + 'v structured_output) \<times> 's call_world" where
  "run_repair env validate operation document source c repair_snapshot initial first_error w =
     (case sv_default_snapshot env ''structured_output_repair'' of
        None \<Rightarrow> (Inl (Raised (KeyError ''structured_output_repair'')), w)
      | Some fallback \<Rightarrow>
     (case repair_request (sv_sha256 env) c (snapshot_or repair_snapshot fallback) operation document source
             first_error (mr_content initial) of
        Inl e \<Rightarrow> (Inl (Raised e), w)
      | Inr rq \<Rightarrow>
     (case call_model (sv_invoke env) rq w of
        (Inl e, w1) \<Rightarrow> (Inl (Raised e), w1)
      | (Inr repaired, w1) \<Rightarrow>
     (case validate (normalize_structured_output (mr_content repaired)) of
        Inl second_error \<Rightarrow>
          (case own_failure (sv_event_ids env) operation initial repaired True
                  (reject_model_result repaired w1) of
             (e, w2) \<Rightarrow> (Inl e, w2))
      | Inr value \<Rightarrow>
          (Inr \<lparr>so_result = repaired, so_value = value, so_repaired = True, so_initial = Some initial\<rparr>,
           complete_model_result repaired w1)))))"

definition judge_result ::
  "'s structured_env \<Rightarrow> (string \<Rightarrow> validation_error + 'v) \<Rightarrow> string \<Rightarrow> string \<Rightarrow> string \<Rightarrow> active_contract \<Rightarrow>
    dict option \<Rightarrow> (validation_error \<Rightarrow> bool) option \<Rightarrow> bool \<Rightarrow> model_result \<Rightarrow> 's call_world \<Rightarrow>
    (call_error + 'v structured_output) \<times> 's call_world" where
  "judge_result env validate operation document source c repair_snapshot should_repair
       repair_output_limit initial w =
     (let refused = (case own_failure (sv_event_ids env) operation initial initial False
                            (reject_model_result initial w) of (e, w2) \<Rightarrow> (Inl e, w2)) in
      if output_limit_reached initial \<and> \<not> repair_output_limit then refused
      else
        (case validate (normalize_structured_output (mr_content initial)) of
           Inr value \<Rightarrow>
             (Inr \<lparr>so_result = initial, so_value = value, so_repaired = False, so_initial = None\<rparr>,
              complete_model_result initial w)
         | Inl first_error \<Rightarrow>
             if (case should_repair of None \<Rightarrow> False | Some repairs \<Rightarrow> \<not> repairs first_error) then refused
             else run_repair env validate operation document source c repair_snapshot initial
                    first_error (reject_model_result initial w)))"

definition run_structured_output ::
  "'s structured_env \<Rightarrow> (string \<Rightarrow> validation_error + 'v) \<Rightarrow> string \<Rightarrow> string \<Rightarrow> string \<Rightarrow> dict option \<Rightarrow>
    dict option \<Rightarrow> (validation_error \<Rightarrow> bool) option \<Rightarrow> bool \<Rightarrow> 's call_world \<Rightarrow>
    (call_error + 'v structured_output) \<times> 's call_world" where
  "run_structured_output env validate operation document source contract_snapshot repair_snapshot
       should_repair repair_output_limit w =
     (case sv_default_snapshot env operation of
        None \<Rightarrow> (Inl (Raised (KeyError operation)), w)
      | Some fallback \<Rightarrow>
     (let active = snapshot_or contract_snapshot fallback in
     (case active_contract_of (sv_sha256 env) (sv_fuel env) active of
        Inl e \<Rightarrow> (Inl (Raised e), w)
      | Inr c \<Rightarrow>
     (case call_model (sv_invoke env) (initial_request c active operation document source) w of
        (Inl e, w1) \<Rightarrow> (Inl (Raised e), w1)
      | (Inr initial, w1) \<Rightarrow>
          judge_result env validate operation document source c repair_snapshot should_repair
            repair_output_limit initial w1))))"

subsection \<open>What a run leaves in the log\<close>

definition obtained :: "model_event list \<Rightarrow> model_result list" where
  "obtained evs = concat (map (\<lambda>ev. case ev of Invoked rq (Inr r) \<Rightarrow> [r] | _ \<Rightarrow> []) evs)"

definition requested :: "model_event list \<Rightarrow> model_request list" where
  "requested evs = concat (map (\<lambda>ev. case ev of Invoked rq r \<Rightarrow> [rq] | _ \<Rightarrow> []) evs)"

definition finalized :: "model_event list \<Rightarrow> (string \<times> bool) list" where
  "finalized evs = concat (map (\<lambda>ev. case ev of Finalized c accepted \<Rightarrow> [(c, accepted)] | _ \<Rightarrow> []) evs)"

definition verdicts :: "bool \<Rightarrow> model_result list \<Rightarrow> (string \<times> bool) list" where
  "verdicts accepted rs = map (\<lambda>r. (mr_call_id r, accepted)) (filter mr_deferred rs)"

lemma obtained_simps [simp]:
  "obtained [] = []"
  "obtained (ev # evs) = (case ev of Invoked rq (Inr r) \<Rightarrow> [r] | _ \<Rightarrow> []) @ obtained evs"
  "obtained (evs @ evs') = obtained evs @ obtained evs'"
  by (simp_all add: obtained_def)

lemma requested_simps [simp]:
  "requested [] = []"
  "requested (ev # evs) = (case ev of Invoked rq r \<Rightarrow> [rq] | _ \<Rightarrow> []) @ requested evs"
  "requested (evs @ evs') = requested evs @ requested evs'"
  by (simp_all add: requested_def)

lemma finalized_simps [simp]:
  "finalized [] = []"
  "finalized (ev # evs) = (case ev of Finalized c a \<Rightarrow> [(c, a)] | _ \<Rightarrow> []) @ finalized evs"
  "finalized (evs @ evs') = finalized evs @ finalized evs'"
  by (simp_all add: finalized_def)

lemma verdicts_simps [simp]:
  "verdicts a [] = []"
  "verdicts a (r # rs) = (if mr_deferred r then [(mr_call_id r, a)] else []) @ verdicts a rs"
  by (simp_all add: verdicts_def)

lemma initial_request_operation [simp]:
  "rq_operation (initial_request c snapshot operation document source) = operation"
  by (simp add: initial_request_def new_request_def)

lemma repair_request_Inr:
  "repair_request sha256 c snapshot operation document source e invalid = Inr rq \<Longrightarrow>
     rq_operation rq = ''structured_output_repair'' \<and> rq_parent_operation rq = Some operation \<and>
     rq_content rq = repair_input operation (ac_schema c) (ac_example c) e invalid source"
  by (auto simp: repair_request_def new_request_def split: json.splits)

text \<open>The verdict on a run: which results it obtained and what became of each.\<close>

definition run_settled ::
  "(string \<Rightarrow> validation_error + 'v) \<Rightarrow> (call_error + 'v structured_output) \<Rightarrow> model_event list \<Rightarrow> bool" where
  "run_settled validate out evs =
     (case out of
        Inr so \<Rightarrow>
          obtained evs = (case so_initial so of None \<Rightarrow> [so_result so] | Some r \<Rightarrow> [r, so_result so]) \<and>
          finalized evs = verdicts False (butlast (obtained evs)) @ verdicts True [so_result so] \<and>
          validate (normalize_structured_output (mr_content (so_result so))) = Inr (so_value so) \<and>
          (so_repaired so \<longleftrightarrow> so_initial so \<noteq> None)
      | Inl (Invalid_Output e) \<Rightarrow>
          obtained evs = (if se_repaired e then [se_initial e, se_final e] else [se_initial e]) \<and>
          finalized evs = verdicts False (obtained evs) \<and>
          (se_repaired e \<or> se_final e = se_initial e)
      | Inl (Raised e) \<Rightarrow> length (obtained evs) \<le> 1 \<and> finalized evs = verdicts False (obtained evs))"

lemma log_event_simps [simp]:
  "cw_log (log_event ev w) = cw_log w @ [ev]"
  "cw_state (log_event ev w) = cw_state w"
  by (simp_all add: log_event_def)

lemma finalizer_logs [simp]:
  "cw_log (complete_model_result r w) = cw_log w @ (if mr_deferred r then [Finalized (mr_call_id r) True] else [])"
  "cw_log (reject_model_result r w) = cw_log w @ (if mr_deferred r then [Finalized (mr_call_id r) False] else [])"
  by (simp_all add: complete_model_result_def reject_model_result_def)

lemma call_model_log:
  "call_model invoke rq w = (r, w') \<Longrightarrow> cw_log w' = cw_log w @ [Invoked rq r]"
  by (auto simp: call_model_def split: prod.splits)

lemma own_failure_log:
  "own_failure event_ids operation initial final repaired w = (e, w') \<Longrightarrow>
     (\<exists>attempts. cw_log w' = cw_log w @ [Failure_Owned operation (mr_call_id final) attempts repaired]) \<and>
     (\<exists>se. e = Invalid_Output se \<and> se_initial se = initial \<and> se_final se = final \<and> se_repaired se = repaired)"
  by (auto simp: own_failure_def Let_def)

lemma run_repair_log:
  assumes "run_repair env validate operation document source c repair_snapshot initial first_error w = (out, w')"
  obtains evs where "cw_log w' = cw_log w @ evs"
    "case out of
       Inr so \<Rightarrow> obtained evs = [so_result so] \<and> finalized evs = verdicts True [so_result so] \<and>
         validate (normalize_structured_output (mr_content (so_result so))) = Inr (so_value so) \<and>
         so_repaired so \<and> so_initial so = Some initial
     | Inl (Invalid_Output e) \<Rightarrow> obtained evs = [se_final e] \<and> finalized evs = verdicts False [se_final e] \<and>
         se_repaired e \<and> se_initial e = initial
     | Inl (Raised e) \<Rightarrow> obtained evs = [] \<and> finalized evs = []"
    "requested evs = [] \<or> (\<exists>rq. requested evs = [rq] \<and> rq_operation rq = ''structured_output_repair'' \<and>
       rq_parent_operation rq = Some operation)"
  using assms
  by (simp add: run_repair_def split: option.splits sum.splits prod.splits)
     (fastforce dest: repair_request_Inr call_model_log own_failure_log)+

definition repaired_properly ::
  "(string \<Rightarrow> validation_error + 'v) \<Rightarrow> string \<Rightarrow> (validation_error \<Rightarrow> bool) option \<Rightarrow> bool \<Rightarrow> model_result \<Rightarrow>
    model_request list \<Rightarrow> bool" where
  "repaired_properly validate operation should_repair repair_output_limit initial rqs \<longleftrightarrow>
     rqs = [] \<or>
     (\<exists>rq e. rqs = [rq] \<and> rq_operation rq = ''structured_output_repair'' \<and>
        rq_parent_operation rq = Some operation \<and>
        validate (normalize_structured_output (mr_content initial)) = Inl e \<and>
        (\<forall>repairs\<in>set_option should_repair. repairs e) \<and>
        (output_limit_reached initial \<longrightarrow> repair_output_limit))"

lemma judge_result_log:
  assumes "judge_result env validate operation document source c repair_snapshot should_repair
      repair_output_limit initial w = (out, w')"
  obtains evs where "cw_log w' = cw_log w @ evs"
    "run_settled validate out (Invoked rq (Inr initial) # evs)"
    "repaired_properly validate operation should_repair repair_output_limit initial (requested evs)"
proof -
  consider (refused) e where "own_failure (sv_event_ids env) operation initial initial False
        (reject_model_result initial w) = (e, w')" "out = Inl e"
    | (valid) v where "validate (normalize_structured_output (mr_content initial)) = Inr v"
        "out = Inr \<lparr>so_result = initial, so_value = v, so_repaired = False, so_initial = None\<rparr>"
        "w' = complete_model_result initial w"
    | (repair) e where "validate (normalize_structured_output (mr_content initial)) = Inl e"
        "\<forall>repairs\<in>set_option should_repair. repairs e" "output_limit_reached initial \<longrightarrow> repair_output_limit"
        "run_repair env validate operation document source c repair_snapshot initial e
           (reject_model_result initial w) = (out, w')"
    using assms by (auto simp: judge_result_def Let_def split: if_splits sum.splits prod.splits option.splits)
  then show thesis
  proof cases
    case refused
    then show thesis using own_failure_log [OF refused(1)]
      by (elim conjE exE) (rule that, auto simp: run_settled_def repaired_properly_def)
  next
    case valid
    then show thesis by (intro that) (auto simp: run_settled_def repaired_properly_def)
  next
    case repair
    from run_repair_log [OF repair(4)] obtain evs where evs:
      "cw_log w' = cw_log (reject_model_result initial w) @ evs"
      "case out of
         Inr so \<Rightarrow> obtained evs = [so_result so] \<and> finalized evs = verdicts True [so_result so] \<and>
           validate (normalize_structured_output (mr_content (so_result so))) = Inr (so_value so) \<and>
           so_repaired so \<and> so_initial so = Some initial
       | Inl (Invalid_Output e) \<Rightarrow> obtained evs = [se_final e] \<and> finalized evs = verdicts False [se_final e] \<and>
           se_repaired e \<and> se_initial e = initial
       | Inl (Raised e) \<Rightarrow> obtained evs = [] \<and> finalized evs = []"
      "requested evs = [] \<or> (\<exists>rq. requested evs = [rq] \<and> rq_operation rq = ''structured_output_repair'' \<and>
         rq_parent_operation rq = Some operation)" .
    show thesis
    proof (rule that)
      show "cw_log w' = cw_log w @ ((if mr_deferred initial then [Finalized (mr_call_id initial) False] else []) @ evs)"
        using evs(1) by simp
    qed (use evs(2,3) repair in \<open>auto simp: run_settled_def repaired_properly_def split: sum.splits call_error.splits\<close>)
  qed
qed

lemma run_log:
  assumes "run_structured_output env validate operation document source contract_snapshot repair_snapshot
      should_repair repair_output_limit w = (out, w')"
  obtains (silent) e where "out = Inl (Raised e)" "w' = w"
  | (failed) rq e where "out = Inl (Raised e)" "cw_log w' = cw_log w @ [Invoked rq (Inl e)]" "rq_operation rq = operation"
  | (judged) rq initial evs where "cw_log w' = cw_log w @ Invoked rq (Inr initial) # evs" "rq_operation rq = operation"
      "run_settled validate out (Invoked rq (Inr initial) # evs)"
      "repaired_properly validate operation should_repair repair_output_limit initial (requested evs)"
proof -
  consider (early) e where "out = Inl (Raised e)" "w' = w"
    | (broken) rq e where "out = Inl (Raised e)" "cw_log w' = cw_log w @ [Invoked rq (Inl e)]" "rq_operation rq = operation"
    | (called) c rq initial w1 where "cw_log w1 = cw_log w @ [Invoked rq (Inr initial)]" "rq_operation rq = operation"
        "judge_result env validate operation document source c repair_snapshot should_repair
           repair_output_limit initial w1 = (out, w')"
    using assms
    by (auto simp: run_structured_output_def Let_def split: option.splits sum.splits prod.splits)
       (metis call_model_log initial_request_operation)+
  then show thesis
  proof cases
    case called
    show thesis by (rule judge_result_log [OF called(3), of rq], rule judged [where rq = rq]) (use called in auto)
  qed (use silent failed in blast)+
qed

text \<open>
  C14 A structured call makes at most one repair and settles every result.  Its first request
  is for the operation; a second one is a repair of that operation, made only when the
  validator rejected the first result, the repair policy allows it and the provider did not
  stop at its output limit (unless the caller repairs that too).  Every deferred result the
  provider returned is finalized exactly once: the one that is returned as completed, after
  the validator accepted its content, and every other one as rejected.
\<close>

theorem structured_output_repairs_once:
  assumes "run_structured_output env validate operation document source contract_snapshot repair_snapshot
      should_repair repair_output_limit w = (out, w')"
  shows "\<exists>evs. cw_log w' = cw_log w @ evs \<and> run_settled validate out evs \<and>
    map rq_operation (take 1 (requested evs)) = replicate (min 1 (length (requested evs))) operation \<and>
    (case obtained evs of
       [] \<Rightarrow> length (requested evs) \<le> 1
     | r # rs \<Rightarrow> repaired_properly validate operation should_repair repair_output_limit r (tl (requested evs)))"
  using assms
proof (cases rule: run_log)
  case silent
  then show ?thesis by (auto simp: run_settled_def)
next
  case (failed rq e)
  then show ?thesis by (auto simp: run_settled_def)
next
  case (judged rq initial evs)
  then show ?thesis by (intro exI [of _ "Invoked rq (Inr initial) # evs"]) simp
qed

text \<open>A provider whose first answer is invalid and whose repaired one is valid.\<close>

definition sample_result :: "string \<Rightarrow> string \<Rightarrow> model_result" where
  "sample_result call content = \<lparr>mr_call_id = call, mr_content = content, mr_attempts = 1, mr_usage = None,
     mr_provider_request = None, mr_observations = None, mr_context = [], mr_request_payload = None,
     mr_reasoning = [], mr_deferred = True\<rparr>"

definition sample_env :: "model_result list structured_env" where
  "sample_env = \<lparr>sv_sha256 = (\<lambda>s. ''digest''), sv_fuel = 0,
     sv_default_snapshot = (\<lambda>operation. Some [(''generation_parameters'', JObj []), (''version'', JStr ''v1'')]),
     sv_event_ids = (\<lambda>i. ''event''),
     sv_invoke = (\<lambda>answers rq. case answers of
        [] \<Rightarrow> (Inl (GatewayError ''provider_error''), []) | r # rs \<Rightarrow> (Inr r, rs))\<rparr>"

definition sample_validate :: "string \<Rightarrow> validation_error + nat" where
  "sample_validate content =
     (if content = ''7'' then Inr 7
      else Inl \<lparr>ve_class = ''ValueError'', ve_message = ''no number'', ve_errors = None\<rparr>)"

definition sample_run :: "model_result list \<Rightarrow> (call_error + nat structured_output) \<times> model_result list call_world" where
  "sample_run answers = run_structured_output sample_env sample_validate ''op'' ''doc'' ''source'' None None None False
     \<lparr>cw_state = answers, cw_log = []\<rparr>"

lemma sample_run_value:
  "map_sum (\<lambda>e. ()) (\<lambda>so. (so_result so, so_value so, so_repaired so, so_initial so))
     (fst (sample_run [sample_result ''c0'' ''x'', sample_result ''c1'' '' 7 ''])) =
   Inr (sample_result ''c1'' '' 7 '', 7, True, Some (sample_result ''c0'' ''x''))"
  by code_simp

theorem structured_output_repairs_once_witness:
  "finalized (cw_log (snd (sample_run [sample_result ''c0'' ''x'', sample_result ''c1'' '' 7 '']))) =
     [(''c0'', False), (''c1'', True)]"
proof -
  obtain out w where run: "sample_run [sample_result ''c0'' ''x'', sample_result ''c1'' '' 7 ''] = (out, w)"
    by fastforce
  with sample_run_value obtain so where so: "out = Inr so" "so_result so = sample_result ''c1'' '' 7 ''"
    "so_initial so = Some (sample_result ''c0'' ''x'')"
    by (cases out) auto
  from structured_output_repairs_once [OF run [unfolded sample_run_def]] so
  show ?thesis unfolding run
    by (auto simp: run_settled_def sample_result_def)
qed

end
