(* ===== verification/OutputRecovery.thy ===== *)
theory OutputRecovery
  imports StructuredOutput AnalysisPrompts
begin

section \<open>Splitting batches at the output limit\<close>

text \<open>
  \<open>openkb/knowledge/analysis/output_recovery.py\<close>: a batch whose result stopped at the output
  limit of the provider is split in two and both parts are analysed, recursively, down to a
  single piece of Evidence.  The analyser is an argument that threads a state, so the order
  of its calls matters; the merge of two partial analyses is an argument too.
\<close>

subsection \<open>Where to split\<close>

definition section_boundaries :: "evidence_item list \<Rightarrow> nat list" where
  "section_boundaries evidence =
     filter (\<lambda>i. heading_path (snd (evidence ! (i - 1))) \<noteq> heading_path (snd (evidence ! i))) [1..<length evidence]"

text \<open>
  The key \<open>(abs(index - len / 2), index)\<close>, with both sides of the first component doubled,
  and \<open>min\<close> by it, which keeps the first of equal elements.
\<close>

definition closer_to_middle :: "nat \<Rightarrow> nat \<Rightarrow> nat \<Rightarrow> bool" where
  "closer_to_middle n i j \<longleftrightarrow>
     (let d = (\<lambda>k. \<bar>2 * int k - int n\<bar>) in d i < d j \<or> (d i = d j \<and> i < j))"

fun first_minimal :: "('a \<Rightarrow> 'a \<Rightarrow> bool) \<Rightarrow> 'a \<Rightarrow> 'a list \<Rightarrow> 'a" where
  "first_minimal nearer m [] = m"
| "first_minimal nearer m (x # xs) = first_minimal nearer (if nearer x m then x else m) xs"

definition natural_split_index :: "evidence_item list \<Rightarrow> nat" where
  "natural_split_index evidence =
     (case section_boundaries evidence of
        [] \<Rightarrow> length evidence div 2
      | i # others \<Rightarrow> first_minimal (closer_to_middle (length evidence)) i others)"

definition child_batch :: "analysis_batch \<Rightarrow> evidence_item list \<Rightarrow> nat \<Rightarrow> analysis_batch" where
  "child_batch parent evidence side =
     \<lparr>ab_id = ab_id parent @ '':split:'' @ nat_digits side, ab_ordinal = ab_ordinal parent,
      ab_section_paths = batch_section_paths evidence, ab_evidence = evidence, ab_status = ''pending'',
      ab_checkpoint = None\<rparr>"

definition split_batch :: "analysis_batch \<Rightarrow> analysis_batch \<times> analysis_batch" where
  "split_batch batch =
     (let at = natural_split_index (ab_evidence batch) in
      (child_batch batch (take at (ab_evidence batch)) 0, child_batch batch (drop at (ab_evidence batch)) 1))"

lemma first_minimal_mem: "first_minimal nearer m xs \<in> insert m (set xs)"
proof (induction xs arbitrary: m)
  case (Cons x xs)
  from Cons [of "if nearer x m then x else m"] show ?case by auto
qed simp

lemma natural_split_bounds:
  assumes "1 < length evidence"
  shows "0 < natural_split_index evidence" "natural_split_index evidence < length evidence"
proof -
  have "natural_split_index evidence \<in> {1..<length evidence}"
  proof (cases "section_boundaries evidence")
    case Nil
    then show ?thesis using assms by (auto simp: natural_split_index_def)
  next
    case (Cons i others)
    have "set (section_boundaries evidence) \<subseteq> {1..<length evidence}" by (auto simp: section_boundaries_def)
    with Cons first_minimal_mem [of "closer_to_middle (length evidence)" i others] show ?thesis
      by (auto simp: natural_split_index_def)
  qed
  then show "0 < natural_split_index evidence" "natural_split_index evidence < length evidence" by simp_all
qed

lemma split_batch_parts:
  assumes "split_batch batch = (left, right)" "1 < length (ab_evidence batch)"
  shows "ab_evidence left @ ab_evidence right = ab_evidence batch"
    and "0 < length (ab_evidence left)" "0 < length (ab_evidence right)"
    and "length (ab_evidence left) + length (ab_evidence right) = length (ab_evidence batch)"
    and "ab_ordinal left = ab_ordinal batch" "ab_ordinal right = ab_ordinal batch"
  using natural_split_bounds [OF assms(2)] assms(1)
  by (auto simp: split_batch_def child_batch_def Let_def)

lemma split_batch_shorter:
  assumes "1 < length (ab_evidence batch)"
  shows "length (ab_evidence (fst (split_batch batch))) < length (ab_evidence batch)"
    and "length (ab_evidence (snd (split_batch batch))) < length (ab_evidence batch)"
  using split_batch_parts(2-4) [OF prod.collapse [symmetric] assms] by linarith+

subsection \<open>The recursion\<close>

record 'a recovered_branch =
  rb_analysis :: 'a
  rb_results :: "model_result list"
  rb_leaves :: nat
  rb_recoveries :: nat

type_synonym ('a, 's) batch_analyzer = "analysis_batch \<Rightarrow> 's \<Rightarrow> (call_error + model_result \<times> 'a) \<times> 's"

definition splittable :: "analysis_batch \<Rightarrow> structured_error \<Rightarrow> bool" where
  "splittable batch e \<longleftrightarrow> structured_output_reached_limit e \<and> 1 < length (ab_evidence batch)"

definition joined_branch ::
  "('a list \<Rightarrow> 'a) \<Rightarrow> structured_error \<Rightarrow> 'a recovered_branch \<Rightarrow> 'a recovered_branch \<Rightarrow> 'a recovered_branch" where
  "joined_branch merge e l r =
     \<lparr>rb_analysis = merge [rb_analysis l, rb_analysis r],
      rb_results = se_initial e # rb_results l @ rb_results r,
      rb_leaves = rb_leaves l + rb_leaves r,
      rb_recoveries = 1 + (rb_recoveries l + rb_recoveries r)\<rparr>"

function recover_branch ::
  "('a, 's) batch_analyzer \<Rightarrow> ('a list \<Rightarrow> 'a) \<Rightarrow> analysis_batch \<Rightarrow> 's \<Rightarrow>
    (call_error + 'a recovered_branch) \<times> 's" where
  "recover_branch analyze merge batch s =
     (case analyze batch s of
        (Inr (result, analysis), s1) \<Rightarrow>
          (Inr \<lparr>rb_analysis = analysis, rb_results = [result], rb_leaves = 1, rb_recoveries = 0\<rparr>, s1)
      | (Inl (Raised e), s1) \<Rightarrow> (Inl (Raised e), s1)
      | (Inl (Invalid_Output e), s1) \<Rightarrow>
          if \<not> splittable batch e then (Inl (Invalid_Output e), s1)
          else
            (case recover_branch analyze merge (fst (split_batch batch)) s1 of
               (Inl e', s2) \<Rightarrow> (Inl e', s2)
             | (Inr l, s2) \<Rightarrow>
                 (case recover_branch analyze merge (snd (split_batch batch)) s2 of
                    (Inl e', s3) \<Rightarrow> (Inl e', s3)
                  | (Inr r, s3) \<Rightarrow> (Inr (joined_branch merge e l r), s3))))"
  by pat_completeness auto
termination
proof (relation "measure (\<lambda>(analyze, merge, batch, s). length (ab_evidence batch))", goal_cases)
  case 1
  then show ?case by simp
next
  case 2
  then show ?case by (simp add: splittable_def split_batch_shorter)
next
  case 3
  then show ?case by (simp add: splittable_def split_batch_shorter)
qed

declare recover_branch.simps [simp del]

lemma recover_branch_step:
  assumes "analyze batch s = (r, s1)"
  shows "recover_branch analyze merge batch s =
    (case r of
       Inr (result, analysis) \<Rightarrow>
         (Inr \<lparr>rb_analysis = analysis, rb_results = [result], rb_leaves = 1, rb_recoveries = 0\<rparr>, s1)
     | Inl (Raised e) \<Rightarrow> (Inl (Raised e), s1)
     | Inl (Invalid_Output e) \<Rightarrow>
         if \<not> splittable batch e then (Inl (Invalid_Output e), s1)
         else
           (case recover_branch analyze merge (fst (split_batch batch)) s1 of
              (Inl e', s2) \<Rightarrow> (Inl e', s2)
            | (Inr l, s2) \<Rightarrow>
                (case recover_branch analyze merge (snd (split_batch batch)) s2 of
                   (Inl e', s3) \<Rightarrow> (Inl e', s3)
                 | (Inr r, s3) \<Rightarrow> (Inr (joined_branch merge e l r), s3))))"
  by (subst recover_branch.simps) (simp add: assms split: sum.splits prod.splits call_error.splits)

subsection \<open>The aggregate result\<close>

definition aggregate_usage :: "model_result list \<Rightarrow> token_usage option" where
  "aggregate_usage results =
     (case those (map mr_usage results) of
        None \<Rightarrow> None
      | Some usages \<Rightarrow> Some \<lparr>us_input = sum_list (map us_input usages), us_output = sum_list (map us_output usages),
                           us_total = sum_list (map us_total usages)\<rparr>)"

definition recovery_metadata :: "nat \<Rightarrow> nat \<Rightarrow> dict" where
  "recovery_metadata leaves recoveries =
     [(''output_limit_split_leaf_count'', JInt (int leaves)), (''output_limit_recovery_count'', JInt (int recoveries))]"

definition aggregate_result :: "(string \<Rightarrow> string) \<Rightarrow> ('a \<Rightarrow> json) \<Rightarrow> 'a recovered_branch \<Rightarrow> model_result" where
  "aggregate_result sha256 as_dict b =
     \<lparr>mr_call_id = ''split-'' @ take 24 (sha256 (py_join '':'' (map mr_call_id (rb_results b)))),
      mr_content = canonical_json (as_dict (rb_analysis b)),
      mr_attempts = sum_list (map mr_attempts (rb_results b)), mr_usage = aggregate_usage (rb_results b),
      mr_provider_request = None, mr_observations = None,
      mr_context = recovery_metadata (rb_leaves b) (rb_recoveries b),
      mr_request_payload = None, mr_reasoning = [], mr_deferred = False\<rparr>"

record 'a batch_recovery =
  rc_result :: model_result
  rc_analysis :: 'a
  rc_leaves :: nat
  rc_recoveries :: nat

text \<open>\<open>results[0]\<close> is the first result of the list, which is never empty.\<close>

definition recovery_of :: "(string \<Rightarrow> string) \<Rightarrow> ('a \<Rightarrow> json) \<Rightarrow> 'a recovered_branch \<Rightarrow> 'a batch_recovery" where
  "recovery_of sha256 as_dict b =
     (if rb_recoveries b = 0
      then \<lparr>rc_result = hd (rb_results b), rc_analysis = rb_analysis b, rc_leaves = 1, rc_recoveries = 0\<rparr>
      else \<lparr>rc_result = aggregate_result sha256 as_dict b, rc_analysis = rb_analysis b, rc_leaves = rb_leaves b,
            rc_recoveries = rb_recoveries b\<rparr>)"

definition analyze_with_recovery ::
  "(string \<Rightarrow> string) \<Rightarrow> ('a \<Rightarrow> json) \<Rightarrow> ('a, 's) batch_analyzer \<Rightarrow> ('a list \<Rightarrow> 'a) \<Rightarrow> analysis_batch \<Rightarrow> 's \<Rightarrow>
    (call_error + 'a batch_recovery) \<times> 's" where
  "analyze_with_recovery sha256 as_dict analyze merge batch s =
     (case recover_branch analyze merge batch s of
        (Inl e, s') \<Rightarrow> (Inl e, s')
      | (Inr b, s') \<Rightarrow> (Inr (recovery_of sha256 as_dict b), s'))"

text \<open>The count a checkpoint carries; a \<open>bool\<close> is not accepted as an integer.\<close>

definition split_leaf_count :: "dict \<Rightarrow> int res" where
  "split_leaf_count checkpoint =
     (case dict_get checkpoint ''output_limit_split_leaf_count'' of
        JNull \<Rightarrow> Inr 1
      | JInt n \<Rightarrow> if n < 2 then Inl (ImportError ''desktop_import_state_invalid'') else Inr n
      | _ \<Rightarrow> Inl (ImportError ''desktop_import_state_invalid''))"

subsection \<open>What the recursion analyses\<close>

text \<open>An analyser that also records its calls.\<close>

type_synonym 'a batch_call = "analysis_batch \<times> (call_error + model_result \<times> 'a)"

definition recording :: "('a, 's) batch_analyzer \<Rightarrow> ('a, 's \<times> 'a batch_call list) batch_analyzer" where
  "recording analyze batch st =
     (case st of (s, calls) \<Rightarrow> (case analyze batch s of (r, s') \<Rightarrow> (r, (s', calls @ [(batch, r)]))))"

definition answered :: "'a batch_call list \<Rightarrow> (analysis_batch \<times> 'a) list" where
  "answered calls = concat (map (\<lambda>(b, r). case r of Inr (result, a) \<Rightarrow> [(b, a)] | Inl e \<Rightarrow> []) calls)"

definition limited :: "'a batch_call list \<Rightarrow> analysis_batch list" where
  "limited calls = concat (map (\<lambda>(b, r). case r of Inl e \<Rightarrow> [b] | Inr ra \<Rightarrow> []) calls)"

definition call_results :: "'a batch_call list \<Rightarrow> model_result list" where
  "call_results calls =
     concat (map (\<lambda>(b, r). case r of Inr (result, a) \<Rightarrow> [result] | Inl (Invalid_Output e) \<Rightarrow> [se_initial e]
        | Inl (Raised e) \<Rightarrow> []) calls)"

lemma answered_simps [simp]:
  "answered [] = []" "answered (calls @ calls') = answered calls @ answered calls'"
  "answered ((b, r) # calls) = (case r of Inr (result, a) \<Rightarrow> [(b, a)] | Inl e \<Rightarrow> []) @ answered calls"
  by (simp_all add: answered_def)

lemma limited_simps [simp]:
  "limited [] = []" "limited (calls @ calls') = limited calls @ limited calls'"
  "limited ((b, r) # calls) = (case r of Inl e \<Rightarrow> [b] | Inr ra \<Rightarrow> []) @ limited calls"
  by (simp_all add: limited_def)

lemma call_results_simps [simp]:
  "call_results [] = []" "call_results (calls @ calls') = call_results calls @ call_results calls'"
  "call_results ((b, r) # calls) = (case r of Inr (result, a) \<Rightarrow> [result] | Inl (Invalid_Output e) \<Rightarrow> [se_initial e]
     | Inl (Raised e) \<Rightarrow> []) @ call_results calls"
  by (simp_all add: call_results_def)

text \<open>
  What a recovered branch says of its calls: the batches that were answered are, in order, the
  Evidence of the batch; \<open>g\<close> is anything the merge adds up.
\<close>

definition branch_covers ::
  "('a list \<Rightarrow> 'a) \<Rightarrow> ('a \<Rightarrow> 'c list) \<Rightarrow> analysis_batch \<Rightarrow> 'a batch_call list \<Rightarrow> 'a recovered_branch \<Rightarrow> bool" where
  "branch_covers merge g batch calls b \<longleftrightarrow>
     concat (map (ab_evidence \<circ> fst) (answered calls)) = ab_evidence batch \<and>
     rb_results b = call_results calls \<and> rb_leaves b = length (answered calls) \<and>
     rb_recoveries b = length (limited calls) \<and> rb_leaves b = Suc (rb_recoveries b) \<and>
     length calls = rb_leaves b + rb_recoveries b \<and>
     ((\<forall>x y. g (merge [x, y]) = g x @ g y) \<longrightarrow> g (rb_analysis b) = concat (map (g \<circ> snd) (answered calls)))"

definition call_fails :: "'a batch_call list \<Rightarrow> call_error \<Rightarrow> bool" where
  "call_fails calls e \<longleftrightarrow>
     (\<exists>earlier b. calls = earlier @ [(b, Inl e)] \<and> (\<forall>se. e = Invalid_Output se \<longrightarrow> \<not> splittable b se))"

definition calls_within :: "analysis_batch \<Rightarrow> 'a batch_call list \<Rightarrow> bool" where
  "calls_within batch calls \<longleftrightarrow>
     length calls < 2 * max 1 (length (ab_evidence batch)) \<and>
     (\<forall>(b, r) \<in> set calls. ab_ordinal b = ab_ordinal batch \<and> sublist (ab_evidence b) (ab_evidence batch))"

lemma calls_within_single: "calls_within batch [(batch, r)]"
  by (auto simp: calls_within_def)

lemma calls_within_split:
  assumes "1 < length (ab_evidence batch)" "calls_within (fst (split_batch batch)) c1"
    "calls_within (snd (split_batch batch)) c2"
  shows "calls_within batch ((batch, r) # c1)" "calls_within batch ((batch, r) # c1 @ c2)"
proof -
  note parts = split_batch_parts [of batch, OF prod.collapse [symmetric] assms(1)]
  have sub: "sublist (ab_evidence (fst (split_batch batch))) (ab_evidence batch)"
    "sublist (ab_evidence (snd (split_batch batch))) (ab_evidence batch)"
    unfolding parts(1) [symmetric] by (simp_all add: sublist_appendI sublist_append_rightI sublist_append_leftI)
  have len: "length c1 < 2 * length (ab_evidence (fst (split_batch batch)))"
    "length c2 < 2 * length (ab_evidence (snd (split_batch batch)))"
    using assms(2,3) parts(2,3) by (simp_all add: calls_within_def max_def split: if_splits)
  with parts(4) have "Suc (length c1 + length c2) < 2 * length (ab_evidence batch)" by linarith
  then show "calls_within batch ((batch, r) # c1)" "calls_within batch ((batch, r) # c1 @ c2)"
    using assms sub parts(5,6) unfolding calls_within_def
    by (auto dest!: bspec intro: sublist_order.order.trans)
qed

lemma recover_branch_recorded:
  assumes "recover_branch (recording analyze) merge batch (s, calls) = (out, (s', calls'))"
  shows "\<exists>new. calls' = calls @ new \<and> calls_within batch new \<and>
    (case out of Inr b \<Rightarrow> branch_covers merge g batch new b | Inl e \<Rightarrow> call_fails new e)"
  using assms
proof (induction "length (ab_evidence batch)" arbitrary: batch s calls out s' calls' rule: less_induct)
  case less
  obtain r s1 where call: "analyze batch s = (r, s1)" by fastforce
  then have rec: "recording analyze batch (s, calls) = (r, (s1, calls @ [(batch, r)]))" by (simp add: recording_def)
  note eq = less.prems [unfolded recover_branch_step [where analyze = "recording analyze", OF rec]]
  show ?case
  proof (cases r)
    case (Inr ra)
    then obtain result a where r: "r = Inr (result, a)" by (cases ra) auto
    from eq [unfolded r] show ?thesis
      by (intro exI [of _ "[(batch, r)]"]) (auto simp: r branch_covers_def calls_within_single)
  next
    case (Inl e)
    show ?thesis
    proof (cases "\<exists>se. e = Invalid_Output se \<and> splittable batch se")
      case False
      then have "out = Inl e \<and> s' = s1 \<and> calls' = calls @ [(batch, r)]"
        using eq unfolding Inl by (cases e) auto
      with False show ?thesis
        by (intro exI [of _ "[(batch, r)]"]) (auto simp: Inl call_fails_def calls_within_single)
    next
      case True
      then obtain se where e: "e = Invalid_Output se" and sp: "splittable batch se" by blast
      let ?left = "fst (split_batch batch)" and ?right = "snd (split_batch batch)"
      have long: "1 < length (ab_evidence batch)" using sp by (simp add: splittable_def)
      note parts = split_batch_parts [of batch, OF prod.collapse [symmetric] long]
      obtain out1 s2 calls2 where l: "recover_branch (recording analyze) merge ?left (s1, calls @ [(batch, r)]) = (out1, (s2, calls2))"
        by (metis prod.collapse)
      from less.hyps [OF split_batch_shorter(1) [OF long] l] obtain c1 where c1: "calls2 = calls @ (batch, r) # c1" "calls_within ?left c1"
        "case out1 of Inr b \<Rightarrow> branch_covers merge g ?left c1 b | Inl e \<Rightarrow> call_fails c1 e" by auto
      show ?thesis
      proof (cases out1)
        case (Inl e')
        with eq l have "out = Inl e'" "calls' = calls2" by (simp_all add: \<open>r = Inl e\<close> e sp)
        with c1 Inl calls_within_split(1) [OF long c1(2), of "[]"] show ?thesis
          by (intro exI [of _ "(batch, r) # c1"]) (auto simp: call_fails_def calls_within_def)
      next
        case (Inr b1)
        obtain out2 s3 calls3 where rr: "recover_branch (recording analyze) merge ?right (s2, calls2) = (out2, (s3, calls3))"
          by (metis prod.collapse)
        from less.hyps [OF split_batch_shorter(2) [OF long] rr] obtain c2 where c2: "calls3 = calls2 @ c2" "calls_within ?right c2"
          "case out2 of Inr b \<Rightarrow> branch_covers merge g ?right c2 b | Inl e \<Rightarrow> call_fails c2 e" by auto
        have out: "out = (case out2 of Inl e' \<Rightarrow> Inl e' | Inr b2 \<Rightarrow> Inr (joined_branch merge se b1 b2))"
          "calls' = calls3"
          using eq l rr Inr by (auto simp: \<open>r = Inl e\<close> e sp split: sum.splits)
        with c1 c2 Inr calls_within_split(2) [OF long c1(2) c2(2)] show ?thesis
          by (intro exI [of _ "(batch, r) # c1 @ c2"])
            (auto simp: call_fails_def branch_covers_def joined_branch_def \<open>r = Inl e\<close> e parts(1) split: sum.splits)
      qed
    qed
  qed
qed

text \<open>Recording the calls does not change them.\<close>

lemma recover_branch_recording:
  "recover_branch analyze merge batch s = (out, s') \<Longrightarrow>
     \<exists>calls'. recover_branch (recording analyze) merge batch (s, calls) = (out, (s', calls'))"
proof (induction "length (ab_evidence batch)" arbitrary: batch s calls out s' rule: less_induct)
  case less
  obtain r s1 where call: "analyze batch s = (r, s1)" by fastforce
  then have rec: "recording analyze batch (s, calls) = (r, (s1, calls @ [(batch, r)]))" by (simp add: recording_def)
  note eq = less.prems [unfolded recover_branch_step [where analyze = analyze, OF call]]
    and goal = recover_branch_step [where analyze = "recording analyze" and merge = merge, OF rec]
  show ?case
  proof (cases "\<exists>se. r = Inl (Invalid_Output se) \<and> splittable batch se")
    case False
    show ?thesis
    proof (cases r)
      case (Inr ra)
      with eq goal show ?thesis by (cases ra) simp
    next
      case (Inl e)
      with False eq goal show ?thesis by (cases e) simp_all
    qed
  next
    case True
    then obtain se where r: "r = Inl (Invalid_Output se)" and sp: "splittable batch se" by blast
    then have long: "1 < length (ab_evidence batch)" by (simp add: splittable_def)
    obtain out1 s2 where l: "recover_branch analyze merge (fst (split_batch batch)) s1 = (out1, s2)" by fastforce
    from less.hyps [OF split_batch_shorter(1) [OF long] l] obtain calls2 where
      l': "recover_branch (recording analyze) merge (fst (split_batch batch)) (s1, calls @ [(batch, r)]) = (out1, (s2, calls2))"
      by blast
    obtain out2 s3 where rr: "recover_branch analyze merge (snd (split_batch batch)) s2 = (out2, s3)" by fastforce
    from less.hyps [OF split_batch_shorter(2) [OF long] rr] obtain calls3 where
      rr': "recover_branch (recording analyze) merge (snd (split_batch batch)) (s2, calls2) = (out2, (s3, calls3))"
      by blast
    show ?thesis
    proof (cases out1)
      case (Inl e)
      with eq l have "out = Inl e" "s' = s2" by (simp_all add: r sp)
      with Inl goal l' show ?thesis by (simp add: r sp)
    next
      case (Inr b1)
      with eq l rr have "out = (case out2 of Inl e' \<Rightarrow> Inl e' | Inr b2 \<Rightarrow> Inr (joined_branch merge se b1 b2))" "s' = s3"
        by (cases out2; auto simp: r sp Inr)+
      with Inr goal l' rr' show ?thesis by (cases out2) (simp_all add: r sp)
    qed
  qed
qed

lemma branch_covers_shape:
  assumes "branch_covers merge g batch calls b"
  shows "rb_leaves b = Suc (rb_recoveries b)" "length calls = rb_leaves b + rb_recoveries b"
    "rb_leaves b = length (answered calls)" "rb_results b = call_results calls"
  using assms unfolding branch_covers_def by blast+

lemma aggregate_attempts:
  "branch_covers merge g batch calls b \<Longrightarrow>
     mr_attempts (rc_result (recovery_of sha256 as_dict b)) = sum_list (map mr_attempts (call_results calls))"
proof -
  assume b: "branch_covers merge g batch calls b"
  show ?thesis
  proof (cases "rb_recoveries b = 0")
    case True
    note shape = branch_covers_shape [OF b]
    with True have "length calls = 1" "length (answered calls) = 1" by linarith+
    then obtain c r a where "calls = [(c, Inr (r, a))]"
      by (cases calls) (auto split: sum.splits)
    with shape True show ?thesis by (simp add: recovery_of_def)
  next
    case False
    with branch_covers_shape [OF b] show ?thesis by (simp add: recovery_of_def aggregate_result_def)
  qed
qed

text \<open>
  C15 Recovery from the output limit covers the batch.  Every call it makes is for a contiguous
  part of the batch with the batch's ordinal, and there are fewer than twice as many as pieces
  of Evidence.  When it returns, the answered parts are, in order, exactly the Evidence of the
  batch, the counts of leaves and recoveries are those of the calls, the attempts of the result
  add up all calls, and whatever the merge adds up, the analysis is the sum over the answered
  parts.  When it raises, it raises what the last call raised, which was not an output limit
  that could still be split.
\<close>

theorem output_limit_recovery_covers:
  assumes "analyze_with_recovery sha256 as_dict analyze merge batch s = (out, s')"
  shows "\<exists>calls. analyze_with_recovery sha256 as_dict (recording analyze) merge batch (s, []) = (out, (s', calls)) \<and>
    calls_within batch calls \<and>
    (case out of
       Inl e \<Rightarrow> call_fails calls e
     | Inr rc \<Rightarrow>
         concat (map (ab_evidence \<circ> fst) (answered calls)) = ab_evidence batch \<and>
         rc_leaves rc = length (answered calls) \<and> rc_recoveries rc = length (limited calls) \<and>
         rc_leaves rc = Suc (rc_recoveries rc) \<and>
         mr_attempts (rc_result rc) = sum_list (map mr_attempts (call_results calls)) \<and>
         ((\<forall>x y. g (merge [x, y]) = g x @ g y) \<longrightarrow> g (rc_analysis rc) = concat (map (g \<circ> snd) (answered calls))))"
proof -
  obtain b' where b': "recover_branch analyze merge batch s = (b', s')"
    and out: "out = map_sum (\<lambda>e. e) (recovery_of sha256 as_dict) b'"
    using assms by (auto simp: analyze_with_recovery_def split: sum.splits prod.splits)
  from recover_branch_recording [OF b', of "[]"] obtain calls where
    rec: "recover_branch (recording analyze) merge batch (s, []) = (b', (s', calls))" by blast
  from recover_branch_recorded [OF rec, of g] have calls: "calls_within batch calls"
    "case b' of Inr b \<Rightarrow> branch_covers merge g batch calls b | Inl e \<Rightarrow> call_fails calls e" by auto
  have "analyze_with_recovery sha256 as_dict (recording analyze) merge batch (s, []) = (out, (s', calls))"
    by (simp add: analyze_with_recovery_def rec out split: sum.split)
  moreover have "rc_leaves (recovery_of sha256 as_dict b) = rb_leaves b"
    "rc_recoveries (recovery_of sha256 as_dict b) = rb_recoveries b"
    "rc_analysis (recovery_of sha256 as_dict b) = rb_analysis b" if "branch_covers merge g batch calls b" for b
    using branch_covers_shape [OF that] by (auto simp: recovery_of_def)
  ultimately show ?thesis
    using calls aggregate_attempts [of merge g batch calls _ sha256 as_dict] unfolding out
    by (intro exI [of _ calls]) (auto simp: branch_covers_def split: sum.splits)
qed

text \<open>An analyser that can only answer one piece of Evidence at a time; its state counts its calls.\<close>

definition limited_result :: model_result where
  "limited_result = (sample_result ''c'' ''{'')
     \<lparr>mr_observations := Some \<lparr>ob_finish = Some ''length'', ob_reasoning = False, ob_final = True,
        ob_reasoning_chunks = 0, ob_final_chunks = 1, ob_reasoning_characters = 0, ob_final_characters = 1,
        ob_output_limit = True\<rparr>\<rparr>"

definition one_at_a_time :: "(string list, nat) batch_analyzer" where
  "one_at_a_time batch n =
     (if length (ab_evidence batch) \<le> 1
      then (Inr (sample_result (ab_id batch) ''{}'', map fst (ab_evidence batch)), Suc n)
      else (Inl (Invalid_Output \<lparr>se_initial = limited_result, se_final = limited_result, se_repaired = False,
              se_event = None\<rparr>), Suc n))"

definition recovered_sample :: "(call_error + string list batch_recovery) \<times> nat" where
  "recovered_sample = analyze_with_recovery (\<lambda>s. s) json_strs one_at_a_time concat sample_batch 0"

lemma recovered_sample_value:
  "snd recovered_sample = 3 \<and> (\<exists>rc. fst recovered_sample = Inr rc \<and> rc_analysis rc = [''e0'', ''e1''])"
  by (simp add: recovered_sample_def analyze_with_recovery_def recover_branch.simps one_at_a_time_def
      sample_batch_def sample_evidence_def splittable_def structured_output_reached_limit_def
      output_limit_reached_def limited_result_def sample_result_def split_batch_def child_batch_def
      natural_split_index_def section_boundaries_def upt_rec Let_def recovery_of_def joined_branch_def)

theorem output_limit_recovery_covers_witness:
  "\<exists>rc. fst recovered_sample = Inr rc \<and> rc_analysis rc = [''e0'', ''e1''] \<and> rc_leaves rc = Suc (rc_recoveries rc)"
proof -
  obtain rc where rc: "fst recovered_sample = Inr rc" using recovered_sample_value by blast
  have run: "analyze_with_recovery (\<lambda>s. s) json_strs one_at_a_time concat sample_batch 0 = (Inr rc, snd recovered_sample)"
    using rc unfolding recovered_sample_def by (metis prod.collapse)
  from output_limit_recovery_covers [OF run, where g = "\<lambda>ids. ids"]
  have "rc_leaves rc = Suc (rc_recoveries rc)" by auto
  with rc recovered_sample_value show ?thesis by auto
qed

end
