(* ===== verification/StoredPlan.thy ===== *)
theory StoredPlan
  imports AnalysisPlan
begin

section \<open>Plans read back from their canonical text\<close>

text \<open>
  The store of an analysis keeps plans and checkpoints as canonical JSON, whose keys are
  sorted at every level.  The readers of \<open>AnalysisPlan\<close> look keys up by name, so a plan comes
  back as it was, up to the key order of the one dictionary it carries verbatim, the
  snapshot of the prompt contracts, and without the one field that is not stored.
\<close>

definition sorted_dict :: "dict \<Rightarrow> dict" where
  "sorted_dict d = sort_key fst (map (\<lambda>kv. (fst kv, sort_keys (snd kv))) d)"

lemma sort_keys_JObj: "sort_keys (JObj d) = JObj (sorted_dict d)"
  by (simp add: sorted_dict_def)

lemma sort_keys_idem [simp]: "sort_keys (sort_keys v) = sort_keys v"
proof (induction v)
  case (JObj d)
  have "map (\<lambda>kv. (fst kv, sort_keys (snd kv))) (sort_key fst (map (\<lambda>kv. (fst kv, sort_keys (snd kv))) d)) =
      sort_key fst (map (\<lambda>kv. (fst kv, sort_keys (snd kv))) d)"
    by (rule map_idI) (use JObj in auto)
  then show ?case by (simp add: sort_key_simps sort_key_id_if_sorted)
qed simp_all

lemma canonical_json_sort_keys [simp]: "canonical_json (sort_keys v) = canonical_json v"
  by (simp add: canonical_json_def)

lemma map_of_sorted_dict:
  assumes "distinct (map fst d)"
  shows "map_of (sorted_dict d) k = map_option sort_keys (map_of d k)"
proof -
  let ?m = "map (\<lambda>kv. (fst kv, sort_keys (snd kv))) d"
  have "distinct (map fst ?m)" using assms by (simp add: comp_def)
  then have "map_of (sort_key fst ?m) = map_of ?m"
    using distinct_fst_sort_key [OF assms] by (subst map_of_inject_set) simp_all
  then show ?thesis
    using map_of_map_row [of "\<lambda>k. sort_keys" d k] by (simp add: sorted_dict_def)
qed

lemma dict_get_sorted [simp]: "distinct (map fst d) \<Longrightarrow> dict_get (sorted_dict d) k = sort_keys (dict_get d k)"
  by (simp add: dict_get_def map_of_sorted_dict split: option.splits)

lemma sort_keys_cases [simp]:
  "sort_keys v = JNull \<longleftrightarrow> v = JNull" "sort_keys v = JBool b \<longleftrightarrow> v = JBool b"
  "sort_keys v = JInt i \<longleftrightarrow> v = JInt i" "sort_keys v = JStr s \<longleftrightarrow> v = JStr s"
  by (cases v; auto)+

subsection \<open>The readers of fields\<close>

lemma readers_sorted:
  assumes "distinct (map fst d)"
  shows "field_string (sorted_dict d) name = field_string d name"
    and "field_int (sorted_dict d) name = field_int d name"
    and "field_bool (sorted_dict d) name = field_bool d name"
    and "optional_int (sorted_dict d) name n = optional_int d name n"
proof -
  show "field_string (sorted_dict d) name = field_string d name"
    "field_bool (sorted_dict d) name = field_bool d name"
    and int: "field_int (sorted_dict d) name = field_int d name"
    using assms by (auto simp: field_string_def field_int_def field_bool_def split: json.splits)
  show "optional_int (sorted_dict d) name n = optional_int d name n"
    using assms int by (auto simp: optional_int_def map_of_sorted_dict)
qed

lemma string_item_sorted [simp]: "string_item name (sort_keys v) = string_item name v"
  by (cases v) (simp_all add: string_item_def)

lemma field_list_sorted: "field_list (sort_keys v) name = res_bind (field_list v name) (\<lambda>vs. Inr (map sort_keys vs))"
  by (cases v) (simp_all add: field_list_def)

lemma field_mapping_sorted: "field_mapping (sort_keys v) name = res_bind (field_mapping v name) (\<lambda>d. Inr (sorted_dict d))"
  by (cases v) (simp_all add: field_mapping_def sorted_dict_def)

lemma res_map_sorted:
  "(\<And>v. v \<in> set vs \<Longrightarrow> f (sort_keys v) = f v) \<Longrightarrow> res_map f (map sort_keys vs) = res_map f vs"
  by (induction vs) auto

lemma string_items_sorted [simp]: "string_items name (sort_keys v) = string_items name v"
  by (cases v) (simp_all add: string_items_def field_list_def res_map_sorted)

lemma json_okD:
  "json_ok (JObj d) \<Longrightarrow> distinct (map fst d)"
  "json_ok (JObj d) \<Longrightarrow> json_ok (dict_get d k)"
  "json_ok (JList vs) \<Longrightarrow> v \<in> set vs \<Longrightarrow> json_ok v"
  by (auto simp: list_all_iff dict_get_def split: option.splits dest: map_of_SomeD)

lemma batch_from_dict_sorted: "json_ok v \<Longrightarrow> batch_from_dict (sort_keys v) = batch_from_dict v"
proof (cases v)
  case (JObj d)
  assume ok: "json_ok v"
  note d = json_okD(1) [OF ok [unfolded JObj]]
  show ?thesis
    unfolding JObj sort_keys_JObj
    by (simp add: batch_from_dict_def field_mapping_def readers_sorted d field_list_sorted res_map_sorted
        del: sort_keys.simps split: sum.splits cong: res_map_sorted)
      (auto simp: res_bind_def res_map_sorted split: sum.splits)
qed (simp_all add: batch_from_dict_def field_mapping_def)

lemma merge_node_from_dict_sorted: "json_ok v \<Longrightarrow> merge_node_from_dict (sort_keys v) = merge_node_from_dict v"
proof (cases v)
  case (JObj d)
  assume ok: "json_ok v"
  note d = json_okD(1) [OF ok [unfolded JObj]]
  show ?thesis
    unfolding JObj sort_keys_JObj by (simp add: merge_node_from_dict_def field_mapping_def readers_sorted d)
qed (simp_all add: merge_node_from_dict_def field_mapping_def)

lemma capability_from_dict_sorted: "distinct (map fst d) \<Longrightarrow> capability_from_dict (sorted_dict d) = capability_from_dict d"
  by (simp add: capability_from_dict_def readers_sorted)

lemma ep_fields_sorted: "distinct (map fst d) \<Longrightarrow> ep_fields (sorted_dict d) = ep_fields d"
  by (simp add: ep_fields_def readers_sorted cong: if_cong)

lemma profile_from_dict_sorted:
  "json_ok v \<Longrightarrow> profile_from_dict sha256 (sort_keys v) = profile_from_dict sha256 v"
proof (cases v)
  case (JObj d)
  assume ok: "json_ok v"
  note d = json_okD(1) [OF ok [unfolded JObj]]
  have "identity_mismatch (sort_keys (dict_get d k)) i \<longleftrightarrow> identity_mismatch (dict_get d k) i" for k i
    by (auto simp: identity_mismatch_def)
  then show ?thesis
    unfolding JObj sort_keys_JObj by (simp add: profile_from_dict_def ep_from_dict_def ep_fields_sorted d)
qed (simp_all add: profile_from_dict_def ep_from_dict_def)

definition stored_view :: "analysis_plan \<Rightarrow> analysis_plan" where
  "stored_view p = p\<lparr>pl_snapshot := sorted_dict (pl_snapshot p)\<rparr>"

lemma stored_view_fields [simp]:
  "pl_document_ir_digest (stored_view p) = pl_document_ir_digest p"
  "pl_profile (stored_view p) = pl_profile p" "pl_batches (stored_view p) = pl_batches p"
  "pl_topology (stored_view p) = pl_topology p" "pl_input_budget (stored_view p) = pl_input_budget p"
  by (simp_all add: stored_view_def)

lemma plan_identity_stored_view [simp]: "plan_identity sha256 (stored_view p) = plan_identity sha256 p"
proof -
  have "sort_keys (JObj (plan_payload sha256 (stored_view p))) = sort_keys (JObj (plan_payload sha256 p))"
    using sort_keys_idem [of "JObj (pl_snapshot p)"]
    by (simp add: plan_payload_def stored_view_def sort_keys_JObj [symmetric] del: sort_keys_idem)
  then show ?thesis by (simp add: plan_identity_def object_digest_def canonical_json_def)
qed

lemma plan_fields_sorted:
  assumes "json_ok (JObj d)" "plan_fields sha256 d = Inr p"
  shows "plan_fields sha256 (sorted_dict d) = Inr (stored_view p)"
proof -
  note d = json_okD(1) [OF assms(1)] and ok = json_okD(2) [OF assms(1)]
  from assms(2) obtain capability batches topology where
    c: "dict_get d ''capability_profile'' = JObj capability" "capability_from_dict capability = Inr (pl_capability p)"
    and b: "dict_get d ''batches'' = JList batches" "res_map batch_from_dict batches = Inr (pl_batches p)"
    and n: "dict_get d ''merge_topology'' = JList topology" "res_map merge_node_from_dict topology = Inr (pl_topology p)"
    and s: "dict_get d ''prompt_contract_snapshot'' = JObj (pl_snapshot p)"
    and rest: "profile_from_dict sha256 (dict_get d ''execution_profile'') = Inr (pl_profile p)"
    "field_string d ''document_ir_digest'' = Inr (pl_document_ir_digest p)"
    "field_string d ''provider'' = Inr (pl_provider p)" "field_string d ''analysis_model'' = Inr (pl_model p)"
    "field_string d ''prompt_contract_digest'' = Inr (pl_prompt_digest p)"
    "field_int d ''input_budget_tokens'' = Inr (pl_input_budget p)"
    "field_int d ''output_budget_tokens'' = Inr (pl_output_budget p)"
    "optional_int d ''final_output_reserve_tokens'' (pl_output_budget p) = Inr (pl_final_reserve p)"
    "optional_int d ''reasoning_allowance_tokens'' 0 = Inr (pl_reasoning_allowance p)"
    by (auto simp: plan_fields_def res_bind_Inr_iff field_mapping_def field_list_def split: json.splits)
  have "res_map batch_from_dict (map sort_keys batches) = Inr (pl_batches p)"
    using b ok [of "''batches''"] by (subst res_map_sorted) (auto simp: list_all_iff intro!: batch_from_dict_sorted)
  moreover have "res_map merge_node_from_dict (map sort_keys topology) = Inr (pl_topology p)"
    using n ok [of "''merge_topology''"]
    by (subst res_map_sorted) (auto simp: list_all_iff intro!: merge_node_from_dict_sorted)
  moreover have "distinct (map fst capability)" using c(1) ok [of "''capability_profile''"] by (simp add: json_okD)
  ultimately show ?thesis
    using c b(1) n(1) s rest ok
    by (simp add: plan_fields_def d readers_sorted field_mapping_def field_list_def sort_keys_JObj
        capability_from_dict_sorted profile_from_dict_sorted stored_view_def del: sort_keys.simps(2))
qed

text \<open>A plan written by the store is read back as its stored view.\<close>

lemma stored_plan_reads:
  assumes "plan_ok p" "json_ok (plan_as_dict sha256 p)"
  shows "json_loads (canonical_json (plan_as_dict sha256 p)) = Some (sort_keys (plan_as_dict sha256 p))"
    and "plan_from_dict sha256 (sort_keys (plan_as_dict sha256 p)) = Inr (stored_view p)"
proof -
  show "json_loads (canonical_json (plan_as_dict sha256 p)) = Some (sort_keys (plan_as_dict sha256 p))"
    by (rule canonical_json_loads) (rule assms)
  let ?d = "plan_payload sha256 p @ [(''plan_identity'', JStr (plan_identity sha256 p))]"
  have ok: "json_ok (JObj ?d)" using assms(2) by (simp add: plan_as_dict_def del: json_ok.simps)
  have "plan_fields sha256 (sorted_dict ?d) = Inr (stored_view p)"
    by (rule plan_fields_sorted [OF ok]) (rule plan_fields_payload, rule assms)
  then show "plan_from_dict sha256 (sort_keys (plan_as_dict sha256 p)) = Inr (stored_view p)"
    using dict_get_sorted [OF json_okD(1) [OF ok], of "''plan_identity''"]
    by (simp add: plan_from_dict_def plan_as_dict_def sort_keys_JObj
        dict_get_plan_identity identity_mismatch_def del: sort_keys.simps(2))
qed

end
