(* ===== verification/BatchStore.thy ===== *)
theory BatchStore
  imports StoredPlan AnalysisPrompts
begin

section \<open>The durable state of an analysis\<close>

text \<open>
  \<open>openkb/knowledge/analysis/batch_store.py\<close>: the plan an analysis is pinned to, the rows of
  its batches, of its merge and of the nodes of its merge topology, and every transition of
  them.  The store has one set of tables for imports and one for reanalyses; the record is
  one such set.  Each method is one transaction under the ingest lock, so it is a function
  of the tables that leaves them unchanged when it raises.
\<close>

subsection \<open>Tables\<close>

datatype work_status = Work_Pending | Work_Running | Work_Completed | Work_Failed

fun status_text :: "work_status \<Rightarrow> string" where
  "status_text Work_Pending = ''pending''"
| "status_text Work_Running = ''running''"
| "status_text Work_Completed = ''completed''"
| "status_text Work_Failed = ''failed''"

text \<open>The columns that batches, merges and merge nodes share.\<close>

record work_row =
  wk_status :: work_status
  wk_checkpoint :: "string option"
  wk_error :: "string option"
  wk_created :: string
  wk_updated :: string

record batch_row = work_row +
  br_job :: string
  br_stage :: string
  br_ordinal :: nat
  br_paths :: string
  br_evidence :: string

record merge_row = work_row +
  mg_stage :: string

record node_row = work_row +
  nr_level :: nat
  nr_ordinal :: nat
  nr_children :: string

record plan_row =
  pr_stage :: string
  pr_ir_digest :: string
  pr_model :: string
  pr_prompt_digest :: string
  pr_json :: string
  pr_created :: string

text \<open>
  The parents of the foreign keys: the jobs with their status and execution token (only the
  rows of reanalysis jobs are read), and the stage runs, which only the tables of imports
  refer to.
\<close>

record analysis_db =
  an_jobs :: "(string \<times> string \<times> string option) list"
  an_stages :: "string list option"
  an_plans :: "(string \<times> plan_row) list"
  an_batches :: "(string \<times> batch_row) list"
  an_merges :: "(string \<times> merge_row) list"
  an_nodes :: "((string \<times> string) \<times> node_row) list"

definition store_invalid :: "'a res" where
  "store_invalid = Inl (ImportError ''desktop_import_state_invalid'')"

definition require_active_job :: "string option \<Rightarrow> analysis_db \<Rightarrow> string \<Rightarrow> unit res" where
  "require_active_job token db job =
     (case token of
        None \<Rightarrow> Inr ()
      | Some tk \<Rightarrow> require (map_of (an_jobs db) job = Some (''running'', Some tk))
                     (ImportError ''knowledge_reanalysis_interrupted''))"

definition parents_known :: "analysis_db \<Rightarrow> string \<Rightarrow> string \<Rightarrow> bool" where
  "parents_known db job stage \<longleftrightarrow>
     job \<in> fst ` set (an_jobs db) \<and> (case an_stages db of None \<Rightarrow> True | Some stages \<Rightarrow> stage \<in> set stages)"

subsection \<open>Reading plans and batches\<close>

definition plan_in :: "(string \<Rightarrow> string) \<Rightarrow> analysis_db \<Rightarrow> string \<Rightarrow> analysis_plan option res" where
  "plan_in sha256 db job =
     (case map_of (an_plans db) job of
        None \<Rightarrow> Inr None
      | Some row \<Rightarrow>
          (case json_loads (pr_json row) of
             None \<Rightarrow> store_invalid
           | Some v \<Rightarrow>
               (case plan_from_dict sha256 v of
                  Inl (ValueError message) \<Rightarrow> store_invalid
                | Inl e \<Rightarrow> Inl e
                | Inr p \<Rightarrow> Inr (Some p))))"

definition stored_checkpoint :: "string \<Rightarrow> dict res" where
  "stored_checkpoint s = (case json_loads s of Some (JObj d) \<Rightarrow> Inr d | _ \<Rightarrow> store_invalid)"

definition batch_rows :: "analysis_db \<Rightarrow> string \<Rightarrow> (string \<times> batch_row) list" where
  "batch_rows db job =
     sort_key (\<lambda>kv. br_ordinal (snd kv)) (filter (\<lambda>kv. br_job (snd kv) = job) (an_batches db))"

text \<open>A row read against the Evidence at its place; the ordinal of a row is an integer of SQLite.\<close>

definition hydrate_row :: "evidence_item list \<Rightarrow> nat \<Rightarrow> nat \<Rightarrow> string \<times> batch_row \<Rightarrow> analysis_batch res" where
  "hydrate_row evidence ordinal offset kv =
     (case kv of (batch, row) \<Rightarrow>
     (case (json_loads (br_paths row), json_loads (br_evidence row)) of
        (Some sections, Some ids) \<Rightarrow>
          (case (sections, str_list_value ids) of
             (JList vs, Some evidence_ids) \<Rightarrow>
               (case those (map str_list_value vs) of
                  None \<Rightarrow> store_invalid
                | Some paths \<Rightarrow>
                    if br_ordinal row \<noteq> ordinal \<or> evidence_ids = [] \<or>
                       \<not> set evidence_ids \<subseteq> fst ` set evidence then store_invalid
                    else
                      let own = take (length evidence_ids) (drop offset evidence) in
                      if map fst own \<noteq> evidence_ids then store_invalid
                      else
                        res_bind (case wk_checkpoint row of
                                    None \<Rightarrow> Inr None
                                  | Some s \<Rightarrow> res_bind (stored_checkpoint s) (\<lambda>d. Inr (Some d))) (\<lambda>checkpoint.
                        if wk_status row = Work_Completed \<and> checkpoint = None then store_invalid
                        else Inr \<lparr>ab_id = batch, ab_ordinal = ordinal, ab_section_paths = paths, ab_evidence = own,
                                  ab_status = status_text (wk_status row), ab_checkpoint = checkpoint\<rparr>))
           | _ \<Rightarrow> store_invalid)
      | _ \<Rightarrow> store_invalid))"

fun hydrate_rows ::
  "evidence_item list \<Rightarrow> nat \<Rightarrow> nat \<Rightarrow> (string \<times> batch_row) list \<Rightarrow> (analysis_batch list \<times> nat) res" where
  "hydrate_rows evidence ordinal offset [] = Inr ([], offset)"
| "hydrate_rows evidence ordinal offset (kv # rows) =
     res_bind (hydrate_row evidence ordinal offset kv) (\<lambda>b.
     res_bind (hydrate_rows evidence (Suc ordinal) (offset + length (ab_evidence b)) rows) (\<lambda>(bs, end_offset).
     Inr (b # bs, end_offset)))"

definition hydrate_batches :: "(string \<times> batch_row) list \<Rightarrow> evidence_item list \<Rightarrow> analysis_batch list res" where
  "hydrate_batches rows evidence =
     res_bind (hydrate_rows evidence 0 0 rows) (\<lambda>(bs, offset).
       if offset \<noteq> length evidence then store_invalid else Inr bs)"

subsection \<open>Creating or loading the plan of a job\<close>

definition json_text_of_strings :: "string list \<Rightarrow> string" where
  "json_text_of_strings ss = canonical_json (json_strs ss)"

definition new_batch_row :: "string \<Rightarrow> string \<Rightarrow> string \<Rightarrow> nat \<Rightarrow> evidence_item list \<Rightarrow> batch_row" where
  "new_batch_row job stage now ordinal evidence =
     \<lparr>wk_status = Work_Pending, wk_checkpoint = None, wk_error = None, wk_created = now, wk_updated = now,
      br_job = job, br_stage = stage, br_ordinal = ordinal,
      br_paths = canonical_json (JList (map json_strs (batch_section_paths evidence))),
      br_evidence = json_text_of_strings (map fst evidence)\<rparr>"

fun insert_batch_rows ::
  "bool \<Rightarrow> (nat \<Rightarrow> string) \<Rightarrow> string \<Rightarrow> string \<Rightarrow> string \<Rightarrow> nat \<Rightarrow> evidence_item list list \<Rightarrow>
    (string \<times> batch_row) list \<Rightarrow> (string \<times> batch_row) list res" where
  "insert_batch_rows parents ids job stage now ordinal [] t = Inr t"
| "insert_batch_rows parents ids job stage now ordinal (b # bs) t =
     res_bind (insert_row
         (parents \<and> (\<forall>kv\<in>set t. (br_job (snd kv), br_ordinal (snd kv)) \<noteq> (job, ordinal)))
         (ids ordinal) (new_batch_row job stage now ordinal b) t)
       (insert_batch_rows parents ids job stage now (Suc ordinal) bs)"

definition new_node_row :: "string \<Rightarrow> merge_node \<Rightarrow> node_row" where
  "new_node_row now n =
     \<lparr>wk_status = Work_Pending, wk_checkpoint = None, wk_error = None, wk_created = now, wk_updated = now,
      nr_level = mn_level n, nr_ordinal = mn_ordinal n, nr_children = json_text_of_strings (mn_children n)\<rparr>"

fun insert_node_rows ::
  "bool \<Rightarrow> string \<Rightarrow> string \<Rightarrow> merge_node list \<Rightarrow> ((string \<times> string) \<times> node_row) list \<Rightarrow>
    ((string \<times> string) \<times> node_row) list res" where
  "insert_node_rows parents job now [] t = Inr t"
| "insert_node_rows parents job now (n # ns) t =
     res_bind (insert_row
         (parents \<and> (\<forall>kv\<in>set t. (fst (fst kv), nr_level (snd kv), nr_ordinal (snd kv)) \<noteq> (job, mn_level n, mn_ordinal n)))
         (job, mn_id n) (new_node_row now n) t)
       (insert_node_rows parents job now ns)"

definition insert_plan ::
  "(string \<Rightarrow> string) \<Rightarrow> string \<Rightarrow> string \<Rightarrow> string \<Rightarrow> analysis_plan \<Rightarrow> analysis_db \<Rightarrow> analysis_db res" where
  "insert_plan sha256 job stage now p db =
     res_bind (insert_row (parents_known db job stage) job
       \<lparr>pr_stage = stage, pr_ir_digest = pl_document_ir_digest p, pr_model = pl_model p,
        pr_prompt_digest = pl_prompt_digest p, pr_json = canonical_json (plan_as_dict sha256 p),
        pr_created = now\<rparr> (an_plans db)) (\<lambda>plans. Inr (db\<lparr>an_plans := plans\<rparr>))"

definition insert_analysis ::
  "(nat \<Rightarrow> string) \<Rightarrow> string \<Rightarrow> string \<Rightarrow> string \<Rightarrow> evidence_item list list \<Rightarrow> merge_node list \<Rightarrow>
    analysis_db \<Rightarrow> analysis_db res" where
  "insert_analysis ids job stage now planned nodes db =
     (let parents = parents_known db job stage in
      res_bind (insert_batch_rows parents ids job stage now 0 planned (an_batches db)) (\<lambda>batches.
      res_bind (insert_row parents job
        \<lparr>wk_status = Work_Pending, wk_checkpoint = None, wk_error = None, wk_created = now, wk_updated = now,
         mg_stage = stage\<rparr> (an_merges db)) (\<lambda>merges.
      res_bind (insert_node_rows parents job now nodes (an_nodes db)) (\<lambda>node_rows.
      Inr (db\<lparr>an_batches := batches, an_merges := merges, an_nodes := node_rows\<rparr>)))))"

definition reload_plan ::
  "evidence_item list \<Rightarrow> analysis_plan \<Rightarrow> analysis_plan \<Rightarrow> (string \<times> batch_row) list \<Rightarrow>
    (analysis_plan \<times> analysis_batch list) res" where
  "reload_plan evidence proposed persisted rows =
     (if pl_document_ir_digest persisted \<noteq> pl_document_ir_digest proposed then store_invalid
      else if pl_profile persisted = None \<and> pl_profile proposed \<noteq> None
      then Inl (ImportError ''knowledge_analysis_replan_required'')
      else if length (pl_batches persisted) \<le> 1
      then (if rows \<noteq> [] then store_invalid else Inr (persisted, []))
      else if rows = [] then store_invalid
      else res_bind (hydrate_batches rows evidence) (\<lambda>bs. Inr (persisted, bs)))"

definition create_plan ::
  "(string \<Rightarrow> string) \<Rightarrow> (nat \<Rightarrow> string) \<Rightarrow> string \<Rightarrow> string \<Rightarrow> string \<Rightarrow> evidence_item list \<Rightarrow>
    evidence_item list list \<Rightarrow> analysis_plan \<Rightarrow> analysis_db \<Rightarrow>
    ((analysis_plan \<times> analysis_batch list) \<times> analysis_db) res" where
  "create_plan sha256 ids now job stage evidence planned proposed db =
     res_bind (insert_plan sha256 job stage now proposed db) (\<lambda>db1.
       if length planned \<le> 1 then Inr ((proposed, []), db1)
       else
         res_bind (insert_analysis ids job stage now planned (pl_topology proposed) db1) (\<lambda>db2.
         res_bind (hydrate_batches (batch_rows db2 job) evidence) (\<lambda>bs.
         Inr ((proposed, bs), db2))))"

definition load_or_create ::
  "(string \<Rightarrow> string) \<Rightarrow> string option \<Rightarrow> (nat \<Rightarrow> string) \<Rightarrow> string \<Rightarrow> string \<Rightarrow> string \<Rightarrow>
    evidence_item list \<Rightarrow> evidence_item list list \<Rightarrow> analysis_plan \<Rightarrow> analysis_db \<Rightarrow>
    ((analysis_plan \<times> analysis_batch list) \<times> analysis_db) res" where
  "load_or_create sha256 token ids now job stage evidence planned proposed db =
     res_bind (require_active_job token db job) (\<lambda>_.
     res_bind (plan_in sha256 db job) (\<lambda>persisted.
     (case persisted of
        Some p \<Rightarrow> res_bind (reload_plan evidence proposed p (batch_rows db job)) (\<lambda>r. Inr (r, db))
      | None \<Rightarrow> create_plan sha256 ids now job stage evidence planned proposed db)))"

subsection \<open>Transitions\<close>

text \<open>
  \<open>UPDATE .. WHERE key = ? AND status != 'completed'\<close>, which must change exactly one row.
  The key is the primary key, so it never changes more.
\<close>

definition move_work ::
  "work_status \<Rightarrow> dict option \<Rightarrow> string option \<Rightarrow> string \<Rightarrow> 'a work_row_scheme \<Rightarrow> 'a work_row_scheme" where
  "move_work status checkpoint code now r = r
     \<lparr>wk_status := status, wk_checkpoint := map_option (\<lambda>d. canonical_json (JObj d)) checkpoint,
      wk_error := code, wk_updated := now\<rparr>"

definition transition_row ::
  "'k \<Rightarrow> work_status \<Rightarrow> dict option \<Rightarrow> string option \<Rightarrow> string \<Rightarrow> ('k \<times> 'a work_row_scheme) list \<Rightarrow>
    ('k \<times> 'a work_row_scheme) list res" where
  "transition_row key status checkpoint code now t =
     (let open_row = (\<lambda>k r. k = key \<and> wk_status r \<noteq> Work_Completed) in
      if length (filter (\<lambda>kv. open_row (fst kv) (snd kv)) t) \<noteq> 1 then store_invalid
      else Inr (update_where open_row (move_work status checkpoint code now) t))"

definition transition_batch ::
  "string option \<Rightarrow> string \<Rightarrow> string \<Rightarrow> work_status \<Rightarrow> dict option \<Rightarrow> string option \<Rightarrow> analysis_db \<Rightarrow> analysis_db res" where
  "transition_batch token now batch status checkpoint code db =
     (case map_of (an_batches db) batch of
        None \<Rightarrow> store_invalid
      | Some row \<Rightarrow>
          res_bind (require_active_job token db (br_job row)) (\<lambda>_.
          res_bind (transition_row batch status checkpoint code now (an_batches db)) (\<lambda>batches.
          Inr (db\<lparr>an_batches := batches\<rparr>))))"

definition transition_merge ::
  "string option \<Rightarrow> string \<Rightarrow> string \<Rightarrow> work_status \<Rightarrow> dict option \<Rightarrow> string option \<Rightarrow> analysis_db \<Rightarrow> analysis_db res" where
  "transition_merge token now job status checkpoint code db =
     res_bind (require_active_job token db job) (\<lambda>_.
     res_bind (transition_row job status checkpoint code now (an_merges db)) (\<lambda>merges.
     Inr (db\<lparr>an_merges := merges\<rparr>)))"

definition transition_merge_node ::
  "string option \<Rightarrow> string \<Rightarrow> string \<Rightarrow> string \<Rightarrow> work_status \<Rightarrow> dict option \<Rightarrow> string option \<Rightarrow>
    analysis_db \<Rightarrow> analysis_db res" where
  "transition_merge_node token now job node status checkpoint code db =
     res_bind (require_active_job token db job) (\<lambda>_.
     res_bind (transition_row (job, node) status checkpoint code now (an_nodes db)) (\<lambda>nodes.
     Inr (db\<lparr>an_nodes := nodes\<rparr>)))"

definition start_batch where
  "start_batch token now batch = transition_batch token now batch Work_Running None None"

definition complete_batch where
  "complete_batch token now batch checkpoint = transition_batch token now batch Work_Completed (Some checkpoint) None"

definition fail_batch where
  "fail_batch token now batch code = transition_batch token now batch Work_Failed None (Some code)"

definition start_merge where
  "start_merge token now job = transition_merge token now job Work_Running None None"

definition complete_merge where
  "complete_merge token now job checkpoint = transition_merge token now job Work_Completed (Some checkpoint) None"

definition fail_merge where
  "fail_merge token now job code = transition_merge token now job Work_Failed None (Some code)"

definition start_merge_node where
  "start_merge_node token now job node = transition_merge_node token now job node Work_Running None None"

definition complete_merge_node where
  "complete_merge_node token now job node checkpoint =
     transition_merge_node token now job node Work_Completed (Some checkpoint) None"

definition fail_merge_node where
  "fail_merge_node token now job node code = transition_merge_node token now job node Work_Failed None (Some code)"

definition completed_checkpoint :: "'a work_row_scheme option \<Rightarrow> dict option res" where
  "completed_checkpoint row =
     (case row of
        None \<Rightarrow> Inr None
      | Some r \<Rightarrow>
          if wk_status r \<noteq> Work_Completed then Inr None
          else (case wk_checkpoint r of
                  None \<Rightarrow> store_invalid
                | Some s \<Rightarrow> res_bind (stored_checkpoint s) (\<lambda>d. Inr (Some d))))"

definition merge_checkpoint :: "string option \<Rightarrow> analysis_db \<Rightarrow> string \<Rightarrow> dict option res" where
  "merge_checkpoint token db job =
     res_bind (require_active_job token db job) (\<lambda>_. completed_checkpoint (map_of (an_merges db) job))"

definition merge_node_checkpoint :: "string option \<Rightarrow> analysis_db \<Rightarrow> string \<Rightarrow> string \<Rightarrow> dict option res" where
  "merge_node_checkpoint token db job node =
     res_bind (require_active_job token db job) (\<lambda>_. completed_checkpoint (map_of (an_nodes db) (job, node)))"

text \<open>The persisted plan of a job, and its deletion by a recovery.\<close>

definition persisted_plan :: "(string \<Rightarrow> string) \<Rightarrow> analysis_db \<Rightarrow> string \<Rightarrow> analysis_plan option res" where
  "persisted_plan sha256 db job = plan_in sha256 db job"

definition discard_analysis :: "string \<Rightarrow> analysis_db \<Rightarrow> analysis_db" where
  "discard_analysis job db = db
     \<lparr>an_nodes := filter (\<lambda>kv. fst (fst kv) \<noteq> job) (an_nodes db),
      an_merges := filter (\<lambda>kv. fst kv \<noteq> job) (an_merges db),
      an_batches := filter (\<lambda>kv. br_job (snd kv) \<noteq> job) (an_batches db),
      an_plans := filter (\<lambda>kv. fst kv \<noteq> job) (an_plans db)\<rparr>"

subsection \<open>Progress\<close>

record analysis_progress =
  ap_total :: nat
  ap_completed :: nat
  ap_active :: nat
  ap_failed :: nat
  ap_current :: "nat option"
  ap_phase :: string

definition analysis_progress_in :: "analysis_db \<Rightarrow> string \<Rightarrow> analysis_progress option" where
  "analysis_progress_in db job =
     (let rows = map snd (batch_rows db job);
          count = (\<lambda>s. length (filter (\<lambda>r. wk_status r = s) rows));
          merge = (case map_of (an_merges db) job of None \<Rightarrow> Work_Pending | Some m \<Rightarrow> wk_status m) in
      if rows = [] then None
      else Some \<lparr>ap_total = length rows, ap_completed = count Work_Completed, ap_active = count Work_Running,
        ap_failed = count Work_Failed,
        ap_current = map_option (\<lambda>r. br_ordinal r + 1) (find (\<lambda>r. wk_status r \<noteq> Work_Completed) rows),
        ap_phase = (if merge = Work_Completed then ''completed''
                    else if list_all (\<lambda>r. wk_status r = Work_Completed) rows then ''merge'' else ''batches'')\<rparr>)"

subsection \<open>Runs of operations\<close>

text \<open>
  Executions of several jobs, and several executions of one job, interleave; each operation
  carries the token of the execution that makes it.  \<open>Set_Job\<close> stands for the code that
  owns the reanalysis jobs (it may give a job another token at any time), \<open>Discard\<close> for the
  recovery that starts an analysis over.
\<close>

datatype analysis_op =
    Load "string option" "nat \<Rightarrow> string" string string string "evidence_item list" "evidence_item list list" analysis_plan
  | Move_Batch "string option" string string work_status "dict option" "string option"
  | Move_Merge "string option" string string work_status "dict option" "string option"
  | Move_Node "string option" string string string work_status "dict option" "string option"
  | Set_Job string string "string option"
  | Discard string

definition try_op :: "analysis_db \<Rightarrow> analysis_db res \<Rightarrow> analysis_db" where
  "try_op db r = (case r of Inl e \<Rightarrow> db | Inr db' \<Rightarrow> db')"

fun analysis_exec :: "(string \<Rightarrow> string) \<Rightarrow> analysis_op \<Rightarrow> analysis_db \<Rightarrow> analysis_db" where
  "analysis_exec sha256 (Load token ids now job stage evidence planned proposed) db =
     try_op db (res_bind (load_or_create sha256 token ids now job stage evidence planned proposed db) (\<lambda>(r, db'). Inr db'))"
| "analysis_exec sha256 (Move_Batch token now batch status checkpoint code) db =
     try_op db (transition_batch token now batch status checkpoint code db)"
| "analysis_exec sha256 (Move_Merge token now job status checkpoint code) db =
     try_op db (transition_merge token now job status checkpoint code db)"
| "analysis_exec sha256 (Move_Node token now job node status checkpoint code) db =
     try_op db (transition_merge_node token now job node status checkpoint code db)"
| "analysis_exec sha256 (Set_Job job status token) db = db\<lparr>an_jobs := AList.update job (status, token) (an_jobs db)\<rparr>"
| "analysis_exec sha256 (Discard job) db = discard_analysis job db"

definition analysis_run :: "(string \<Rightarrow> string) \<Rightarrow> analysis_op list \<Rightarrow> analysis_db \<Rightarrow> analysis_db" where
  "analysis_run sha256 ops db = foldl (\<lambda>db op. analysis_exec sha256 op db) db ops"

end
