(* ===== verification/AnalysisResume.thy ===== *)
theory AnalysisResume
  imports BatchStore AnalysisProposal
begin

section \<open>Resuming an analysis\<close>

text \<open>
  The invariant of the tables of \<open>BatchStore\<close> under any interleaving of operations, and what
  it gives a resumed execution: the plan it was pinned to, the same batches over the same
  Evidence, and every completed batch with the checkpoint it was completed with.
\<close>

declare map_of_eq_Some_iff [simp del] map_of_append [simp del]

subsection \<open>The tables stay consistent\<close>

definition work_ok :: "'a work_row_scheme \<Rightarrow> bool" where
  "work_ok r \<longleftrightarrow> (wk_status r = Work_Completed \<longleftrightarrow> wk_checkpoint r \<noteq> None) \<and>
     (\<forall>s\<in>set_option (wk_checkpoint r). \<exists>d. json_loads s = Some (JObj d))"

definition analysis_ok :: "analysis_db \<Rightarrow> bool" where
  "analysis_ok db \<longleftrightarrow>
     table_ok (an_batches db) \<and> (\<forall>kv\<in>set (an_batches db). work_ok (snd kv)) \<and>
     (\<forall>kv\<in>set (an_merges db). work_ok (snd kv)) \<and> (\<forall>kv\<in>set (an_nodes db). work_ok (snd kv)) \<and>
     (\<forall>kv\<in>set (an_batches db). br_job (snd kv) \<in> fst ` set (an_plans db))"

text \<open>
  What the methods pass: a checkpoint exactly with the completion, and a dictionary of the
  language, whose keys are distinct.
\<close>

definition move_ok :: "work_status \<Rightarrow> dict option \<Rightarrow> bool" where
  "move_ok status checkpoint \<longleftrightarrow>
     (status = Work_Completed \<longleftrightarrow> checkpoint \<noteq> None) \<and> (\<forall>d\<in>set_option checkpoint. json_ok (JObj d))"

fun op_ok :: "analysis_op \<Rightarrow> bool" where
  "op_ok (Move_Batch token now batch status checkpoint code) = move_ok status checkpoint"
| "op_ok (Move_Merge token now job status checkpoint code) = move_ok status checkpoint"
| "op_ok (Move_Node token now job node status checkpoint code) = move_ok status checkpoint"
| "op_ok _ = True"

lemma move_work_ok: "move_ok status checkpoint \<Longrightarrow> work_ok (move_work status checkpoint code now r)"
  by (cases checkpoint) (auto simp: move_ok_def work_ok_def move_work_def canonical_json_loads simp del: json_ok.simps)

lemma transition_row_Inr:
  "transition_row key status checkpoint code now t = Inr t' \<Longrightarrow>
     t' = update_where (\<lambda>k r. k = key \<and> wk_status r \<noteq> Work_Completed) (move_work status checkpoint code now) t"
  by (auto simp: transition_row_def Let_def store_invalid_def split: if_splits)

lemma transition_row_work_ok:
  assumes "transition_row key status checkpoint code now t = Inr t'" "move_ok status checkpoint"
    "\<forall>kv\<in>set t. work_ok (snd kv)"
  shows "\<forall>kv\<in>set t'. work_ok (snd kv)"
proof
  fix kv assume "kv \<in> set t'"
  with transition_row_Inr [OF assms(1)] obtain r where "(fst kv, r) \<in> set t"
    "snd kv = r \<or> snd kv = move_work status checkpoint code now r"
    by (auto simp: set_update_where split: if_splits)
  with assms(2,3) show "work_ok (snd kv)" by (force intro: move_work_ok)
qed

lemma move_work_columns [simp]:
  "br_job (move_work status checkpoint code now r) = br_job r"
  "br_ordinal (move_work status checkpoint code now r) = br_ordinal r"
  "br_paths (move_work status checkpoint code now r) = br_paths r"
  "br_evidence (move_work status checkpoint code now r) = br_evidence r"
  by (simp_all add: move_work_def)

lemma new_batch_row_columns [simp]:
  "br_job (new_batch_row job stage now n b) = job"
  "br_ordinal (new_batch_row job stage now n b) = n"
  "br_paths (new_batch_row job stage now n b) = canonical_json (JList (map json_strs (batch_section_paths b)))"
  "br_evidence (new_batch_row job stage now n b) = json_text_of_strings (map fst b)"
  by (simp_all add: new_batch_row_def)

lemma new_row_work_ok [simp]: "work_ok (new_batch_row job stage now n b)" "work_ok (new_node_row now node)"
  by (simp_all add: work_ok_def new_batch_row_def new_node_row_def)

lemma insert_batch_rows_Inr:
  "insert_batch_rows parents ids job stage now n bs t = Inr t' \<Longrightarrow>
     t' = t @ map (\<lambda>i. (ids (n + i), new_batch_row job stage now (n + i) (bs ! i))) [0..<length bs]"
proof (induction bs arbitrary: n t)
  case (Cons b bs)
  then have "insert_batch_rows parents ids job stage now (Suc n) bs
      (t @ [(ids n, new_batch_row job stage now n b)]) = Inr t'"
    by (auto simp: res_bind_Inr_iff insert_row_Inr)
  from Cons.IH [OF this] show ?case
    by (simp add: upt_conv_Cons map_Suc_upt [symmetric] comp_def del: upt_Suc)
qed simp

lemma insert_batch_rows_table:
  "insert_batch_rows parents ids job stage now n bs t = Inr t' \<Longrightarrow> table_ok t \<Longrightarrow> table_ok t'"
proof (induction bs arbitrary: n t)
  case (Cons b bs)
  let ?t = "t @ [(ids n, new_batch_row job stage now n b)]"
  from Cons.prems have "insert_batch_rows parents ids job stage now (Suc n) bs ?t = Inr t'" "table_ok ?t"
    by (auto simp: res_bind_Inr_iff insert_row_Inr)
  then show ?case by (rule Cons.IH)
qed simp

lemma insert_node_rows_Inr:
  "insert_node_rows parents job now ns t = Inr t' \<Longrightarrow> \<forall>kv\<in>set t. work_ok (snd kv) \<Longrightarrow> \<forall>kv\<in>set t'. work_ok (snd kv)"
proof (induction ns arbitrary: t)
  case (Cons n ns)
  from Cons.prems obtain t1 where "t1 = t @ [((job, mn_id n), new_node_row now n)]"
    "insert_node_rows parents job now ns t1 = Inr t'"
    by (auto simp: res_bind_Inr_iff insert_row_Inr)
  with Cons.IH [of t1] Cons.prems(2) show ?case by auto
qed simp

lemma insert_analysis_Inr:
  assumes "insert_analysis ids job stage now planned nodes db = Inr db'"
  obtains batches merges rows where "db' = db\<lparr>an_batches := batches, an_merges := merges, an_nodes := rows\<rparr>"
    "batches = an_batches db @ map (\<lambda>i. (ids i, new_batch_row job stage now i (planned ! i))) [0..<length planned]"
    "table_ok (an_batches db) \<Longrightarrow> table_ok batches"
    "\<forall>kv\<in>set (an_merges db). work_ok (snd kv) \<Longrightarrow> \<forall>kv\<in>set merges. work_ok (snd kv)"
    "\<forall>kv\<in>set (an_nodes db). work_ok (snd kv) \<Longrightarrow> \<forall>kv\<in>set rows. work_ok (snd kv)"
proof -
  from assms obtain batches merges rows where
    db': "db' = db\<lparr>an_batches := batches, an_merges := merges, an_nodes := rows\<rparr>"
    and b: "insert_batch_rows (parents_known db job stage) ids job stage now 0 planned (an_batches db) = Inr batches"
    and m: "\<exists>row. work_ok row \<and> merges = an_merges db @ [(job, row)]"
    and n: "insert_node_rows (parents_known db job stage) job now nodes (an_nodes db) = Inr rows"
    by (auto simp: insert_analysis_def Let_def res_bind_Inr_iff insert_row_Inr work_ok_def)
  show thesis
  proof (rule that [OF db'])
    show "batches = an_batches db @ map (\<lambda>i. (ids i, new_batch_row job stage now i (planned ! i))) [0..<length planned]"
      using insert_batch_rows_Inr [OF b] by simp
  qed (use insert_batch_rows_table [OF b] m insert_node_rows_Inr [OF n] in auto)
qed

lemma create_plan_Inr:
  assumes "create_plan sha256 ids now job stage evidence planned proposed db = Inr ((p, bs), db')"
  obtains row db1 where "job \<notin> fst ` set (an_plans db)" "pr_json row = canonical_json (plan_as_dict sha256 proposed)"
    "db1 = db\<lparr>an_plans := an_plans db @ [(job, row)]\<rparr>" "p = proposed"
    "(length planned \<le> 1 \<and> db' = db1 \<and> bs = []) \<or>
     (1 < length planned \<and> insert_analysis ids job stage now planned (pl_topology proposed) db1 = Inr db' \<and>
       hydrate_batches (batch_rows db' job) evidence = Inr bs)"
proof -
  from assms obtain db1 where db1: "insert_plan sha256 job stage now proposed db = Inr db1"
    and c: "(if length planned \<le> 1 then Inr ((proposed, []), db1)
       else res_bind (insert_analysis ids job stage now planned (pl_topology proposed) db1) (\<lambda>db2.
         res_bind (hydrate_batches (batch_rows db2 job) evidence) (\<lambda>bs. Inr ((proposed, bs), db2)))) = Inr ((p, bs), db')"
    unfolding create_plan_def res_bind_Inr_iff [of "insert_plan sha256 job stage now proposed db"] by blast
  from c have p: "p = proposed" by (auto simp: res_bind_Inr_iff split: if_splits)
  have rest: "(length planned \<le> 1 \<and> db' = db1 \<and> bs = []) \<or>
     (1 < length planned \<and> insert_analysis ids job stage now planned (pl_topology proposed) db1 = Inr db' \<and>
       hydrate_batches (batch_rows db' job) evidence = Inr bs)"
    using c by (cases "length planned \<le> 1") (auto simp: res_bind_Inr_iff)
  let ?row = "\<lparr>pr_stage = stage, pr_ir_digest = pl_document_ir_digest proposed, pr_model = pl_model proposed,
        pr_prompt_digest = pl_prompt_digest proposed, pr_json = canonical_json (plan_as_dict sha256 proposed),
        pr_created = now\<rparr>"
  from db1 have "job \<notin> fst ` set (an_plans db)" "db1 = db\<lparr>an_plans := an_plans db @ [(job, ?row)]\<rparr>"
    by (auto simp: insert_plan_def res_bind_Inr_iff insert_row_Inr)
  then show thesis using p rest by (intro that [of ?row db1]) simp_all
qed

subsection \<open>The invariant\<close>

lemma reload_plan_Inr: "reload_plan evidence proposed q rows = Inr (p, bs) \<Longrightarrow> p = q"
  by (auto simp: reload_plan_def store_invalid_def res_bind_Inr_iff split: if_splits)

lemma load_or_create_Inr:
  assumes "load_or_create sha256 token ids now job stage evidence planned proposed db = Inr ((p, bs), db')"
  obtains (reloaded) "db' = db" "plan_in sha256 db job = Inr (Some p)"
      "reload_plan evidence proposed p (batch_rows db job) = Inr (p, bs)"
  | (created) "plan_in sha256 db job = Inr None"
      "create_plan sha256 ids now job stage evidence planned proposed db = Inr ((p, bs), db')"
proof -
  from assms obtain persisted where q: "plan_in sha256 db job = Inr persisted"
    and r: "(case persisted of
        Some p \<Rightarrow> res_bind (reload_plan evidence proposed p (batch_rows db job)) (\<lambda>r. Inr (r, db))
      | None \<Rightarrow> create_plan sha256 ids now job stage evidence planned proposed db) = Inr ((p, bs), db')"
    by (auto simp: load_or_create_def res_bind_Inr_iff)
  show thesis
  proof (cases persisted)
    case (Some q)
    with r have "reload_plan evidence proposed q (batch_rows db job) = Inr (p, bs)" "db' = db"
      by (auto simp: res_bind_Inr_iff)
    moreover from this(1) have "p = q" by (rule reload_plan_Inr)
    ultimately show thesis using q Some by (intro reloaded) simp_all
  qed (use q r created in simp)
qed

lemma load_cases:
  obtains (same) "analysis_exec sha256 (Load token ids now job stage evidence planned proposed) db = db"
  | (created) p bs where
      "create_plan sha256 ids now job stage evidence planned proposed db =
         Inr ((p, bs), analysis_exec sha256 (Load token ids now job stage evidence planned proposed) db)"
proof (cases "load_or_create sha256 token ids now job stage evidence planned proposed db")
  case (Inr r)
  obtain p bs db' where r: "r = ((p, bs), db')" by (cases r) auto
  from Inr [unfolded r] show thesis
    by (cases rule: load_or_create_Inr) (use that Inr r in \<open>auto simp: try_op_def\<close>)
qed (use that in \<open>simp add: try_op_def\<close>)

lemma create_plan_ok:
  assumes "create_plan sha256 ids now job stage evidence planned proposed db = Inr ((p, bs), db')" "analysis_ok db"
  shows "analysis_ok db'"
proof -
  from assms(1) show ?thesis
  proof (rule create_plan_Inr)
    fix row db1
    assume db1: "db1 = db\<lparr>an_plans := an_plans db @ [(job, row)]\<rparr>"
      and c: "(length planned \<le> 1 \<and> db' = db1 \<and> bs = []) \<or>
       (1 < length planned \<and> insert_analysis ids job stage now planned (pl_topology proposed) db1 = Inr db' \<and>
         hydrate_batches (batch_rows db' job) evidence = Inr bs)"
    have ok1: "analysis_ok db1" using assms(2) by (auto simp: analysis_ok_def db1)
    from c show "analysis_ok db'"
    proof (elim disjE conjE)
      assume "insert_analysis ids job stage now planned (pl_topology proposed) db1 = Inr db'"
      then show ?thesis
        by (rule insert_analysis_Inr) (use ok1 in \<open>auto simp: analysis_ok_def db1\<close>)
    qed (use ok1 in simp)
  qed
qed

lemma transition_batch_Inr:
  assumes "transition_batch token now batch status checkpoint code db = Inr db'"
  obtains batches where "db' = db\<lparr>an_batches := batches\<rparr>"
    "transition_row batch status checkpoint code now (an_batches db) = Inr batches"
  using assms by (auto simp: transition_batch_def res_bind_Inr_iff store_invalid_def split: option.splits)

lemma transition_merge_Inr:
  assumes "transition_merge token now job status checkpoint code db = Inr db'"
  obtains merges where "db' = db\<lparr>an_merges := merges\<rparr>"
    "transition_row job status checkpoint code now (an_merges db) = Inr merges"
  using assms by (auto simp: transition_merge_def res_bind_Inr_iff)

lemma transition_node_Inr:
  assumes "transition_merge_node token now job node status checkpoint code db = Inr db'"
  obtains nodes where "db' = db\<lparr>an_nodes := nodes\<rparr>"
    "transition_row (job, node) status checkpoint code now (an_nodes db) = Inr nodes"
  using assms by (auto simp: transition_merge_node_def res_bind_Inr_iff)

lemma transition_row_set:
  assumes "transition_row key status checkpoint code now t = Inr t'" "kv \<in> set t'"
  obtains r where "(fst kv, r) \<in> set t" "snd kv = r \<or> snd kv = move_work status checkpoint code now r"
  using assms(2) transition_row_Inr [OF assms(1)] by (auto simp: set_update_where split: if_splits)

lemma transition_row_keys: "transition_row key status checkpoint code now t = Inr t' \<Longrightarrow> map fst t' = map fst t"
  by (drule transition_row_Inr) simp

lemma analysis_exec_ok:
  assumes "op_ok op" "analysis_ok db"
  shows "analysis_ok (analysis_exec sha256 op db)"
proof (cases op)
  case (Load token ids now job stage evidence planned proposed)
  show ?thesis unfolding Load by (metis load_cases create_plan_ok assms(2))
next
  case (Move_Batch token now batch status checkpoint code)
  show ?thesis
  proof (cases "transition_batch token now batch status checkpoint code db")
    case (Inr db')
    then obtain batches where db': "db' = db\<lparr>an_batches := batches\<rparr>"
      and m: "transition_row batch status checkpoint code now (an_batches db) = Inr batches"
      by (rule transition_batch_Inr)
    have "br_job (snd kv) \<in> fst ` set (an_plans db)" if "kv \<in> set batches" for kv
      using transition_row_set [OF m that] assms(2) unfolding analysis_ok_def by (metis move_work_columns(1) snd_conv)
    moreover have "\<forall>kv\<in>set batches. work_ok (snd kv)"
      using transition_row_work_ok [OF m] assms unfolding Move_Batch by (simp add: analysis_ok_def)
    ultimately show ?thesis
      using assms(2) transition_row_keys [OF m] Inr db' by (simp add: Move_Batch try_op_def analysis_ok_def)
  qed (use assms(2) in \<open>simp add: Move_Batch try_op_def\<close>)
next
  case (Move_Merge token now job status checkpoint code)
  show ?thesis
  proof (cases "transition_merge token now job status checkpoint code db")
    case (Inr db')
    then obtain merges where db': "db' = db\<lparr>an_merges := merges\<rparr>"
      and m: "transition_row job status checkpoint code now (an_merges db) = Inr merges"
      by (rule transition_merge_Inr)
    have "\<forall>kv\<in>set merges. work_ok (snd kv)"
      using transition_row_work_ok [OF m] assms unfolding Move_Merge by (simp add: analysis_ok_def)
    then show ?thesis using assms(2) Inr db' by (simp add: Move_Merge try_op_def analysis_ok_def)
  qed (use assms(2) in \<open>simp add: Move_Merge try_op_def\<close>)
next
  case (Move_Node token now job node status checkpoint code)
  show ?thesis
  proof (cases "transition_merge_node token now job node status checkpoint code db")
    case (Inr db')
    then obtain nodes where db': "db' = db\<lparr>an_nodes := nodes\<rparr>"
      and m: "transition_row (job, node) status checkpoint code now (an_nodes db) = Inr nodes"
      by (rule transition_node_Inr)
    have "\<forall>kv\<in>set nodes. work_ok (snd kv)"
      using transition_row_work_ok [OF m] assms unfolding Move_Node by (simp add: analysis_ok_def)
    then show ?thesis using assms(2) Inr db' by (simp add: Move_Node try_op_def analysis_ok_def)
  qed (use assms(2) in \<open>simp add: Move_Node try_op_def\<close>)
next
  case (Discard job)
  show ?thesis using assms(2) unfolding Discard
    by (fastforce simp: analysis_ok_def discard_analysis_def image_iff)
qed (use assms(2) in \<open>simp add: analysis_ok_def\<close>)

lemma analysis_run_ok:
  "\<forall>op\<in>set ops. op_ok op \<Longrightarrow> analysis_ok db \<Longrightarrow> analysis_ok (analysis_run sha256 ops db)"
  unfolding analysis_run_def by (induction ops arbitrary: db) (auto simp: analysis_exec_ok)

subsection \<open>The rows of a pinned plan\<close>

type_synonym batch_columns = "nat \<times> string \<times> string"

definition row_columns :: "batch_row \<Rightarrow> batch_columns" where
  "row_columns r = (br_ordinal r, br_paths r, br_evidence r)"

definition planned_columns :: "nat \<Rightarrow> evidence_item list \<Rightarrow> batch_columns" where
  "planned_columns n b =
     (n, canonical_json (JList (map json_strs (batch_section_paths b))), json_text_of_strings (map fst b))"

fun planned_rows :: "(nat \<Rightarrow> string) \<Rightarrow> nat \<Rightarrow> evidence_item list list \<Rightarrow> (string \<times> batch_columns) list" where
  "planned_rows ids n [] = []"
| "planned_rows ids n (b # bs) = (ids n, planned_columns n b) # planned_rows ids (Suc n) bs"

definition job_rows :: "analysis_db \<Rightarrow> string \<Rightarrow> (string \<times> batch_row) list" where
  "job_rows db job = filter (\<lambda>kv. br_job (snd kv) = job) (an_batches db)"

definition columns_of :: "(string \<times> batch_row) list \<Rightarrow> (string \<times> batch_columns) list" where
  "columns_of rows = map (\<lambda>kv. (fst kv, row_columns (snd kv))) rows"

text \<open>The job \<open>job\<close> is pinned to \<open>p\<close>, with the identifiers \<open>ids\<close> for its batches \<open>bs\<close>.\<close>

definition pinned ::
  "(string \<Rightarrow> string) \<Rightarrow> string \<Rightarrow> analysis_plan \<Rightarrow> (nat \<Rightarrow> string) \<Rightarrow> evidence_item list list \<Rightarrow> analysis_db \<Rightarrow> bool" where
  "pinned sha256 job p ids bs db \<longleftrightarrow>
     (\<exists>row. map_of (an_plans db) job = Some row \<and> pr_json row = canonical_json (plan_as_dict sha256 p)) \<and>
     columns_of (job_rows db job) = (if length bs \<le> 1 then [] else planned_rows ids 0 bs)"

lemma columns_of_new_rows:
  "columns_of (map (\<lambda>i. (ids (n + i), new_batch_row job stage now (n + i) (bs ! i))) [0..<length bs]) =
     planned_rows ids n bs"
proof (induction bs arbitrary: n)
  case (Cons b bs)
  from Cons [of "Suc n"] show ?case
    by (simp add: columns_of_def row_columns_def planned_columns_def upt_conv_Cons map_Suc_upt [symmetric] comp_def
        del: upt_Suc)
qed (simp add: columns_of_def)

lemma planned_rows_ge: "kc \<in> set (planned_rows ids n bs) \<Longrightarrow> n \<le> fst (snd kc)"
proof (induction bs arbitrary: n)
  case (Cons b bs)
  from Cons.IH [of "Suc n"] Cons.prems show ?case by (auto simp: planned_columns_def)
qed simp

lemma planned_rows_sorted: "sorted (map (\<lambda>kc. fst (snd kc)) (planned_rows ids n bs))"
proof (induction bs arbitrary: n)
  case (Cons b bs)
  have "n \<le> fst (snd kc)" if "kc \<in> set (planned_rows ids (Suc n) bs)" for kc
    using planned_rows_ge [OF that] by simp
  with Cons show ?case by (auto simp: planned_columns_def)
qed simp

text \<open>Reading the rows in order of their ordinals is reading them as they are.\<close>

lemma batch_rows_planned:
  assumes "columns_of (job_rows db job) = planned_rows ids 0 bs"
  shows "batch_rows db job = job_rows db job"
proof -
  have "map (\<lambda>kv. br_ordinal (snd kv)) (job_rows db job) = map (\<lambda>kc. fst (snd kc)) (columns_of (job_rows db job))"
    by (simp add: columns_of_def row_columns_def)
  with planned_rows_sorted assms have "sorted (map (\<lambda>kv. br_ordinal (snd kv)) (job_rows db job))" by metis
  then show ?thesis by (simp add: batch_rows_def job_rows_def sort_key_id_if_sorted)
qed

subsection \<open>Hydrating them\<close>

lemma json_strs_text [simp]: "json_loads (canonical_json (json_strs ss)) = Some (json_strs ss)"
proof -
  have "json_ok (json_strs ss)" "sort_keys (json_strs ss) = json_strs ss"
    by (simp_all add: json_strs_def list_all_iff comp_def)
  then show ?thesis using canonical_json_loads [of "json_strs ss"] by simp
qed

lemma json_paths_text [simp]:
  "json_loads (canonical_json (JList (map json_strs pss))) = Some (JList (map json_strs pss))"
proof -
  have "json_ok (JList (map json_strs pss))" "sort_keys (JList (map json_strs pss)) = JList (map json_strs pss)"
    by (simp_all add: json_strs_def list_all_iff comp_def)
  then show ?thesis using canonical_json_loads [of "JList (map json_strs pss)"] by simp
qed

lemma those_map_Some: "(\<And>x. x \<in> set xs \<Longrightarrow> f x = Some (g x)) \<Longrightarrow> those (map f xs) = Some (map g xs)"
  by (induction xs) auto

lemma str_list_value_strs [simp]: "str_list_value (json_strs ss) = Some ss"
  using those_map_Some [of ss "str_value \<circ> JStr" id] by (simp add: str_list_value_def json_strs_def str_value_def)

lemma path_values_strs [simp]: "those (map (str_list_value \<circ> json_strs) pss) = Some pss"
  using those_map_Some [of pss "str_list_value \<circ> json_strs" id] by simp

definition row_checkpoint :: "'a work_row_scheme \<Rightarrow> dict option" where
  "row_checkpoint r =
     (case wk_checkpoint r of None \<Rightarrow> None | Some s \<Rightarrow> (case json_loads s of Some (JObj d) \<Rightarrow> Some d | _ \<Rightarrow> None))"

definition hydrated :: "string \<times> batch_row \<Rightarrow> evidence_item list \<Rightarrow> analysis_batch" where
  "hydrated kv b = \<lparr>ab_id = fst kv, ab_ordinal = br_ordinal (snd kv), ab_section_paths = batch_section_paths b,
     ab_evidence = b, ab_status = status_text (wk_status (snd kv)), ab_checkpoint = row_checkpoint (snd kv)\<rparr>"

lemma status_text_completed [simp]: "status_text s = ''completed'' \<longleftrightarrow> s = Work_Completed"
  by (cases s) simp_all

lemma hydrate_row_planned:
  assumes "row_columns (snd kv) = planned_columns n b" "work_ok (snd kv)" "b \<noteq> []"
    "evidence = pre @ b @ post"
  shows "hydrate_row evidence n (length pre) kv = Inr (hydrated kv b)"
proof -
  obtain k r where kv: "kv = (k, r)" by fastforce
  have r: "br_ordinal r = n" "br_paths r = canonical_json (JList (map json_strs (batch_section_paths b)))"
    "br_evidence r = canonical_json (json_strs (map fst b))"
    using assms(1) by (simp_all add: kv row_columns_def planned_columns_def json_text_of_strings_def)
  have cp: "(case wk_checkpoint r of None \<Rightarrow> Inr None
      | Some s \<Rightarrow> res_bind (stored_checkpoint s) (\<lambda>d. Inr (Some d))) = Inr (row_checkpoint r)"
    "\<not> (wk_status r = Work_Completed \<and> row_checkpoint r = None)"
    using assms(2) by (auto simp: kv work_ok_def stored_checkpoint_def row_checkpoint_def split: option.splits)
  show ?thesis
    using assms(3,4) r cp(2) by (auto simp: kv hydrate_row_def cp(1) Let_def hydrated_def)
qed

lemma hydrate_rows_planned:
  assumes "columns_of rows = planned_rows ids n bs" "\<forall>kv\<in>set rows. work_ok (snd kv)" "[] \<notin> set bs"
    "evidence = pre @ concat bs @ post"
  shows "hydrate_rows evidence n (length pre) rows = Inr (map2 hydrated rows bs, length pre + length (concat bs))"
  using assms
proof (induction bs arbitrary: n rows pre)
  case Nil
  then show ?case by (simp add: columns_of_def)
next
  case (Cons b bs)
  from Cons.prems(1) obtain kv rs where rows: "rows = kv # rs" and c: "row_columns (snd kv) = planned_columns n b"
    and rs: "columns_of rs = planned_rows ids (Suc n) bs"
    by (auto simp: columns_of_def map_eq_Cons_conv)
  have "hydrate_row evidence n (length pre) kv = Inr (hydrated kv b)"
    by (rule hydrate_row_planned [OF c]) (use Cons.prems rows in auto)
  moreover have "hydrate_rows evidence (Suc n) (length (pre @ b)) rs =
      Inr (map2 hydrated rs bs, length (pre @ b) + length (concat bs))"
    by (rule Cons.IH [OF rs]) (use Cons.prems rows in auto)
  ultimately show ?case by (simp add: rows hydrated_def add.assoc)
qed

lemma hydrate_batches_planned:
  assumes "columns_of rows = planned_rows ids 0 bs" "\<forall>kv\<in>set rows. work_ok (snd kv)" "[] \<notin> set bs"
  shows "hydrate_batches rows (concat bs) = Inr (map2 hydrated rows bs)"
  using hydrate_rows_planned [OF assms, of "concat bs" "[]" "[]"] by (simp add: hydrate_batches_def)

subsection \<open>Pinned from creation on\<close>

lemma create_plan_pins:
  assumes "create_plan sha256 ids now job stage (concat planned) planned proposed db = Inr ((p, bs), db')"
    "analysis_ok db" "[] \<notin> set planned"
  shows "pinned sha256 job p ids planned db'"
    and "bs = (if length planned \<le> 1 then [] else map2 hydrated (job_rows db' job) planned)"
proof -
  have "pinned sha256 job p ids planned db' \<and>
      bs = (if length planned \<le> 1 then [] else map2 hydrated (job_rows db' job) planned)"
    using assms(1)
  proof (rule create_plan_Inr)
    fix row db1
    assume new: "job \<notin> fst ` set (an_plans db)" and row: "pr_json row = canonical_json (plan_as_dict sha256 proposed)"
      and db1: "db1 = db\<lparr>an_plans := an_plans db @ [(job, row)]\<rparr>" and p: "p = proposed"
      and c: "(length planned \<le> 1 \<and> db' = db1 \<and> bs = []) \<or>
       (1 < length planned \<and> insert_analysis ids job stage now planned (pl_topology proposed) db1 = Inr db' \<and>
         hydrate_batches (batch_rows db' job) (concat planned) = Inr bs)"
    have plan: "map_of (an_plans db1) job = Some row"
      using new by (simp add: db1 map_of_append map_add_def map_of_eq_None_iff [symmetric])
    have none: "filter (\<lambda>kv. br_job (snd kv) = job) (an_batches db) = []"
      using new assms(2) by (force simp: analysis_ok_def filter_empty_conv)
    from c show ?thesis
    proof (elim disjE conjE)
      assume "1 < length planned" and h: "hydrate_batches (batch_rows db' job) (concat planned) = Inr bs"
        and "insert_analysis ids job stage now planned (pl_topology proposed) db1 = Inr db'"
      then obtain batches merges rows where
        db': "db' = db1\<lparr>an_batches := batches, an_merges := merges, an_nodes := rows\<rparr>"
        and b: "batches = an_batches db1 @ map (\<lambda>i. (ids i, new_batch_row job stage now i (planned ! i))) [0..<length planned]"
        by (elim insert_analysis_Inr)
      have "job_rows db' job = map (\<lambda>i. (ids i, new_batch_row job stage now i (planned ! i))) [0..<length planned]"
        using none by (simp add: db' b db1 job_rows_def)
      then have "pinned sha256 job p ids planned db'"
        using plan row \<open>1 < length planned\<close> columns_of_new_rows [of ids 0 job stage now planned]
        by (simp add: pinned_def p db')
      moreover from this \<open>1 < length planned\<close> have rows: "columns_of (job_rows db' job) = planned_rows ids 0 planned"
        by (simp add: pinned_def)
      moreover have "analysis_ok db'" by (rule create_plan_ok [OF assms(1,2)])
      then have "\<forall>kv\<in>set (job_rows db' job). work_ok (snd kv)" by (simp add: analysis_ok_def job_rows_def)
      from hydrate_batches_planned [OF rows this assms(3)] batch_rows_planned [OF rows] h
      have "bs = map2 hydrated (job_rows db' job) planned" by simp
      ultimately show ?thesis using \<open>1 < length planned\<close> by simp
    qed (use plan row none in \<open>simp add: pinned_def p db1 job_rows_def columns_of_def\<close>)
  qed
  then show "pinned sha256 job p ids planned db'"
    and "bs = (if length planned \<le> 1 then [] else map2 hydrated (job_rows db' job) planned)" by blast+
qed

lemma columns_of_moved:
  "columns_of (filter (\<lambda>kv. br_job (snd kv) = job) (update_where P (move_work status checkpoint code now) t)) =
     columns_of (filter (\<lambda>kv. br_job (snd kv) = job) t)"
  by (induction t) (auto simp: columns_of_def update_where_def row_columns_def)

lemma create_plan_other:
  assumes "create_plan sha256 ids now job' stage evidence planned proposed db = Inr ((p, bs), db')" "job' \<noteq> job"
  shows "map_of (an_plans db') job = map_of (an_plans db) job" "job_rows db' job = job_rows db job"
    and "set (an_batches db) \<subseteq> set (an_batches db')"
proof -
  have "map_of (an_plans db') job = map_of (an_plans db) job \<and> job_rows db' job = job_rows db job \<and>
      set (an_batches db) \<subseteq> set (an_batches db')"
    using assms(1)
  proof (rule create_plan_Inr)
    fix row db1
    assume db1: "db1 = db\<lparr>an_plans := an_plans db @ [(job', row)]\<rparr>"
      and c: "(length planned \<le> 1 \<and> db' = db1 \<and> bs = []) \<or>
       (1 < length planned \<and> insert_analysis ids job' stage now planned (pl_topology proposed) db1 = Inr db' \<and>
         hydrate_batches (batch_rows db' job') evidence = Inr bs)"
    have plan: "map_of (an_plans db1) job = map_of (an_plans db) job"
      using assms(2) by (simp add: db1 map_of_append map_add_def split: option.split)
    from c show ?thesis
      by (elim disjE conjE insert_analysis_Inr) (use plan assms(2) in \<open>auto simp: db1 job_rows_def filter_empty_conv\<close>)
  qed
  then show "map_of (an_plans db') job = map_of (an_plans db) job" "job_rows db' job = job_rows db job"
    "set (an_batches db) \<subseteq> set (an_batches db')" by blast+
qed

lemma analysis_exec_pinned:
  assumes "pinned sha256 job p ids bs db" "op \<noteq> Discard job"
  shows "pinned sha256 job p ids bs (analysis_exec sha256 op db)"
proof (cases op)
  case (Load token ids' now job' stage evidence planned proposed)
  show ?thesis unfolding Load
  proof (rule load_cases)
    assume "analysis_exec sha256 (Load token ids' now job' stage evidence planned proposed) db = db"
    with assms(1) show "pinned sha256 job p ids bs (analysis_exec sha256 (Load token ids' now job' stage evidence planned proposed) db)"
      by simp
  next
    fix q cs
    assume c: "create_plan sha256 ids' now job' stage evidence planned proposed db =
      Inr ((q, cs), analysis_exec sha256 (Load token ids' now job' stage evidence planned proposed) db)"
    then have "job' \<notin> fst ` set (an_plans db)" by (rule create_plan_Inr)
    with assms(1) have "job' \<noteq> job" by (auto simp: pinned_def map_of_eq_None_iff [symmetric])
    from create_plan_other [OF c this] assms(1)
    show "pinned sha256 job p ids bs (analysis_exec sha256 (Load token ids' now job' stage evidence planned proposed) db)"
      by (simp add: pinned_def)
  qed
next
  case (Move_Batch token now batch status checkpoint code)
  show ?thesis
  proof (cases "transition_batch token now batch status checkpoint code db")
    case (Inr db')
    then obtain batches where "db' = db\<lparr>an_batches := batches\<rparr>"
      "transition_row batch status checkpoint code now (an_batches db) = Inr batches"
      by (rule transition_batch_Inr)
    with assms(1) Inr columns_of_moved show ?thesis
      by (auto simp: Move_Batch try_op_def pinned_def job_rows_def dest!: transition_row_Inr)
  qed (use assms(1) in \<open>simp add: Move_Batch try_op_def\<close>)
next
  case (Move_Merge token now job' status checkpoint code)
  show ?thesis
    using assms(1) by (cases "transition_merge token now job' status checkpoint code db")
      (auto simp: Move_Merge try_op_def pinned_def job_rows_def elim!: transition_merge_Inr)
next
  case (Move_Node token now job' node status checkpoint code)
  show ?thesis
    using assms(1) by (cases "transition_merge_node token now job' node status checkpoint code db")
      (auto simp: Move_Node try_op_def pinned_def job_rows_def elim!: transition_node_Inr)
next
  case (Set_Job job' status token)
  then show ?thesis using assms(1) by (simp add: pinned_def job_rows_def)
next
  case (Discard job')
  then have "job' \<noteq> job" using assms(2) by simp
  moreover from this have "filter (\<lambda>kv. br_job (snd kv) = job) (filter (\<lambda>kv. br_job (snd kv) \<noteq> job') t) =
      filter (\<lambda>kv. br_job (snd kv) = job) t" for t :: "(string \<times> batch_row) list"
    by (auto simp: filter_filter intro: filter_cong)
  ultimately show ?thesis
    using assms(1) map_of_filter_key [of "\<lambda>k. k \<noteq> job'" "an_plans db" job]
    by (simp add: Discard pinned_def discard_analysis_def job_rows_def)
qed

lemma analysis_run_pinned:
  "\<forall>op\<in>set ops. op \<noteq> Discard job \<Longrightarrow> pinned sha256 job p ids bs db \<Longrightarrow>
     pinned sha256 job p ids bs (analysis_run sha256 ops db)"
  unfolding analysis_run_def by (induction ops arbitrary: db) (auto simp: analysis_exec_pinned)

text \<open>A completed batch is final.\<close>

lemma analysis_exec_final:
  assumes "(k, r) \<in> set (an_batches db)" "wk_status r = Work_Completed" "op \<noteq> Discard (br_job r)"
  shows "(k, r) \<in> set (an_batches (analysis_exec sha256 op db))"
proof (cases op)
  case (Load token ids now job stage evidence planned proposed)
  show ?thesis unfolding Load
  proof (rule load_cases)
    fix q cs
    assume "create_plan sha256 ids now job stage evidence planned proposed db =
      Inr ((q, cs), analysis_exec sha256 (Load token ids now job stage evidence planned proposed) db)"
    from create_plan_other(3) [OF this, of "CHR ''x'' # job"] assms(1)
    show "(k, r) \<in> set (an_batches (analysis_exec sha256 (Load token ids now job stage evidence planned proposed) db))"
      by auto
  qed (use assms(1) in simp)
next
  case (Move_Batch token now batch status checkpoint code)
  show ?thesis
    using assms by (cases "transition_batch token now batch status checkpoint code db")
      (auto simp: Move_Batch try_op_def set_update_where elim!: transition_batch_Inr dest!: transition_row_Inr)
next
  case (Move_Merge token now job status checkpoint code)
  show ?thesis
    using assms(1) by (cases "transition_merge token now job status checkpoint code db")
      (auto simp: Move_Merge try_op_def elim!: transition_merge_Inr)
next
  case (Move_Node token now job node status checkpoint code)
  show ?thesis
    using assms(1) by (cases "transition_merge_node token now job node status checkpoint code db")
      (auto simp: Move_Node try_op_def elim!: transition_node_Inr)
qed (use assms in \<open>auto simp: discard_analysis_def\<close>)

lemma analysis_run_final:
  "\<forall>op\<in>set ops. op \<noteq> Discard (br_job r) \<Longrightarrow> (k, r) \<in> set (an_batches db) \<Longrightarrow> wk_status r = Work_Completed \<Longrightarrow>
     (k, r) \<in> set (an_batches (analysis_run sha256 ops db))"
  unfolding analysis_run_def by (induction ops arbitrary: db) (auto simp: analysis_exec_final)

subsection \<open>What a resumed execution gets\<close>

definition analysis_empty :: "(string \<times> string \<times> string option) list \<Rightarrow> string list option \<Rightarrow> analysis_db" where
  "analysis_empty jobs stages =
     \<lparr>an_jobs = jobs, an_stages = stages, an_plans = [], an_batches = [], an_merges = [], an_nodes = []\<rparr>"

lemma analysis_empty_ok [simp]: "analysis_ok (analysis_empty jobs stages)"
  by (simp add: analysis_ok_def analysis_empty_def)

lemma pinned_plan_in:
  assumes "pinned sha256 job p ids bs db" "plan_ok p" "json_ok (plan_as_dict sha256 p)"
  shows "plan_in sha256 db job = Inr (Some (stored_view p))"
  using assms(1) stored_plan_reads [OF assms(2,3)] by (auto simp: pinned_def plan_in_def)

lemma pinned_rows:
  assumes "pinned sha256 job p ids planned db" "analysis_ok db" "1 < length planned" "[] \<notin> set planned"
  shows "batch_rows db job = job_rows db job" "map fst (job_rows db job) = map ids [0..<length planned]"
    "hydrate_batches (batch_rows db job) (concat planned) = Inr (map2 hydrated (job_rows db job) planned)"
proof -
  have rows: "columns_of (job_rows db job) = planned_rows ids 0 planned"
    using assms(1,3) by (simp add: pinned_def)
  show 1: "batch_rows db job = job_rows db job" by (rule batch_rows_planned [OF rows])
  have "map fst (planned_rows ids n bs) = map ids [n..<n + length bs]" for n bs
  proof (induction bs arbitrary: n)
    case (Cons b bs)
    then show ?case by (simp add: upt_conv_Cons del: upt_Suc)
  qed simp
  from this [of 0 planned] rows [symmetric]
  show "map fst (job_rows db job) = map ids [0..<length planned]" by (simp add: columns_of_def comp_def)
  have "\<forall>kv\<in>set (job_rows db job). work_ok (snd kv)" using assms(2) by (simp add: analysis_ok_def job_rows_def)
  from hydrate_batches_planned [OF rows this assms(4)]
  show "hydrate_batches (batch_rows db job) (concat planned) = Inr (map2 hydrated (job_rows db job) planned)"
    by (simp add: 1)
qed

lemma pinned_reload:
  assumes "pinned sha256 job p ids planned db" "analysis_ok db" "plan_ok p" "json_ok (plan_as_dict sha256 p)"
    "length (pl_batches p) = length planned" "[] \<notin> set planned"
    "require_active_job token db job = Inr ()" "pl_document_ir_digest q = pl_document_ir_digest p"
    "pl_profile p = None \<Longrightarrow> pl_profile q = None"
  shows "load_or_create sha256 token ids' now job stage (concat planned) planned' q db =
    Inr ((stored_view p, if length planned \<le> 1 then [] else map2 hydrated (job_rows db job) planned), db)"
proof (cases "length planned \<le> 1")
  case True
  then have "job_rows db job = []" using assms(1) by (simp add: pinned_def columns_of_def)
  then have "batch_rows db job = []" by (simp add: batch_rows_def job_rows_def)
  with True assms(5-9) show ?thesis
    by (cases "pl_profile p") (simp_all add: load_or_create_def pinned_plan_in [OF assms(1,3,4)] reload_plan_def)
next
  case False
  then have long: "1 < length planned" by simp
  note rows = pinned_rows [OF assms(1,2) long assms(6)]
  from rows(2) long have "batch_rows db job \<noteq> []" unfolding rows(1) by (metis length_map length_upt list.size(3) not_less_zero diff_zero)
  with long assms(5-9) show ?thesis
    by (cases "pl_profile p") (simp_all add: load_or_create_def pinned_plan_in [OF assms(1,3,4)] reload_plan_def rows(3))
qed

lemma hydrated_final:
  assumes "pinned sha256 job p ids planned db1" "analysis_ok db1" "pinned sha256 job p ids planned db2" "analysis_ok db2"
    "1 < length planned" "[] \<notin> set planned" "n < length planned"
    "\<And>k r. (k, r) \<in> set (an_batches db1) \<Longrightarrow> wk_status r = Work_Completed \<Longrightarrow> br_job r = job \<Longrightarrow> (k, r) \<in> set (an_batches db2)"
    "ab_status (map2 hydrated (job_rows db1 job) planned ! n) = ''completed''"
  shows "map2 hydrated (job_rows db2 job) planned ! n = map2 hydrated (job_rows db1 job) planned ! n"
proof -
  note rows1 = pinned_rows(2) [OF assms(1,2,5,6)] and rows2 = pinned_rows(2) [OF assms(3,4,5,6)]
  have len: "length (job_rows db1 job) = length planned" "length (job_rows db2 job) = length planned"
    using rows1 rows2 by (metis length_map length_upt diff_zero)+
  obtain k r where kr: "job_rows db1 job ! n = (k, r)" by fastforce
  with assms(7,9) len(1) have completed: "wk_status r = Work_Completed" by (simp add: hydrated_def)
  have "(k, r) \<in> set (job_rows db1 job)" using kr assms(7) len(1) by (metis nth_mem)
  then have "(k, r) \<in> set (job_rows db2 job)" using assms(8) completed by (simp add: job_rows_def)
  moreover have "fst (job_rows db2 job ! n) = k"
    using rows1 rows2 kr assms(7) len by (metis fst_conv nth_map)
  moreover have "distinct (map fst (job_rows db2 job))"
    using assms(4) unfolding job_rows_def analysis_ok_def by (intro distinct_keys_filter) blast
  ultimately have "job_rows db2 job ! n = (k, r)"
    using assms(7) len(2) by (metis eq_key_imp_eq_value nth_mem prod.collapse)
  with kr assms(7) len show ?thesis by simp
qed

lemma completed_batches_survive:
  assumes "pinned sha256 job p ids planned db1" "analysis_ok db1" "pinned sha256 job p ids planned db2" "analysis_ok db2"
    "[] \<notin> set planned"
    "\<And>k r. (k, r) \<in> set (an_batches db1) \<Longrightarrow> wk_status r = Work_Completed \<Longrightarrow> br_job r = job \<Longrightarrow> (k, r) \<in> set (an_batches db2)"
    "hydrate_batches (batch_rows db1 job) (concat planned) = Inr bs1" "n < length bs1"
    "ab_status (bs1 ! n) = ''completed''"
  shows "(if length planned \<le> 1 then [] else map2 hydrated (job_rows db2 job) planned) ! n = bs1 ! n"
proof (cases "length planned \<le> 1")
  case True
  then have "batch_rows db1 job = []" using assms(1) by (simp add: pinned_def columns_of_def job_rows_def batch_rows_def)
  with assms(7,8) show ?thesis by (simp add: hydrate_batches_def store_invalid_def split: if_splits)
next
  case False
  then have long: "1 < length planned" by simp
  from assms(7) pinned_rows(3) [OF assms(1,2) long assms(5)]
  have bs1: "bs1 = map2 hydrated (job_rows db1 job) planned" by simp
  have "map2 hydrated (job_rows db2 job) planned ! n = map2 hydrated (job_rows db1 job) planned ! n"
    by (rule hydrated_final [OF assms(1-4) long assms(5) _ assms(6)]) (use assms(8,9) bs1 in auto)
  with bs1 long show ?thesis by simp
qed

lemma hydrated_columns:
  assumes "length rows = length planned"
  shows "map ab_id (map2 hydrated rows planned) = map fst rows" "map ab_evidence (map2 hydrated rows planned) = planned"
  using assms by (auto simp: hydrated_def intro: nth_equalityI)

text \<open>
  C0 An execution that resumes gets exactly the analysis the first one was pinned to.  Take any
  history of the tables, a first load that pinned job \<open>job\<close> to the plan \<open>p\<close> over batches that
  cover the Evidence, and any operations of any executions after it, other than discarding
  the analysis of the job.  A later load, by an active execution and for the same
  document, returns the plan (its snapshot with sorted keys) with the same batch
  identifiers and the same Evidence in each batch, changes nothing, and every batch that
  was completed at any moment in between comes back as it was then, checkpoint included.
\<close>

theorem resumed_analysis_exact:
  assumes "\<forall>op\<in>set (before @ ops1 @ ops2). op_ok op" and "\<forall>op\<in>set (ops1 @ ops2). op \<noteq> Discard job"
    and "db0 = analysis_run sha256 before (analysis_empty jobs stages)" and "map_of (an_plans db0) job = None"
    and "concat planned = evidence" and "[] \<notin> set planned" and "length (pl_batches p) = length planned"
    and "plan_ok p" and "json_ok (plan_as_dict sha256 p)"
    and "load_or_create sha256 token ids now job stage evidence planned p db0 = Inr ((p, bs), db1)"
    and "db2 = analysis_run sha256 (ops1 @ ops2) db1" and "require_active_job token' db2 job = Inr ()"
    and "pl_document_ir_digest q = pl_document_ir_digest p" and "pl_profile p = None \<Longrightarrow> pl_profile q = None"
  shows "\<exists>bs2. load_or_create sha256 token' ids' now' job stage' evidence planned' q db2 = Inr ((stored_view p, bs2), db2) \<and>
    map ab_id bs2 = map ab_id bs \<and> map ab_evidence bs2 = (if length planned \<le> 1 then [] else planned) \<and>
    (\<forall>bs1 n. hydrate_batches (batch_rows (analysis_run sha256 ops1 db1) job) evidence = Inr bs1 \<longrightarrow>
       n < length bs1 \<longrightarrow> ab_status (bs1 ! n) = ''completed'' \<longrightarrow> bs2 ! n = bs1 ! n)"
proof -
  let ?mid = "analysis_run sha256 ops1 db1"
  have ok0: "analysis_ok db0" unfolding assms(3) using assms(1) by (intro analysis_run_ok) simp_all
  have created: "create_plan sha256 ids now job stage (concat planned) planned p db0 = Inr ((p, bs), db1)"
    using assms(10) by (rule load_or_create_Inr) (use assms(4,5) in \<open>simp_all add: plan_in_def\<close>)
  note start = create_plan_pins [OF created ok0 assms(6)]
  have ok1: "analysis_ok db1" by (rule create_plan_ok [OF created ok0])
  have mid: "analysis_ok ?mid" "pinned sha256 job p ids planned ?mid"
    using assms(1,2) ok1 start(1) by (auto intro: analysis_run_ok analysis_run_pinned)
  have db2: "db2 = analysis_run sha256 ops2 ?mid" using assms(11) by (simp add: analysis_run_def)
  have last: "analysis_ok db2" "pinned sha256 job p ids planned db2"
    unfolding db2 using assms(1,2) mid by (auto intro: analysis_run_ok analysis_run_pinned)
  have survives: "(k, r) \<in> set (an_batches db2)"
    if "(k, r) \<in> set (an_batches ?mid)" "wk_status r = Work_Completed" "br_job r = job" for k r
    unfolding db2 by (rule analysis_run_final) (use assms(2) that in auto)
  let ?bs2 = "if length planned \<le> 1 then [] else map2 hydrated (job_rows db2 job) planned"
  have "load_or_create sha256 token' ids' now' job stage' evidence planned' q db2 = Inr ((stored_view p, ?bs2), db2)"
    using pinned_reload [OF last(2,1) assms(8,9,7,6,12,13)] assms(5,14) by simp
  moreover have "map ab_id ?bs2 = map ab_id bs \<and> map ab_evidence ?bs2 = (if length planned \<le> 1 then [] else planned)"
  proof (cases "length planned \<le> 1")
    case False
    note rows = pinned_rows(2) [OF start(1) ok1 _ assms(6)] pinned_rows(2) [OF last(2,1) _ assms(6)]
    have len: "length (job_rows db1 job) = length planned" "length (job_rows db2 job) = length planned"
      using rows False by (metis length_map length_upt diff_zero not_le)+
    show ?thesis using False rows hydrated_columns [OF len(1)] hydrated_columns [OF len(2)] start(2) by simp
  qed (use start(2) in simp)
  moreover have "?bs2 ! n = bs1 ! n"
    if "hydrate_batches (batch_rows ?mid job) evidence = Inr bs1" "n < length bs1"
      "ab_status (bs1 ! n) = ''completed''" for bs1 n
    by (rule completed_batches_survive [OF mid(2,1) last(2,1) assms(6) survives that [folded assms(5)]])
  ultimately show ?thesis by blast
qed

text \<open>
  C37 An execution that is no longer the active one of its job writes nothing and reads nothing:
  whatever it calls, the tables stay as they are and the call raises.
\<close>

theorem superseded_execution_is_fenced:
  assumes "map_of (an_jobs db) job \<noteq> Some (''running'', Some token)"
  shows "(\<forall>ids now stage evidence planned p. load_or_create sha256 (Some token) ids now job stage evidence planned p db =
      Inl (ImportError ''knowledge_reanalysis_interrupted'')) \<and>
    (\<forall>batch row. map_of (an_batches db) batch = Some row \<longrightarrow> br_job row = job \<longrightarrow>
      (\<forall>now status checkpoint code. analysis_exec sha256 (Move_Batch (Some token) now batch status checkpoint code) db = db)) \<and>
    (\<forall>now node status checkpoint code.
      analysis_exec sha256 (Move_Merge (Some token) now job status checkpoint code) db = db \<and>
      analysis_exec sha256 (Move_Node (Some token) now job node status checkpoint code) db = db) \<and>
    (\<forall>node. merge_checkpoint (Some token) db job = Inl (ImportError ''knowledge_reanalysis_interrupted'') \<and>
      merge_node_checkpoint (Some token) db job node = Inl (ImportError ''knowledge_reanalysis_interrupted''))"
proof -
  have "require_active_job (Some token) db job = Inl (ImportError ''knowledge_reanalysis_interrupted'')"
    using assms by (simp add: require_active_job_def require_def)
  then show ?thesis
    by (simp add: load_or_create_def transition_batch_def transition_merge_def transition_merge_node_def
        merge_checkpoint_def merge_node_checkpoint_def try_op_def)
qed

text \<open>
  Two batches; the first is completed, the second is running when the process stops, and the
  job is then taken over by another execution.
\<close>

definition resume_plan :: analysis_plan where
  "resume_plan = sample_plan\<lparr>pl_batches :=
     [\<lparr>bp_ordinal = 0, bp_evidence_ids = [''e0''], bp_section_paths = [[''H'']], bp_estimated_tokens = 9\<rparr>,
      \<lparr>bp_ordinal = 1, bp_evidence_ids = [''e1''], bp_section_paths = [[''H'']], bp_estimated_tokens = 9\<rparr>]\<rparr>"

definition resume_ids :: "nat \<Rightarrow> string" where
  "resume_ids n = ''b'' @ nat_digits n"

definition resume_jobs :: "(string \<times> string \<times> string option) list" where
  "resume_jobs = [(''job'', ''running'', Some ''first'')]"

definition resume_ops :: "analysis_op list" where
  "resume_ops = [Move_Batch (Some ''first'') ''t1'' ''b0'' Work_Running None None,
     Move_Batch (Some ''first'') ''t2'' ''b0'' Work_Completed (Some [(''batch_id'', JStr ''b0'')]) None,
     Move_Batch (Some ''first'') ''t3'' ''b1'' Work_Running None None,
     Set_Job ''job'' ''running'' (Some ''second'')]"

definition resume_load :: "((analysis_plan \<times> analysis_batch list) \<times> analysis_db) res" where
  "resume_load = load_or_create (\<lambda>s. ''d'') (Some ''first'') resume_ids ''t0'' ''job'' ''stage'' sample_evidence
     (map (\<lambda>x. [x]) sample_evidence) resume_plan (analysis_empty resume_jobs None)"

lemma resume_plan_storable: "plan_ok resume_plan" "json_ok (plan_as_dict (\<lambda>s. ''d'') resume_plan)"
proof -
  show "plan_ok resume_plan"
    by (simp add: resume_plan_def plan_ok_def sample_plan_def batch_plan_ok_def stored_node_ok_def ep_ok_def sample_profile_def)
  show "json_ok (plan_as_dict (\<lambda>s. ''d'') resume_plan)"
    by code_simp
qed

lemma resume_loaded:
  "\<exists>bs db1. resume_load = Inr ((resume_plan, bs), db1) \<and> an_jobs db1 = resume_jobs \<and> map ab_id bs = [''b0'', ''b1'']"
proof -
  have d: "nat_digits 0 = ''0''" "nat_digits (Suc 0) = ''1''" by code_simp+
  show ?thesis
    by (simp add: resume_load_def load_or_create_def plan_in_def require_active_job_def analysis_empty_def resume_jobs_def
        create_plan_def insert_plan_def insert_row_def parents_known_def insert_analysis_def sample_evidence_def
        resume_ids_def d hydrate_batches_def batch_rows_def hydrate_row_def json_text_of_strings_def
        resume_plan_def sample_plan_def stored_checkpoint_def numeral_2_eq_2
        new_batch_row_def Let_def)
qed

lemma analysis_exec_jobs:
  "(\<And>job status token. op \<noteq> Set_Job job status token) \<Longrightarrow> an_jobs (analysis_exec sha256 op db) = an_jobs db"
proof (cases op)
  case (Load token ids now job stage evidence planned proposed)
  show ?thesis unfolding Load
  proof (rule load_cases)
    fix q cs
    assume "create_plan sha256 ids now job stage evidence planned proposed db =
      Inr ((q, cs), analysis_exec sha256 (Load token ids now job stage evidence planned proposed) db)"
    then show "an_jobs (analysis_exec sha256 (Load token ids now job stage evidence planned proposed) db) = an_jobs db"
      by (rule create_plan_Inr) (auto elim!: insert_analysis_Inr)
  qed simp
qed (auto simp: try_op_def discard_analysis_def split: sum.splits
    elim!: transition_batch_Inr transition_merge_Inr transition_node_Inr)

theorem resumed_analysis_exact_witness:
  "\<exists>p bs db1 bs2. resume_load = Inr ((p, bs), db1) \<and>
     load_or_create (\<lambda>s. ''d'') (Some ''second'') resume_ids ''t9'' ''job'' ''stage'' sample_evidence [] resume_plan
       (analysis_run (\<lambda>s. ''d'') resume_ops db1) =
       Inr ((stored_view p, bs2), analysis_run (\<lambda>s. ''d'') resume_ops db1) \<and>
     map ab_id bs2 = [''b0'', ''b1''] \<and> map (map fst \<circ> ab_evidence) bs2 = [[''e0''], [''e1'']]"
proof -
  let ?sha = "\<lambda>s :: string. ''d''" and ?planned = "map (\<lambda>x. [x]) sample_evidence"
  obtain bs db1 where load: "resume_load = Inr ((resume_plan, bs), db1)" and jobs: "an_jobs db1 = resume_jobs"
    and ids: "map ab_id bs = [''b0'', ''b1'']"
    using resume_loaded by (elim exE conjE) (rule that)
  have active: "require_active_job (Some ''second'') (analysis_run ?sha resume_ops db1) ''job'' = Inr ()"
    by (simp add: analysis_run_def resume_ops_def require_active_job_def analysis_exec_jobs jobs resume_jobs_def
        del: analysis_exec.simps(2))
  have "\<exists>bs2. load_or_create ?sha (Some ''second'') resume_ids ''t9'' ''job'' ''stage'' sample_evidence [] resume_plan
      (analysis_run ?sha resume_ops db1) = Inr ((stored_view resume_plan, bs2), analysis_run ?sha resume_ops db1) \<and>
    map ab_id bs2 = map ab_id bs \<and>
    map ab_evidence bs2 = (if length ?planned \<le> 1 then [] else ?planned) \<and>
    (\<forall>bs1 n. hydrate_batches (batch_rows (analysis_run ?sha resume_ops db1) ''job'') sample_evidence = Inr bs1 \<longrightarrow>
       n < length bs1 \<longrightarrow> ab_status (bs1 ! n) = ''completed'' \<longrightarrow> bs2 ! n = bs1 ! n)"
  proof (rule resumed_analysis_exact [where before = "[]" and ?ops1.0 = resume_ops and ?ops2.0 = "[]"])
    show "\<forall>op\<in>set ([] @ resume_ops @ []). op_ok op" "\<forall>op\<in>set (resume_ops @ []). op \<noteq> Discard ''job''"
      by (simp_all add: resume_ops_def move_ok_def)
    show "analysis_empty resume_jobs None = analysis_run ?sha [] (analysis_empty resume_jobs None)"
      by (simp add: analysis_run_def)
    show "plan_ok resume_plan" "json_ok (plan_as_dict ?sha resume_plan)" by (rule resume_plan_storable)+
  qed (use load active in \<open>simp_all add: resume_load_def analysis_empty_def resume_plan_def sample_evidence_def\<close>)
  then obtain bs2 where bs2: "load_or_create ?sha (Some ''second'') resume_ids ''t9'' ''job'' ''stage'' sample_evidence []
      resume_plan (analysis_run ?sha resume_ops db1) =
        Inr ((stored_view resume_plan, bs2), analysis_run ?sha resume_ops db1)"
    "map ab_id bs2 = map ab_id bs" "map ab_evidence bs2 = (if length ?planned \<le> 1 then [] else ?planned)"
    by blast
  have "map (map fst \<circ> ab_evidence) bs2 = map (map fst) (map ab_evidence bs2)" by simp
  also have "\<dots> = [[''e0''], [''e1'']]" by (simp add: bs2(3) sample_evidence_def)
  finally show ?thesis using load ids bs2 by metis
qed

theorem superseded_execution_is_fenced_witness:
  "load_or_create (\<lambda>s. ''d'') (Some ''first'') resume_ids ''t1'' ''job'' ''stage'' sample_evidence [] resume_plan
     (analysis_empty [(''job'', ''running'', Some ''second'')] None) =
   Inl (ImportError ''knowledge_reanalysis_interrupted'')"
  using superseded_execution_is_fenced
    [of "analysis_empty [(''job'', ''running'', Some ''second'')] None" "''job''" "''first''"]
  by (simp add: analysis_empty_def)

end
