(* ===== verification/ThreeWayMerge.thy ===== *)
theory ThreeWayMerge
  imports TextForms "HOL-Library.Product_Lexorder"
begin

section \<open>Incoming changes applied to a working draft\<close>

text \<open>
  \<open>openkb/knowledge/reconciliation/three_way_merge.py\<close>: the edits that lead from the published
  text to the incoming one are applied to the user's draft of the same text, paragraph by
  paragraph, unless both change the same paragraphs.  The differences are those of
  \<open>difflib.SequenceMatcher\<close> without a junk heuristic, which is modelled here.
\<close>

subsection \<open>\<open>SequenceMatcher\<close>\<close>

fun common_run :: "'a list \<Rightarrow> 'a list \<Rightarrow> nat" where
  "common_run (x # xs) (y # ys) = (if x = y then Suc (common_run xs ys) else 0)"
| "common_run xs ys = 0"

text \<open>
  The longest block common to both lists, the first in the left list among those and then the
  first in the right one: its two positions and its length.
\<close>

definition longest_match :: "'a list \<Rightarrow> 'a list \<Rightarrow> nat \<times> nat \<times> nat" where
  "longest_match xs ys =
     foldl (\<lambda>(i, j, k) (i', j'). let k' = common_run (drop i' xs) (drop j' ys) in if k < k' then (i', j', k') else (i, j, k))
       (0, 0, 0) (List.product [0..<length xs] [0..<length ys])"

lemma common_run_take: "take (common_run xs ys) xs = take (common_run xs ys) ys"
  by (induction xs ys rule: common_run.induct) auto

lemma common_run_le: "common_run xs ys \<le> length xs" "common_run xs ys \<le> length ys"
  by (induction xs ys rule: common_run.induct) auto

lemma common_run_same [simp]: "common_run xs xs = length xs"
  by (induction xs) auto

definition match_ok :: "'a list \<Rightarrow> 'a list \<Rightarrow> nat \<times> nat \<times> nat \<Rightarrow> bool" where
  "match_ok xs ys = (\<lambda>(i, j, k). i + k \<le> length xs \<and> j + k \<le> length ys \<and> take k (drop i xs) = take k (drop j ys))"

lemma longest_match_ok: "match_ok xs ys (longest_match xs ys)"
proof -
  let ?step = "\<lambda>(i, j, k) (i', j'). let k' = common_run (drop i' xs) (drop j' ys) in if k < k' then (i', j', k') else (i, j, k)"
  have "match_ok xs ys (foldl ?step m ps)"
    if "match_ok xs ys m" "set ps \<subseteq> {..<length xs} \<times> {..<length ys}" for m ps
    using that
  proof (induction ps arbitrary: m)
    case (Cons p ps)
    obtain i' j' where p: "p = (i', j')" by fastforce
    have "i' < length xs" "j' < length ys" using Cons.prems(2) by (simp_all add: p)
    then have "i' + common_run (drop i' xs) (drop j' ys) \<le> length xs" "j' + common_run (drop i' xs) (drop j' ys) \<le> length ys"
      using common_run_le [of "drop i' xs" "drop j' ys"] unfolding length_drop by linarith+
    then have "match_ok xs ys (i', j', common_run (drop i' xs) (drop j' ys))"
      using common_run_take [of "drop i' xs" "drop j' ys"] by (simp add: match_ok_def)
    then have "match_ok xs ys (?step m p)" using Cons.prems(1) by (auto simp: p Let_def split: prod.split)
    then show ?case using Cons by simp
  qed simp
  then have "match_ok xs ys (foldl ?step (0, 0, 0) (List.product [0..<length xs] [0..<length ys]))"
    by (simp add: match_ok_def subset_iff)
  then show ?thesis by (simp only: longest_match_def)
qed

lemma longest_match_fits:
  assumes "longest_match xs ys = (i, j, k)"
  shows "i + k \<le> length xs" "j + k \<le> length ys" "take k (drop i xs) = take k (drop j ys)"
  using longest_match_ok [of xs ys] by (simp_all add: assms match_ok_def)

lemma longest_match_same: "longest_match xs xs = (0, 0, length xs)"
proof (cases xs)
  case (Cons x xs')
  let ?step = "\<lambda>(i, j, k) (i', j'). let k' = common_run (drop i' xs) (drop j' xs) in if k < k' then (i', j', k') else (i, j, k)"
  have stay: "foldl ?step (0, 0, length xs) ps = (0, 0, length xs)" for ps
  proof (induction ps)
    case (Cons p ps)
    obtain i' j' where p: "p = (i', j')" by fastforce
    have "common_run (drop i' xs) (drop j' xs) \<le> length xs"
      using common_run_le(1) [of "drop i' xs" "drop j' xs"] by simp
    then show ?case using Cons by (simp add: p Let_def)
  qed simp
  have "List.product [0..<length xs] [0..<length xs] = (0, 0) # tl (List.product [0..<length xs] [0..<length xs])"
    using Cons by (simp add: upt_rec)
  then have "longest_match xs xs = foldl ?step (?step (0, 0, 0) (0, 0)) (tl (List.product [0..<length xs] [0..<length xs]))"
    unfolding longest_match_def by (metis (no_types, lifting) foldl_Cons)
  also have "?step (0, 0, 0) (0, 0) = (0, 0, length xs)" using Cons by simp
  finally show ?thesis by (simp only: stay)
qed (simp add: longest_match_def)

text \<open>
  \<open>get_matching_blocks\<close>: the longest match, and the same on both of its sides.  The source works
  through a queue and sorts the blocks at the end; their order is the one of the recursion.
  Adjacent blocks are joined, and a block of length zero ends the list.
\<close>

function matching_blocks :: "nat \<Rightarrow> nat \<Rightarrow> 'a list \<Rightarrow> 'a list \<Rightarrow> (nat \<times> nat \<times> nat) list" where
  "matching_blocks i0 j0 xs ys =
     (case longest_match xs ys of
        (i, j, k) \<Rightarrow>
          if k = 0 then []
          else matching_blocks i0 j0 (take i xs) (take j ys) @
               (i0 + i, j0 + j, k) # matching_blocks (i0 + i + k) (j0 + j + k) (drop (i + k) xs) (drop (j + k) ys))"
  by pat_completeness auto
termination
  by (relation "measure (\<lambda>(i0, j0, xs, ys). length xs)")
    (auto dest!: longest_match_fits(1) [OF sym])

declare matching_blocks.simps [simp del]

fun join_adjacent :: "nat \<times> nat \<times> nat \<Rightarrow> (nat \<times> nat \<times> nat) list \<Rightarrow> (nat \<times> nat \<times> nat) list" where
  "join_adjacent (i, j, k) [] = (if k = 0 then [] else [(i, j, k)])"
| "join_adjacent (i, j, k) ((i', j', k') # blocks) =
     (if i + k = i' \<and> j + k = j' then join_adjacent (i, j, k + k') blocks
      else (if k = 0 then [] else [(i, j, k)]) @ join_adjacent (i', j', k') blocks)"

definition get_matching_blocks :: "'a list \<Rightarrow> 'a list \<Rightarrow> (nat \<times> nat \<times> nat) list" where
  "get_matching_blocks xs ys =
     join_adjacent (0, 0, 0) (matching_blocks 0 0 xs ys) @ [(length xs, length ys, 0)]"

text \<open>\<open>get_opcodes\<close> without the \<open>equal\<close> ones, which the merge skips: the ranges that differ.\<close>

fun differing_ranges :: "nat \<Rightarrow> nat \<Rightarrow> (nat \<times> nat \<times> nat) list \<Rightarrow> (nat \<times> nat \<times> nat \<times> nat) list" where
  "differing_ranges i j [] = []"
| "differing_ranges i j ((ai, bj, n) # blocks) =
     (if i < ai \<or> j < bj then [(i, ai, j, bj)] else []) @ differing_ranges (ai + n) (bj + n) blocks"

subsection \<open>What the blocks are\<close>

definition slice :: "nat \<Rightarrow> nat \<Rightarrow> 'a list \<Rightarrow> 'a list" where
  "slice i j xs = take (j - i) (drop i xs)"

lemma slice_append: "i \<le> j \<Longrightarrow> j \<le> k \<Longrightarrow> slice i j xs @ slice j k xs = slice i k xs"
  using take_add [of "j - i" "k - j" "drop i xs"] by (simp add: slice_def)

lemma slice_drop: "i \<le> j \<Longrightarrow> slice i j xs @ drop j xs = drop i xs"
  unfolding slice_def by (metis append_take_drop_id drop_drop le_add_diff_inverse2)

lemma slice_empty [simp]: "slice i i xs = []"
  by (simp add: slice_def)

lemma map_slice: "map f (slice i j xs) = slice i j (map f xs)"
  by (simp add: slice_def take_map drop_map)

lemma slice_length [simp]: "length xs \<le> j \<Longrightarrow> slice i j xs = drop i xs"
  by (simp add: slice_def)

text \<open>Blocks of equal elements between two pairs of positions, in order.\<close>

fun blocks_between ::
  "'a list \<Rightarrow> 'a list \<Rightarrow> nat \<Rightarrow> nat \<Rightarrow> (nat \<times> nat \<times> nat) list \<Rightarrow> nat \<Rightarrow> nat \<Rightarrow> bool" where
  "blocks_between xs ys i j [] i' j' \<longleftrightarrow> i \<le> i' \<and> j \<le> j'"
| "blocks_between xs ys i j ((a, b, n) # blocks) i' j' \<longleftrightarrow>
     i \<le> a \<and> j \<le> b \<and> slice a (a + n) xs = slice b (b + n) ys \<and> blocks_between xs ys (a + n) (b + n) blocks i' j'"

lemma blocks_between_append:
  "blocks_between xs ys i j bs i1 j1 \<Longrightarrow> blocks_between xs ys i1 j1 cs i' j' \<Longrightarrow>
     blocks_between xs ys i j (bs @ cs) i' j'"
proof (induction xs ys i j bs i1 j1 rule: blocks_between.induct)
  case (1 xs ys i j i1 j1)
  then show ?case by (cases cs) auto
qed auto

lemma blocks_between_weaken:
  "blocks_between xs ys i j bs i' j' \<Longrightarrow> i0 \<le> i \<Longrightarrow> j0 \<le> j \<Longrightarrow> blocks_between xs ys i0 j0 bs i' j'"
  by (cases bs) auto

lemma slice_infix:
  "length px = i0 \<Longrightarrow> i + k \<le> length xs \<Longrightarrow> slice (i0 + i) (i0 + i + k) (px @ xs @ sx) = take k (drop i xs)"
  by (simp add: slice_def)

lemma take_drop_append: "take n xs @ drop n xs @ ys = xs @ ys"
  using append_take_drop_id [of n xs] by (metis append_assoc)

lemma matching_blocks_between:
  "blocks_between (px @ xs @ sx) (py @ ys @ sy) (length px) (length py)
     (matching_blocks (length px) (length py) xs ys) (length px + length xs) (length py + length ys)"
proof (induction "length xs" arbitrary: px xs sx py ys sy rule: less_induct)
  case less
  obtain i j k where m: "longest_match xs ys = (i, j, k)" using prod_cases3 by blast
  note ok = longest_match_fits [OF m]
  show ?case
  proof (cases "k = 0")
    case True
    then show ?thesis by (subst matching_blocks.simps) (simp add: m)
  next
    case False
    have left: "blocks_between (px @ take i xs @ (drop i xs @ sx)) (py @ take j ys @ (drop j ys @ sy)) (length px) (length py)
        (matching_blocks (length px) (length py) (take i xs) (take j ys))
        (length px + length (take i xs)) (length py + length (take j ys))"
      by (rule less.hyps) (use ok False in auto)
    have right: "blocks_between ((px @ take (i + k) xs) @ drop (i + k) xs @ sx) ((py @ take (j + k) ys) @ drop (j + k) ys @ sy)
        (length (px @ take (i + k) xs)) (length (py @ take (j + k) ys))
        (matching_blocks (length (px @ take (i + k) xs)) (length (py @ take (j + k) ys)) (drop (i + k) xs) (drop (j + k) ys))
        (length (px @ take (i + k) xs) + length (drop (i + k) xs)) (length (py @ take (j + k) ys) + length (drop (j + k) ys))"
      by (rule less.hyps) (use ok False in auto)
    have equal: "slice (length px + i) (length px + i + k) (px @ xs @ sx) = slice (length py + j) (length py + j + k) (py @ ys @ sy)"
      using ok by (simp add: slice_infix)
    have "blocks_between (px @ xs @ sx) (py @ ys @ sy) (length px + i) (length py + j)
        ((length px + i, length py + j, k) # matching_blocks (length px + i + k) (length py + j + k) (drop (i + k) xs) (drop (j + k) ys))
        (length px + length xs) (length py + length ys)"
      using right equal ok by (simp add: add.assoc take_drop_append)
    with left ok show ?thesis
      by (subst matching_blocks.simps) (simp add: m False blocks_between_append take_drop_append)
  qed
qed

lemma join_adjacent_between:
  "blocks_between xs ys i j ((a, b, n) # bs) i' j' \<Longrightarrow> blocks_between xs ys i j (join_adjacent (a, b, n) bs) i' j'"
proof (induction bs arbitrary: i j a b n)
  case Nil
  then show ?case by auto
next
  case (Cons block bs)
  obtain a' b' n' where block: "block = (a', b', n')" using prod_cases3 by blast
  show ?case
  proof (cases "a + n = a' \<and> b + n = b'")
    case True
    then have next_block: "a' = a + n" "b' = b + n" by simp_all
    have "slice a (a + n + n') xs = slice b (b + n + n') ys"
      using Cons.prems slice_append [of a "a + n" "a + n + n'" xs] slice_append [of b "b + n" "b + n + n'" ys]
      by (simp add: block next_block)
    with Cons.prems have "blocks_between xs ys i j ((a, b, n + n') # bs) i' j'"
      by (simp add: block next_block add.assoc)
    from Cons.IH [OF this] show ?thesis by (simp add: block next_block)
  next
    case False
    with Cons.prems show ?thesis
      using Cons.IH [of "a + n" "b + n" a' b' n'] blocks_between_weaken [of xs ys "a + n" "b + n" _ i' j' i j]
      by (auto simp: block)
  qed
qed

lemma join_adjacent_positive:
  "list_all (\<lambda>(a, b, n). 0 < n) bs \<Longrightarrow> list_all (\<lambda>(a, b, n). 0 < n) (join_adjacent m bs)"
  by (induction m bs rule: join_adjacent.induct) auto

lemma matching_blocks_positive: "list_all (\<lambda>(a, b, n). 0 < n) (matching_blocks i0 j0 xs ys)"
proof (induction i0 j0 xs ys rule: matching_blocks.induct)
  case (1 i0 j0 xs ys)
  obtain i j k where m: "longest_match xs ys = (i, j, k)" using prod_cases3 by blast
  show ?case
    by (subst matching_blocks.simps) (use 1 [OF m [symmetric] refl] in \<open>auto simp: m\<close>)
qed

lemma joined_blocks:
  "blocks_between xs ys 0 0 (join_adjacent (0, 0, 0) (matching_blocks 0 0 xs ys)) (length xs) (length ys)"
  "list_all (\<lambda>(a, b, n). 0 < n) (join_adjacent (0, 0, 0) (matching_blocks 0 0 xs ys))"
proof -
  have "blocks_between xs ys 0 0 ((0, 0, 0) # matching_blocks 0 0 xs ys) (length xs) (length ys)"
    using matching_blocks_between [of "[]" xs "[]" "[]" ys "[]"] by simp
  then show "blocks_between xs ys 0 0 (join_adjacent (0, 0, 0) (matching_blocks 0 0 xs ys)) (length xs) (length ys)"
    by (rule join_adjacent_between)
  show "list_all (\<lambda>(a, b, n). 0 < n) (join_adjacent (0, 0, 0) (matching_blocks 0 0 xs ys))"
    by (rule join_adjacent_positive [OF matching_blocks_positive])
qed

lemma no_difference: "differing_ranges 0 0 (get_matching_blocks xs xs) = []"
proof (cases "xs = []")
  case False
  then show ?thesis
    by (simp add: get_matching_blocks_def matching_blocks.simps [of 0 0 xs] longest_match_same)
      (simp add: matching_blocks.simps longest_match_def)
qed (simp add: get_matching_blocks_def matching_blocks.simps longest_match_def)

subsection \<open>Hunks\<close>

datatype merge_side = Draft | Incoming

record merge_hunk =
  hk_start :: nat
  hk_end :: nat
  hk_text :: "string list"
  hk_side :: merge_side

definition markdown_units :: "string \<Rightarrow> string list" where
  "markdown_units v = map py_strip (filter (\<lambda>unit. py_strip unit \<noteq> []) (split_blank_lines v))"

definition merge_unit_identity :: "(string \<Rightarrow> string) \<Rightarrow> bool \<Rightarrow> string \<Rightarrow> string" where
  "merge_unit_identity casefold ignore_source_markers v =
     normalized_knowledge_content casefold (if ignore_source_markers then strip_knowledge_source_markers v else v)"

definition edit_hunks ::
  "(string \<Rightarrow> string) \<Rightarrow> string list \<Rightarrow> string list \<Rightarrow> merge_side \<Rightarrow> bool \<Rightarrow> merge_hunk list" where
  "edit_hunks casefold baseline changed side ignore_source_markers =
     (let key = map (merge_unit_identity casefold ignore_source_markers) in
      map (\<lambda>(i, i', j, j'). \<lparr>hk_start = i, hk_end = i', hk_text = slice j j' changed, hk_side = side\<rparr>)
        (differing_ranges 0 0 (get_matching_blocks (key baseline) (key changed))))"

definition equivalent_hunks :: "(string \<Rightarrow> string) \<Rightarrow> merge_hunk \<Rightarrow> merge_hunk \<Rightarrow> bool" where
  "equivalent_hunks casefold l r \<longleftrightarrow>
     hk_start l = hk_start r \<and> hk_end l = hk_end r \<and>
     map (merge_unit_identity casefold True) (hk_text l) = map (merge_unit_identity casefold True) (hk_text r)"

text \<open>
  \<open>_FIELD_PATTERN.match\<close>: white space, an optional list bullet with white space, a key of 1 to
  80 characters up to a colon of either width, and a value.  The matcher backtracks from the
  longest choice at each position; \<open>longest_first\<close> lists those choices.
\<close>

definition field_colon :: "string \<Rightarrow> bool" where
  "field_colon u \<longleftrightarrow> u = '':'' \<or> u = [CHR 0xEF, CHR 0xBC, CHR 0x9A]"

definition longest_first :: "(string \<Rightarrow> bool) \<Rightarrow> nat \<Rightarrow> string list \<Rightarrow> nat list" where
  "longest_first P bound us = rev [0..<Suc (min bound (length (takeWhile P us)))]"

definition field_value_follows :: "string list \<Rightarrow> bool" where
  "field_value_follows us \<longleftrightarrow>
     (case dropWhile py_isspace us of
        c # rest \<Rightarrow> field_colon c \<and> dropWhile py_isspace rest \<noteq> []
      | [] \<Rightarrow> False)"

definition field_key_at :: "string list \<Rightarrow> string option" where
  "field_key_at us =
     (case find (\<lambda>n. 0 < n \<and> field_value_follows (drop n us))
             (longest_first (\<lambda>u. \<not> field_colon u \<and> u \<noteq> [CHR 0x0A]) 80 us) of
        Some n \<Rightarrow> Some (concat (take n us))
      | None \<Rightarrow> None)"

definition first_some :: "('a \<Rightarrow> 'b option) \<Rightarrow> 'a list \<Rightarrow> 'b option" where
  "first_some f xs = foldr (\<lambda>x rest. case f x of Some y \<Rightarrow> Some y | None \<Rightarrow> rest) xs None"

definition after_bullet :: "string list \<Rightarrow> string option" where
  "after_bullet us =
     (case (case us of
              b # rest \<Rightarrow>
                if b = ''-'' \<or> b = ''*'' \<or> b = ''+''
                then first_some (\<lambda>n. field_key_at (drop n rest)) (longest_first py_isspace (length rest) rest)
                else None
            | [] \<Rightarrow> None) of
        Some key \<Rightarrow> Some key
      | None \<Rightarrow> field_key_at us)"

definition field_key :: "string \<Rightarrow> string option" where
  "field_key v =
     (let us = py_chars v in
      first_some (\<lambda>n. after_bullet (drop n us)) (longest_first py_isspace (length us) us))"

definition replacement_field_keys ::
  "(string \<Rightarrow> string) \<Rightarrow> (string \<Rightarrow> string) \<Rightarrow> string list \<Rightarrow> string set" where
  "replacement_field_keys nfkc casefold units =
     set (concat (map (\<lambda>v.
       case field_key (strip_knowledge_source_markers v) of
         None \<Rightarrow> []
       | Some key \<Rightarrow> (case snd (normalize_knowledge_title nfkc casefold key) of [] \<Rightarrow> [] | k \<Rightarrow> [k])) units))"

subsection \<open>The merge\<close>

definition empty_range :: "merge_hunk \<Rightarrow> bool" where
  "empty_range h \<longleftrightarrow> hk_start h = hk_end h"

definition overlapping_hunks ::
  "(string \<Rightarrow> string) \<Rightarrow> (string \<Rightarrow> string) \<Rightarrow> merge_hunk \<Rightarrow> merge_hunk \<Rightarrow> bool" where
  "overlapping_hunks nfkc casefold l r \<longleftrightarrow>
     (if empty_range l \<and> empty_range r
      then replacement_field_keys nfkc casefold (hk_text l) \<inter> replacement_field_keys nfkc casefold (hk_text r) \<noteq> {}
      else if empty_range l then hk_start r < hk_start l \<and> hk_start l < hk_end r
      else if empty_range r then hk_start l < hk_start r \<and> hk_start r < hk_end l
      else max (hk_start l) (hk_start r) < min (hk_end l) (hk_end r))"

abbreviation manual_merge_required :: error where
  "manual_merge_required \<equiv> ImportError ''knowledge_reconciliation_manual_merge_required''"

definition conflicting_hunks ::
  "(string \<Rightarrow> string) \<Rightarrow> (string \<Rightarrow> string) \<Rightarrow> merge_hunk list \<Rightarrow> merge_hunk list \<Rightarrow> bool" where
  "conflicting_hunks nfkc casefold draft incoming \<longleftrightarrow>
     list_ex (\<lambda>d. list_ex (\<lambda>i. \<not> equivalent_hunks casefold d i \<and> overlapping_hunks nfkc casefold d i) incoming) draft"

definition merge_key :: "merge_hunk \<Rightarrow> nat \<times> nat \<times> nat" where
  "merge_key h = (hk_start h, if empty_range h then 0 else 1, if hk_side h = Draft then 0 else 1)"

definition merged_hunks :: "(string \<Rightarrow> string) \<Rightarrow> merge_hunk list \<Rightarrow> merge_hunk list \<Rightarrow> merge_hunk list" where
  "merged_hunks casefold draft incoming =
     sort_key merge_key
       (draft @ filter (\<lambda>i. \<not> list_ex (equivalent_hunks casefold i) draft) incoming)"

fun apply_hunks :: "string list \<Rightarrow> nat \<Rightarrow> merge_hunk list \<Rightarrow> string list res" where
  "apply_hunks baseline cursor [] = Inr (drop cursor baseline)"
| "apply_hunks baseline cursor (h # hs) =
     (if hk_start h < cursor then Inl manual_merge_required
      else res_bind (apply_hunks baseline (hk_end h) hs) (\<lambda>rest.
        Inr (slice cursor (hk_start h) baseline @ hk_text h @ rest)))"

definition apply_incoming_to_draft ::
  "(string \<Rightarrow> string) \<Rightarrow> (string \<Rightarrow> string) \<Rightarrow> string \<Rightarrow> string \<Rightarrow> string \<Rightarrow> string res" where
  "apply_incoming_to_draft nfkc casefold baseline draft incoming =
     (let base = markdown_units baseline;
          draft_hunks = edit_hunks casefold base (markdown_units draft) Draft False;
          incoming_hunks = edit_hunks casefold base (markdown_units incoming) Incoming True in
      if conflicting_hunks nfkc casefold draft_hunks incoming_hunks then Inl manual_merge_required
      else res_bind (apply_hunks base 0 (merged_hunks casefold draft_hunks incoming_hunks)) (\<lambda>units.
        Inr (py_join [CHR 0x0A, CHR 0x0A] units)))"

subsection \<open>What the hunks of one side do\<close>

lemma apply_differences:
  assumes "blocks_between (map key base) (map key changed) i j bs (length base) (length changed)" "c \<le> i"
  shows "\<exists>us. apply_hunks base c
      (map (\<lambda>(i, i', j, j'). \<lparr>hk_start = i, hk_end = i', hk_text = slice j j' changed, hk_side = side\<rparr>)
        (differing_ranges i j (bs @ [(length base, length changed, 0)]))) = Inr (slice c i base @ us) \<and>
      map key us = drop j (map key changed)"
  using assms
proof (induction bs arbitrary: c i j)
  case Nil
  then have "i \<le> length base" "j \<le> length changed" by simp_all
  with Nil show ?case
    by (auto simp: slice_append map_slice drop_map)
next
  case (Cons block bs)
  obtain a b n where block: "block = (a, b, n)" using prod_cases3 by blast
  from Cons.prems have le: "i \<le> a" "j \<le> b" "c \<le> i"
    and equal: "slice a (a + n) (map key base) = slice b (b + n) (map key changed)"
    and rest: "blocks_between (map key base) (map key changed) (a + n) (b + n) bs (length base) (length changed)"
    by (simp_all add: block)
  have joined: "slice j b (map key changed) @ slice b (b + n) (map key changed) @ drop (b + n) (map key changed)
      = drop j (map key changed)"
    using le by (simp add: slice_drop)
  show ?case
  proof (cases "i < a \<or> j < b")
    case True
    from Cons.IH [OF rest, of a] obtain us where us: "apply_hunks base a
        (map (\<lambda>(i, i', j, j'). \<lparr>hk_start = i, hk_end = i', hk_text = slice j j' changed, hk_side = side\<rparr>)
          (differing_ranges (a + n) (b + n) (bs @ [(length base, length changed, 0)]))) = Inr (slice a (a + n) base @ us)"
      "map key us = drop (b + n) (map key changed)" by auto
    with True le show ?thesis
      by (intro exI [of _ "slice j b changed @ slice a (a + n) base @ us"])
        (simp add: block map_slice equal joined)
  next
    case False
    with le have same: "i = a" "j = b" by simp_all
    from Cons.IH [OF rest, of c] le obtain us where us: "apply_hunks base c
        (map (\<lambda>(i, i', j, j'). \<lparr>hk_start = i, hk_end = i', hk_text = slice j j' changed, hk_side = side\<rparr>)
          (differing_ranges (a + n) (b + n) (bs @ [(length base, length changed, 0)]))) = Inr (slice c (a + n) base @ us)"
      "map key us = drop (b + n) (map key changed)" by auto
    have "slice c (a + n) base = slice c i base @ slice a (a + n) base"
      using le by (simp add: same slice_append)
    with us joined show ?thesis
      by (intro exI [of _ "slice a (a + n) base @ us"]) (simp add: block same map_slice equal)
  qed
qed

lemma apply_one_side:
  "\<exists>us. apply_hunks base 0 (edit_hunks casefold base changed side ignore) = Inr us \<and>
     map (merge_unit_identity casefold ignore) us = map (merge_unit_identity casefold ignore) changed"
  using apply_differences [of "merge_unit_identity casefold ignore" base changed 0 0 _ 0 side]
    joined_blocks(1) [of "map (merge_unit_identity casefold ignore) base" "map (merge_unit_identity casefold ignore) changed"]
  by (simp add: edit_hunks_def get_matching_blocks_def Let_def)

lemma differing_ranges_apart:
  "blocks_between xs ys i j bs n m \<Longrightarrow> list_all (\<lambda>(a, b, n). 0 < n) bs \<Longrightarrow>
     sorted_wrt (\<lambda>r r'. fst (snd r) < fst r') (differing_ranges i j (bs @ [(n, m, 0)])) \<and>
     (\<forall>r\<in>set (differing_ranges i j (bs @ [(n, m, 0)])). i \<le> fst r \<and> fst r \<le> fst (snd r))"
proof (induction bs arbitrary: i j)
  case (Cons block bs)
  obtain a b k where block: "block = (a, b, k)" using prod_cases3 by blast
  let ?rest = "differing_ranges (a + k) (b + k) (bs @ [(n, m, 0)])"
  from Cons.prems have k: "i \<le> a" "0 < k" "blocks_between xs ys (a + k) (b + k) bs n m" by (simp_all add: block)
  with Cons.IH [of "a + k" "b + k"] Cons.prems(2)
  have rest: "sorted_wrt (\<lambda>r r'. fst (snd r) < fst r') ?rest" "\<forall>r\<in>set ?rest. a + k \<le> fst r \<and> fst r \<le> fst (snd r)"
    by simp_all
  have "\<forall>r\<in>set ?rest. a < fst r \<and> i \<le> fst r \<and> fst r \<le> fst (snd r)"
    using rest(2) k(1,2) by fastforce
  with rest(1) k(1) show ?case by (auto simp: block less_imp_le)
qed auto

definition apart :: "merge_hunk \<Rightarrow> merge_hunk \<Rightarrow> bool" where
  "apart h h' \<longleftrightarrow> hk_end h \<le> hk_start h'"

lemma edit_hunks_apart:
  "sorted_wrt (\<lambda>h h'. hk_end h < hk_start h') (edit_hunks casefold base changed side ignore)"
  "h \<in> set (edit_hunks casefold base changed side ignore) \<Longrightarrow> hk_start h \<le> hk_end h \<and> hk_side h = side"
  using differing_ranges_apart [OF joined_blocks, of "map (merge_unit_identity casefold ignore) base"
      "map (merge_unit_identity casefold ignore) changed"]
  by (auto simp: edit_hunks_def get_matching_blocks_def Let_def sorted_wrt_map case_prod_unfold)

lemma apart_distinct:
  "sorted_wrt (\<lambda>h h'. hk_end h < hk_start h') hs \<Longrightarrow> \<forall>h\<in>set hs. hk_start h \<le> hk_end h \<Longrightarrow> distinct hs"
  by (induction hs) fastforce+

lemma apart_either_way:
  "sorted_wrt (\<lambda>h h'. hk_end h < hk_start h') hs \<Longrightarrow> h \<in> set hs \<Longrightarrow> h' \<in> set hs \<Longrightarrow>
     h = h' \<or> hk_end h < hk_start h' \<or> hk_end h' < hk_start h"
  by (induction hs) auto

lemma sorted_wrt_distinct_pairs:
  assumes "sorted_wrt P xs" "distinct xs" "\<And>x y. x \<in> set xs \<Longrightarrow> y \<in> set xs \<Longrightarrow> x \<noteq> y \<Longrightarrow> P x y \<Longrightarrow> Q x y"
  shows "sorted_wrt Q xs"
  using assms by (auto simp: sorted_wrt_iff_nth_less nth_eq_iff_index_eq)

lemma not_overlapping_apart:
  assumes "\<not> overlapping_hunks nfkc casefold h h'" "merge_key h \<le> merge_key h'"
    "hk_start h \<le> hk_end h" "hk_start h' \<le> hk_end h'"
  shows "apart h h'"
  using assms
  by (auto simp: overlapping_hunks_def apart_def merge_key_def empty_range_def split: if_splits)

lemma overlapping_sym: "overlapping_hunks nfkc casefold h h' \<longleftrightarrow> overlapping_hunks nfkc casefold h' h"
  by (auto simp: overlapping_hunks_def max.commute min.commute)

lemma merged_hunks_apart:
  assumes "\<not> conflicting_hunks nfkc casefold D I"
    and D: "sorted_wrt (\<lambda>h h'. hk_end h < hk_start h') D" "\<forall>h\<in>set D. hk_start h \<le> hk_end h \<and> hk_side h = Draft"
    and I: "sorted_wrt (\<lambda>h h'. hk_end h < hk_start h') I" "\<forall>h\<in>set I. hk_start h \<le> hk_end h \<and> hk_side h = Incoming"
  shows "sorted_wrt apart (merged_hunks casefold D I)"
proof (rule sorted_wrt_distinct_pairs)
  let ?M = "merged_hunks casefold D I"
  show "sorted_wrt (\<lambda>x y. merge_key x \<le> merge_key y) ?M"
    unfolding merged_hunks_def by (metis sorted_map sorted_sort_key)
  show "distinct ?M"
    using apart_distinct [OF D(1)] apart_distinct [OF I(1)] D(2) I(2)
    by (fastforce simp: merged_hunks_def)
  fix h h' assume h: "h \<in> set ?M" "h' \<in> set ?M" "h \<noteq> h'" "merge_key h \<le> merge_key h'"
  have members: "set ?M \<subseteq> set D \<union> {i \<in> set I. \<forall>d\<in>set D. \<not> equivalent_hunks casefold i d}"
    by (auto simp: merged_hunks_def list_ex_iff)
  have sym: "equivalent_hunks casefold a b \<longleftrightarrow> equivalent_hunks casefold b a" for a b
    by (auto simp: equivalent_hunks_def)
  have ranges: "hk_start h \<le> hk_end h" "hk_start h' \<le> hk_end h'" using h members D(2) I(2) by blast+
  have starts: "hk_start h \<le> hk_start h'" using h(4) by (auto simp: merge_key_def)
  have free: "\<not> overlapping_hunks nfkc casefold d i"
    if "d \<in> set D" "i \<in> {i \<in> set I. \<forall>d\<in>set D. \<not> equivalent_hunks casefold i d}" for d i
    using assms(1) that sym [of d i] unfolding conflicting_hunks_def list_ex_iff by auto
  consider "h \<in> set D" "h' \<in> set D" | "h \<in> set I" "h' \<in> set I"
    | "\<not> overlapping_hunks nfkc casefold h h'"
  proof (cases "h \<in> set D"; cases "h' \<in> set D")
    assume "h \<in> set D" "h' \<notin> set D"
    with h(2) members free [of h h'] that(3) show thesis by auto
  next
    assume "h \<notin> set D" "h' \<in> set D"
    with h(1) members free [of h' h] that(3) overlapping_sym show thesis by auto
  next
    assume "h \<notin> set D" "h' \<notin> set D"
    with h(1,2) members that(2) show thesis by auto
  qed (rule that(1))
  then show "apart h h'"
  proof cases
    case 1
    with apart_either_way [OF D(1)] h(3) have "hk_end h < hk_start h' \<or> hk_end h' < hk_start h" by blast
    with starts ranges show ?thesis by (auto simp: apart_def)
  next
    case 2
    with apart_either_way [OF I(1)] h(3) have "hk_end h < hk_start h' \<or> hk_end h' < hk_start h" by blast
    with starts ranges show ?thesis by (auto simp: apart_def)
  next
    case 3
    then show ?thesis using not_overlapping_apart h(4) ranges by blast
  qed
qed

lemma apply_apart_hunks:
  assumes "sorted_wrt apart hs" "\<forall>h\<in>set hs. c \<le> hk_start h \<and> hk_start h \<le> hk_end h"
  shows "\<exists>us. apply_hunks base c hs = Inr us \<and> (\<forall>h\<in>set hs. sublist (hk_text h) us) \<and>
    (\<forall>p<length base. c \<le> p \<and> (\<forall>h\<in>set hs. \<not> (hk_start h \<le> p \<and> p < hk_end h)) \<longrightarrow> base ! p \<in> set us) \<and>
    set us \<subseteq> set base \<union> (\<Union>h\<in>set hs. set (hk_text h))"
  using assms
proof (induction hs arbitrary: c)
  case Nil
  have "base ! p \<in> set (drop c base)" if "p < length base" "c \<le> p" for p
    using that nth_mem [of "p - c" "drop c base"] by (simp add: diff_less_mono)
  then show ?case by (auto dest: in_set_dropD)
next
  case (Cons h hs)
  then have c: "c \<le> hk_start h" "hk_start h \<le> hk_end h" by simp_all
  have "\<forall>h'\<in>set hs. hk_end h \<le> hk_start h' \<and> hk_start h' \<le> hk_end h'"
    using Cons.prems by (auto simp: apart_def)
  with Cons.IH [of "hk_end h"] Cons.prems obtain us where us: "apply_hunks base (hk_end h) hs = Inr us"
    "\<forall>h\<in>set hs. sublist (hk_text h) us"
    "\<forall>p<length base. hk_end h \<le> p \<and> (\<forall>h\<in>set hs. \<not> (hk_start h \<le> p \<and> p < hk_end h)) \<longrightarrow> base ! p \<in> set us"
    "set us \<subseteq> set base \<union> (\<Union>h\<in>set hs. set (hk_text h))" by auto
  let ?us = "slice c (hk_start h) base @ hk_text h @ us"
  have "apply_hunks base c (h # hs) = Inr ?us" using c us(1) by simp
  moreover have "sublist us ?us" using suffix_imp_sublist [of us ?us] by (simp add: suffix_def)
  then have "\<forall>h'\<in>set (h # hs). sublist (hk_text h') ?us"
    using us(2) by (auto intro: sublist_order.order.trans)
  moreover have "base ! p \<in> set ?us"
    if "p < length base" "c \<le> p" "\<forall>h'\<in>set (h # hs). \<not> (hk_start h' \<le> p \<and> p < hk_end h')" for p
  proof (cases "p < hk_start h")
    case True
    with that have "base ! p = slice c (hk_start h) base ! (p - c)" "p - c < length (slice c (hk_start h) base)"
      by (auto simp: slice_def)
    then show ?thesis by (metis Un_iff nth_mem set_append)
  next
    case False
    with that us(3) show ?thesis by auto
  qed
  moreover have "set ?us \<subseteq> set base \<union> (\<Union>h'\<in>set (h # hs). set (hk_text h'))"
    using us(4) by (auto simp: slice_def dest: in_set_takeD in_set_dropD)
  ultimately show ?case by blast
qed

subsection \<open>Paragraphs of the merged text\<close>

fun blank_inside :: "string \<Rightarrow> bool" where
  "blank_inside (c # d # s) \<longleftrightarrow> (c = CHR 0x0A \<and> d = CHR 0x0A) \<or> blank_inside (d # s)"
| "blank_inside s \<longleftrightarrow> False"

lemma blank_inside_append: "blank_inside v \<Longrightarrow> blank_inside (u @ v @ w)"
proof (induction u)
  case Nil
  then show ?case by (induction v rule: blank_inside.induct) auto
next
  case (Cons c u)
  then show ?case by (cases "u @ v @ w") auto
qed

lemma split_blank_lines_parts:
  "u \<in> set (split_blank_lines s) \<Longrightarrow> \<not> blank_inside u"
proof -
  have "(\<forall>u\<in>set (split_blank_lines s). \<not> blank_inside u) \<and>
      (\<exists>u us. split_blank_lines s = u # us \<and> prefix u s)"
  proof (induction s rule: split_blank_lines.induct)
    case (3 c d s)
    show ?case
    proof (cases "c = CHR 0x0A \<and> d = CHR 0x0A")
      case True
      with 3 show ?thesis by auto
    next
      case False
      with 3 obtain u us where us: "split_blank_lines (d # s) = u # us" "prefix u (d # s)"
        "\<forall>u\<in>set (split_blank_lines (d # s)). \<not> blank_inside u" by auto
      then have "\<not> blank_inside (c # u)" using False by (cases u) auto
      with us False show ?thesis by auto
    qed
  qed auto
  then show "u \<in> set (split_blank_lines s) \<Longrightarrow> \<not> blank_inside u" by blast
qed

lemma split_blank_lines_unit:
  "\<not> blank_inside u \<Longrightarrow> split_blank_lines u = [u]"
  by (induction u rule: split_blank_lines.induct) auto

lemma split_blank_lines_first:
  "\<not> blank_inside u \<Longrightarrow> u = [] \<or> last u \<noteq> CHR 0x0A \<Longrightarrow>
     split_blank_lines (u @ CHR 0x0A # CHR 0x0A # s) = u # split_blank_lines s"
proof (induction u rule: split_blank_lines.induct)
  case (3 c d u)
  then show ?case by (auto split: if_splits)
qed auto

definition proper_unit :: "string \<Rightarrow> bool" where
  "proper_unit u \<longleftrightarrow> u \<noteq> [] \<and> py_strip u = u \<and> \<not> blank_inside u"

lemma proper_unit_last: "proper_unit u \<Longrightarrow> last u \<noteq> CHR 0x0A"
proof
  assume u: "proper_unit u" and last: "last u = CHR 0x0A"
  then have "u \<noteq> []" by (simp add: proper_unit_def)
  then have ne: "py_chars u \<noteq> []" by (metis concat.simps(1) concat_py_chars)
  obtain c t where ct: "last (py_chars u) = c # t" "list_all utf8_continuation t"
    using code_points_py_chars [of u] ne
    by (cases "last (py_chars u)") (auto simp: code_points_def code_point_def list_all_iff dest: last_in_set)
  have "u = concat (butlast (py_chars u)) @ last (py_chars u)"
    by (metis append_butlast_last_id concat.simps(1,2) concat_append concat_py_chars ne append_Nil2)
  with ct last have "last (c # t) = CHR 0x0A" by (metis last_appendR list.distinct(1))
  then have "last (py_chars u) = [CHR 0x0A]"
    using ct by (cases t rule: rev_cases) (auto simp: utf8_continuation_def)
  then have "py_isspace (last (py_chars u))" by (simp add: py_isspace_def)
  moreover have "last (py_chars (py_strip u)) = last (py_chars u)" using u by (simp add: proper_unit_def)
  moreover have "\<not> py_isspace (last (py_chars (py_strip u)))"
    using u ne unfolding py_chars_strip proper_unit_def
    by (metis hd_dropWhile last_rev py_chars_strip rev.simps(1))
  ultimately show False by simp
qed

lemma markdown_units_proper: "u \<in> set (markdown_units v) \<Longrightarrow> proper_unit u"
proof -
  assume "u \<in> set (markdown_units v)"
  then obtain w where w: "w \<in> set (split_blank_lines v)" "u = py_strip w" "py_strip w \<noteq> []"
    by (auto simp: markdown_units_def)
  obtain us vs where "w = us @ py_strip w @ vs" using py_strip_infix by blast
  with split_blank_lines_parts [OF w(1)] have "\<not> blank_inside (py_strip w)" using blank_inside_append by metis
  with w show "proper_unit u" by (simp add: proper_unit_def)
qed

lemma split_joined_units:
  "\<forall>u\<in>set us. proper_unit u \<Longrightarrow> us \<noteq> [] \<Longrightarrow> split_blank_lines (py_join [CHR 0x0A, CHR 0x0A] us) = us"
proof (induction us)
  case (Cons u us)
  then show ?case
  proof (cases us)
    case Nil
    with Cons show ?thesis by (simp add: proper_unit_def split_blank_lines_unit)
  next
    case (Cons u' us')
    with Cons.prems Cons.IH have "split_blank_lines (py_join [CHR 0x0A, CHR 0x0A] us) = us" by simp
    with Cons Cons.prems proper_unit_last [of u] show ?thesis
      by (simp add: split_blank_lines_first proper_unit_def)
  qed
qed simp

lemma markdown_units_join:
  assumes "\<forall>u\<in>set us. proper_unit u"
  shows "markdown_units (py_join [CHR 0x0A, CHR 0x0A] us) = us"
proof (cases us)
  case Nil
  then show ?thesis by (simp add: markdown_units_def py_strip_def)
next
  case (Cons u us')
  then have "filter (\<lambda>unit. py_strip unit \<noteq> []) us = us" "map py_strip us = us"
    using assms by (auto simp: proper_unit_def filter_id_conv intro: map_idI)
  with split_joined_units [OF assms] Cons show ?thesis by (simp add: markdown_units_def)
qed

subsection \<open>The merge of both sides\<close>

abbreviation "draft_edits casefold baseline draft \<equiv>
  edit_hunks casefold (markdown_units baseline) (markdown_units draft) Draft False"

abbreviation "incoming_edits casefold baseline incoming \<equiv>
  edit_hunks casefold (markdown_units baseline) (markdown_units incoming) Incoming True"

lemma edit_hunks_text: "h \<in> set (edit_hunks casefold base changed side ignore) \<Longrightarrow> set (hk_text h) \<subseteq> set changed"
  by (auto simp: edit_hunks_def Let_def slice_def dest!: in_set_takeD dest: in_set_dropD)

lemma edit_hunks_none:
  "map (merge_unit_identity casefold ignore) changed = map (merge_unit_identity casefold ignore) base \<Longrightarrow>
     edit_hunks casefold base changed side ignore = []"
  by (simp add: edit_hunks_def no_difference)

lemma merged_hunks_members:
  "set (merged_hunks casefold D I) \<subseteq> set D \<union> set I" "set D \<subseteq> set (merged_hunks casefold D I)"
  "i \<in> set I \<Longrightarrow> i \<in> set (merged_hunks casefold D I) \<or> (\<exists>d\<in>set D. equivalent_hunks casefold i d)"
  by (auto simp: merged_hunks_def list_ex_iff)

lemma edits_merge:
  fixes nfkc casefold baseline draft incoming
  defines "base \<equiv> markdown_units baseline" and "D \<equiv> draft_edits casefold baseline draft"
    and "I \<equiv> incoming_edits casefold baseline incoming"
  assumes "\<not> conflicting_hunks nfkc casefold D I"
  shows "\<exists>us. apply_hunks base 0 (merged_hunks casefold D I) = Inr us \<and>
    apply_incoming_to_draft nfkc casefold baseline draft incoming = Inr (py_join [CHR 0x0A, CHR 0x0A] us) \<and>
    markdown_units (py_join [CHR 0x0A, CHR 0x0A] us) = us \<and>
    (\<forall>h\<in>set (merged_hunks casefold D I). sublist (hk_text h) us) \<and>
    (\<forall>p<length base. (\<forall>h\<in>set (merged_hunks casefold D I). \<not> (hk_start h \<le> p \<and> p < hk_end h)) \<longrightarrow> base ! p \<in> set us)"
proof -
  let ?M = "merged_hunks casefold D I"
  have D: "sorted_wrt (\<lambda>h h'. hk_end h < hk_start h') D" "\<forall>h\<in>set D. hk_start h \<le> hk_end h \<and> hk_side h = Draft"
    and I: "sorted_wrt (\<lambda>h h'. hk_end h < hk_start h') I" "\<forall>h\<in>set I. hk_start h \<le> hk_end h \<and> hk_side h = Incoming"
    using edit_hunks_apart by (auto simp: D_def I_def)
  have apart: "sorted_wrt apart ?M" by (rule merged_hunks_apart [OF assms(4) D I])
  have ranges: "\<forall>h\<in>set ?M. 0 \<le> hk_start h \<and> hk_start h \<le> hk_end h"
    using D(2) I(2) merged_hunks_members(1) [of casefold D I] by blast
  from apply_apart_hunks [OF apart ranges, of base] obtain us where us: "apply_hunks base 0 ?M = Inr us"
    "\<forall>h\<in>set ?M. sublist (hk_text h) us"
    "\<forall>p<length base. 0 \<le> p \<and> (\<forall>h\<in>set ?M. \<not> (hk_start h \<le> p \<and> p < hk_end h)) \<longrightarrow> base ! p \<in> set us"
    "set us \<subseteq> set base \<union> (\<Union>h\<in>set ?M. set (hk_text h))" by blast
  have "(\<Union>h\<in>set ?M. set (hk_text h)) \<subseteq> set (markdown_units draft) \<union> set (markdown_units incoming)"
    using merged_hunks_members(1) [of casefold D I] edit_hunks_text by (fastforce simp: D_def I_def)
  with us(4) have "\<forall>u\<in>set us. proper_unit u" using markdown_units_proper unfolding base_def by blast
  then have "markdown_units (py_join [CHR 0x0A, CHR 0x0A] us) = us" by (rule markdown_units_join)
  moreover have "apply_incoming_to_draft nfkc casefold baseline draft incoming = Inr (py_join [CHR 0x0A, CHR 0x0A] us)"
    using assms(4) us(1) by (simp add: apply_incoming_to_draft_def Let_def base_def D_def I_def)
  ultimately show ?thesis using us by auto
qed

lemma merged_hunks_one_side:
  "sorted_wrt (\<lambda>h h'. hk_end h < hk_start h') hs \<Longrightarrow> \<forall>h\<in>set hs. hk_start h \<le> hk_end h \<Longrightarrow>
     sort_key merge_key hs = hs"
proof (rule sort_key_id_if_sorted)
  assume "sorted_wrt (\<lambda>h h'. hk_end h < hk_start h') hs" "\<forall>h\<in>set hs. hk_start h \<le> hk_end h"
  then show "sorted (map merge_key hs)"
  proof (induction hs)
    case (Cons h hs)
    then have "\<forall>h'\<in>set hs. merge_key h \<le> merge_key h'"
      by (fastforce simp: merge_key_def)
    with Cons show ?case by simp
  qed simp
qed

lemma merged_hunks_draft_only: "merged_hunks casefold (draft_edits casefold baseline draft) [] = draft_edits casefold baseline draft"
  using edit_hunks_apart by (simp add: merged_hunks_def merged_hunks_one_side)

lemma merged_hunks_incoming_only:
  "merged_hunks casefold [] (incoming_edits casefold baseline incoming) = incoming_edits casefold baseline incoming"
  using edit_hunks_apart by (simp add: merged_hunks_def merged_hunks_one_side)

text \<open>
  C12 The merge refuses exactly the texts that need the user.  It raises, always the same error,
  if and only if some edit of the draft and some edit of the incoming text overlap and are not
  the same edit; the loop's own check never adds a refusal.
\<close>

theorem merge_refuses_exactly_conflicts:
  "apply_incoming_to_draft nfkc casefold baseline draft incoming = Inl e \<longleftrightarrow>
     e = manual_merge_required \<and>
     conflicting_hunks nfkc casefold (draft_edits casefold baseline draft) (incoming_edits casefold baseline incoming)"
proof (cases "conflicting_hunks nfkc casefold (draft_edits casefold baseline draft) (incoming_edits casefold baseline incoming)")
  case True
  then show ?thesis by (auto simp: apply_incoming_to_draft_def Let_def)
next
  case False
  with edits_merge [OF False] show ?thesis by auto
qed

text \<open>
  C11 A merge keeps what both sides wrote.  Paragraphs are compared by their identity
  (\<open>merge_unit_identity\<close>): white space and letter case do not count, nor the source markers of
  the incoming text, and an edit that differs in nothing else is none (\<open>case_only_edit_discarded\<close>).
  The paragraphs of the merged text contain, each as one run, the replacement of every edit of
  the draft and of every incoming edit (or of the same edit of the draft), and every published
  paragraph no edit touches.  If the incoming text changes no identity, the merged text has
  paragraph by paragraph the identities of the draft; if the draft changes none, those of the
  incoming text.
\<close>

theorem merge_keeps_both_sides:
  assumes "apply_incoming_to_draft nfkc casefold baseline draft incoming = Inr text"
  defines "units \<equiv> markdown_units text" and "base \<equiv> markdown_units baseline"
    and "D \<equiv> draft_edits casefold baseline draft" and "I \<equiv> incoming_edits casefold baseline incoming"
  shows "(\<forall>d\<in>set D. sublist (hk_text d) units) \<and>
    (\<forall>i\<in>set I. sublist (hk_text i) units \<or> (\<exists>d\<in>set D. equivalent_hunks casefold i d)) \<and>
    (\<forall>p<length base. (\<forall>h\<in>set D \<union> set I. \<not> (hk_start h \<le> p \<and> p < hk_end h)) \<longrightarrow> base ! p \<in> set units) \<and>
    (map (merge_unit_identity casefold True) (markdown_units incoming) = map (merge_unit_identity casefold True) base \<longrightarrow>
       map (merge_unit_identity casefold False) units = map (merge_unit_identity casefold False) (markdown_units draft)) \<and>
    (map (merge_unit_identity casefold False) (markdown_units draft) = map (merge_unit_identity casefold False) base \<longrightarrow>
       map (merge_unit_identity casefold True) units = map (merge_unit_identity casefold True) (markdown_units incoming))"
proof -
  have "\<not> conflicting_hunks nfkc casefold D I"
    using assms(1) by (auto simp: apply_incoming_to_draft_def Let_def D_def I_def split: if_splits)
  from edits_merge [OF this [unfolded D_def I_def]] assms(1) have m: "apply_hunks base 0 (merged_hunks casefold D I) = Inr units"
    "\<forall>h\<in>set (merged_hunks casefold D I). sublist (hk_text h) units"
    "\<forall>p<length base. (\<forall>h\<in>set (merged_hunks casefold D I). \<not> (hk_start h \<le> p \<and> p < hk_end h)) \<longrightarrow> base ! p \<in> set units"
    unfolding units_def base_def D_def I_def by auto
  note members = merged_hunks_members(1) [of casefold D I] merged_hunks_members(2) [where D = D and casefold = casefold and I = I] merged_hunks_members(3) [where I = I and D = D and casefold = casefold]
  have "map (merge_unit_identity casefold False) units = map (merge_unit_identity casefold False) (markdown_units draft)"
    if "map (merge_unit_identity casefold True) (markdown_units incoming) = map (merge_unit_identity casefold True) base"
  proof -
    have "I = []" using that by (simp add: I_def base_def edit_hunks_none)
    with m(1) apply_one_side [of base casefold "markdown_units draft" Draft False] show ?thesis
      by (auto simp: D_def base_def merged_hunks_draft_only)
  qed
  moreover have "map (merge_unit_identity casefold True) units = map (merge_unit_identity casefold True) (markdown_units incoming)"
    if "map (merge_unit_identity casefold False) (markdown_units draft) = map (merge_unit_identity casefold False) base"
  proof -
    have "D = []" using that by (simp add: D_def base_def edit_hunks_none)
    with m(1) apply_one_side [of base casefold "markdown_units incoming" Incoming True] show ?thesis
      by (auto simp: I_def base_def merged_hunks_incoming_only)
  qed
  ultimately show ?thesis using m(2,3) members by blast
qed

definition lines_of :: "string list \<Rightarrow> string" where
  "lines_of = py_join [CHR 0x0A, CHR 0x0A]"

lemma merge_sample:
  "apply_incoming_to_draft (\<lambda>s. s) (\<lambda>s. s) (lines_of [''a'', ''b'', ''c'']) (lines_of [''a'', ''x'', ''b'', ''c''])
     (lines_of [''a'', ''b'', ''d'']) = Inr (lines_of [''a'', ''x'', ''b'', ''d''])"
  by code_simp

theorem merge_keeps_both_sides_witness:
  "list_all (\<lambda>d. sublist (hk_text d) (markdown_units (lines_of [''a'', ''x'', ''b'', ''d''])))
     (draft_edits (\<lambda>s. s) (lines_of [''a'', ''b'', ''c'']) (lines_of [''a'', ''x'', ''b'', ''c'']))"
  using merge_keeps_both_sides [OF merge_sample] by (simp add: list_all_iff)

text \<open>
  An edit of the draft that changes only case or white space is not an edit for the merge: the
  merged text repeats the published paragraph instead.
\<close>

lemma case_only_edit_discarded:
  assumes "map (merge_unit_identity casefold False) (markdown_units draft) = map (merge_unit_identity casefold False) (markdown_units baseline)"
  shows "apply_incoming_to_draft nfkc casefold baseline draft baseline = Inr (lines_of (markdown_units baseline))"
proof -
  have "draft_edits casefold baseline draft = []" "incoming_edits casefold baseline baseline = []"
    using assms by (simp_all add: edit_hunks_none)
  then show ?thesis
    by (simp add: apply_incoming_to_draft_def conflicting_hunks_def merged_hunks_def lines_of_def)
qed

end
