(* ===== verification/AnalysisResult.thy ===== *)
theory AnalysisResult
  imports TextForms JsonText PagePlanning "HOL-Library.Product_Lexorder"
begin

section \<open>Knowledge Analysis results\<close>

text \<open>
  \<open>openkb/knowledge/analysis/service.py\<close> and \<open>validation.py\<close>: the validated result of one
  analysis, its JSON form, and the parser that accepts a response of the model or a checkpoint.
  \<open>nfc\<close>, \<open>nfkc\<close> and \<open>casefold\<close> are the Unicode operations of Python.
\<close>

subsection \<open>Data\<close>

record claim_applicability =
  ka_dimension :: string
  ka_value :: string
  ka_sources :: "string list"

record analysis_claim =
  kc_text :: string
  kc_sources :: "string list"
  kc_applicability :: "claim_applicability list"

record summary_unit =
  ks_label :: string
  ks_text :: string
  ks_sources :: "string list"

datatype candidate_kind = Concept | Entity | Procedure

datatype candidate_admission = Admit | Review | Exclude

record candidate =
  kd_kind :: candidate_kind
  kd_title :: string
  kd_aliases :: "string list"
  kd_labels :: "string list"
  kd_claims :: "analysis_claim list"
  kd_admission :: candidate_admission

datatype analysis_scope = Document_Scope | Batch_Scope

record knowledge_analysis =
  an_description :: string
  an_concepts :: "candidate list"
  an_entities :: "candidate list"
  an_scope :: analysis_scope
  an_procedures :: "candidate list"
  an_summary :: "summary_unit list"

definition an_candidates :: "knowledge_analysis \<Rightarrow> candidate list" where
  "an_candidates a = an_concepts a @ an_entities a @ an_procedures a"

fun kind_text :: "candidate_kind \<Rightarrow> string" where
  "kind_text Concept = ''concept''"
| "kind_text Entity = ''entity''"
| "kind_text Procedure = ''procedure''"

fun admission_text :: "candidate_admission \<Rightarrow> string" where
  "admission_text Admit = ''admit''"
| "admission_text Review = ''review''"
| "admission_text Exclude = ''exclude''"

fun scope_text :: "analysis_scope \<Rightarrow> string" where
  "scope_text Document_Scope = ''document''"
| "scope_text Batch_Scope = ''batch''"

definition analysis_schema_version :: string where
  "analysis_schema_version = ''openkb.knowledge-analysis.v2''"

definition json_strings :: "string list \<Rightarrow> json" where
  "json_strings xs = JList (map JStr xs)"

definition applicability_as_dict :: "claim_applicability \<Rightarrow> json" where
  "applicability_as_dict e =
     JObj [(''dimension'', JStr (ka_dimension e)), (''value'', JStr (ka_value e)),
           (''source_evidence_ids'', json_strings (ka_sources e))]"

definition claim_as_dict :: "analysis_claim \<Rightarrow> json" where
  "claim_as_dict c =
     JObj [(''text'', JStr (kc_text c)), (''source_evidence_ids'', json_strings (kc_sources c)),
           (''applicability'', JList (map applicability_as_dict (kc_applicability c)))]"

definition summary_as_dict :: "summary_unit \<Rightarrow> json" where
  "summary_as_dict u =
     JObj [(''label'', JStr (ks_label u)), (''text'', JStr (ks_text u)),
           (''source_evidence_ids'', json_strings (ks_sources u))]"

definition candidate_as_dict :: "candidate \<Rightarrow> json" where
  "candidate_as_dict d =
     JObj [(''kind'', JStr (kind_text (kd_kind d))), (''title'', JStr (kd_title d)),
           (''aliases'', json_strings (kd_aliases d)), (''identity_labels'', json_strings (kd_labels d)),
           (''admission'', JStr (admission_text (kd_admission d))),
           (''claims'', JList (map claim_as_dict (kd_claims d)))]"

definition analysis_as_dict :: "knowledge_analysis \<Rightarrow> json" where
  "analysis_as_dict a =
     JObj [(''schema_version'', JStr analysis_schema_version), (''analysis_scope'', JStr (scope_text (an_scope a))),
           (''document_description'', JStr (an_description a)),
           (''document_summary'', JList (map summary_as_dict (an_summary a))),
           (''candidates'', JList (map candidate_as_dict (an_candidates a)))]"

subsection \<open>Validation\<close>

definition invalid_response :: "string \<Rightarrow> 'a res" where
  "invalid_response message = Inl (AnalysisInvalid [''Knowledge Analysis '' @ message])"

text \<open>
  \<open>validated_or_default\<close> catches \<open>DesktopImportError\<close>, of which the validation error is a
  subclass; its messages are added unless they are there.  No validator raises another
  \<open>DesktopImportError\<close>.  A \<open>ValueError\<close> is not caught.
\<close>

definition validated_or_default :: "'a res \<Rightarrow> 'a \<Rightarrow> string list \<Rightarrow> ('a \<times> string list) res" where
  "validated_or_default r fallback errors =
     (case r of
        Inr v \<Rightarrow> Inr (v, errors)
      | Inl (AnalysisInvalid messages) \<Rightarrow> Inr (fallback, extend_new errors messages)
      | Inl (ImportError message) \<Rightarrow> Inr (fallback, extend_new errors [message])
      | Inl e \<Rightarrow> Inl e)"

text \<open>\<open>json_object_text\<close>: one complete Markdown fence is removed.\<close>

definition before_last_fence :: "string \<Rightarrow> string" where
  "before_last_fence s =
     (case filter (\<lambda>i. prefix ''```'' (drop i s)) (rev [0..<length s]) of [] \<Rightarrow> s | i # is \<Rightarrow> take i s)"

definition json_object_text :: "string \<Rightarrow> string" where
  "json_object_text content =
     (let stripped = py_strip content in
      if \<not> prefix ''```'' stripped then stripped
      else let body = drop 1 (dropWhile (\<lambda>c. c \<noteq> CHR 0x0A) stripped) in
        py_strip (before_last_fence body))"

definition string_field :: "json \<Rightarrow> string \<Rightarrow> nat \<Rightarrow> bool \<Rightarrow> string res" where
  "string_field v field maximum allow_empty =
     (case v of
        JStr s \<Rightarrow>
          let normalized = py_join '' '' (py_split s) in
          if (normalized = [] \<and> \<not> allow_empty) \<or> maximum < py_len normalized
          then invalid_response (field @ '' is invalid.'') else Inr normalized
      | _ \<Rightarrow> invalid_response (field @ '' is invalid.''))"

text \<open>The loops that collect values without repetition.\<close>

fun collect_new :: "('b \<Rightarrow> 'a res) \<Rightarrow> 'a list \<Rightarrow> 'b list \<Rightarrow> 'a list res" where
  "collect_new f acc [] = Inr acc"
| "collect_new f acc (v # vs) = res_bind (f v) (\<lambda>x. collect_new f (append_new acc x) vs)"

definition string_list :: "json \<Rightarrow> string \<Rightarrow> string list res" where
  "string_list v field =
     (case v of
        JList vs \<Rightarrow>
          if 32 < length vs then invalid_response (field @ '' must contain at most 32 items.'')
          else collect_new (\<lambda>item. string_field item field 160 False) [] vs
      | _ \<Rightarrow> invalid_response (field @ '' are invalid.''))"

definition source_limit_error :: "nat \<Rightarrow> string \<Rightarrow> nat \<Rightarrow> 'a res" where
  "source_limit_error maximum path actual =
     invalid_response (path @ ''.source_evidence_ids has '' @ nat_digits actual @
       '' items; it must reference at most '' @ nat_digits maximum @ '' supplied Evidence IDs.'')"

definition evidence_id :: "string list option \<Rightarrow> string \<Rightarrow> json \<Rightarrow> string res" where
  "evidence_id known path v =
     res_bind (string_field v ''evidence ID'' 160 False) (\<lambda>i.
       if (case known of None \<Rightarrow> False | Some ids \<Rightarrow> i \<notin> set ids)
       then invalid_response (path @ '' references unknown Evidence ID '' @ i @ ''.'') else Inr i)"

definition evidence_ids :: "string list option \<Rightarrow> nat \<Rightarrow> json \<Rightarrow> string \<Rightarrow> string list res" where
  "evidence_ids known maximum v path =
     (case v of
        JList vs \<Rightarrow>
          if maximum < length vs then source_limit_error maximum path (length vs)
          else collect_new (evidence_id known path) [] vs
      | _ \<Rightarrow> invalid_response (path @ ''.source_evidence_ids is invalid.''))"

definition has_fields :: "dict \<Rightarrow> string list \<Rightarrow> bool" where
  "has_fields d names \<longleftrightarrow> set (map fst d) = set names"

definition index_path :: "string \<Rightarrow> nat \<Rightarrow> string" where
  "index_path path i = path @ ''['' @ nat_digits i @ '']''"

definition applicability_entry ::
  "(string \<Rightarrow> string) \<Rightarrow> string list option \<Rightarrow> nat \<Rightarrow> string list \<Rightarrow> string \<Rightarrow> nat \<times> json \<Rightarrow> claim_applicability res" where
  "applicability_entry nfc known maximum claim_ids path =
     (\<lambda>(i, item). let entry_path = index_path path i in
       case item of
         JObj d \<Rightarrow>
           if \<not> has_fields d [''dimension'', ''value'', ''source_evidence_ids'']
           then invalid_response (entry_path @ '' is invalid.'')
           else
             res_bind (normalize_dynamic_semantic_text nfc (dict_get d ''dimension'') (entry_path @ ''.dimension'') 80) (\<lambda>dimension.
             res_bind (normalize_dynamic_semantic_text nfc (dict_get d ''value'') (entry_path @ ''.value'') 160) (\<lambda>scope_value.
             res_bind (evidence_ids known maximum (dict_get d ''source_evidence_ids'') entry_path) (\<lambda>ids.
             if ids = [] \<or> \<not> list_all (\<lambda>i. i \<in> set claim_ids) ids
             then invalid_response (entry_path @ '' Evidence must be a subset of its claim.'')
             else Inr \<lparr>ka_dimension = dimension, ka_value = scope_value, ka_sources = ids\<rparr>)))
       | _ \<Rightarrow> invalid_response (entry_path @ '' is invalid.''))"

definition applicability_list ::
  "(string \<Rightarrow> string) \<Rightarrow> string list option \<Rightarrow> nat \<Rightarrow> string list \<Rightarrow> json \<Rightarrow> string \<Rightarrow> claim_applicability list res" where
  "applicability_list nfc known maximum claim_ids v path =
     (case v of
        JList vs \<Rightarrow>
          if 32 < length vs then invalid_response (path @ '' is invalid.'')
          else collect_new (applicability_entry nfc known maximum claim_ids path) [] (enumerate 0 vs)
      | _ \<Rightarrow> invalid_response (path @ '' is invalid.''))"

definition parse_claim ::
  "(string \<Rightarrow> string) \<Rightarrow> string list option \<Rightarrow> nat \<Rightarrow> json \<Rightarrow> string \<Rightarrow> analysis_claim res" where
  "parse_claim nfc known maximum v path =
     (case v of
        JObj d \<Rightarrow>
          if \<not> has_fields d [''text'', ''source_evidence_ids'', ''applicability'']
          then invalid_response (path @ '' is invalid.'')
          else
            res_bind (string_field (dict_get d ''text'') (path @ ''.text'') 4000 False) (\<lambda>txt.
            res_bind (evidence_ids known maximum (dict_get d ''source_evidence_ids'') path) (\<lambda>ids.
            if ids = [] then invalid_response (path @ '' must cite Evidence.'')
            else res_bind (applicability_list nfc known maximum ids (dict_get d ''applicability'') (path @ ''.applicability'')) (\<lambda>scope.
              Inr \<lparr>kc_text = txt, kc_sources = ids, kc_applicability = scope\<rparr>)))
      | _ \<Rightarrow> invalid_response (path @ '' is invalid.''))"

definition applicability_key :: "(string \<Rightarrow> string) \<Rightarrow> claim_applicability \<Rightarrow> string \<times> string" where
  "applicability_key casefold e = (casefold (ka_dimension e), casefold (ka_value e))"

definition claim_identity :: "(string \<Rightarrow> string) \<Rightarrow> analysis_claim \<Rightarrow> string" where
  "claim_identity casefold c =
     json_dumps (JList (map (\<lambda>(d, v). JList [JStr d, JStr v])
       (sort (map (applicability_key casefold) (kc_applicability c))))) @
     [CHR 0x1F] @ casefold (py_join '' '' (py_split (kc_text c)))"

text \<open>
  Entries by their key, the sources of equal keys united in order.  \<open>key\<close> is the key of
  this module; the merge of several analyses uses another.
\<close>

definition unite_entry :: "claim_applicability \<Rightarrow> claim_applicability \<Rightarrow> claim_applicability" where
  "unite_entry existing e = existing\<lparr>ka_sources := uniq (ka_sources existing @ ka_sources e)\<rparr>"

definition merge_entries ::
  "(claim_applicability \<Rightarrow> string \<times> string) \<Rightarrow> claim_applicability list \<Rightarrow> claim_applicability list \<Rightarrow>
    claim_applicability list" where
  "merge_entries key l r =
     map snd (sort_key fst
       (fold (\<lambda>e by_scope. AList.update (key e)
          (case map_of by_scope (key e) of None \<Rightarrow> e | Some existing \<Rightarrow> unite_entry existing e) by_scope) (l @ r) []))"

fun claims_loop ::
  "(string \<Rightarrow> string) \<Rightarrow> nat \<Rightarrow> (nat \<Rightarrow> json \<Rightarrow> analysis_claim res) \<Rightarrow> (nat \<Rightarrow> string) \<Rightarrow>
    (string \<times> analysis_claim) list \<Rightarrow> (nat \<times> json) list \<Rightarrow> (string \<times> analysis_claim) list res" where
  "claims_loop casefold maximum parse path acc [] = Inr acc"
| "claims_loop casefold maximum parse path acc ((i, v) # rest) =
     res_bind (parse i v) (\<lambda>c.
       case map_of acc (claim_identity casefold c) of
         None \<Rightarrow> claims_loop casefold maximum parse path (acc @ [(claim_identity casefold c, c)]) rest
       | Some existing \<Rightarrow>
           let ids = uniq (kc_sources existing @ kc_sources c) in
           if maximum < length ids then source_limit_error maximum (path i) (length ids)
           else claims_loop casefold maximum parse path
             (AList.update (claim_identity casefold c)
               \<lparr>kc_text = kc_text existing, kc_sources = ids,
                kc_applicability = merge_entries (applicability_key casefold) (kc_applicability existing) (kc_applicability c)\<rparr>
               acc) rest)"

fun kind_of_text :: "string \<Rightarrow> candidate_kind option" where
  "kind_of_text s =
     (if s = ''concept'' then Some Concept else if s = ''entity'' then Some Entity
      else if s = ''procedure'' then Some Procedure else None)"

fun admission_of_text :: "string \<Rightarrow> candidate_admission option" where
  "admission_of_text s =
     (if s = ''admit'' then Some Admit else if s = ''review'' then Some Review
      else if s = ''exclude'' then Some Exclude else None)"

definition choice_field :: "(string \<Rightarrow> 'a option) \<Rightarrow> json \<Rightarrow> string \<Rightarrow> 'a res" where
  "choice_field of_text v field =
     (case v of
        JStr s \<Rightarrow> (case of_text s of None \<Rightarrow> invalid_response (field @ '' is invalid.'') | Some k \<Rightarrow> Inr k)
      | _ \<Rightarrow> invalid_response (field @ '' is invalid.''))"

record analysis_limits =
  lim_candidates :: nat
  lim_claims :: nat
  lim_sources :: nat
  lim_units :: nat

definition analysis_limits_of :: "bool \<Rightarrow> analysis_limits" where
  "analysis_limits_of aggregate =
     \<lparr>lim_candidates = (if aggregate then 4096 else 32 * 3), lim_claims = (if aggregate then 4096 else 64),
      lim_sources = 32, lim_units = (if aggregate then 4096 else 32)\<rparr>"

definition candidate_claims ::
  "(string \<Rightarrow> string) \<Rightarrow> (string \<Rightarrow> string) \<Rightarrow> string list option \<Rightarrow> analysis_limits \<Rightarrow> json \<Rightarrow> string \<Rightarrow>
    analysis_claim list res" where
  "candidate_claims nfc casefold known lim v path =
     (case v of
        JList vs \<Rightarrow>
          if vs = [] then invalid_response (path @ ''.claims is invalid.'')
          else if lim_claims lim < length vs
          then invalid_response (path @ ''.claims must contain at most '' @ nat_digits (lim_claims lim) @ '' items.'')
          else res_bind
            (claims_loop casefold (lim_sources lim)
              (\<lambda>i item. parse_claim nfc known (lim_sources lim) item (index_path (path @ ''.claims'') i))
              (index_path (path @ ''.claims'')) [] (enumerate 0 vs))
            (\<lambda>claims. Inr (map snd claims))
      | _ \<Rightarrow> invalid_response (path @ ''.claims is invalid.''))"

definition candidate_fields :: "string list" where
  "candidate_fields = [''kind'', ''title'', ''aliases'', ''identity_labels'', ''admission'', ''claims'']"

definition parse_candidate ::
  "(string \<Rightarrow> string) \<Rightarrow> (string \<Rightarrow> string) \<Rightarrow> string list option \<Rightarrow> analysis_limits \<Rightarrow> nat \<times> json \<Rightarrow> candidate res" where
  "parse_candidate nfc casefold known lim =
     (\<lambda>(i, item). let path = index_path ''candidates'' i in
       case item of
         JObj d \<Rightarrow>
           if \<not> has_fields d candidate_fields
           then invalid_response (path @ '' fields are invalid; put source_evidence_ids only inside claims.'')
           else
             res_bind (choice_field kind_of_text (dict_get d ''kind'') (path @ ''.kind'')) (\<lambda>kind.
             res_bind (choice_field admission_of_text (dict_get d ''admission'') (path @ ''.admission'')) (\<lambda>admission.
             res_bind (normalize_dynamic_semantic_text nfc (dict_get d ''title'') (path @ ''.title'') 240) (\<lambda>title.
             res_bind (string_list (dict_get d ''aliases'') (path @ ''.aliases'')) (\<lambda>aliases.
             res_bind (string_list (dict_get d ''identity_labels'') (path @ ''.identity_labels'')) (\<lambda>labels.
             res_bind (candidate_claims nfc casefold known lim (dict_get d ''claims'') path) (\<lambda>claims.
             Inr \<lparr>kd_kind = kind, kd_title = title, kd_aliases = aliases, kd_labels = labels,
                  kd_claims = claims, kd_admission = admission\<rparr>))))))
       | _ \<Rightarrow> invalid_response (path @ '' fields are invalid; put source_evidence_ids only inside claims.''))"

definition parse_candidates ::
  "(string \<Rightarrow> string) \<Rightarrow> (string \<Rightarrow> string) \<Rightarrow> string list option \<Rightarrow> analysis_limits \<Rightarrow> json \<Rightarrow> candidate list res" where
  "parse_candidates nfc casefold known lim v =
     (case v of
        JList vs \<Rightarrow>
          if lim_candidates lim < length vs
          then invalid_response (''candidates must contain at most '' @ nat_digits (lim_candidates lim) @ '' items.'')
          else res_map (parse_candidate nfc casefold known lim) (enumerate 0 vs)
      | _ \<Rightarrow> invalid_response ''candidates are invalid.'')"

definition parse_summary_unit ::
  "(string \<Rightarrow> string) \<Rightarrow> string list option \<Rightarrow> nat \<Rightarrow> nat \<times> json \<Rightarrow> summary_unit res" where
  "parse_summary_unit nfc known maximum =
     (\<lambda>(i, item). let path = index_path ''document_summary'' i in
       case item of
         JObj d \<Rightarrow>
           if \<not> has_fields d [''label'', ''text'', ''source_evidence_ids'']
           then invalid_response (path @ '' is invalid.'')
           else
             res_bind (normalize_dynamic_semantic_text nfc (dict_get d ''label'') (path @ ''.label'') 80) (\<lambda>label.
             res_bind (string_field (dict_get d ''text'') (path @ ''.text'') 4000 False) (\<lambda>txt.
             res_bind (evidence_ids known maximum (dict_get d ''source_evidence_ids'') path) (\<lambda>ids.
             if ids = [] then invalid_response (path @ '' must cite Evidence.'')
             else Inr \<lparr>ks_label = label, ks_text = txt, ks_sources = ids\<rparr>)))
       | _ \<Rightarrow> invalid_response (path @ '' is invalid.''))"

definition parse_summary_units ::
  "(string \<Rightarrow> string) \<Rightarrow> string list option \<Rightarrow> analysis_limits \<Rightarrow> json \<Rightarrow> summary_unit list res" where
  "parse_summary_units nfc known lim v =
     (case v of
        JList vs \<Rightarrow>
          if lim_units lim < length vs
          then invalid_response (''document summary must contain at most '' @ nat_digits (lim_units lim) @ '' units.'')
          else res_map (parse_summary_unit nfc known (lim_sources lim)) (enumerate 0 vs)
      | _ \<Rightarrow> invalid_response ''document summary is invalid.'')"

definition analysis_fields :: "string list" where
  "analysis_fields = [''schema_version'', ''analysis_scope'', ''document_description'', ''document_summary'', ''candidates'']"

definition candidate_identity :: "(string \<Rightarrow> string) \<Rightarrow> (string \<Rightarrow> string) \<Rightarrow> candidate \<Rightarrow> candidate_kind \<times> string" where
  "candidate_identity nfkc casefold d = (kd_kind d, snd (normalize_knowledge_title nfkc casefold (kd_title d)))"

definition analysis_of_object ::
  "(string \<Rightarrow> string) \<Rightarrow> (string \<Rightarrow> string) \<Rightarrow> (string \<Rightarrow> string) \<Rightarrow> analysis_scope \<Rightarrow> bool \<Rightarrow> string list option \<Rightarrow>
    dict \<Rightarrow> knowledge_analysis res" where
  "analysis_of_object nfc nfkc casefold scope aggregate known d =
     (if \<not> has_fields d analysis_fields then invalid_response ''returned an unsupported response shape.''
      else if dict_get d ''schema_version'' \<noteq> JStr analysis_schema_version
      then invalid_response ''returned an unsupported schema version.''
      else if dict_get d ''analysis_scope'' \<noteq> JStr (scope_text scope)
      then invalid_response (''must use '' @ scope_text scope @ '' scope.'')
      else let lim = analysis_limits_of aggregate in
        res_bind (validated_or_default
          (string_field (dict_get d ''document_description'') ''document_description'' 4000 True) [] []) (\<lambda>(description, e1).
        res_bind (validated_or_default
          (parse_candidates nfc casefold known lim (dict_get d ''candidates'')) [] e1) (\<lambda>(all_candidates, e2).
        res_bind (validated_or_default
          (res_bind (parse_summary_units nfc known lim (dict_get d ''document_summary'')) (\<lambda>units.
             Inr (bounded_document_summary_units 32 units))) [] e2) (\<lambda>(summary, e3).
        if e3 \<noteq> [] then Inl (AnalysisInvalid e3)
        else if \<not> distinct (map (candidate_identity nfkc casefold) all_candidates)
        then invalid_response ''returned duplicate candidate identities.''
        else Inr
          \<lparr>an_description = description,
           an_concepts = filter (\<lambda>d. kd_kind d = Concept) all_candidates,
           an_entities = filter (\<lambda>d. kd_kind d = Entity) all_candidates,
           an_scope = scope,
           an_procedures = filter (\<lambda>d. kd_kind d = Procedure) all_candidates,
           an_summary = summary\<rparr>))))"

definition parse_knowledge_analysis ::
  "(string \<Rightarrow> string) \<Rightarrow> (string \<Rightarrow> string) \<Rightarrow> (string \<Rightarrow> string) \<Rightarrow> analysis_scope \<Rightarrow> bool \<Rightarrow> string list option \<Rightarrow>
    string \<Rightarrow> knowledge_analysis res" where
  "parse_knowledge_analysis nfc nfkc casefold scope aggregate known content =
     (case json_loads (json_object_text content) of
        None \<Rightarrow> invalid_response ''did not return valid JSON.''
      | Some (JObj d) \<Rightarrow> analysis_of_object nfc nfkc casefold scope aggregate known d
      | Some v \<Rightarrow> invalid_response ''must return one JSON object.'')"

text \<open>Reading a stage checkpoint back; \<open>Inr None\<close> is the absent result.\<close>

definition knowledge_analysis_from_checkpoint ::
  "(string \<Rightarrow> string) \<Rightarrow> (string \<Rightarrow> string) \<Rightarrow> (string \<Rightarrow> string) \<Rightarrow> json \<Rightarrow> knowledge_analysis option res" where
  "knowledge_analysis_from_checkpoint nfc nfkc casefold payload =
     (case payload of
        JObj d \<Rightarrow>
          (case dict_get d ''normalized_result'' of
             JObj r \<Rightarrow>
               res_bind (parse_knowledge_analysis nfc nfkc casefold Document_Scope
                 (''batch_count'' \<in> set (map fst d)) None (json_text (JObj r))) (\<lambda>a. Inr (Some a))
           | _ \<Rightarrow> Inr None)
      | _ \<Rightarrow> Inr None)"

end
