(* ===== verification/AnalysisRestore.thy ===== *)
theory AnalysisRestore
  imports AnalysisResult
begin

section \<open>What the parser of analyses accepts\<close>

text \<open>
  The predicates say what a parsed analysis satisfies; a value that satisfies them is read back
  unchanged from its JSON form.  \<open>nfc_stable\<close> is the one fact used of Unicode normalisation:
  stripping a normalised text leaves it normalised.
\<close>

definition nfc_stable :: "(string \<Rightarrow> string) \<Rightarrow> bool" where
  "nfc_stable nfc \<longleftrightarrow> (\<forall>s. nfc (py_strip (nfc s)) = py_strip (nfc s))"

definition clean_text :: "nat \<Rightarrow> string \<Rightarrow> bool" where
  "clean_text maximum s \<longleftrightarrow> py_join '' '' (py_split s) = s \<and> s \<noteq> [] \<and> py_len s \<le> maximum"

definition semantic_text :: "(string \<Rightarrow> string) \<Rightarrow> nat \<Rightarrow> string \<Rightarrow> bool" where
  "semantic_text nfc maximum s \<longleftrightarrow>
     py_strip (nfc s) = s \<and> s \<noteq> [] \<and> py_len s \<le> maximum \<and> \<not> list_ex control_char (py_chars s)"

definition known_id :: "string list option \<Rightarrow> string \<Rightarrow> bool" where
  "known_id known i \<longleftrightarrow> (case known of None \<Rightarrow> True | Some ids \<Rightarrow> i \<in> set ids)"

definition sources_ok :: "string list option \<Rightarrow> nat \<Rightarrow> string list \<Rightarrow> bool" where
  "sources_ok known maximum ids \<longleftrightarrow>
     ids \<noteq> [] \<and> distinct ids \<and> length ids \<le> maximum \<and> list_all (\<lambda>i. clean_text 160 i \<and> known_id known i) ids"

definition applicability_ok :: "(string \<Rightarrow> string) \<Rightarrow> string list option \<Rightarrow> nat \<Rightarrow> string list \<Rightarrow> claim_applicability \<Rightarrow> bool" where
  "applicability_ok nfc known maximum ids e \<longleftrightarrow>
     semantic_text nfc 80 (ka_dimension e) \<and> semantic_text nfc 160 (ka_value e) \<and>
     sources_ok known maximum (ka_sources e) \<and> set (ka_sources e) \<subseteq> set ids"

definition claim_ok :: "(string \<Rightarrow> string) \<Rightarrow> string list option \<Rightarrow> nat \<Rightarrow> analysis_claim \<Rightarrow> bool" where
  "claim_ok nfc known maximum c \<longleftrightarrow>
     clean_text 4000 (kc_text c) \<and> sources_ok known maximum (kc_sources c) \<and>
     length (kc_applicability c) \<le> 32 \<and> distinct (kc_applicability c) \<and>
     list_all (applicability_ok nfc known maximum (kc_sources c)) (kc_applicability c)"

definition labels_ok :: "string list \<Rightarrow> bool" where
  "labels_ok ls \<longleftrightarrow> length ls \<le> 32 \<and> distinct ls \<and> list_all (clean_text 160) ls"

definition candidate_ok :: "(string \<Rightarrow> string) \<Rightarrow> string list option \<Rightarrow> analysis_limits \<Rightarrow> candidate \<Rightarrow> bool" where
  "candidate_ok nfc known lim d \<longleftrightarrow>
     semantic_text nfc 240 (kd_title d) \<and> labels_ok (kd_aliases d) \<and> labels_ok (kd_labels d) \<and>
     kd_claims d \<noteq> [] \<and> length (kd_claims d) \<le> lim_claims lim \<and>
     list_all (claim_ok nfc known (lim_sources lim)) (kd_claims d)"

definition summary_unit_ok :: "(string \<Rightarrow> string) \<Rightarrow> string list option \<Rightarrow> nat \<Rightarrow> summary_unit \<Rightarrow> bool" where
  "summary_unit_ok nfc known maximum u \<longleftrightarrow>
     semantic_text nfc 80 (ks_label u) \<and> clean_text 4000 (ks_text u) \<and> sources_ok known maximum (ks_sources u)"

definition analysis_ok ::
  "(string \<Rightarrow> string) \<Rightarrow> (string \<Rightarrow> string) \<Rightarrow> (string \<Rightarrow> string) \<Rightarrow> bool \<Rightarrow> string list option \<Rightarrow> knowledge_analysis \<Rightarrow> bool" where
  "analysis_ok nfc nfkc casefold aggregate known a \<longleftrightarrow>
     (let lim = analysis_limits_of aggregate in
      py_join '' '' (py_split (an_description a)) = an_description a \<and> py_len (an_description a) \<le> 4000 \<and>
      length (an_candidates a) \<le> lim_candidates lim \<and> list_all (candidate_ok nfc known lim) (an_candidates a) \<and>
      list_all (\<lambda>d. kd_kind d = Concept) (an_concepts a) \<and> list_all (\<lambda>d. kd_kind d = Entity) (an_entities a) \<and>
      list_all (\<lambda>d. kd_kind d = Procedure) (an_procedures a) \<and>
      distinct (map (candidate_identity nfkc casefold) (an_candidates a)) \<and>
      length (an_summary a) \<le> 32 \<and> list_all (summary_unit_ok nfc known (lim_sources lim)) (an_summary a))"

text \<open>The claims of each candidate are told apart by their scope and text.\<close>

definition claims_distinct :: "(string \<Rightarrow> string) \<Rightarrow> knowledge_analysis \<Rightarrow> bool" where
  "claims_distinct casefold a \<longleftrightarrow>
     list_all (\<lambda>d. distinct (map (claim_identity casefold) (kd_claims d))) (an_candidates a)"

subsection \<open>Fields\<close>

lemma string_field_clean: "string_field v f m False = Inr t \<Longrightarrow> clean_text m t"
  by (auto simp: string_field_def clean_text_def invalid_response_def Let_def split: json.splits if_splits)

lemma string_field_of_clean: "clean_text m t \<Longrightarrow> string_field (JStr t) f m False = Inr t"
  by (simp add: string_field_def clean_text_def)

lemma semantic_text_of:
  "nfc_stable nfc \<Longrightarrow> normalize_dynamic_semantic_text nfc v f m = Inr t \<Longrightarrow> semantic_text nfc m t"
  by (auto simp: normalize_dynamic_semantic_text_def semantic_text_def nfc_stable_def Let_def
      split: json.splits if_splits)

lemma normalize_semantic_text:
  "semantic_text nfc m t \<Longrightarrow> normalize_dynamic_semantic_text nfc (JStr t) f m = Inr t"
  by (simp add: normalize_dynamic_semantic_text_def semantic_text_def)

lemma collect_new_Inr:
  "collect_new f acc vs = Inr ys \<Longrightarrow> \<exists>xs. res_map f vs = Inr xs \<and> ys = extend_new acc xs"
proof (induction vs arbitrary: acc)
  case (Cons v vs)
  then obtain x where x: "f v = Inr x" "collect_new f (append_new acc x) vs = Inr ys"
    by (auto simp: res_simps)
  from Cons.IH [OF x(2)] x(1) show ?case by (auto simp: res_simps)
qed simp

lemma extend_new_length: "length (extend_new acc xs) \<le> length acc + length xs"
proof (induction xs arbitrary: acc)
  case (Cons x xs)
  from Cons [of "append_new acc x"] length_append_new [of acc x] show ?case by simp
qed simp

lemma collect_new_bounds:
  assumes "collect_new f [] vs = Inr ys"
  shows "distinct ys" "length ys \<le> length vs" "\<forall>y\<in>set ys. \<exists>v\<in>set vs. f v = Inr y"
proof -
  from collect_new_Inr [OF assms] obtain xs where xs: "res_map f vs = Inr xs" "ys = extend_new [] xs" by blast
  show "distinct ys" by (simp add: xs(2))
  show "length ys \<le> length vs" using extend_new_length [of "[]" xs] res_map_Inr_length [OF xs(1)] by (simp add: xs(2))
  show "\<forall>y\<in>set ys. \<exists>v\<in>set vs. f v = Inr y"
    using xs by (auto simp: res_map_Inr_iff list_all2_conv_all_nth in_set_conv_nth [of _ xs]) (metis nth_mem)
qed

lemma collect_new_map:
  "distinct (acc @ xs) \<Longrightarrow> list_all2 (\<lambda>v x. f v = Inr x) vs xs \<Longrightarrow> collect_new f acc vs = Inr (acc @ xs)"
proof (induction vs arbitrary: acc xs)
  case (Cons v vs)
  then obtain x xs' where x: "xs = x # xs'" "f v = Inr x" "list_all2 (\<lambda>v x. f v = Inr x) vs xs'"
    by (auto simp: list_all2_Cons1)
  then have "append_new acc x = acc @ [x]" using Cons.prems by (simp add: append_new_def)
  with Cons.IH [of "acc @ [x]" xs'] Cons.prems x show ?case by simp
qed simp

lemma string_list_ok:
  assumes "string_list v f = Inr ls"
  shows "labels_ok ls"
proof -
  from assms obtain vs where vs: "length vs \<le> 32" "collect_new (\<lambda>item. string_field item f 160 False) [] vs = Inr ls"
    by (auto simp: string_list_def invalid_response_def not_less split: json.splits if_splits)
  from collect_new_bounds [OF vs(2)] vs(1) string_field_clean show ?thesis by (auto simp: labels_ok_def list_all_iff)
qed

lemma string_list_of:
  assumes "labels_ok ls"
  shows "string_list (json_strings ls) f = Inr ls"
proof -
  have "list_all2 (\<lambda>v x. string_field v f 160 False = Inr x) (map JStr ls) ls"
    using assms by (auto simp: labels_ok_def list_all_iff list_all2_conv_all_nth string_field_of_clean)
  with collect_new_map [of "[]" ls "\<lambda>v. string_field v f 160 False" "map JStr ls"] assms
  show ?thesis by (simp add: string_list_def json_strings_def labels_ok_def)
qed

lemma evidence_id_ok: "evidence_id known p v = Inr i \<Longrightarrow> clean_text 160 i \<and> known_id known i"
  using string_field_clean
  by (fastforce simp: evidence_id_def known_id_def invalid_response_def res_simps split: option.splits if_splits)

lemma evidence_ids_ok:
  assumes "evidence_ids known m v p = Inr ids" "ids \<noteq> []"
  shows "sources_ok known m ids"
proof -
  from assms(1) obtain vs where vs: "length vs \<le> m" "collect_new (evidence_id known p) [] vs = Inr ids"
    by (auto simp: evidence_ids_def source_limit_error_def invalid_response_def not_less split: json.splits if_splits)
  from collect_new_bounds [OF vs(2)] vs(1) evidence_id_ok assms(2) show ?thesis by (auto simp: sources_ok_def list_all_iff)
qed

lemma evidence_ids_of:
  assumes "sources_ok known m ids"
  shows "evidence_ids known m (json_strings ids) p = Inr ids"
proof -
  have "list_all2 (\<lambda>v x. evidence_id known p v = Inr x) (map JStr ids) ids"
    using assms by (auto simp: sources_ok_def list_all_iff list_all2_conv_all_nth evidence_id_def
        string_field_of_clean known_id_def split: option.splits)
  with collect_new_map [of "[]" ids "evidence_id known p" "map JStr ids"] assms
  show ?thesis by (simp add: evidence_ids_def json_strings_def sources_ok_def)
qed

lemma applicability_entry_ok:
  assumes "nfc_stable nfc" "applicability_entry nfc known m ids p iv = Inr e"
  shows "applicability_ok nfc known m ids e"
  using assms(2) evidence_ids_ok semantic_text_of [OF assms(1)]
  by (auto simp: applicability_entry_def applicability_ok_def invalid_response_def res_simps Let_def list_all_iff
      split: prod.splits json.splits if_splits)

lemma applicability_entry_of:
  assumes "applicability_ok nfc known m ids e"
  shows "applicability_entry nfc known m ids p (i, applicability_as_dict e) = Inr e"
proof -
  have "ka_sources e \<noteq> []" "list_all (\<lambda>i. i \<in> set ids) (ka_sources e)"
    using assms by (auto simp: applicability_ok_def sources_ok_def list_all_iff)
  with assms show ?thesis
    by (simp add: applicability_entry_def applicability_as_dict_def has_fields_def dict_get_def
        applicability_ok_def normalize_semantic_text evidence_ids_of insert_commute)
qed

lemma applicability_list_ok:
  assumes "nfc_stable nfc" "applicability_list nfc known m ids v p = Inr es"
  shows "length es \<le> 32 \<and> distinct es \<and> list_all (applicability_ok nfc known m ids) es"
proof -
  from assms(2) obtain vs where vs: "v = JList vs" "length vs \<le> 32"
    "collect_new (applicability_entry nfc known m ids p) [] (enumerate 0 vs) = Inr es"
    by (auto simp: applicability_list_def invalid_response_def split: json.splits if_splits)
  from collect_new_bounds [OF vs(3)] vs(2) applicability_entry_ok [OF assms(1)] show ?thesis
    by (auto simp: list_all_iff)
qed

lemma list_all2_enumerate:
  "(\<And>i x. x \<in> set xs \<Longrightarrow> P (i, g x) x) \<Longrightarrow> list_all2 P (enumerate n (map g xs)) xs"
  by (auto simp: list_all2_conv_all_nth nth_enumerate_eq)

lemma applicability_list_of:
  assumes "list_all (applicability_ok nfc known m ids) es" "length es \<le> 32" "distinct es"
  shows "applicability_list nfc known m ids (JList (map applicability_as_dict es)) p = Inr es"
proof -
  have "list_all2 (\<lambda>v x. applicability_entry nfc known m ids p v = Inr x) (enumerate 0 (map applicability_as_dict es)) es"
    using assms(1) by (intro list_all2_enumerate) (simp add: list_all_iff applicability_entry_of)
  with collect_new_map [of "[]" es] assms show ?thesis by (simp add: applicability_list_def)
qed

lemma parse_claim_ok:
  assumes "nfc_stable nfc" "parse_claim nfc known m v p = Inr c"
  shows "claim_ok nfc known m c"
  using assms(2) evidence_ids_ok applicability_list_ok [OF assms(1)] string_field_clean
  by (auto simp: parse_claim_def claim_ok_def invalid_response_def res_simps split: json.splits if_splits)

lemma parse_claim_of:
  assumes "claim_ok nfc known m c"
  shows "parse_claim nfc known m (claim_as_dict c) p = Inr c"
proof -
  have "kc_sources c \<noteq> []" using assms by (simp add: claim_ok_def sources_ok_def)
  with assms show ?thesis
    by (simp add: parse_claim_def claim_as_dict_def has_fields_def dict_get_def claim_ok_def string_field_of_clean
        evidence_ids_of applicability_list_of insert_commute)
qed

subsection \<open>Claims\<close>

text \<open>The identity of a claim determines the set of its scopes: the separator is escaped in JSON.\<close>

abbreviation scope_json :: "(string \<times> string) list \<Rightarrow> json" where
  "scope_json ks \<equiv> JList (map (\<lambda>(d, v). JList [JStr d, JStr v]) ks)"

lemma hex_digit_visible: "n < 16 \<Longrightarrow> hex_digit n \<noteq> CHR 0x1F"
proof
  assume "n < 16" "hex_digit n = CHR 0x1F"
  then have "(of_char (hex_digit n) :: nat) = 31" by simp
  with \<open>n < 16\<close> show False by (auto simp: hex_digit_def split: if_splits)
qed

lemma escape_char_visible: "CHR 0x1F \<notin> set (escape_char c)"
proof (cases "(of_char c :: nat) < 32")
  case True
  then have "hex_digit (of_char c div 16) \<noteq> CHR 0x1F" "hex_digit (of_char c mod 16) \<noteq> CHR 0x1F"
    by (simp_all add: hex_digit_visible)
  with True show ?thesis by (simp add: escape_char_def)
next
  case False
  then have "c \<noteq> CHR 0x1F" by auto
  with False show ?thesis by (simp add: escape_char_def)
qed

lemma dump_str_visible: "CHR 0x1F \<notin> set (dump_str s)"
  using escape_char_visible by (auto simp: dump_str_def)

lemma scope_json_visible: "CHR 0x1F \<notin> set (json_dumps (scope_json ks))"
proof -
  have "CHR 0x1F \<notin> set (dump_items (map (\<lambda>(d, v). JList [JStr d, JStr v]) ks))"
    by (induction ks) (auto simp: dump_str_visible)
  then show ?thesis by simp
qed

lemma scope_json_inject: "json_dumps (scope_json ks) = json_dumps (scope_json ks') \<Longrightarrow> ks = ks'"
proof -
  have ok: "json_ok (scope_json ks)" for ks by (auto simp: list_all_iff)
  assume "json_dumps (scope_json ks) = json_dumps (scope_json ks')"
  then have "scope_json ks = scope_json ks'" using json_loads_dumps [OF ok] by (metis option.inject)
  then have "map (\<lambda>(d, v). JList [JStr d, JStr v]) ks = map (\<lambda>(d, v). JList [JStr d, JStr v]) ks'" by simp
  moreover have "inj (\<lambda>(d, v). JList [JStr d, JStr v])" by (auto simp: inj_def)
  ultimately show ?thesis by (simp add: inj_map_eq_map)
qed

definition scope_set :: "(string \<Rightarrow> string) \<Rightarrow> analysis_claim \<Rightarrow> (string \<times> string) set" where
  "scope_set casefold c = applicability_key casefold ` set (kc_applicability c)"

lemma claim_identity_scopes:
  assumes "claim_identity casefold c = claim_identity casefold c'"
  shows "scope_set casefold c = scope_set casefold c'"
proof -
  let ?ks = "\<lambda>c. sort (map (applicability_key casefold) (kc_applicability c))"
  have "takeWhile (\<lambda>x. x \<noteq> CHR 0x1F) (claim_identity casefold c) = json_dumps (scope_json (?ks c))" for c
    unfolding claim_identity_def using scope_json_visible [of "?ks c"]
    by (subst takeWhile_append2) auto
  then have "?ks c = ?ks c'" using assms scope_json_inject by metis
  then have "set (?ks c) = set (?ks c')" by simp
  then show ?thesis by (simp add: scope_set_def)
qed

lemma uniq_Nil [simp]: "uniq xs = [] \<longleftrightarrow> xs = []"
  by (cases xs) simp_all

text \<open>Entries by key.\<close>

abbreviation entry_table ::
  "(claim_applicability \<Rightarrow> string \<times> string) \<Rightarrow> claim_applicability list \<Rightarrow> ((string \<times> string) \<times> claim_applicability) list" where
  "entry_table key es \<equiv> fold (\<lambda>e by_scope. AList.update (key e)
     (case map_of by_scope (key e) of None \<Rightarrow> e | Some existing \<Rightarrow> unite_entry existing e) by_scope) es []"

lemma set_update_subset: "set (AList.update k v t) \<subseteq> insert (k, v) (set t)"
  by (induction t) auto

lemma entry_table:
  assumes "\<And>a b. Q a \<Longrightarrow> Q b \<Longrightarrow> key a = key b \<Longrightarrow> Q (unite_entry a b)" "\<And>a b. key (unite_entry a b) = key a"
    "\<forall>e\<in>set es. Q e"
  shows "distinct (map fst (entry_table key es)) \<and> fst ` set (entry_table key es) = key ` set es \<and>
    (\<forall>(k, e)\<in>set (entry_table key es). key e = k \<and> Q e)"
  using assms(3)
proof (induction es rule: rev_induct)
  case (snoc e es)
  let ?t = "entry_table key es"
  let ?e = "case map_of ?t (key e) of None \<Rightarrow> e | Some existing \<Rightarrow> unite_entry existing e"
  from snoc have IH: "distinct (map fst ?t)" "fst ` set ?t = key ` set es" "\<forall>(k, e)\<in>set ?t. key e = k \<and> Q e" by auto
  have new: "key ?e = key e \<and> Q ?e"
  proof (cases "map_of ?t (key e)")
    case None
    then show ?thesis using snoc.prems by simp
  next
    case (Some existing)
    then have "key existing = key e" "Q existing" using IH(3) map_of_SomeD by fastforce+
    with Some snoc.prems assms(1,2) show ?thesis by simp
  qed
  let ?u = "AList.update (key e) ?e ?t"
  have "\<forall>(k, e')\<in>set ?u. key e' = k \<and> Q e'"
  proof
    fix kv assume "kv \<in> set ?u"
    then have "kv = (key e, ?e) \<or> kv \<in> set ?t" using set_update_subset by fast
    with new IH(3) show "case kv of (k, e') \<Rightarrow> key e' = k \<and> Q e'" by auto
  qed
  moreover have "fst ` set ?u = key ` set (es @ [e])"
  proof -
    have "fst ` set ?u = {key e} \<union> fst ` set ?t" by (rule AList.dom_update)
    also note IH(2)
    finally show ?thesis by simp
  qed
  moreover have "distinct (map fst ?u)" using IH(1) by (rule distinct_update)
  ultimately show ?case by (simp only: fold_append fold_simps comp_apply id_apply)
qed simp

lemma merge_entries_ok:
  assumes "list_all (applicability_ok nfc known m ids) (l @ r)" "distinct ids" "length ids \<le> m"
    "\<And>a b. key (unite_entry a b) = key a"
  shows "list_all (applicability_ok nfc known m ids) (merge_entries key l r)"
    "distinct (map key (merge_entries key l r))" "key ` set (merge_entries key l r) = key ` set (l @ r)"
proof -
  let ?t = "entry_table key (l @ r)"
  have "applicability_ok nfc known m ids (unite_entry a b)"
    if "applicability_ok nfc known m ids a" "applicability_ok nfc known m ids b" for a b
  proof -
    have sub: "set (uniq (ka_sources a @ ka_sources b)) \<subseteq> set ids" using that by (auto simp: applicability_ok_def)
    then have "length (uniq (ka_sources a @ ka_sources b)) \<le> m"
      using card_mono [OF finite_set sub] assms(2,3) distinct_card [OF distinct_uniq] distinct_card [of ids]
      by (metis order_trans)
    with that sub show ?thesis by (auto simp: applicability_ok_def unite_entry_def sources_ok_def list_all_iff)
  qed
  with entry_table [of "applicability_ok nfc known m ids" key "l @ r"] assms(1,4)
  have t: "distinct (map fst ?t)" "fst ` set ?t = key ` set (l @ r)" "\<forall>(k, e)\<in>set ?t. key e = k \<and> applicability_ok nfc known m ids e"
    by (auto simp: list_all_iff)
  have sorted: "merge_entries key l r = map snd (sort_key fst ?t)" by (simp add: merge_entries_def)
  have keys: "map key (map snd (sort_key fst ?t)) = map fst (sort_key fst ?t)" using t(3) by auto
  show "list_all (applicability_ok nfc known m ids) (merge_entries key l r)"
    using t(3) by (auto simp: sorted list_all_iff)
  have "distinct ?t" "inj_on fst (set ?t)" using t(1) by (simp_all add: distinct_map)
  then have "distinct (map fst (sort_key fst ?t))" by (simp add: distinct_map)
  then show "distinct (map key (merge_entries key l r))" by (simp only: sorted keys)
  have "key ` set (merge_entries key l r) = set (map key (map snd (sort_key fst ?t)))" by (simp only: sorted list.set_map)
  also have "\<dots> = fst ` set ?t" by (simp only: keys list.set_map set_sort)
  finally show "key ` set (merge_entries key l r) = key ` set (l @ r)" using t(2) by simp
qed

lemma applicability_ok_mono: "applicability_ok nfc known m ids e \<Longrightarrow> set ids \<subseteq> set ids' \<Longrightarrow> applicability_ok nfc known m ids' e"
  by (auto simp: applicability_ok_def)

definition claim_row_ok ::
  "(string \<Rightarrow> string) \<Rightarrow> (string \<Rightarrow> string) \<Rightarrow> string list option \<Rightarrow> nat \<Rightarrow> string \<times> analysis_claim \<Rightarrow> bool" where
  "claim_row_ok nfc casefold known m = (\<lambda>(k, c). claim_ok nfc known m c \<and>
     (\<forall>c'. claim_identity casefold c' = k \<longrightarrow> scope_set casefold c' = scope_set casefold c))"

lemma merged_claim_ok:
  assumes "claim_row_ok nfc casefold known m (claim_identity casefold c, old)" "claim_ok nfc known m c"
    "length (uniq (kc_sources old @ kc_sources c)) \<le> m"
  shows "claim_row_ok nfc casefold known m (claim_identity casefold c,
    \<lparr>kc_text = kc_text old, kc_sources = uniq (kc_sources old @ kc_sources c),
     kc_applicability = merge_entries (applicability_key casefold) (kc_applicability old) (kc_applicability c)\<rparr>)"
proof -
  let ?ids = "uniq (kc_sources old @ kc_sources c)" and ?key = "applicability_key casefold"
  let ?merged = "merge_entries ?key (kc_applicability old) (kc_applicability c)"
  have old: "claim_ok nfc known m old" and same: "scope_set casefold c = scope_set casefold old"
    using assms(1) by (auto simp: claim_row_ok_def)
  have keys: "?key (unite_entry a b) = ?key a" for a b by (simp add: applicability_key_def unite_entry_def)
  have both: "list_all (applicability_ok nfc known m ?ids) (kc_applicability old @ kc_applicability c)"
    using old assms(2) applicability_ok_mono by (fastforce simp: claim_ok_def list_all_iff)
  note merged = merge_entries_ok [where key = ?key, OF both distinct_uniq assms(3) keys]
  have scopes: "?key ` set ?merged = scope_set casefold old"
    using merged(3) same by (auto simp: scope_set_def)
  have "length ?merged = card (?key ` set ?merged)" using merged(2) by (metis distinct_card length_map list.set_map)
  also have "\<dots> \<le> card (set (kc_applicability old))" unfolding scopes by (simp add: scope_set_def card_image_le)
  also have "\<dots> \<le> 32" using old card_length [of "kc_applicability old"] by (simp add: claim_ok_def)
  finally have "length ?merged \<le> 32" .
  moreover have "sources_ok known m ?ids"
    using old assms(2,3) by (auto simp: claim_ok_def sources_ok_def list_all_iff)
  moreover have "distinct ?merged" using merged(2) by (simp add: distinct_map)
  moreover have "\<forall>c'. claim_identity casefold c' = claim_identity casefold c \<longrightarrow> scope_set casefold c' = scope_set casefold old"
    using claim_identity_scopes same by metis
  ultimately show ?thesis using merged(1) old scopes
    by (auto simp: claim_row_ok_def claim_ok_def scope_set_def)
qed

lemma claims_loop_ok:
  assumes "\<And>i v c. parse i v = Inr c \<Longrightarrow> claim_ok nfc known m c"
    "claims_loop casefold m parse path acc ivs = Inr rows"
    "distinct (map fst acc)" "list_all (claim_row_ok nfc casefold known m) acc"
  shows "distinct (map fst rows) \<and> list_all (claim_row_ok nfc casefold known m) rows \<and>
    length rows \<le> length acc + length ivs \<and> (acc \<noteq> [] \<or> ivs \<noteq> [] \<longrightarrow> rows \<noteq> [])"
  using assms(2-4)
proof (induction ivs arbitrary: acc)
  case (Cons iv ivs)
  obtain i v where iv: "iv = (i, v)" by fastforce
  from Cons.prems(1) obtain c where c: "parse i v = Inr c" by (auto simp: iv res_simps)
  let ?k = "claim_identity casefold c"
  have ok: "claim_ok nfc known m c" using assms(1) c by blast
  show ?case
  proof (cases "map_of acc ?k")
    case None
    then have new: "?k \<notin> fst ` set acc" by (simp add: map_of_eq_None_iff)
    have "claim_row_ok nfc casefold known m (?k, c)"
      using ok claim_identity_scopes unfolding claim_row_ok_def by blast
    with Cons.prems new have "distinct (map fst (acc @ [(?k, c)]))" "list_all (claim_row_ok nfc casefold known m) (acc @ [(?k, c)])"
      by auto
    with Cons.IH [of "acc @ [(?k, c)]"] Cons.prems(1) None c show ?thesis by (auto simp: iv)
  next
    case (Some old)
    let ?new = "\<lparr>kc_text = kc_text old, kc_sources = uniq (kc_sources old @ kc_sources c),
      kc_applicability = merge_entries (applicability_key casefold) (kc_applicability old) (kc_applicability c)\<rparr>"
    have row: "claim_row_ok nfc casefold known m (?k, old)"
      using Cons.prems(3) map_of_SomeD [OF Some] by (auto simp: list_all_iff)
    have bound: "length (uniq (kc_sources old @ kc_sources c)) \<le> m"
      "claims_loop casefold m parse path (AList.update ?k ?new acc) ivs = Inr rows"
      using Cons.prems(1) Some c by (auto simp: iv Let_def source_limit_error_def invalid_response_def split: if_splits)
    have "list_all (claim_row_ok nfc casefold known m) (AList.update ?k ?new acc)"
      using merged_claim_ok [OF row ok bound(1)] Cons.prems(3) set_update_subset [of ?k ?new acc]
      by (fastforce simp: list_all_iff)
    moreover have "length (AList.update ?k ?new acc) = length acc"
      using update_keys [of ?k ?new acc] map_of_SomeD [OF Some] by (metis (no_types, lifting) length_map list.set_map imageI fst_conv)
    moreover have "distinct (map fst (AList.update ?k ?new acc))" using Cons.prems(2) by (rule distinct_update)
    ultimately show ?thesis using Cons.IH [OF bound(2)] by (cases acc) (auto simp: iv)
  qed
qed simp

subsection \<open>Candidates and analyses\<close>

lemma candidate_claims_ok:
  assumes "nfc_stable nfc" "candidate_claims nfc casefold known lim v p = Inr cs"
  shows "cs \<noteq> [] \<and> length cs \<le> lim_claims lim \<and> list_all (claim_ok nfc known (lim_sources lim)) cs"
proof -
  let ?parse = "\<lambda>i item. parse_claim nfc known (lim_sources lim) item (index_path (p @ ''.claims'') i)"
  from assms(2) obtain vs rows where vs: "vs \<noteq> []" "length vs \<le> lim_claims lim" "cs = map snd rows"
    "claims_loop casefold (lim_sources lim) ?parse (index_path (p @ ''.claims'')) [] (enumerate 0 vs) = Inr rows"
    by (auto simp: candidate_claims_def invalid_response_def res_simps not_less split: json.splits if_splits)
  have "list_all (claim_row_ok nfc casefold known (lim_sources lim)) rows \<and> length rows \<le> length vs \<and> rows \<noteq> []"
    using claims_loop_ok [OF parse_claim_ok [OF assms(1)] vs(4)] vs(1) by (cases vs) simp_all
  with vs(2,3) show ?thesis by (fastforce simp: claim_row_ok_def list_all_iff)
qed

lemma claims_loop_of:
  "(\<And>i c. c \<in> set cs \<Longrightarrow> parse i (claim_as_dict c) = Inr c) \<Longrightarrow>
     distinct (map fst acc @ map (claim_identity casefold) cs) \<Longrightarrow>
     claims_loop casefold m parse path acc (enumerate n (map claim_as_dict cs)) =
       Inr (acc @ map (\<lambda>c. (claim_identity casefold c, c)) cs)"
proof (induction cs arbitrary: acc n)
  case (Cons c cs)
  then have "map_of acc (claim_identity casefold c) = None" by (auto simp: map_of_eq_None_iff)
  with Cons.prems Cons.IH [of "acc @ [(claim_identity casefold c, c)]" "Suc n"] show ?case by simp
qed simp

lemma candidate_claims_of:
  assumes "cs \<noteq> []" "length cs \<le> lim_claims lim" "list_all (claim_ok nfc known (lim_sources lim)) cs"
    "distinct (map (claim_identity casefold) cs)"
  shows "candidate_claims nfc casefold known lim (JList (map claim_as_dict cs)) p = Inr cs"
proof -
  have "claims_loop casefold (lim_sources lim)
      (\<lambda>i item. parse_claim nfc known (lim_sources lim) item (index_path (p @ ''.claims'') i))
      (index_path (p @ ''.claims'')) [] (enumerate 0 (map claim_as_dict cs)) =
    Inr ([] @ map (\<lambda>c. (claim_identity casefold c, c)) cs)"
    by (rule claims_loop_of) (use assms in \<open>auto simp: list_all_iff parse_claim_of\<close>)
  with assms show ?thesis by (simp add: candidate_claims_def comp_def)
qed

lemma parse_candidate_ok:
  assumes "nfc_stable nfc" "parse_candidate nfc casefold known lim iv = Inr d"
  shows "candidate_ok nfc known lim d"
  using assms(2) candidate_claims_ok [OF assms(1)] semantic_text_of [OF assms(1)] string_list_ok
  by (auto simp: parse_candidate_def candidate_ok_def invalid_response_def res_simps Let_def
      split: prod.splits json.splits if_splits)

lemma choice_field_texts [simp]:
  "choice_field kind_of_text (JStr (kind_text k)) f = Inr k"
  "choice_field admission_of_text (JStr (admission_text a)) f = Inr a"
  by (cases k; simp add: choice_field_def) (cases a; simp add: choice_field_def)

lemma parse_candidate_of:
  assumes "candidate_ok nfc known lim d" "distinct (map (claim_identity casefold) (kd_claims d))"
  shows "parse_candidate nfc casefold known lim (i, candidate_as_dict d) = Inr d"
proof -
  have "candidate_claims nfc casefold known lim (JList (map claim_as_dict (kd_claims d))) p = Inr (kd_claims d)" for p
    using assms by (intro candidate_claims_of) (simp_all add: candidate_ok_def)
  with assms(1) show ?thesis
    by (simp add: parse_candidate_def candidate_as_dict_def has_fields_def candidate_fields_def dict_get_def
        candidate_ok_def normalize_semantic_text string_list_of insert_commute)
qed

lemma parse_summary_unit_ok:
  assumes "nfc_stable nfc" "parse_summary_unit nfc known m iv = Inr u"
  shows "summary_unit_ok nfc known m u"
  using assms(2) semantic_text_of [OF assms(1)] string_field_clean evidence_ids_ok
  by (auto simp: parse_summary_unit_def summary_unit_ok_def invalid_response_def res_simps Let_def
      split: prod.splits json.splits if_splits)

lemma parse_summary_unit_of:
  assumes "summary_unit_ok nfc known m u"
  shows "parse_summary_unit nfc known m (i, summary_as_dict u) = Inr u"
proof -
  have "ks_sources u \<noteq> []" using assms by (simp add: summary_unit_ok_def sources_ok_def)
  with assms show ?thesis
    by (simp add: parse_summary_unit_def summary_as_dict_def has_fields_def dict_get_def summary_unit_ok_def
        normalize_semantic_text string_field_of_clean evidence_ids_of insert_commute)
qed

text \<open>No validator raises an error without a message, so no message means no error.\<close>

definition errors_named :: "'a res \<Rightarrow> bool" where
  "errors_named r \<longleftrightarrow> r \<noteq> Inl (AnalysisInvalid [])"

named_theorems named_intros \<open>results whose errors carry a message\<close>

lemma errors_named_bind [named_intros]:
  "errors_named r \<Longrightarrow> (\<And>x. errors_named (f x)) \<Longrightarrow> errors_named (res_bind r f)"
  by (cases r) (auto simp: errors_named_def)

lemma errors_named_basic [named_intros]:
  "errors_named (Inr x)" "errors_named (invalid_response m)" "errors_named (source_limit_error n p k)"
  by (simp_all add: errors_named_def invalid_response_def source_limit_error_def)

lemma errors_named_if [named_intros]:
  "errors_named a \<Longrightarrow> errors_named b \<Longrightarrow> errors_named (if c then a else b)"
  by simp

lemma errors_named_collect [named_intros]:
  "(\<And>v. errors_named (f v)) \<Longrightarrow> errors_named (collect_new f acc vs)"
  by (induction vs arbitrary: acc) (auto intro!: named_intros)

lemma errors_named_map [named_intros]: "(\<And>v. errors_named (f v)) \<Longrightarrow> errors_named (res_map f vs)"
  by (induction vs) (auto intro!: named_intros)

lemma errors_named_fields [named_intros]:
  "errors_named (string_field v f m e)" "errors_named (normalize_dynamic_semantic_text nfc v f m)"
  "errors_named (string_list v f)" "errors_named (evidence_id known p v)" "errors_named (choice_field g v f)"
  by (auto simp: string_field_def normalize_dynamic_semantic_text_def string_list_def evidence_id_def choice_field_def
      Let_def errors_named_def [of "Inl (ValueError _)"] split: json.splits option.splits intro!: named_intros)

lemma errors_named_evidence [named_intros]: "errors_named (evidence_ids known m v p)"
  by (auto simp: evidence_ids_def split: json.splits intro!: named_intros)

lemma errors_named_applicability [named_intros]:
  "errors_named (applicability_entry nfc known m ids p iv)" "errors_named (applicability_list nfc known m ids v p)"
proof -
  show entry: "errors_named (applicability_entry nfc known m ids p iv)" for iv
    by (auto simp: applicability_entry_def Let_def split: prod.splits json.splits intro!: named_intros)
  show "errors_named (applicability_list nfc known m ids v p)"
    by (auto simp: applicability_list_def split: json.splits intro!: named_intros entry)
qed

lemma errors_named_claim [named_intros]: "errors_named (parse_claim nfc known m v p)"
  by (auto simp: parse_claim_def split: json.splits intro!: named_intros)

lemma errors_named_claims_loop [named_intros]:
  "(\<And>i v. errors_named (parse i v)) \<Longrightarrow> errors_named (claims_loop casefold m parse path acc ivs)"
proof (induction casefold m parse path acc ivs rule: claims_loop.induct)
  case (2 casefold m parse path acc i v rest)
  then show ?case by (auto simp: Let_def split: option.split intro!: named_intros)
qed (simp add: named_intros)

lemma errors_named_candidate [named_intros]:
  "errors_named (candidate_claims nfc casefold known lim v p)" "errors_named (parse_candidate nfc casefold known lim iv)"
  by (auto simp: candidate_claims_def parse_candidate_def Let_def split: json.splits prod.splits intro!: named_intros)

lemma errors_named_summary [named_intros]: "errors_named (parse_summary_unit nfc known m iv)"
  by (auto simp: parse_summary_unit_def Let_def split: json.splits prod.splits intro!: named_intros)

lemma errors_named_parts [named_intros]:
  "errors_named (parse_candidates nfc casefold known lim v)" "errors_named (parse_summary_units nfc known lim v)"
  by (auto simp: parse_candidates_def parse_summary_units_def split: json.splits intro!: named_intros)

lemma validated_no_errors:
  assumes "errors_named r" "validated_or_default r d es = Inr (v, [])"
  shows "es = [] \<and> r = Inr v"
proof (cases r)
  case (Inr v')
  with assms(2) show ?thesis by (simp add: validated_or_default_def)
next
  case (Inl e)
  with assms have "\<exists>ms. ms \<noteq> [] \<and> extend_new es ms = []"
    by (cases e) (auto simp: validated_or_default_def errors_named_def simp del: extend_new_simps)
  then obtain ms where ms: "ms \<noteq> []" "extend_new es ms = []" by blast
  from ms(2) have "set es \<union> set ms = {}" by (metis set_empty set_extend_new)
  with ms(1) show ?thesis by simp
qed

subsection \<open>The analysis\<close>

lemma strip_braces:
  assumes "s = CHR ''{'' # m @ [CHR ''}'']"
  shows "py_strip s = s"
proof -
  have ne: "py_chars s \<noteq> []" using assms concat_py_chars [of s] by force
  have groups: "list_all code_point (py_chars s)" using code_points_py_chars [of s] by (simp add: code_points_def)
  obtain u us where u: "py_chars s = u # us" using ne by (cases "py_chars s") auto
  have "u \<noteq> []" using groups by (simp add: u code_point_def)
  moreover have "u @ concat us = s" using concat_py_chars [of s] unfolding u by simp
  ultimately obtain t where t: "u = CHR ''{'' # t" using assms by (cases u) auto
  have first: "\<not> py_isspace u" by (auto simp: t py_isspace_def split: list.splits)
  obtain w ws where w: "py_chars s = ws @ [w]" using ne by (cases "py_chars s" rule: rev_cases) auto
  have "w \<noteq> []" using groups by (simp add: w code_point_def)
  moreover have "concat ws @ w = s" using concat_py_chars [of s] by (simp add: w)
  ultimately have "last w = CHR ''}''" using assms by (metis last.simps last_appendR last_snoc append_is_Nil_conv list.distinct(1))
  moreover have "(\<exists>a. w = [a] \<and> (of_char a :: nat) \<le> 32) \<or> (\<exists>a b. w = [a, b] \<and> 133 \<le> (of_char b :: nat)) \<or>
      (\<exists>a b c. w = [a, b, c] \<and> 128 \<le> (of_char c :: nat))" if "py_isspace w"
    using that by (auto simp: py_isspace_def split: list.splits)
  ultimately have "\<not> py_isspace w" by auto
  then have "rev (dropWhile py_isspace (rev (py_chars s))) = py_chars s" by (simp add: w)
  moreover have "dropWhile py_isspace (py_chars s) = py_chars s" using first by (simp add: u)
  ultimately show ?thesis by (simp add: py_strip_def)
qed

lemma json_object_text_dict: "json_object_text (json_text (JObj kvs)) = json_text (JObj kvs)"
proof -
  have "py_strip (json_text (JObj kvs)) = json_text (JObj kvs)" by (rule strip_braces) simp
  then show ?thesis by (simp add: json_object_text_def)
qed

lemma as_dict_storable:
  "json_ok (applicability_as_dict e)" "json_ok (claim_as_dict c)" "json_ok (summary_as_dict u)"
  "json_ok (candidate_as_dict d)" "json_ok (analysis_as_dict a)"
proof -
  show e: "json_ok (applicability_as_dict e)" for e
    by (auto simp: applicability_as_dict_def json_strings_def list_all_iff)
  show c: "json_ok (claim_as_dict c)" for c
    by (auto simp: claim_as_dict_def json_strings_def list_all_iff e)
  show u: "json_ok (summary_as_dict u)" for u
    by (auto simp: summary_as_dict_def json_strings_def list_all_iff)
  show d: "json_ok (candidate_as_dict d)" for d
    by (auto simp: candidate_as_dict_def json_strings_def list_all_iff c)
  show "json_ok (analysis_as_dict a)"
    by (auto simp: analysis_as_dict_def list_all_iff u d)
qed

lemma res_map_all: "res_map f vs = Inr xs \<Longrightarrow> (\<And>v x. f v = Inr x \<Longrightarrow> P x) \<Longrightarrow> list_all P xs"
  by (induction vs arbitrary: xs) (auto simp: res_simps)

lemma by_kind_mset:
  "mset (filter (\<lambda>d. kd_kind d = Concept) ds @ filter (\<lambda>d. kd_kind d = Entity) ds @ filter (\<lambda>d. kd_kind d = Procedure) ds) = mset ds"
proof (induction ds)
  case (Cons d ds)
  then show ?case by (cases "kd_kind d") auto
qed simp

lemma analysis_of_object_ok:
  assumes "nfc_stable nfc" "analysis_of_object nfc nfkc casefold scope aggregate known d = Inr a"
  shows "analysis_ok nfc nfkc casefold aggregate known a \<and> an_scope a = scope"
proof -
  let ?lim = "analysis_limits_of aggregate"
  let ?r1 = "string_field (dict_get d ''document_description'') ''document_description'' 4000 True"
  let ?r2 = "parse_candidates nfc casefold known ?lim (dict_get d ''candidates'')"
  let ?r3 = "res_bind (parse_summary_units nfc known ?lim (dict_get d ''document_summary''))
    (\<lambda>units. Inr (bounded_document_summary_units 32 units))"
  from assms(2) obtain v1 e1 v2 e2 v3 where v: "validated_or_default ?r1 [] [] = Inr (v1, e1)"
    "validated_or_default ?r2 [] e1 = Inr (v2, e2)" "validated_or_default ?r3 [] e2 = Inr (v3, [])"
    "distinct (map (candidate_identity nfkc casefold) v2)"
    "a = \<lparr>an_description = v1, an_concepts = filter (\<lambda>d. kd_kind d = Concept) v2,
       an_entities = filter (\<lambda>d. kd_kind d = Entity) v2, an_scope = scope,
       an_procedures = filter (\<lambda>d. kd_kind d = Procedure) v2, an_summary = v3\<rparr>"
    by (auto simp: analysis_of_object_def invalid_response_def res_simps Let_def split: if_splits)
  have named: "errors_named ?r1" "errors_named ?r2" "errors_named ?r3" by (auto intro!: named_intros)
  from validated_no_errors [OF named(3) v(3)] v(2) validated_no_errors [OF named(2)]
  have r3: "?r3 = Inr v3" and r2: "e1 = []" "?r2 = Inr v2" by blast+
  from validated_no_errors [OF named(1)] v(1) r2(1) have r1: "?r1 = Inr v1" by blast
  have description: "py_join '' '' (py_split v1) = v1 \<and> py_len v1 \<le> 4000"
    using r1 by (auto simp: string_field_def invalid_response_def Let_def split: json.splits if_splits)
  from r2(2) obtain vs where vs: "length vs \<le> lim_candidates ?lim" "res_map (parse_candidate nfc casefold known ?lim) (enumerate 0 vs) = Inr v2"
    by (auto simp: parse_candidates_def invalid_response_def not_less split: json.splits if_splits)
  have candidates: "length v2 \<le> lim_candidates ?lim" "list_all (candidate_ok nfc known ?lim) v2"
    using vs(1) res_map_Inr_length [OF vs(2)] res_map_all [OF vs(2) parse_candidate_ok [OF assms(1)]] by simp_all
  from r3 obtain us units where us: "res_map (parse_summary_unit nfc known (lim_sources ?lim)) (enumerate 0 us) = Inr units"
    "v3 = bounded_document_summary_units 32 units"
    by (auto simp: parse_summary_units_def invalid_response_def res_simps split: json.splits if_splits)
  have "list_all (summary_unit_ok nfc known (lim_sources ?lim)) units"
    using res_map_all [OF us(1) parse_summary_unit_ok [OF assms(1)]] .
  moreover have "set v3 \<subseteq> set units" by (auto simp: us(2) elim: list_emb_set [OF bounded_summary(1)])
  ultimately have summary: "list_all (summary_unit_ok nfc known (lim_sources ?lim)) v3" "length v3 \<le> 32"
    using bounded_summary(2) [of 32 units] by (auto simp: list_all_iff us(2))
  have perm: "mset (an_candidates a) = mset v2" using by_kind_mset [of v2] by (simp add: v(5) an_candidates_def)
  then have sets: "set (an_candidates a) = set v2" "length (an_candidates a) = length v2"
    by (metis set_mset_mset, metis size_mset)
  have "mset (map (candidate_identity nfkc casefold) (an_candidates a)) = mset (map (candidate_identity nfkc casefold) v2)"
    using perm by simp
  then have "distinct (map (candidate_identity nfkc casefold) (an_candidates a))"
    using v(4) mset_eq_imp_distinct_iff by blast
  with candidates summary description sets show ?thesis
    by (simp add: analysis_ok_def Let_def list_all_iff) (simp add: v(5))
qed

lemma filter_kinds:
  assumes "list_all (\<lambda>d. kd_kind d = Concept) cs" "list_all (\<lambda>d. kd_kind d = Entity) es"
    "list_all (\<lambda>d. kd_kind d = Procedure) ps"
  shows "filter (\<lambda>d. kd_kind d = Concept) (cs @ es @ ps) = cs" "filter (\<lambda>d. kd_kind d = Entity) (cs @ es @ ps) = es"
    "filter (\<lambda>d. kd_kind d = Procedure) (cs @ es @ ps) = ps"
  using assms by (auto simp: list_all_iff filter_id_conv filter_empty_conv)

lemma parse_of_as_dict:
  assumes "analysis_ok nfc nfkc casefold aggregate known a" "claims_distinct casefold a"
  shows "parse_knowledge_analysis nfc nfkc casefold (an_scope a) aggregate known (json_text (analysis_as_dict a)) = Inr a"
proof -
  let ?lim = "analysis_limits_of aggregate"
  let ?d = "[(''schema_version'', JStr analysis_schema_version), (''analysis_scope'', JStr (scope_text (an_scope a))),
    (''document_description'', JStr (an_description a)),
    (''document_summary'', JList (map summary_as_dict (an_summary a))),
    (''candidates'', JList (map candidate_as_dict (an_candidates a)))]"
  have ok: "py_join '' '' (py_split (an_description a)) = an_description a" "py_len (an_description a) \<le> 4000"
    "length (an_candidates a) \<le> lim_candidates ?lim" "list_all (candidate_ok nfc known ?lim) (an_candidates a)"
    "list_all (\<lambda>d. kd_kind d = Concept) (an_concepts a)" "list_all (\<lambda>d. kd_kind d = Entity) (an_entities a)"
    "list_all (\<lambda>d. kd_kind d = Procedure) (an_procedures a)" "distinct (map (candidate_identity nfkc casefold) (an_candidates a))"
    "length (an_summary a) \<le> 32" "list_all (summary_unit_ok nfc known (lim_sources ?lim)) (an_summary a)"
    using assms(1) unfolding analysis_ok_def Let_def by blast+
  have "res_map (parse_candidate nfc casefold known ?lim) (enumerate 0 (map candidate_as_dict (an_candidates a))) = Inr (an_candidates a)"
    unfolding res_map_Inr_iff using ok(4) assms(2)
    by (intro list_all2_enumerate parse_candidate_of) (auto simp: list_all_iff claims_distinct_def)
  then have candidates: "parse_candidates nfc casefold known ?lim (JList (map candidate_as_dict (an_candidates a))) = Inr (an_candidates a)"
    using ok(3) by (simp add: parse_candidates_def)
  have "res_map (parse_summary_unit nfc known (lim_sources ?lim)) (enumerate 0 (map summary_as_dict (an_summary a))) = Inr (an_summary a)"
    unfolding res_map_Inr_iff using ok(10)
    by (intro list_all2_enumerate parse_summary_unit_of) (auto simp: list_all_iff)
  moreover have "length (an_summary a) \<le> lim_units ?lim" using ok(9) by (simp add: analysis_limits_of_def)
  ultimately have summary: "parse_summary_units nfc known ?lim (JList (map summary_as_dict (an_summary a))) = Inr (an_summary a)"
    by (simp add: parse_summary_units_def)
  have "analysis_of_object nfc nfkc casefold (an_scope a) aggregate known ?d = Inr a"
    using ok(1,2,8,9) candidates summary filter_kinds [OF ok(5-7)]
    by (simp add: analysis_of_object_def has_fields_def analysis_fields_def dict_get_def Let_def string_field_def
        validated_or_default_def bounded_document_summary_units_def insert_commute flip: an_candidates_def)
  moreover have "json_loads (json_object_text (json_text (analysis_as_dict a))) = Some (JObj ?d)"
    using json_loads_text [OF as_dict_storable(5) [of a]]
    unfolding analysis_as_dict_def json_object_text_dict .
  ultimately show ?thesis by (simp add: parse_knowledge_analysis_def)
qed

lemma analysis_ok_unknown: "analysis_ok nfc nfkc casefold aggregate known a \<Longrightarrow> analysis_ok nfc nfkc casefold aggregate None a"
  by (auto simp: analysis_ok_def Let_def list_all_iff candidate_ok_def claim_ok_def applicability_ok_def sources_ok_def
      known_id_def summary_unit_ok_def)

text \<open>
  C5 Every accepted analysis is within its bounds and can be read back.  Whatever the parser
  accepts satisfies every limit: lengths, counts, known and unrepeated Evidence IDs, scopes
  whose Evidence their claim cites, distinct candidate identities, at most 32 summary units.
  Its checkpoint is read back as the same analysis, as long as the claims of each candidate
  stay apart (uniting the scopes of two equal claims can make a third one equal to them).
\<close>

theorem parsed_analysis_restores:
  assumes "nfc_stable nfc" "parse_knowledge_analysis nfc nfkc casefold scope aggregate known content = Inr a"
  shows "analysis_ok nfc nfkc casefold aggregate known a \<and> an_scope a = scope \<and>
    (claims_distinct casefold a \<longrightarrow>
       parse_knowledge_analysis nfc nfkc casefold scope aggregate None (json_text (analysis_as_dict a)) = Inr a)"
proof -
  from assms(2) obtain d where "analysis_of_object nfc nfkc casefold scope aggregate known d = Inr a"
    by (auto simp: parse_knowledge_analysis_def invalid_response_def split: option.splits json.splits)
  from analysis_of_object_ok [OF assms(1) this] show ?thesis
    using parse_of_as_dict [OF analysis_ok_unknown] by blast
qed

definition sample_analysis :: knowledge_analysis where
  "sample_analysis =
     \<lparr>an_description = ''d'',
      an_concepts = [\<lparr>kd_kind = Concept, kd_title = ''t'', kd_aliases = [], kd_labels = [],
        kd_claims = [\<lparr>kc_text = ''c'', kc_sources = [''e''], kc_applicability = []\<rparr>], kd_admission = Admit\<rparr>],
      an_entities = [], an_scope = Document_Scope, an_procedures = [], an_summary = []\<rparr>"

lemma sample_analysis_parses:
  "parse_knowledge_analysis (\<lambda>s. s) (\<lambda>s. s) (\<lambda>s. s) Document_Scope False None (json_text (analysis_as_dict sample_analysis)) =
     Inr sample_analysis"
proof -
  have "analysis_ok (\<lambda>s. s) (\<lambda>s. s) (\<lambda>s. s) False None sample_analysis" "claims_distinct (\<lambda>s. s) sample_analysis"
    by code_simp+
  from parse_of_as_dict [OF this] show ?thesis by (simp add: sample_analysis_def)
qed

lemma sample_claims_distinct: "claims_distinct (\<lambda>s. s) sample_analysis"
  by code_simp

theorem parsed_analysis_restores_witness:
  "analysis_ok (\<lambda>s. s) (\<lambda>s. s) (\<lambda>s. s) False None sample_analysis \<and> an_scope sample_analysis = Document_Scope \<and>
   parse_knowledge_analysis (\<lambda>s. s) (\<lambda>s. s) (\<lambda>s. s) Document_Scope False None (json_text (analysis_as_dict sample_analysis)) =
     Inr sample_analysis"
  using parsed_analysis_restores [OF _ sample_analysis_parses] sample_claims_distinct by (auto simp: nfc_stable_def)

end
