(* ===== verification/OrderedDict.thy ===== *)
theory OrderedDict
  imports Prelude
begin

section \<open>Loops that collect values in a dictionary\<close>

text \<open>
  A loop that looks a key up in a \<open>dict\<close>, stores a first value or joins the next one to it,
  groups its input by key: the keys in the order of their first appearance, each with the join
  of its values in order.  The interface is that of the loop body; the merges of analyses
  provide it.
\<close>

lemma uniq_snoc: "uniq (xs @ [x]) = (if x \<in> set xs then uniq xs else uniq xs @ [x])"
  by (induction xs) auto

lemma uniq_append: "uniq (xs @ ys) = uniq xs @ filter (\<lambda>y. y \<notin> set xs) (uniq ys)"
proof (induction ys rule: rev_induct)
  case (snoc y ys)
  then show ?case using uniq_snoc [of "xs @ ys" y] uniq_snoc [of ys y] by auto
qed simp

lemma filter_uniq: "filter P (uniq xs) = uniq (filter P xs)"
proof (induction xs)
  case (Cons a xs)
  have swap: "filter P (filter (\<lambda>y. y \<noteq> a) (uniq xs)) = filter (\<lambda>y. y \<noteq> a) (filter P (uniq xs))"
    by (simp add: conj_commute)
  show ?case
  proof (cases "P a")
    case True
    with Cons swap show ?thesis by simp
  next
    case False
    then have "filter P (filter (\<lambda>y. y \<noteq> a) (uniq xs)) = filter P (uniq xs)" by (auto intro!: filter_cong)
    with Cons False show ?thesis by (simp only: uniq.simps filter.simps if_False)
  qed
qed simp

lemma uniq_uniq_append: "uniq (uniq xs @ uniq ys) = uniq (xs @ ys)"
  by (simp add: uniq_append uniq_distinct)

lemma update_map_keys:
  "distinct ks \<Longrightarrow> AList.update k v (map (\<lambda>k. (k, g k)) ks) =
     (if k \<in> set ks then map (\<lambda>k'. (k', if k' = k then v else g k')) ks else map (\<lambda>k. (k, g k)) ks @ [(k, v)])"
  by (induction ks) auto

lemma map_of_map_keys: "map_of (map (\<lambda>k. (k, g k)) ks) k = (if k \<in> set ks then Some (g k) else None)"
  by (induction ks) auto

definition join_all :: "('x \<Rightarrow> 'v) \<Rightarrow> ('v \<Rightarrow> 'x \<Rightarrow> 'v) \<Rightarrow> 'x list \<Rightarrow> 'v" where
  "join_all init join xs = foldl join (init (hd xs)) (tl xs)"

definition group_by :: "('x \<Rightarrow> 'k) \<Rightarrow> ('x \<Rightarrow> 'v) \<Rightarrow> ('v \<Rightarrow> 'x \<Rightarrow> 'v) \<Rightarrow> 'x list \<Rightarrow> ('k \<times> 'v) list" where
  "group_by key init join xs = map (\<lambda>k. (k, join_all init join (filter (\<lambda>x. key x = k) xs))) (uniq (map key xs))"

lemma join_all_single [simp]: "join_all init join [x] = init x"
  by (simp add: join_all_def)

lemma join_all_pair: "join_all init join [x, y] = join (init x) y"
  by (simp add: join_all_def)

lemma join_all_snoc: "xs \<noteq> [] \<Longrightarrow> join_all init join (xs @ [x]) = join (join_all init join xs) x"
  by (cases xs) (simp_all add: join_all_def)

locale dict_loop =
  fixes step :: "'x \<Rightarrow> ('k \<times> 'v) list \<Rightarrow> ('k \<times> 'v) list" and key :: "'x \<Rightarrow> 'k"
    and init :: "'x \<Rightarrow> 'v" and join :: "'v \<Rightarrow> 'x \<Rightarrow> 'v"
  assumes step_update:
    "step x t = AList.update (key x) (case map_of t (key x) of None \<Rightarrow> init x | Some v \<Rightarrow> join v x) t"
begin

lemma step_group: "step x (group_by key init join xs) = group_by key init join (xs @ [x])"
proof -
  let ?g = "\<lambda>k. join_all init join (filter (\<lambda>x. key x = k) xs)"
  let ?ks = "uniq (map key xs)"
  have table: "group_by key init join xs = map (\<lambda>k. (k, ?g k)) ?ks" by (simp add: group_by_def)
  show ?thesis
  proof (cases "key x \<in> set ?ks")
    case True
    then have "filter (\<lambda>y. key y = key x) xs \<noteq> []" by (auto simp: filter_empty_conv)
    then have "join_all init join (filter (\<lambda>y. key y = key x) (xs @ [x])) = join (?g (key x)) x"
      by (simp add: join_all_snoc)
    moreover have "uniq (map key (xs @ [x])) = ?ks" using True by (simp add: uniq_snoc)
    ultimately show ?thesis using True
      by (auto simp: step_update table map_of_map_keys update_map_keys group_by_def)
  next
    case False
    then have "filter (\<lambda>y. key y = key x) xs = []" 
      by (simp add: filter_empty_conv) (metis imageI)
    moreover have "uniq (map key (xs @ [x])) = ?ks @ [key x]" using False by (simp add: uniq_snoc)
    ultimately show ?thesis using False
      by (auto simp: step_update table map_of_map_keys update_map_keys group_by_def)
  qed
qed

lemma loop_groups: "fold step xs [] = group_by key init join xs"
proof (induction xs rule: rev_induct)
  case (snoc x xs)
  then show ?case by (simp add: step_group)
qed (simp add: group_by_def)

lemma loop_keys: "map fst (fold step xs []) = uniq (map key xs)"
  by (simp add: loop_groups group_by_def comp_def)

lemma loop_row:
  "(k, v) \<in> set (fold step xs []) \<longleftrightarrow> k \<in> key ` set xs \<and> v = join_all init join (filter (\<lambda>x. key x = k) xs)"
  by (auto simp: loop_groups group_by_def)

end

text \<open>
  When the joined value is of the type of the elements, keeps their key and joining is
  associative, the groups of groups are the groups: merging in stages is merging at once.
\<close>

locale dict_merge = dict_loop step key "\<lambda>x. x" join
  for step :: "'x \<Rightarrow> ('k \<times> 'x) list \<Rightarrow> ('k \<times> 'x) list" and key :: "'x \<Rightarrow> 'k" and join :: "'x \<Rightarrow> 'x \<Rightarrow> 'x" +
  fixes ok :: "'x \<Rightarrow> bool"
  assumes join_ok: "ok a \<Longrightarrow> ok b \<Longrightarrow> key a = key b \<Longrightarrow> ok (join a b) \<and> key (join a b) = key a"
    and join_assoc: "ok a \<Longrightarrow> ok b \<Longrightarrow> ok c \<Longrightarrow> key a = key b \<Longrightarrow> key b = key c \<Longrightarrow>
      join a (join b c) = join (join a b) c"
begin

abbreviation "groups xs \<equiv> map snd (group_by key (\<lambda>x. x) join xs)"

abbreviation "joined xs \<equiv> join_all (\<lambda>x. x) join xs"

lemma joined_ok:
  "xs \<noteq> [] \<Longrightarrow> \<forall>x\<in>set xs. ok x \<and> key x = k \<Longrightarrow> ok (joined xs) \<and> key (joined xs) = k"
proof (induction xs rule: rev_induct)
  case (snoc x xs)
  then show ?case by (cases "xs = []") (auto simp: join_all_snoc join_ok)
qed simp

lemma joined_append:
  assumes "xs \<noteq> []" "\<forall>x\<in>set xs. ok x \<and> key x = k"
  shows "ys \<noteq> [] \<Longrightarrow> \<forall>x\<in>set ys. ok x \<and> key x = k \<Longrightarrow> join (joined xs) (joined ys) = joined (xs @ ys)"
proof (induction ys rule: rev_induct)
  case (snoc y ys)
  show ?case
  proof (cases "ys = []")
    case True
    with assms(1) show ?thesis by (simp add: join_all_snoc)
  next
    case False
    with snoc have "join (joined xs) (joined ys) = joined (xs @ ys)" "ok (joined ys) \<and> key (joined ys) = k" "ok y \<and> key y = k"
      using joined_ok [of ys k] by auto
    moreover have "ok (joined xs) \<and> key (joined xs) = k" using joined_ok [OF assms] .
    ultimately have "join (joined xs) (join (joined ys) y) = join (joined (xs @ ys)) y" by (metis join_assoc)
    with False assms(1) show ?thesis by (simp add: join_all_snoc flip: append_assoc)
  qed
qed simp

lemma group_of_key:
  assumes "\<forall>x\<in>set xs. ok x" "k \<in> key ` set xs"
  shows "ok (joined (filter (\<lambda>x. key x = k) xs)) \<and> key (joined (filter (\<lambda>x. key x = k) xs)) = k"
proof (rule joined_ok)
  show "filter (\<lambda>x. key x = k) xs \<noteq> []" using assms(2) by (auto simp: filter_empty_conv)
qed (use assms(1) in simp)

lemma groups_keys:
  assumes "\<forall>x\<in>set xs. ok x"
  shows "map key (groups xs) = uniq (map key xs)"
  using group_of_key [OF assms] by (auto simp: group_by_def intro!: map_idI)

lemma groups_ok:
  assumes "\<forall>x\<in>set xs. ok x"
  shows "\<forall>x\<in>set (groups xs). ok x"
  using group_of_key [OF assms] by (auto simp: group_by_def)

lemma filter_distinct_key:
  "distinct ks \<Longrightarrow> \<forall>k\<in>set ks. key (g k) = k \<Longrightarrow> filter (\<lambda>x. key x = k) (map g ks) = (if k \<in> set ks then [g k] else [])"
  by (induction ks) (auto simp: filter_empty_conv)

lemma groups_filter:
  assumes "\<forall>x\<in>set xs. ok x"
  shows "filter (\<lambda>x. key x = k) (groups xs) =
    (if k \<in> key ` set xs then [joined (filter (\<lambda>x. key x = k) xs)] else [])"
proof -
  have "\<forall>k\<in>set (uniq (map key xs)). key (joined (filter (\<lambda>x. key x = k) xs)) = k"
    using group_of_key [OF assms] by simp
  from filter_distinct_key [OF distinct_uniq this, of k] show ?thesis by (simp add: group_by_def comp_def)
qed

lemma group_groups:
  assumes "\<forall>x\<in>set xs. ok x" "\<forall>x\<in>set ys. ok x"
  shows "group_by key (\<lambda>x. x) join (groups xs @ groups ys) = group_by key (\<lambda>x. x) join (xs @ ys)"
proof -
  have keys: "uniq (map key (groups xs @ groups ys)) = uniq (map key (xs @ ys))"
    using groups_keys [OF assms(1)] groups_keys [OF assms(2)] by (simp add: uniq_uniq_append)
  have eq: "joined (filter (\<lambda>x. key x = k) (groups xs @ groups ys)) = joined (filter (\<lambda>x. key x = k) (xs @ ys))"
    if "k \<in> set (uniq (map key (xs @ ys)))" for k
  proof -
    let ?fx = "filter (\<lambda>x. key x = k) xs" and ?fy = "filter (\<lambda>x. key x = k) ys"
    have both: "joined [joined ?fx, joined ?fy] = joined (?fx @ ?fy)" if "?fx \<noteq> []" "?fy \<noteq> []"
    proof -
      have "join (joined ?fx) (joined ?fy) = joined (?fx @ ?fy)"
        by (rule joined_append [where k = k]) (use that assms in auto)
      then show ?thesis by (simp only: join_all_pair)
    qed
    have one: "filter (\<lambda>x. key x = k) (groups zs) = (if filter (\<lambda>x. key x = k) zs = [] then [] else [joined (filter (\<lambda>x. key x = k) zs)])"
      if "\<forall>x\<in>set zs. ok x" for zs
      using groups_filter [OF that, of k] by (auto simp: filter_empty_conv)
    from that have "?fx \<noteq> [] \<or> ?fy \<noteq> []" by (auto simp: filter_empty_conv)
    with both one [OF assms(1)] one [OF assms(2)] show ?thesis
      by (cases "?fx = []"; cases "?fy = []") (simp_all only: filter_append if_True if_False append_Nil append_Nil2 append_Cons join_all_single simp_thms)
  qed
  show ?thesis
    unfolding group_by_def [of key "\<lambda>x. x" join "groups xs @ groups ys"] group_by_def [of key "\<lambda>x. x" join "xs @ ys"] keys
    by (rule map_cong [OF refl]) (simp only: eq)
qed

end

end
