(* ===== verification/AnalysisMerge.thy ===== *)
theory AnalysisMerge
  imports AnalysisRestore OrderedDict
begin

section \<open>Merging the analyses of the batches of a document\<close>

text \<open>
  \<open>openkb/knowledge/analysis/merge.py\<close>: candidates of equal kind and title become one, their
  equal claims one claim with the Evidence of all.  The dictionaries of the source are
  association lists, which keep the order of insertion.
\<close>

subsection \<open>The merge as the code computes it\<close>

definition normalized_text_of :: "(string \<Rightarrow> string) \<Rightarrow> string \<Rightarrow> string" where
  "normalized_text_of casefold v = casefold (py_join '' '' (py_split v))"

fun extend_unique_loop :: "(string \<Rightarrow> string) \<Rightarrow> string list \<Rightarrow> string list \<Rightarrow> string list \<Rightarrow> string list" where
  "extend_unique_loop norm seen target [] = target"
| "extend_unique_loop norm seen target (v # vs) =
     (if norm v \<noteq> [] \<and> norm v \<notin> set seen
      then extend_unique_loop norm (norm v # seen) (target @ [py_strip v]) vs
      else extend_unique_loop norm seen target vs)"

definition extend_unique :: "(string \<Rightarrow> string) \<Rightarrow> string list \<Rightarrow> string list \<Rightarrow> string list" where
  "extend_unique casefold target vs =
     (let norm = normalized_text_of casefold in extend_unique_loop norm (map norm target) target vs)"

definition merge_scope_key :: "(string \<Rightarrow> string) \<Rightarrow> claim_applicability \<Rightarrow> string \<times> string" where
  "merge_scope_key casefold e = (normalized_text_of casefold (ka_dimension e), normalized_text_of casefold (ka_value e))"

type_synonym claim_key = "(string \<times> string) list \<times> string"

definition merge_claim_key :: "(string \<Rightarrow> string) \<Rightarrow> analysis_claim \<Rightarrow> claim_key" where
  "merge_claim_key casefold c =
     (sort (map (merge_scope_key casefold) (kc_applicability c)), normalized_text_of casefold (kc_text c))"

definition unite_claim :: "(string \<Rightarrow> string) \<Rightarrow> analysis_claim \<Rightarrow> analysis_claim \<Rightarrow> analysis_claim" where
  "unite_claim casefold existing c =
     \<lparr>kc_text = kc_text existing, kc_sources = uniq (kc_sources existing @ kc_sources c),
      kc_applicability = merge_entries (merge_scope_key casefold) (kc_applicability existing) (kc_applicability c)\<rparr>"

definition add_claim ::
  "(string \<Rightarrow> string) \<Rightarrow> analysis_claim \<Rightarrow> (claim_key \<times> analysis_claim) list \<Rightarrow> (claim_key \<times> analysis_claim) list" where
  "add_claim casefold c claims =
     AList.update (merge_claim_key casefold c)
       (case map_of claims (merge_claim_key casefold c) of None \<Rightarrow> c | Some existing \<Rightarrow> unite_claim casefold existing c) claims"

record accumulator =
  ac_candidate :: candidate
  ac_aliases :: "string list"
  ac_labels :: "string list"
  ac_admissions :: "candidate_admission list"
  ac_claims :: "(claim_key \<times> analysis_claim) list"

definition new_accumulator :: "candidate \<Rightarrow> accumulator" where
  "new_accumulator d = \<lparr>ac_candidate = d, ac_aliases = [], ac_labels = [], ac_admissions = [], ac_claims = []\<rparr>"

definition accumulate :: "(string \<Rightarrow> string) \<Rightarrow> candidate \<Rightarrow> accumulator \<Rightarrow> accumulator" where
  "accumulate casefold d cur = cur
     \<lparr>ac_aliases := extend_unique casefold (ac_aliases cur) (kd_aliases d),
      ac_labels := extend_unique casefold (ac_labels cur) (kd_labels d),
      ac_admissions := ac_admissions cur @ [kd_admission d],
      ac_claims := fold (add_claim casefold) (kd_claims d) (ac_claims cur)\<rparr>"

type_synonym candidate_key = "candidate_kind \<times> string"

definition add_candidate ::
  "(string \<Rightarrow> string) \<Rightarrow> (string \<Rightarrow> string) \<Rightarrow> candidate \<Rightarrow> (candidate_key \<times> accumulator) list \<Rightarrow>
    (candidate_key \<times> accumulator) list" where
  "add_candidate nfkc casefold d table =
     (let key = candidate_identity nfkc casefold d in
      AList.update key
        (accumulate casefold d (case map_of table key of None \<Rightarrow> new_accumulator d | Some cur \<Rightarrow> cur)) table)"

definition agreed_admission :: "candidate_admission list \<Rightarrow> candidate_admission" where
  "agreed_admission as = (if length (remdups as) = 1 then hd as else Review)"

definition merged_candidate :: "candidate_key \<times> accumulator \<Rightarrow> candidate" where
  "merged_candidate = (\<lambda>((kind, title), cur).
     \<lparr>kd_kind = kind, kd_title = py_strip (kd_title (ac_candidate cur)), kd_aliases = ac_aliases cur,
      kd_labels = ac_labels cur, kd_claims = map snd (ac_claims cur), kd_admission = agreed_admission (ac_admissions cur)\<rparr>)"

text \<open>The six sentence endings: a full stop, an exclamation and a question mark of either width.\<close>

definition sentence_ending :: "string \<Rightarrow> bool" where
  "sentence_ending u \<longleftrightarrow> u \<in> {''.'', ''!'', ''?'', [CHR 0xE3, CHR 0x80, CHR 0x82], [CHR 0xEF, CHR 0xBC, CHR 0x81],
     [CHR 0xEF, CHR 0xBC, CHR 0x9F]}"

definition py_rstrip_chars :: "string list \<Rightarrow> string" where
  "py_rstrip_chars us = concat (rev (dropWhile py_isspace (rev us)))"

definition bounded_description :: "string \<Rightarrow> string" where
  "bounded_description v =
     (let normalized = py_chars (py_strip v) in
      if length normalized \<le> 4000 then concat normalized
      else let pre = take 4000 normalized; ends = filter (\<lambda>i. sentence_ending (pre ! i)) [0..<length pre] in
        if ends \<noteq> [] \<and> 4000 div 2 \<le> last ends then py_rstrip_chars (take (last ends + 1) pre)
        else py_rstrip_chars (butlast pre) @ [CHR 0xE2, CHR 0x80, CHR 0xA6])"

definition deterministic_description :: "(string \<Rightarrow> string) \<Rightarrow> knowledge_analysis list \<Rightarrow> string" where
  "deterministic_description casefold as =
     bounded_description (py_join '' '' (extend_unique casefold [] (map an_description as)))"

definition summary_key :: "(string \<Rightarrow> string) \<Rightarrow> summary_unit \<Rightarrow> string \<times> string" where
  "summary_key casefold u = (normalized_text_of casefold (ks_label u), normalized_text_of casefold (ks_text u))"

definition add_summary ::
  "(string \<Rightarrow> string) \<Rightarrow> summary_unit \<Rightarrow> ((string \<times> string) \<times> summary_unit) list \<Rightarrow> ((string \<times> string) \<times> summary_unit) list" where
  "add_summary casefold u merged =
     AList.update (summary_key casefold u)
       (case map_of merged (summary_key casefold u) of
          None \<Rightarrow> u
        | Some existing \<Rightarrow> existing\<lparr>ks_sources := uniq (ks_sources existing @ ks_sources u)\<rparr>) merged"

definition merge_summary_units :: "(string \<Rightarrow> string) \<Rightarrow> knowledge_analysis list \<Rightarrow> summary_unit list" where
  "merge_summary_units casefold as =
     bounded_document_summary_units 32
       (map snd (fold (add_summary casefold) (concat (map an_summary as)) []))"

definition merge_table ::
  "(string \<Rightarrow> string) \<Rightarrow> (string \<Rightarrow> string) \<Rightarrow> candidate list \<Rightarrow> (candidate_key \<times> accumulator) list" where
  "merge_table nfkc casefold ds = fold (add_candidate nfkc casefold) ds []"

definition deterministic_merge_knowledge ::
  "(string \<Rightarrow> string) \<Rightarrow> (string \<Rightarrow> string) \<Rightarrow> knowledge_analysis list \<Rightarrow> knowledge_analysis" where
  "deterministic_merge_knowledge nfkc casefold as =
     (let merged = map merged_candidate (merge_table nfkc casefold (concat (map an_candidates as))) in
      \<lparr>an_description = deterministic_description casefold as,
       an_concepts = filter (\<lambda>d. kd_kind d = Concept) merged,
       an_entities = filter (\<lambda>d. kd_kind d = Entity) merged,
       an_scope = Document_Scope,
       an_procedures = filter (\<lambda>d. kd_kind d = Procedure) merged,
       an_summary = merge_summary_units casefold as\<rparr>)"

definition merge_split_batch_analyses ::
  "(string \<Rightarrow> string) \<Rightarrow> (string \<Rightarrow> string) \<Rightarrow> knowledge_analysis list \<Rightarrow> knowledge_analysis" where
  "merge_split_batch_analyses nfkc casefold as =
     (deterministic_merge_knowledge nfkc casefold as)\<lparr>an_scope := Batch_Scope\<rparr>"

text \<open>\<open>parse_merged_description\<close>: the projection a merge node may return.\<close>

definition parse_merged_description :: "string \<Rightarrow> string res" where
  "parse_merged_description content =
     (case json_loads content of
        None \<Rightarrow> Inl (ValueError ''Knowledge Analysis merge returned invalid JSON.'')
      | Some (JObj d) \<Rightarrow>
          if has_fields d [''document_description''] \<or>
             (has_fields d [''schema_version'', ''analysis_scope'', ''document_description'', ''concepts'', ''entities''] \<and>
              dict_get d ''concepts'' = JList [] \<and> dict_get d ''entities'' = JList [])
          then (case dict_get d ''document_description'' of
                  JStr description \<Rightarrow> Inr (bounded_description description)
                | _ \<Rightarrow> Inl (ValueError ''Knowledge Analysis merge description must be a string.''))
          else Inl (ValueError ''Knowledge Analysis merge may return only document_description.'')
      | Some v \<Rightarrow> Inl (ValueError ''Knowledge Analysis merge must return one object.''))"

subsection \<open>Scopes and claims as groups\<close>

lemma uniq_uniq_append_sides: "uniq (xs @ uniq ys) = uniq (xs @ ys)" "uniq (uniq xs @ ys) = uniq (xs @ ys)"
  using uniq_uniq_append [of xs "uniq ys"] uniq_uniq_append [of xs ys] by (simp_all add: uniq_append uniq_distinct)

lemma unite_entry_key [simp]: "merge_scope_key casefold (unite_entry a b) = merge_scope_key casefold a"
  by (simp add: merge_scope_key_def unite_entry_def)

interpretation scopes: dict_merge
  "\<lambda>e by_scope. AList.update (merge_scope_key casefold e)
     (case map_of by_scope (merge_scope_key casefold e) of None \<Rightarrow> e | Some existing \<Rightarrow> unite_entry existing e) by_scope"
  "merge_scope_key casefold" unite_entry "\<lambda>e. True"
  for casefold
  by unfold_locales (simp, simp, simp add: unite_entry_def uniq_uniq_append_sides)

text \<open>The united scopes of a list of entries: one entry per key, in the order of the keys.\<close>

definition united_scopes :: "(string \<Rightarrow> string) \<Rightarrow> claim_applicability list \<Rightarrow> claim_applicability list" where
  "united_scopes casefold es =
     map (\<lambda>k. join_all (\<lambda>e. e) unite_entry (filter (\<lambda>e. merge_scope_key casefold e = k) es))
       (sort (uniq (map (merge_scope_key casefold) es)))"

lemma merge_entries_united: "merge_entries (merge_scope_key casefold) l r = united_scopes casefold (l @ r)"
  by (simp only: merge_entries_def scopes.loop_groups group_by_def united_scopes_def sort_key_map map_map comp_def
      fst_conv snd_conv)

lemma group_key:
  "k \<in> merge_scope_key casefold ` set es \<Longrightarrow>
     merge_scope_key casefold (join_all (\<lambda>e. e) unite_entry (filter (\<lambda>e. merge_scope_key casefold e = k) es)) = k"
  using scopes.group_of_key [of es k casefold] by simp

lemma united_scopes_keys: "map (merge_scope_key casefold) (united_scopes casefold es) = sort (uniq (map (merge_scope_key casefold) es))"
  using group_key by (auto simp: united_scopes_def intro!: map_idI)

lemma sort_uniq_set: "set xs = set ys \<Longrightarrow> sort (uniq xs) = sort (uniq ys)" for xs ys :: "'a::linorder list"
  by (rule sorted_distinct_set_unique) auto

lemma united_scopes_filter:
  "filter (\<lambda>e. merge_scope_key casefold e = k) (united_scopes casefold es) =
    (if k \<in> merge_scope_key casefold ` set es
     then [join_all (\<lambda>e. e) unite_entry (filter (\<lambda>e. merge_scope_key casefold e = k) es)] else [])"
  unfolding united_scopes_def using group_key [where casefold = casefold and es = es]
  by (subst scopes.filter_distinct_key) auto

lemma united_scopes_append:
  "united_scopes casefold (a @ united_scopes casefold es) = united_scopes casefold (a @ es)"
  "united_scopes casefold (united_scopes casefold es @ a) = united_scopes casefold (es @ a)"
proof -
  let ?K = "merge_scope_key casefold" and ?J = "\<lambda>k es. join_all (\<lambda>e. e) unite_entry (filter (\<lambda>e. merge_scope_key casefold e = k) es)"
  have set_keys: "set (map ?K (united_scopes casefold es)) = set (map ?K es)" by (simp only: united_scopes_keys set_sort set_uniq)
  have right: "?J k (a @ united_scopes casefold es) = ?J k (a @ es)" and left: "?J k (united_scopes casefold es @ a) = ?J k (es @ a)" for k
  proof -
    let ?fa = "filter (\<lambda>e. ?K e = k) a" and ?fe = "filter (\<lambda>e. ?K e = k) es"
    have one: "filter (\<lambda>e. ?K e = k) (united_scopes casefold es) = (if ?fe = [] then [] else [join_all (\<lambda>e. e) unite_entry ?fe])"
      by (auto simp: united_scopes_filter filter_empty_conv)
    have join: "unite_entry (join_all (\<lambda>e. e) unite_entry xs) (join_all (\<lambda>e. e) unite_entry ys) = join_all (\<lambda>e. e) unite_entry (xs @ ys)"
      if "xs \<noteq> []" "ys \<noteq> []" "\<forall>e\<in>set (xs @ ys). ?K e = k" for xs ys
      using scopes.joined_append [of xs casefold k ys] that by simp
    have snoc: "join_all (\<lambda>e. e) unite_entry (?fa @ [join_all (\<lambda>e. e) unite_entry ?fe]) = join_all (\<lambda>e. e) unite_entry (?fa @ ?fe)"
      if "?fe \<noteq> []"
    proof (cases "?fa = []")
      case False
      have "unite_entry (join_all (\<lambda>e. e) unite_entry ?fa) (join_all (\<lambda>e. e) unite_entry ?fe) = join_all (\<lambda>e. e) unite_entry (?fa @ ?fe)"
        by (rule join [OF False that]) auto
      with join_all_snoc [OF False] show ?thesis by metis
    qed (simp only: append_Nil join_all_single)
    have cons: "join_all (\<lambda>e. e) unite_entry (join_all (\<lambda>e. e) unite_entry ?fe # ?fa) = join_all (\<lambda>e. e) unite_entry (?fe @ ?fa)"
      if "?fe \<noteq> []"
      using that by (cases ?fe) (simp_all add: join_all_def)
    show "?J k (a @ united_scopes casefold es) = ?J k (a @ es)"
    proof (cases "?fe = []")
      case False
      from snoc [OF this] show ?thesis unfolding filter_append one if_not_P [OF False] .
    qed (unfold filter_append one, simp)
    show "?J k (united_scopes casefold es @ a) = ?J k (es @ a)"
    proof (cases "?fe = []")
      case False
      from cons [OF this] show ?thesis unfolding filter_append one if_not_P [OF False] by simp
    qed (unfold filter_append one, simp)
  qed
  have "sort (uniq (map ?K (a @ united_scopes casefold es))) = sort (uniq (map ?K (a @ es)))"
    "sort (uniq (map ?K (united_scopes casefold es @ a))) = sort (uniq (map ?K (es @ a)))"
    using set_keys by (auto intro!: sort_uniq_set)
  then show "united_scopes casefold (a @ united_scopes casefold es) = united_scopes casefold (a @ es)"
    "united_scopes casefold (united_scopes casefold es @ a) = united_scopes casefold (es @ a)"
    unfolding united_scopes_def [of _ "_ @ _"] using right left by simp_all
qed

text \<open>A claim whose scopes have different keys; parsed claims may repeat one in another case.\<close>

definition scoped_claim :: "(string \<Rightarrow> string) \<Rightarrow> analysis_claim \<Rightarrow> bool" where
  "scoped_claim casefold c \<longleftrightarrow> distinct (map (merge_scope_key casefold) (kc_applicability c))"

lemma unite_claim_eq:
  "unite_claim casefold a b =
     \<lparr>kc_text = kc_text a, kc_sources = uniq (kc_sources a @ kc_sources b),
      kc_applicability = united_scopes casefold (kc_applicability a @ kc_applicability b)\<rparr>"
  by (simp add: unite_claim_def merge_entries_united)

lemma unite_claim_keeps_key:
  assumes "scoped_claim casefold a" "merge_claim_key casefold a = merge_claim_key casefold b"
  shows "merge_claim_key casefold (unite_claim casefold a b) = merge_claim_key casefold a"
proof -
  let ?K = "merge_scope_key casefold"
  have "sort (map ?K (kc_applicability a)) = sort (map ?K (kc_applicability b))"
    using assms(2) by (simp add: merge_claim_key_def)
  then have "set (sort (map ?K (kc_applicability a))) = set (sort (map ?K (kc_applicability b)))" by (rule arg_cong)
  then have "set (map ?K (kc_applicability a)) = set (map ?K (kc_applicability b))" by (simp only: set_sort)
  then have "sort (uniq (map ?K (kc_applicability a @ kc_applicability b))) = sort (uniq (map ?K (kc_applicability a)))"
    by (auto intro!: sort_uniq_set)
  also have "\<dots> = sort (map ?K (kc_applicability a))" using assms(1) by (simp add: scoped_claim_def uniq_distinct)
  finally show ?thesis
    by (simp only: merge_claim_key_def unite_claim_eq analysis_claim.simps united_scopes_keys sorted_sort_id [OF sorted_sort])
qed

lemma repeated_scope_changes_key:
  assumes "\<not> scoped_claim casefold c"
  shows "merge_claim_key casefold (unite_claim casefold c c) \<noteq> merge_claim_key casefold c"
proof -
  let ?ks = "map (merge_scope_key casefold) (kc_applicability c)"
  have "set (uniq (?ks @ ?ks)) = set ?ks" by simp
  moreover have "distinct (uniq (?ks @ ?ks))" by (rule distinct_uniq)
  ultimately have "length (uniq (?ks @ ?ks)) = card (set ?ks)" using distinct_card by metis
  moreover have "card (set ?ks) < length ?ks"
    using assms card_length [of ?ks] card_distinct [of ?ks] unfolding scoped_claim_def by (metis le_neq_implies_less)
  ultimately have "length (sort (uniq (?ks @ ?ks))) \<noteq> length (sort ?ks)" by simp
  then have "sort (uniq (?ks @ ?ks)) \<noteq> sort ?ks" by metis
  then show ?thesis
    by (simp add: merge_claim_key_def unite_claim_eq united_scopes_keys sorted_sort_id)
qed

interpretation claims: dict_merge "add_claim casefold" "merge_claim_key casefold" "unite_claim casefold" "scoped_claim casefold"
  for casefold
proof (unfold_locales, goal_cases)
  case (1 c t)
  show ?case by (simp add: add_claim_def)
next
  case (2 a b)
  have "scoped_claim casefold (unite_claim casefold a b)"
    by (simp only: scoped_claim_def unite_claim_eq analysis_claim.simps united_scopes_keys) simp
  with 2 unite_claim_keeps_key show ?case by blast
next
  case (3 a b c)
  show ?case by (simp add: unite_claim_eq uniq_uniq_append_sides united_scopes_append)
qed

interpretation candidates: dict_loop "add_candidate nfkc casefold" "candidate_identity nfkc casefold"
  "\<lambda>d. accumulate casefold d (new_accumulator d)" "\<lambda>cur d. accumulate casefold d cur"
  for nfkc casefold
  by unfold_locales (simp add: add_candidate_def Let_def split: option.split)

interpretation summaries: dict_loop "add_summary casefold" "summary_key casefold" "\<lambda>u. u"
  "\<lambda>existing u. existing\<lparr>ks_sources := uniq (ks_sources existing @ ks_sources u)\<rparr>"
  for casefold
  by unfold_locales (simp add: add_summary_def)

subsection \<open>The merge as groups\<close>

text \<open>The candidate of one group: what the accumulator of its key holds at the end.\<close>

definition merged_group :: "(string \<Rightarrow> string) \<Rightarrow> candidate_key \<Rightarrow> candidate list \<Rightarrow> candidate" where
  "merged_group casefold key ds =
     \<lparr>kd_kind = fst key, kd_title = py_strip (kd_title (hd ds)),
      kd_aliases = foldl (extend_unique casefold) [] (map kd_aliases ds),
      kd_labels = foldl (extend_unique casefold) [] (map kd_labels ds),
      kd_claims = map snd (group_by (merge_claim_key casefold) (\<lambda>c. c) (unite_claim casefold) (concat (map kd_claims ds))),
      kd_admission = agreed_admission (map kd_admission ds)\<rparr>"

lemma accumulated_group:
  "ds \<noteq> [] \<Longrightarrow> join_all (\<lambda>d. accumulate casefold d (new_accumulator d)) (\<lambda>cur d. accumulate casefold d cur) ds =
     \<lparr>ac_candidate = hd ds, ac_aliases = foldl (extend_unique casefold) [] (map kd_aliases ds),
      ac_labels = foldl (extend_unique casefold) [] (map kd_labels ds), ac_admissions = map kd_admission ds,
      ac_claims = fold (add_claim casefold) (concat (map kd_claims ds)) []\<rparr>"
proof (induction ds rule: rev_induct)
  case (snoc d ds)
  then show ?case
    by (cases "ds = []") (simp_all add: join_all_snoc accumulate_def new_accumulator_def)
qed simp

lemma merged_table:
  "map merged_candidate (merge_table nfkc casefold ds) =
     map (\<lambda>k. merged_group casefold k (filter (\<lambda>d. candidate_identity nfkc casefold d = k) ds))
       (uniq (map (candidate_identity nfkc casefold) ds))"
proof -
  have "merged_candidate (k, join_all (\<lambda>d. accumulate casefold d (new_accumulator d)) (\<lambda>cur d. accumulate casefold d cur)
      (filter (\<lambda>d. candidate_identity nfkc casefold d = k) ds)) =
    merged_group casefold k (filter (\<lambda>d. candidate_identity nfkc casefold d = k) ds)"
    if "k \<in> set (uniq (map (candidate_identity nfkc casefold) ds))" for k
  proof -
    have "filter (\<lambda>d. candidate_identity nfkc casefold d = k) ds \<noteq> []" using that by (auto simp: filter_empty_conv)
    then show ?thesis
      by (cases k) (simp add: merged_candidate_def merged_group_def accumulated_group claims.loop_groups)
  qed
  then show ?thesis by (simp add: merge_table_def candidates.loop_groups group_by_def)
qed

text \<open>The groups of one kind, in the order of their first candidate.\<close>

definition merged_of_kind ::
  "(string \<Rightarrow> string) \<Rightarrow> (string \<Rightarrow> string) \<Rightarrow> candidate_kind \<Rightarrow> candidate list \<Rightarrow> candidate list" where
  "merged_of_kind nfkc casefold kind ds =
     map (\<lambda>k. merged_group casefold k (filter (\<lambda>d. candidate_identity nfkc casefold d = k) ds))
       (filter (\<lambda>k. fst k = kind) (uniq (map (candidate_identity nfkc casefold) ds)))"

lemma filter_merged_kind:
  "filter (\<lambda>d. kd_kind d = kind) (map merged_candidate (merge_table nfkc casefold ds)) = merged_of_kind nfkc casefold kind ds"
  by (simp add: merged_table merged_of_kind_def filter_map comp_def merged_group_def)

subsection \<open>Aliases and admissions of groups of groups\<close>

fun fresh_values :: "(string \<Rightarrow> string) \<Rightarrow> string set \<Rightarrow> string list \<Rightarrow> string list" where
  "fresh_values norm seen [] = []"
| "fresh_values norm seen (v # vs) =
     (if norm v \<noteq> [] \<and> norm v \<notin> seen then v # fresh_values norm (insert (norm v) seen) vs else fresh_values norm seen vs)"

lemma extend_unique_fresh: "extend_unique_loop norm seen target vs = target @ map py_strip (fresh_values norm (set seen) vs)"
  by (induction vs arbitrary: seen target) auto

lemma fresh_values_append:
  "fresh_values norm S (xs @ ys) = fresh_values norm S xs @ fresh_values norm (S \<union> norm ` set (fresh_values norm S xs)) ys"
  by (induction xs arbitrary: S) auto

lemma fresh_values_fresh: "T \<subseteq> S \<Longrightarrow> fresh_values norm S (fresh_values norm T vs) = fresh_values norm S vs"
proof (induction vs arbitrary: S T)
  case (Cons v vs)
  from Cons.prems have "insert (norm v) T \<subseteq> insert (norm v) S" by blast
  with Cons show ?case by auto
qed simp

lemma fresh_values_strip:
  "(\<And>v. norm (py_strip v) = norm v) \<Longrightarrow> fresh_values norm S (map py_strip vs) = map py_strip (fresh_values norm S vs)"
  by (induction vs arbitrary: S) auto

lemma normalized_text_strip [simp]: "normalized_text_of casefold (py_strip v) = normalized_text_of casefold v"
  by (simp add: normalized_text_of_def)

lemma extend_unique_append: "extend_unique casefold (extend_unique casefold t xs) ys = extend_unique casefold t (xs @ ys)"
  by (simp add: extend_unique_def Let_def extend_unique_fresh fresh_values_append image_image image_Un Un_assoc)

lemma foldl_extend_unique: "foldl (extend_unique casefold) t vss = extend_unique casefold t (concat vss)"
  by (induction vss arbitrary: t) (simp_all add: extend_unique_append, simp add: extend_unique_def)

lemma extend_unique_stages:
  "extend_unique casefold [] (extend_unique casefold [] xs @ extend_unique casefold [] ys) = extend_unique casefold [] (xs @ ys)"
proof -
  let ?F = "fresh_values (normalized_text_of casefold)"
  have U: "extend_unique casefold [] vs = map py_strip (?F {} vs)" for vs
    by (simp add: extend_unique_def Let_def extend_unique_fresh)
  have "?F {} (map py_strip (?F {} xs) @ map py_strip (?F {} ys)) = map py_strip (?F {} (?F {} xs @ ?F {} ys))"
    by (simp add: fresh_values_strip flip: map_append)
  also have "?F {} (?F {} xs @ ?F {} ys) = ?F {} (xs @ ys)"
    by (simp add: fresh_values_append fresh_values_fresh)
  finally show ?thesis by (simp add: U comp_def)
qed

lemma agreed_admission_eq: "as \<noteq> [] \<Longrightarrow> agreed_admission as = (if \<forall>a\<in>set as. a = hd as then hd as else Review)"
proof -
  assume "as \<noteq> []"
  then have "card (set as) = 1 \<longleftrightarrow> (\<forall>a\<in>set as. a = hd as)"
    by (auto simp: card_1_singleton_iff intro!: exI [of _ "hd as"]) (metis hd_in_set singletonD)
  then show ?thesis by (simp add: agreed_admission_def length_remdups_card_conv)
qed

lemma agreed_admission_append:
  "as \<noteq> [] \<Longrightarrow> bs \<noteq> [] \<Longrightarrow> agreed_admission [agreed_admission as, agreed_admission bs] = agreed_admission (as @ bs)"
  by (cases as; cases bs) (auto simp: agreed_admission_eq)

lemma agreed_admission_single [simp]: "agreed_admission [a] = a"
  by (simp add: agreed_admission_def)

subsection \<open>Merging in stages\<close>

definition mergeable :: "(string \<Rightarrow> string) \<Rightarrow> candidate \<Rightarrow> bool" where
  "mergeable casefold d \<longleftrightarrow> py_strip (kd_title d) = kd_title d \<and> list_all (scoped_claim casefold) (kd_claims d)"

lemma merged_group_fields [simp]:
  "kd_kind (merged_group casefold k ds) = fst k"
  "kd_title (merged_group casefold k ds) = py_strip (kd_title (hd ds))"
  "kd_aliases (merged_group casefold k ds) = extend_unique casefold [] (concat (map kd_aliases ds))"
  "kd_labels (merged_group casefold k ds) = extend_unique casefold [] (concat (map kd_labels ds))"
  "kd_claims (merged_group casefold k ds) =
     map snd (group_by (merge_claim_key casefold) (\<lambda>c. c) (unite_claim casefold) (concat (map kd_claims ds)))"
  "kd_admission (merged_group casefold k ds) = agreed_admission (map kd_admission ds)"
  by (simp_all add: merged_group_def foldl_extend_unique)

lemma mergeable_claims: "list_all (mergeable casefold) ds \<Longrightarrow> \<forall>c\<in>set (concat (map kd_claims ds)). scoped_claim casefold c"
  by (auto simp: mergeable_def list_all_iff)

lemma merged_group_stages:
  assumes "list_all (mergeable casefold) xs" "list_all (mergeable casefold) ys" "xs \<noteq> []" "ys \<noteq> []"
  shows "merged_group casefold k [merged_group casefold k xs, merged_group casefold k ys] = merged_group casefold k (xs @ ys)"
proof (rule candidate.equality)
  show "kd_claims (merged_group casefold k [merged_group casefold k xs, merged_group casefold k ys]) =
      kd_claims (merged_group casefold k (xs @ ys))"
    using claims.group_groups [OF mergeable_claims [OF assms(1)] mergeable_claims [OF assms(2)]] by simp
  show "kd_admission (merged_group casefold k [merged_group casefold k xs, merged_group casefold k ys]) =
      kd_admission (merged_group casefold k (xs @ ys))"
    using agreed_admission_append [of "map kd_admission xs" "map kd_admission ys"] assms(3,4) by simp
qed (use assms(3) in \<open>simp_all add: extend_unique_stages\<close>)

lemma merged_group_again:
  assumes "list_all (mergeable casefold) xs" "xs \<noteq> []"
  shows "merged_group casefold k [merged_group casefold k xs] = merged_group casefold k xs"
proof (rule candidate.equality)
  have "group_by (merge_claim_key casefold) (\<lambda>c. c) (unite_claim casefold) [] = []" by (simp add: group_by_def)
  with claims.group_groups [OF mergeable_claims [OF assms(1)], of "[]"]
  show "kd_claims (merged_group casefold k [merged_group casefold k xs]) = kd_claims (merged_group casefold k xs)"
    by simp
  show "kd_aliases (merged_group casefold k [merged_group casefold k xs]) = kd_aliases (merged_group casefold k xs)"
    "kd_labels (merged_group casefold k [merged_group casefold k xs]) = kd_labels (merged_group casefold k xs)"
    using extend_unique_stages [of casefold _ "[]"] by (simp_all add: extend_unique_def)
qed simp_all

lemma merged_group_key:
  "mergeable casefold d \<Longrightarrow> candidate_identity nfkc casefold d = k \<Longrightarrow> hd xs = d \<Longrightarrow>
     candidate_identity nfkc casefold (merged_group casefold k xs) = k"
  by (auto simp: candidate_identity_def mergeable_def)

lemma merged_group_identity:
  assumes "list_all (mergeable casefold) ds" "k \<in> candidate_identity nfkc casefold ` set ds"
  shows "candidate_identity nfkc casefold (merged_group casefold k (filter (\<lambda>d. candidate_identity nfkc casefold d = k) ds)) = k"
proof -
  let ?ds = "filter (\<lambda>d. candidate_identity nfkc casefold d = k) ds"
  have "?ds \<noteq> []" using assms(2) by (auto simp: filter_empty_conv)
  then have "hd ?ds \<in> set ?ds" by (rule hd_in_set)
  then have "mergeable casefold (hd ?ds)" "candidate_identity nfkc casefold (hd ?ds) = k" using assms(1) by (auto simp: list_all_iff)
  then show ?thesis by (rule merged_group_key) (rule refl)
qed

abbreviation "merged_cands nfkc casefold ds \<equiv>
  merged_of_kind nfkc casefold Concept ds @ merged_of_kind nfkc casefold Entity ds @ merged_of_kind nfkc casefold Procedure ds"

lemma merged_cands_identities:
  assumes "list_all (mergeable casefold) ds"
  shows "map (candidate_identity nfkc casefold) (merged_of_kind nfkc casefold kind ds) =
      filter (\<lambda>k. fst k = kind) (uniq (map (candidate_identity nfkc casefold) ds))"
    and "filter (\<lambda>k. fst k = kind) (map (candidate_identity nfkc casefold) (merged_cands nfkc casefold ds)) =
      filter (\<lambda>k. fst k = kind) (uniq (map (candidate_identity nfkc casefold) ds))"
proof -
  show ids: "map (candidate_identity nfkc casefold) (merged_of_kind nfkc casefold kind ds) =
      filter (\<lambda>k. fst k = kind) (uniq (map (candidate_identity nfkc casefold) ds))" for kind
    using merged_group_identity [OF assms] by (auto simp: merged_of_kind_def intro!: map_idI)
  show "filter (\<lambda>k. fst k = kind) (map (candidate_identity nfkc casefold) (merged_cands nfkc casefold ds)) =
      filter (\<lambda>k. fst k = kind) (uniq (map (candidate_identity nfkc casefold) ds))"
    unfolding map_append ids by (cases kind) (auto simp: filter_empty_conv intro!: filter_cong)
qed

lemma merged_cands_filter:
  assumes "list_all (mergeable casefold) ds"
  shows "filter (\<lambda>d. candidate_identity nfkc casefold d = k) (merged_cands nfkc casefold ds) =
    (if k \<in> candidate_identity nfkc casefold ` set ds
     then [merged_group casefold k (filter (\<lambda>d. candidate_identity nfkc casefold d = k) ds)] else [])"
proof -
  let ?g = "\<lambda>k. merged_group casefold k (filter (\<lambda>d. candidate_identity nfkc casefold d = k) ds)"
  let ?ks = "uniq (map (candidate_identity nfkc casefold) ds)"
  have one: "filter (\<lambda>d. candidate_identity nfkc casefold d = k) (map ?g ks) = (if k \<in> set ks then [?g k] else [])"
    if "distinct ks" "set ks \<subseteq> set ?ks" for ks
    using that merged_group_identity [OF assms, where nfkc = nfkc]
    by (induction ks) (auto simp: filter_empty_conv)
  show ?thesis
    by (cases "fst k") (auto simp: merged_of_kind_def one distinct_filter)
qed

lemma staged_of_kind:
  assumes "list_all (mergeable casefold) ds" "list_all (mergeable casefold) es"
  shows "merged_of_kind nfkc casefold kind (merged_cands nfkc casefold ds @ merged_cands nfkc casefold es) =
    merged_of_kind nfkc casefold kind (ds @ es)"
proof -
  let ?I = "candidate_identity nfkc casefold" and ?M = "merged_cands nfkc casefold" and ?P = "\<lambda>k. fst k = kind"
  let ?G = "\<lambda>k ds. merged_group casefold k (filter (\<lambda>d. ?I d = k) ds)"
  have "filter ?P (uniq (map ?I (?M ds @ ?M es))) = uniq (filter ?P (map ?I (?M ds)) @ filter ?P (map ?I (?M es)))"
    by (simp only: filter_uniq map_append [of ?I "?M ds"] filter_append)
  also have "\<dots> = uniq (filter ?P (uniq (map ?I ds)) @ filter ?P (uniq (map ?I es)))"
    by (simp only: merged_cands_identities(2) [OF assms(1)] merged_cands_identities(2) [OF assms(2)])
  also have "\<dots> = filter ?P (uniq (map ?I (ds @ es)))"
    by (simp only: filter_append [symmetric] filter_uniq [symmetric] uniq_uniq_append map_append)
  finally have keys: "filter ?P (uniq (map ?I (?M ds @ ?M es))) = filter ?P (uniq (map ?I (ds @ es)))" .
  have nonempty: "filter (\<lambda>d. ?I d = k) xs \<noteq> [] \<longleftrightarrow> k \<in> ?I ` set xs" for k xs by (auto simp: filter_empty_conv)
  have ok: "list_all (mergeable casefold) (filter (\<lambda>d. ?I d = k) xs)" if "list_all (mergeable casefold) xs" for k xs
    using that by (auto simp: list_all_iff)
  have "?G k (?M ds @ ?M es) = ?G k (ds @ es)" if "k \<in> set (map ?I (ds @ es))" for k
  proof (cases "k \<in> ?I ` set ds"; cases "k \<in> ?I ` set es")
    assume a: "k \<in> ?I ` set ds" "k \<in> ?I ` set es"
    then show ?thesis
      using merged_group_stages [OF ok [OF assms(1)] ok [OF assms(2)], of k k k] nonempty
      unfolding filter_append [of _ "?M ds"] filter_append [of _ ds] merged_cands_filter [OF assms(1)] merged_cands_filter [OF assms(2)]
      by simp
  next
    assume a: "k \<in> ?I ` set ds" "k \<notin> ?I ` set es"
    then show ?thesis
      using merged_group_again [OF ok [OF assms(1)], of k k] nonempty [of k ds] nonempty [of k es]
      unfolding filter_append [of _ "?M ds"] filter_append [of _ ds] merged_cands_filter [OF assms(1)] merged_cands_filter [OF assms(2)]
      by simp
  next
    assume a: "k \<notin> ?I ` set ds" "k \<in> ?I ` set es"
    then show ?thesis
      using merged_group_again [OF ok [OF assms(2)], of k k] nonempty [of k ds] nonempty [of k es]
      unfolding filter_append [of _ "?M ds"] filter_append [of _ ds] merged_cands_filter [OF assms(1)] merged_cands_filter [OF assms(2)]
      by simp
  qed (use that in auto)
  then show ?thesis
    unfolding merged_of_kind_def [of nfkc casefold kind "?M ds @ ?M es"] merged_of_kind_def [of nfkc casefold kind "ds @ es"] keys
    by (intro map_cong) (simp_all only: set_filter set_uniq mem_Collect_eq)
qed

lemma merge_candidates:
  "an_candidates (deterministic_merge_knowledge nfkc casefold as) = merged_cands nfkc casefold (concat (map an_candidates as))"
  by (simp add: an_candidates_def deterministic_merge_knowledge_def Let_def filter_merged_kind)

subsection \<open>Nothing is lost and nothing is invented\<close>

lemma joined_sources:
  "xs \<noteq> [] \<Longrightarrow> set (kc_sources (join_all (\<lambda>c. c) (unite_claim casefold) xs)) = (\<Union>c\<in>set xs. set (kc_sources c))"
proof (induction xs rule: rev_induct)
  case (snoc c xs)
  then show ?case by (cases "xs = []") (auto simp: join_all_snoc unite_claim_def)
qed simp

text \<open>The claims of a group: one for each key, with the Evidence of every claim of that key.\<close>

lemma merged_claims:
  assumes "\<forall>c\<in>set cs. scoped_claim casefold c"
  defines "ms \<equiv> map snd (group_by (merge_claim_key casefold) (\<lambda>c. c) (unite_claim casefold) cs)"
  shows "map (merge_claim_key casefold) ms = uniq (map (merge_claim_key casefold) cs)"
    and "\<forall>m\<in>set ms. set (kc_sources m) =
      (\<Union>c\<in>{c \<in> set cs. merge_claim_key casefold c = merge_claim_key casefold m}. set (kc_sources c))"
proof -
  let ?K = "merge_claim_key casefold"
  show "map ?K ms = uniq (map ?K cs)" unfolding ms_def by (rule claims.groups_keys [OF assms(1)])
  show "\<forall>m\<in>set ms. set (kc_sources m) = (\<Union>c\<in>{c \<in> set cs. ?K c = ?K m}. set (kc_sources c))"
  proof
    fix m assume "m \<in> set ms"
    then obtain k where k: "k \<in> ?K ` set cs" and m: "m = join_all (\<lambda>c. c) (unite_claim casefold) (filter (\<lambda>c. ?K c = k) cs)"
      by (auto simp: ms_def group_by_def)
    have "?K m = k" unfolding m using claims.group_of_key [of cs casefold k] assms(1) k by auto
    moreover have "filter (\<lambda>c. ?K c = k) cs \<noteq> []" using k by (auto simp: filter_empty_conv)
    ultimately show "set (kc_sources m) = (\<Union>c\<in>{c \<in> set cs. ?K c = ?K m}. set (kc_sources c))"
      unfolding m using joined_sources by simp
  qed
qed

text \<open>
  The merge groups the candidates.  The concepts, entities and procedures of the merge are
  the groups of equal kind and normalised title over all analyses, each in the order of its
  first candidate; a group has the title of its first candidate, the aliases and labels
  without repetition, one claim for each scope and text, and the admission its candidates
  agree on, or review.
\<close>

theorem merge_is_grouping:
  fixes as nfkc casefold
  defines "m \<equiv> deterministic_merge_knowledge nfkc casefold as" and "ds \<equiv> concat (map an_candidates as)"
  shows "an_concepts m = merged_of_kind nfkc casefold Concept ds \<and>
    an_entities m = merged_of_kind nfkc casefold Entity ds \<and>
    an_procedures m = merged_of_kind nfkc casefold Procedure ds"
  by (simp add: m_def ds_def deterministic_merge_knowledge_def Let_def filter_merged_kind)


lemma image_restored: "\<forall>k\<in>A. f (g k) = k \<Longrightarrow> f ` g ` A = A"
  by force

lemma merged_cands_set:
  "set (merged_cands nfkc casefold ds) =
     (\<lambda>k. merged_group casefold k (filter (\<lambda>d. candidate_identity nfkc casefold d = k) ds)) ` candidate_identity nfkc casefold ` set ds"
proof -
  have kinds: "{k \<in> A. fst k = Concept} \<union> {k \<in> A. fst k = Entity} \<union> {k \<in> A. fst k = Procedure} = A" for A :: "candidate_key set"
    using candidate_kind.exhaust by blast
  show ?thesis
    by (simp only: merged_of_kind_def set_append set_map set_filter set_uniq image_Un [symmetric] Un_assoc [symmetric] kinds)
qed

lemma merged_cands_distinct:
  assumes "list_all (mergeable casefold) ds"
  shows "distinct (map (candidate_identity nfkc casefold) (merged_cands nfkc casefold ds))"
  by (auto simp: merged_cands_identities(1) [OF assms])

text \<open>
  C6 A merge loses and invents no claim.  The candidates of the merge have different
  identities and each has one claim for every scope and text; the identities are those of the
  input, and a claim of the merge has the Evidence of exactly the input claims with its scope
  and text in the candidates of its identity.  The hypothesis: titles are stripped, which the
  parser ensures, and no claim lists two applicability scopes that are equal up to letter case
  and spaces, which the parser does not ensure.  Uniting claims drops such a repetition, so
  the key of the united claim is no longer that of the claim (\<open>repeated_scope_changes_key\<close>).
\<close>

theorem merge_preserves_claims:
  fixes nfkc casefold as
  defines "I \<equiv> candidate_identity nfkc casefold" and "K \<equiv> merge_claim_key casefold"
    and "ds \<equiv> concat (map an_candidates as)" and "es \<equiv> an_candidates (deterministic_merge_knowledge nfkc casefold as)"
  assumes "list_all (mergeable casefold) ds"
  shows "distinct (map I es) \<and> I ` set es = I ` set ds \<and>
    (\<forall>e\<in>set es. distinct (map K (kd_claims e)) \<and>
       K ` set (kd_claims e) = (\<Union>d\<in>{d \<in> set ds. I d = I e}. K ` set (kd_claims d)) \<and>
       (\<forall>m\<in>set (kd_claims e). set (kc_sources m) =
          (\<Union>d\<in>{d \<in> set ds. I d = I e}. \<Union>c\<in>{c \<in> set (kd_claims d). K c = K m}. set (kc_sources c))))"
proof -
  have es: "es = merged_cands nfkc casefold ds" by (simp only: es_def ds_def merge_candidates)
  have "I ` set es = I ` set ds"
    unfolding es I_def merged_cands_set by (rule image_restored, rule ballI, rule merged_group_identity [OF assms(5)])
  moreover have "distinct (map I es)" unfolding es I_def by (rule merged_cands_distinct [OF assms(5)])
  moreover have "distinct (map K (kd_claims e)) \<and> K ` set (kd_claims e) = (\<Union>d\<in>{d \<in> set ds. I d = I e}. K ` set (kd_claims d)) \<and>
     (\<forall>m\<in>set (kd_claims e). set (kc_sources m) =
        (\<Union>d\<in>{d \<in> set ds. I d = I e}. \<Union>c\<in>{c \<in> set (kd_claims d). K c = K m}. set (kc_sources c)))" if "e \<in> set es" for e
  proof -
    from that obtain k where k: "k \<in> I ` set ds" and e: "e = merged_group casefold k (filter (\<lambda>d. I d = k) ds)"
      unfolding es I_def merged_cands_set by blast
    have Ie: "I e = k" unfolding e I_def by (rule merged_group_identity [OF assms(5) k [unfolded I_def]])
    let ?cs = "concat (map kd_claims (filter (\<lambda>d. I d = k) ds))"
    have "\<forall>c\<in>set ?cs. scoped_claim casefold c" using mergeable_claims [OF assms(5)] by auto
    note merged = merged_claims [OF this, folded K_def]
    have claims: "kd_claims e = map snd (group_by K (\<lambda>c. c) (unite_claim casefold) ?cs)" by (simp add: e K_def)
    have "K ` set (kd_claims e) = set (map K (kd_claims e))" by simp
    also have "\<dots> = set (map K ?cs)" unfolding claims merged(1) by (rule set_uniq)
    finally have keys: "K ` set (kd_claims e) = (\<Union>d\<in>{d \<in> set ds. I d = I e}. K ` set (kd_claims d))"
      unfolding Ie by auto
    have "distinct (map K (kd_claims e))" unfolding claims merged(1) by (rule distinct_uniq)
    moreover have "set (kc_sources m) =
        (\<Union>d\<in>{d \<in> set ds. I d = I e}. \<Union>c\<in>{c \<in> set (kd_claims d). K c = K m}. set (kc_sources c))" if "m \<in> set (kd_claims e)" for m
      using merged(2) that unfolding claims Ie by fastforce
    ultimately show ?thesis using keys by blast
  qed
  ultimately show ?thesis by blast
qed

text \<open>
  C7 Merging in stages is merging at once.  A merge tree may merge any two lists of analyses
  first and then their results: the candidates are those of one merge of all analyses, with
  their aliases, labels, claims, Evidence and admissions in the same order.  The hypothesis is
  the same: stripped titles, and claims whose applicability scopes
  differ in more than letter case and spaces.
\<close>

theorem staged_merge_is_flat:
  fixes nfkc casefold as bs
  defines "merge \<equiv> deterministic_merge_knowledge nfkc casefold"
  assumes "list_all (mergeable casefold) (concat (map an_candidates (as @ bs)))"
  shows "an_candidates (merge [merge as, merge bs]) = an_candidates (merge (as @ bs))"
proof -
  have "list_all (mergeable casefold) (concat (map an_candidates as))" "list_all (mergeable casefold) (concat (map an_candidates bs))"
    using assms(2) by auto
  note stages = staged_of_kind [OF this]
  show ?thesis unfolding merge_def merge_candidates
    by (simp only: list.map concat.simps map_append concat_append append_Nil2 merge_candidates stages)
qed

definition sample_candidate :: "string \<Rightarrow> candidate_admission \<Rightarrow> string list \<Rightarrow> candidate" where
  "sample_candidate title admission sources =
     \<lparr>kd_kind = Concept, kd_title = title, kd_aliases = [title], kd_labels = [],
      kd_claims = [\<lparr>kc_text = ''c'', kc_sources = sources, kc_applicability = []\<rparr>], kd_admission = admission\<rparr>"

definition sample_part :: "candidate_admission \<Rightarrow> string list \<Rightarrow> knowledge_analysis" where
  "sample_part admission sources = sample_analysis\<lparr>an_concepts := [sample_candidate ''t'' admission sources]\<rparr>"

theorem merge_preserves_claims_witness:
  "set (map (\<lambda>d. (kd_kind d, kd_title d)) (an_candidates (deterministic_merge_knowledge (\<lambda>s. s) (\<lambda>s. s)
     [sample_part Admit [''e''], sample_part Exclude [''f'']]))) = {(Concept, ''t'')} \<and>
   distinct (map (candidate_identity (\<lambda>s. s) (\<lambda>s. s)) (an_candidates (deterministic_merge_knowledge (\<lambda>s. s) (\<lambda>s. s)
     [sample_part Admit [''e''], sample_part Exclude [''f'']])))"
proof
  have "list_all (mergeable (\<lambda>s. s)) (concat (map an_candidates [sample_part Admit [''e''], sample_part Exclude [''f'']]))"
    by code_simp
  from merge_preserves_claims [OF this, of "\<lambda>s. s"]
  show "distinct (map (candidate_identity (\<lambda>s. s) (\<lambda>s. s)) (an_candidates (deterministic_merge_knowledge (\<lambda>s. s) (\<lambda>s. s)
     [sample_part Admit [''e''], sample_part Exclude [''f'']])))" by (rule conjunct1)
qed code_simp

theorem staged_merge_is_flat_witness:
  "map kd_claims (an_candidates (deterministic_merge_knowledge (\<lambda>s. s) (\<lambda>s. s)
     [deterministic_merge_knowledge (\<lambda>s. s) (\<lambda>s. s) [sample_part Admit [''e'']],
      deterministic_merge_knowledge (\<lambda>s. s) (\<lambda>s. s) [sample_part Exclude [''f'']]])) =
   [[\<lparr>kc_text = ''c'', kc_sources = [''e'', ''f''], kc_applicability = []\<rparr>]]"
proof -
  have "list_all (mergeable (\<lambda>s. s)) (concat (map an_candidates ([sample_part Admit [''e'']] @ [sample_part Exclude [''f'']])))"
    by code_simp
  note staged_merge_is_flat [OF this, of "\<lambda>s. s"]
  moreover have "map kd_claims (an_candidates (deterministic_merge_knowledge (\<lambda>s. s) (\<lambda>s. s)
      ([sample_part Admit [''e'']] @ [sample_part Exclude [''f'']]))) =
    [[\<lparr>kc_text = ''c'', kc_sources = [''e'', ''f''], kc_applicability = []\<rparr>]]" by code_simp
  ultimately show ?thesis by (simp only:)
qed

end
