(* ===== verification/AnswerPolicy.thy ===== *)
theory AnswerPolicy
  imports TextForms
begin

section \<open>The budget of an answer and the citation guard\<close>

text \<open>
  \<open>openkb/answers/budget.py\<close> and \<open>openkb/answers/outline.py\<close>.  A gateway is what the code
  looks up on it: each lookup is \<open>None\<close> where the attribute is not callable, an error where
  the call raises, and the value otherwise; a capacity that is not an \<open>int\<close> is \<open>None\<close>.
\<close>

subsection \<open>The budget\<close>

record answer_gateway =
  ag_verifier :: "bool res option"
  ag_capability :: "int option res option"
  ag_profile :: "(int option \<times> int option) res option"

record answer_budget =
  ab_verified :: bool
  ab_context :: int
  ab_reserve :: int
  ab_ceiling :: int
  ab_evidence_refs :: int
  ab_source_tokens :: int

definition answer_output_reserve :: "int \<Rightarrow> int" where
  "answer_output_reserve context_capacity =
     (if 262144 \<le> context_capacity then 32768 else if 32768 \<le> context_capacity then 4096 else 2048)"

definition answer_capability_verified :: "answer_gateway option \<Rightarrow> bool" where
  "answer_capability_verified g =
     (case Option.bind g ag_verifier of Some (Inr b) \<Rightarrow> b | _ \<Rightarrow> False)"

definition answer_context_capacity :: "answer_gateway option \<Rightarrow> int option" where
  "answer_context_capacity g =
     (case Option.bind g ag_capability of
        Some (Inr (Some capacity)) \<Rightarrow> if capacity < 4096 then None else Some capacity
      | _ \<Rightarrow> None)"

definition answer_output_capability :: "answer_gateway option \<Rightarrow> int \<times> int option" where
  "answer_output_capability g =
     (case Option.bind g ag_profile of
        Some (Inr (allowance, maximum)) \<Rightarrow>
          (case allowance of Some a \<Rightarrow> if 0 \<le> a then a else 0 | None \<Rightarrow> 0,
           case maximum of Some m \<Rightarrow> if 0 < m then Some m else None | None \<Rightarrow> None)
      | _ \<Rightarrow> (0, None))"

definition conservative_budget :: "bool \<Rightarrow> answer_budget" where
  "conservative_budget verified =
     \<lparr>ab_verified = verified, ab_context = 4096, ab_reserve = 2048, ab_ceiling = 2048,
      ab_evidence_refs = 64, ab_source_tokens = 24000\<rparr>"

definition budget_for_context :: "int \<Rightarrow> int \<times> int option \<Rightarrow> answer_budget" where
  "budget_for_context capacity out =
     (let reserve = answer_output_reserve capacity;
          ceiling = min (capacity div 2) (reserve + fst out);
          large = 262144 \<le> capacity in
      \<lparr>ab_verified = True, ab_context = capacity, ab_reserve = reserve,
       ab_ceiling = (case snd out of None \<Rightarrow> ceiling | Some m \<Rightarrow> min ceiling m),
       ab_evidence_refs = (if large then min 256 (max 64 (capacity div 2048)) else 64),
       ab_source_tokens = (if large then min 192000 (max 24000 (capacity div 4)) else 24000)\<rparr>)"

definition answer_budget_for_gateway :: "answer_gateway option \<Rightarrow> answer_budget" where
  "answer_budget_for_gateway g =
     (if \<not> answer_capability_verified g then conservative_budget False
      else case answer_context_capacity g of
        None \<Rightarrow> conservative_budget True
      | Some capacity \<Rightarrow> budget_for_context capacity (answer_output_capability g))"

lemma output_capability_bounds:
  "0 \<le> fst (answer_output_capability g)" "snd (answer_output_capability g) = Some m \<Longrightarrow> 0 < m"
  by (auto simp: answer_output_capability_def split: option.splits sum.splits prod.splits if_splits)

lemma budget_for_context_bounds:
  assumes "4096 \<le> capacity" "0 \<le> fst out" "\<And>m. snd out = Some m \<Longrightarrow> 0 < m"
  defines "b \<equiv> budget_for_context capacity out"
  shows "1 \<le> ab_ceiling b \<and> ab_ceiling b \<le> capacity div 2 \<and> ab_ceiling b \<le> ab_reserve b + fst out \<and>
    2048 \<le> ab_reserve b \<and> ab_reserve b \<le> capacity div 2 \<and> 64 \<le> ab_evidence_refs b \<and> ab_evidence_refs b \<le> 256 \<and>
    24000 \<le> ab_source_tokens b \<and> ab_source_tokens b \<le> 192000"
  using assms by (auto simp: budget_for_context_def Let_def answer_output_reserve_def split: option.splits)

lemma budget_for_context_mono:
  assumes "c \<le> c'"
  shows "ab_reserve (budget_for_context c out) \<le> ab_reserve (budget_for_context c' out)"
    and "ab_ceiling (budget_for_context c out) \<le> ab_ceiling (budget_for_context c' out)"
    and "ab_evidence_refs (budget_for_context c out) \<le> ab_evidence_refs (budget_for_context c' out)"
    and "ab_source_tokens (budget_for_context c out) \<le> ab_source_tokens (budget_for_context c' out)"
proof -
  have reserve: "answer_output_reserve c \<le> answer_output_reserve c'"
    using assms by (simp add: answer_output_reserve_def)
  have halves: "c div 2 \<le> c' div 2" "c div 4 \<le> c' div 4" "c div 2048 \<le> c' div 2048"
    using assms by (simp_all add: zdiv_mono1)
  show "ab_reserve (budget_for_context c out) \<le> ab_reserve (budget_for_context c' out)"
    using reserve by (simp add: budget_for_context_def Let_def)
  have "min (c div 2) (answer_output_reserve c + fst out) \<le> min (c' div 2) (answer_output_reserve c' + fst out)"
    using reserve halves(1) by (intro min.mono) simp_all
  from this min.mono [OF this order_refl]
  show "ab_ceiling (budget_for_context c out) \<le> ab_ceiling (budget_for_context c' out)"
    by (cases "snd out") (simp_all only: budget_for_context_def Let_def answer_budget.simps option.case)
  show "ab_evidence_refs (budget_for_context c out) \<le> ab_evidence_refs (budget_for_context c' out)"
    using halves(3) assms by (auto simp: budget_for_context_def Let_def)
  show "ab_source_tokens (budget_for_context c out) \<le> ab_source_tokens (budget_for_context c' out)"
    using halves(2) assms by (auto simp: budget_for_context_def Let_def)
qed

lemma answer_context_capacity_least: "answer_context_capacity g = Some c \<Longrightarrow> 4096 \<le> c"
  by (auto simp: answer_context_capacity_def split: option.splits sum.splits if_splits)

lemma answer_budget_bounds:
  fixes g :: "answer_gateway option"
  defines "b \<equiv> answer_budget_for_gateway g"
  shows "4096 \<le> ab_context b \<and> 1 \<le> ab_ceiling b \<and> ab_ceiling b \<le> ab_context b div 2 \<and>
    2048 \<le> ab_reserve b \<and> ab_reserve b \<le> ab_context b div 2 \<and> 64 \<le> ab_evidence_refs b \<and> ab_evidence_refs b \<le> 256 \<and>
    24000 \<le> ab_source_tokens b \<and> ab_source_tokens b \<le> 192000"
proof (cases "answer_capability_verified g \<and> answer_context_capacity g \<noteq> None")
  case True
  then obtain c where c: "answer_context_capacity g = Some c" by blast
  from budget_for_context_bounds [OF answer_context_capacity_least [OF c] output_capability_bounds] answer_context_capacity_least [OF c] True
  show ?thesis by (simp add: b_def answer_budget_for_gateway_def c budget_for_context_def Let_def)
qed (auto simp: b_def answer_budget_for_gateway_def conservative_budget_def)

text \<open>
  The budget of an answer is within the verified capacity.  Every budget leaves half of
  the context for the input, allows some output, and stays within the limits of navigation;
  more than the conservative one needs a gateway that verified the capability and a context
  of at least 32768 tokens, and a larger context never lowers any part of the budget.
\<close>

theorem answer_budget_within_capacity:
  fixes g :: "answer_gateway option"
  defines "b \<equiv> answer_budget_for_gateway g"
  shows "4096 \<le> ab_context b \<and> 1 \<le> ab_ceiling b \<and> ab_ceiling b \<le> ab_context b div 2 \<and>
    2048 \<le> ab_reserve b \<and> ab_reserve b \<le> ab_context b div 2 \<and> 64 \<le> ab_evidence_refs b \<and> ab_evidence_refs b \<le> 256 \<and>
    24000 \<le> ab_source_tokens b \<and> ab_source_tokens b \<le> 192000 \<and>
    (ab_verified b \<longleftrightarrow> answer_capability_verified g) \<and>
    (\<not> ab_verified b \<longrightarrow> b = conservative_budget False) \<and>
    (ab_context b < 32768 \<longrightarrow> ab_reserve b = 2048 \<and> ab_evidence_refs b = 64 \<and> ab_source_tokens b = 24000) \<and>
    (\<forall>c c' out. c \<le> c' \<longrightarrow>
       ab_reserve (budget_for_context c out) \<le> ab_reserve (budget_for_context c' out) \<and>
       ab_ceiling (budget_for_context c out) \<le> ab_ceiling (budget_for_context c' out) \<and>
       ab_evidence_refs (budget_for_context c out) \<le> ab_evidence_refs (budget_for_context c' out) \<and>
       ab_source_tokens (budget_for_context c out) \<le> ab_source_tokens (budget_for_context c' out))"
proof -
  have "(ab_verified b \<longleftrightarrow> answer_capability_verified g) \<and> (\<not> ab_verified b \<longrightarrow> b = conservative_budget False) \<and>
    (ab_context b < 32768 \<longrightarrow> ab_reserve b = 2048 \<and> ab_evidence_refs b = 64 \<and> ab_source_tokens b = 24000)"
    by (auto simp: b_def answer_budget_for_gateway_def conservative_budget_def budget_for_context_def Let_def
        answer_output_reserve_def split: option.splits)
  with answer_budget_bounds [of g] budget_for_context_mono show ?thesis unfolding b_def by blast
qed

subsection \<open>The citation guard\<close>

text \<open>
  Two regular expressions over the characters of a line.  The digits of \<open>\d\<close> are the
  decimal digits of Unicode: \<open>decimal\<close> gives the value of one, as \<open>unicodedata.decimal\<close>
  does; \<open>int\<close> of more than 4300 digits raises.
\<close>

definition decimal_run :: "(string \<Rightarrow> nat option) \<Rightarrow> string list \<Rightarrow> string list \<times> string list" where
  "decimal_run decimal us = (takeWhile (\<lambda>u. decimal u \<noteq> None) us, dropWhile (\<lambda>u. decimal u \<noteq> None) us)"

function bracket_citations :: "(string \<Rightarrow> nat option) \<Rightarrow> string list \<Rightarrow> nat list list" where
  "bracket_citations decimal [] = []"
| "bracket_citations decimal (u # us) =
     (let (ds, rest) = decimal_run decimal us in
      if u = ''['' \<and> ds \<noteq> [] \<and> rest \<noteq> [] \<and> hd rest = '']''
      then map (the \<circ> decimal) ds # bracket_citations decimal (tl rest)
      else bracket_citations decimal us)"
  by pat_completeness auto

termination
proof (relation "measure (\<lambda>(decimal, us). length us)")
  fix decimal :: "string \<Rightarrow> nat option" and u us ds rest and x :: "string list \<times> string list"
  assume "x = decimal_run decimal us" "(ds, rest) = x"
  then have "length rest \<le> length us" by (simp add: decimal_run_def length_dropWhile_le)
  then show "((decimal, tl rest), decimal, u # us) \<in> measure (\<lambda>(decimal, us). length us)" by simp
qed simp_all

definition int_of_digits :: "nat list \<Rightarrow> nat res" where
  "int_of_digits ds =
     (if 4300 < length ds then Inl (ValueError ''Exceeds the limit (4300 digits) for integer string conversion'')
      else Inr (foldl (\<lambda>a d. 10 * a + d) 0 ds))"

fun any_cited :: "nat \<Rightarrow> nat list list \<Rightarrow> bool res" where
  "any_cited n [] = Inr False"
| "any_cited n (ds # rest) =
     res_bind (int_of_digits ds) (\<lambda>v. if 1 \<le> v \<and> v \<le> n then Inr True else any_cited n rest)"

definition starts_space :: "string list \<Rightarrow> bool" where
  "starts_space us \<longleftrightarrow> us \<noteq> [] \<and> py_isspace (hd us)"

definition list_item_line :: "(string \<Rightarrow> nat option) \<Rightarrow> string \<Rightarrow> bool" where
  "list_item_line decimal line =
     (let us = dropWhile py_isspace (py_chars line); (ds, rest) = decimal_run decimal us in
      (us \<noteq> [] \<and> hd us \<in> {''-'', ''+'', ''*''} \<and> starts_space (tl us)) \<or>
      (ds \<noteq> [] \<and> rest \<noteq> [] \<and> hd rest \<in> {''.'', '')''} \<and> starts_space (tl rest)))"

definition fence_line :: "string \<Rightarrow> bool" where
  "fence_line line \<longleftrightarrow> prefix ''```'' (py_strip line)"

fun guard_lines :: "(string \<Rightarrow> nat option) \<Rightarrow> nat \<Rightarrow> bool \<Rightarrow> string list \<Rightarrow> string list res" where
  "guard_lines decimal n in_fence [] = Inr []"
| "guard_lines decimal n in_fence (l # ls) =
     (if fence_line l then res_bind (guard_lines decimal n (\<not> in_fence) ls) (\<lambda>r. Inr (l # r))
      else if \<not> in_fence \<and> list_item_line decimal l
      then res_bind (any_cited n (bracket_citations decimal (py_chars l))) (\<lambda>cited.
             res_bind (guard_lines decimal n in_fence ls) (\<lambda>r. Inr (if cited then l # r else r)))
      else res_bind (guard_lines decimal n in_fence ls) (\<lambda>r. Inr (l # r)))"

definition citation_guarded_answer :: "(string \<Rightarrow> nat option) \<Rightarrow> string \<Rightarrow> nat \<Rightarrow> string res" where
  "citation_guarded_answer decimal answer_text evidence_count =
     res_bind (guard_lines decimal evidence_count False (py_splitlines answer_text)) (\<lambda>guarded.
       Inr (py_strip (py_join [CHR 0x0A] guarded)))"

text \<open>The rule the guard enforces, without its loop: what holds of one line of the text.\<close>

definition in_fence_at :: "string list \<Rightarrow> nat \<Rightarrow> bool" where
  "in_fence_at ls i \<longleftrightarrow> odd (length (filter fence_line (take i ls)))"

definition claim_line :: "(string \<Rightarrow> nat option) \<Rightarrow> string list \<Rightarrow> nat \<Rightarrow> bool" where
  "claim_line decimal ls i \<longleftrightarrow> \<not> fence_line (ls ! i) \<and> \<not> in_fence_at ls i \<and> list_item_line decimal (ls ! i)"

definition line_cites :: "(string \<Rightarrow> nat option) \<Rightarrow> nat \<Rightarrow> string \<Rightarrow> bool res" where
  "line_cites decimal n l = any_cited n (bracket_citations decimal (py_chars l))"

lemma any_cited_iff:
  "list_all (\<lambda>ds. length ds \<le> 4300) dss \<Longrightarrow>
     any_cited n dss = Inr (\<exists>ds\<in>set dss. 1 \<le> foldl (\<lambda>a d. 10 * a + d) 0 ds \<and> foldl (\<lambda>a d. 10 * a + d) 0 ds \<le> n)"
  by (induction dss) (auto simp: int_of_digits_def)

text \<open>Starting the loop inside or outside a fence, the lines kept are those of the rule.\<close>

lemma nths_shift: "nths (l # ls) A = (if 0 \<in> A then [l] else []) @ nths ls {i. Suc i \<in> A}"
  by (simp add: nths_Cons)

lemma guard_lines_keeps:
  "guard_lines decimal n b ls = Inr r \<Longrightarrow>
     r = nths ls {i. \<not> (\<not> fence_line (ls ! i) \<and> odd (length (filter fence_line (take i ls))) = b \<and>
             list_item_line decimal (ls ! i) \<and> line_cites decimal n (ls ! i) = Inr False)}"
proof (induction ls arbitrary: b r)
  case (Cons l ls)
  show ?case
  proof (cases "fence_line l")
    case True
    with Cons.prems obtain r' where r': "guard_lines decimal n (\<not> b) ls = Inr r'" and r: "r = l # r'"
      by (auto simp: res_simps)
    have flip: "(even m = (\<not> b)) = (odd m = b)" for m :: nat by auto
    from Cons.IH [OF r'] True show ?thesis unfolding r by (simp add: nths_shift flip)
  next
    case False
    with Cons.prems obtain r' where r': "guard_lines decimal n b ls = Inr r'"
      and r: "r = (if \<not> b \<and> list_item_line decimal l \<and> line_cites decimal n l = Inr False then r' else l # r')"
      by (cases "\<not> b \<and> list_item_line decimal l") (auto simp: res_simps line_cites_def split: if_splits)
    from Cons.IH [OF r'] False show ?thesis unfolding r by (auto simp: nths_shift)
  qed
qed simp

lemma guard_lines_error:
  "guard_lines decimal n b ls = Inl e \<longleftrightarrow>
     (\<exists>i<length ls. \<not> fence_line (ls ! i) \<and> odd (length (filter fence_line (take i ls))) = b \<and>
        list_item_line decimal (ls ! i) \<and> line_cites decimal n (ls ! i) = Inl e)"
proof (induction ls arbitrary: b)
  case (Cons l ls)
  have flip: "(even m = (\<not> b)) = (odd m = b)" for m :: nat by auto
  have ex: "(\<exists>i<length (l # ls). P i) \<longleftrightarrow> P 0 \<or> (\<exists>i<length ls. P (Suc i))" for P
    using Ex_less_Suc2 [of "length ls" P] by simp
  have unique: "any_cited n dss = Inl e \<Longrightarrow> any_cited n dss' = Inl e' \<Longrightarrow> e = e'" for dss dss' e e'
  proof -
    have "any_cited n dss = Inl e \<Longrightarrow> e = ValueError ''Exceeds the limit (4300 digits) for integer string conversion''" for dss e
      by (induction dss) (auto simp: int_of_digits_def res_simps split: if_splits)
    then show "any_cited n dss = Inl e \<Longrightarrow> any_cited n dss' = Inl e' \<Longrightarrow> e = e'" by blast
  qed
  show ?case
  proof (cases "fence_line l")
    case True
    then show ?thesis unfolding ex by (simp add: Cons.IH res_simps flip)
  next
    case False
    show ?thesis
    proof (cases "\<not> b \<and> list_item_line decimal l")
      case item: True
      show ?thesis
      proof (cases "line_cites decimal n l")
        case (Inl e')
        then have "(guard_lines decimal n b (l # ls) = Inl e) = (e' = e)"
          using item False by (simp add: line_cites_def)
        moreover have "line_cites decimal n (ls ! i) = Inl e \<Longrightarrow> e' = e" for i
          using Inl unique unfolding line_cites_def by metis
        ultimately show ?thesis unfolding ex using Inl item False by auto
      next
        case (Inr c)
        then show ?thesis unfolding ex using item False by (auto simp: line_cites_def Cons.IH res_simps)
      qed
    next
      case other: False
      then show ?thesis unfolding ex using False by (auto simp: Cons.IH res_simps)
    qed
  qed
qed simp

text \<open>
  C10 The citation guard removes exactly the uncited list claims.  The guarded answer is the
  text without the list items outside code fences that cite none of the supplied Evidence;
  every other line is kept, in order.  It raises only for a list item that cites a number of
  more than 4300 digits before a valid one.
\<close>

theorem citation_guard_exact:
  defines "dropped \<equiv> \<lambda>decimal n ls i. claim_line decimal ls i \<and> line_cites decimal n (ls ! i) = Inr False"
  shows "(\<forall>t. citation_guarded_answer decimal text n = Inr t \<longrightarrow>
      t = py_strip (py_join [CHR 0x0A] (nths (py_splitlines text) {i. \<not> dropped decimal n (py_splitlines text) i}))) \<and>
    (\<forall>e. citation_guarded_answer decimal text n = Inl e \<longleftrightarrow>
      (\<exists>i<length (py_splitlines text). claim_line decimal (py_splitlines text) i \<and>
         line_cites decimal n (py_splitlines text ! i) = Inl e)) \<and>
    (\<forall>dss. list_all (\<lambda>ds. length ds \<le> 4300) dss \<longrightarrow> any_cited n dss =
       Inr (\<exists>ds\<in>set dss. 1 \<le> foldl (\<lambda>a d. 10 * a + d) 0 ds \<and> foldl (\<lambda>a d. 10 * a + d) 0 ds \<le> n))"
proof (intro conjI allI impI)
  fix t assume "citation_guarded_answer decimal text n = Inr t"
  then obtain r where r: "guard_lines decimal n False (py_splitlines text) = Inr r"
    and t: "t = py_strip (py_join [CHR 0x0A] r)" by (auto simp: citation_guarded_answer_def res_simps)
  from guard_lines_keeps [OF r]
  show "t = py_strip (py_join [CHR 0x0A] (nths (py_splitlines text) {i. \<not> dropped decimal n (py_splitlines text) i}))"
    unfolding t dropped_def claim_line_def in_fence_at_def by (simp add: conj_ac)
next
  fix e show "citation_guarded_answer decimal text n = Inl e \<longleftrightarrow>
      (\<exists>i<length (py_splitlines text). claim_line decimal (py_splitlines text) i \<and>
         line_cites decimal n (py_splitlines text ! i) = Inl e)"
    by (simp add: citation_guarded_answer_def res_simps guard_lines_error claim_line_def in_fence_at_def conj_ac)
qed (rule any_cited_iff)

definition ascii_decimal :: "string \<Rightarrow> nat option" where
  "ascii_decimal u = (case u of [c] \<Rightarrow> if 48 \<le> (of_char c :: nat) \<and> (of_char c :: nat) \<le> 57 then Some (of_char c - 48) else None | _ \<Rightarrow> None)"

theorem citation_guard_exact_witness:
  "citation_guarded_answer ascii_decimal (''- a [1]'' @ [CHR 0x0A] @ ''- b [2]'' @ [CHR 0x0A] @ ''c'') 1 =
     Inr (''- a [1]'' @ [CHR 0x0A] @ ''c'') \<and>
   py_strip (py_join [CHR 0x0A] (nths (py_splitlines (''- a [1]'' @ [CHR 0x0A] @ ''- b [2]'' @ [CHR 0x0A] @ ''c''))
     {i. \<not> (claim_line ascii_decimal (py_splitlines (''- a [1]'' @ [CHR 0x0A] @ ''- b [2]'' @ [CHR 0x0A] @ ''c'')) i \<and>
        line_cites ascii_decimal 1 (py_splitlines (''- a [1]'' @ [CHR 0x0A] @ ''- b [2]'' @ [CHR 0x0A] @ ''c'') ! i) = Inr False)})) =
     ''- a [1]'' @ [CHR 0x0A] @ ''c''"
proof -
  have run: "citation_guarded_answer ascii_decimal (''- a [1]'' @ [CHR 0x0A] @ ''- b [2]'' @ [CHR 0x0A] @ ''c'') 1 =
     Inr (''- a [1]'' @ [CHR 0x0A] @ ''c'')" by code_simp
  show ?thesis
    using conjunct1 [OF citation_guard_exact, THEN spec, THEN mp, OF run] run by metis
qed

end
