(* ===== verification/RetrievalTrace.thy ===== *)
theory RetrievalTrace
  imports AnalysisResult
begin

section \<open>The record of a retrieval\<close>

text \<open>
  \<open>openkb/retrieval/trace.py\<close>: what led to an Evidence Pack, stored with the answer and
  read back with a strict parser for the facets of the question and a tolerant one for the
  rest.  The second half of \<open>openkb/answers/types.py\<close> uses it.
\<close>

record channel_trace =
  ct_channel :: string
  ct_count :: int
  ct_triggers :: "string list"
  ct_degradations :: "string list"

record question_facet =
  qf_id :: string
  qf_label :: string
  qf_description :: string
  qf_importance :: string

record facet_coverage =
  fv_facet :: string
  fv_state :: string
  fv_evidence :: "string list"

record retrieval_trace =
  rt_catalog_generation_ids :: "string list"
  rt_page_tree_generation_ids :: "string list"
  rt_channels :: "channel_trace list"
  rt_trigger_reasons :: "string list"
  rt_degradation_reasons :: "string list"
  rt_selected_node_ids :: "string list"
  rt_canonical_evidence_ids :: "string list"
  rt_fusion_policy_version :: string
  rt_navigation_snapshot_ids :: "string list"
  rt_navigation_routes :: "string list"
  rt_navigation_read_count :: int
  rt_source_window_count :: int
  rt_link_hop_count :: int
  rt_page_tree_supplement_count :: int
  rt_semantic_structure_state :: string
  rt_question_goal :: string
  rt_question_facets :: "question_facet list"
  rt_question_facet_plan_digest :: string
  rt_query_planning_prompt_contract_digest :: string
  rt_query_planning_execution_profile_json :: string
  rt_query_planning_execution_profile_digest :: string
  rt_facet_coverage :: "facet_coverage list"
  rt_coverage_gate_state :: string
  rt_navigation_round_count :: int
  rt_navigation_action_kinds :: "string list"
  rt_navigation_stop_reason :: string
  rt_navigation_model_calls :: int
  rt_navigation_logical_read_count :: int
  rt_navigation_source_tokens :: int
  rt_grounding_input_budget_tokens :: int
  rt_evidence_input_tokens :: int
  rt_guidance_input_tokens :: int
  rt_version_navigation_snapshot_id :: string
  rt_version_catalog_revision_id :: string
  rt_version_catalog_digest :: string
  rt_version_scope_mode :: string
  rt_version_scope_status :: string
  rt_version_scope_lineage_ids :: "string list"
  rt_version_scope_labels :: "string list"
  rt_version_scope_document_ids :: "string list"
  rt_version_scope_selection_reason :: string
  rt_version_scope_degradation_reason :: string

definition empty_trace :: retrieval_trace where
  "empty_trace =
     \<lparr>
      rt_catalog_generation_ids = [], rt_page_tree_generation_ids = [], rt_channels = [], rt_trigger_reasons = [],
      rt_degradation_reasons = [], rt_selected_node_ids = [], rt_canonical_evidence_ids = [],
      rt_fusion_policy_version = [], rt_navigation_snapshot_ids = [], rt_navigation_routes = [],
      rt_navigation_read_count = 0, rt_source_window_count = 0, rt_link_hop_count = 0,
      rt_page_tree_supplement_count = 0, rt_semantic_structure_state = ''unknown'', rt_question_goal = [],
      rt_question_facets = [], rt_question_facet_plan_digest = [], rt_query_planning_prompt_contract_digest = [],
      rt_query_planning_execution_profile_json = [], rt_query_planning_execution_profile_digest = [],
      rt_facet_coverage = [], rt_coverage_gate_state = ''unknown'', rt_navigation_round_count = 0,
      rt_navigation_action_kinds = [], rt_navigation_stop_reason = [], rt_navigation_model_calls = 0,
      rt_navigation_logical_read_count = 0, rt_navigation_source_tokens = 0, rt_grounding_input_budget_tokens = 0,
      rt_evidence_input_tokens = 0, rt_guidance_input_tokens = 0, rt_version_navigation_snapshot_id = [],
      rt_version_catalog_revision_id = [], rt_version_catalog_digest = [], rt_version_scope_mode = [],
      rt_version_scope_status = [], rt_version_scope_lineage_ids = [], rt_version_scope_labels = [],
      rt_version_scope_document_ids = [], rt_version_scope_selection_reason = [],
      rt_version_scope_degradation_reason = []\<rparr>"

subsection \<open>The stored form\<close>

definition channel_as_dict :: "channel_trace \<Rightarrow> json" where
  "channel_as_dict c =
     JObj [(''channel'', JStr (ct_channel c)), (''candidate_count'', JInt (ct_count c)),
           (''trigger_reasons'', json_strings (ct_triggers c)), (''degradation_reasons'', json_strings (ct_degradations c))]"

definition question_facet_as_dict :: "question_facet \<Rightarrow> json" where
  "question_facet_as_dict q =
     JObj [(''facet_id'', JStr (qf_id q)), (''label'', JStr (qf_label q)), (''description'', JStr (qf_description q)),
           (''importance'', JStr (qf_importance q))]"

definition facet_coverage_as_dict :: "facet_coverage \<Rightarrow> json" where
  "facet_coverage_as_dict f =
     JObj [(''facet_id'', JStr (fv_facet f)), (''state'', JStr (fv_state f)), (''evidence_ids'', json_strings (fv_evidence f))]"

definition trace_members :: "retrieval_trace \<Rightarrow> dict" where
  "trace_members t =
     [
      (''catalog_generation_ids'', json_strings (rt_catalog_generation_ids t)),
      (''page_tree_generation_ids'', json_strings (rt_page_tree_generation_ids t)),
      (''channels'', JList (map channel_as_dict (rt_channels t))),
      (''trigger_reasons'', json_strings (rt_trigger_reasons t)),
      (''degradation_reasons'', json_strings (rt_degradation_reasons t)),
      (''selected_node_ids'', json_strings (rt_selected_node_ids t)),
      (''canonical_evidence_ids'', json_strings (rt_canonical_evidence_ids t)),
      (''fusion_policy_version'', JStr (rt_fusion_policy_version t)),
      (''navigation_snapshot_ids'', json_strings (rt_navigation_snapshot_ids t)),
      (''navigation_routes'', json_strings (rt_navigation_routes t)),
      (''navigation_read_count'', JInt (rt_navigation_read_count t)),
      (''source_window_count'', JInt (rt_source_window_count t)), (''link_hop_count'', JInt (rt_link_hop_count t)),
      (''page_tree_supplement_count'', JInt (rt_page_tree_supplement_count t)),
      (''semantic_structure_state'', JStr (rt_semantic_structure_state t)),
      (''question_goal'', JStr (rt_question_goal t)),
      (''question_facets'', JList (map question_facet_as_dict (rt_question_facets t))),
      (''question_facet_plan_digest'', JStr (rt_question_facet_plan_digest t)),
      (''query_planning_prompt_contract_digest'', JStr (rt_query_planning_prompt_contract_digest t)),
      (''query_planning_execution_profile_json'', JStr (rt_query_planning_execution_profile_json t)),
      (''query_planning_execution_profile_digest'', JStr (rt_query_planning_execution_profile_digest t)),
      (''facet_coverage'', JList (map facet_coverage_as_dict (rt_facet_coverage t))),
      (''coverage_gate_state'', JStr (rt_coverage_gate_state t)),
      (''navigation_round_count'', JInt (rt_navigation_round_count t)),
      (''navigation_action_kinds'', json_strings (rt_navigation_action_kinds t)),
      (''navigation_stop_reason'', JStr (rt_navigation_stop_reason t)),
      (''navigation_model_calls'', JInt (rt_navigation_model_calls t)),
      (''navigation_logical_read_count'', JInt (rt_navigation_logical_read_count t)),
      (''navigation_source_tokens'', JInt (rt_navigation_source_tokens t)),
      (''grounding_input_budget_tokens'', JInt (rt_grounding_input_budget_tokens t)),
      (''evidence_input_tokens'', JInt (rt_evidence_input_tokens t)),
      (''guidance_input_tokens'', JInt (rt_guidance_input_tokens t)),
      (''version_navigation_snapshot_id'', JStr (rt_version_navigation_snapshot_id t)),
      (''version_catalog_revision_id'', JStr (rt_version_catalog_revision_id t)),
      (''version_catalog_digest'', JStr (rt_version_catalog_digest t)),
      (''version_scope_mode'', JStr (rt_version_scope_mode t)),
      (''version_scope_status'', JStr (rt_version_scope_status t)),
      (''version_scope_lineage_ids'', json_strings (rt_version_scope_lineage_ids t)),
      (''version_scope_labels'', json_strings (rt_version_scope_labels t)),
      (''version_scope_document_ids'', json_strings (rt_version_scope_document_ids t)),
      (''version_scope_selection_reason'', JStr (rt_version_scope_selection_reason t)),
      (''version_scope_degradation_reason'', JStr (rt_version_scope_degradation_reason t))]"

definition trace_as_dict :: "retrieval_trace \<Rightarrow> json" where
  "trace_as_dict t = JObj (trace_members t)"

definition with_canonical_evidence_ids :: "retrieval_trace \<Rightarrow> string list \<Rightarrow> retrieval_trace" where
  "with_canonical_evidence_ids t ids = t\<lparr>rt_canonical_evidence_ids := uniq ids\<rparr>"

subsection \<open>Reading it back\<close>

definition json_text_value :: "json \<Rightarrow> string list" where
  "json_text_value v = (case v of JStr s \<Rightarrow> if s = [] then [] else [s] | _ \<Rightarrow> [])"

definition trace_strings :: "json \<Rightarrow> string list" where
  "trace_strings v = (case v of JList vs \<Rightarrow> uniq (concat (map json_text_value vs)) | _ \<Rightarrow> [])"

definition trace_string :: "json \<Rightarrow> string" where
  "trace_string v = (case v of JStr s \<Rightarrow> s | _ \<Rightarrow> [])"

definition trace_count :: "json \<Rightarrow> int" where
  "trace_count v = (case v of JInt i \<Rightarrow> if 0 \<le> i then i else 0 | _ \<Rightarrow> 0)"

definition filled_string :: "json \<Rightarrow> bool" where
  "filled_string v \<longleftrightarrow> (case v of JStr s \<Rightarrow> py_strip s \<noteq> [] | _ \<Rightarrow> False)"

definition channel_of_json :: "json \<Rightarrow> channel_trace list" where
  "channel_of_json v =
     (case v of
        JObj d \<Rightarrow>
          (case (dict_get d ''channel'', dict_get d ''candidate_count'') of
             (JStr channel, JInt n) \<Rightarrow>
               if n < 0 then []
               else [\<lparr>ct_channel = channel, ct_count = n, ct_triggers = trace_strings (dict_get d ''trigger_reasons''),
                      ct_degradations = trace_strings (dict_get d ''degradation_reasons'')\<rparr>]
           | _ \<Rightarrow> [])
      | _ \<Rightarrow> [])"

definition trace_channels :: "json \<Rightarrow> channel_trace list" where
  "trace_channels v = (case v of JList vs \<Rightarrow> concat (map channel_of_json vs) | _ \<Rightarrow> [])"

definition question_facet_fields :: "string list" where
  "question_facet_fields = [''facet_id'', ''label'', ''description'', ''importance'']"

definition question_facet_of_json :: "json \<Rightarrow> question_facet option" where
  "question_facet_of_json v =
     (case v of
        JObj d \<Rightarrow>
          if has_fields d question_facet_fields \<and> list_all (\<lambda>k. filled_string (dict_get d k)) question_facet_fields \<and>
             trace_string (dict_get d ''importance'') \<in> {''required'', ''supporting''}
          then Some \<lparr>qf_id = trace_string (dict_get d ''facet_id''), qf_label = trace_string (dict_get d ''label''),
            qf_description = trace_string (dict_get d ''description''), qf_importance = trace_string (dict_get d ''importance'')\<rparr>
          else None
      | _ \<Rightarrow> None)"

fun question_facets_loop :: "string list \<Rightarrow> json list \<Rightarrow> question_facet list option" where
  "question_facets_loop seen [] = Some []"
| "question_facets_loop seen (v # vs) =
     (case question_facet_of_json v of
        None \<Rightarrow> None
      | Some q \<Rightarrow>
          if qf_id q \<in> set seen then None
          else map_option ((#) q) (question_facets_loop (qf_id q # seen) vs))"

definition strict_question_facets :: "json \<Rightarrow> question_facet list option" where
  "strict_question_facets v = (case v of JList vs \<Rightarrow> if vs = [] then None else question_facets_loop [] vs | _ \<Rightarrow> None)"

definition strict_strings :: "json \<Rightarrow> string list option" where
  "strict_strings v =
     (case v of
        JList vs \<Rightarrow> if list_all filled_string vs \<and> distinct (map trace_string vs) then Some (map trace_string vs) else None
      | _ \<Rightarrow> None)"

text \<open>A list or a dictionary has no hash, so looking it up in the set of states raises.\<close>

definition unhashable :: "json \<Rightarrow> bool" where
  "unhashable v \<longleftrightarrow> (case v of JList _ \<Rightarrow> True | JObj _ \<Rightarrow> True | _ \<Rightarrow> False)"

fun facet_coverage_loop :: "string list \<Rightarrow> string list \<Rightarrow> json list \<Rightarrow> facet_coverage list option res" where
  "facet_coverage_loop ids seen [] = Inr (Some [])"
| "facet_coverage_loop ids seen (v # vs) =
     (case v of
        JObj d \<Rightarrow>
          if \<not> has_fields d [''facet_id'', ''state'', ''evidence_ids''] then Inr None
          else let facet = trace_string (dict_get d ''facet_id''); state = trace_string (dict_get d ''state'') in
            if \<not> filled_string (dict_get d ''facet_id'') \<or> facet \<notin> set ids \<or> facet \<in> set seen then Inr None
            else if unhashable (dict_get d ''state'') then Inl (TypeError ''unhashable type'')
            else if state \<notin> {''covered'', ''partial'', ''missing''} then Inr None
            else (case strict_strings (dict_get d ''evidence_ids'') of
                None \<Rightarrow> Inr None
              | Some evidence \<Rightarrow>
                  if (state = ''missing'') = (evidence \<noteq> []) then Inr None
                  else res_bind (facet_coverage_loop ids (facet # seen) vs) (\<lambda>r. Inr
                    (map_option ((#) \<lparr>fv_facet = facet, fv_state = state, fv_evidence = evidence\<rparr>) r)))
      | _ \<Rightarrow> Inr None)"

definition strict_facet_coverage :: "json \<Rightarrow> string list \<Rightarrow> facet_coverage list option res" where
  "strict_facet_coverage v ids =
     (case v of JList vs \<Rightarrow> if length vs \<noteq> length ids then Inr None else facet_coverage_loop ids [] vs | _ \<Rightarrow> Inr None)"

record semantic_fields =
  sf_state :: string
  sf_goal :: string
  sf_facets :: "question_facet list"
  sf_plan_digest :: string
  sf_coverage :: "facet_coverage list"
  sf_gate :: string

definition unknown_semantics :: semantic_fields where
  "unknown_semantics =
     \<lparr>sf_state = ''unknown'', sf_goal = [], sf_facets = [], sf_plan_digest = [], sf_coverage = [], sf_gate = ''unknown''\<rparr>"

definition required_strings :: "string list" where
  "required_strings =
     [''question_goal'', ''question_facet_plan_digest'', ''query_planning_prompt_contract_digest'',
      ''query_planning_execution_profile_json'', ''query_planning_execution_profile_digest'', ''coverage_gate_state'']"

definition semantic_fields_of :: "dict \<Rightarrow> semantic_fields res" where
  "semantic_fields_of d =
     (if dict_get d ''semantic_structure_state'' \<noteq> JStr ''known'' \<or>
         \<not> list_all (\<lambda>k. filled_string (dict_get d k)) required_strings then Inr unknown_semantics
      else case strict_question_facets (dict_get d ''question_facets'') of
        None \<Rightarrow> Inr unknown_semantics
      | Some facets \<Rightarrow>
          res_bind (strict_facet_coverage (dict_get d ''facet_coverage'') (map qf_id facets)) (\<lambda>r.
            case r of
              None \<Rightarrow> Inr unknown_semantics
            | Some coverage \<Rightarrow>
                if length coverage \<noteq> length facets then Inr unknown_semantics
                else Inr \<lparr>sf_state = ''known'', sf_goal = trace_string (dict_get d ''question_goal''), sf_facets = facets,
                  sf_plan_digest = trace_string (dict_get d ''question_facet_plan_digest''), sf_coverage = coverage,
                  sf_gate = trace_string (dict_get d ''coverage_gate_state'')\<rparr>))"

definition trace_of_dict :: "dict \<Rightarrow> semantic_fields \<Rightarrow> retrieval_trace" where
  "trace_of_dict d s =
     \<lparr>
      rt_catalog_generation_ids = trace_strings (dict_get d ''catalog_generation_ids''),
      rt_page_tree_generation_ids = trace_strings (dict_get d ''page_tree_generation_ids''),
      rt_channels = trace_channels (dict_get d ''channels''),
      rt_trigger_reasons = trace_strings (dict_get d ''trigger_reasons''),
      rt_degradation_reasons = trace_strings (dict_get d ''degradation_reasons''),
      rt_selected_node_ids = trace_strings (dict_get d ''selected_node_ids''),
      rt_canonical_evidence_ids = trace_strings (dict_get d ''canonical_evidence_ids''),
      rt_fusion_policy_version = trace_string (dict_get d ''fusion_policy_version''),
      rt_navigation_snapshot_ids = trace_strings (dict_get d ''navigation_snapshot_ids''),
      rt_navigation_routes = trace_strings (dict_get d ''navigation_routes''),
      rt_navigation_read_count = trace_count (dict_get d ''navigation_read_count''),
      rt_source_window_count = trace_count (dict_get d ''source_window_count''),
      rt_link_hop_count = trace_count (dict_get d ''link_hop_count''),
      rt_page_tree_supplement_count = trace_count (dict_get d ''page_tree_supplement_count''),
      rt_semantic_structure_state = sf_state s, rt_question_goal = sf_goal s, rt_question_facets = sf_facets s,
      rt_question_facet_plan_digest = sf_plan_digest s,
      rt_query_planning_prompt_contract_digest = trace_string (dict_get d ''query_planning_prompt_contract_digest''),
      rt_query_planning_execution_profile_json = trace_string (dict_get d ''query_planning_execution_profile_json''),
      rt_query_planning_execution_profile_digest = trace_string (dict_get d ''query_planning_execution_profile_digest''),
      rt_facet_coverage = sf_coverage s, rt_coverage_gate_state = sf_gate s,
      rt_navigation_round_count = trace_count (dict_get d ''navigation_round_count''),
      rt_navigation_action_kinds = trace_strings (dict_get d ''navigation_action_kinds''),
      rt_navigation_stop_reason = trace_string (dict_get d ''navigation_stop_reason''),
      rt_navigation_model_calls = trace_count (dict_get d ''navigation_model_calls''),
      rt_navigation_logical_read_count = trace_count (dict_get d ''navigation_logical_read_count''),
      rt_navigation_source_tokens = trace_count (dict_get d ''navigation_source_tokens''),
      rt_grounding_input_budget_tokens = trace_count (dict_get d ''grounding_input_budget_tokens''),
      rt_evidence_input_tokens = trace_count (dict_get d ''evidence_input_tokens''),
      rt_guidance_input_tokens = trace_count (dict_get d ''guidance_input_tokens''),
      rt_version_navigation_snapshot_id = trace_string (dict_get d ''version_navigation_snapshot_id''),
      rt_version_catalog_revision_id = trace_string (dict_get d ''version_catalog_revision_id''),
      rt_version_catalog_digest = trace_string (dict_get d ''version_catalog_digest''),
      rt_version_scope_mode = trace_string (dict_get d ''version_scope_mode''),
      rt_version_scope_status = trace_string (dict_get d ''version_scope_status''),
      rt_version_scope_lineage_ids = trace_strings (dict_get d ''version_scope_lineage_ids''),
      rt_version_scope_labels = trace_strings (dict_get d ''version_scope_labels''),
      rt_version_scope_document_ids = trace_strings (dict_get d ''version_scope_document_ids''),
      rt_version_scope_selection_reason = trace_string (dict_get d ''version_scope_selection_reason''),
      rt_version_scope_degradation_reason = trace_string (dict_get d ''version_scope_degradation_reason'')\<rparr>"

definition retrieval_trace_from_json :: "string \<Rightarrow> retrieval_trace res" where
  "retrieval_trace_from_json value =
     (case json_loads value of
        Some (JObj d) \<Rightarrow> res_bind (semantic_fields_of d) (\<lambda>s. Inr (trace_of_dict d s))
      | _ \<Rightarrow> Inr empty_trace)"

subsection \<open>The traces that survive storage\<close>

definition strings_ok :: "string list \<Rightarrow> bool" where
  "strings_ok ss \<longleftrightarrow> distinct ss \<and> [] \<notin> set ss"

definition channel_ok :: "channel_trace \<Rightarrow> bool" where
  "channel_ok c \<longleftrightarrow> 0 \<le> ct_count c \<and> strings_ok (ct_triggers c) \<and> strings_ok (ct_degradations c)"

definition filled :: "string \<Rightarrow> bool" where
  "filled s \<longleftrightarrow> py_strip s \<noteq> []"

definition question_facet_ok :: "question_facet \<Rightarrow> bool" where
  "question_facet_ok q \<longleftrightarrow>
     filled (qf_id q) \<and> filled (qf_label q) \<and> filled (qf_description q) \<and> qf_importance q \<in> {''required'', ''supporting''}"

definition facet_coverage_ok :: "string set \<Rightarrow> facet_coverage \<Rightarrow> bool" where
  "facet_coverage_ok ids f \<longleftrightarrow>
     filled (fv_facet f) \<and> fv_facet f \<in> ids \<and> fv_state f \<in> {''covered'', ''partial'', ''missing''} \<and>
     distinct (fv_evidence f) \<and> list_all filled (fv_evidence f) \<and> (fv_state f = ''missing'' \<longleftrightarrow> fv_evidence f = [])"

text \<open>Either nothing is known of the question, or the plan is complete and covered facet by facet.\<close>

definition semantic_ok :: "retrieval_trace \<Rightarrow> bool" where
  "semantic_ok t \<longleftrightarrow>
     (rt_semantic_structure_state t = ''unknown'' \<and> rt_question_goal t = [] \<and> rt_question_facets t = [] \<and>
      rt_question_facet_plan_digest t = [] \<and> rt_facet_coverage t = [] \<and> rt_coverage_gate_state t = ''unknown'') \<or>
     (rt_semantic_structure_state t = ''known'' \<and> filled (rt_question_goal t) \<and> filled (rt_question_facet_plan_digest t) \<and>
      filled (rt_query_planning_prompt_contract_digest t) \<and> filled (rt_query_planning_execution_profile_json t) \<and>
      filled (rt_query_planning_execution_profile_digest t) \<and> filled (rt_coverage_gate_state t) \<and>
      rt_question_facets t \<noteq> [] \<and> list_all question_facet_ok (rt_question_facets t) \<and> distinct (map qf_id (rt_question_facets t)) \<and>
      length (rt_facet_coverage t) = length (rt_question_facets t) \<and> distinct (map fv_facet (rt_facet_coverage t)) \<and>
      list_all (facet_coverage_ok (qf_id ` set (rt_question_facets t))) (rt_facet_coverage t))"

definition trace_ok :: "retrieval_trace \<Rightarrow> bool" where
  "trace_ok t \<longleftrightarrow>
     strings_ok (rt_catalog_generation_ids t) \<and> strings_ok (rt_page_tree_generation_ids t) \<and>
     list_all channel_ok (rt_channels t) \<and> strings_ok (rt_trigger_reasons t) \<and>
     strings_ok (rt_degradation_reasons t) \<and> strings_ok (rt_selected_node_ids t) \<and>
     strings_ok (rt_canonical_evidence_ids t) \<and> strings_ok (rt_navigation_snapshot_ids t) \<and>
     strings_ok (rt_navigation_routes t) \<and> 0 \<le> rt_navigation_read_count t \<and>
     0 \<le> rt_source_window_count t \<and> 0 \<le> rt_link_hop_count t \<and>
     0 \<le> rt_page_tree_supplement_count t \<and> 0 \<le> rt_navigation_round_count t \<and>
     strings_ok (rt_navigation_action_kinds t) \<and> 0 \<le> rt_navigation_model_calls t \<and>
     0 \<le> rt_navigation_logical_read_count t \<and> 0 \<le> rt_navigation_source_tokens t \<and>
     0 \<le> rt_grounding_input_budget_tokens t \<and> 0 \<le> rt_evidence_input_tokens t \<and>
     0 \<le> rt_guidance_input_tokens t \<and> strings_ok (rt_version_scope_lineage_ids t) \<and>
     strings_ok (rt_version_scope_labels t) \<and> strings_ok (rt_version_scope_document_ids t) \<and> semantic_ok t"

subsection \<open>Fields\<close>

lemma strings_ok_parsed [simp]: "strings_ok (trace_strings v)"
  by (auto simp: trace_strings_def strings_ok_def json_text_value_def split: json.splits if_splits)

lemma trace_strings_of [simp]: "strings_ok ss \<Longrightarrow> trace_strings (json_strings ss) = ss"
proof -
  assume ok: "strings_ok ss"
  have "[] \<notin> set xs \<Longrightarrow> concat (map (json_text_value \<circ> JStr) xs) = xs" for xs
    by (induction xs) (auto simp: json_text_value_def)
  with ok show ?thesis by (simp add: trace_strings_def json_strings_def strings_ok_def uniq_distinct)
qed

lemma trace_scalars [simp]:
  "trace_string (JStr s) = s" "0 \<le> trace_count v" "0 \<le> i \<Longrightarrow> trace_count (JInt i) = i" "filled_string (JStr s) = filled s"
  by (simp_all add: trace_string_def trace_count_def filled_string_def filled_def split: json.split)

lemma filled_trace_string: "filled_string v \<Longrightarrow> filled (trace_string v)"
  by (cases v) (simp_all add: filled_string_def filled_def trace_string_def)

lemma channels_parsed [simp]: "list_all channel_ok (trace_channels v)"
  by (auto simp: trace_channels_def channel_of_json_def list_all_iff channel_ok_def split: json.splits if_splits)

lemma channels_of [simp]: "list_all channel_ok cs \<Longrightarrow> trace_channels (JList (map channel_as_dict cs)) = cs"
proof -
  have "channel_of_json (channel_as_dict c) = [c]" if "channel_ok c" for c
    using that by (simp add: channel_of_json_def channel_as_dict_def channel_ok_def dict_get_def)
  then show "list_all channel_ok cs \<Longrightarrow> trace_channels (JList (map channel_as_dict cs)) = cs"
    unfolding trace_channels_def by (induction cs) auto
qed

lemma question_facet_parsed: "question_facet_of_json v = Some q \<Longrightarrow> question_facet_ok q"
  by (auto simp: question_facet_of_json_def question_facet_ok_def question_facet_fields_def filled_trace_string
      split: json.splits if_splits)

lemma filled_words [simp]:
  "filled ''required''" "filled ''supporting''" "filled ''known''" "filled ''covered''" "filled ''partial''" "filled ''missing''"
  by code_simp+

lemma question_facet_of: "question_facet_ok q \<Longrightarrow> question_facet_of_json (question_facet_as_dict q) = Some q"
  by (auto simp: question_facet_of_json_def question_facet_as_dict_def question_facet_ok_def question_facet_fields_def
      has_fields_def dict_get_def)

lemma question_facets_parsed:
  "question_facets_loop seen vs = Some qs \<Longrightarrow>
     list_all question_facet_ok qs \<and> distinct (map qf_id qs) \<and> set (map qf_id qs) \<inter> set seen = {} \<and> length qs = length vs"
proof (induction vs arbitrary: seen qs)
  case (Cons v vs)
  then obtain q qs' where q: "question_facet_of_json v = Some q" "qf_id q \<notin> set seen"
    and qs: "question_facets_loop (qf_id q # seen) vs = Some qs'" "qs = q # qs'"
    by (auto split: option.splits if_splits)
  from Cons.IH [OF qs(1)] q question_facet_parsed [OF q(1)] show ?case unfolding qs(2) by auto
qed simp

lemma question_facets_of:
  "list_all question_facet_ok qs \<Longrightarrow> distinct (map qf_id qs) \<Longrightarrow> set (map qf_id qs) \<inter> set seen = {} \<Longrightarrow>
     question_facets_loop seen (map question_facet_as_dict qs) = Some qs"
  by (induction qs arbitrary: seen) (auto simp: question_facet_of)

lemma strict_strings_parsed: "strict_strings v = Some ss \<Longrightarrow> distinct ss \<and> list_all filled ss"
  by (auto simp: strict_strings_def list_all_iff filled_trace_string split: json.splits if_splits)

lemma strict_strings_of: "distinct ss \<Longrightarrow> list_all filled ss \<Longrightarrow> strict_strings (json_strings ss) = Some ss"
  by (simp add: strict_strings_def json_strings_def list_all_iff comp_def)

lemma facet_coverage_parsed:
  "facet_coverage_loop ids seen vs = Inr (Some fs) \<Longrightarrow>
     list_all (facet_coverage_ok (set ids)) fs \<and> distinct (map fv_facet fs) \<and> set (map fv_facet fs) \<inter> set seen = {} \<and>
     length fs = length vs"
proof (induction vs arbitrary: seen fs)
  case (Cons v vs)
  then obtain d where v: "v = JObj d" by (auto split: json.splits)
  let ?facet = "trace_string (dict_get d ''facet_id'')" and ?state = "trace_string (dict_get d ''state'')"
  from Cons.prems obtain evidence fs' where step: "filled_string (dict_get d ''facet_id'')" "?facet \<in> set ids" "?facet \<notin> set seen"
      "?state \<in> {''covered'', ''partial'', ''missing''}" "strict_strings (dict_get d ''evidence_ids'') = Some evidence"
      "(?state = ''missing'') \<longleftrightarrow> evidence = []"
    and fs: "facet_coverage_loop ids (?facet # seen) vs = Inr (Some fs')" "fs = \<lparr>fv_facet = ?facet, fv_state = ?state, fv_evidence = evidence\<rparr> # fs'"
    unfolding v by (auto simp: Let_def res_simps split: if_splits option.splits)
  from Cons.IH [OF fs(1)] step strict_strings_parsed [OF step(5)] show ?case
    unfolding fs(2) by (auto simp: facet_coverage_ok_def filled_trace_string)
qed simp

lemma facet_coverage_of:
  "list_all (facet_coverage_ok (set ids)) fs \<Longrightarrow> distinct (map fv_facet fs) \<Longrightarrow> set (map fv_facet fs) \<inter> set seen = {} \<Longrightarrow>
     facet_coverage_loop ids seen (map facet_coverage_as_dict fs) = Inr (Some fs)"
proof (induction fs arbitrary: seen)
  case (Cons f fs)
  have "facet_coverage_loop ids seen (facet_coverage_as_dict f # vs) =
      res_bind (facet_coverage_loop ids (fv_facet f # seen) vs) (\<lambda>r. Inr (map_option ((#) f) r))" for vs
    using Cons.prems
    by (cases f) (auto simp: Let_def facet_coverage_as_dict_def has_fields_def dict_get_def facet_coverage_ok_def unhashable_def strict_strings_of)
  moreover have "facet_coverage_loop ids (fv_facet f # seen) (map facet_coverage_as_dict fs) = Inr (Some fs)"
    using Cons by auto
  ultimately show ?case by simp
qed simp

subsection \<open>The whole trace\<close>

lemma trace_members_get [simp]:
  "dict_get (trace_members t) ''catalog_generation_ids'' = json_strings (rt_catalog_generation_ids t)"
  "dict_get (trace_members t) ''page_tree_generation_ids'' = json_strings (rt_page_tree_generation_ids t)"
  "dict_get (trace_members t) ''channels'' = JList (map channel_as_dict (rt_channels t))"
  "dict_get (trace_members t) ''trigger_reasons'' = json_strings (rt_trigger_reasons t)"
  "dict_get (trace_members t) ''degradation_reasons'' = json_strings (rt_degradation_reasons t)"
  "dict_get (trace_members t) ''selected_node_ids'' = json_strings (rt_selected_node_ids t)"
  "dict_get (trace_members t) ''canonical_evidence_ids'' = json_strings (rt_canonical_evidence_ids t)"
  "dict_get (trace_members t) ''fusion_policy_version'' = JStr (rt_fusion_policy_version t)"
  "dict_get (trace_members t) ''navigation_snapshot_ids'' = json_strings (rt_navigation_snapshot_ids t)"
  "dict_get (trace_members t) ''navigation_routes'' = json_strings (rt_navigation_routes t)"
  "dict_get (trace_members t) ''navigation_read_count'' = JInt (rt_navigation_read_count t)"
  "dict_get (trace_members t) ''source_window_count'' = JInt (rt_source_window_count t)"
  "dict_get (trace_members t) ''link_hop_count'' = JInt (rt_link_hop_count t)"
  "dict_get (trace_members t) ''page_tree_supplement_count'' = JInt (rt_page_tree_supplement_count t)"
  "dict_get (trace_members t) ''semantic_structure_state'' = JStr (rt_semantic_structure_state t)"
  "dict_get (trace_members t) ''question_goal'' = JStr (rt_question_goal t)"
  "dict_get (trace_members t) ''question_facets'' = JList (map question_facet_as_dict (rt_question_facets t))"
  "dict_get (trace_members t) ''question_facet_plan_digest'' = JStr (rt_question_facet_plan_digest t)"
  "dict_get (trace_members t) ''query_planning_prompt_contract_digest'' = JStr (rt_query_planning_prompt_contract_digest t)"
  "dict_get (trace_members t) ''query_planning_execution_profile_json'' = JStr (rt_query_planning_execution_profile_json t)"
  "dict_get (trace_members t) ''query_planning_execution_profile_digest'' = JStr (rt_query_planning_execution_profile_digest t)"
  "dict_get (trace_members t) ''facet_coverage'' = JList (map facet_coverage_as_dict (rt_facet_coverage t))"
  "dict_get (trace_members t) ''coverage_gate_state'' = JStr (rt_coverage_gate_state t)"
  "dict_get (trace_members t) ''navigation_round_count'' = JInt (rt_navigation_round_count t)"
  "dict_get (trace_members t) ''navigation_action_kinds'' = json_strings (rt_navigation_action_kinds t)"
  "dict_get (trace_members t) ''navigation_stop_reason'' = JStr (rt_navigation_stop_reason t)"
  "dict_get (trace_members t) ''navigation_model_calls'' = JInt (rt_navigation_model_calls t)"
  "dict_get (trace_members t) ''navigation_logical_read_count'' = JInt (rt_navigation_logical_read_count t)"
  "dict_get (trace_members t) ''navigation_source_tokens'' = JInt (rt_navigation_source_tokens t)"
  "dict_get (trace_members t) ''grounding_input_budget_tokens'' = JInt (rt_grounding_input_budget_tokens t)"
  "dict_get (trace_members t) ''evidence_input_tokens'' = JInt (rt_evidence_input_tokens t)"
  "dict_get (trace_members t) ''guidance_input_tokens'' = JInt (rt_guidance_input_tokens t)"
  "dict_get (trace_members t) ''version_navigation_snapshot_id'' = JStr (rt_version_navigation_snapshot_id t)"
  "dict_get (trace_members t) ''version_catalog_revision_id'' = JStr (rt_version_catalog_revision_id t)"
  "dict_get (trace_members t) ''version_catalog_digest'' = JStr (rt_version_catalog_digest t)"
  "dict_get (trace_members t) ''version_scope_mode'' = JStr (rt_version_scope_mode t)"
  "dict_get (trace_members t) ''version_scope_status'' = JStr (rt_version_scope_status t)"
  "dict_get (trace_members t) ''version_scope_lineage_ids'' = json_strings (rt_version_scope_lineage_ids t)"
  "dict_get (trace_members t) ''version_scope_labels'' = json_strings (rt_version_scope_labels t)"
  "dict_get (trace_members t) ''version_scope_document_ids'' = json_strings (rt_version_scope_document_ids t)"
  "dict_get (trace_members t) ''version_scope_selection_reason'' = JStr (rt_version_scope_selection_reason t)"
  "dict_get (trace_members t) ''version_scope_degradation_reason'' = JStr (rt_version_scope_degradation_reason t)"
  by (simp_all add: trace_members_def dict_get_def)

lemma trace_members_ok: "json_ok (JObj (trace_members t))"
  by (simp add: trace_members_def json_strings_def list_all_iff channel_as_dict_def question_facet_as_dict_def
      facet_coverage_as_dict_def)

lemma trace_of_members:
  assumes "trace_ok t" "sf_state s = rt_semantic_structure_state t" "sf_goal s = rt_question_goal t"
    "sf_facets s = rt_question_facets t" "sf_plan_digest s = rt_question_facet_plan_digest t"
    "sf_coverage s = rt_facet_coverage t" "sf_gate s = rt_coverage_gate_state t"
  shows "trace_of_dict (trace_members t) s = t"
  using assms by (cases t) (simp add: trace_of_dict_def trace_ok_def)

lemma semantic_fields_parsed:
  assumes "semantic_fields_of d = Inr s"
  shows "semantic_ok (trace_of_dict d s)"
proof (cases "s = unknown_semantics")
  case True
  then show ?thesis by (simp add: semantic_ok_def unknown_semantics_def trace_of_dict_def)
next
  case False
  with assms obtain facets coverage where known: "dict_get d ''semantic_structure_state'' = JStr ''known''"
      "list_all (\<lambda>k. filled_string (dict_get d k)) required_strings"
    and facets: "strict_question_facets (dict_get d ''question_facets'') = Some facets"
    and coverage: "strict_facet_coverage (dict_get d ''facet_coverage'') (map qf_id facets) = Inr (Some coverage)"
      "length coverage = length facets"
    and s: "s = \<lparr>sf_state = ''known'', sf_goal = trace_string (dict_get d ''question_goal''), sf_facets = facets,
       sf_plan_digest = trace_string (dict_get d ''question_facet_plan_digest''), sf_coverage = coverage,
       sf_gate = trace_string (dict_get d ''coverage_gate_state'')\<rparr>"
    by (auto simp: semantic_fields_of_def res_simps split: if_splits option.splits)
  from facets obtain vs where vs: "vs \<noteq> []" "question_facets_loop [] vs = Some facets"
    by (auto simp: strict_question_facets_def split: json.splits if_splits)
  from coverage(1) obtain ws where "facet_coverage_loop (map qf_id facets) [] ws = Inr (Some coverage)"
    by (auto simp: strict_facet_coverage_def split: json.splits if_splits)
  from facet_coverage_parsed [OF this] question_facets_parsed [OF vs(2)] vs(1) coverage(2) known(2) filled_trace_string
  show ?thesis unfolding semantic_ok_def s by (auto simp: trace_of_dict_def required_strings_def)
qed

lemma semantic_fields_of_members:
  assumes "semantic_ok t"
  shows "\<exists>s. semantic_fields_of (trace_members t) = Inr s \<and> sf_state s = rt_semantic_structure_state t \<and>
    sf_goal s = rt_question_goal t \<and> sf_facets s = rt_question_facets t \<and> sf_plan_digest s = rt_question_facet_plan_digest t \<and>
    sf_coverage s = rt_facet_coverage t \<and> sf_gate s = rt_coverage_gate_state t"
proof (cases "rt_semantic_structure_state t = ''known''")
  case False
  with assms show ?thesis by (simp add: semantic_fields_of_def semantic_ok_def unknown_semantics_def)
next
  case True
  with assms have known: "filled (rt_question_goal t)" "filled (rt_question_facet_plan_digest t)"
      "filled (rt_query_planning_prompt_contract_digest t)" "filled (rt_query_planning_execution_profile_json t)"
      "filled (rt_query_planning_execution_profile_digest t)" "filled (rt_coverage_gate_state t)"
    and facets: "rt_question_facets t \<noteq> []" "list_all question_facet_ok (rt_question_facets t)" "distinct (map qf_id (rt_question_facets t))"
    and coverage: "length (rt_facet_coverage t) = length (rt_question_facets t)" "distinct (map fv_facet (rt_facet_coverage t))"
      "list_all (facet_coverage_ok (set (map qf_id (rt_question_facets t)))) (rt_facet_coverage t)"
    by (simp_all add: semantic_ok_def)
  have "strict_question_facets (JList (map question_facet_as_dict (rt_question_facets t))) = Some (rt_question_facets t)"
    using question_facets_of [OF facets(2,3), of "[]"] facets(1) by (simp add: strict_question_facets_def)
  moreover have "strict_facet_coverage (JList (map facet_coverage_as_dict (rt_facet_coverage t)))
      (map qf_id (rt_question_facets t)) = Inr (Some (rt_facet_coverage t))"
    using facet_coverage_of [OF coverage(3,2), of "[]"] coverage(1) by (simp add: strict_facet_coverage_def)
  ultimately show ?thesis
    using True known coverage(1) by (simp add: semantic_fields_of_def required_strings_def)
qed

lemma trace_roundtrip: "trace_ok t \<Longrightarrow> retrieval_trace_from_json (json_text (trace_as_dict t)) = Inr t"
proof -
  assume ok: "trace_ok t"
  then have "semantic_ok t" by (simp add: trace_ok_def)
  from semantic_fields_of_members [OF this] obtain s where
    s: "semantic_fields_of (trace_members t) = Inr s" "trace_of_dict (trace_members t) s = t"
    using trace_of_members [OF ok] by blast
  show ?thesis
    by (simp only: retrieval_trace_from_json_def trace_as_dict_def json_loads_text [OF trace_members_ok] option.case json.case
        s res_bind_simps)
qed

lemma trace_parsed_ok: "retrieval_trace_from_json v = Inr t \<Longrightarrow> trace_ok t"
proof -
  have "trace_ok empty_trace" by (simp add: trace_ok_def empty_trace_def semantic_ok_def strings_ok_def)
  moreover have "trace_ok (trace_of_dict d s)" if "semantic_fields_of d = Inr s" for d s
    using semantic_fields_parsed [OF that] by (simp add: trace_ok_def trace_of_dict_def)
  ultimately show "retrieval_trace_from_json v = Inr t \<Longrightarrow> trace_ok t"
    by (auto simp: retrieval_trace_from_json_def res_simps split: option.splits json.splits)
qed

text \<open>
  C38 The record of a retrieval survives storage.  What the reader returns is well formed, a
  complete facet plan or none at all, and a well-formed trace is read back as it was written;
  so reading, writing and reading again changes nothing.
\<close>

theorem retrieval_trace_roundtrip:
  shows "(\<forall>t. trace_ok t \<longrightarrow> retrieval_trace_from_json (json_text (trace_as_dict t)) = Inr t) \<and>
    (\<forall>v t. retrieval_trace_from_json v = Inr t \<longrightarrow>
       trace_ok t \<and> retrieval_trace_from_json (json_text (trace_as_dict t)) = Inr t)"
  using trace_roundtrip trace_parsed_ok by blast

definition sample_trace :: retrieval_trace where
  "sample_trace = empty_trace
     \<lparr>rt_semantic_structure_state := ''known'', rt_question_goal := ''goal'', rt_question_facet_plan_digest := ''p'',
      rt_query_planning_prompt_contract_digest := ''c'', rt_query_planning_execution_profile_json := ''j'',
      rt_query_planning_execution_profile_digest := ''d'', rt_coverage_gate_state := ''partial'',
      rt_question_facets := [\<lparr>qf_id = ''f'', qf_label = ''l'', qf_description = ''x'', qf_importance = ''required''\<rparr>],
      rt_facet_coverage := [\<lparr>fv_facet = ''f'', fv_state = ''covered'', fv_evidence = [''e'']\<rparr>]\<rparr>"

theorem retrieval_trace_roundtrip_witness:
  "retrieval_trace_from_json (json_text (trace_as_dict sample_trace)) = Inr sample_trace"
proof -
  have "trace_ok sample_trace" by code_simp
  with retrieval_trace_roundtrip show ?thesis by blast
qed

end
