(* ===== verification/GroundedAnswer.thy ===== *)
theory GroundedAnswer
  imports AnswerPolicy RetrievalTrace ExecutionProfile "HOL-Library.Log_Nat"
begin

section \<open>Grounded answers\<close>

text \<open>
  \<open>openkb/answers/types.py\<close> and the two seams of \<open>openkb/answers/grounded.py\<close>:
  \<open>prepare_grounded_evidence_pack\<close> fits the Evidence and the guidance of a question to the
  context of the model, and \<open>generate_grounded_answer\<close> makes the text of the answer.
\<close>

subsection \<open>Evidence packs\<close>

record retrieval_plan =
  rp_query :: string
  rp_terms :: "string list"
  rp_source :: string

record evidence_ref =
  er_id :: string
  er_document :: string
  er_name :: string
  er_section :: string
  er_locator :: dict
  er_excerpt :: string
  er_channels :: "string list"
  er_version_label :: "string option"
  er_version_side :: "string option"

record answer_image =
  ai_id :: string
  ai_evidence :: string
  ai_document :: string
  ai_document_name :: string
  ai_name :: string
  ai_media_type :: string
  ai_path :: string
  ai_alt :: "string option"
  ai_locator :: dict

record guidance_item =
  gi_route :: string
  gi_kind :: string
  gi_authority :: string
  gi_title :: string
  gi_content :: string
  gi_sources :: "string list"

record route_option =
  ro_route :: string
  ro_kind :: string
  ro_title :: string

record retrieval_cost =
  rc_calls :: int
  rc_input :: int
  rc_output :: int

record evidence_pack =
  pk_plan :: retrieval_plan
  pk_evidence :: "evidence_ref list"
  pk_degradations :: "string list"
  pk_images :: "answer_image list"
  pk_trace :: retrieval_trace
  pk_cost :: retrieval_cost
  pk_guidance :: "guidance_item list"
  pk_routes :: "route_option list"

subsection \<open>Shares of a budget\<close>

text \<open>
  \<open>int(n * share)\<close> in double precision: \<open>n\<close> is rounded to 53 bits, and so is the product
  with the mantissa of the share, \<open>c / 2 ^ e\<close>; \<open>int\<close> truncates.  The literal \<open>0.7\<close> is
  \<open>6305039478318694 / 2 ^ 53\<close>, and \<open>0.75\<close> is \<open>3 / 4\<close>.
\<close>

definition round53 :: "nat \<Rightarrow> nat" where
  "round53 n = (let e = floorlog 2 n - 53 in round_half_even n (2 ^ e) * 2 ^ e)"

definition float_share :: "nat \<Rightarrow> nat \<Rightarrow> nat \<Rightarrow> nat" where
  "float_share c e n = round53 (round53 n * c) div 2 ^ e"

definition document_share :: "nat \<Rightarrow> nat" where
  "document_share n = float_share 6305039478318694 53 n"

definition evidence_share :: "nat \<Rightarrow> nat" where
  "evidence_share n = float_share 3 2 n"

subsection \<open>The pieces of the prompt\<close>

definition lf :: string where
  "lf = [CHR 0x0A]"

text \<open>The em dash and the two curly quotes.\<close>

definition em_dash :: string where
  "em_dash = [CHR 0xE2, CHR 0x80, CHR 0x94]"

definition quoted :: "string \<Rightarrow> string" where
  "quoted s = [CHR 0xE2, CHR 0x80, CHR 0x9C] @ s @ [CHR 0xE2, CHR 0x80, CHR 0x9D]"

definition evidence_text :: "nat \<Rightarrow> evidence_ref \<Rightarrow> string" where
  "evidence_text ordinal r =
     ''['' @ nat_digits ordinal @ ''] '' @ er_name r @ '' '' @ em_dash @ '' '' @ er_section r @ lf @ er_excerpt r @ lf"

definition guidance_headings :: "string \<Rightarrow> string list" where
  "guidance_headings content =
     filter (\<lambda>h. h \<noteq> [])
       (map (\<lambda>line. py_strip (dropWhile (\<lambda>c. c = CHR ''#'') line))
         (filter (\<lambda>line. prefix ''#'' line) (py_splitlines content)))"

definition guidance_text :: "guidance_item \<Rightarrow> string" where
  "guidance_text g =
     (let headings = guidance_headings (gi_content g);
          outline = (if headings = [] then [] else lf @ ''Outline: '' @ py_join '' > '' (take 12 headings)) in
      ''Route: '' @ gi_route g @ lf @ ''Title: '' @ gi_title g @ lf @ ''Kind: '' @ gi_kind g @ lf @
      ''Authority: '' @ gi_authority g @ outline)"

text \<open>The longest prefix of the items that fits the budget, and its tokens.\<close>

fun within_budget :: "('a \<Rightarrow> string) \<Rightarrow> nat \<Rightarrow> nat \<Rightarrow> 'a list \<Rightarrow> 'a list \<times> nat" where
  "within_budget render budget used [] = ([], used)"
| "within_budget render budget used (x # xs) =
     (let tokens = estimate_model_tokens (render x) in
      if budget < used + tokens then ([], used)
      else let (included, total) = within_budget render budget (used + tokens) xs in (x # included, total))"

definition numbered :: "'a list \<Rightarrow> (nat \<times> 'a) list" where
  "numbered xs = enumerate 1 xs"

definition evidence_for_prompt :: "evidence_ref list \<Rightarrow> nat \<Rightarrow> evidence_ref list \<times> nat" where
  "evidence_for_prompt evidence budget =
     (let (included, used) = within_budget (\<lambda>(i, r). evidence_text i r) budget 0 (numbered evidence) in
      (map snd included, used))"

definition guidance_for_prompt :: "guidance_item list \<Rightarrow> nat \<Rightarrow> guidance_item list \<times> nat" where
  "guidance_for_prompt guidance budget = within_budget guidance_text budget 0 guidance"

subsection \<open>The coverage after the budget\<close>

definition facet_after_budget :: "string set \<Rightarrow> facet_coverage \<Rightarrow> facet_coverage" where
  "facet_after_budget ids f =
     (let retained = filter (\<lambda>e. e \<in> ids) (fv_evidence f);
          state = (if fv_state f \<in> {''covered'', ''partial''}
                   then if retained = [] then ''missing''
                        else if length retained < length (fv_evidence f) then ''partial'' else fv_state f
                   else fv_state f) in
      \<lparr>fv_facet = fv_facet f, fv_state = state, fv_evidence = retained\<rparr>)"

definition required_facets :: "retrieval_trace \<Rightarrow> string list" where
  "required_facets t = map qf_id (filter (\<lambda>q. qf_importance q = ''required'') (rt_question_facets t))"

definition facet_states :: "string list \<Rightarrow> facet_coverage list \<Rightarrow> (string \<times> string) list" where
  "facet_states required coverage =
     fold (\<lambda>f. AList.update (fv_facet f) (fv_state f)) (filter (\<lambda>f. fv_facet f \<in> set required) coverage) []"

definition coverage_state :: "retrieval_trace \<Rightarrow> facet_coverage list \<Rightarrow> string" where
  "coverage_state t coverage =
     (let required = required_facets t; states = facet_states required coverage in
      if required = [] \<or> list_all (\<lambda>i. map_of states i = Some ''covered'') required then ''covered''
      else if list_ex (\<lambda>kv. snd kv \<in> {''covered'', ''partial''}) states then ''partial''
      else ''uncovered'')"

subsection \<open>Preparing a pack\<close>

definition conservative :: answer_budget where
  "conservative = answer_budget_for_gateway None"

definition capacity_or_default :: "int option \<Rightarrow> int" where
  "capacity_or_default capacity =
     (case capacity of Some c \<Rightarrow> if c = 0 then ab_context conservative else c | None \<Rightarrow> ab_context conservative)"

definition answer_reserve :: "int \<Rightarrow> int option \<Rightarrow> int" where
  "answer_reserve capacity output_reserve =
     max (max 2048 (answer_output_reserve capacity)) (case output_reserve of Some r \<Rightarrow> r | None \<Rightarrow> 0)"

definition grounding_budget :: "int option \<Rightarrow> int option \<Rightarrow> nat" where
  "grounding_budget capacity output_reserve =
     (let c = capacity_or_default capacity in document_share (nat (c - answer_reserve c output_reserve)))"

definition prepare_grounded_evidence_pack :: "evidence_pack \<Rightarrow> int option \<Rightarrow> int option \<Rightarrow> evidence_pack" where
  "prepare_grounded_evidence_pack pack capacity output_reserve =
     (let budget = grounding_budget capacity output_reserve;
          evidence_budget = evidence_share budget;
          (sent, evidence_tokens) = evidence_for_prompt (pk_evidence pack) evidence_budget;
          ids = set (map er_id sent);
          bound_guidance = filter (\<lambda>g. gi_sources g \<noteq> [] \<and> set (gi_sources g) \<subseteq> ids) (pk_guidance pack);
          (guidance, guidance_tokens) = guidance_for_prompt bound_guidance (budget - evidence_budget);
          t = pk_trace pack;
          coverage = map (facet_after_budget ids) (rt_facet_coverage t);
          gate = (if coverage \<noteq> [] then coverage_state t coverage
                  else if pk_guidance pack \<noteq> [] \<and> length guidance < length (pk_guidance pack)
                  then if guidance \<noteq> [] then ''partial'' else ''uncovered''
                  else rt_coverage_gate_state t) in
      pack
        \<lparr>pk_evidence := sent,
         pk_images := filter (\<lambda>i. ai_evidence i \<in> ids) (pk_images pack),
         pk_trace := (with_canonical_evidence_ids t (map er_id sent))
           \<lparr>rt_navigation_routes := map gi_route guidance, rt_grounding_input_budget_tokens := int budget,
            rt_evidence_input_tokens := int evidence_tokens, rt_guidance_input_tokens := int guidance_tokens,
            rt_coverage_gate_state := gate, rt_facet_coverage := coverage\<rparr>,
         pk_guidance := guidance\<rparr>)"

subsection \<open>The prompt\<close>

definition answer_blueprint :: "retrieval_trace \<Rightarrow> evidence_ref list \<Rightarrow> string" where
  "answer_blueprint t evidence =
     (if rt_semantic_structure_state t \<noteq> ''known'' \<or> rt_question_facets t = [] then []
      else
        let ordinals = fold (\<lambda>(i, r). AList.update (er_id r) i) (numbered evidence) [];
            coverage = fold (\<lambda>f. AList.update (fv_facet f) f) (rt_facet_coverage t) [];
            line = (\<lambda>(i, q).
              let item = map_of coverage (qf_id q);
                  state = (case item of None \<Rightarrow> ''missing'' | Some f \<Rightarrow> fv_state f);
                  citations = List.map_filter (\<lambda>e. map_option (\<lambda>k. ''['' @ nat_digits k @ '']'') (map_of ordinals e))
                    (case item of None \<Rightarrow> [] | Some f \<Rightarrow> fv_evidence f);
                  support = (if citations \<noteq> [] then py_join '', '' citations
                    else ''navigation unconfirmed; inspect Original Evidence before declaring a gap'') in
              nat_digits i @ ''. '' @ qf_label q @ '' ('' @ qf_importance q @ '') '' @ em_dash @ '' '' @ state @ '' '' @
              em_dash @ '' '' @ qf_description q @ '' '' @ em_dash @ '' '' @ support) in
        py_join lf ((''Goal: '' @ rt_question_goal t) # map line (numbered (rt_question_facets t))))"

definition answer_prompt ::
  "string \<Rightarrow> evidence_ref list \<Rightarrow> guidance_item list \<Rightarrow> (string \<times> string) list \<Rightarrow> retrieval_trace \<Rightarrow> string" where
  "answer_prompt question evidence guidance conversation t =
     (let prior = py_join (lf @ lf) (map (\<lambda>(user, assistant). ''Previous user: '' @ user @ lf @ ''Previous assistant: '' @ assistant)
            (drop (length conversation - 4) conversation));
          context = py_join lf (map (\<lambda>(i, r). evidence_text i r) (numbered evidence));
          navigation = py_join (lf @ lf) (map guidance_text guidance);
          history = (if prior = [] then [] else ''Conversation context:'' @ lf @ prior @ lf @ lf);
          guidance_section = (if navigation = [] then []
            else ''Knowledge Guidance (navigation only; not citation evidence):'' @ lf @ navigation @ lf @ lf);
          blueprint = answer_blueprint t evidence;
          blueprint_section = (if blueprint = [] then []
            else ''Answer Blueprint (navigation only; labels and ordering are not citation evidence):'' @ lf @ blueprint @ lf @ lf) in
      history @ ''Current question: '' @ question @ lf @ lf @ guidance_section @ blueprint_section @
      ''Original Evidence is the only factual authority; cite it by number.'' @ lf @ ''Evidence:'' @ lf @ context)"

definition deterministic_answer :: "string \<Rightarrow> evidence_ref list \<Rightarrow> string" where
  "deterministic_answer question evidence =
     (if evidence = [] then ''No available source evidence was found for: '' @ question
      else ''Available source evidence for '' @ quoted question @ '':'' @ lf @ lf @
        py_join lf (map (\<lambda>(i, r). ''['' @ nat_digits i @ ''] '' @ er_excerpt r) (numbered evidence)))"

subsection \<open>Generating the text\<close>

text \<open>
  One call of \<open>model_gateway.stream\<close>, as the caller sees it: the callbacks in their order and
  how the call ends.  A result is its content and its number of attempts.
\<close>

datatype stream_event =
    Model_Event string nat
  | Delta nat string
  | Reset nat

datatype stream_end =
    Stream_Result string nat
  | Stream_Cancelled
  | Stream_Failed string string
  | Stream_Raised error

record generation =
  gn_text :: "string option"
  gn_degradations :: "string list"
  gn_calls :: nat
  gn_input :: nat
  gn_output :: nat
  gn_code :: "string option"
  gn_reason :: "string option"

definition cancelled_generation :: "nat \<Rightarrow> string option \<Rightarrow> generation" where
  "cancelled_generation calls prompt =
     \<lparr>gn_text = None, gn_degradations = [], gn_calls = calls,
      gn_input = (case prompt of None \<Rightarrow> 0 | Some p \<Rightarrow> py_len p * calls), gn_output = 0,
      gn_code = Some ''answer_cancelled'', gn_reason = Some ''Answer generation was stopped.''\<rparr>"

definition local_generation :: "string \<Rightarrow> string \<Rightarrow> generation" where
  "local_generation text degradation =
     \<lparr>gn_text = Some text, gn_degradations = [degradation], gn_calls = 0, gn_input = 0, gn_output = 0,
      gn_code = None, gn_reason = None\<rparr>"

definition gateway_answer_verified :: "answer_gateway \<Rightarrow> bool res" where
  "gateway_answer_verified g = (case ag_verifier g of None \<Rightarrow> Inr True | Some r \<Rightarrow> r)"

definition observed_attempts :: "stream_event list \<Rightarrow> nat" where
  "observed_attempts evs =
     fold (\<lambda>ev attempts. case ev of
         Model_Event status attempt \<Rightarrow>
           if status \<in> {''connecting'', ''awaiting_model_result'', ''model_output_activity'', ''validating''}
           then max attempts attempt else attempts
       | _ \<Rightarrow> attempts) evs 0"

text \<open>
  \<open>stream prompt max_tokens\<close> is the call; \<open>before\<close> and \<open>after\<close> are what the two polls of the
  cancellation callback answer.
\<close>

definition generate_grounded_answer ::
  "(string \<Rightarrow> nat option) \<Rightarrow> string \<Rightarrow> evidence_pack \<Rightarrow> answer_gateway option \<Rightarrow>
    (string \<Rightarrow> int \<Rightarrow> stream_event list \<times> stream_end) \<Rightarrow> bool \<Rightarrow> bool \<Rightarrow> (string \<times> string) list \<Rightarrow>
    generation res \<times> stream_event list" where
  "generate_grounded_answer decimal question pack gateway stream before after conversation =
     (if before then (Inr (cancelled_generation 0 None), [])
      else case gateway of
        None \<Rightarrow> (Inr (local_generation (deterministic_answer question (pk_evidence pack)) ''answer_model_unavailable''), [])
      | Some g \<Rightarrow>
          (case gateway_answer_verified g of
             Inl e \<Rightarrow> (Inl e, [])
           | Inr False \<Rightarrow>
               (Inr (local_generation (deterministic_answer question (pk_evidence pack)) ''answer_model_unverified''), [])
           | Inr True \<Rightarrow>
               let prompt = answer_prompt question (pk_evidence pack) (pk_guidance pack) conversation (pk_trace pack);
                   (events, ending) = stream prompt (ab_ceiling (answer_budget_for_gateway gateway));
                   seen = observed_attempts events in
               (case ending of
                  Stream_Raised e \<Rightarrow> Inl e
                | Stream_Cancelled \<Rightarrow> Inr (cancelled_generation seen (Some prompt))
                | Stream_Failed code reason \<Rightarrow> Inr
                    \<lparr>gn_text = None, gn_degradations = [], gn_calls = seen, gn_input = py_len prompt * seen, gn_output = 0,
                     gn_code = Some code, gn_reason = Some reason\<rparr>
                | Stream_Result content attempt_count \<Rightarrow>
                    let attempts = max seen attempt_count in
                    res_bind (citation_guarded_answer decimal (py_strip content) (length (pk_evidence pack))) (\<lambda>text.
                      if after then Inr (cancelled_generation attempts (Some prompt))
                      else Inr
                        \<lparr>gn_text = Some (if text \<noteq> [] then text else deterministic_answer question (pk_evidence pack)),
                         gn_degradations = (if text \<noteq> [] then [] else [''answer_model_fallback'']),
                         gn_calls = attempts, gn_input = py_len prompt * attempts, gn_output = py_len content,
                         gn_code = None, gn_reason = None\<rparr>), events)))"

subsection \<open>The shares stay below the whole\<close>

lemma round53_le: "2 ^ 53 * round53 n \<le> (2 ^ 53 + 1) * n"
proof (cases "floorlog 2 n \<le> 53")
  case True
  then show ?thesis using round_half_even_mult [of 1 n] by (simp add: round53_def)
next
  case False
  define e where "e = floorlog 2 n - 53"
  have "2 ^ (floorlog 2 n - 1) \<le> n" using False by (intro floorlog_geD) simp_all
  moreover have "floorlog 2 n - 1 = 52 + e" using False by (simp add: e_def)
  ultimately have n: "2 ^ 52 * 2 ^ e \<le> n" by (simp add: power_add)
  have "2 * round53 n \<le> 2 * n + 2 ^ e"
    using round_half_even_bounds(2) [of "2 ^ e" n] by (simp add: round53_def e_def [symmetric] Let_def)
  with n show ?thesis by simp
qed

lemma float_share_le:
  assumes "2 ^ 10 * c \<le> 2 ^ e * 1000"
  shows "float_share c e n \<le> n"
proof -
  let ?m = "round53 n" and ?p = "round53 (round53 n * c)"
  have m: "2 ^ 53 * ?m \<le> (2 ^ 53 + 1) * n" and p: "2 ^ 53 * ?p \<le> (2 ^ 53 + 1) * (?m * c)" by (rule round53_le)+
  have "2 ^ 53 * (2 ^ 53 * ?p) \<le> (2 ^ 53 + 1) * (2 ^ 53 * ?m) * c" using mult_left_mono [OF p, of "2 ^ 53"] by (simp add: ac_simps)
  also have "\<dots> \<le> (2 ^ 53 + 1) * ((2 ^ 53 + 1) * n) * c" using m by (intro mult_right_mono mult_left_mono) simp_all
  finally have a: "2 ^ 53 * (2 ^ 53 * ?p) \<le> (2 ^ 53 + 1) * (2 ^ 53 + 1) * (n * c)" by (simp add: ac_simps)
  have b: "2 ^ 10 * (n * c) \<le> 1000 * (n * 2 ^ e)" using mult_left_mono [OF assms, of n] by (simp add: ac_simps)
  have "?p * 2 ^ 10 * (2 ^ 53 * 2 ^ 53) \<le> (2 ^ 53 + 1) * (2 ^ 53 + 1) * (2 ^ 10 * (n * c))"
    using mult_left_mono [OF a, of "2 ^ 10"] by (simp add: ac_simps)
  also have "\<dots> \<le> (2 ^ 53 + 1) * (2 ^ 53 + 1) * (1000 * (n * 2 ^ e))" using b by (intro mult_left_mono) simp_all
  also have "\<dots> \<le> 2 ^ 10 * (2 ^ 53 * 2 ^ 53) * (n * 2 ^ e)" by simp
  finally have "?p \<le> n * 2 ^ e" by simp
  then have "?p div 2 ^ e \<le> n * 2 ^ e div 2 ^ e" by (rule div_le_mono)
  then show ?thesis by (simp add: float_share_def)
qed

lemma shares_le: "document_share n \<le> n" "evidence_share n \<le> n"
  unfolding document_share_def evidence_share_def by (rule float_share_le, simp)+

subsection \<open>The pack\<close>

abbreviation tokens_of :: "('a \<Rightarrow> string) \<Rightarrow> 'a list \<Rightarrow> nat" where
  "tokens_of render xs \<equiv> sum_list (map (\<lambda>x. estimate_model_tokens (render x)) xs)"

lemma within_budget_prefix:
  assumes "used \<le> budget"
  shows "\<exists>k. fst (within_budget render budget used xs) = take k xs \<and>
    snd (within_budget render budget used xs) = used + tokens_of render (take k xs) \<and>
    used + tokens_of render (take k xs) \<le> budget \<and>
    (k < length xs \<longrightarrow> budget < used + tokens_of render (take (Suc k) xs))"
  using assms
proof (induction xs arbitrary: used)
  case (Cons x xs)
  show ?case
  proof (cases "budget < used + estimate_model_tokens (render x)")
    case True
    then show ?thesis using Cons.prems by (intro exI [of _ 0]) simp
  next
    case False
    then obtain k where "fst (within_budget render budget (used + estimate_model_tokens (render x)) xs) = take k xs \<and>
      snd (within_budget render budget (used + estimate_model_tokens (render x)) xs) =
        used + estimate_model_tokens (render x) + tokens_of render (take k xs) \<and>
      used + estimate_model_tokens (render x) + tokens_of render (take k xs) \<le> budget \<and>
      (k < length xs \<longrightarrow> budget < used + estimate_model_tokens (render x) + tokens_of render (take (Suc k) xs))"
      using Cons.IH [of "used + estimate_model_tokens (render x)"] by auto
    then show ?thesis using False by (intro exI [of _ "Suc k"]) (auto simp: Let_def split: prod.split)
  qed
qed simp

lemma map_snd_numbered [simp]: "map snd (numbered xs) = xs"
  by (simp add: numbered_def)

lemma take_numbered: "take k (numbered xs) = numbered (take k xs)"
proof -
  have "take k (enumerate n xs) = enumerate n (take k xs)" for n
    by (induction xs arbitrary: k n) (auto simp: take_Cons split: nat.split)
  then show ?thesis by (simp add: numbered_def)
qed

lemma length_numbered [simp]: "length (numbered xs) = length xs"
  by (simp add: numbered_def)

abbreviation evidence_tokens :: "evidence_ref list \<Rightarrow> nat" where
  "evidence_tokens evidence \<equiv> tokens_of (\<lambda>(i, r). evidence_text i r) (numbered evidence)"

lemma evidence_for_prompt_prefix:
  "\<exists>k. evidence_for_prompt evidence budget = (take k evidence, evidence_tokens (take k evidence)) \<and>
     evidence_tokens (take k evidence) \<le> budget \<and>
     (k < length evidence \<longrightarrow> budget < evidence_tokens (take (Suc k) evidence))"
proof -
  let ?w = "within_budget (\<lambda>(i, r). evidence_text i r) budget 0 (numbered evidence)"
  from within_budget_prefix [of 0 budget "\<lambda>(i, r). evidence_text i r" "numbered evidence"] obtain k where
    k: "fst ?w = numbered (take k evidence)" "snd ?w = evidence_tokens (take k evidence)"
      "evidence_tokens (take k evidence) \<le> budget" "k < length evidence \<longrightarrow> budget < evidence_tokens (take (Suc k) evidence)"
    unfolding take_numbered by auto
  show ?thesis
    using k(3,4) by (intro exI [of _ k]) (simp add: evidence_for_prompt_def split_beta k(1,2))
qed

lemma guidance_for_prompt_prefix:
  "\<exists>k. guidance_for_prompt guidance budget = (take k guidance, tokens_of guidance_text (take k guidance)) \<and>
     tokens_of guidance_text (take k guidance) \<le> budget"
  using within_budget_prefix [of 0 budget guidance_text guidance] by (auto simp: guidance_for_prompt_def prod_eq_iff)

text \<open>What preparing a pack does, in terms of the two prefixes.\<close>

lemma prepared_pack:
  fixes pack :: evidence_pack and capacity output_reserve :: "int option"
  defines "B \<equiv> grounding_budget capacity output_reserve"
  obtains k j where
    "evidence_tokens (take k (pk_evidence pack)) \<le> evidence_share B"
    "k < length (pk_evidence pack) \<longrightarrow> evidence_share B < evidence_tokens (take (Suc k) (pk_evidence pack))"
    "tokens_of guidance_text (take j (filter (\<lambda>g. gi_sources g \<noteq> [] \<and>
        set (gi_sources g) \<subseteq> set (map er_id (take k (pk_evidence pack)))) (pk_guidance pack))) \<le> B - evidence_share B"
    "prepare_grounded_evidence_pack pack capacity output_reserve =
      (let sent = take k (pk_evidence pack); ids = set (map er_id sent);
          guidance = take j (filter (\<lambda>g. gi_sources g \<noteq> [] \<and> set (gi_sources g) \<subseteq> ids) (pk_guidance pack));
          t = pk_trace pack; coverage = map (facet_after_budget ids) (rt_facet_coverage t) in
       pack
        \<lparr>pk_evidence := sent, pk_images := filter (\<lambda>i. ai_evidence i \<in> ids) (pk_images pack),
         pk_trace := (with_canonical_evidence_ids t (map er_id sent))
           \<lparr>rt_navigation_routes := map gi_route guidance, rt_grounding_input_budget_tokens := int B,
            rt_evidence_input_tokens := int (evidence_tokens sent), rt_guidance_input_tokens := int (tokens_of guidance_text guidance),
            rt_coverage_gate_state := (if coverage \<noteq> [] then coverage_state t coverage
                  else if pk_guidance pack \<noteq> [] \<and> length guidance < length (pk_guidance pack)
                  then if guidance \<noteq> [] then ''partial'' else ''uncovered''
                  else rt_coverage_gate_state t),
            rt_facet_coverage := coverage\<rparr>,
         pk_guidance := guidance\<rparr>)"
proof -
  obtain k where k: "evidence_for_prompt (pk_evidence pack) (evidence_share B) =
      (take k (pk_evidence pack), evidence_tokens (take k (pk_evidence pack)))"
      "evidence_tokens (take k (pk_evidence pack)) \<le> evidence_share B"
      "k < length (pk_evidence pack) \<longrightarrow> evidence_share B < evidence_tokens (take (Suc k) (pk_evidence pack))"
    using evidence_for_prompt_prefix by blast
  let ?gs = "filter (\<lambda>g. gi_sources g \<noteq> [] \<and> set (gi_sources g) \<subseteq> set (map er_id (take k (pk_evidence pack)))) (pk_guidance pack)"
  obtain j where j: "guidance_for_prompt ?gs (B - evidence_share B) = (take j ?gs, tokens_of guidance_text (take j ?gs))"
      "tokens_of guidance_text (take j ?gs) \<le> B - evidence_share B"
    using guidance_for_prompt_prefix by blast
  from k j show ?thesis
    by (intro that [of k j]) (simp_all only: prepare_grounded_evidence_pack_def B_def [symmetric] Let_def prod.case)
qed

lemma grounding_budget_le: "int (grounding_budget capacity output_reserve) \<le>
    max 0 (capacity_or_default capacity - answer_reserve (capacity_or_default capacity) output_reserve)"
  using shares_le(1) [of "nat (capacity_or_default capacity - answer_reserve (capacity_or_default capacity) output_reserve)"]
  by (simp add: grounding_budget_def Let_def)

lemma answer_reserve_of_budget:
  "answer_reserve (capacity_or_default (Some (ab_context (answer_budget_for_gateway g)))) (Some (ab_ceiling (answer_budget_for_gateway g)))
     \<le> ab_context (answer_budget_for_gateway g)"
  using answer_budget_bounds [of g]
  by (auto simp: answer_reserve_def capacity_or_default_def answer_output_reserve_def)

text \<open>
  C9 A prepared pack stays within its budget and cites only what it sends.  The Evidence is
  the longest prefix within its share of the budget, so the numbers of the citations are those
  of the retrieval; guidance rests on Evidence that is sent, images belong to it, and the
  coverage of a facet counts only it.  With the budget of a gateway the Evidence, the guidance
  and the output ceiling together stay within the context of the model; the question, the
  earlier turns, the blueprint and the instructions of the prompt are not part of this budget.
\<close>

theorem prepared_pack_fits:
  fixes pack :: evidence_pack and capacity output_reserve :: "int option"
  defines "p \<equiv> prepare_grounded_evidence_pack pack capacity output_reserve"
    and "B \<equiv> grounding_budget capacity output_reserve"
  shows "(\<exists>k. pk_evidence p = take k (pk_evidence pack) \<and>
      (k < length (pk_evidence pack) \<longrightarrow> evidence_share B < evidence_tokens (take (Suc k) (pk_evidence pack)))) \<and>
    evidence_tokens (pk_evidence p) \<le> evidence_share B \<and>
    evidence_tokens (pk_evidence p) + tokens_of guidance_text (pk_guidance p) \<le> B \<and>
    int B \<le> max 0 (capacity_or_default capacity - answer_reserve (capacity_or_default capacity) output_reserve) \<and>
    subseq (pk_guidance p) (pk_guidance pack) \<and>
    (\<forall>g\<in>set (pk_guidance p). gi_sources g \<noteq> [] \<and> set (gi_sources g) \<subseteq> er_id ` set (pk_evidence p)) \<and>
    set (pk_images p) = {i \<in> set (pk_images pack). ai_evidence i \<in> er_id ` set (pk_evidence p)} \<and>
    map fv_facet (rt_facet_coverage (pk_trace p)) = map fv_facet (rt_facet_coverage (pk_trace pack)) \<and>
    (\<forall>f\<in>set (rt_facet_coverage (pk_trace p)). set (fv_evidence f) \<subseteq> er_id ` set (pk_evidence p)) \<and>
    (\<forall>g. capacity = Some (ab_context (answer_budget_for_gateway g)) \<and>
         output_reserve = Some (ab_ceiling (answer_budget_for_gateway g)) \<longrightarrow>
       int (evidence_tokens (pk_evidence p)) + int (tokens_of guidance_text (pk_guidance p)) + ab_ceiling (answer_budget_for_gateway g)
         \<le> ab_context (answer_budget_for_gateway g))"
proof -
  obtain k j where k: "evidence_tokens (take k (pk_evidence pack)) \<le> evidence_share B"
      "k < length (pk_evidence pack) \<longrightarrow> evidence_share B < evidence_tokens (take (Suc k) (pk_evidence pack))"
    and j: "tokens_of guidance_text (take j (filter (\<lambda>g. gi_sources g \<noteq> [] \<and>
        set (gi_sources g) \<subseteq> set (map er_id (take k (pk_evidence pack)))) (pk_guidance pack))) \<le> B - evidence_share B"
    and p: "pk_evidence p = take k (pk_evidence pack)"
      "pk_guidance p = take j (filter (\<lambda>g. gi_sources g \<noteq> [] \<and>
        set (gi_sources g) \<subseteq> set (map er_id (take k (pk_evidence pack)))) (pk_guidance pack))"
      "pk_images p = filter (\<lambda>i. ai_evidence i \<in> set (map er_id (take k (pk_evidence pack)))) (pk_images pack)"
      "rt_facet_coverage (pk_trace p) = map (facet_after_budget (set (map er_id (take k (pk_evidence pack))))) (rt_facet_coverage (pk_trace pack))"
    unfolding p_def B_def
    by (rule prepared_pack [of pack capacity output_reserve]) (simp add: Let_def)
  have fits: "evidence_tokens (pk_evidence p) + tokens_of guidance_text (pk_guidance p) \<le> B"
    using k(1) j shares_le(2) [of B] unfolding p(1,2) by linarith
  have B: "int B \<le> max 0 (capacity_or_default capacity - answer_reserve (capacity_or_default capacity) output_reserve)"
    unfolding B_def by (rule grounding_budget_le)
  have "int (evidence_tokens (pk_evidence p)) + int (tokens_of guidance_text (pk_guidance p)) + ab_ceiling (answer_budget_for_gateway g)
      \<le> ab_context (answer_budget_for_gateway g)"
    if "capacity = Some (ab_context (answer_budget_for_gateway g))" "output_reserve = Some (ab_ceiling (answer_budget_for_gateway g))" for g
  proof -
    have "ab_ceiling (answer_budget_for_gateway g) \<le> answer_reserve (capacity_or_default capacity) output_reserve"
      by (simp add: that answer_reserve_def)
    moreover have "capacity_or_default capacity = ab_context (answer_budget_for_gateway g)"
      using answer_budget_bounds [of g] by (simp add: that capacity_or_default_def)
    ultimately show ?thesis using fits B answer_reserve_of_budget [of g] that by simp
  qed
  moreover have "subseq (pk_guidance p) (pk_guidance pack)"
    unfolding p(2) using subseq_order.trans [OF prefix_imp_subseq [OF take_is_prefix] subseq_filter_left] by blast
  moreover have "\<forall>g\<in>set (pk_guidance p). gi_sources g \<noteq> [] \<and> set (gi_sources g) \<subseteq> er_id ` set (pk_evidence p)"
    unfolding p(1,2) by (auto dest!: in_set_takeD)
  moreover have "\<forall>f\<in>set (rt_facet_coverage (pk_trace p)). set (fv_evidence f) \<subseteq> er_id ` set (pk_evidence p)"
    unfolding p(1,4) by (auto simp: facet_after_budget_def Let_def)
  moreover have "map fv_facet (rt_facet_coverage (pk_trace p)) = map fv_facet (rt_facet_coverage (pk_trace pack))"
    unfolding p(4) by (simp add: facet_after_budget_def Let_def)
  moreover have "set (pk_images p) = {i \<in> set (pk_images pack). ai_evidence i \<in> er_id ` set (pk_evidence p)}"
    unfolding p(1,3) by auto
  ultimately show ?thesis using k fits B unfolding p(1) by blast
qed

lemma facet_after_budget_ok: "facet_coverage_ok F f \<Longrightarrow> facet_coverage_ok F (facet_after_budget ids f)"
  by (auto simp: facet_coverage_ok_def facet_after_budget_def Let_def list_all_iff filter_empty_conv)

lemma coverage_state_filled: "filled (coverage_state t coverage)"
proof -
  have "filled ''covered''" "filled ''partial''" "filled ''uncovered''" by code_simp+
  then show ?thesis by (simp add: coverage_state_def Let_def)
qed

text \<open>
  C39 The trace of a prepared pack survives storage.  When the trace of the retrieval does,
  its Evidence has identifiers and its guidance different routes, the trace that is stored
  with the answer is read back as it was, provided that the question was planned or no
  guidance was left out: without a plan the reduced coverage of guidance is not kept.
\<close>

theorem prepared_trace_survives:
  assumes "trace_ok (pk_trace pack)" "[] \<notin> er_id ` set (pk_evidence pack)" "strings_ok (map gi_route (pk_guidance pack))"
    "rt_semantic_structure_state (pk_trace pack) = ''known'' \<or>
     pk_guidance (prepare_grounded_evidence_pack pack capacity output_reserve) = pk_guidance pack"
  shows "retrieval_trace_from_json (json_text (trace_as_dict
      (pk_trace (prepare_grounded_evidence_pack pack capacity output_reserve)))) =
    Inr (pk_trace (prepare_grounded_evidence_pack pack capacity output_reserve))"
proof (rule trace_roundtrip)
  let ?p = "prepare_grounded_evidence_pack pack capacity output_reserve" and ?t = "pk_trace pack"
  obtain k j where pack: "?p = (let sent = take k (pk_evidence pack); ids = set (map er_id sent);
          guidance = take j (filter (\<lambda>g. gi_sources g \<noteq> [] \<and> set (gi_sources g) \<subseteq> ids) (pk_guidance pack));
          t = pk_trace pack; coverage = map (facet_after_budget ids) (rt_facet_coverage t) in
       pack
        \<lparr>pk_evidence := sent, pk_images := filter (\<lambda>i. ai_evidence i \<in> ids) (pk_images pack),
         pk_trace := (with_canonical_evidence_ids t (map er_id sent))
           \<lparr>rt_navigation_routes := map gi_route guidance,
            rt_grounding_input_budget_tokens := int (grounding_budget capacity output_reserve),
            rt_evidence_input_tokens := int (evidence_tokens sent), rt_guidance_input_tokens := int (tokens_of guidance_text guidance),
            rt_coverage_gate_state := (if coverage \<noteq> [] then coverage_state t coverage
                  else if pk_guidance pack \<noteq> [] \<and> length guidance < length (pk_guidance pack)
                  then if guidance \<noteq> [] then ''partial'' else ''uncovered''
                  else rt_coverage_gate_state t),
            rt_facet_coverage := coverage\<rparr>,
         pk_guidance := guidance\<rparr>)"
    by (rule prepared_pack [of pack capacity output_reserve])
  define sent where "sent = take k (pk_evidence pack)"
  define ids where "ids = set (map er_id sent)"
  define guidance where "guidance = take j (filter (\<lambda>g. gi_sources g \<noteq> [] \<and> set (gi_sources g) \<subseteq> ids) (pk_guidance pack))"
  define coverage where "coverage = map (facet_after_budget ids) (rt_facet_coverage ?t)"
  define gate where "gate = (if coverage \<noteq> [] then coverage_state ?t coverage
     else if pk_guidance pack \<noteq> [] \<and> length guidance < length (pk_guidance pack)
     then if guidance \<noteq> [] then ''partial'' else ''uncovered'' else rt_coverage_gate_state ?t)"
  have trace: "pk_trace ?p = (with_canonical_evidence_ids ?t (map er_id sent))
      \<lparr>rt_navigation_routes := map gi_route guidance, rt_grounding_input_budget_tokens := int (grounding_budget capacity output_reserve),
       rt_evidence_input_tokens := int (evidence_tokens sent), rt_guidance_input_tokens := int (tokens_of guidance_text guidance),
       rt_coverage_gate_state := gate, rt_facet_coverage := coverage\<rparr>"
    and guidance_sent: "pk_guidance ?p = guidance"
    unfolding pack Let_def sent_def [symmetric] ids_def [symmetric] guidance_def [symmetric] coverage_def [symmetric] gate_def [symmetric]
    by simp_all
  have ids_ok: "strings_ok (uniq (map er_id sent))"
    using assms(2) by (auto simp: strings_ok_def sent_def dest: in_set_takeD)
  have routes_ok: "strings_ok (map gi_route guidance)"
    using assms(3) unfolding strings_ok_def guidance_def
    by (auto simp flip: take_map intro!: distinct_take distinct_map_filter dest!: in_set_takeD)
  have coverage_ok: "list_all (facet_coverage_ok F) coverage" if "list_all (facet_coverage_ok F) (rt_facet_coverage ?t)" for F
    using that facet_after_budget_ok by (auto simp: coverage_def list_all_iff)
  have facets: "map fv_facet coverage = map fv_facet (rt_facet_coverage ?t)"
    by (simp add: coverage_def facet_after_budget_def Let_def)
  have semantic: "semantic_ok (?t\<lparr>rt_coverage_gate_state := gate, rt_facet_coverage := coverage\<rparr>)"
  proof (cases "rt_semantic_structure_state ?t = ''known''")
    case True
    with assms(1) have known: "rt_question_facets ?t \<noteq> []" "length (rt_facet_coverage ?t) = length (rt_question_facets ?t)"
      by (auto simp: trace_ok_def semantic_ok_def)
    then have "coverage \<noteq> []" by (auto simp: coverage_def)
    then have "filled gate" by (simp add: gate_def coverage_state_filled)
    moreover have "length coverage = length (rt_facet_coverage ?t)" by (simp add: coverage_def)
    ultimately show ?thesis using True assms(1) coverage_ok unfolding trace_ok_def semantic_ok_def by (simp add: facets)
  next
    case False
    with assms(1,4) guidance_sent show ?thesis by (simp add: trace_ok_def semantic_ok_def gate_def coverage_def)
  qed
  show "trace_ok (pk_trace ?p)"
    using assms(1) ids_ok routes_ok semantic unfolding trace
    by (simp add: trace_ok_def semantic_ok_def with_canonical_evidence_ids_def)
qed

definition sample_pack :: evidence_pack where
  "sample_pack =
     \<lparr>pk_plan = \<lparr>rp_query = ''q'', rp_terms = [], rp_source = ''deterministic''\<rparr>,
      pk_evidence = [\<lparr>er_id = ''e'', er_document = ''d'', er_name = ''n'', er_section = ''s'', er_locator = [], er_excerpt = ''x'',
        er_channels = [], er_version_label = None, er_version_side = None\<rparr>],
      pk_degradations = [], pk_images = [], pk_trace = sample_trace, pk_cost = \<lparr>rc_calls = 0, rc_input = 0, rc_output = 0\<rparr>,
      pk_guidance = [\<lparr>gi_route = ''r'', gi_kind = ''page'', gi_authority = ''user'', gi_title = ''t'', gi_content = ''c'',
        gi_sources = [''other'']\<rparr>], pk_routes = []\<rparr>"

lemma floorlog_between: "2 ^ k \<le> n \<Longrightarrow> n < 2 ^ Suc k \<Longrightarrow> floorlog 2 n = Suc k"
  using floorlog_leI [of n 2 "Suc k"] floorlog_ge_SucI [of 2 k n] by simp

lemma sample_shares: "document_share 2048 = 1433" "evidence_share 1433 = 1074"
  by (simp_all add: document_share_def evidence_share_def float_share_def round53_def floorlog_between [of 11]
      floorlog_between [of 63] floorlog_between [of 10] floorlog_between [of 12] round_half_even_def)

lemma sample_evidence_sent:
  "evidence_for_prompt (pk_evidence sample_pack) 1074 = (pk_evidence sample_pack, 3)"
  by code_simp

theorem prepared_pack_fits_witness:
  "int (evidence_tokens (pk_evidence (prepare_grounded_evidence_pack sample_pack (Some 4096) (Some 2048)))) +
     int (tokens_of guidance_text (pk_guidance (prepare_grounded_evidence_pack sample_pack (Some 4096) (Some 2048)))) + 2048 \<le> 4096"
proof -
  let ?p = "prepare_grounded_evidence_pack sample_pack (Some 4096) (Some 2048)"
  have budget: "answer_budget_for_gateway None = conservative_budget False"
    by (simp add: answer_budget_for_gateway_def answer_capability_verified_def)
  from prepared_pack_fits [of sample_pack "Some 4096" "Some 2048"]
  have "\<forall>g. Some 4096 = Some (ab_context (answer_budget_for_gateway g)) \<and>
      Some 2048 = Some (ab_ceiling (answer_budget_for_gateway g)) \<longrightarrow>
    int (evidence_tokens (pk_evidence ?p)) + int (tokens_of guidance_text (pk_guidance ?p)) + ab_ceiling (answer_budget_for_gateway g)
      \<le> ab_context (answer_budget_for_gateway g)"
    by (elim conjE)
  from spec [OF this, of None] show ?thesis unfolding budget by (simp add: conservative_budget_def)
qed

theorem prepared_trace_survives_witness:
  "retrieval_trace_from_json (json_text (trace_as_dict (pk_trace (prepare_grounded_evidence_pack sample_pack None None)))) =
     Inr (pk_trace (prepare_grounded_evidence_pack sample_pack None None)) \<and>
   pk_evidence (prepare_grounded_evidence_pack sample_pack None None) = pk_evidence sample_pack"
proof
  have ok: "trace_ok (pk_trace sample_pack)" "[] \<notin> er_id ` set (pk_evidence sample_pack)"
    "strings_ok (map gi_route (pk_guidance sample_pack))"
    "rt_semantic_structure_state (pk_trace sample_pack) = ''known''" by code_simp+
  show "retrieval_trace_from_json (json_text (trace_as_dict (pk_trace (prepare_grounded_evidence_pack sample_pack None None)))) =
     Inr (pk_trace (prepare_grounded_evidence_pack sample_pack None None))"
    by (rule prepared_trace_survives [OF ok(1,2,3)]) (simp add: ok(4))
  have "grounding_budget None None = 1433"
    using sample_shares(1) by (simp add: grounding_budget_def Let_def capacity_or_default_def conservative_def answer_reserve_def
        answer_budget_for_gateway_def answer_capability_verified_def conservative_budget_def answer_output_reserve_def)
  then show "pk_evidence (prepare_grounded_evidence_pack sample_pack None None) = pk_evidence sample_pack"
    by (simp add: prepare_grounded_evidence_pack_def sample_shares sample_evidence_sent Let_def split: prod.split)
qed

end
