(* ===== verification/AnswerStream.thy ===== *)
theory AnswerStream
  imports GroundedAnswer
begin

section \<open>Streaming an answer\<close>

text \<open>
  \<open>DesktopGroundedAnswerService._attempt\<close> of \<open>openkb/answers/grounded.py\<close>: retrieval under a
  temporary authorisation, the stream of deltas of possibly several model attempts, and the
  answer that is made of it.  Everything the attempt does to the world is in a log: the
  authorisation and its revocation, the retrieval, and the deltas the client receives.
\<close>

subsection \<open>What the client sees\<close>

record delta_message =
  dm_delta :: string
  dm_replace :: bool
  dm_attempt :: nat

datatype attempt_effect =
    Authorized string "(string \<times> string) list"
  | Retrieved
  | Revoked string
  | Sent delta_message

definition show_delta :: "delta_message \<Rightarrow> string \<Rightarrow> string" where
  "show_delta m shown = (if dm_replace m then dm_delta m else shown @ dm_delta m)"

definition client_text :: "delta_message list \<Rightarrow> string" where
  "client_text ms = fold show_delta ms []"

text \<open>
  The panel of the workbench (\<open>DesktopConversationPanel.tsx\<close>) drops the deltas of an attempt
  that a newer one has replaced.
\<close>

definition show_on_panel :: "delta_message \<Rightarrow> nat \<times> string \<Rightarrow> nat \<times> string" where
  "show_on_panel m panel =
     (if dm_attempt m < fst panel then panel
      else (dm_attempt m, if dm_replace m \<or> fst panel < dm_attempt m then dm_delta m else snd panel @ dm_delta m))"

definition panel_text :: "delta_message list \<Rightarrow> string" where
  "panel_text ms = snd (fold show_on_panel ms (0, []))"

definition sent_messages :: "attempt_effect list \<Rightarrow> delta_message list" where
  "sent_messages effects = List.map_filter (\<lambda>e. case e of Sent m \<Rightarrow> Some m | _ \<Rightarrow> None) effects"

subsection \<open>The state of the stream\<close>

record stream_state =
  ss_emitted :: bool
  ss_attempt :: nat
  ss_pending :: bool
  ss_text :: string
  ss_sent :: "delta_message list"

definition stream_start :: stream_state where
  "stream_start = \<lparr>ss_emitted = False, ss_attempt = 0, ss_pending = False, ss_text = [], ss_sent = []\<rparr>"

text \<open>
  \<open>emit\<close> decides under \<open>stream_state_lock\<close> and calls \<open>on_delta\<close> after releasing it.  All its
  calls come from the thread that runs the attempt: \<open>wait_for_model_response\<close> drains the queue
  of deltas there (\<open>models/terminal.py\<close>, \<open>models/response_wait.py\<close>), and the final stream
  follows the call.  The log therefore holds the deltas in the order of the decisions; what
  the panel shows when the callbacks of different attempts overtake each other is
  \<open>panel_any_order\<close>.
\<close>

definition emit :: "string \<Rightarrow> nat \<Rightarrow> bool \<Rightarrow> stream_state \<Rightarrow> stream_state" where
  "emit delta attempt replace s =
     (if attempt < ss_attempt s then s
      else
        let newer = ss_attempt s < attempt;
            replace = (replace \<or> newer \<or> ss_pending s);
            shown = (if replace then [] else ss_text s) in
        s\<lparr>ss_attempt := attempt, ss_pending := False,
          ss_emitted := (delta \<noteq> [] \<or> (\<not> replace \<and> ss_emitted s)), ss_text := shown @ delta,
          ss_sent := ss_sent s @ [\<lparr>dm_delta = delta, dm_replace = replace, dm_attempt = attempt\<rparr>]\<rparr>)"

definition reset_stream :: "nat \<Rightarrow> stream_state \<Rightarrow> stream_state" where
  "reset_stream attempt s =
     (if attempt \<le> ss_attempt s then s
      else s\<lparr>ss_attempt := attempt, ss_emitted := False, ss_pending := True\<rparr>)"

definition stream_step :: "stream_event \<Rightarrow> stream_state \<Rightarrow> stream_state" where
  "stream_step ev s =
     (case ev of Model_Event _ _ \<Rightarrow> s | Delta attempt delta \<Rightarrow> emit delta attempt False s | Reset attempt \<Rightarrow> reset_stream attempt s)"

fun chunks_of :: "nat \<Rightarrow> 'a list \<Rightarrow> 'a list list" where
  "chunks_of n [] = []"
| "chunks_of n (x # xs) = take (Suc n) (x # xs) # chunks_of n (drop n xs)"

definition stream_chunks :: "string \<Rightarrow> string list" where
  "stream_chunks text = map concat (chunks_of 95 (py_chars text))"

text \<open>
  The loop that streams a final text, and what it returns: whether it was cancelled.  Poll
  \<open>k\<close> of the cancellation callback answers \<open>polls k\<close>.
\<close>

fun fallback_stream :: "(nat \<Rightarrow> bool) \<Rightarrow> nat \<Rightarrow> nat \<Rightarrow> bool \<Rightarrow> string list \<Rightarrow> stream_state \<Rightarrow> bool \<times> nat \<times> stream_state" where
  "fallback_stream polls k attempt replace [] s = (False, k, s)"
| "fallback_stream polls k attempt replace (c # cs) s =
     (if polls k then (True, Suc k, s)
      else let s' = emit c attempt replace s in
        if polls (Suc k) then (True, Suc (Suc k), s')
        else fallback_stream polls (Suc (Suc k)) attempt False cs s')"

subsection \<open>One attempt\<close>

record grounded_answer =
  ga_id :: string
  ga_question :: string
  ga_text :: string
  ga_plan :: retrieval_plan
  ga_citations :: "evidence_ref list"
  ga_degradations :: "string list"
  ga_created_at :: string
  ga_images :: "answer_image list"
  ga_trace :: retrieval_trace
  ga_status :: string
  ga_code :: "string option"
  ga_reason :: "string option"

definition new_answer ::
  "string \<Rightarrow> evidence_pack \<Rightarrow> string \<Rightarrow> string list \<Rightarrow> string \<Rightarrow> string option \<Rightarrow> string option \<Rightarrow> string option \<Rightarrow> string \<Rightarrow>
    grounded_answer" where
  "new_answer answer_id pack text degradations status code reason created_at now =
     \<lparr>ga_id = answer_id, ga_question = rp_query (pk_plan pack), ga_text = text, ga_plan = pk_plan pack,
      ga_citations = pk_evidence pack, ga_degradations = degradations,
      ga_created_at = (case created_at of Some c \<Rightarrow> if c = [] then now else c | None \<Rightarrow> now),
      ga_images = pk_images pack, ga_trace = pk_trace pack, ga_status = status, ga_code = code, ga_reason = reason\<rparr>"

definition interrupted_answer ::
  "string \<Rightarrow> evidence_pack \<Rightarrow> stream_state \<Rightarrow> string option \<Rightarrow> string option \<Rightarrow> string option \<Rightarrow> string \<Rightarrow> grounded_answer" where
  "interrupted_answer answer_id pack s code reason created_at now =
     new_answer answer_id pack (ss_text s) (pk_degradations pack) ''interrupted'' code reason created_at now"

definition stopped :: "string \<Rightarrow> evidence_pack \<Rightarrow> stream_state \<Rightarrow> string option \<Rightarrow> string \<Rightarrow> grounded_answer" where
  "stopped answer_id pack s created_at now =
     interrupted_answer answer_id pack s (Some ''answer_cancelled'') (Some ''Answer generation was stopped.'') created_at now"

text \<open>The part after the retrieval: generation, the final stream, the answer.\<close>

definition finish_attempt ::
  "(string \<Rightarrow> nat option) \<Rightarrow> string \<Rightarrow> evidence_pack \<Rightarrow> answer_gateway option \<Rightarrow>
    (string \<Rightarrow> int \<Rightarrow> stream_event list \<times> stream_end) \<Rightarrow> (nat \<Rightarrow> bool) \<Rightarrow> (string \<times> string) list \<Rightarrow>
    string \<Rightarrow> string option \<Rightarrow> string \<Rightarrow> grounded_answer res \<times> delta_message list" where
  "finish_attempt decimal question pack gateway stream polls conversation answer_id created_at now =
     (let (result, events) = generate_grounded_answer decimal question pack gateway stream (polls 0) (polls 1) conversation;
          s = fold stream_step events stream_start in
      case result of
        Inl e \<Rightarrow> (Inl e, ss_sent s)
      | Inr g \<Rightarrow>
          (case gn_text g of
             None \<Rightarrow> (Inr (interrupted_answer answer_id pack s (gn_code g) (gn_reason g) created_at now), ss_sent s)
           | Some text \<Rightarrow>
               let changed = (py_strip (ss_text s) \<noteq> py_strip text);
                   degraded = (gn_degradations g \<noteq> []);
                   needs_fallback = (\<not> ss_emitted s \<or> degraded \<or> changed);
                   final_attempt = (if (degraded \<or> changed) \<and> ss_attempt s \<noteq> 0 then Suc (ss_attempt s) else max (ss_attempt s) 1);
                   (cancelled, k, s') = (if needs_fallback
                      then fallback_stream polls 2 final_attempt (degraded \<or> changed) (stream_chunks text) s
                      else (False, 2, s)) in
               if cancelled \<or> polls k then (Inr (stopped answer_id pack s' created_at now), ss_sent s')
               else (Inr (new_answer answer_id pack text (pk_degradations pack @ gn_degradations g) ''completed'' None None
                       created_at now), ss_sent s')))"

text \<open>The whole attempt, with the authorisation of a retry around the retrieval.\<close>

definition retry_operations :: "string list" where
  "retry_operations = [''query_planning'', ''page_tree_selection'', ''knowledge_navigation_step'']"

definition retry_contracts :: "(string \<Rightarrow> string) \<Rightarrow> (string \<Rightarrow> string) \<Rightarrow> (string \<times> string) list" where
  "retry_contracts contract_digest repair_digest =
     concat (map (\<lambda>op. [(op, contract_digest op), (''structured_output_repair'', repair_digest op)]) retry_operations)"

record attempt_world =
  aw_authorize :: "unit res"
  aw_retrieve :: "(string \<times> string) list \<Rightarrow> evidence_pack res"
  aw_revoke :: "unit res"

definition attempt_answer ::
  "(string \<Rightarrow> nat option) \<Rightarrow> (string \<Rightarrow> string) \<Rightarrow> (string \<Rightarrow> string) \<Rightarrow> attempt_world \<Rightarrow> string \<Rightarrow> string \<Rightarrow> bool \<Rightarrow> string \<Rightarrow>
    answer_gateway option \<Rightarrow> (string \<Rightarrow> int \<Rightarrow> stream_event list \<times> stream_end) \<Rightarrow> (nat \<Rightarrow> bool) \<Rightarrow> (string \<times> string) list \<Rightarrow>
    string option \<Rightarrow> string \<Rightarrow> grounded_answer res \<times> attempt_effect list" where
  "attempt_answer decimal contract_digest repair_digest world question answer_id retry_suspended nonce gateway stream polls
       conversation created_at now =
     (let retrying = (retry_suspended \<and> gateway \<noteq> None);
          scope = ''grounded_answer:'' @ answer_id @ '':'' @ nonce;
          authorized = (if retrying then [Authorized scope (retry_contracts contract_digest repair_digest)] else []);
          revoked = (if retrying then [Revoked scope] else []);
          budget = answer_budget_for_gateway gateway in
      case (if retrying then aw_authorize world else Inr ()) of
        Inl e \<Rightarrow> (Inl e, [])
      | Inr _ \<Rightarrow>
          let retrieved = aw_retrieve world (if retrying then map (\<lambda>op. (op, scope)) retry_operations else []);
              effects = authorized @ [Retrieved] @ revoked in
          (case (if retrying then aw_revoke world else Inr ()) of
             Inl e \<Rightarrow> (Inl e, effects)
           | Inr _ \<Rightarrow>
               (case retrieved of
                  Inl e \<Rightarrow> (Inl e, effects)
                | Inr found \<Rightarrow>
                    let pack = prepare_grounded_evidence_pack found (Some (ab_context budget)) (Some (ab_ceiling budget));
                        (answer, messages) = finish_attempt decimal question pack gateway stream polls conversation answer_id
                           created_at now in
                    (answer, effects @ map Sent messages))))"

subsection \<open>The client and the engine agree\<close>

lemma client_text_snoc [simp]: "client_text (ms @ [m]) = show_delta m (client_text ms)"
  by (simp add: client_text_def)

text \<open>Attempts only grow, and the first message of a new attempt replaces the text.\<close>

fun attempts_ok :: "nat \<Rightarrow> delta_message list \<Rightarrow> bool" where
  "attempts_ok n [] = True"
| "attempts_ok n (m # ms) =
     (n \<le> dm_attempt m \<and> (n < dm_attempt m \<longrightarrow> dm_replace m) \<and> attempts_ok (dm_attempt m) ms)"

definition last_attempt :: "nat \<Rightarrow> delta_message list \<Rightarrow> nat" where
  "last_attempt n ms = (if ms = [] then n else dm_attempt (last ms))"

lemma attempts_ok_snoc:
  "attempts_ok n (ms @ [m]) \<longleftrightarrow>
     attempts_ok n ms \<and> last_attempt n ms \<le> dm_attempt m \<and> (last_attempt n ms < dm_attempt m \<longrightarrow> dm_replace m)"
  by (induction ms arbitrary: n) (auto simp: last_attempt_def)

definition stream_ok :: "stream_state \<Rightarrow> bool" where
  "stream_ok s \<longleftrightarrow>
     client_text (ss_sent s) = ss_text s \<and> (\<not> ss_emitted s \<and> \<not> ss_pending s \<longrightarrow> ss_text s = []) \<and>
     attempts_ok 0 (ss_sent s) \<and> last_attempt 0 (ss_sent s) \<le> ss_attempt s \<and>
     (last_attempt 0 (ss_sent s) < ss_attempt s \<longrightarrow> ss_pending s)"

text \<open>
  The panel shows the newest attempt it has heard of, so deliveries of different attempts may
  be in any order.
\<close>

definition newest_attempt :: "delta_message list \<Rightarrow> nat" where
  "newest_attempt ms = Max (insert 0 (dm_attempt ` set ms))"

lemma newest_attempt_snoc: "newest_attempt (ms @ [m]) = max (dm_attempt m) (newest_attempt ms)"
proof -
  have "insert 0 (dm_attempt ` set (ms @ [m])) = insert (dm_attempt m) (insert 0 (dm_attempt ` set ms))" by auto
  moreover have "Max (insert (dm_attempt m) A) = max (dm_attempt m) (Max A)" if "finite A" "A \<noteq> {}" for A
    using that by simp
  ultimately show ?thesis by (simp only: newest_attempt_def) simp
qed

lemma newest_attempt_ge: "m \<in> set ms \<Longrightarrow> dm_attempt m \<le> newest_attempt ms"
  by (simp add: newest_attempt_def)

lemma show_on_panel_pair:
  "show_on_panel m (n, shown) =
     (if dm_attempt m < n then (n, shown)
      else (dm_attempt m, if dm_replace m \<or> n < dm_attempt m then dm_delta m else shown @ dm_delta m))"
  by (simp add: show_on_panel_def)

lemma panel_state:
  "fold show_on_panel ms (0, []) =
     (newest_attempt ms, client_text (filter (\<lambda>m. dm_attempt m = newest_attempt ms) ms))"
proof (induction ms rule: rev_induct)
  case (snoc m ms)
  have "filter (\<lambda>m'. dm_attempt m' = dm_attempt m) ms = []" if "newest_attempt ms < dm_attempt m"
    using that newest_attempt_ge [of _ ms] by (force simp: filter_empty_conv)
  then show ?case
    by (cases "dm_attempt m" "newest_attempt ms" rule: linorder_cases)
      (auto simp: snoc show_on_panel_pair newest_attempt_snoc show_delta_def client_text_def)
qed (simp add: newest_attempt_def client_text_def)

lemma panel_any_order:
  assumes "\<And>n. filter (\<lambda>m. dm_attempt m = n) delivered = filter (\<lambda>m. dm_attempt m = n) ms"
  shows "panel_text delivered = panel_text ms"
proof -
  have "m \<in> set delivered \<longleftrightarrow> m \<in> set ms" for m
    using arg_cong [OF assms [of "dm_attempt m"], of "\<lambda>xs. m \<in> set xs"] by simp
  then have "set delivered = set ms" by blast
  then show ?thesis by (simp add: panel_text_def panel_state newest_attempt_def assms)
qed

lemma panel_in_order: "attempts_ok 0 ms \<Longrightarrow> fold show_on_panel ms (0, []) = (last_attempt 0 ms, client_text ms)"
proof (induction ms rule: rev_induct)
  case (snoc m ms)
  then have "fold show_on_panel ms (0, []) = (last_attempt 0 ms, client_text ms)"
    "last_attempt 0 ms \<le> dm_attempt m" "last_attempt 0 ms < dm_attempt m \<longrightarrow> dm_replace m"
    by (simp_all add: attempts_ok_snoc)
  then show ?case by (auto simp: show_on_panel_pair show_delta_def last_attempt_def)
qed (simp add: last_attempt_def client_text_def)

lemma stream_start_ok: "stream_ok stream_start"
  by (simp add: stream_ok_def stream_start_def client_text_def last_attempt_def)

lemma emit_ok: "stream_ok s \<Longrightarrow> stream_ok (emit delta attempt replace s)"
  by (auto simp: stream_ok_def emit_def Let_def show_delta_def attempts_ok_snoc last_attempt_def)

lemma reset_ok: "stream_ok s \<Longrightarrow> stream_ok (reset_stream attempt s)"
  by (auto simp: stream_ok_def reset_stream_def)

lemma stream_step_ok: "stream_ok s \<Longrightarrow> stream_ok (stream_step ev s)"
  by (cases ev) (simp_all add: stream_step_def emit_ok reset_ok)

lemma stream_steps_ok: "stream_ok s \<Longrightarrow> stream_ok (fold stream_step evs s)"
  by (induction evs arbitrary: s) (simp_all add: stream_step_ok)

lemma fallback_stream_ok: "stream_ok s \<Longrightarrow> fallback_stream polls k attempt replace cs s = (c, k', s') \<Longrightarrow> stream_ok s'"
  by (induction polls k attempt replace cs s rule: fallback_stream.induct) (auto simp: Let_def emit_ok split: if_splits)

lemma fallback_stream_appends:
  "fallback_stream polls k attempt False cs s = (False, k', s') \<Longrightarrow> ss_attempt s = attempt \<Longrightarrow> \<not> ss_pending s \<Longrightarrow>
     ss_text s' = ss_text s @ concat cs"
proof (induction cs arbitrary: k s)
  case (Cons c cs)
  then have "fallback_stream polls (Suc (Suc k)) attempt False cs (emit c attempt False s) = (False, k', s')"
    by (auto simp: Let_def split: if_splits)
  from Cons.IH [OF this] Cons.prems(2,3) show ?case by (simp add: emit_def Let_def)
qed simp

lemma fallback_stream_shows:
  assumes "fallback_stream polls k attempt replace cs s = (False, k', s')" "cs \<noteq> []" "ss_attempt s \<le> attempt"
    "replace \<or> ss_attempt s < attempt \<or> ss_pending s \<or> ss_text s = []"
  shows "ss_text s' = concat cs"
proof -
  from assms(2) obtain c cs' where cs: "cs = c # cs'" by (cases cs) auto
  from assms(1) have rest: "fallback_stream polls (Suc (Suc k)) attempt False cs' (emit c attempt replace s) = (False, k', s')"
    by (auto simp: cs Let_def split: if_splits)
  from assms(3,4) have "ss_attempt (emit c attempt replace s) = attempt" "\<not> ss_pending (emit c attempt replace s)"
    "ss_text (emit c attempt replace s) = c" by (auto simp: emit_def Let_def)
  with fallback_stream_appends [OF rest] show ?thesis by (simp add: cs)
qed

lemma concat_chunks_of: "concat (chunks_of n xs) = xs"
  by (induction n xs rule: chunks_of.induct) simp_all

lemma concat_stream_chunks: "concat (stream_chunks text) = text"
proof -
  have "concat (map concat xss) = concat (concat xss)" for xss :: "string list list" by (induction xss) simp_all
  then show ?thesis by (simp add: stream_chunks_def concat_chunks_of)
qed

lemma deterministic_answer_filled: "deterministic_answer question evidence \<noteq> []"
  by (simp add: deterministic_answer_def)

text \<open>
  C40 The text of an answer comes from a verified model or from the Evidence itself.  The
  model is called only when nothing cancelled the question and the gateway is verified; an
  answer without a degradation is its guarded output, any other one the excerpts, and there
  is no text exactly when the attempt was interrupted.
\<close>

theorem generated_text_origin:
  assumes "generate_grounded_answer decimal question pack gateway stream before after conversation = (Inr g, events)"
  defines "called \<equiv> \<not> before \<and> (\<exists>gw. gateway = Some gw \<and> gateway_answer_verified gw = Inr True)"
    and "call \<equiv> stream (answer_prompt question (pk_evidence pack) (pk_guidance pack) conversation (pk_trace pack))
        (ab_ceiling (answer_budget_for_gateway gateway))"
  shows "(gn_text g = None \<longleftrightarrow> gn_code g \<noteq> None) \<and> events = (if called then fst call else []) \<and>
    (\<forall>t. gn_text g = Some t \<longrightarrow> t \<noteq> [] \<and>
       (if gn_degradations g = []
        then called \<and> (\<exists>content n. snd call = Stream_Result content n \<and>
               citation_guarded_answer decimal (py_strip content) (length (pk_evidence pack)) = Inr t)
        else t = deterministic_answer question (pk_evidence pack))) \<and>
    (gn_calls g \<noteq> 0 \<longrightarrow> called)"
  using assms(1) deterministic_answer_filled
  by (auto simp: generate_grounded_answer_def called_def call_def cancelled_generation_def local_generation_def Let_def res_simps
      split: if_splits option.splits sum.splits bool.splits prod.splits stream_end.splits)

lemma generated_text_filled:
  "generate_grounded_answer decimal question pack gateway stream before after conversation = (Inr g, events) \<Longrightarrow>
     gn_text g = Some t \<Longrightarrow> t \<noteq> []"
  using deterministic_answer_filled
  by (auto simp: generate_grounded_answer_def cancelled_generation_def local_generation_def Let_def res_simps
      split: if_splits option.splits sum.splits bool.splits prod.splits stream_end.splits)

lemma finish_attempt_text:
  assumes "finish_attempt decimal question pack gateway stream polls conversation answer_id created_at now = (Inr a, ms)"
  shows "attempts_ok 0 ms \<and> ga_citations a = pk_evidence pack \<and>
    (ga_status a = ''interrupted'' \<and> ga_text a = client_text ms \<or>
     ga_status a = ''completed'' \<and> ga_text a \<noteq> [] \<and> py_strip (client_text ms) = py_strip (ga_text a) \<and>
       (ga_degradations a \<noteq> pk_degradations pack \<longrightarrow> client_text ms = ga_text a))"
proof -
  obtain r events where gen: "generate_grounded_answer decimal question pack gateway stream (polls 0) (polls 1) conversation = (r, events)"
    by (metis surj_pair)
  define s where "s = fold stream_step events stream_start"
  have ok: "stream_ok s" unfolding s_def by (rule stream_steps_ok [OF stream_start_ok])
  then have seen: "client_text (ss_sent s) = ss_text s" "attempts_ok 0 (ss_sent s)" by (simp_all add: stream_ok_def)
  from assms gen obtain g where g: "r = Inr g"
    by (auto simp: finish_attempt_def Let_def split: sum.splits)
  show ?thesis
  proof (cases "gn_text g")
    case None
    with assms gen g show ?thesis
      using seen by (auto simp: finish_attempt_def Let_def s_def [symmetric] interrupted_answer_def new_answer_def)
  next
    case (Some t)
    define changed where "changed = (py_strip (ss_text s) \<noteq> py_strip t)"
    define degraded where "degraded = (gn_degradations g \<noteq> [])"
    define final where "final = (if (degraded \<or> changed) \<and> ss_attempt s \<noteq> 0 then Suc (ss_attempt s) else max (ss_attempt s) 1)"
    obtain c k s' where run: "(if \<not> ss_emitted s \<or> degraded \<or> changed
        then fallback_stream polls 2 final (degraded \<or> changed) (stream_chunks t) s else (False, 2, s)) = (c, k, s')"
      by (metis prod_cases3)
    from run ok fallback_stream_ok have ok': "stream_ok s'" by (auto split: if_splits)
    then have seen': "client_text (ss_sent s') = ss_text s'" "attempts_ok 0 (ss_sent s')" by (simp_all add: stream_ok_def)
    have result: "((Inr a, ms) :: grounded_answer res \<times> delta_message list) = (if c \<or> polls k then (Inr (stopped answer_id pack s' created_at now), ss_sent s')
      else (Inr (new_answer answer_id pack t (pk_degradations pack @ gn_degradations g) ''completed'' None None created_at now), ss_sent s'))"
      using assms [symmetric] unfolding finish_attempt_def gen g Let_def prod.case sum.case Some option.case s_def [symmetric]
        changed_def [symmetric] degraded_def [symmetric] final_def [symmetric] run by simp
    show ?thesis
    proof (cases "c \<or> polls k")
      case True
      with result seen' show ?thesis by (simp add: stopped_def interrupted_answer_def new_answer_def)
    next
      case False
      have filled: "t \<noteq> []" using generated_text_filled gen g Some by blast
      have "stream_chunks t \<noteq> []" using filled concat_stream_chunks [of t] by auto
      moreover have "ss_attempt s \<le> final" by (simp add: final_def)
      moreover have "(degraded \<or> changed) \<or> ss_attempt s < final \<or> ss_pending s \<or> ss_text s = []"
        if "\<not> ss_emitted s \<or> degraded \<or> changed" using that ok by (auto simp: stream_ok_def)
      ultimately have shown: "ss_text s' = t" if "\<not> ss_emitted s \<or> degraded \<or> changed"
        using that run False fallback_stream_shows [of polls 2 final "degraded \<or> changed" "stream_chunks t" s k s'] concat_stream_chunks
        by auto
      have same: "s' = s \<and> \<not> degraded \<and> \<not> changed" if "\<not> (\<not> ss_emitted s \<or> degraded \<or> changed)"
        using that run by auto
      have "py_strip (ss_text s') = py_strip t" using shown same changed_def by (cases "\<not> ss_emitted s \<or> degraded \<or> changed") auto
      moreover have "gn_degradations g \<noteq> [] \<longrightarrow> ss_text s' = t" using shown degraded_def by auto
      ultimately show ?thesis using result seen' False filled by (simp add: new_answer_def)
    qed
  qed
qed

lemma prepared_evidence:
  "\<exists>k. pk_evidence (prepare_grounded_evidence_pack pack capacity output_reserve) = take k (pk_evidence pack)"
  by (rule prepared_pack [of pack capacity output_reserve]) (auto simp: Let_def)

lemma sent_messages_sent [simp]: "sent_messages (map Sent ms) = ms"
  by (induction ms) (simp_all add: sent_messages_def List.map_filter_simps)

lemma sent_messages_append [simp]: "sent_messages (xs @ ys) = sent_messages xs @ sent_messages ys"
  by (induction xs) (simp_all add: sent_messages_def List.map_filter_simps split: option.split)

text \<open>
  C8 The client sees the answer that is stored.  Whatever deltas, resets and stale attempts
  the gateway streams, an interrupted answer has exactly the text the client has received,
  and a completed one the same text up to white space at its ends, which is stripped before
  the citation guard; every attempt replaces the text of the one before.  The panel, which
  drops the deltas of older attempts, shows that text in whatever order the deltas of
  different attempts are delivered.  The citations are the first entries of the Evidence
  that was retrieved.
\<close>

theorem client_sees_the_answer:
  assumes "attempt_answer decimal contract_digest repair_digest world question answer_id retry_suspended nonce gateway stream polls
      conversation created_at now = (Inr a, effects)"
    and "\<And>n. filter (\<lambda>m. dm_attempt m = n) delivered = filter (\<lambda>m. dm_attempt m = n) (sent_messages effects)"
  shows "attempts_ok 0 (sent_messages effects) \<and>
    panel_text delivered = client_text (sent_messages effects) \<and>
    (\<exists>operations found k. aw_retrieve world operations = Inr found \<and> ga_citations a = take k (pk_evidence found)) \<and>
    (ga_status a = ''interrupted'' \<and> ga_text a = client_text (sent_messages effects) \<or>
     ga_status a = ''completed'' \<and> ga_text a \<noteq> [] \<and> py_strip (client_text (sent_messages effects)) = py_strip (ga_text a))"
proof -
  from assms(1) obtain operations found pack ms start where found: "aw_retrieve world operations = Inr found"
    and pack: "pack = prepare_grounded_evidence_pack found (Some (ab_context (answer_budget_for_gateway gateway)))
        (Some (ab_ceiling (answer_budget_for_gateway gateway)))"
    and finish: "finish_attempt decimal question pack gateway stream polls conversation answer_id created_at now = (Inr a, ms)"
    and effects: "effects = start @ map Sent ms" "sent_messages start = []"
    by (auto simp: attempt_answer_def Let_def sent_messages_def List.map_filter_simps split: if_splits sum.splits prod.splits)
  obtain k where k: "pk_evidence pack = take k (pk_evidence found)"
    using prepared_evidence unfolding pack by blast
  have "attempts_ok 0 (sent_messages effects)" using finish_attempt_text [OF finish] by (simp add: effects)
  then have "panel_text (sent_messages effects) = client_text (sent_messages effects)"
    by (simp add: panel_text_def panel_in_order)
  then have "panel_text delivered = client_text (sent_messages effects)"
    using panel_any_order [OF assms(2)] by simp
  with finish_attempt_text [OF finish] found k show ?thesis unfolding effects(1) by (auto simp: effects(2))
qed

text \<open>
  A retry authorisation ends with its retrieval.  An attempt authorises at most one scope,
  for the operations of the retrieval only, and revokes it before anything is generated, also
  when the retrieval raises; without a model or a retry nothing is authorised.
\<close>

theorem retry_scope_revoked:
  fixes decimal contract_digest repair_digest world question answer_id retry_suspended nonce gateway stream polls conversation created_at now
  defines "effects \<equiv> snd (attempt_answer decimal contract_digest repair_digest world question answer_id retry_suspended nonce gateway
      stream polls conversation created_at now)"
  shows "effects = [] \<and> aw_authorize world \<noteq> Inr () \<or>
    (\<exists>ms. effects = [Retrieved] @ map Sent ms \<and> \<not> (retry_suspended \<and> gateway \<noteq> None)) \<or>
    (\<exists>ms scope. retry_suspended \<and> gateway \<noteq> None \<and>
       effects = [Authorized scope (retry_contracts contract_digest repair_digest), Retrieved, Revoked scope] @ map Sent ms)"
  unfolding effects_def
  by (auto simp: attempt_answer_def Let_def split: sum.split prod.split)

definition sample_gateway :: answer_gateway where
  "sample_gateway = \<lparr>ag_verifier = Some (Inr True), ag_capability = None, ag_profile = None\<rparr>"

definition sample_stream :: "string \<Rightarrow> int \<Rightarrow> stream_event list \<times> stream_end" where
  "sample_stream prompt max_tokens =
     ([Delta 1 ''ho'', Reset 2, Delta 2 ''hi '', Delta 1 ''late'', Delta 2 ''[1]''], Stream_Result ''hi [1]'' 2)"

lemma sample_guarded: "citation_guarded_answer ascii_decimal (py_strip ''hi [1]'') n = Inr ''hi [1]''"
proof -
  have "py_splitlines (py_strip ''hi [1]'') = [''hi [1]'']" "\<not> fence_line ''hi [1]''" "\<not> list_item_line ascii_decimal ''hi [1]''"
    "py_strip ''hi [1]'' = ''hi [1]''" by code_simp+
  then show ?thesis by (simp add: citation_guarded_answer_def)
qed

lemma sample_generated:
  "generate_grounded_answer ascii_decimal ''q'' pack (Some sample_gateway) sample_stream False False [] =
     (Inr \<lparr>gn_text = Some ''hi [1]'', gn_degradations = [], gn_calls = 2,
        gn_input = py_len (answer_prompt ''q'' (pk_evidence pack) (pk_guidance pack) [] (pk_trace pack)) * 2, gn_output = 6,
        gn_code = None, gn_reason = None\<rparr>, fst (sample_stream [] 0))"
proof -
  have "py_len ''hi [1]'' = 6" "observed_attempts (fst (sample_stream [] 0)) = 0" by code_simp+
  then show ?thesis
    by (simp add: generate_grounded_answer_def gateway_answer_verified_def sample_gateway_def sample_stream_def Let_def sample_guarded)
qed

theorem generated_text_origin_witness:
  "citation_guarded_answer ascii_decimal (py_strip ''hi [1]'') (length (pk_evidence sample_pack)) = Inr ''hi [1]''"
  using generated_text_origin [OF sample_generated [of sample_pack]] by (simp add: sample_stream_def)

definition sample_world :: attempt_world where
  "sample_world = \<lparr>aw_authorize = Inr (), aw_retrieve = (\<lambda>_. Inr sample_pack), aw_revoke = Inr ()\<rparr>"

lemma sample_streamed:
  "fold stream_step (fst (sample_stream [] 0)) stream_start =
     \<lparr>ss_emitted = True, ss_attempt = 2, ss_pending = False, ss_text = ''hi [1]'',
      ss_sent = [\<lparr>dm_delta = ''ho'', dm_replace = True, dm_attempt = 1\<rparr>,
        \<lparr>dm_delta = ''hi '', dm_replace = True, dm_attempt = 2\<rparr>, \<lparr>dm_delta = ''[1]'', dm_replace = False, dm_attempt = 2\<rparr>]\<rparr>"
  by code_simp

lemma sample_attempt:
  "\<exists>a effects. attempt_answer ascii_decimal (\<lambda>s. s) (\<lambda>s. s) sample_world ''q'' ''id'' True ''nonce'' (Some sample_gateway)
      sample_stream (\<lambda>k. False) [] None ''now'' = (Inr a, effects) \<and> ga_text a = ''hi [1]'' \<and> ga_status a = ''completed'' \<and>
      sent_messages effects = [\<lparr>dm_delta = ''ho'', dm_replace = True, dm_attempt = 1\<rparr>,
        \<lparr>dm_delta = ''hi '', dm_replace = True, dm_attempt = 2\<rparr>, \<lparr>dm_delta = ''[1]'', dm_replace = False, dm_attempt = 2\<rparr>]"
  unfolding attempt_answer_def Let_def sample_world_def finish_attempt_def sample_generated prod.case sum.case sample_streamed
  by (simp add: new_answer_def client_text_def show_delta_def sent_messages_def List.map_filter_simps)

text \<open>The first delta of the second attempt overtakes that of the first.\<close>

theorem client_sees_the_answer_witness:
  "\<exists>a effects operations found k. attempt_answer ascii_decimal (\<lambda>s. s) (\<lambda>s. s) sample_world ''q'' ''id'' True ''nonce''
      (Some sample_gateway) sample_stream (\<lambda>k. False) [] None ''now'' = (Inr a, effects) \<and> ga_text a = ''hi [1]'' \<and>
      ga_status a = ''completed'' \<and> attempts_ok 0 (sent_messages effects) \<and>
      panel_text [\<lparr>dm_delta = ''hi '', dm_replace = True, dm_attempt = 2\<rparr>, \<lparr>dm_delta = ''ho'', dm_replace = True, dm_attempt = 1\<rparr>,
        \<lparr>dm_delta = ''[1]'', dm_replace = False, dm_attempt = 2\<rparr>] = client_text (sent_messages effects) \<and>
      aw_retrieve sample_world operations = Inr found \<and> ga_citations a = take k (pk_evidence found)"
proof -
  obtain a effects where run: "attempt_answer ascii_decimal (\<lambda>s. s) (\<lambda>s. s) sample_world ''q'' ''id'' True ''nonce'' (Some sample_gateway)
      sample_stream (\<lambda>k. False) [] None ''now'' = (Inr a, effects)" "ga_text a = ''hi [1]''" "ga_status a = ''completed''"
    and sent: "sent_messages effects = [\<lparr>dm_delta = ''ho'', dm_replace = True, dm_attempt = 1\<rparr>,
        \<lparr>dm_delta = ''hi '', dm_replace = True, dm_attempt = 2\<rparr>, \<lparr>dm_delta = ''[1]'', dm_replace = False, dm_attempt = 2\<rparr>]"
    using sample_attempt by blast
  have "filter (\<lambda>m. dm_attempt m = n) [\<lparr>dm_delta = ''hi '', dm_replace = True, dm_attempt = 2\<rparr>,
        \<lparr>dm_delta = ''ho'', dm_replace = True, dm_attempt = 1\<rparr>, \<lparr>dm_delta = ''[1]'', dm_replace = False, dm_attempt = 2\<rparr>] =
      filter (\<lambda>m. dm_attempt m = n) (sent_messages effects)" for n
    unfolding sent by simp
  from client_sees_the_answer [OF run(1) this] run show ?thesis by blast
qed

end
