(* ===== verification/Conversations.thy ===== *)
theory Conversations
  imports AnswerStream
begin

section \<open>Conversations and their answer versions\<close>

text \<open>
  \<open>openkb/answers/conversations.py\<close> and \<open>conversation_snapshots.py\<close>: messages in their
  order, the immutable versions of each answer with their citations, images and trace, and
  the version an assistant message shows.  An operation is one locked transaction: it returns
  its value and the new tables, or raises and leaves them.  Identifiers and time stamps are
  arguments; so are the catalogue of versions and the paths of images, which other parts keep.
\<close>

subsection \<open>Tables\<close>

record conversation_row =
  cv_title :: string
  cv_draft :: string
  cv_created :: string
  cv_updated :: string

datatype message_role = User_Message | Assistant_Message

record message_row =
  mg_conversation :: string
  mg_ordinal :: int
  mg_role :: message_role
  mg_content :: string
  mg_status :: string
  mg_reply :: "string option"
  mg_selected :: "string option"
  mg_created :: string
  mg_updated :: string

record version_row =
  vr_message :: string
  vr_number :: int
  vr_text :: string
  vr_plan :: string
  vr_degradations :: string
  vr_status :: string
  vr_code :: "string option"
  vr_reason :: "string option"
  vr_created :: string

record citation_row =
  sc_ordinal :: nat
  sc_document :: string
  sc_name :: string
  sc_section :: string
  sc_locator :: string
  sc_excerpt :: string
  sc_channels :: string

record image_snapshot =
  sn_evidence :: string
  sn_ordinal :: nat
  sn_document :: string
  sn_document_name :: string
  sn_name :: string
  sn_media_type :: string
  sn_path :: string
  sn_alt :: "string option"
  sn_locator :: string

record conversation_db =
  cd_conversations :: "(string \<times> conversation_row) list"
  cd_messages :: "(string \<times> message_row) list"
  cd_versions :: "(string \<times> version_row) list"
  cd_citations :: "((string \<times> string) \<times> citation_row) list"
  cd_traces :: "(string \<times> string) list"
  cd_images :: "((string \<times> string) \<times> image_snapshot) list"
  cd_last :: "string option"

definition conversation_db_empty :: conversation_db where
  "conversation_db_empty =
     \<lparr>cd_conversations = [], cd_messages = [], cd_versions = [], cd_citations = [], cd_traces = [], cd_images = [], cd_last = None\<rparr>"

text \<open>\<open>DesktopConversationError\<close>, a \<open>RuntimeError\<close> with a stable code.\<close>

definition conversation_error :: "string \<Rightarrow> 'a res" where
  "conversation_error code = Inl (RuntimeError code)"

definition find_row :: "string \<Rightarrow> string \<Rightarrow> (string \<times> 'r) list \<Rightarrow> 'r res" where
  "find_row code k t = (case map_of t k of None \<Rightarrow> conversation_error code | Some r \<Rightarrow> Inr r)"

subsection \<open>The scope a conversation inherits\<close>

record version_scope =
  vs_mode :: string
  vs_status :: string
  vs_lineages :: "string list"
  vs_labels :: "string list"
  vs_allowed :: "string list"
  vs_preferred :: "string list"
  vs_policy :: string
  vs_reason :: string
  vs_source_revision :: int
  vs_generation :: string
  vs_degradation :: "string option"

record version_catalog =
  vc_source_revision :: int
  vc_revision :: string
  vc_lineages :: "(string \<times> string list) list"

text \<open>\<open>vs_allowed\<close> stands for the frozen set of its members; \<open>available_labels\<close> is empty here.\<close>

definition version_scope_from_trace :: "version_catalog option \<Rightarrow> string option \<Rightarrow> version_scope option res" where
  "version_scope_from_trace catalog row =
     (case row of
        None \<Rightarrow> Inr None
      | Some trace_json \<Rightarrow>
          res_bind (retrieval_trace_from_json trace_json) (\<lambda>t. Inr
            (if rt_version_scope_mode t \<notin> {''latest'', ''exact'', ''compare'', ''all'', ''unscoped''} \<or>
                rt_version_scope_status t \<notin> {''resolved'', ''ambiguous'', ''unavailable'', ''degraded''} then None
             else case catalog of
               None \<Rightarrow> None
             | Some c \<Rightarrow>
                 let preferred = concat (map (\<lambda>(lineage, members). filter (\<lambda>d. d \<in> set (rt_version_scope_document_ids t)) members)
                       (filter (\<lambda>(lineage, members). lineage \<in> set (rt_version_scope_lineage_ids t)) (vc_lineages c))) in
                 if rt_version_scope_lineage_ids t \<noteq> [] \<and> preferred = [] then None
                 else Some
                   \<lparr>vs_mode = rt_version_scope_mode t, vs_status = rt_version_scope_status t,
                    vs_lineages = rt_version_scope_lineage_ids t, vs_labels = rt_version_scope_labels t,
                    vs_allowed = rt_version_scope_document_ids t, vs_preferred = preferred,
                    vs_policy = (if rt_version_scope_mode t \<in> {''latest'', ''unscoped''}
                      then ''selected_versions_plus_independent'' else ''selected_versions_only''),
                    vs_reason = rt_version_scope_selection_reason t, vs_source_revision = vc_source_revision c,
                    vs_generation = vc_revision c,
                    vs_degradation = (if rt_version_scope_degradation_reason t = [] then None
                      else Some (rt_version_scope_degradation_reason t))\<rparr>)))"

definition selected_trace :: "conversation_db \<Rightarrow> message_row \<Rightarrow> string option" where
  "selected_trace db m = Option.bind (mg_selected m) (map_of (cd_traces db))"

text \<open>The assistant messages of a conversation before an ordinal, in their order.\<close>

definition assistant_messages :: "conversation_db \<Rightarrow> string \<Rightarrow> int option \<Rightarrow> message_row list" where
  "assistant_messages db cid before =
     sort_key mg_ordinal (filter (\<lambda>m. mg_conversation m = cid \<and> mg_role m = Assistant_Message \<and>
       (case before of None \<Rightarrow> True | Some n \<Rightarrow> mg_ordinal m < n)) (map snd (cd_messages db)))"

definition latest_version_scope :: "conversation_db \<Rightarrow> version_catalog option \<Rightarrow> string \<Rightarrow> int option \<Rightarrow> version_scope option res" where
  "latest_version_scope db catalog cid before =
     (let traces = List.map_filter (selected_trace db)
            (filter (\<lambda>m. mg_status m = ''completed'') (assistant_messages db cid before)) in
      version_scope_from_trace catalog (if traces = [] then None else Some (last traces)))"

definition answer_pair :: "conversation_db \<Rightarrow> message_row \<Rightarrow> (string \<times> string) option" where
  "answer_pair db m =
     Option.bind (Option.bind (mg_reply m) (map_of (cd_messages db))) (\<lambda>user.
     Option.bind (Option.bind (mg_selected m) (map_of (cd_versions db))) (\<lambda>v.
       if mg_status m = ''completed'' \<and> vr_status v = ''completed'' then Some (mg_content user, vr_text v) else None))"

definition conversation_context :: "conversation_db \<Rightarrow> string \<Rightarrow> int option \<Rightarrow> (string \<times> string) list" where
  "conversation_context db cid before =
     rev (take 4 (rev (List.map_filter (answer_pair db) (assistant_messages db cid before))))"

definition has_running_message :: "conversation_db \<Rightarrow> string \<Rightarrow> bool" where
  "has_running_message db cid \<longleftrightarrow> list_ex (\<lambda>(k, m). mg_conversation m = cid \<and> mg_status m = ''generating'') (cd_messages db)"

subsection \<open>Conversations\<close>

definition update_message :: "string \<Rightarrow> (message_row \<Rightarrow> message_row) \<Rightarrow> conversation_db \<Rightarrow> conversation_db" where
  "update_message mid f db = db\<lparr>cd_messages := update_where (\<lambda>k r. k = mid) f (cd_messages db)\<rparr>"

definition select_conversation :: "string \<Rightarrow> conversation_db \<Rightarrow> conversation_db" where
  "select_conversation cid db = db\<lparr>cd_last := Some cid\<rparr>"

definition create_conversation :: "string \<Rightarrow> string option \<Rightarrow> string \<Rightarrow> conversation_db \<Rightarrow> conversation_db res" where
  "create_conversation cid title now db =
     (let given = (case title of None \<Rightarrow> [] | Some t \<Rightarrow> t);
          stripped = py_strip (if given = [] then ''New conversation'' else given);
          normalized = (if stripped = [] then ''New conversation'' else stripped) in
      res_bind (insert_row True cid \<lparr>cv_title = normalized, cv_draft = [], cv_created = now, cv_updated = now\<rparr> (cd_conversations db))
        (\<lambda>t. Inr (select_conversation cid (db\<lparr>cd_conversations := t\<rparr>))))"

definition update_conversation :: "string \<Rightarrow> (conversation_row \<Rightarrow> conversation_row) \<Rightarrow> conversation_db \<Rightarrow> conversation_db res" where
  "update_conversation cid f db =
     (if map_of (cd_conversations db) cid = None then conversation_error ''conversation_not_found''
      else Inr (db\<lparr>cd_conversations := update_where (\<lambda>k r. k = cid) f (cd_conversations db)\<rparr>))"

definition rename_conversation :: "string \<Rightarrow> string \<Rightarrow> string \<Rightarrow> conversation_db \<Rightarrow> conversation_db res" where
  "rename_conversation cid title now db =
     (if py_strip title = [] then conversation_error ''conversation_title_required''
      else update_conversation cid (\<lambda>r. r\<lparr>cv_title := py_strip title, cv_updated := now\<rparr>) db)"

definition save_draft :: "string \<Rightarrow> string \<Rightarrow> conversation_db \<Rightarrow> conversation_db res" where
  "save_draft cid draft db = update_conversation cid (\<lambda>r. r\<lparr>cv_draft := draft\<rparr>) db"

text \<open>Deleting a conversation cascades to its messages and everything below them.\<close>

definition delete_conversation :: "string \<Rightarrow> conversation_db \<Rightarrow> conversation_db res" where
  "delete_conversation cid db =
     (if map_of (cd_conversations db) cid = None then conversation_error ''conversation_not_found''
      else
        let messages = filter (\<lambda>(k, m). mg_conversation m \<noteq> cid) (cd_messages db);
            versions = filter (\<lambda>(k, v). vr_message v \<in> fst ` set messages) (cd_versions db);
            kept = (\<lambda>vid. vid \<in> fst ` set versions) in
        Inr \<lparr>cd_conversations = filter (\<lambda>(k, r). k \<noteq> cid) (cd_conversations db), cd_messages = messages, cd_versions = versions,
             cd_citations = filter (\<lambda>(k, r). kept (fst k)) (cd_citations db), cd_traces = filter (\<lambda>(k, r). kept k) (cd_traces db),
             cd_images = filter (\<lambda>(k, r). kept (fst k)) (cd_images db),
             cd_last = (if cd_last db = Some cid then None else cd_last db)\<rparr>)"

subsection \<open>Turns\<close>

definition next_ordinal :: "conversation_db \<Rightarrow> string \<Rightarrow> int" where
  "next_ordinal db cid =
     fold max (map mg_ordinal (filter (\<lambda>m. mg_conversation m = cid) (map snd (cd_messages db)))) (- 1) + 1"

definition insert_message :: "string \<Rightarrow> message_row \<Rightarrow> conversation_db \<Rightarrow> conversation_db res" where
  "insert_message mid m db =
     res_bind (insert_row (\<forall>(k, r)\<in>set (cd_messages db). \<not> (mg_conversation r = mg_conversation m \<and> mg_ordinal r = mg_ordinal m))
       mid m (cd_messages db)) (\<lambda>t. Inr (db\<lparr>cd_messages := t\<rparr>))"

definition begin_turn ::
  "version_catalog option \<Rightarrow> string \<Rightarrow> string \<Rightarrow> string \<Rightarrow> string \<Rightarrow> string \<Rightarrow> conversation_db \<Rightarrow>
    (((string \<times> string) list \<times> version_scope option) \<times> conversation_db) res" where
  "begin_turn catalog cid question user_id assistant_id now db =
     res_bind (find_row ''conversation_not_found'' cid (cd_conversations db)) (\<lambda>row.
     if has_running_message db cid then conversation_error ''conversation_answer_running''
     else res_bind (latest_version_scope db catalog cid None) (\<lambda>scope.
       let ordinal = next_ordinal db cid in
       res_bind (insert_message user_id
         \<lparr>mg_conversation = cid, mg_ordinal = ordinal, mg_role = User_Message, mg_content = question, mg_status = ''completed'',
          mg_reply = None, mg_selected = None, mg_created = now, mg_updated = now\<rparr> db) (\<lambda>db1.
       res_bind (insert_message assistant_id
         \<lparr>mg_conversation = cid, mg_ordinal = ordinal + 1, mg_role = Assistant_Message, mg_content = [],
          mg_status = ''generating'', mg_reply = Some user_id, mg_selected = None, mg_created = now, mg_updated = now\<rparr> db1) (\<lambda>db2.
       res_bind (update_conversation cid (\<lambda>r. r
         \<lparr>cv_title := (if cv_title row = ''New conversation'' then concat (take 60 (py_chars question)) else cv_title row),
          cv_draft := [], cv_updated := now\<rparr>) db2) (\<lambda>db3.
       Inr ((conversation_context db cid None, scope), select_conversation cid db3))))))"

definition begin_regeneration ::
  "version_catalog option \<Rightarrow> string \<Rightarrow> string \<Rightarrow> string \<Rightarrow> conversation_db \<Rightarrow>
    ((string \<times> (string \<times> string) list \<times> version_scope option) \<times> conversation_db) res" where
  "begin_regeneration catalog cid assistant_id now db =
     (if has_running_message db cid then conversation_error ''conversation_answer_running''
      else case map_of (cd_messages db) assistant_id of
        None \<Rightarrow> conversation_error ''answer_regeneration_unavailable''
      | Some m \<Rightarrow>
          (case Option.bind (mg_reply m) (map_of (cd_messages db)) of
             None \<Rightarrow> conversation_error ''answer_regeneration_unavailable''
           | Some user \<Rightarrow>
               if mg_conversation m \<noteq> cid \<or> mg_role m \<noteq> Assistant_Message \<or> mg_selected m = None
               then conversation_error ''answer_regeneration_unavailable''
               else
                 let db' = update_message assistant_id (\<lambda>r. r\<lparr>mg_status := ''generating'', mg_updated := now\<rparr>) db in
                 res_bind (version_scope_from_trace catalog (selected_trace db' m)) (\<lambda>scope.
                 Inr ((mg_content user, conversation_context db' cid (Some (mg_ordinal m)), scope), db'))))"

subsection \<open>Answer versions\<close>

definition plan_as_dict :: "retrieval_plan \<Rightarrow> json" where
  "plan_as_dict p = JObj [(''query'', JStr (rp_query p)), (''terms'', json_strings (rp_terms p)), (''source'', JStr (rp_source p))]"

definition version_of_answer :: "string \<Rightarrow> int \<Rightarrow> grounded_answer \<Rightarrow> version_row" where
  "version_of_answer mid number a =
     \<lparr>vr_message = mid, vr_number = number, vr_text = ga_text a, vr_plan = json_text (plan_as_dict (ga_plan a)),
      vr_degradations = json_text (json_strings (ga_degradations a)), vr_status = ga_status a, vr_code = ga_code a,
      vr_reason = ga_reason a, vr_created = ga_created_at a\<rparr>"

definition citation_of :: "nat \<Rightarrow> evidence_ref \<Rightarrow> citation_row" where
  "citation_of i r =
     \<lparr>sc_ordinal = i, sc_document = er_document r, sc_name = er_name r, sc_section = er_section r,
      sc_locator = json_text (JObj (er_locator r)), sc_excerpt = er_excerpt r, sc_channels = json_text (json_strings (er_channels r))\<rparr>"

definition image_of :: "(string \<Rightarrow> string) \<Rightarrow> nat \<Rightarrow> answer_image \<Rightarrow> image_snapshot" where
  "image_of relative i a =
     \<lparr>sn_evidence = ai_evidence a, sn_ordinal = i, sn_document = ai_document a, sn_document_name = ai_document_name a,
      sn_name = ai_name a, sn_media_type = ai_media_type a, sn_path = relative (ai_path a), sn_alt = ai_alt a,
      sn_locator = json_text (JObj (ai_locator a))\<rparr>"

fun insert_rows :: "('k \<Rightarrow> 'r \<Rightarrow> bool) \<Rightarrow> ('k \<times> 'r) list \<Rightarrow> ('k \<times> 'r) list \<Rightarrow> ('k \<times> 'r) list res" where
  "insert_rows admitted [] t = Inr t"
| "insert_rows admitted ((k, r) # rows) t = res_bind (insert_row (admitted k r) k r t) (insert_rows admitted rows)"

definition insert_answer_version ::
  "(string \<Rightarrow> string) \<Rightarrow> string \<Rightarrow> string \<Rightarrow> int \<Rightarrow> grounded_answer \<Rightarrow> conversation_db \<Rightarrow> conversation_db res" where
  "insert_answer_version relative vid mid number a db =
     res_bind (insert_row (ga_status a \<in> {''completed'', ''interrupted''} \<and>
         (\<forall>(k, v)\<in>set (cd_versions db). \<not> (vr_message v = mid \<and> vr_number v = number)))
       vid (version_of_answer mid number a) (cd_versions db)) (\<lambda>versions.
     res_bind (insert_rows (\<lambda>k r. True) (map (\<lambda>(i, r). ((vid, er_id r), citation_of i r)) (enumerate 0 (ga_citations a)))
       (cd_citations db)) (\<lambda>citations.
     res_bind (insert_row True vid (json_text (trace_as_dict (ga_trace a))) (cd_traces db)) (\<lambda>traces.
     res_bind (insert_rows (\<lambda>k r. (vid, sn_evidence r) \<in> fst ` set citations)
       (map (\<lambda>(i, image). ((vid, ai_id image), image_of relative i image)) (enumerate 0 (ga_images a))) (cd_images db)) (\<lambda>images.
     Inr (db\<lparr>cd_versions := versions, cd_citations := citations, cd_traces := traces, cd_images := images\<rparr>)))))"

definition next_version_number :: "conversation_db \<Rightarrow> string \<Rightarrow> int" where
  "next_version_number db mid =
     fold max (map vr_number (filter (\<lambda>v. vr_message v = mid) (map snd (cd_versions db)))) 0 + 1"

definition append_answer_version ::
  "(string \<Rightarrow> string) \<Rightarrow> string \<Rightarrow> string \<Rightarrow> grounded_answer \<Rightarrow> bool \<Rightarrow> string \<Rightarrow> conversation_db \<Rightarrow> conversation_db res" where
  "append_answer_version relative vid mid a select now db =
     (case map_of (cd_messages db) mid of
        None \<Rightarrow> conversation_error ''conversation_message_not_found''
      | Some m \<Rightarrow>
          if mg_role m \<noteq> Assistant_Message then conversation_error ''conversation_message_not_found''
          else res_bind (insert_answer_version relative vid mid (next_version_number db mid) a db) (\<lambda>db1.
            let db2 = (if select
                  then update_message mid (\<lambda>r. r\<lparr>mg_selected := Some vid, mg_status := ga_status a, mg_updated := now\<rparr>) db1
                  else db1) in
            Inr (db2\<lparr>cd_conversations := update_where (\<lambda>k r. k = mg_conversation m) (\<lambda>r. r\<lparr>cv_updated := now\<rparr>)
              (cd_conversations db2)\<rparr>)))"

definition selected_status :: "conversation_db \<Rightarrow> message_row \<Rightarrow> string" where
  "selected_status db m =
     (case Option.bind (mg_selected m) (map_of (cd_versions db)) of None \<Rightarrow> ''interrupted'' | Some v \<Rightarrow> vr_status v)"

definition mark_generation_failed :: "string \<Rightarrow> string \<Rightarrow> conversation_db \<Rightarrow> conversation_db" where
  "mark_generation_failed mid now db = update_message mid (\<lambda>r. r\<lparr>mg_status := ''interrupted'', mg_updated := now\<rparr>) db"

definition restore_selected_status :: "string \<Rightarrow> string \<Rightarrow> conversation_db \<Rightarrow> conversation_db" where
  "restore_selected_status mid now db =
     update_message mid (\<lambda>r. r\<lparr>mg_status := selected_status db r, mg_updated := now\<rparr>) db"

definition recover_generating_messages :: "string \<Rightarrow> conversation_db \<Rightarrow> conversation_db" where
  "recover_generating_messages now db =
     db\<lparr>cd_messages := update_where (\<lambda>k r. mg_status r = ''generating'')
       (\<lambda>r. r\<lparr>mg_status := selected_status db r, mg_updated := now\<rparr>) (cd_messages db)\<rparr>"

definition select_answer_version :: "string \<Rightarrow> string \<Rightarrow> string \<Rightarrow> string \<Rightarrow> conversation_db \<Rightarrow> conversation_db res" where
  "select_answer_version cid mid vid now db =
     (case (map_of (cd_versions db) vid, map_of (cd_messages db) mid) of
        (Some v, Some m) \<Rightarrow>
          if vr_message v = mid \<and> mg_conversation m = cid
          then Inr (update_message mid (\<lambda>r. r\<lparr>mg_selected := Some vid, mg_status := vr_status v, mg_updated := now\<rparr>) db)
          else conversation_error ''answer_version_not_found''
      | _ \<Rightarrow> conversation_error ''answer_version_not_found'')"

subsection \<open>What a conversation shows\<close>

definition stored_object :: "string \<Rightarrow> dict" where
  "stored_object v = (case json_loads v of Some (JObj d) \<Rightarrow> d | _ \<Rightarrow> [])"

definition stored_list :: "string \<Rightarrow> json list" where
  "stored_list v = (case json_loads v of Some (JList vs) \<Rightarrow> vs | _ \<Rightarrow> [])"

definition normalize_retrieval_channel :: "string \<Rightarrow> string" where
  "normalize_retrieval_channel c = (if c = ''page_tree'' then ''structure_lexical'' else c)"

definition normalize_retrieval_channels :: "string list \<Rightarrow> string list" where
  "normalize_retrieval_channels cs = uniq (map normalize_retrieval_channel cs)"

definition json_strings_in :: "json list \<Rightarrow> string list" where
  "json_strings_in vs = concat (map (\<lambda>v. case v of JStr s \<Rightarrow> [s] | _ \<Rightarrow> []) vs)"

text \<open>Rows of one version in their order; \<open>available\<close> is the state of a document in the library.\<close>

definition rows_of :: "('r \<Rightarrow> nat) \<Rightarrow> string \<Rightarrow> ((string \<times> string) \<times> 'r) list \<Rightarrow> (string \<times> 'r) list" where
  "rows_of ordinal vid t =
     sort_key (\<lambda>(k, r). ordinal r) (map (\<lambda>((v, k), r). (k, r)) (filter (\<lambda>((v, k), r). v = vid) t))"

definition citation_payload :: "(string \<Rightarrow> bool) \<Rightarrow> string \<times> citation_row \<Rightarrow> json" where
  "citation_payload available = (\<lambda>(evidence, r). JObj
     [(''evidence_id'', JStr evidence), (''document_id'', JStr (sc_document r)), (''document_name'', JStr (sc_name r)),
      (''section'', JStr (sc_section r)), (''locator'', JObj (stored_object (sc_locator r))), (''excerpt'', JStr (sc_excerpt r)),
      (''channels'', json_strings (normalize_retrieval_channels (json_strings_in (stored_list (sc_channels r))))),
      (''source_available'', JBool (available (sc_document r)))])"

definition version_citations :: "(string \<Rightarrow> bool) \<Rightarrow> conversation_db \<Rightarrow> string \<Rightarrow> json list" where
  "version_citations available db vid = map (citation_payload available) (rows_of sc_ordinal vid (cd_citations db))"

definition image_payload :: "(string \<Rightarrow> bool) \<Rightarrow> (string \<Rightarrow> string) \<Rightarrow> (string \<Rightarrow> bool) \<Rightarrow> string \<times> image_snapshot \<Rightarrow> json" where
  "image_payload available absolute is_file = (\<lambda>(image, r).
     let present = (sn_path r \<noteq> [] \<and> is_file (absolute (sn_path r))) in JObj
     [(''source_image_id'', JStr image), (''evidence_id'', JStr (sn_evidence r)), (''document_id'', JStr (sn_document r)),
      (''document_name'', JStr (sn_document_name r)), (''name'', JStr (sn_name r)), (''media_type'', JStr (sn_media_type r)),
      (''file_path'', JStr (if present then absolute (sn_path r) else [])), (''alt_text'', json_opt_str (sn_alt r)),
      (''locator'', JObj (stored_object (sn_locator r))), (''source_available'', JBool (available (sn_document r) \<and> present))])"

definition version_images :: "(string \<Rightarrow> bool) \<Rightarrow> (string \<Rightarrow> string) \<Rightarrow> (string \<Rightarrow> bool) \<Rightarrow> conversation_db \<Rightarrow> string \<Rightarrow> json list" where
  "version_images available absolute is_file db vid =
     map (image_payload available absolute is_file) (rows_of sn_ordinal vid (cd_images db))"

definition version_retrieval_trace :: "conversation_db \<Rightarrow> string \<Rightarrow> retrieval_trace res" where
  "version_retrieval_trace db vid =
     (case map_of (cd_traces db) vid of None \<Rightarrow> Inr empty_trace | Some v \<Rightarrow> retrieval_trace_from_json v)"

record library_view =
  lw_available :: "string \<Rightarrow> bool"
  lw_absolute :: "string \<Rightarrow> string"
  lw_is_file :: "string \<Rightarrow> bool"

definition version_payload :: "library_view \<Rightarrow> conversation_db \<Rightarrow> string \<times> version_row \<Rightarrow> json res" where
  "version_payload lib db = (\<lambda>(vid, v). res_bind (version_retrieval_trace db vid) (\<lambda>t. Inr (JObj
     [(''answer_version_id'', JStr vid), (''version_number'', JInt (vr_number v)), (''answer_text'', JStr (vr_text v)),
      (''retrieval_plan'', JObj (stored_object (vr_plan v))), (''degradations'', JList (stored_list (vr_degradations v))),
      (''status'', JStr (vr_status v)), (''interruption_code'', json_opt_str (vr_code v)),
      (''interruption_reason'', json_opt_str (vr_reason v)), (''created_at'', JStr (vr_created v)),
      (''citations'', JList (version_citations (lw_available lib) db vid)),
      (''source_images'', JList (version_images (lw_available lib) (lw_absolute lib) (lw_is_file lib) db vid)),
      (''retrieval_trace'', trace_as_dict t)])))"

definition answer_versions :: "library_view \<Rightarrow> conversation_db \<Rightarrow> string \<Rightarrow> json list res" where
  "answer_versions lib db mid =
     res_map (version_payload lib db) (sort_key (\<lambda>(k, v). vr_number v) (filter (\<lambda>(k, v). vr_message v = mid) (cd_versions db)))"

definition role_text :: "message_role \<Rightarrow> string" where
  "role_text r = (case r of User_Message \<Rightarrow> ''user'' | Assistant_Message \<Rightarrow> ''assistant'')"

definition message_payload :: "library_view \<Rightarrow> conversation_db \<Rightarrow> string \<times> message_row \<Rightarrow> json res" where
  "message_payload lib db = (\<lambda>(mid, m).
     res_bind (if mg_role m = Assistant_Message then answer_versions lib db mid else Inr []) (\<lambda>versions. Inr (JObj
     [(''message_id'', JStr mid), (''ordinal'', JInt (mg_ordinal m)), (''role'', JStr (role_text (mg_role m))),
      (''content'', JStr (mg_content m)), (''status'', JStr (mg_status m)),
      (''selected_answer_version_id'', json_opt_str (mg_selected m)), (''created_at'', JStr (mg_created m)),
      (''updated_at'', JStr (mg_updated m)), (''answer_versions'', JList versions)])))"

definition conversation_payload :: "library_view \<Rightarrow> conversation_db \<Rightarrow> string \<Rightarrow> json res" where
  "conversation_payload lib db cid =
     res_bind (find_row ''conversation_not_found'' cid (cd_conversations db)) (\<lambda>row.
     res_bind (res_map (message_payload lib db)
       (sort_key (\<lambda>(k, m). mg_ordinal m) (filter (\<lambda>(k, m). mg_conversation m = cid) (cd_messages db)))) (\<lambda>messages. Inr (JObj
     [(''conversation_id'', JStr cid), (''title'', JStr (cv_title row)), (''draft_text'', JStr (cv_draft row)),
      (''created_at'', JStr (cv_created row)), (''updated_at'', JStr (cv_updated row)), (''messages'', JList messages)])))"

text \<open>\<open>get\<close>: the selection is committed before the payload is built.\<close>

definition get_conversation :: "library_view \<Rightarrow> string \<Rightarrow> bool \<Rightarrow> conversation_db \<Rightarrow> json res \<times> conversation_db" where
  "get_conversation lib cid select db =
     (if map_of (cd_conversations db) cid = None then (conversation_error ''conversation_not_found'', db)
      else let db' = (if select then select_conversation cid db else db) in (conversation_payload lib db' cid, db'))"

subsection \<open>Asking and regenerating\<close>

text \<open>
  The model answers outside every lock: \<open>generate\<close> is the answer service, \<open>meanwhile\<close> what
  other requests do to the tables before the result is stored.
\<close>

definition ask ::
  "library_view \<Rightarrow> version_catalog option \<Rightarrow> (string \<Rightarrow> string) \<Rightarrow>
    ((string \<times> string) list \<Rightarrow> version_scope option \<Rightarrow> grounded_answer res) \<Rightarrow> (conversation_db \<Rightarrow> conversation_db) \<Rightarrow>
    string \<Rightarrow> string \<Rightarrow> string \<times> string \<times> string \<Rightarrow> string \<times> string \<Rightarrow> conversation_db \<Rightarrow> json res \<times> conversation_db" where
  "ask lib catalog relative generate meanwhile cid question ids stamps db =
     (let normalized = py_strip question; (user_id, assistant_id, version_id) = ids; (begun, finished) = stamps in
      if normalized = [] then (conversation_error ''conversation_question_required'', db)
      else case begin_turn catalog cid normalized user_id assistant_id begun db of
        Inl e \<Rightarrow> (Inl e, db)
      | Inr ((context, scope), db1) \<Rightarrow>
          (case generate context scope of
             Inl e \<Rightarrow> (Inl e, mark_generation_failed assistant_id finished (meanwhile db1))
           | Inr a \<Rightarrow>
               (case append_answer_version relative version_id assistant_id a True finished (meanwhile db1) of
                  Inl e \<Rightarrow> (Inl e, meanwhile db1)
                | Inr db2 \<Rightarrow> get_conversation lib cid False db2)))"

definition regenerate ::
  "library_view \<Rightarrow> version_catalog option \<Rightarrow> (string \<Rightarrow> string) \<Rightarrow>
    (string \<Rightarrow> (string \<times> string) list \<Rightarrow> version_scope option \<Rightarrow> grounded_answer res) \<Rightarrow> (conversation_db \<Rightarrow> conversation_db) \<Rightarrow>
    string \<Rightarrow> string \<Rightarrow> string \<Rightarrow> string \<times> string \<Rightarrow> conversation_db \<Rightarrow> json res \<times> conversation_db" where
  "regenerate lib catalog relative generate meanwhile cid assistant_id version_id stamps db =
     (let (begun, finished) = stamps in
      case begin_regeneration catalog cid assistant_id begun db of
        Inl e \<Rightarrow> (Inl e, db)
      | Inr ((question, context, scope), db1) \<Rightarrow>
          (case generate question context scope of
             Inl e \<Rightarrow> (Inl e, restore_selected_status assistant_id finished (meanwhile db1))
           | Inr a \<Rightarrow>
               if ga_status a = ''completed''
               then (case append_answer_version relative version_id assistant_id a True finished (meanwhile db1) of
                       Inl e \<Rightarrow> (Inl e, meanwhile db1)
                     | Inr db2 \<Rightarrow> get_conversation lib cid False db2)
               else get_conversation lib cid False (restore_selected_status assistant_id finished (meanwhile db1))))"

end
