(* ===== verification/ConversationMachine.thy ===== *)
theory ConversationMachine
  imports Conversations
begin

section \<open>Every interleaving of conversations\<close>

text \<open>
  The operations of \<open>Conversations\<close> as steps of a machine: requests start generations, which
  end later in any order, while other requests rename, select, delete and ask again, and a
  restart drops the running generations and recovers their messages.
\<close>

declare map_of_eq_Some_iff [simp del] map_of_append [simp del]

subsection \<open>What holds of the tables\<close>

abbreviation conversation :: "conversation_db \<Rightarrow> string \<Rightarrow> conversation_row option" where
  "conversation db \<equiv> map_of (cd_conversations db)"

abbreviation message :: "conversation_db \<Rightarrow> string \<Rightarrow> message_row option" where
  "message db \<equiv> map_of (cd_messages db)"

abbreviation version :: "conversation_db \<Rightarrow> string \<Rightarrow> version_row option" where
  "version db \<equiv> map_of (cd_versions db)"

definition tables_keyed :: "conversation_db \<Rightarrow> bool" where
  "tables_keyed db \<longleftrightarrow>
     table_ok (cd_conversations db) \<and> table_ok (cd_messages db) \<and> table_ok (cd_versions db) \<and> table_ok (cd_citations db) \<and>
     table_ok (cd_traces db) \<and> table_ok (cd_images db)"

text \<open>A question at an even ordinal is followed by its answer, an answer replies to the question before it.\<close>

definition message_placed :: "conversation_db \<Rightarrow> message_row \<Rightarrow> bool" where
  "message_placed db m \<longleftrightarrow>
     conversation db (mg_conversation m) \<noteq> None \<and> 0 \<le> mg_ordinal m \<and>
     (case mg_role m of
        User_Message \<Rightarrow>
          even (mg_ordinal m) \<and> mg_status m = ''completed'' \<and> mg_reply m = None \<and> mg_selected m = None \<and>
          (\<exists>k a. message db k = Some a \<and> mg_conversation a = mg_conversation m \<and> mg_ordinal a = mg_ordinal m + 1)
      | Assistant_Message \<Rightarrow>
          odd (mg_ordinal m) \<and> mg_content m = [] \<and>
          (\<exists>k q. mg_reply m = Some k \<and> message db k = Some q \<and> mg_role q = User_Message \<and>
             mg_conversation q = mg_conversation m \<and> mg_ordinal q = mg_ordinal m - 1))"

definition messages_ok :: "conversation_db \<Rightarrow> bool" where
  "messages_ok db \<longleftrightarrow>
     (\<forall>k m. message db k = Some m \<longrightarrow> message_placed db m) \<and>
     (\<forall>k m k' m'. message db k = Some m \<longrightarrow> message db k' = Some m' \<longrightarrow> mg_conversation m = mg_conversation m' \<longrightarrow>
        mg_ordinal m = mg_ordinal m' \<longrightarrow> k = k')"

text \<open>The versions of an answer are numbered from one without gaps.\<close>

definition versions_ok :: "conversation_db \<Rightarrow> bool" where
  "versions_ok db \<longleftrightarrow>
     (\<forall>k v. version db k = Some v \<longrightarrow> (\<exists>m. message db (vr_message v) = Some m \<and> mg_role m = Assistant_Message) \<and>
        vr_status v \<in> {''completed'', ''interrupted''} \<and> 1 \<le> vr_number v \<and>
        (vr_number v = 1 \<or> (\<exists>k' v'. version db k' = Some v' \<and> vr_message v' = vr_message v \<and> vr_number v' = vr_number v - 1))) \<and>
     (\<forall>k v k' v'. version db k = Some v \<longrightarrow> version db k' = Some v' \<longrightarrow> vr_message v = vr_message v' \<longrightarrow>
        vr_number v = vr_number v' \<longrightarrow> k = k')"

definition snapshots_ok :: "conversation_db \<Rightarrow> bool" where
  "snapshots_ok db \<longleftrightarrow>
     fst ` set (cd_traces db) = fst ` set (cd_versions db) \<and>
     fst ` fst ` set (cd_citations db) \<subseteq> fst ` set (cd_versions db) \<and>
     (\<forall>((v, i), r)\<in>set (cd_images db). (v, sn_evidence r) \<in> fst ` set (cd_citations db)) \<and>
     (\<forall>c. cd_last db = Some c \<longrightarrow> conversation db c \<noteq> None)"

text \<open>The status an answer shows is that of its selected version, or it is still generated.\<close>

definition shown_ok :: "conversation_db \<Rightarrow> string \<Rightarrow> message_row \<Rightarrow> bool" where
  "shown_ok db k m \<longleftrightarrow>
     (case mg_selected m of
        None \<Rightarrow> mg_status m \<in> {''generating'', ''interrupted''} \<and> (\<forall>i v. version db i = Some v \<longrightarrow> vr_message v \<noteq> k)
      | Some i \<Rightarrow> \<exists>v. version db i = Some v \<and> vr_message v = k \<and> mg_status m \<in> {''generating'', vr_status v})"

definition answers_ok :: "conversation_db \<Rightarrow> bool" where
  "answers_ok db \<longleftrightarrow> (\<forall>k m. message db k = Some m \<longrightarrow> mg_role m = Assistant_Message \<longrightarrow> shown_ok db k m)"

definition one_running :: "conversation_db \<Rightarrow> bool" where
  "one_running db \<longleftrightarrow>
     (\<forall>k m k' m'. message db k = Some m \<longrightarrow> message db k' = Some m' \<longrightarrow> mg_conversation m = mg_conversation m' \<longrightarrow>
        mg_status m = ''generating'' \<longrightarrow> mg_status m' = ''generating'' \<longrightarrow> k = k')"

definition conversations_ok :: "conversation_db \<Rightarrow> bool" where
  "conversations_ok db \<longleftrightarrow>
     tables_keyed db \<and> messages_ok db \<and> versions_ok db \<and> snapshots_ok db \<and> answers_ok db \<and> one_running db"

lemma shown_ok_versions: "version db' = version db \<Longrightarrow> shown_ok db' k m = shown_ok db k m"
  by (cases "mg_selected m") (simp_all add: shown_ok_def)

subsection \<open>Changing messages\<close>

text \<open>What no operation changes of a message.\<close>

definition same_frame :: "message_row \<Rightarrow> message_row \<Rightarrow> bool" where
  "same_frame m m' \<longleftrightarrow>
     mg_conversation m' = mg_conversation m \<and> mg_ordinal m' = mg_ordinal m \<and> mg_role m' = mg_role m \<and>
     mg_content m' = mg_content m \<and> mg_reply m' = mg_reply m"

abbreviation update_messages where
  "update_messages P f db \<equiv> db\<lparr>cd_messages := update_where P f (cd_messages db)\<rparr>"

lemma update_messages_placed:
  assumes frame: "\<And>k r. message db k = Some r \<Longrightarrow> P k r \<Longrightarrow> same_frame r (f r) \<and> mg_role r = Assistant_Message"
    and placed: "message_placed db m"
  shows "message_placed (update_messages P f db) m"
proof -
  have look: "\<exists>r'. message (update_messages P f db) k = Some r' \<and> same_frame r r'" if "message db k = Some r" for k r
    using that frame [OF that] by (auto simp: same_frame_def)
  show ?thesis
  proof (cases "mg_role m")
    case User_Message
    with placed obtain k a where "message db k = Some a" "mg_conversation a = mg_conversation m" "mg_ordinal a = mg_ordinal m + 1"
      by (auto simp: message_placed_def)
    with look [of k a] User_Message placed show ?thesis
      by (auto simp: message_placed_def same_frame_def simp del: map_of_update_where)
  next
    case Assistant_Message
    with placed obtain k q where "mg_reply m = Some k" "message db k = Some q" "mg_role q = User_Message"
        "mg_conversation q = mg_conversation m" "mg_ordinal q = mg_ordinal m - 1"
      by (auto simp: message_placed_def)
    with look [of k q] Assistant_Message placed show ?thesis
      by (auto simp: message_placed_def same_frame_def simp del: map_of_update_where)
  qed
qed

lemma update_messages_ok:
  assumes frame: "\<And>k r. message db k = Some r \<Longrightarrow> P k r \<Longrightarrow> same_frame r (f r) \<and> mg_role r = Assistant_Message"
    and ok: "messages_ok db"
  shows "messages_ok (update_messages P f db)"
proof -
  have "message_placed db (if P k r then f r else r)" if r: "message db k = Some r" for k r
  proof -
    have "message_placed db r" using ok r by (simp add: messages_ok_def)
    then show ?thesis using frame [OF r] by (auto simp: message_placed_def same_frame_def)
  qed
  then have "message_placed (update_messages P f db) (if P k r then f r else r)" if "message db k = Some r" for k r
    using update_messages_placed [where P = P and f = f and db = db] frame that by blast
  then have placed: "message_placed (update_messages P f db) m" if "message (update_messages P f db) k = Some m" for k m
    using that by auto
  have kept: "mg_conversation (if P k r then f r else r) = mg_conversation r \<and> mg_ordinal (if P k r then f r else r) = mg_ordinal r"
    if "message db k = Some r" for k r using frame [OF that] by (simp add: same_frame_def)
  have "k = k'" if m: "message (update_messages P f db) k = Some m" "message (update_messages P f db) k' = Some m'"
    and same: "mg_conversation m = mg_conversation m'" "mg_ordinal m = mg_ordinal m'" for k m k' m'
  proof -
    from m obtain r r' where r: "message db k = Some r" "m = (if P k r then f r else r)"
      and r': "message db k' = Some r'" "m' = (if P k' r' then f r' else r')" by auto
    have "mg_conversation r = mg_conversation r'" "mg_ordinal r = mg_ordinal r'"
      using same kept [OF r(1)] kept [OF r'(1)] unfolding r(2) r'(2) by simp_all
    with ok r(1) r'(1) show "k = k'" unfolding messages_ok_def by blast
  qed
  with placed show ?thesis unfolding messages_ok_def by blast
qed

lemma update_messages_versions:
  assumes frame: "\<And>k r. message db k = Some r \<Longrightarrow> P k r \<Longrightarrow> same_frame r (f r) \<and> mg_role r = Assistant_Message"
    and ok: "versions_ok db"
  shows "versions_ok (update_messages P f db)"
proof -
  have "\<exists>m. message (update_messages P f db) (vr_message v) = Some m \<and> mg_role m = Assistant_Message" if "version db k = Some v" for k v
  proof -
    from ok that obtain m where "message db (vr_message v) = Some m" "mg_role m = Assistant_Message"
      unfolding versions_ok_def by blast
    with frame [of "vr_message v" m] show ?thesis by (auto simp: same_frame_def)
  qed
  with ok show ?thesis unfolding versions_ok_def by simp
qed

text \<open>
  A change of messages keeps the tables well formed when it keeps their frames, shows what
  the selected version says, and starts no second generation.
\<close>

lemma update_messages_conversations:
  assumes ok: "tables_keyed db \<and> messages_ok db \<and> versions_ok db \<and> snapshots_ok db \<and> one_running db"
    and others: "\<And>k r. message db k = Some r \<Longrightarrow> mg_role r = Assistant_Message \<Longrightarrow> \<not> P k r \<Longrightarrow> shown_ok db k r"
    and change: "\<And>k r. message db k = Some r \<Longrightarrow> P k r \<Longrightarrow>
      same_frame r (f r) \<and> mg_role r = Assistant_Message \<and> shown_ok db k (f r) \<and>
      (mg_status (f r) = ''generating'' \<longrightarrow>
         (\<forall>k' r'. message db k' = Some r' \<longrightarrow> mg_conversation r' = mg_conversation r \<longrightarrow> k' \<noteq> k \<longrightarrow>
            mg_status (if P k' r' then f r' else r') \<noteq> ''generating''))"
  shows "conversations_ok (update_messages P f db)"
proof -
  have frame: "\<And>k r. message db k = Some r \<Longrightarrow> P k r \<Longrightarrow> same_frame r (f r) \<and> mg_role r = Assistant_Message" using change by blast
  have "answers_ok (update_messages P f db)"
    unfolding answers_ok_def
  proof (intro allI impI)
    fix k m assume "message (update_messages P f db) k = Some m" "mg_role m = Assistant_Message"
    then obtain r where r: "message db k = Some r" and m: "m = (if P k r then f r else r)" by auto
    with \<open>mg_role m = Assistant_Message\<close> have "mg_role r = Assistant_Message" using frame [OF r] by (auto split: if_splits)
    with others [OF r] change [OF r] have "shown_ok db k m" by (auto simp: m)
    then show "shown_ok (update_messages P f db) k m" by (simp add: shown_ok_versions [of "update_messages P f db" db])
  qed
  moreover have "one_running (update_messages P f db)"
    unfolding one_running_def
  proof (intro allI impI)
    fix k m k' m'
    assume a: "message (update_messages P f db) k = Some m" "message (update_messages P f db) k' = Some m'"
      "mg_conversation m = mg_conversation m'" "mg_status m = ''generating''" "mg_status m' = ''generating''"
    then obtain r r' where r: "message db k = Some r" "m = (if P k r then f r else r)"
      and r': "message db k' = Some r'" "m' = (if P k' r' then f r' else r')" by auto
    have conv: "mg_conversation m = mg_conversation r" "mg_conversation m' = mg_conversation r'"
      using frame [OF r(1)] frame [OF r'(1)] r(2) r'(2) by (auto simp: same_frame_def)
    have stop: "False" if "k \<noteq> k'" "message db k = Some r" "message db k' = Some r'" "P k r" "mg_conversation r' = mg_conversation r"
      "mg_status (f r) = ''generating''" "mg_status (if P k' r' then f r' else r') = ''generating''" for k k' r r'
      using change [OF that(2,4)] that by blast
    show "k = k'"
    proof (rule ccontr)
      assume k: "k \<noteq> k'"
      consider "P k r" | "P k' r'" | "\<not> P k r" "\<not> P k' r'" by blast
      then show False
      proof cases
        case 1
        then show False using stop [OF k r(1) r'(1)] a(3,4,5) conv r(2) r'(2) by simp
      next
        case 2
        then show False using stop [OF k [symmetric] r'(1) r(1)] a(3,4,5) conv r(2) r'(2) by simp
      next
        case 3
        with a r r' have "mg_conversation r = mg_conversation r'" "mg_status r = ''generating''" "mg_status r' = ''generating''" by simp_all
        with ok r(1) r'(1) k show False unfolding one_running_def by blast
      qed
    qed
  qed
  moreover have "snapshots_ok (update_messages P f db)" "tables_keyed (update_messages P f db)"
    using ok by (simp_all add: snapshots_ok_def tables_keyed_def)
  ultimately show ?thesis
    using ok update_messages_ok [OF frame] update_messages_versions [OF frame] by (simp add: conversations_ok_def)
qed

subsection \<open>Inserting rows\<close>

lemma insert_rows_Inr:
  "insert_rows admitted rows t = Inr t' \<longleftrightarrow>
     t' = t @ rows \<and> (\<forall>(k, r)\<in>set rows. admitted k r) \<and> distinct (map fst rows) \<and> fst ` set rows \<inter> fst ` set t = {}"
proof (induction rows arbitrary: t)
  case (Cons row rows)
  obtain k r where row: "row = (k, r)" by (cases row)
  have "insert_rows admitted (row # rows) t = Inr t' \<longleftrightarrow>
      admitted k r \<and> k \<notin> fst ` set t \<and> insert_rows admitted rows (t @ [(k, r)]) = Inr t'"
    by (auto simp: row res_simps insert_row_Inr)
  then show ?case unfolding Cons.IH by (auto simp: row)
qed auto

lemma fold_max_bounds:
  fixes a :: "'a::linorder"
  shows "\<forall>x\<in>set xs. x \<le> fold max xs a" "a \<le> fold max xs a" "fold max xs a = a \<or> fold max xs a \<in> set xs"
proof -
  have m: "fold max xs a = Max (set (a # xs))" by (rule Max.set_eq_fold [symmetric])
  show "\<forall>x\<in>set xs. x \<le> fold max xs a" "a \<le> fold max xs a" by (simp_all add: m)
  have "Max (set (a # xs)) \<in> set (a # xs)" by (rule Max_in) simp_all
  then show "fold max xs a = a \<or> fold max xs a \<in> set xs" by (auto simp: m)
qed

lemma message_listed: "tables_keyed db \<Longrightarrow> m \<in> set (map snd (cd_messages db)) \<longleftrightarrow> (\<exists>k. message db k = Some m)"
  by (force simp: tables_keyed_def image_iff map_of_eq_Some_iff)

lemma version_listed: "tables_keyed db \<Longrightarrow> v \<in> set (map snd (cd_versions db)) \<longleftrightarrow> (\<exists>k. version db k = Some v)"
  by (force simp: tables_keyed_def image_iff map_of_eq_Some_iff)

lemma next_ordinal_new:
  assumes "tables_keyed db" "message db k = Some m" "mg_conversation m = cid"
  shows "mg_ordinal m < next_ordinal db cid"
proof -
  have "m \<in> set (map snd (cd_messages db))" using assms message_listed by blast
  then have "mg_ordinal m \<in> set (map mg_ordinal (filter (\<lambda>m. mg_conversation m = cid) (map snd (cd_messages db))))"
    using assms(3) by auto
  with fold_max_bounds(1) [of _ "- 1"] show ?thesis unfolding next_ordinal_def by fastforce
qed

lemma next_ordinal_even:
  assumes "tables_keyed db" "messages_ok db"
  shows "0 \<le> next_ordinal db cid \<and> even (next_ordinal db cid)"
proof -
  let ?os = "map mg_ordinal (filter (\<lambda>m. mg_conversation m = cid) (map snd (cd_messages db)))"
  have n: "next_ordinal db cid = fold max ?os (- 1) + 1" by (simp add: next_ordinal_def)
  from fold_max_bounds(3) [of ?os "- 1"] show ?thesis
  proof
    assume "fold max ?os (- 1) \<in> set ?os"
    then obtain m where "m \<in> set (map snd (cd_messages db))" and m: "mg_conversation m = cid" "mg_ordinal m = next_ordinal db cid - 1"
      unfolding n by force
    then obtain k where k: "message db k = Some m" using message_listed [OF assms(1)] by blast
    with assms(2) have placed: "message_placed db m" by (simp add: messages_ok_def)
    have "mg_role m = Assistant_Message"
    proof (rule ccontr)
      assume "mg_role m \<noteq> Assistant_Message"
      then have "mg_role m = User_Message" by (cases "mg_role m") simp_all
      with placed obtain k' a where "message db k' = Some a" "mg_conversation a = cid" "mg_ordinal a = next_ordinal db cid"
        using m by (auto simp: message_placed_def)
      with next_ordinal_new [OF assms(1)] show False by force
    qed
    with placed m show ?thesis by (auto simp: message_placed_def)
  qed (simp add: n)
qed

lemma next_version_number_new:
  assumes "tables_keyed db" "version db k = Some v" "vr_message v = mid"
  shows "vr_number v < next_version_number db mid"
proof -
  have "v \<in> set (map snd (cd_versions db))" using assms version_listed by blast
  then have "vr_number v \<in> set (map vr_number (filter (\<lambda>v. vr_message v = mid) (map snd (cd_versions db))))"
    using assms(3) by auto
  with fold_max_bounds(1) [of _ 0] show ?thesis unfolding next_version_number_def by fastforce
qed

lemma next_version_number_last:
  assumes "tables_keyed db"
  shows "1 \<le> next_version_number db mid \<and> (next_version_number db mid = 1 \<or>
    (\<exists>k v. version db k = Some v \<and> vr_message v = mid \<and> vr_number v = next_version_number db mid - 1))"
proof -
  let ?ns = "map vr_number (filter (\<lambda>v. vr_message v = mid) (map snd (cd_versions db)))"
  have n: "next_version_number db mid = fold max ?ns 0 + 1" by (simp add: next_version_number_def)
  from fold_max_bounds(3) [of ?ns 0] show ?thesis
  proof
    assume "fold max ?ns 0 \<in> set ?ns"
    then obtain v where v: "v \<in> set (map snd (cd_versions db))" "vr_message v = mid" "vr_number v = next_version_number db mid - 1"
      unfolding n by force
    then show ?thesis using version_listed [OF assms] fold_max_bounds(2) [of 0 ?ns] unfolding n by fastforce
  qed (simp add: n)
qed

subsection \<open>The operations\<close>

lemma conversations_table_ok:
  assumes "conversations_ok db" "table_ok cs" "\<And>c. conversation db c \<noteq> None \<Longrightarrow> map_of cs c \<noteq> None"
    "\<forall>c. latest = Some c \<longrightarrow> map_of cs c \<noteq> None"
  shows "conversations_ok (db\<lparr>cd_conversations := cs, cd_last := latest\<rparr>)"
proof -
  let ?db = "db\<lparr>cd_conversations := cs, cd_last := latest\<rparr>"
  have "message_placed ?db m" if "message_placed db m" for m
    using that assms(3) by (auto simp: message_placed_def split: message_role.splits)
  moreover have "shown_ok ?db k m \<longleftrightarrow> shown_ok db k m" for k m by (rule shown_ok_versions) simp
  ultimately show ?thesis
    using assms(1,2,4)
    by (simp add: conversations_ok_def tables_keyed_def messages_ok_def versions_ok_def snapshots_ok_def answers_ok_def one_running_def)
qed

lemma last_known: "conversations_ok db \<Longrightarrow> \<forall>c. cd_last db = Some c \<longrightarrow> conversation db c \<noteq> None"
  by (simp add: conversations_ok_def snapshots_ok_def)

lemma create_conversation_ok:
  assumes "conversations_ok db" "create_conversation cid title now db = Inr db'"
  shows "conversations_ok db' \<and> cd_messages db' = cd_messages db"
proof -
  from assms(2) obtain row where new: "cid \<notin> fst ` set (cd_conversations db)"
    and db': "db' = db\<lparr>cd_conversations := cd_conversations db @ [(cid, row)], cd_last := Some cid\<rparr>"
    by (auto simp: create_conversation_def Let_def res_simps insert_row_Inr select_conversation_def)
  have "conversations_ok db'" unfolding db'
    by (rule conversations_table_ok [OF assms(1)]) (use assms(1) new in \<open>auto simp: conversations_ok_def tables_keyed_def map_of_append map_add_def split: option.split\<close>)
  then show ?thesis by (simp add: db')
qed

lemma update_conversation_ok:
  assumes "conversations_ok db" "update_conversation cid f db = Inr db'"
  shows "conversations_ok db' \<and> cd_messages db' = cd_messages db"
proof -
  from assms(2) have db': "db' = db\<lparr>cd_conversations := update_where (\<lambda>k r. k = cid) f (cd_conversations db), cd_last := cd_last db\<rparr>"
    by (auto simp: update_conversation_def conversation_error_def split: if_splits)
  have "conversations_ok db'" unfolding db'
    by (rule conversations_table_ok [OF assms(1)])
      (use assms(1) last_known [OF assms(1)] in \<open>auto simp: conversations_ok_def tables_keyed_def split: option.splits\<close>)
  then show ?thesis by (simp add: db')
qed

lemma select_conversation_ok:
  assumes "conversations_ok db" "conversation db cid \<noteq> None"
  shows "conversations_ok (select_conversation cid db)"
  using conversations_table_ok [OF assms(1), of "cd_conversations db" "Some cid"] assms
  by (simp add: select_conversation_def conversations_ok_def tables_keyed_def)

lemma map_of_filter_row:
  "table_ok t \<Longrightarrow> map_of (filter P t) k = Some r \<longleftrightarrow> map_of t k = Some r \<and> P (k, r)"
proof -
  assume t: "table_ok t"
  then have "table_ok (filter P t)" by simp
  from table_row [OF this, of k r] table_row [OF t, of k r] show ?thesis by auto
qed

lemma delete_conversation_ok:
  assumes ok: "conversations_ok db" and deleted: "delete_conversation cid db = Inr db'"
  shows "conversations_ok db' \<and> (\<forall>k m. message db' k = Some m \<longleftrightarrow> message db k = Some m \<and> mg_conversation m \<noteq> cid)"
proof -
  define ms where "ms = filter (\<lambda>(k, m). mg_conversation m \<noteq> cid) (cd_messages db)"
  define vs where "vs = filter (\<lambda>(k, v). vr_message v \<in> fst ` set ms) (cd_versions db)"
  from deleted have db': "db' = \<lparr>cd_conversations = filter (\<lambda>(k, r). k \<noteq> cid) (cd_conversations db), cd_messages = ms, cd_versions = vs,
      cd_citations = filter (\<lambda>(k, r). fst k \<in> fst ` set vs) (cd_citations db),
      cd_traces = filter (\<lambda>(k, r). k \<in> fst ` set vs) (cd_traces db),
      cd_images = filter (\<lambda>(k, r). fst k \<in> fst ` set vs) (cd_images db), cd_last = (if cd_last db = Some cid then None else cd_last db)\<rparr>"
    by (auto simp: delete_conversation_def conversation_error_def Let_def ms_def vs_def split: if_splits)
  from ok have keyed: "tables_keyed db" by (simp add: conversations_ok_def)
  then have keyed': "tables_keyed db'" by (simp add: tables_keyed_def db' ms_def vs_def)
  have m: "message db' k = Some m \<longleftrightarrow> message db k = Some m \<and> mg_conversation m \<noteq> cid" for k m
    using keyed by (simp add: db' ms_def tables_keyed_def map_of_filter_row)
  have kept: "k \<in> fst ` set ms \<longleftrightarrow> (\<exists>m. message db k = Some m \<and> mg_conversation m \<noteq> cid)" for k
    using keyed by (force simp: ms_def tables_keyed_def map_of_eq_Some_iff image_iff)
  have v: "version db' k = Some r \<longleftrightarrow> version db k = Some r \<and> vr_message r \<in> fst ` set ms" for k r
    using keyed by (simp add: db' vs_def tables_keyed_def map_of_filter_row)
  have c: "conversation db' k = Some r \<longleftrightarrow> conversation db k = Some r \<and> k \<noteq> cid" for k r
    using keyed by (simp add: db' tables_keyed_def map_of_filter_row)
  have placed: "message_placed db' r" if r: "message db k = Some r" "mg_conversation r \<noteq> cid" for k r
  proof -
    have "message_placed db r" using ok r(1) by (simp add: conversations_ok_def messages_ok_def)
    then show ?thesis using r(2) unfolding message_placed_def m c by (cases "mg_role r") (simp_all add: c, metis+)
  qed
  have messages: "messages_ok db'"
    using ok placed unfolding conversations_ok_def messages_ok_def m by blast
  have versions: "versions_ok db'"
    unfolding versions_ok_def
  proof (intro conjI allI impI)
    fix k r assume "version db' k = Some r"
    then have r: "version db k = Some r" "vr_message r \<in> fst ` set ms" by (simp_all add: v)
    from ok r(1) have old: "\<exists>m. message db (vr_message r) = Some m \<and> mg_role m = Assistant_Message"
      "vr_status r \<in> {''completed'', ''interrupted''}" "1 \<le> vr_number r"
      "vr_number r = 1 \<or> (\<exists>k' v'. version db k' = Some v' \<and> vr_message v' = vr_message r \<and> vr_number v' = vr_number r - 1)"
      unfolding conversations_ok_def versions_ok_def by blast+
    show "\<exists>m. message db' (vr_message r) = Some m \<and> mg_role m = Assistant_Message" using old(1) r(2) by (auto simp: m kept)
    show "vr_status r \<in> {''completed'', ''interrupted''}" "1 \<le> vr_number r" by fact+
    show "vr_number r = 1 \<or> (\<exists>k' v'. version db' k' = Some v' \<and> vr_message v' = vr_message r \<and> vr_number v' = vr_number r - 1)"
      using old(4) r(2) unfolding v by metis
  next
    fix k r k' r' assume "version db' k = Some r" "version db' k' = Some r'" "vr_message r = vr_message r'" "vr_number r = vr_number r'"
    then show "k = k'" using ok unfolding v conversations_ok_def versions_ok_def by blast
  qed
  have traces: "fst ` set (cd_traces db) = fst ` set (cd_versions db)"
    and citations: "fst ` fst ` set (cd_citations db) \<subseteq> fst ` set (cd_versions db)"
    and images: "\<forall>((v, i), r)\<in>set (cd_images db). (v, sn_evidence r) \<in> fst ` set (cd_citations db)"
    using ok by (simp_all add: conversations_ok_def snapshots_ok_def)
  have "fst ` set vs \<subseteq> fst ` set (cd_versions db)" by (auto simp: vs_def)
  moreover have "fst ` set (filter (\<lambda>(k, r). k \<in> A) t) = fst ` set t \<inter> A" for A and t :: "(string \<times> string) list" by force
  ultimately have "fst ` set (cd_traces db') = fst ` set (cd_versions db')" using traces by (simp add: db' Int_absorb1)
  moreover have "fst ` fst ` set (cd_citations db') \<subseteq> fst ` set (cd_versions db')" by (force simp: db')
  moreover have "\<forall>((v, i), r)\<in>set (cd_images db'). (v, sn_evidence r) \<in> fst ` set (cd_citations db')"
    using images by (force simp: db')
  moreover have "\<forall>c. cd_last db' = Some c \<longrightarrow> conversation db' c \<noteq> None"
    using last_known [OF ok] c by (auto simp: db')
  ultimately have snapshots: "snapshots_ok db'" by (simp add: snapshots_ok_def)
  have "shown_ok db' k r" if r: "message db k = Some r" "mg_conversation r \<noteq> cid" "mg_role r = Assistant_Message" for k r
  proof -
    have "shown_ok db k r" using ok r by (simp add: conversations_ok_def answers_ok_def)
    moreover have "k \<in> fst ` set ms" using r kept by blast
    ultimately show ?thesis by (auto simp: shown_ok_def v split: option.splits)
  qed
  then have "answers_ok db'" unfolding answers_ok_def m by blast
  moreover have "one_running db'" using ok unfolding conversations_ok_def one_running_def m by blast
  ultimately show ?thesis using keyed' messages versions snapshots m by (simp add: conversations_ok_def)
qed

lemma running_message:
  assumes "tables_keyed db" "\<not> has_running_message db cid" "message db k = Some m" "mg_conversation m = cid"
  shows "mg_status m \<noteq> ''generating''"
  using assms by (auto simp: has_running_message_def list_ex_iff tables_keyed_def map_of_eq_Some_iff)

lemma message_new: "k \<notin> fst ` set (cd_messages db) \<longleftrightarrow> message db k = None"
  by (simp add: map_of_eq_None_iff)

lemma begin_turn_ok:
  assumes ok: "conversations_ok db" and begun: "begin_turn catalog cid question u a now db = Inr (result, db')"
  shows "conversations_ok db' \<and> message db u = None \<and> message db a = None \<and>
    (\<exists>qm am. message db' = (message db)(u \<mapsto> qm, a \<mapsto> am) \<and> u \<noteq> a \<and> mg_role am = Assistant_Message \<and> mg_selected am = None \<and>
       mg_role qm = User_Message \<and> mg_status qm = ''completed'')"
proof -
  define n where "n = next_ordinal db cid"
  define qm where "qm = \<lparr>mg_conversation = cid, mg_ordinal = n, mg_role = User_Message, mg_content = question,
      mg_status = ''completed'', mg_reply = None, mg_selected = None, mg_created = now, mg_updated = now\<rparr>"
  define am where "am = \<lparr>mg_conversation = cid, mg_ordinal = n + 1, mg_role = Assistant_Message, mg_content = [],
      mg_status = ''generating'', mg_reply = Some u, mg_selected = None, mg_created = now, mg_updated = now\<rparr>"
  define db2 where "db2 = db\<lparr>cd_messages := cd_messages db @ [(u, qm), (a, am)]\<rparr>"
  from begun obtain f db3 where cid: "conversation db cid \<noteq> None" and idle: "\<not> has_running_message db cid"
    and new_keys: "u \<notin> fst ` set (cd_messages db)" "a \<notin> fst ` set (cd_messages db)" "u \<noteq> a"
    and db3: "update_conversation cid f db2 = Inr db3" and db': "db' = select_conversation cid db3"
    by (auto simp: begin_turn_def find_row_def conversation_error_def Let_def res_simps insert_message_def insert_row_Inr
        db2_def qm_def am_def n_def split: option.splits if_splits)
  then have u: "message db u = None" and a: "message db a = None" "u \<noteq> a" by (simp_all add: message_new)
  from ok have keyed: "tables_keyed db" and msgs: "messages_ok db" and vers: "versions_ok db"
    by (simp_all add: conversations_ok_def)
  have n: "0 \<le> n" "even n" using next_ordinal_even [OF keyed msgs] by (simp_all add: n_def)
  have fresh: "mg_ordinal m < n" if "message db k = Some m" "mg_conversation m = cid" for k m
    using next_ordinal_new [OF keyed that] by (simp add: n_def)
  have look: "message db2 = (message db)(u \<mapsto> qm, a \<mapsto> am)"
    using u a by (auto simp: db2_def map_of_append map_add_def fun_eq_iff split: option.split)
  have same: "conversation db2 = conversation db" "version db2 = version db" by (simp_all add: db2_def)
  have keyed2: "tables_keyed db2" using keyed new_keys by (simp add: tables_keyed_def db2_def)
  have more: "message db2 k = Some m" if "message db k = Some m" for k m using that u a by (auto simp: look)
  have old: "message_placed db2 m" if "message db k = Some m" for k m
  proof -
    have "message_placed db m" using msgs that by (simp add: messages_ok_def)
    with more show ?thesis unfolding message_placed_def same by (cases "mg_role m") (simp_all, blast+)
  qed
  have new: "message_placed db2 qm" "message_placed db2 am"
    using cid n a(2) unfolding message_placed_def same by (auto simp: qm_def am_def look)
  have "messages_ok db2"
    unfolding messages_ok_def
  proof (intro conjI allI impI)
    fix k m assume "message db2 k = Some m"
    then show "message_placed db2 m" using old new by (auto simp: look split: if_splits)
  next
    fix k m k' m'
    assume "message db2 k = Some m" "message db2 k' = Some m'" "mg_conversation m = mg_conversation m'" "mg_ordinal m = mg_ordinal m'"
    then show "k = k'"
      using fresh [of k m] fresh [of k' m'] msgs
      by (auto simp: look qm_def am_def messages_ok_def split: if_splits)
  qed
  moreover have "versions_ok db2"
    using vers more unfolding versions_ok_def same by blast
  moreover have "snapshots_ok db2" using ok by (simp add: conversations_ok_def snapshots_ok_def db2_def)
  moreover have "answers_ok db2"
    unfolding answers_ok_def
  proof (intro allI impI)
    fix k m assume k: "message db2 k = Some m" "mg_role m = Assistant_Message"
    show "shown_ok db2 k m"
    proof (cases "k = a")
      case True
      with k have "m = am" by (simp add: look)
      moreover have "vr_message v \<noteq> a" if "version db i = Some v" for i v
        using vers that a(1) unfolding versions_ok_def by fastforce
      ultimately show ?thesis using True by (simp add: shown_ok_def am_def same)
    next
      case False
      with k have "message db k = Some m" by (auto simp: look qm_def split: if_splits)
      with ok k(2) have "shown_ok db k m" by (simp add: conversations_ok_def answers_ok_def)
      then show ?thesis by (simp only: shown_ok_versions [OF same(2)])
    qed
  qed
  moreover have "one_running db2"
    using ok running_message [OF keyed idle]
    by (auto simp: conversations_ok_def one_running_def look qm_def am_def split: if_splits)
  ultimately have ok2: "conversations_ok db2" using keyed2 by (simp add: conversations_ok_def)
  from update_conversation_ok [OF ok2 db3] have ok3: "conversations_ok db3" "cd_messages db3 = cd_messages db2" by simp_all
  have "conversation db3 cid \<noteq> None" using db3 cid by (auto simp: update_conversation_def conversation_error_def same split: if_splits)
  then have "conversations_ok db'" unfolding db' by (rule select_conversation_ok [OF ok3(1)])
  moreover have "message db' = (message db)(u \<mapsto> qm, a \<mapsto> am)" by (simp add: db' select_conversation_def ok3(2) look)
  moreover have "mg_role am = Assistant_Message" "mg_selected am = None" "mg_role qm = User_Message" "mg_status qm = ''completed''"
    by (simp_all add: qm_def am_def)
  ultimately show ?thesis using u a by blast
qed

lemma update_message_eq: "update_message mid f db = update_messages (\<lambda>k r. k = mid) f db"
  by (simp add: update_message_def)

lemma begin_regeneration_ok:
  assumes ok: "conversations_ok db" and begun: "begin_regeneration catalog cid mid now db = Inr (result, db')"
  shows "conversations_ok db' \<and> (\<exists>m f. message db mid = Some m \<and> mg_role m = Assistant_Message \<and> mg_selected m \<noteq> None \<and>
    db' = update_message mid f db \<and> (\<forall>r. same_frame r (f r) \<and> mg_selected (f r) = mg_selected r))"
proof -
  let ?f = "\<lambda>r. r\<lparr>mg_status := ''generating'', mg_updated := now\<rparr>"
  from begun obtain m where m: "message db mid = Some m" "mg_conversation m = cid" "mg_role m = Assistant_Message" "mg_selected m \<noteq> None"
    and idle: "\<not> has_running_message db cid" and db': "db' = update_message mid ?f db"
    by (auto simp: begin_regeneration_def conversation_error_def Let_def res_simps split: if_splits option.splits)
  from ok have parts: "tables_keyed db \<and> messages_ok db \<and> versions_ok db \<and> snapshots_ok db \<and> one_running db"
    and shown: "answers_ok db" by (simp_all add: conversations_ok_def)
  have "conversations_ok (update_messages (\<lambda>k r. k = mid) ?f db)"
  proof (rule update_messages_conversations [OF parts])
    fix k r assume "message db k = Some r" "mg_role r = Assistant_Message"
    then show "shown_ok db k r" using shown by (simp add: answers_ok_def)
  next
    fix k r assume k: "message db k = Some r" "k = mid"
    with m have r: "r = m" by simp
    have "shown_ok db k m" using shown m k by (simp add: answers_ok_def)
    then have "shown_ok db k (?f r)" using m(4) by (auto simp: shown_ok_def r)
    moreover have "mg_status r' \<noteq> ''generating''" if "message db k' = Some r'" "mg_conversation r' = mg_conversation r" for k' r'
      using running_message [OF _ idle that(1)] parts that(2) m(2) by (simp add: r)
    ultimately show "same_frame r (?f r) \<and> mg_role r = Assistant_Message \<and> shown_ok db k (?f r) \<and>
      (mg_status (?f r) = ''generating'' \<longrightarrow> (\<forall>k' r'. message db k' = Some r' \<longrightarrow> mg_conversation r' = mg_conversation r \<longrightarrow> k' \<noteq> k \<longrightarrow>
         mg_status (if k' = mid then ?f r' else r') \<noteq> ''generating''))"
      using k m by (auto simp: same_frame_def)
  qed
  then show ?thesis using m unfolding db' update_message_eq by (intro conjI exI [of _ m] exI [of _ ?f]) (simp_all add: same_frame_def)
qed

lemma settle_messages_ok:
  assumes ok: "conversations_ok db"
    and settled: "\<And>k r. message db k = Some r \<Longrightarrow> P k r \<Longrightarrow>
      same_frame r (f r) \<and> mg_role r = Assistant_Message \<and> shown_ok db k (f r) \<and> mg_status (f r) \<noteq> ''generating''"
  shows "conversations_ok (update_messages P f db)"
proof (rule update_messages_conversations)
  show "tables_keyed db \<and> messages_ok db \<and> versions_ok db \<and> snapshots_ok db \<and> one_running db"
    using ok by (simp add: conversations_ok_def)
qed (use ok settled in \<open>auto simp: conversations_ok_def answers_ok_def\<close>)

lemma selected_status_settled:
  assumes "conversations_ok db" "message db k = Some r" "mg_role r = Assistant_Message"
  shows "selected_status db r \<noteq> ''generating'' \<and> shown_ok db k (r\<lparr>mg_status := selected_status db r, mg_updated := now\<rparr>)"
proof -
  have shown: "shown_ok db k r" using assms by (simp add: conversations_ok_def answers_ok_def)
  show ?thesis
  proof (cases "mg_selected r")
    case None
    with shown show ?thesis by (simp add: shown_ok_def selected_status_def)
  next
    case (Some i)
    with shown obtain v where v: "version db i = Some v" "vr_message v = k" by (auto simp: shown_ok_def)
    with assms(1) have "vr_status v \<noteq> ''generating''" unfolding conversations_ok_def versions_ok_def by fastforce
    with v Some show ?thesis by (simp add: shown_ok_def selected_status_def)
  qed
qed

lemma restore_selected_status_ok:
  assumes "conversations_ok db" "\<And>m. message db mid = Some m \<Longrightarrow> mg_role m = Assistant_Message"
  shows "conversations_ok (restore_selected_status mid now db)"
  unfolding restore_selected_status_def update_message_eq
  by (rule settle_messages_ok [OF assms(1)]) (use assms selected_status_settled in \<open>auto simp: same_frame_def\<close>)

lemma user_completed:
  assumes "conversations_ok db" "message db k = Some r" "mg_role r = User_Message"
  shows "mg_status r = ''completed''"
proof -
  from assms have "message_placed db r" by (simp add: conversations_ok_def messages_ok_def)
  with assms(3) show ?thesis by (simp add: message_placed_def)
qed

lemma recover_generating_messages_ok:
  assumes "conversations_ok db"
  shows "conversations_ok (recover_generating_messages now db)"
  unfolding recover_generating_messages_def
proof (rule settle_messages_ok [OF assms])
  fix k r assume r: "message db k = Some r" "mg_status r = ''generating''"
  then have "mg_role r = Assistant_Message" using user_completed [OF assms r(1)] by (cases "mg_role r") auto
  with selected_status_settled [OF assms r(1)]
  show "same_frame r (r\<lparr>mg_status := selected_status db r, mg_updated := now\<rparr>) \<and> mg_role r = Assistant_Message \<and>
      shown_ok db k (r\<lparr>mg_status := selected_status db r, mg_updated := now\<rparr>) \<and>
      mg_status (r\<lparr>mg_status := selected_status db r, mg_updated := now\<rparr>) \<noteq> ''generating''"
    by (simp add: same_frame_def)
qed

lemma mark_generation_failed_ok:
  assumes "conversations_ok db" "\<And>m. message db mid = Some m \<Longrightarrow> mg_role m = Assistant_Message \<and> mg_selected m = None"
  shows "conversations_ok (mark_generation_failed mid now db)"
  unfolding mark_generation_failed_def update_message_eq
proof (rule settle_messages_ok [OF assms(1)])
  fix k r assume r: "message db k = Some r" "k = mid"
  with assms(2) have m: "mg_role r = Assistant_Message" "mg_selected r = None" by auto
  then have "shown_ok db k r" using assms(1) r by (simp add: conversations_ok_def answers_ok_def)
  with m show "same_frame r (r\<lparr>mg_status := ''interrupted'', mg_updated := now\<rparr>) \<and> mg_role r = Assistant_Message \<and>
      shown_ok db k (r\<lparr>mg_status := ''interrupted'', mg_updated := now\<rparr>) \<and>
      mg_status (r\<lparr>mg_status := ''interrupted'', mg_updated := now\<rparr>) \<noteq> ''generating''"
    by (simp add: same_frame_def shown_ok_def)
qed

lemma select_answer_version_ok:
  assumes ok: "conversations_ok db" and selected: "select_answer_version cid mid vid now db = Inr db'"
  shows "conversations_ok db' \<and> (\<exists>f. db' = update_message mid f db \<and> (\<forall>r. same_frame r (f r) \<and> mg_status (f r) \<noteq> ''generating'')) \<and>
    (\<exists>v. version db vid = Some v \<and> vr_message v = mid)"
proof -
  from selected obtain v m where v: "version db vid = Some v" "vr_message v = mid" and m: "message db mid = Some m"
    and db': "db' = update_message mid (\<lambda>r. r\<lparr>mg_selected := Some vid, mg_status := vr_status v, mg_updated := now\<rparr>) db"
    by (auto simp: select_answer_version_def conversation_error_def split: option.splits if_splits)
  from ok v m have role: "mg_role m = Assistant_Message" and status: "vr_status v \<noteq> ''generating''"
    unfolding conversations_ok_def versions_ok_def by fastforce+
  have "conversations_ok db'" unfolding db' update_message_eq
    by (rule settle_messages_ok [OF ok]) (use v m role status in \<open>auto simp: same_frame_def shown_ok_def\<close>)
  moreover have "\<forall>r. same_frame r (r\<lparr>mg_selected := Some vid, mg_status := vr_status v, mg_updated := now\<rparr>) \<and>
      mg_status (r\<lparr>mg_selected := Some vid, mg_status := vr_status v, mg_updated := now\<rparr>) \<noteq> ''generating''"
    using status by (intro allI) (simp add: same_frame_def)
  ultimately show ?thesis using v unfolding db' by (intro conjI exI) (assumption | rule refl)+
qed

lemma insert_table_ok:
  "insert_rows admitted rows t = Inr t' \<Longrightarrow> table_ok t \<Longrightarrow> table_ok t'"
  "insert_row b k r t = Inr t' \<Longrightarrow> table_ok t \<Longrightarrow> table_ok t'"
  by (auto simp: insert_rows_Inr insert_row_Inr)

lemma insert_answer_version_Inr:
  assumes "insert_answer_version relative vid mid number a db = Inr db'"
  shows "db' = db\<lparr>cd_versions := cd_versions db @ [(vid, version_of_answer mid number a)],
      cd_citations := cd_citations db @ map (\<lambda>(i, r). ((vid, er_id r), citation_of i r)) (enumerate 0 (ga_citations a)),
      cd_traces := cd_traces db @ [(vid, json_text (trace_as_dict (ga_trace a)))],
      cd_images := cd_images db @ map (\<lambda>(i, image). ((vid, ai_id image), image_of relative i image)) (enumerate 0 (ga_images a))\<rparr>"
    and "ga_status a \<in> {''completed'', ''interrupted''}" "vid \<notin> fst ` set (cd_versions db)"
    and "tables_keyed db \<Longrightarrow> tables_keyed db'"
    and "\<forall>(k, r)\<in>set (map (\<lambda>(i, image). ((vid, ai_id image), image_of relative i image)) (enumerate 0 (ga_images a))).
      (vid, sn_evidence r) \<in> fst ` set (cd_citations db')"
proof -
  let ?citations = "map (\<lambda>(i, r). ((vid, er_id r), citation_of i r)) (enumerate 0 (ga_citations a))"
  let ?images = "map (\<lambda>(i, image). ((vid, ai_id image), image_of relative i image)) (enumerate 0 (ga_images a))"
  from assms obtain versions citations traces images
    where v: "insert_row (ga_status a \<in> {''completed'', ''interrupted''} \<and>
         (\<forall>(k, v)\<in>set (cd_versions db). \<not> (vr_message v = mid \<and> vr_number v = number)))
       vid (version_of_answer mid number a) (cd_versions db) = Inr versions"
    and c: "insert_rows (\<lambda>k r. True) ?citations (cd_citations db) = Inr citations"
    and t: "insert_row True vid (json_text (trace_as_dict (ga_trace a))) (cd_traces db) = Inr traces"
    and i: "insert_rows (\<lambda>k r. (vid, sn_evidence r) \<in> fst ` set citations) ?images (cd_images db) = Inr images"
    and db': "db' = db\<lparr>cd_versions := versions, cd_citations := citations, cd_traces := traces, cd_images := images\<rparr>"
    unfolding insert_answer_version_def res_bind_Inr_iff by blast
  note keys = insert_table_ok(2) [OF v] insert_table_ok(1) [OF c] insert_table_ok(2) [OF t] insert_table_ok(1) [OF i]
  note v = v [unfolded insert_row_Inr] and c = c [unfolded insert_rows_Inr] and t = t [unfolded insert_row_Inr] and i = i [unfolded insert_rows_Inr]
  show "db' = db\<lparr>cd_versions := cd_versions db @ [(vid, version_of_answer mid number a)], cd_citations := cd_citations db @ ?citations,
      cd_traces := cd_traces db @ [(vid, json_text (trace_as_dict (ga_trace a)))], cd_images := cd_images db @ ?images\<rparr>"
    using v c t i db' by simp
  show "ga_status a \<in> {''completed'', ''interrupted''}" "vid \<notin> fst ` set (cd_versions db)" using v by blast+
  show "\<forall>(k, r)\<in>set ?images. (vid, sn_evidence r) \<in> fst ` set (cd_citations db')" using i db' by simp
  assume "tables_keyed db"
  then have "table_ok versions" "table_ok citations" "table_ok traces" "table_ok images"
    unfolding tables_keyed_def using keys by blast+
  with \<open>tables_keyed db\<close> show "tables_keyed db'" by (simp add: tables_keyed_def db')
qed

lemma append_answer_version_ok:
  assumes ok: "conversations_ok db" and appended: "append_answer_version relative vid mid a True now db = Inr db'"
  shows "conversations_ok db' \<and> (\<exists>f. cd_messages db' = update_where (\<lambda>k r. k = mid) f (cd_messages db) \<and> (\<forall>r. same_frame r (f r) \<and>
      mg_selected (f r) = Some vid \<and> mg_status (f r) \<noteq> ''generating''))"
proof -
  define n where "n = next_version_number db mid"
  define f where "f = (\<lambda>r :: message_row. r\<lparr>mg_selected := Some vid, mg_status := ga_status a, mg_updated := now\<rparr>)"
  from appended obtain m db1 where m: "message db mid = Some m" "mg_role m = Assistant_Message"
    and db1: "insert_answer_version relative vid mid n a db = Inr db1"
    and db': "db' = (update_message mid f db1)\<lparr>cd_conversations := update_where (\<lambda>k r. k = mg_conversation m)
        (\<lambda>r. r\<lparr>cv_updated := now\<rparr>) (cd_conversations db1)\<rparr>"
    by (auto simp: append_answer_version_def conversation_error_def Let_def res_simps n_def f_def update_message_def
        split: option.splits if_splits)
  note ins = insert_answer_version_Inr [OF db1]
  from ok have keyed: "tables_keyed db" and msgs: "messages_ok db" and vers: "versions_ok db" and snaps: "snapshots_ok db"
    and run: "one_running db" and shown: "answers_ok db" by (simp_all add: conversations_ok_def)
  have same: "cd_messages db1 = cd_messages db" "cd_conversations db1 = cd_conversations db" "cd_last db1 = cd_last db"
    by (simp_all add: ins(1))
  have new: "version db vid = None" using ins(3) by (simp add: map_of_eq_None_iff)
  have look: "version db1 = (version db)(vid \<mapsto> version_of_answer mid n a)"
    using new by (auto simp: ins(1) map_of_append map_add_def fun_eq_iff split: option.split)
  have more: "version db1 k = Some v" if "version db k = Some v" for k v using that new by (auto simp: look)
  have "messages_ok db1" using msgs by (simp add: messages_ok_def message_placed_def same cong: message_role.case_cong)
  moreover have "versions_ok db1"
    unfolding versions_ok_def
  proof (intro conjI allI impI)
    fix k v assume k: "version db1 k = Some v"
    show "\<exists>m. message db1 (vr_message v) = Some m \<and> mg_role m = Assistant_Message"
      using k m vers unfolding same versions_ok_def by (auto simp: look version_of_answer_def split: if_splits)
    show "vr_status v \<in> {''completed'', ''interrupted''}"
      using k ins(2) vers unfolding versions_ok_def by (auto simp: look version_of_answer_def split: if_splits)
    show "1 \<le> vr_number v"
      using k next_version_number_last [OF keyed, of mid] vers unfolding versions_ok_def
      by (auto simp: look version_of_answer_def n_def split: if_splits)
    show "vr_number v = 1 \<or> (\<exists>k' v'. version db1 k' = Some v' \<and> vr_message v' = vr_message v \<and> vr_number v' = vr_number v - 1)"
    proof (cases "k = vid")
      case True
      with k have "v = version_of_answer mid n a" by (simp add: look)
      then show ?thesis using next_version_number_last [OF keyed, of mid] more by (auto simp: version_of_answer_def n_def)
    next
      case False
      with k have "version db k = Some v" by (simp add: look)
      with vers more show ?thesis unfolding versions_ok_def by blast
    qed
  next
    fix k v k' v' assume kv: "version db1 k = Some v" "version db1 k' = Some v'" "vr_message v = vr_message v'" "vr_number v = vr_number v'"
    then show "k = k'"
      using vers next_version_number_new [OF keyed, of k v mid] next_version_number_new [OF keyed, of k' v' mid]
      by (auto simp: look version_of_answer_def n_def versions_ok_def split: if_splits)
  qed
  moreover have "snapshots_ok db1"
  proof -
    have "fst ` set (cd_traces db1) = fst ` set (cd_versions db1)"
      using snaps by (simp add: snapshots_ok_def ins(1))
    moreover have "fst ` fst ` set (cd_citations db1) \<subseteq> insert vid (fst ` fst ` set (cd_citations db))"
      by (auto simp: ins(1))
    moreover have "fst ` fst ` set (cd_citations db) \<subseteq> fst ` set (cd_versions db)"
      using snaps unfolding snapshots_ok_def by (elim conjE)
    moreover have "fst ` set (cd_versions db1) = insert vid (fst ` set (cd_versions db))" by (auto simp: ins(1))
    ultimately have traces: "fst ` set (cd_traces db1) = fst ` set (cd_versions db1)"
      and citations: "fst ` fst ` set (cd_citations db1) \<subseteq> fst ` set (cd_versions db1)" by blast+
    have "(v, sn_evidence r) \<in> fst ` set (cd_citations db1)" if image: "((v, i), r) \<in> set (cd_images db1)" for v i r
    proof -
      have images: "cd_images db1 = cd_images db @ map (\<lambda>(i, image). ((vid, ai_id image), image_of relative i image)) (enumerate 0 (ga_images a))"
        by (simp add: ins(1))
      have more_citations: "fst ` set (cd_citations db) \<subseteq> fst ` set (cd_citations db1)"
        by (rule image_mono) (simp add: ins(1))
      show ?thesis
      proof (cases "((v, i), r) \<in> set (cd_images db)")
        case True
        have "\<forall>((v, i), r)\<in>set (cd_images db). (v, sn_evidence r) \<in> fst ` set (cd_citations db)"
          using snaps unfolding snapshots_ok_def by (elim conjE)
        from bspec [OF this True] have "(v, sn_evidence r) \<in> fst ` set (cd_citations db)" by simp
        with more_citations show ?thesis by (rule subsetD)
      next
        case False
        with image have there: "((v, i), r) \<in> set (map (\<lambda>(i, image). ((vid, ai_id image), image_of relative i image)) (enumerate 0 (ga_images a)))"
          unfolding images set_append by blast
        then have "v = vid" by auto
        with bspec [OF ins(5) there] show ?thesis by simp
      qed
    qed
    then have "\<forall>((v, i), r)\<in>set (cd_images db1). (v, sn_evidence r) \<in> fst ` set (cd_citations db1)"
      by (intro ballI) (simp only: split_paired_all split_conv)
    moreover have "\<forall>c. cd_last db1 = Some c \<longrightarrow> conversation db1 c \<noteq> None"
      using snaps by (simp add: snapshots_ok_def same)
    ultimately show ?thesis using traces citations by (simp only: snapshots_ok_def)
  qed
  moreover have "one_running db1" using run by (simp add: one_running_def same)
  ultimately have parts: "tables_keyed db1 \<and> messages_ok db1 \<and> versions_ok db1 \<and> snapshots_ok db1 \<and> one_running db1"
    using ins(4) [OF keyed] by blast
  have "conversations_ok (update_messages (\<lambda>k r. k = mid) f db1)"
  proof (rule update_messages_conversations [OF parts])
    fix k r assume k: "message db1 k = Some r" "mg_role r = Assistant_Message" "k \<noteq> mid"
    then have "shown_ok db k r" using shown by (simp add: same answers_ok_def)
    with k(3) new show "shown_ok db1 k r"
      by (auto simp: shown_ok_def look version_of_answer_def split: option.splits)
  next
    fix k r assume k: "message db1 k = Some r" "k = mid"
    then have "r = m" using m by (simp add: same)
    then show "same_frame r (f r) \<and> mg_role r = Assistant_Message \<and> shown_ok db1 k (f r) \<and>
      (mg_status (f r) = ''generating'' \<longrightarrow> (\<forall>k' r'. message db1 k' = Some r' \<longrightarrow> mg_conversation r' = mg_conversation r \<longrightarrow> k' \<noteq> k \<longrightarrow>
         mg_status (if k' = mid then f r' else r') \<noteq> ''generating''))"
      using m(2) k(2) ins(2) by (auto simp: same_frame_def f_def shown_ok_def look version_of_answer_def)
  qed
  then have "conversations_ok ((update_message mid f db1)\<lparr>cd_conversations := update_where (\<lambda>k r. k = mg_conversation m)
        (\<lambda>r. r\<lparr>cv_updated := now\<rparr>) (cd_conversations db1), cd_last := cd_last db1\<rparr>)"
    unfolding update_message_eq
    by (rule conversations_table_ok) (use parts in \<open>auto simp: tables_keyed_def snapshots_ok_def\<close>)
  then have "conversations_ok db'" by (simp add: db' update_message_def)
  moreover have "cd_messages db' = update_where (\<lambda>k r. k = mid) f (cd_messages db)" by (simp add: db' update_message_def same)
  moreover have "same_frame r (f r) \<and> mg_selected (f r) = Some vid \<and> mg_status (f r) \<noteq> ''generating''" for r
    using ins(2) by (auto simp: same_frame_def f_def)
  ultimately show ?thesis by blast
qed

subsection \<open>The machine\<close>

text \<open>
  A generation runs outside every lock; \<open>cm_pending\<close> lists those of this process and
  \<open>cm_lost\<close> the messages whose answer the store refused, which nothing settles before a
  restart.  Identifiers are \<open>uuid4\<close> values: a question whose identifiers a running
  generation has is not performed.
\<close>

datatype running = Asking string | Regenerating string

definition running_id :: "running \<Rightarrow> string" where
  "running_id r = (case r of Asking a \<Rightarrow> a | Regenerating a \<Rightarrow> a)"

record conversation_machine =
  cm_db :: conversation_db
  cm_pending :: "running list"
  cm_lost :: "string list"

definition conversation_start :: conversation_machine where
  "conversation_start = \<lparr>cm_db = conversation_db_empty, cm_pending = [], cm_lost = []\<rparr>"

datatype conversation_event =
    Create string "string option" string
  | Rename string string string
  | Save_Draft string string
  | Open string
  | Delete string
  | Ask "version_catalog option" string string string string string
  | Regenerate "version_catalog option" string string string
  | Answered running "string \<Rightarrow> string" string grounded_answer string
  | Failed running string
  | Choose string string string string
  | Restart string

text \<open>An operation that raises leaves the tables.\<close>

definition stored :: "conversation_machine \<Rightarrow> conversation_db res \<Rightarrow> conversation_machine" where
  "stored s r = (case r of Inl e \<Rightarrow> s | Inr db \<Rightarrow> s\<lparr>cm_db := db\<rparr>)"

definition settle_failed :: "running \<Rightarrow> string \<Rightarrow> conversation_db \<Rightarrow> conversation_db" where
  "settle_failed r now db =
     (case r of Asking a \<Rightarrow> mark_generation_failed a now db | Regenerating a \<Rightarrow> restore_selected_status a now db)"

fun perform :: "conversation_event \<Rightarrow> conversation_machine \<Rightarrow> conversation_machine" where
  "perform (Create cid title now) s = stored s (create_conversation cid title now (cm_db s))"
| "perform (Rename cid title now) s = stored s (rename_conversation cid title now (cm_db s))"
| "perform (Save_Draft cid draft) s = stored s (save_draft cid draft (cm_db s))"
| "perform (Open cid) s =
     (if map_of (cd_conversations (cm_db s)) cid = None then s else s\<lparr>cm_db := select_conversation cid (cm_db s)\<rparr>)"
| "perform (Delete cid) s = stored s (delete_conversation cid (cm_db s))"
| "perform (Ask catalog cid question u a now) s =
     (if py_strip question = [] \<or> u \<in> running_id ` set (cm_pending s) \<or> a \<in> running_id ` set (cm_pending s) then s
      else case begin_turn catalog cid (py_strip question) u a now (cm_db s) of
        Inl e \<Rightarrow> s
      | Inr (result, db) \<Rightarrow> s\<lparr>cm_db := db, cm_pending := Asking a # cm_pending s\<rparr>)"
| "perform (Regenerate catalog cid a now) s =
     (case begin_regeneration catalog cid a now (cm_db s) of
        Inl e \<Rightarrow> s
      | Inr (result, db) \<Rightarrow> s\<lparr>cm_db := db, cm_pending := Regenerating a # cm_pending s\<rparr>)"
| "perform (Answered r relative vid answer now) s =
     (if r \<notin> set (cm_pending s) then s
      else let s' = s\<lparr>cm_pending := remove1 r (cm_pending s)\<rparr> in
        if r = Regenerating (running_id r) \<and> ga_status answer \<noteq> ''completed''
        then s'\<lparr>cm_db := restore_selected_status (running_id r) now (cm_db s)\<rparr>
        else case append_answer_version relative vid (running_id r) answer True now (cm_db s) of
          Inl e \<Rightarrow> s'\<lparr>cm_lost := running_id r # cm_lost s\<rparr>
        | Inr db \<Rightarrow> s'\<lparr>cm_db := db\<rparr>)"
| "perform (Failed r now) s =
     (if r \<notin> set (cm_pending s) then s
      else s\<lparr>cm_pending := remove1 r (cm_pending s), cm_db := settle_failed r now (cm_db s)\<rparr>)"
| "perform (Choose cid mid vid now) s = stored s (select_answer_version cid mid vid now (cm_db s))"
| "perform (Restart now) s = \<lparr>cm_db = recover_generating_messages now (cm_db s), cm_pending = [], cm_lost = []\<rparr>"

subsection \<open>The generations that run\<close>

definition pending_ok :: "conversation_db \<Rightarrow> running list \<Rightarrow> string list \<Rightarrow> bool" where
  "pending_ok db pending lost \<longleftrightarrow>
     (\<forall>a. Asking a \<in> set pending \<longrightarrow> filter (\<lambda>r. running_id r = a) pending = [Asking a]) \<and>
     (\<forall>r\<in>set pending. \<forall>m. message db (running_id r) = Some m \<longrightarrow> mg_role m = Assistant_Message) \<and>
     (\<forall>a m. Asking a \<in> set pending \<longrightarrow> message db a = Some m \<longrightarrow> mg_selected m = None) \<and>
     (\<forall>k m. message db k = Some m \<longrightarrow> mg_status m = ''generating'' \<longrightarrow> k \<in> running_id ` set pending \<union> set lost)"

definition machine_ok :: "conversation_machine \<Rightarrow> bool" where
  "machine_ok s \<longleftrightarrow> conversations_ok (cm_db s) \<and> pending_ok (cm_db s) (cm_pending s) (cm_lost s)"

lemma running_id_simps [simp]: "running_id (Asking a) = a" "running_id (Regenerating a) = a"
  by (simp_all add: running_id_def)

lemma running_cases: "r = Asking (running_id r) \<or> r = Regenerating (running_id r)"
  by (cases r) simp_all

lemma pending_fewer:
  assumes "pending_ok db pending lost" "\<And>k m. message db' k = Some m \<Longrightarrow> message db k = Some m"
  shows "pending_ok db' pending lost"
  using assms unfolding pending_ok_def by blast

lemma pending_settled:
  assumes ok: "pending_ok db pending lost" and r: "r \<in> set pending" "running_id r = mid"
    and db': "cd_messages db' = update_where (\<lambda>k r. k = mid) f (cd_messages db)"
    and f: "\<And>m. message db mid = Some m \<Longrightarrow> mg_role (f m) = mg_role m \<and> mg_status (f m) \<noteq> ''generating''"
  shows "pending_ok db' (remove1 r pending) lost"
proof -
  have once: "filter (\<lambda>r. running_id r = a) pending = [Asking a]" if "Asking a \<in> set pending" for a
    using ok that by (simp add: pending_ok_def)
  have alone: "Asking mid \<notin> set (remove1 r pending)"
  proof
    assume a: "Asking mid \<in> set (remove1 r pending)"
    then have "Asking mid \<in> set pending" using notin_set_remove1 by fast
    from once [OF this] have f: "filter (\<lambda>r. running_id r = mid) pending = [Asking mid]" .
    have "r \<in> set (filter (\<lambda>r. running_id r = mid) pending)" using r by simp
    then have "r \<in> set [Asking mid]" by (simp only: f)
    then have "filter (\<lambda>r. running_id r = mid) (remove1 r pending) = []" by (simp add: filter_remove1 f)
    with a show False by (auto simp: filter_empty_conv)
  qed
  have "filter (\<lambda>r. running_id r = a) (remove1 r pending) = [Asking a]" if "Asking a \<in> set (remove1 r pending)" for a
  proof -
    have "a \<noteq> mid" using that alone by auto
    then have "r \<noteq> Asking a" using r(2) by auto
    moreover have "Asking a \<in> set pending" using that notin_set_remove1 by fast
    ultimately show ?thesis using once r(2) by (simp add: filter_remove1 remove1_idem)
  qed
  moreover have "mg_role m = Assistant_Message" if "x \<in> set (remove1 r pending)" "message db' (running_id x) = Some m" for x m
    using that ok f set_remove1_subset [of r pending] unfolding pending_ok_def by (auto simp: db' split: if_splits)
  moreover have "mg_selected m = None" if "Asking a \<in> set (remove1 r pending)" "message db' a = Some m" for a m
    using that ok alone set_remove1_subset [of r pending] unfolding pending_ok_def by (auto simp: db' split: if_splits)
  moreover have "k \<in> running_id ` set (remove1 r pending) \<union> set lost" if "message db' k = Some m" "mg_status m = ''generating''" for k m
  proof -
    have k: "k \<noteq> mid" using that f by (auto simp: db')
    with that have "k \<in> running_id ` set pending \<union> set lost" using ok unfolding pending_ok_def by (auto simp: db')
    then consider x where "x \<in> set pending" "k = running_id x" | "k \<in> set lost" by blast
    then show ?thesis
    proof cases
      case 1
      with k r(2) have "x \<noteq> r" by auto
      with 1 show ?thesis by (simp add: in_set_remove1)
    qed simp
  qed
  ultimately show ?thesis unfolding pending_ok_def by blast
qed

lemma pending_lost: "pending_ok db (remove1 r pending) lost \<Longrightarrow> pending_ok db (remove1 r pending) (a # lost)"
  unfolding pending_ok_def by auto

text \<open>A generation whose answer the store refuses is lost.\<close>

lemma pending_refused:
  assumes ok: "pending_ok db pending lost" and r: "r \<in> set pending"
  shows "pending_ok db (remove1 r pending) (running_id r # lost)"
proof -
  have once: "filter (\<lambda>r. running_id r = a) pending = [Asking a]" if "Asking a \<in> set pending" for a
    using ok that by (simp add: pending_ok_def)
  have sub: "set (remove1 r pending) \<subseteq> set pending" by (rule set_remove1_subset)
  have "filter (\<lambda>r. running_id r = a) (remove1 r pending) = [Asking a]" if a: "Asking a \<in> set (remove1 r pending)" for a
  proof -
    from a sub have f: "filter (\<lambda>r. running_id r = a) pending = [Asking a]" by (intro once) blast
    have "Asking a \<in> set (filter (\<lambda>r. running_id r = a) (remove1 r pending))" using a by simp
    then have "r \<noteq> Asking a" by (auto simp: filter_remove1 f split: if_splits)
    then show ?thesis by (simp add: filter_remove1 f)
  qed
  moreover have "k \<in> running_id ` set (remove1 r pending) \<union> set (running_id r # lost)"
    if "message db k = Some m" "mg_status m = ''generating''" for k m
  proof -
    from that ok have "k \<in> running_id ` set pending \<union> set lost" unfolding pending_ok_def by blast
    then consider x where "x \<in> set pending" "k = running_id x" "x \<noteq> r" | "k = running_id r" | "k \<in> set lost" by blast
    then show ?thesis by cases (simp_all add: in_set_remove1)
  qed
  ultimately show ?thesis using ok sub unfolding pending_ok_def by blast
qed

lemma pending_chosen:
  assumes ok: "conversations_ok db" "pending_ok db pending lost" and v: "version db vid = Some v" "vr_message v = mid"
    and db': "db' = update_message mid f db"
    and f: "\<And>m. message db mid = Some m \<Longrightarrow> mg_role (f m) = mg_role m \<and> mg_status (f m) \<noteq> ''generating''"
  shows "pending_ok db' pending lost"
proof -
  from ok(1) v obtain m where m: "message db mid = Some m" "mg_role m = Assistant_Message"
    unfolding conversations_ok_def versions_ok_def by blast
  then have "shown_ok db mid m" using ok(1) by (simp add: conversations_ok_def answers_ok_def)
  then have "mg_selected m \<noteq> None" using v by (auto simp: shown_ok_def split: option.splits)
  then have "Asking mid \<notin> set pending" using ok(2) m(1) unfolding pending_ok_def by fastforce
  then show ?thesis
    using ok(2) f unfolding pending_ok_def db' update_message_def by (auto split: if_splits)
qed

subsection \<open>Every event keeps the tables well formed\<close>

lemma stored_ok:
  assumes "machine_ok s" "\<And>db. r = Inr db \<Longrightarrow> conversations_ok db \<and> cd_messages db = cd_messages (cm_db s)"
  shows "machine_ok (stored s r)"
proof (cases r)
  case (Inr db)
  with assms have "conversations_ok db" "pending_ok db (cm_pending s) (cm_lost s)"
    unfolding machine_ok_def by (auto intro: pending_fewer)
  with Inr show ?thesis by (simp add: stored_def machine_ok_def)
qed (use assms in \<open>simp add: stored_def\<close>)

lemma perform_ask_ok:
  assumes ok: "machine_ok s"
  shows "machine_ok (perform (Ask catalog cid question u a now) s)"
proof (cases "py_strip question = [] \<or> u \<in> running_id ` set (cm_pending s) \<or> a \<in> running_id ` set (cm_pending s)")
  case False
  then have new: "u \<notin> running_id ` set (cm_pending s)" "a \<notin> running_id ` set (cm_pending s)" by blast+
  show ?thesis
  proof (cases "begin_turn catalog cid (py_strip question) u a now (cm_db s)")
    case (Inr p)
    obtain result db' where p: "p = (result, db')" by (cases p)
    from ok have db: "conversations_ok (cm_db s)" and pending: "pending_ok (cm_db s) (cm_pending s) (cm_lost s)"
      by (simp_all add: machine_ok_def)
    from begin_turn_ok [OF db] Inr p obtain qm am where ok': "conversations_ok db'"
      and look: "message db' = (message (cm_db s))(u \<mapsto> qm, a \<mapsto> am)"
      and am: "mg_role am = Assistant_Message" "mg_selected am = None" and qm: "mg_status qm = ''completed''" by blast
    have "filter (\<lambda>r. running_id r = a) (cm_pending s) = []" using new(2) by (auto simp: filter_empty_conv)
    with new pending am qm have "pending_ok db' (Asking a # cm_pending s) (cm_lost s)"
      unfolding pending_ok_def look by (auto simp: image_iff split: if_splits)
    with ok' False Inr p show ?thesis by (simp add: machine_ok_def)
  qed (use ok False in simp)
qed (use ok in simp)

lemma perform_regenerate_ok:
  assumes ok: "machine_ok s"
  shows "machine_ok (perform (Regenerate catalog cid a now) s)"
proof (cases "begin_regeneration catalog cid a now (cm_db s)")
  case (Inr p)
  obtain result db' where p: "p = (result, db')" by (cases p)
  from ok have db: "conversations_ok (cm_db s)" and pending: "pending_ok (cm_db s) (cm_pending s) (cm_lost s)"
    by (simp_all add: machine_ok_def)
  from begin_regeneration_ok [OF db] Inr p obtain m f where ok': "conversations_ok db'"
    and m: "message (cm_db s) a = Some m" "mg_role m = Assistant_Message" "mg_selected m \<noteq> None"
    and db': "db' = update_message a f (cm_db s)" and f: "\<And>r. same_frame r (f r) \<and> mg_selected (f r) = mg_selected r" by blast
  have "Asking a \<notin> set (cm_pending s)" using pending m(1,3) unfolding pending_ok_def by fastforce
  then have "pending_ok db' (Regenerating a # cm_pending s) (cm_lost s)"
    using pending m(1,2) f unfolding pending_ok_def db' update_message_def same_frame_def
    by (auto split: if_splits)
  with ok' Inr p show ?thesis by (simp add: machine_ok_def)
qed (use ok in simp)

lemma pending_message:
  "machine_ok s \<Longrightarrow> r \<in> set (cm_pending s) \<Longrightarrow> message (cm_db s) (running_id r) = Some m \<Longrightarrow>
    mg_role m = Assistant_Message \<and> (r = Asking (running_id r) \<longrightarrow> mg_selected m = None)"
proof -
  assume ok: "machine_ok s" and r: "r \<in> set (cm_pending s)" and m: "message (cm_db s) (running_id r) = Some m"
  from ok have "pending_ok (cm_db s) (cm_pending s) (cm_lost s)" by (simp add: machine_ok_def)
  then have roles: "\<forall>r\<in>set (cm_pending s). \<forall>m. message (cm_db s) (running_id r) = Some m \<longrightarrow> mg_role m = Assistant_Message"
    and unselected: "\<forall>a m. Asking a \<in> set (cm_pending s) \<longrightarrow> message (cm_db s) a = Some m \<longrightarrow> mg_selected m = None"
    unfolding pending_ok_def by simp_all
  have "mg_role m = Assistant_Message" using bspec [OF roles r] m by blast
  moreover have "mg_selected m = None" if "r = Asking (running_id r)"
  proof -
    have "Asking (running_id r) \<in> set (cm_pending s)" using r that by simp
    with unselected m show ?thesis by blast
  qed
  ultimately show ?thesis by blast
qed

lemma settle_failed_ok:
  assumes ok: "machine_ok s" and r: "r \<in> set (cm_pending s)" and settled: "db' = settle_failed r now (cm_db s)"
  shows "machine_ok (s\<lparr>cm_pending := remove1 r (cm_pending s), cm_db := db'\<rparr>)"
proof -
  have db: "conversations_ok (cm_db s)" and pending: "pending_ok (cm_db s) (cm_pending s) (cm_lost s)"
    using ok by (simp_all add: machine_ok_def)
  have role: "\<And>m. message (cm_db s) (running_id r) = Some m \<Longrightarrow> mg_role m = Assistant_Message"
    using pending_message [OF ok r] by blast
  have "conversations_ok db' \<and> pending_ok db' (remove1 r (cm_pending s)) (cm_lost s)"
  proof (cases r)
    case (Asking a)
    have "conversations_ok (mark_generation_failed a now (cm_db s))"
      by (rule mark_generation_failed_ok [OF db]) (use pending_message [OF ok r] Asking in simp)
    moreover have "pending_ok (mark_generation_failed a now (cm_db s)) (remove1 r (cm_pending s)) (cm_lost s)"
      by (rule pending_settled [OF pending r]) (auto simp: Asking mark_generation_failed_def update_message_def)
    ultimately show ?thesis by (simp add: settled settle_failed_def Asking)
  next
    case (Regenerating a)
    have "conversations_ok (restore_selected_status a now (cm_db s))"
      by (rule restore_selected_status_ok [OF db]) (use role Regenerating in simp)
    moreover have "pending_ok (restore_selected_status a now (cm_db s)) (remove1 r (cm_pending s)) (cm_lost s)"
      by (rule pending_settled [OF pending r])
        (use role Regenerating selected_status_settled [OF db] in \<open>auto simp: restore_selected_status_def update_message_def\<close>)
    ultimately show ?thesis by (simp add: settled settle_failed_def Regenerating)
  qed
  then show ?thesis by (simp add: machine_ok_def)
qed

lemma perform_answered_ok:
  assumes ok: "machine_ok s"
  shows "machine_ok (perform (Answered r relative vid answer now) s)"
proof (cases "r \<in> set (cm_pending s)")
  case r: True
  have db: "conversations_ok (cm_db s)" and pending: "pending_ok (cm_db s) (cm_pending s) (cm_lost s)"
    using ok by (simp_all add: machine_ok_def)
  show ?thesis
  proof (cases "r = Regenerating (running_id r) \<and> ga_status answer \<noteq> ''completed''")
    case True
    then have "settle_failed r now (cm_db s) = restore_selected_status (running_id r) now (cm_db s)"
      by (cases r) (simp_all add: settle_failed_def)
    with settle_failed_ok [OF ok r refl, of now] r True show ?thesis by (simp add: Let_def)
  next
    case stored: False
    show ?thesis
    proof (cases "append_answer_version relative vid (running_id r) answer True now (cm_db s)")
      case (Inl e)
      then show ?thesis using db pending_refused [OF pending r] r stored by (auto simp: machine_ok_def Let_def)
    next
      case (Inr db')
      from append_answer_version_ok [OF db Inr] obtain f where ok': "conversations_ok db'"
        and db': "cd_messages db' = update_where (\<lambda>k r'. k = running_id r) f (cd_messages (cm_db s))"
        and f: "\<And>m. same_frame m (f m) \<and> mg_selected (f m) = Some vid \<and> mg_status (f m) \<noteq> ''generating''" by blast
      have "pending_ok db' (remove1 r (cm_pending s)) (cm_lost s)"
        by (rule pending_settled [OF pending r refl db']) (use f in \<open>simp add: same_frame_def\<close>)
      with ok' Inr r stored show ?thesis by (auto simp: machine_ok_def Let_def)
    qed
  qed
qed (use ok in simp)

lemma perform_ok:
  assumes ok: "machine_ok s"
  shows "machine_ok (perform e s)"
proof (cases e)
  case (Create cid title now)
  have "machine_ok (stored s (create_conversation cid title now (cm_db s)))"
    by (rule stored_ok [OF ok]) (use ok in \<open>auto simp: machine_ok_def dest: create_conversation_ok\<close>)
  with Create show ?thesis by simp
next
  case (Rename cid title now)
  have "machine_ok (stored s (rename_conversation cid title now (cm_db s)))"
    by (rule stored_ok [OF ok])
      (use ok in \<open>auto simp: machine_ok_def rename_conversation_def conversation_error_def dest: update_conversation_ok split: if_splits\<close>)
  with Rename show ?thesis by simp
next
  case (Save_Draft cid draft)
  have "machine_ok (stored s (save_draft cid draft (cm_db s)))"
    by (rule stored_ok [OF ok]) (use ok in \<open>auto simp: machine_ok_def save_draft_def dest: update_conversation_ok\<close>)
  with Save_Draft show ?thesis by simp
next
  case (Open cid)
  have "machine_ok (s\<lparr>cm_db := select_conversation cid (cm_db s)\<rparr>)" if "conversation (cm_db s) cid \<noteq> None"
  proof -
    have "conversations_ok (select_conversation cid (cm_db s))"
      by (rule select_conversation_ok [OF _ that]) (use ok in \<open>simp add: machine_ok_def\<close>)
    then show ?thesis using ok by (auto simp: machine_ok_def select_conversation_def intro: pending_fewer)
  qed
  with Open ok show ?thesis by simp
next
  case (Delete cid)
  show ?thesis
  proof (cases "delete_conversation cid (cm_db s)")
    case (Inr db')
    from ok have db: "conversations_ok (cm_db s)" and pending: "pending_ok (cm_db s) (cm_pending s) (cm_lost s)"
      by (simp_all add: machine_ok_def)
    from delete_conversation_ok [OF db Inr] have "conversations_ok db'"
      and "\<And>k m. message db' k = Some m \<Longrightarrow> message (cm_db s) k = Some m" by simp_all
    then have "conversations_ok db'" "pending_ok db' (cm_pending s) (cm_lost s)" using pending_fewer [OF pending] by blast+
    with Delete Inr show ?thesis by (simp add: stored_def machine_ok_def)
  qed (use Delete ok in \<open>simp add: stored_def\<close>)
next
  case (Failed r now)
  with settle_failed_ok [OF ok _ refl, of r now] ok show ?thesis by simp
next
  case (Choose cid mid vid now)
  show ?thesis
  proof (cases "select_answer_version cid mid vid now (cm_db s)")
    case (Inr db')
    from ok have db: "conversations_ok (cm_db s)" and pending: "pending_ok (cm_db s) (cm_pending s) (cm_lost s)"
      by (simp_all add: machine_ok_def)
    from select_answer_version_ok [OF db Inr] obtain f v where ok': "conversations_ok db'"
      and db': "db' = update_message mid f (cm_db s)" and f: "\<And>r. same_frame r (f r) \<and> mg_status (f r) \<noteq> ''generating''"
      and v: "version (cm_db s) vid = Some v" "vr_message v = mid" by blast
    have "pending_ok db' (cm_pending s) (cm_lost s)"
      by (rule pending_chosen [OF db pending v db']) (use f in \<open>simp add: same_frame_def\<close>)
    with ok' Choose Inr show ?thesis by (simp add: stored_def machine_ok_def)
  qed (use Choose ok in \<open>simp add: stored_def\<close>)
next
  case (Restart now)
  have db: "conversations_ok (cm_db s)" using ok by (simp add: machine_ok_def)
  have "mg_status m \<noteq> ''generating''" if m: "message (recover_generating_messages now (cm_db s)) k = Some m" for k m
  proof -
    from m obtain r where r: "message (cm_db s) k = Some r"
      and "m = (if mg_status r = ''generating'' then r\<lparr>mg_status := selected_status (cm_db s) r, mg_updated := now\<rparr> else r)"
      by (auto simp: recover_generating_messages_def)
    moreover have "mg_role r = Assistant_Message" if "mg_status r = ''generating''"
      using user_completed [OF db r] that by (cases "mg_role r") auto
    ultimately show ?thesis using selected_status_settled [OF db r] by auto
  qed
  then have "pending_ok (recover_generating_messages now (cm_db s)) [] []" by (auto simp: pending_ok_def)
  with recover_generating_messages_ok [OF db] Restart show ?thesis by (simp add: machine_ok_def)
qed (use perform_ask_ok [OF ok] perform_regenerate_ok [OF ok] perform_answered_ok [OF ok] in simp_all)

lemma conversation_start_ok: "machine_ok conversation_start"
  by (simp add: machine_ok_def conversation_start_def conversation_db_empty_def conversations_ok_def tables_keyed_def messages_ok_def
      versions_ok_def snapshots_ok_def answers_ok_def one_running_def pending_ok_def)

lemma events_ok: "machine_ok s \<Longrightarrow> machine_ok (fold perform events s)"
  by (induction events arbitrary: s) (simp_all add: perform_ok del: perform.simps)

subsection \<open>Stored answers are immutable\<close>

definition snapshot_of where
  "snapshot_of vid db =
     (version db vid, filter (\<lambda>(k, r). fst k = vid) (cd_citations db), map_of (cd_traces db) vid,
      filter (\<lambda>(k, r). fst k = vid) (cd_images db))"

definition answers_of :: "conversation_db \<Rightarrow> string \<Rightarrow> string \<Rightarrow> bool" where
  "answers_of db vid cid \<longleftrightarrow>
     (case version db vid of None \<Rightarrow> False
      | Some v \<Rightarrow> (case message db (vr_message v) of None \<Rightarrow> False | Some m \<Rightarrow> mg_conversation m = cid))"

definition answer_tables where
  "answer_tables db = (cd_versions db, cd_citations db, cd_traces db, cd_images db)"

lemma answers_kept:
  assumes "answers_of db vid cid" "answer_tables db' = answer_tables db"
    "\<And>k m. message db k = Some m \<Longrightarrow> \<exists>m'. message db' k = Some m' \<and> mg_conversation m' = mg_conversation m"
  shows "snapshot_of vid db' = snapshot_of vid db \<and> answers_of db' vid cid"
proof -
  from assms(1) obtain v m where v: "version db vid = Some v" "message db (vr_message v) = Some m" "mg_conversation m = cid"
    by (auto simp: answers_of_def split: option.splits)
  from assms(3) [OF v(2)] v(3) obtain m' where "message db' (vr_message v) = Some m'" "mg_conversation m' = cid" by blast
  with v(1) assms(2) show ?thesis by (simp add: answer_tables_def snapshot_of_def answers_of_def)
qed

lemma update_messages_keep:
  assumes "\<And>k r. message db k = Some r \<Longrightarrow> P k r \<Longrightarrow> same_frame r (f r)" "message db k = Some m"
  shows "\<exists>m'. message (update_messages P f db) k = Some m' \<and> mg_conversation m' = mg_conversation m"
  using assms by (auto simp: same_frame_def)

lemma answers_appended:
  assumes known: "answers_of db vid cid" and ok: "conversations_ok db"
    and appended: "append_answer_version relative new mid a True now db = Inr db'"
  shows "snapshot_of vid db' = snapshot_of vid db \<and> answers_of db' vid cid"
proof -
  from appended obtain db1 where db1: "insert_answer_version relative new mid (next_version_number db mid) a db = Inr db1"
    and same: "answer_tables db' = answer_tables db1"
    by (auto simp: append_answer_version_def conversation_error_def Let_def res_simps update_message_def answer_tables_def
        split: option.splits if_splits)
  note ins = insert_answer_version_Inr [OF db1]
  from known obtain v m where v: "version db vid = Some v" "message db (vr_message v) = Some m" "mg_conversation m = cid"
    by (auto simp: answers_of_def split: option.splits)
  have new: "vid \<noteq> new" using ins(3) v(1) by (force simp: map_of_eq_Some_iff dest: map_of_SomeD)
  have none: "filter (\<lambda>(k, r). fst k = vid) (map (\<lambda>(i, x). ((new, g x), h i x)) xs) = []" for g h xs
    using new by (auto simp: filter_empty_conv)
  have look: "version db' vid = version db vid" "map_of (cd_traces db') vid = map_of (cd_traces db) vid"
    using same new by (simp_all add: answer_tables_def ins(1) map_of_append map_add_def split: option.split)
  moreover have "filter (\<lambda>(k, r). fst k = vid) (cd_citations db') = filter (\<lambda>(k, r). fst k = vid) (cd_citations db)"
    "filter (\<lambda>(k, r). fst k = vid) (cd_images db') = filter (\<lambda>(k, r). fst k = vid) (cd_images db)"
    using same by (simp_all add: answer_tables_def ins(1) none)
  ultimately have "snapshot_of vid db' = snapshot_of vid db" by (simp add: snapshot_of_def)
  moreover from append_answer_version_ok [OF ok appended] v(2) have "\<exists>m'. message db' (vr_message v) = Some m' \<and> mg_conversation m' = cid"
    using v(3) by (auto simp: same_frame_def)
  then have "answers_of db' vid cid" using look(1) v(1) by (auto simp: answers_of_def)
  ultimately show ?thesis by blast
qed

lemma option_same: "(\<And>t. x = Some t \<longleftrightarrow> y = Some t) \<Longrightarrow> x = y"
  by (metis option.exhaust)

lemma answers_outlive_deletion:
  assumes known: "answers_of db vid cid" and ok: "conversations_ok db" and deleted: "delete_conversation other db = Inr db'"
    and other: "other \<noteq> cid"
  shows "snapshot_of vid db' = snapshot_of vid db \<and> answers_of db' vid cid"
proof -
  define ms where "ms = filter (\<lambda>(k, m). mg_conversation m \<noteq> other) (cd_messages db)"
  define vs where "vs = filter (\<lambda>(k, v). vr_message v \<in> fst ` set ms) (cd_versions db)"
  from deleted have db': "cd_versions db' = vs" "cd_citations db' = filter (\<lambda>(k, r). fst k \<in> fst ` set vs) (cd_citations db)"
      "cd_traces db' = filter (\<lambda>(k, r). k \<in> fst ` set vs) (cd_traces db)"
      "cd_images db' = filter (\<lambda>(k, r). fst k \<in> fst ` set vs) (cd_images db)"
    by (auto simp: delete_conversation_def conversation_error_def Let_def ms_def vs_def split: if_splits)
  from known obtain v m where v: "version db vid = Some v" and m: "message db (vr_message v) = Some m" "mg_conversation m = cid"
    by (auto simp: answers_of_def split: option.splits)
  from ok have keyed: "table_ok (cd_versions db)" "table_ok (cd_traces db)" by (simp_all add: conversations_ok_def tables_keyed_def)
  have there: "vr_message v \<in> fst ` set ms" using map_of_SomeD [OF m(1)] m(2) other by (force simp: ms_def)
  then have look: "version db' vid = Some v" using v keyed by (simp add: db' vs_def map_of_filter_row)
  then have kept: "vid \<in> fst ` set vs" by (force simp: db' dest: map_of_SomeD)
  have same: "filter (\<lambda>(k, r). fst k = vid) (filter (\<lambda>(k, r). fst k \<in> fst ` set vs) t) = filter (\<lambda>(k, r). fst k = vid) t"
    for t :: "((string \<times> string) \<times> 'a) list"
    unfolding filter_filter by (rule filter_cong [OF refl]) (use kept in auto)
  have "map_of (cd_traces db') vid = Some t \<longleftrightarrow> map_of (cd_traces db) vid = Some t" for t
    using kept keyed(2) by (simp add: db' map_of_filter_row)
  then have "map_of (cd_traces db') vid = map_of (cd_traces db) vid"
    by (rule option_same)
  then have "snapshot_of vid db' = snapshot_of vid db" by (simp add: snapshot_of_def look v db'(2,4) same del: filter_filter)
  moreover have "message db' (vr_message v) = Some m" using delete_conversation_ok [OF ok deleted] m other by blast
  then have "answers_of db' vid cid" using m(2) by (simp add: answers_of_def look)
  ultimately show ?thesis by blast
qed

lemma begin_turn_tables:
  assumes "begin_turn catalog cid question u a now db = Inr (result, db')"
  shows "answer_tables db' = answer_tables db"
  using assms by (auto simp: begin_turn_def find_row_def conversation_error_def Let_def res_simps insert_message_def
      update_conversation_def select_conversation_def answer_tables_def split: option.splits if_splits)

lemma answers_stored:
  assumes "answers_of (cm_db s) vid cid" "\<And>db. r = Inr db \<Longrightarrow> answer_tables db = answer_tables (cm_db s) \<and> cd_messages db = cd_messages (cm_db s)"
  shows "snapshot_of vid (cm_db (stored s r)) = snapshot_of vid (cm_db s) \<and> answers_of (cm_db (stored s r)) vid cid"
proof (cases r)
  case (Inr db)
  with assms(2) have db: "answer_tables db = answer_tables (cm_db s)" "cd_messages db = cd_messages (cm_db s)" by simp_all
  from answers_kept [OF assms(1) db(1)] Inr show ?thesis by (simp add: stored_def db(2))
qed (use assms(1) in \<open>simp add: stored_def\<close>)

lemma answers_updated:
  assumes "answers_of db vid cid" "\<And>k r. message db k = Some r \<Longrightarrow> P k r \<Longrightarrow> same_frame r (f r)"
  shows "snapshot_of vid (update_messages P f db) = snapshot_of vid db \<and> answers_of (update_messages P f db) vid cid"
  by (rule answers_kept [OF assms(1)]) (use update_messages_keep assms(2) in \<open>auto simp: answer_tables_def simp del: map_of_update_where\<close>)

lemma answers_settled:
  assumes "answers_of db vid cid"
  shows "snapshot_of vid (settle_failed r now db) = snapshot_of vid db \<and> answers_of (settle_failed r now db) vid cid"
    "snapshot_of vid (restore_selected_status a now db) = snapshot_of vid db \<and> answers_of (restore_selected_status a now db) vid cid"
    "snapshot_of vid (recover_generating_messages now db) = snapshot_of vid db \<and> answers_of (recover_generating_messages now db) vid cid"
  unfolding settle_failed_def mark_generation_failed_def restore_selected_status_def recover_generating_messages_def update_message_eq
  by (auto split: running.split intro!: answers_updated [OF assms, THEN conjunct1] answers_updated [OF assms, THEN conjunct2] simp: same_frame_def)

lemma answers_immutable:
  assumes known: "answers_of (cm_db s) vid cid" and ok: "machine_ok s" and e: "e \<noteq> Delete cid"
  shows "snapshot_of vid (cm_db (perform e s)) = snapshot_of vid (cm_db s) \<and> answers_of (cm_db (perform e s)) vid cid"
proof -
  from ok have db: "conversations_ok (cm_db s)" by (simp add: machine_ok_def)
  show ?thesis
  proof (cases e)
    case (Create c title now)
    have "snapshot_of vid (cm_db (stored s (create_conversation c title now (cm_db s)))) = snapshot_of vid (cm_db s) \<and>
        answers_of (cm_db (stored s (create_conversation c title now (cm_db s)))) vid cid"
      by (rule answers_stored [OF known])
        (auto simp: create_conversation_def Let_def res_simps select_conversation_def answer_tables_def)
    with Create show ?thesis by simp
  next
    case (Rename c title now)
    have "snapshot_of vid (cm_db (stored s (rename_conversation c title now (cm_db s)))) = snapshot_of vid (cm_db s) \<and>
        answers_of (cm_db (stored s (rename_conversation c title now (cm_db s)))) vid cid"
      by (rule answers_stored [OF known])
        (auto simp: rename_conversation_def update_conversation_def conversation_error_def answer_tables_def split: if_splits)
    with Rename show ?thesis by simp
  next
    case (Save_Draft c draft)
    have "snapshot_of vid (cm_db (stored s (save_draft c draft (cm_db s)))) = snapshot_of vid (cm_db s) \<and>
        answers_of (cm_db (stored s (save_draft c draft (cm_db s)))) vid cid"
      by (rule answers_stored [OF known])
        (auto simp: save_draft_def update_conversation_def conversation_error_def answer_tables_def split: if_splits)
    with Save_Draft show ?thesis by simp
  next
    case (Open c)
    have "snapshot_of vid (select_conversation c (cm_db s)) = snapshot_of vid (cm_db s) \<and> answers_of (select_conversation c (cm_db s)) vid cid"
      by (rule answers_kept [OF known]) (simp_all add: select_conversation_def answer_tables_def)
    with Open known show ?thesis by simp
  next
    case (Delete other)
    with e have other: "other \<noteq> cid" by simp
    show ?thesis
    proof (cases "delete_conversation other (cm_db s)")
      case (Inr db')
      with answers_outlive_deletion [OF known db Inr other] Delete show ?thesis by (simp add: stored_def)
    qed (use Delete known in \<open>simp add: stored_def\<close>)
  next
    case (Ask catalog c question u a now)
    show ?thesis
    proof (cases "begin_turn catalog c (py_strip question) u a now (cm_db s)")
      case (Inr p)
      obtain result db' where p: "p = (result, db')" by (cases p)
      note begun = Inr [unfolded p]
      from begin_turn_ok [OF db begun] have "\<exists>m'. message db' k = Some m' \<and> mg_conversation m' = mg_conversation m"
        if "message (cm_db s) k = Some m" for k m using that by fastforce
      from answers_kept [OF known begin_turn_tables [OF begun] this] Ask Inr p known show ?thesis by simp
    qed (use Ask known in simp)
  next
    case (Regenerate catalog c a now)
    show ?thesis
    proof (cases "begin_regeneration catalog c a now (cm_db s)")
      case (Inr p)
      obtain result db' where p: "p = (result, db')" by (cases p)
      from begin_regeneration_ok [OF db Inr [unfolded p]] obtain f where db': "db' = update_message a f (cm_db s)"
        and f: "\<And>r. same_frame r (f r)" by blast
      from answers_updated [OF known f, of "\<lambda>k r. k = a"] Regenerate Inr p show ?thesis by (simp add: db' update_message_def)
    qed (use Regenerate known in simp)
  next
    case (Answered r relative new answer now)
    show ?thesis
    proof (cases "append_answer_version relative new (running_id r) answer True now (cm_db s)")
      case (Inr db')
      from answers_appended [OF known db Inr] answers_settled(2) [OF known] known Answered Inr show ?thesis by (simp add: Let_def)
    qed (use Answered known answers_settled(2) [OF known] in \<open>simp add: Let_def\<close>)
  next
    case (Failed r now)
    with answers_settled(1) [OF known] known show ?thesis by simp
  next
    case (Choose c mid new now)
    show ?thesis
    proof (cases "select_answer_version c mid new now (cm_db s)")
      case (Inr db')
      from select_answer_version_ok [OF db Inr] obtain f where db': "db' = update_message mid f (cm_db s)"
        and f: "\<And>r. same_frame r (f r)" by blast
      from answers_updated [OF known f, of "\<lambda>k r. k = mid"] Choose Inr show ?thesis by (simp add: db' update_message_def stored_def)
    qed (use Choose known in \<open>simp add: stored_def\<close>)
  next
    case (Restart now)
    with answers_settled(3) [OF known] show ?thesis by simp
  qed
qed

lemma answers_immutable_run:
  "answers_of (cm_db s) vid cid \<Longrightarrow> machine_ok s \<Longrightarrow> Delete cid \<notin> set events \<Longrightarrow>
    snapshot_of vid (cm_db (fold perform events s)) = snapshot_of vid (cm_db s)"
proof (induction events arbitrary: s)
  case (Cons e events)
  then have e: "e \<noteq> Delete cid" "Delete cid \<notin> set events" by auto
  from answers_immutable [OF Cons.prems(1,2) e(1)]
  have step: "snapshot_of vid (cm_db (perform e s)) = snapshot_of vid (cm_db s)" "answers_of (cm_db (perform e s)) vid cid" by blast+
  from Cons.IH [OF step(2) perform_ok [OF Cons.prems(2)] e(2)] step(1) show ?case by simp
qed simp

subsection \<open>Stored answers read back\<close>

definition shown_citation :: "library_view \<Rightarrow> evidence_ref \<Rightarrow> json" where
  "shown_citation lib r = JObj
     [(''evidence_id'', JStr (er_id r)), (''document_id'', JStr (er_document r)), (''document_name'', JStr (er_name r)),
      (''section'', JStr (er_section r)), (''locator'', JObj (er_locator r)), (''excerpt'', JStr (er_excerpt r)),
      (''channels'', json_strings (normalize_retrieval_channels (er_channels r))),
      (''source_available'', JBool (lw_available lib (er_document r)))]"

definition shown_image :: "library_view \<Rightarrow> (string \<Rightarrow> string) \<Rightarrow> answer_image \<Rightarrow> json" where
  "shown_image lib relative x =
     (let path = relative (ai_path x); present = (path \<noteq> [] \<and> lw_is_file lib (lw_absolute lib path)) in JObj
     [(''source_image_id'', JStr (ai_id x)), (''evidence_id'', JStr (ai_evidence x)), (''document_id'', JStr (ai_document x)),
      (''document_name'', JStr (ai_document_name x)), (''name'', JStr (ai_name x)), (''media_type'', JStr (ai_media_type x)),
      (''file_path'', JStr (if present then lw_absolute lib path else [])), (''alt_text'', json_opt_str (ai_alt x)),
      (''locator'', JObj (ai_locator x)), (''source_available'', JBool (lw_available lib (ai_document x) \<and> present))])"

text \<open>The answer as a reader of the conversation sees it, without the tables.\<close>

definition shown_answer :: "library_view \<Rightarrow> (string \<Rightarrow> string) \<Rightarrow> string \<Rightarrow> int \<Rightarrow> grounded_answer \<Rightarrow> json" where
  "shown_answer lib relative vid number a = JObj
     [(''answer_version_id'', JStr vid), (''version_number'', JInt number), (''answer_text'', JStr (ga_text a)),
      (''retrieval_plan'', plan_as_dict (ga_plan a)), (''degradations'', json_strings (ga_degradations a)),
      (''status'', JStr (ga_status a)), (''interruption_code'', json_opt_str (ga_code a)),
      (''interruption_reason'', json_opt_str (ga_reason a)), (''created_at'', JStr (ga_created_at a)),
      (''citations'', JList (map (shown_citation lib) (ga_citations a))),
      (''source_images'', JList (map (shown_image lib relative) (ga_images a))),
      (''retrieval_trace'', trace_as_dict (ga_trace a))]"

lemma stored_object_text: "json_ok (JObj d) \<Longrightarrow> stored_object (json_text (JObj d)) = d"
  by (simp only: stored_object_def json_loads_text option.case json.case)

lemma stored_list_text: "stored_list (json_text (json_strings ss)) = map JStr ss"
proof -
  have "json_ok (JList (map JStr ss))" by (simp add: list_all_iff)
  from json_loads_text [OF this] show ?thesis by (simp only: stored_list_def json_strings_def option.case json.case)
qed

lemma stored_plan_text: "JObj (stored_object (json_text (plan_as_dict p))) = plan_as_dict p"
proof -
  obtain d where d: "plan_as_dict p = JObj d" by (simp add: plan_as_dict_def)
  have "json_ok (plan_as_dict p)" by (simp add: plan_as_dict_def json_strings_def list_all_iff)
  then show ?thesis unfolding d by (simp only: stored_object_text)
qed

lemma json_strings_in_strings: "json_strings_in (map JStr ss) = ss"
  by (induction ss) (simp_all add: json_strings_in_def)

lemma rows_of_appended:
  assumes "vid \<notin> fst ` fst ` set t" "\<And>i x. ordinal (h i x) = i"
  shows "rows_of ordinal vid (t @ map (\<lambda>(i, x). ((vid, g x), h i x)) (enumerate 0 xs)) = map (\<lambda>(i, x). (g x, h i x)) (enumerate 0 xs)"
proof -
  have old: "filter (\<lambda>((v, k), r). v = vid) t = []" using assms(1) by (force simp: filter_empty_conv)
  have new: "filter (\<lambda>((v, k), r). v = vid) (map (\<lambda>(i, x). ((vid, g x), h i x)) ys) = map (\<lambda>(i, x). ((vid, g x), h i x)) ys" for ys
    by (auto simp: filter_id_conv)
  have strip: "map (\<lambda>((v, k), r). (k, r)) (map (\<lambda>(i, x). ((vid, g x), h i x)) ys) = map (\<lambda>(i, x). (g x, h i x)) ys" for ys
    by (simp add: case_prod_unfold)
  have "map (\<lambda>(k, r). ordinal r) (map (\<lambda>(i, x). (g x, h i x)) ys) = map fst ys" for ys :: "(nat \<times> 'b) list"
    by (simp add: case_prod_unfold assms(2))
  then have "sorted (map (\<lambda>(k, r). ordinal r) (map (\<lambda>(i, x). (g x, h i x)) (enumerate 0 xs)))" by (simp only: map_fst_enumerate) simp
  from sort_key_id_if_sorted [OF this] show ?thesis by (simp only: rows_of_def filter_append old new append_Nil strip)
qed

lemma enumerate_map: "(\<And>i x. x \<in> set xs \<Longrightarrow> f (i, x) = g x) \<Longrightarrow> map f (enumerate n xs) = map g xs"
  by (induction xs arbitrary: n) simp_all

lemma appended_payload:
  assumes ok: "conversations_ok db" and appended: "append_answer_version relative vid mid a True now db = Inr db'"
    and trace: "trace_ok (ga_trace a)"
    and locators: "\<forall>r\<in>set (ga_citations a). json_ok (JObj (er_locator r))" "\<forall>x\<in>set (ga_images a). json_ok (JObj (ai_locator x))"
  shows "\<exists>v. version db' vid = Some v \<and>
    version_payload lib db' (vid, v) = Inr (shown_answer lib relative vid (next_version_number db mid) a)"
proof -
  let ?v = "version_of_answer mid (next_version_number db mid) a"
  from appended obtain db1 where db1: "insert_answer_version relative vid mid (next_version_number db mid) a db = Inr db1"
    and same: "answer_tables db' = answer_tables db1"
    by (auto simp: append_answer_version_def conversation_error_def Let_def res_simps update_message_def answer_tables_def
        split: option.splits if_splits)
  note ins = insert_answer_version_Inr [OF db1]
  have citations: "cd_citations db' = cd_citations db @ map (\<lambda>(i, r). ((vid, er_id r), citation_of i r)) (enumerate 0 (ga_citations a))"
    and images: "cd_images db' = cd_images db @ map (\<lambda>(i, x). ((vid, ai_id x), image_of relative i x)) (enumerate 0 (ga_images a))"
    and versions: "cd_versions db' = cd_versions db @ [(vid, ?v)]"
    and traces: "cd_traces db' = cd_traces db @ [(vid, json_text (trace_as_dict (ga_trace a)))]"
    using same by (simp_all add: answer_tables_def ins(1))
  have "snapshots_ok db" using ok by (simp add: conversations_ok_def)
  note parts = this [unfolded snapshots_ok_def]
  have t: "fst ` set (cd_traces db) = fst ` set (cd_versions db)" and c: "fst ` fst ` set (cd_citations db) \<subseteq> fst ` set (cd_versions db)"
    using parts by simp_all
  have im: "\<forall>((v, i), r)\<in>set (cd_images db). (v, sn_evidence r) \<in> fst ` set (cd_citations db)"
    using parts by (elim conjE)
  have new: "vid \<notin> fst ` set (cd_traces db)" "vid \<notin> fst ` fst ` set (cd_citations db)" using t c ins(3) by blast+
  have new_image: "vid \<notin> fst ` fst ` set (cd_images db)"
  proof
    assume "vid \<in> fst ` fst ` set (cd_images db)"
    then obtain k r where "((vid, k), r) \<in> set (cd_images db)" by force
    with im have "(vid, sn_evidence r) \<in> fst ` set (cd_citations db)" by fastforce
    then have "vid \<in> fst ` fst ` set (cd_citations db)" by force
    with new(2) show False by simp
  qed
  have "version_citations (lw_available lib) db' vid = map (shown_citation lib) (ga_citations a)"
    unfolding version_citations_def citations rows_of_appended [where ordinal = sc_ordinal and h = citation_of and g = er_id, OF new(2) citation_of_def [THEN arg_cong [where f = sc_ordinal], simplified]] map_map
    by (rule enumerate_map) (use locators(1) in \<open>simp add: citation_payload_def shown_citation_def citation_of_def stored_object_text
        stored_list_text json_strings_in_strings del: json_text.simps json_ok.simps\<close>)
  moreover have "version_images (lw_available lib) (lw_absolute lib) (lw_is_file lib) db' vid = map (shown_image lib relative) (ga_images a)"
    unfolding version_images_def images rows_of_appended [where ordinal = sn_ordinal and h = "image_of relative" and g = ai_id, OF new_image image_of_def [THEN arg_cong [where f = sn_ordinal], simplified]] map_map
    by (rule enumerate_map) (use locators(2) in \<open>simp add: image_payload_def shown_image_def image_of_def stored_object_text Let_def
        del: json_text.simps json_ok.simps\<close>)
  moreover have "version_retrieval_trace db' vid = Inr (ga_trace a)"
  proof -
    have "map_of (cd_traces db) vid = None" using new(1) by (simp add: map_of_eq_None_iff)
    then have "map_of (cd_traces db') vid = Some (json_text (trace_as_dict (ga_trace a)))"
      by (simp add: traces map_of_append map_add_def)
    then show ?thesis by (simp only: version_retrieval_trace_def option.case trace_roundtrip [OF trace])
  qed
  moreover have "version db' vid = Some ?v"
    using ins(3) by (simp add: versions map_of_append map_add_def map_of_eq_None_iff [THEN iffD2])
  moreover have strings: "JList (stored_list (json_text (json_strings ss))) = json_strings ss" for ss
    by (simp only: stored_list_text) (simp add: json_strings_def)
  ultimately show ?thesis
    by (intro exI [of _ ?v]) (simp add: version_payload_def shown_answer_def version_of_answer_def stored_plan_text strings
        del: json_text.simps)
qed

subsection \<open>What the conversations promise\<close>


text \<open>
  C35 A stored answer is immutable: while its conversation is not deleted, no later event
  changes the version, its citations, its images or its trace.
\<close>

theorem stored_answers_immutable:
  assumes "answers_of (cm_db (fold perform before conversation_start)) vid cid" "Delete cid \<notin> set after"
  shows "snapshot_of vid (cm_db (fold perform (before @ after) conversation_start)) =
    snapshot_of vid (cm_db (fold perform before conversation_start))"
  using answers_immutable_run [OF assms(1) events_ok [OF conversation_start_ok] assms(2)] by simp

text \<open>
  A restart settles every answer: no message stays generating, so no conversation is
  blocked, whatever ran, failed or was lost before.
\<close>

theorem restart_unblocks:
  "\<not> has_running_message (cm_db (fold perform (events @ [Restart now]) conversation_start)) cid"
proof -
  let ?s = "fold perform (events @ [Restart now]) conversation_start"
  have ok: "machine_ok ?s" by (rule events_ok [OF conversation_start_ok])
  moreover have "cm_pending ?s = []" "cm_lost ?s = []" by simp_all
  ultimately have "\<forall>k m. message (cm_db ?s) k = Some m \<longrightarrow> mg_status m \<noteq> ''generating''"
    and "table_ok (cd_messages (cm_db ?s))"
    unfolding machine_ok_def pending_ok_def conversations_ok_def tables_keyed_def by (simp_all del: fold_append perform.simps)
  then show ?thesis by (auto simp: has_running_message_def list_ex_iff map_of_eq_Some_iff simp del: fold_append perform.simps)
qed

text \<open>
  A question asked while other requests run is its events: the turn begins, the others
  come, and the answer is stored or its failure marked, all on the tables the others left.
\<close>

theorem ask_is_its_events:
  assumes "py_strip question \<noteq> []" "u \<notin> running_id ` set (cm_pending s)" "a \<notin> running_id ` set (cm_pending s)"
    "begin_turn catalog cid (py_strip question) u a begun (cm_db s) = Inr ((context, scope), db)"
    "Asking a \<in> set (cm_pending (fold perform others (perform (Ask catalog cid question u a begun) s)))"
  shows "snd (ask lib catalog relative generate (\<lambda>db. cm_db (fold perform others (s\<lparr>cm_db := db, cm_pending := Asking a # cm_pending s\<rparr>)))
      cid question (u, a, vid) (begun, finished) (cm_db s)) =
    cm_db (fold perform ([Ask catalog cid question u a begun] @ others @
      [case generate context scope of Inl e \<Rightarrow> Failed (Asking a) finished
       | Inr answer \<Rightarrow> Answered (Asking a) relative vid answer finished]) s)"
proof -
  define s1 where "s1 = s\<lparr>cm_db := db, cm_pending := Asking a # cm_pending s\<rparr>"
  define s2 where "s2 = fold perform others s1"
  have begins: "perform (Ask catalog cid question u a begun) s = s1" using assms(1-4) by (simp add: s1_def)
  then have pending: "Asking a \<in> set (cm_pending s2)" using assms(5) by (simp add: s2_def del: perform.simps)
  show ?thesis
  proof (cases "generate context scope")
    case (Inl e)
    with pending show ?thesis
      using assms(1,4) by (simp add: begins ask_def Let_def settle_failed_def s2_def s1_def del: perform.simps(6))
  next
    case (Inr answer)
    have shown: "snd (get_conversation lib cid False db') = db'" for db' by (simp add: get_conversation_def Let_def)
    show ?thesis
    proof (cases "append_answer_version relative vid a answer True finished (cm_db s2)")
      case (Inl e)
      with Inr pending show ?thesis
        using assms(1,4) by (simp add: begins ask_def Let_def s2_def s1_def del: perform.simps(6))
    next
      case stored: (Inr db')
      with Inr pending show ?thesis
        using assms(1,4) by (simp add: begins ask_def Let_def shown s2_def s1_def del: perform.simps(6))
    qed
  qed
qed

subsection \<open>A conversation with one answer\<close>

definition sample_asked :: conversation_machine where
  "sample_asked = fold perform
     [Create ''c'' None ''t'', Ask None ''c'' ''Why?'' ''u'' ''a'' ''t''] conversation_start"

definition sample_answer :: grounded_answer where
  "sample_answer =
     \<lparr>ga_id = ''g'', ga_question = ''Why?'', ga_text = ''So [1]'', ga_plan = \<lparr>rp_query = ''why'', rp_terms = [], rp_source = ''local''\<rparr>,
      ga_citations = [], ga_degradations = [], ga_created_at = ''t'', ga_images = [], ga_trace = empty_trace,
      ga_status = ''completed'', ga_code = None, ga_reason = None\<rparr>"

lemma sample_begins:
  "perform (Create ''c'' None ''t'') conversation_start =
     \<lparr>cm_db = conversation_db_empty\<lparr>cd_conversations := [(''c'', \<lparr>cv_title = ''New conversation'', cv_draft = [], cv_created = ''t'', cv_updated = ''t''\<rparr>)],
        cd_last := Some ''c''\<rparr>, cm_pending = [], cm_lost = []\<rparr>"
  by code_simp

lemma sample_asked_eq:
  "sample_asked =
     \<lparr>cm_db = \<lparr>cd_conversations = [(''c'', \<lparr>cv_title = ''Why?'', cv_draft = [], cv_created = ''t'', cv_updated = ''t''\<rparr>)],
        cd_messages =
          [(''u'', \<lparr>mg_conversation = ''c'', mg_ordinal = 0, mg_role = User_Message, mg_content = ''Why?'', mg_status = ''completed'',
             mg_reply = None, mg_selected = None, mg_created = ''t'', mg_updated = ''t''\<rparr>),
           (''a'', \<lparr>mg_conversation = ''c'', mg_ordinal = 1, mg_role = Assistant_Message, mg_content = [], mg_status = ''generating'',
             mg_reply = Some ''u'', mg_selected = None, mg_created = ''t'', mg_updated = ''t''\<rparr>)],
        cd_versions = [], cd_citations = [], cd_traces = [], cd_images = [], cd_last = Some ''c''\<rparr>,
      cm_pending = [Asking ''a''], cm_lost = []\<rparr>"
  by code_simp

definition sample_answered :: conversation_machine where
  "sample_answered = perform (Answered (Asking ''a'') (\<lambda>f. f) ''v'' sample_answer ''t'') sample_asked"

lemma sample_answered_known: "answers_of (cm_db sample_answered) ''v'' ''c''"
  unfolding sample_answered_def sample_asked_eq
  by (simp add: append_answer_version_def insert_answer_version_def next_version_number_def sample_answer_def version_of_answer_def
      insert_row_def update_message_def update_where_def answers_of_def)

theorem stored_answers_immutable_witness:
  "version (cm_db (fold perform [Regenerate None ''c'' ''a'' ''t'', Rename ''c'' ''Other'' ''t'', Restart ''t''] sample_answered)) ''v'' =
     Some (version_of_answer ''a'' 1 sample_answer)"
proof -
  have run: "sample_answered = fold perform [Create ''c'' None ''t'', Ask None ''c'' ''Why?'' ''u'' ''a'' ''t'',
      Answered (Asking ''a'') (\<lambda>f. f) ''v'' sample_answer ''t''] conversation_start"
    by (simp add: sample_answered_def sample_asked_def del: perform.simps)
  have "version (cm_db sample_answered) ''v'' = Some (version_of_answer ''a'' 1 sample_answer)"
    unfolding sample_answered_def sample_asked_eq
    by (simp add: append_answer_version_def insert_answer_version_def next_version_number_def sample_answer_def insert_row_def
        update_message_def)
  then show ?thesis
    using stored_answers_immutable [OF sample_answered_known [unfolded run],
        of "[Regenerate None ''c'' ''a'' ''t'', Rename ''c'' ''Other'' ''t'', Restart ''t'']"]
    unfolding fold_append comp_apply run [symmetric] by (simp add: snapshot_of_def del: perform.simps)
qed

theorem ask_is_its_events_witness:
  "snd (ask \<lparr>lw_available = (\<lambda>d. True), lw_absolute = (\<lambda>f. f), lw_is_file = (\<lambda>f. True)\<rparr> None (\<lambda>f. f) (\<lambda>context scope. Inr sample_answer) (\<lambda>db. db) ''c'' ''Why?'' (''u'', ''a'', ''v'') (''t'', ''t'')
      (cm_db (perform (Create ''c'' None ''t'') conversation_start))) =
    cm_db sample_answered"
proof -
  let ?s = "perform (Create ''c'' None ''t'') conversation_start"
  have "(case begin_turn None ''c'' (py_strip ''Why?'') ''u'' ''a'' ''t'' (cm_db ?s) of Inl e \<Rightarrow> False | Inr r \<Rightarrow> True)"
    by code_simp
  then obtain earlier scope db where begun: "begin_turn None ''c'' (py_strip ''Why?'') ''u'' ''a'' ''t'' (cm_db ?s) = Inr ((earlier, scope), db)"
    by (auto split: sum.splits)
  have strip: "py_strip ''Why?'' \<noteq> []" by code_simp
  have idle: "cm_pending ?s = []" unfolding sample_begins by simp
  have asked: "perform (Ask None ''c'' ''Why?'' ''u'' ''a'' ''t'') ?s = sample_asked" by (simp add: sample_asked_def)
  have pending: "Asking ''a'' \<in> set (cm_pending (fold perform [] (perform (Ask None ''c'' ''Why?'' ''u'' ''a'' ''t'') ?s)))"
    by (simp add: asked sample_asked_eq del: perform.simps)
  from ask_is_its_events [OF strip _ _ begun pending, of _ "\<lambda>f. f" "\<lambda>earlier scope. Inr sample_answer" "''v''" "''t''"] idle
  show ?thesis by (simp add: asked sample_answered_def del: perform.simps)
qed

text \<open>
  What is stored is what is shown: the payload of a version just stored has the text, the
  citations and images in their order, the plan and the trace of the answer, read back from
  the tables it was spread over; with the immutability of versions it stays so.
\<close>

theorem stored_answer_reads_back:
  assumes "append_answer_version relative vid mid a True now (cm_db (fold perform events conversation_start)) = Inr db"
    "trace_ok (ga_trace a)" "\<forall>r\<in>set (ga_citations a). json_ok (JObj (er_locator r))" "\<forall>x\<in>set (ga_images a). json_ok (JObj (ai_locator x))"
  shows "\<exists>v. version db vid = Some v \<and> version_payload lib db (vid, v) =
    Inr (shown_answer lib relative vid (next_version_number (cm_db (fold perform events conversation_start)) mid) a)"
proof -
  have "conversations_ok (cm_db (fold perform events conversation_start))"
    using events_ok [OF conversation_start_ok] by (simp add: machine_ok_def)
  from appended_payload [OF this assms] show ?thesis .
qed

theorem stored_answer_reads_back_witness:
  "\<exists>db v. version_payload \<lparr>lw_available = (\<lambda>d. True), lw_absolute = (\<lambda>f. f), lw_is_file = (\<lambda>f. True)\<rparr> db (''v'', v) =
    Inr (shown_answer \<lparr>lw_available = (\<lambda>d. True), lw_absolute = (\<lambda>f. f), lw_is_file = (\<lambda>f. True)\<rparr> (\<lambda>f. f) ''v'' 1 sample_answer)"
proof -
  have run: "fold perform [Create ''c'' None ''t'', Ask None ''c'' ''Why?'' ''u'' ''a'' ''t''] conversation_start = sample_asked"
    by (simp add: sample_asked_def del: perform.simps)
  have "\<exists>db. append_answer_version (\<lambda>f. f) ''v'' ''a'' sample_answer True ''t'' (cm_db sample_asked) = Inr db"
    unfolding sample_asked_eq
    by (simp add: append_answer_version_def insert_answer_version_def next_version_number_def sample_answer_def insert_row_def Let_def)
  then obtain db where "append_answer_version (\<lambda>f. f) ''v'' ''a'' sample_answer True ''t'' (cm_db sample_asked) = Inr db" by blast
  note appended = this [folded run]
  have "trace_ok (ga_trace sample_answer)" unfolding sample_answer_def by code_simp
  moreover have "ga_citations sample_answer = []" "ga_images sample_answer = []" by (simp_all add: sample_answer_def)
  moreover have "next_version_number (cm_db sample_asked) ''a'' = 1" unfolding sample_asked_eq by (simp add: next_version_number_def)
  ultimately show ?thesis
    using stored_answer_reads_back [OF appended, of "\<lparr>lw_available = (\<lambda>d. True), lw_absolute = (\<lambda>f. f), lw_is_file = (\<lambda>f. True)\<rparr>"]
    unfolding run by auto
qed

end
