(* ===== verification/Spec2Isabelle.thy ===== *)
theory Spec2Isabelle
  imports Locks AtomicWrite Protocol OperationState PagePlanning AnalysisProposal ImportLifecycle ParallelMap Backfill
    OutputRecovery AnalysisResume ThreeWayMerge AnalysisMerge ConversationMachine
begin

text \<open>
  OpenKB: a verification development beside the Engine (\<open>src/openkb\<close>), the local process
  that imports documents, has a language model analyse them and answers from the result.

  \<^bold>\<open>The program.\<close>  The desktop shell starts the Engine and talks to it over a private
  pipe (\<open>engine/protocol.py\<close>).  An import is a job with a fixed sequence of stages whose
  state lives in one SQLite database (\<open>importing/store.py\<close>, \<open>workspace/runtime.py\<close>): the
  source is parsed into a Document IR (\<open>importing/artifacts.py\<close>), a PageTree is built over
  it (\<open>page_tree/tree.py\<close>), the Evidence is packed into batches that fit the model
  (\<open>knowledge/analysis\<close>), the batches are analysed on a bounded pool of threads
  (\<open>shared/parallel.py\<close>), and the last transaction publishes the document, sharing what the
  library already holds (\<open>importing/deduplication.py\<close>).  Every stage leaves a checkpoint, so
  that a job interrupted at any point is resumed; a failed one is quarantined and recovered.
  Which model operation may be dispatched after failures is remembered across jobs
  (\<open>models/operation_state.py\<close>).  All writers hold a lock (\<open>locks.py\<close>).  A question is
  answered from Evidence the retrieval found (\<open>answers/grounded.py\<close>): the text is streamed to
  the client while it is generated and then stored as a version of the answer in its
  conversation (\<open>answers/conversations.py\<close>).

  \<^bold>\<open>The theories\<close>, each with the files it models.

  \<^item> \<open>Prelude\<close>: exceptions as the datatype \<open>error\<close>, results \<open>'a res\<close> (\<open>Inl\<close> an exception),
    Python strings as UTF-8 code units, tables as association lists.
  \<^item> \<open>Locks\<close> (\<open>locks.py\<close>): the reader/writer lock as a step relation over program counters of
    threads, whose waiters sleep until \<open>notify_all\<close> wakes them; nested named locks with the
    failures of the operating system at each of their calls.
  \<^item> \<open>AtomicWrite\<close> (the same file): \<open>atomic_write_bytes\<close> as a list of file system calls on a
    disk that keeps unflushed names and contents apart from stable storage.  A crash is a
    prefix of the calls and any choice of what was not flushed.
  \<^item> \<open>Json\<close>, \<open>JsonText\<close> (\<open>shared/canonical_json.py\<close> and the uses of \<open>json\<close>): values, the two
    printers and the parser.  The fuel \<open>2 * length s + 2\<close> of the parser always suffices
    (\<open>json_fuel_enough\<close>).
  \<^item> \<open>Protocol\<close> (\<open>engine/protocol.py\<close>): frames over an arbitrary stream (locale \<open>byte_stream\<close>)
    and the validation of requests and recovery overrides.
  \<^item> \<open>OperationState\<close> (\<open>models/operation_state.py\<close>): the contract store; its tables refine an
    abstract retry gate (locale \<open>retry_gate\<close>).
  \<^item> \<open>DocumentIR\<close> (\<open>importing/artifacts.py\<close>), \<open>PageTree\<close>, \<open>PageSections\<close> (\<open>page_tree/tree.py\<close>):
    parsing, the tree, their checkpoints, and the groups of Evidence by section.  The walk up
    the tree has fuel, the number of nodes, enough for every tree the builder makes; a stored
    tree whose paragraph is its own parent makes the code loop (\<open>cyclic_outcome\<close>).
  \<^item> \<open>PagePlanning\<close> (\<open>knowledge/pages/planning.py\<close>): page plans proposed by the model.
  \<^item> \<open>ExecutionProfile\<close>, \<open>AnalysisBatches\<close>, \<open>AnalysisPrompts\<close>, \<open>AnalysisPlan\<close>, \<open>AnalysisProposal\<close>
    (\<open>models/execution_profile.py\<close>, \<open>knowledge/analysis/batch_planning.py\<close>, \<open>plan.py\<close>, the
    beginning of \<open>batches.py\<close>): token budgets, batches, prompts and the plan an analysis is
    pinned to.  The merge topology has fuel, the number of batches, always enough
    (\<open>merge_topology_total\<close>).
  \<^item> \<open>StoredPlan\<close>, \<open>BatchStore\<close>, \<open>AnalysisResume\<close> (\<open>batch_store.py\<close>): plans read back from their
    canonical text, the rows of batches and merges with every operation of the store, and its
    interleavings; a superseded execution is fenced, a resumed one continues exactly.
  \<^item> \<open>OutputRecovery\<close> (\<open>output_recovery.py\<close>): batches split in halves at the output limit.
  \<^item> \<open>TextForms\<close>, \<open>AnalysisResult\<close>, \<open>AnalysisRestore\<close> (\<open>pages/titles.py\<close>, \<open>analysis/service.py\<close>,
    \<open>validation.py\<close>): normal forms of text, the parser of a model's analysis, and that what it
    accepts is bounded and is read back.
  \<^item> \<open>OrderedDict\<close>, \<open>AnalysisMerge\<close> (\<open>analysis/merge.py\<close>): loops that collect values in a
    dictionary (locales \<open>dict_loop\<close>, \<open>dict_merge\<close>) and the merge of analyses built of three
    such loops.
  \<^item> \<open>ThreeWayMerge\<close> (\<open>knowledge/reconciliation/three_way_merge.py\<close>): incoming changes applied to
    a working draft, with the block matching of \<open>difflib\<close>.
  \<^item> \<open>StructuredOutput\<close> (\<open>models/structured_output.py\<close>, \<open>models/gateway.py\<close>): the validation of
    a model result and its single repair.  The fuel of the example of a schema is its
    nesting.
  \<^item> \<open>ImportTables\<close>, \<open>ImportStore\<close>, \<open>ImportRecovery\<close> (\<open>importing/store.py\<close>, \<open>recovery.py\<close>,
    \<open>quarantine.py\<close>, \<open>reparse.py\<close>): the tables of jobs, stages, leases and recoveries and every
    operation on them; \<open>ImportMachine\<close> runs them in any order, and \<open>ImportLifecycle\<close> states
    what interruption and recovery keep.
  \<^item> \<open>LibraryTables\<close>, \<open>Publication\<close>, \<open>LibraryInvariant\<close>, \<open>ContentReuse\<close>, \<open>Backfill\<close>
    (\<open>importing/deduplication.py\<close>, parts of \<open>queries.py\<close> and \<open>store.py\<close>): the published library,
    the publication and the reuse of content, the backfill of older libraries.
  \<^item> \<open>ParallelMap\<close> (\<open>shared/parallel.py\<close>): the thread pool as an interleaving of the main
    thread and its workers, equivalent to the sequential loop.

  \<^item> \<open>AnswerPolicy\<close>, \<open>RetrievalTrace\<close>, \<open>GroundedAnswer\<close>, \<open>AnswerStream\<close> (\<open>answers/budget.py\<close>,
    \<open>outline.py\<close>, \<open>types.py\<close>, \<open>grounded.py\<close>, \<open>retrieval/trace.py\<close>): the budget of an answer and
    its citation guard, the record of a retrieval, the preparation of the pack and the prompt,
    and one attempt with the deltas it streams.
  \<^item> \<open>Conversations\<close>, \<open>ConversationMachine\<close> (\<open>answers/conversations.py\<close>,
    \<open>conversation_snapshots.py\<close>): messages and immutable answer versions with every operation
    on them; requests, ends of generations and restarts in any order.

  \<^bold>\<open>What is an argument\<close> because it is not code of the repository, or is input: SHA-256,
  fresh identifiers (\<open>ids i\<close> the \<open>i\<close>-th drawn) and clocks, Unicode normalisation and case
  mapping, \<open>Path(..).name\<close>, the operating system's locks and files, the stream of the pipe, the
  model (a function from requests to results) and local validators.  SQLite transactions
  are atomic: an operation on the tables is one state transformer, and one that raises
  leaves the tables as they were; a crash falls between two of them.

  \<^bold>\<open>Not modelled\<close>, with the reasons in the manifest: the parsers of office formats and PDF
  (third-party code), the network transport and its settings, full-text and vector
  retrieval, pages other than their plans, the knowledge graph, the staging of
  reconciliations, export, diagnostics, the evaluation harness, and the handlers that only
  convert between the pipe and these services.

  \<^bold>\<open>Limits of the models.\<close>  \<open>json.loads\<close> has neither the limit of 4300 digits of an integer nor
  that of the recursion depth, and a float is its lexeme.  A row of a reuse is not checked
  against its foreign key to the job.  The steps of a library (\<open>library_step\<close>) are its
  publications and the import steps; the quarantine of a raw asset found damaged, which
  changes the availability of its document, and the backfill of older libraries, modelled in
  \<open>Backfill\<close>, are not among them.  The callback of a delta runs outside the lock of the stream;
  one thread makes all of these calls, and \<open>panel_any_order\<close> covers other deliveries.
\<close>

end
